(* ===== verification/Prelude.thy ===== *)
theory Prelude
  imports Complex_Main "HOL-Library.AList" "HOL-Library.Char_ord" "HOL-Library.List_Lexorder"
    "HOL-Library.Multiset"
begin

text \<open>
  Shared layer of the development: the parts of JavaScript the components use (strings,
  numbers that may be \<open>NaN\<close> or infinite, the insertion-ordered \<open>Map\<close>, \<open>toSorted\<close>) and the
  interfaces (locales) that several components provide: a system whose operations keep an
  invariant, a store whose operations touch one key only, and a comparator for sorting.

  Strings are \<^typ>\<open>string\<close>, read as UTF-16 code units below 256 (Latin-1).  Timestamps, counters
  and durations the code keeps as integral numbers of milliseconds are \<^typ>\<open>int\<close> or \<^typ>\<open>nat\<close>;
  numbers that come from configuration are \<open>jsnum\<close>, where a finite number is a rational.
\<close>

named_theorems js_defs \<open>definitions of JavaScript primitives, for evaluation on closed terms\<close>

section \<open>Strings\<close>

text \<open>\<open>String.prototype.trim\<close> strips white space and line terminators; these are the ones below 256.\<close>

definition js_ws :: "char \<Rightarrow> bool" where
  "js_ws c \<longleftrightarrow> of_char c \<in> {9::nat, 10, 11, 12, 13, 32, 160}"

definition js_trim_start :: "string \<Rightarrow> string" where
  "js_trim_start s = dropWhile js_ws s"

definition js_trim_end :: "string \<Rightarrow> string" where
  "js_trim_end s = rev (dropWhile js_ws (rev s))"

definition js_trim :: "string \<Rightarrow> string" where
  "js_trim s = js_trim_end (js_trim_start s)"

text \<open>\<open>toLowerCase\<close> on Latin-1: A-Z and the accented capitals except the multiplication sign.\<close>

definition js_lower_char :: "char \<Rightarrow> char" where
  "js_lower_char c =
     (let n = (of_char c :: nat)
      in if (65 \<le> n \<and> n \<le> 90) \<or> (192 \<le> n \<and> n \<le> 222 \<and> n \<noteq> 215) then char_of (n + 32) else c)"

definition js_lower :: "string \<Rightarrow> string" where
  "js_lower s = map js_lower_char s"

definition js_startsWith :: "string \<Rightarrow> string \<Rightarrow> bool" where
  "js_startsWith s p \<longleftrightarrow> take (length p) s = p"

fun js_includes :: "string \<Rightarrow> string \<Rightarrow> bool" where
  "js_includes [] p = (p = [])"
| "js_includes (c # s) p = (js_startsWith (c # s) p \<or> js_includes s p)"

fun js_join :: "string \<Rightarrow> string list \<Rightarrow> string" where
  "js_join sep [] = []"
| "js_join sep [x] = x"
| "js_join sep (x # y # ys) = x @ sep @ js_join sep (y # ys)"

definition js_digit :: "nat \<Rightarrow> char" where
  "js_digit n = char_of (48 + n)"

fun js_show_nat :: "nat \<Rightarrow> string" where
  "js_show_nat n = (if n < 10 then [js_digit n] else js_show_nat (n div 10) @ [js_digit (n mod 10)])"

declare js_show_nat.simps [simp del]

definition js_show_int :: "int \<Rightarrow> string" where
  "js_show_int i = (if i < 0 then ''-'' @ js_show_nat (nat (- i)) else js_show_nat (nat i))"

lemmas js_string_defs [js_defs] =
  js_ws_def js_trim_start_def js_trim_end_def js_trim_def js_lower_char_def js_lower_def
  js_startsWith_def js_digit_def js_show_int_def

lemma js_trim_Nil [simp]: "js_trim [] = []"
  by (simp add: js_trim_def js_trim_start_def js_trim_end_def)

lemma js_trim_end_Nil [simp]: "js_trim_end [] = []"
  by (simp add: js_trim_end_def)

lemma dropWhile_idem_hd: "xs = [] \<or> \<not> P (hd xs) \<Longrightarrow> dropWhile P xs = xs"
  by (cases xs) auto

lemma hd_js_trim_end:
  assumes "js_trim_end s \<noteq> []"
  shows "hd (js_trim_end s) = hd s"
proof -
  obtain ys where "rev s = ys @ dropWhile js_ws (rev s)"
    by (metis takeWhile_dropWhile_id)
  then have "s = js_trim_end s @ rev ys"
    unfolding js_trim_end_def by (metis rev_append rev_rev_ident)
  with assms show ?thesis by (metis hd_append2)
qed

lemma js_trim_idem [simp]: "js_trim (js_trim s) = js_trim s"
proof -
  let ?t = "js_trim_start s"
  have "?t = [] \<or> \<not> js_ws (hd ?t)"
    unfolding js_trim_start_def using hd_dropWhile by blast
  then have "js_trim s = [] \<or> \<not> js_ws (hd (js_trim s))"
    unfolding js_trim_def using hd_js_trim_end by (metis js_trim_end_Nil)
  then have start: "js_trim_start (js_trim s) = js_trim s"
    unfolding js_trim_start_def by (rule dropWhile_idem_hd)
  have "js_trim_end (js_trim s) = js_trim s"
    unfolding js_trim_def js_trim_end_def by (simp add: dropWhile_idem_hd hd_dropWhile)
  with start show ?thesis by (simp add: js_trim_def)
qed

lemma length_js_trim: "length (js_trim s) \<le> length s"
proof -
  have "length (js_trim_end s) \<le> length s" for s
    unfolding js_trim_end_def by (metis length_dropWhile_le length_rev)
  moreover have "length (js_trim_start s) \<le> length s"
    unfolding js_trim_start_def by (rule length_dropWhile_le)
  ultimately show ?thesis unfolding js_trim_def by (meson order_trans)
qed

lemma js_show_nat_nonempty [simp]: "js_show_nat n \<noteq> []"
  by (subst js_show_nat.simps) simp

lemma js_show_int_nonempty [simp]: "js_show_int i \<noteq> []"
  by (simp add: js_show_int_def)

lemma set_js_trim_subset: "set (js_trim s) \<subseteq> set s"
proof -
  have "set (js_trim_end t) \<subseteq> set t" for t
    unfolding js_trim_end_def using set_dropWhileD by fastforce
  moreover have "set (js_trim_start s) \<subseteq> set s"
    unfolding js_trim_start_def using set_dropWhileD by fastforce
  ultimately show ?thesis unfolding js_trim_def by blast
qed

lemma js_trim_no_ws: "\<forall>c \<in> set s. \<not> js_ws c \<Longrightarrow> js_trim s = s"
proof -
  assume a: "\<forall>c \<in> set s. \<not> js_ws c"
  have d: "dropWhile js_ws t = t" if "\<forall>c \<in> set t. \<not> js_ws c" for t
    using that by (cases t) auto
  from a show ?thesis by (simp add: js_trim_def js_trim_start_def js_trim_end_def d)
qed

text \<open>\<open>normalizeOptionalString\<close> (src/shared/string-coerce.ts): trim, and drop the empty string.\<close>

definition normalizeNullableString :: "string option \<Rightarrow> string option" where
  "normalizeNullableString v =
     (case v of None \<Rightarrow> None
      | Some s \<Rightarrow> (let trimmed = js_trim s in if trimmed = [] then None else Some trimmed))"

definition normalizeOptionalString :: "string option \<Rightarrow> string option" where
  "normalizeOptionalString v = normalizeNullableString v"

definition normalizeOptionalLowercaseString :: "string option \<Rightarrow> string option" where
  "normalizeOptionalLowercaseString v = map_option js_lower (normalizeOptionalString v)"

definition normalizeLowercaseStringOrEmpty :: "string option \<Rightarrow> string" where
  "normalizeLowercaseStringOrEmpty v =
     (case normalizeOptionalLowercaseString v of None \<Rightarrow> [] | Some s \<Rightarrow> s)"

lemma normalizeOptionalString_None [simp]: "normalizeOptionalString None = None"
  by (simp add: normalizeOptionalString_def normalizeNullableString_def)

lemma normalizeOptionalString_Some_iff:
  "normalizeOptionalString v = Some t \<longleftrightarrow> (\<exists>s. v = Some s \<and> t = js_trim s \<and> t \<noteq> [])"
  by (auto simp: normalizeOptionalString_def normalizeNullableString_def Let_def
      split: option.splits if_splits)

lemma normalizeOptionalString_nonempty: "normalizeOptionalString v \<noteq> Some []"
  by (simp add: normalizeOptionalString_Some_iff)

lemma normalizeOptionalString_idem [simp]:
  "normalizeOptionalString (normalizeOptionalString v) = normalizeOptionalString v"
  by (cases v) (auto simp: normalizeOptionalString_def normalizeNullableString_def Let_def)

text \<open>\<open>s.split(c)\<close> at a single character\<close>

fun splitOn :: "char \<Rightarrow> string \<Rightarrow> string list" where
  "splitOn c [] = [[]]"
| "splitOn c (x # xs) =
     (if x = c then [] # splitOn c xs
      else (case splitOn c xs of [] \<Rightarrow> [[x]] | y # ys \<Rightarrow> (x # y) # ys))"

text \<open>\<open>v ?? ""\<close>\<close>

definition orEmpty :: "string option \<Rightarrow> string" where
  "orEmpty v = (case v of None \<Rightarrow> [] | Some s \<Rightarrow> s)"

section \<open>Numbers that may be NaN or infinite\<close>

datatype jsnum = Fin rat | NaN | PosInf | NegInf

definition jn_finite :: "jsnum \<Rightarrow> bool" where
  "jn_finite x \<longleftrightarrow> (case x of Fin _ \<Rightarrow> True | _ \<Rightarrow> False)"

fun jn_floor :: "jsnum \<Rightarrow> jsnum" where
  "jn_floor (Fin r) = Fin (of_int \<lfloor>r\<rfloor>)"
| "jn_floor x = x"

text \<open>\<open>a < b\<close>: every comparison with NaN is false.\<close>

fun jn_less :: "jsnum \<Rightarrow> jsnum \<Rightarrow> bool" where
  "jn_less NaN _ = False"
| "jn_less _ NaN = False"
| "jn_less (Fin a) (Fin b) = (a < b)"
| "jn_less NegInf NegInf = False"
| "jn_less NegInf _ = True"
| "jn_less (Fin _) PosInf = True"
| "jn_less _ _ = False"

text \<open>\<open>Math.max(a, b)\<close>: NaN if either is NaN.\<close>

definition jn_max :: "jsnum \<Rightarrow> jsnum \<Rightarrow> jsnum" where
  "jn_max a b = (if a = NaN \<or> b = NaN then NaN else if jn_less a b then b else a)"

abbreviation jn_of_nat :: "nat \<Rightarrow> jsnum" where
  "jn_of_nat n \<equiv> Fin (of_nat n)"

abbreviation jn_of_int :: "int \<Rightarrow> jsnum" where
  "jn_of_int n \<equiv> Fin (of_int n)"

lemma jn_less_irrefl [simp]: "\<not> jn_less x x"
  by (cases x) auto

lemma jn_less_trans: "jn_less a b \<Longrightarrow> jn_less b c \<Longrightarrow> jn_less a c"
  by (cases a; cases b; cases c) auto

lemma jn_less_NaN [simp]: "\<not> jn_less x NaN"
  by (cases x) auto

section \<open>The insertion-ordered Map\<close>

text \<open>
  A JavaScript \<open>Map\<close> iterates in insertion order; \<open>set\<close> on a present key keeps its place and a new
  key goes last.  That is \<^const>\<open>AList.update\<close> on an association list.
\<close>

type_synonym ('k, 'v) jsmap = "('k \<times> 'v) list"

abbreviation jm_get :: "('k, 'v) jsmap \<Rightarrow> 'k \<Rightarrow> 'v option" where
  "jm_get m k \<equiv> map_of m k"

abbreviation jm_set :: "'k \<Rightarrow> 'v \<Rightarrow> ('k, 'v) jsmap \<Rightarrow> ('k, 'v) jsmap" where
  "jm_set \<equiv> AList.update"

abbreviation jm_delete :: "'k \<Rightarrow> ('k, 'v) jsmap \<Rightarrow> ('k, 'v) jsmap" where
  "jm_delete \<equiv> AList.delete"

abbreviation jm_wf :: "('k, 'v) jsmap \<Rightarrow> bool" where
  "jm_wf m \<equiv> distinct (map fst m)"

lemma jm_get_set: "jm_get (jm_set k v m) k' = (if k' = k then Some v else jm_get m k')"
  by (simp add: update_conv')

lemma jm_get_delete: "jm_get (jm_delete k m) k' = (if k' = k then None else jm_get m k')"
  by (simp add: delete_conv')

lemma jm_wf_set [simp]: "jm_wf m \<Longrightarrow> jm_wf (jm_set k v m)"
  by (rule distinct_update)

lemma jm_wf_delete [simp]: "jm_wf m \<Longrightarrow> jm_wf (jm_delete k m)"
  by (rule distinct_delete)

lemma jm_entry_iff: "jm_wf m \<Longrightarrow> (k, v) \<in> set m \<longleftrightarrow> jm_get m k = Some v"
  by (metis map_of_is_SomeI map_of_SomeD)

lemma set_jm_set_subset: "set (jm_set k v m) \<subseteq> insert (k, v) (set m)"
  by (induction m) auto

lemma set_jm_delete_subset: "set (jm_delete k m) \<subseteq> set m"
  by (auto simp: AList.delete_eq)

lemma length_jm_set: "length (jm_set k v m) = (if k \<in> fst ` set m then length m else Suc (length m))"
  by (induction m) auto

lemma mset_concat_jm_set_Some:
  "jm_get m k = Some v0 \<Longrightarrow> jm_wf m \<Longrightarrow>
   mset (concat (map (\<lambda>p. f (snd p)) (jm_set k v m))) + mset (f v0) =
   mset (concat (map (\<lambda>p. f (snd p)) m)) + mset (f v)"
proof (induction m)
  case Nil
  then show ?case by simp
next
  case (Cons p m)
  then show ?case by (cases "fst p = k") auto
qed

lemma jm_set_None: "jm_get m k = None \<Longrightarrow> jm_set k v m = m @ [(k, v)]"
  by (induction m) (auto split: if_splits)

lemma mset_concat_map_eq:
  "(\<And>x. x \<in> set xs \<Longrightarrow> f x = g x) \<Longrightarrow>
   mset (concat (map f xs)) = mset (concat (map g xs))"
  by (metis map_eq_conv)

lemma find_SomeD: "find P xs = Some x \<Longrightarrow> P x"
  by (induction xs) (auto split: if_splits)

lemma find_key:
  "distinct (map key xs) \<Longrightarrow> find (\<lambda>r. key r = i) xs = Some r \<longleftrightarrow> r \<in> set xs \<and> key r = i"
  by (induction xs) auto

section \<open>Stable sorting with a comparator\<close>

text \<open>
  \<open>Array.prototype.toSorted(cmp)\<close> is a stable sort; the model is insertion from the right, which
  keeps the order of elements that compare equal.
\<close>

fun js_insert :: "('a \<Rightarrow> 'a \<Rightarrow> int) \<Rightarrow> 'a \<Rightarrow> 'a list \<Rightarrow> 'a list" where
  "js_insert cmp x [] = [x]"
| "js_insert cmp x (y # ys) = (if cmp x y \<le> 0 then x # y # ys else y # js_insert cmp x ys)"

fun js_toSorted :: "('a \<Rightarrow> 'a \<Rightarrow> int) \<Rightarrow> 'a list \<Rightarrow> 'a list" where
  "js_toSorted cmp [] = []"
| "js_toSorted cmp (x # xs) = js_insert cmp x (js_toSorted cmp xs)"

lemma mset_js_insert [simp]: "mset (js_insert cmp x xs) = add_mset x (mset xs)"
  by (induction xs) auto

lemma mset_js_toSorted [simp]: "mset (js_toSorted cmp xs) = mset xs"
  by (induction xs) auto

lemma set_js_toSorted [simp]: "set (js_toSorted cmp xs) = set xs"
  by (metis mset_js_toSorted set_mset_mset)

lemma length_js_toSorted [simp]: "length (js_toSorted cmp xs) = length xs"
  by (metis mset_js_toSorted size_mset)

text \<open>Code-unit order, which \<open>localeCompare\<close> is on the identifiers the code sorts (UUIDs, lane names).\<close>

definition cu_compare :: "string \<Rightarrow> string \<Rightarrow> int" where
  "cu_compare a b = (if a < b then -1 else if a = b then 0 else 1)"

text \<open>The contract of a comparator: it orders like a total preorder.\<close>

locale comparator =
  fixes cmp :: "'a \<Rightarrow> 'a \<Rightarrow> int"
  assumes cmp_total: "cmp x y \<le> 0 \<or> cmp y x \<le> 0"
    and cmp_trans: "cmp x y \<le> 0 \<Longrightarrow> cmp y z \<le> 0 \<Longrightarrow> cmp x z \<le> 0"
begin

lemma sorted_insert:
  "sorted_wrt (\<lambda>x y. cmp x y \<le> 0) xs \<Longrightarrow> sorted_wrt (\<lambda>x y. cmp x y \<le> 0) (js_insert cmp x xs)"
proof (induction xs)
  case Nil
  then show ?case by simp
next
  case (Cons y ys)
  show ?case
  proof (cases "cmp x y \<le> 0")
    case True
    with Cons.prems show ?thesis by (auto intro: cmp_trans)
  next
    case False
    then have "cmp y x \<le> 0" using cmp_total by blast
    moreover have "set (js_insert cmp x ys) = insert x (set ys)"
      by (metis mset_js_insert set_mset_add_mset_insert set_mset_mset)
    ultimately show ?thesis using Cons False by auto
  qed
qed

lemma sorted_toSorted: "sorted_wrt (\<lambda>x y. cmp x y \<le> 0) (js_toSorted cmp xs)"
  by (induction xs) (auto intro: sorted_insert)

end

interpretation cu: comparator cu_compare
  by unfold_locales (auto simp: cu_compare_def split: if_splits)

section \<open>Interfaces\<close>

text \<open>
  A component whose operations are a step function on its state: an invariant that every
  operation keeps holds after every sequence of operations.
\<close>

locale invariant_system =
  fixes step :: "'s \<Rightarrow> 'e \<Rightarrow> 's"
    and inv :: "'s \<Rightarrow> bool"
  assumes step_inv: "inv s \<Longrightarrow> inv (step s e)"
begin

lemma run_inv: "inv s \<Longrightarrow> inv (foldl step s es)"
  by (induction es arbitrary: s) (auto intro: step_inv)

lemma run_prefix_inv: "inv s \<Longrightarrow> inv (foldl step s (take n es))"
  by (rule run_inv)

end

text \<open>
  A system with a quantity that no operation lets shrink (a revision, an identifier counter, a
  generation).
\<close>

locale monotone_system = invariant_system step inv
  for step :: "'s \<Rightarrow> 'e \<Rightarrow> 's" and inv :: "'s \<Rightarrow> bool" +
  fixes clock :: "'s \<Rightarrow> 'c::order"
  assumes step_mono: "inv s \<Longrightarrow> clock s \<le> clock (step s e)"
begin

lemma run_mono: "inv s \<Longrightarrow> clock s \<le> clock (foldl step s es)"
proof (induction es arbitrary: s)
  case Nil
  then show ?case by simp
next
  case (Cons e es)
  from Cons.prems have "clock s \<le> clock (step s e)" by (rule step_mono)
  also from Cons.prems have "clock (step s e) \<le> clock (foldl step (step s e) es)"
    by (intro Cons.IH step_inv)
  finally show ?case by simp
qed

end

text \<open>
  A store whose operations name one key each: what is kept for another key does not change, so a
  whole run of operations on other keys is invisible at a key.
\<close>

locale keyed_store =
  fixes view :: "'s \<Rightarrow> 'k \<Rightarrow> 'v"
    and op :: "'s \<Rightarrow> 'e \<Rightarrow> 's"
    and key_of :: "'e \<Rightarrow> 'k"
  assumes op_other: "key_of e \<noteq> k \<Longrightarrow> view (op s e) k = view s k"
begin

lemma run_other: "k \<notin> key_of ` set es \<Longrightarrow> view (foldl op s es) k = view s k"
  by (induction es arbitrary: s) (auto simp: op_other)

lemma run_filter_view:
  assumes local: "\<And>s s' e. key_of e = k \<Longrightarrow> view s k = view s' k \<Longrightarrow> view (op s e) k = view (op s' e) k"
  shows "view s k = view s' k \<Longrightarrow>
    view (foldl op s es) k = view (foldl op s' (filter (\<lambda>e. key_of e = k) es)) k"
proof (induction es arbitrary: s s')
  case Nil
  then show ?case by simp
next
  case (Cons e es)
  show ?case
  proof (cases "key_of e = k")
    case True
    then have "view (op s e) k = view (op s' e) k"
      using Cons.prems by (rule local)
    with True show ?thesis by (simp add: Cons.IH)
  next
    case False
    then have "view (op s e) k = view s k" by (rule op_other)
    with Cons.prems have "view (op s e) k = view s' k" by simp
    with False show ?thesis by (simp add: Cons.IH)
  qed
qed

end

end
