(* ===== verification/CommandQueue.thy ===== *)
theory CommandQueue
  imports Prelude
begin

text \<open>
  The in-process command queue, \<open>src/process/command-queue.ts\<close>: named lanes, each with a FIFO queue
  and a bounded number of running tasks; lane generations that make completions of an abandoned
  generation harmless; waiters for the tasks that were active when they were created.

  The code runs between two awaits without interruption, so each exported function and each
  continuation (a task that settles, a timer that fires) is one step on the queue's state.  What a
  closure of \<open>drainLane\<close> remembers of a started task (its id, its lane and the lane's generation, the
  entry whose promise it will settle) is an entry of \<open>inFlight\<close>.  The promises handed to callers
  are numbered; \<open>settled\<close> and \<open>waiterResults\<close> record how promises were settled, \<open>startLog\<close> the
  order in which tasks started and \<open>onWaitCalls\<close> the calls of \<open>onWait\<close>.  Logging is left out.
\<close>

section \<open>State\<close>

datatype settle_error =
  CommandLaneClearedError string
| CommandLaneTaskTimeoutError string int
| TaskError string

datatype outcome = Resolved string | Rejected settle_error

record queue_entry =
  qe_promise :: nat
  qe_enqueuedAt :: int
  qe_warnAfterMs :: int
  qe_taskTimeoutMs :: "jsnum option"
  qe_onWait :: bool

record lane_state =
  ls_lane :: string
  ls_queue :: "queue_entry list"
  ls_activeTaskIds :: "nat list"
  ls_maxConcurrent :: jsnum
  ls_draining :: bool
  ls_generation :: nat

record lane_snapshot =
  snap_lane :: string
  snap_queuedCount :: nat
  snap_activeCount :: nat
  snap_maxConcurrent :: jsnum
  snap_draining :: bool
  snap_generation :: nat

record task_waiter =
  wt_id :: nat
  wt_activeTaskIds :: "nat list"
  wt_timeout :: bool

record in_flight =
  fl_taskId :: nat
  fl_lane :: string
  fl_generation :: nat
  fl_entry :: queue_entry

record command_queue =
  gatewayDraining :: bool
  lanes :: "(string, lane_state) jsmap"
  activeTaskWaiters :: "task_waiter list"
  nextTaskId :: nat
  inFlight :: "in_flight list"
  nextPromise :: nat
  settled :: "(nat \<times> outcome) list"
  nextWaiter :: nat
  waiterResults :: "(nat \<times> bool) list"
  startLog :: "(string \<times> nat) list"
  onWaitCalls :: "(nat \<times> int \<times> nat) list"

definition emptyCommandQueue :: command_queue where
  "emptyCommandQueue =
     \<lparr>gatewayDraining = False, lanes = [], activeTaskWaiters = [], nextTaskId = 1, inFlight = [],
      nextPromise = 0, settled = [], nextWaiter = 0, waiterResults = [], startLog = [],
      onWaitCalls = []\<rparr>"

section \<open>Lanes\<close>

definition normalizeLane :: "string \<Rightarrow> string" where
  "normalizeLane lane = (let t = js_trim lane in if t = [] then ''main'' else t)"

definition isProbeLane :: "string \<Rightarrow> bool" where
  "isProbeLane lane \<longleftrightarrow> js_startsWith lane ''auth-probe:'' \<or> js_startsWith lane ''session:probe-''"

definition getLaneDepth :: "lane_state \<Rightarrow> nat" where
  "getLaneDepth ls = length (ls_queue ls) + length (ls_activeTaskIds ls)"

definition createCommandLaneSnapshot :: "lane_state \<Rightarrow> lane_snapshot" where
  "createCommandLaneSnapshot ls =
     \<lparr>snap_lane = ls_lane ls, snap_queuedCount = length (ls_queue ls),
      snap_activeCount = length (ls_activeTaskIds ls), snap_maxConcurrent = ls_maxConcurrent ls,
      snap_draining = ls_draining ls, snap_generation = ls_generation ls\<rparr>"

definition newLane :: "string \<Rightarrow> lane_state" where
  "newLane lane =
     \<lparr>ls_lane = lane, ls_queue = [], ls_activeTaskIds = [], ls_maxConcurrent = jn_of_nat 1,
      ls_draining = False, ls_generation = 0\<rparr>"

definition putLane :: "string \<Rightarrow> lane_state \<Rightarrow> command_queue \<Rightarrow> command_queue" where
  "putLane lane ls q = q\<lparr>lanes := jm_set lane ls (lanes q)\<rparr>"

definition getLaneState :: "string \<Rightarrow> command_queue \<Rightarrow> lane_state \<times> command_queue" where
  "getLaneState lane q =
     (case jm_get (lanes q) lane of
        Some existing \<Rightarrow> (existing, q)
      | None \<Rightarrow> (newLane lane, putLane lane (newLane lane) q))"

definition completeTask :: "lane_state \<Rightarrow> nat \<Rightarrow> nat \<Rightarrow> bool \<times> lane_state" where
  "completeTask ls taskId taskGeneration =
     (if taskGeneration \<noteq> ls_generation ls then (False, ls)
      else (True, ls\<lparr>ls_activeTaskIds := remove1 taskId (ls_activeTaskIds ls)\<rparr>))"

definition normalizeTaskTimeoutMs :: "jsnum option \<Rightarrow> jsnum option" where
  "normalizeTaskTimeoutMs value =
     (case value of None \<Rightarrow> None
      | Some v \<Rightarrow>
          if \<not> jn_finite v \<or> \<not> jn_less (Fin 0) v then None
          else Some (jn_max (Fin 1) (jn_floor v)))"

section \<open>Waiters for active tasks\<close>

definition hasPendingActiveTasks :: "command_queue \<Rightarrow> nat list \<Rightarrow> bool" where
  "hasPendingActiveTasks q taskIds \<longleftrightarrow>
     (\<exists>ls \<in> set (map snd (lanes q)). \<exists>t \<in> set (ls_activeTaskIds ls). t \<in> set taskIds)"

definition resolveActiveTaskWaiter :: "task_waiter \<Rightarrow> bool \<Rightarrow> command_queue \<Rightarrow> command_queue" where
  "resolveActiveTaskWaiter w drained q =
     (if w \<notin> set (activeTaskWaiters q) then q
      else q\<lparr>activeTaskWaiters := remove1 w (activeTaskWaiters q),
             waiterResults := waiterResults q @ [(wt_id w, drained)]\<rparr>)"

definition notifyWaiter :: "command_queue \<Rightarrow> task_waiter \<Rightarrow> command_queue" where
  "notifyWaiter q w =
     (if wt_activeTaskIds w = [] \<or> \<not> hasPendingActiveTasks q (wt_activeTaskIds w)
      then resolveActiveTaskWaiter w True q else q)"

definition notifyActiveTaskWaiters :: "command_queue \<Rightarrow> command_queue" where
  "notifyActiveTaskWaiters q = foldl notifyWaiter q (activeTaskWaiters q)"

section \<open>Draining a lane\<close>

text \<open>
  The loop of \<open>pump\<close>: entries leave the queue one by one while the lane has capacity.  Starting a
  task takes the next task id, adds it to the lane's active set and leaves a closure behind.
\<close>

definition startEntry ::
  "int \<Rightarrow> queue_entry \<Rightarrow> nat \<Rightarrow> lane_state \<Rightarrow> command_queue \<Rightarrow> lane_state \<times> command_queue" where
  "startEntry now entry queuedAhead ls q =
     (let waitedMs = now - qe_enqueuedAt entry;
          q = (if qe_warnAfterMs entry \<le> waitedMs \<and> qe_onWait entry
               then q\<lparr>onWaitCalls := onWaitCalls q @ [(qe_promise entry, waitedMs, queuedAhead)]\<rparr>
               else q);
          taskId = nextTaskId q
      in (ls\<lparr>ls_activeTaskIds := ls_activeTaskIds ls @ [taskId]\<rparr>,
          q\<lparr>nextTaskId := Suc taskId,
            inFlight := inFlight q @
              [\<lparr>fl_taskId = taskId, fl_lane = ls_lane ls, fl_generation = ls_generation ls,
                fl_entry = entry\<rparr>],
            startLog := startLog q @ [(ls_lane ls, qe_promise entry)]\<rparr>))"

fun pumpLoop ::
  "int \<Rightarrow> queue_entry list \<Rightarrow> lane_state \<Rightarrow> command_queue \<Rightarrow> lane_state \<times> command_queue" where
  "pumpLoop now [] ls q = (ls\<lparr>ls_queue := []\<rparr>, q)"
| "pumpLoop now (entry # rest) ls q =
     (if jn_less (jn_of_nat (length (ls_activeTaskIds ls))) (ls_maxConcurrent ls)
      then (case startEntry now entry (length rest) ls q of (ls', q') \<Rightarrow> pumpLoop now rest ls' q')
      else (ls\<lparr>ls_queue := entry # rest\<rparr>, q))"

definition pump :: "int \<Rightarrow> lane_state \<Rightarrow> command_queue \<Rightarrow> command_queue" where
  "pump now ls q =
     (case pumpLoop now (ls_queue ls) ls q of
        (ls', q') \<Rightarrow> putLane (ls_lane ls) (ls'\<lparr>ls_draining := False\<rparr>) q')"

definition drainLane :: "int \<Rightarrow> string \<Rightarrow> command_queue \<Rightarrow> command_queue" where
  "drainLane now lane q =
     (case getLaneState lane q of
        (ls, q') \<Rightarrow> if ls_draining ls then q' else pump now (ls\<lparr>ls_draining := True\<rparr>) q')"

section \<open>Exported operations\<close>

definition markGatewayDraining :: "command_queue \<Rightarrow> command_queue" where
  "markGatewayDraining q = q\<lparr>gatewayDraining := True\<rparr>"

definition setCommandLaneConcurrency ::
  "int \<Rightarrow> string \<Rightarrow> jsnum \<Rightarrow> command_queue \<Rightarrow> command_queue" where
  "setCommandLaneConcurrency now lane maxConcurrent q =
     (let cleaned = normalizeLane lane;
          (ls, q) = getLaneState cleaned q;
          minConcurrent = (if isProbeLane cleaned then Fin 1 else Fin 0);
          ls = ls\<lparr>ls_maxConcurrent := jn_max minConcurrent (jn_floor maxConcurrent)\<rparr>;
          q = putLane cleaned ls q
      in if jn_less (Fin 0) (ls_maxConcurrent ls) then drainLane now cleaned q else q)"

record enqueue_options =
  eo_warnAfterMs :: "int option"
  eo_taskTimeoutMs :: "jsnum option"
  eo_onWait :: bool

datatype enqueue_result = GatewayDrainingError | Enqueued nat

definition enqueueCommandInLane ::
  "int \<Rightarrow> string \<Rightarrow> enqueue_options \<Rightarrow> command_queue \<Rightarrow> enqueue_result \<times> command_queue" where
  "enqueueCommandInLane now lane opts q =
     (if gatewayDraining q then (GatewayDrainingError, q)
      else
        (let cleaned = normalizeLane lane;
             warnAfterMs = (case eo_warnAfterMs opts of None \<Rightarrow> 2000 | Some w \<Rightarrow> w);
             (ls, q) = getLaneState cleaned q;
             entry = \<lparr>qe_promise = nextPromise q, qe_enqueuedAt = now, qe_warnAfterMs = warnAfterMs,
                      qe_taskTimeoutMs = normalizeTaskTimeoutMs (eo_taskTimeoutMs opts),
                      qe_onWait = eo_onWait opts\<rparr>;
             q = putLane cleaned (ls\<lparr>ls_queue := ls_queue ls @ [entry]\<rparr>)
                   (q\<lparr>nextPromise := Suc (nextPromise q)\<rparr>)
         in (Enqueued (qe_promise entry), drainLane now cleaned q)))"

definition enqueueCommand ::
  "int \<Rightarrow> enqueue_options \<Rightarrow> command_queue \<Rightarrow> enqueue_result \<times> command_queue" where
  "enqueueCommand now opts q = enqueueCommandInLane now ''main'' opts q"

definition getQueueSize :: "string \<Rightarrow> command_queue \<Rightarrow> nat" where
  "getQueueSize lane q =
     (case jm_get (lanes q) (normalizeLane lane) of None \<Rightarrow> 0 | Some ls \<Rightarrow> getLaneDepth ls)"

definition getCommandLaneSnapshot :: "string \<Rightarrow> command_queue \<Rightarrow> lane_snapshot" where
  "getCommandLaneSnapshot lane q =
     (let resolved = normalizeLane lane
      in case jm_get (lanes q) resolved of
           None \<Rightarrow> \<lparr>snap_lane = resolved, snap_queuedCount = 0, snap_activeCount = 0,
                    snap_maxConcurrent = jn_of_nat 1, snap_draining = False, snap_generation = 0\<rparr>
         | Some ls \<Rightarrow> createCommandLaneSnapshot ls)"

definition getCommandLaneSnapshots :: "command_queue \<Rightarrow> lane_snapshot list" where
  "getCommandLaneSnapshots q =
     js_toSorted (\<lambda>a b. cu_compare (snap_lane a) (snap_lane b))
       (map (createCommandLaneSnapshot \<circ> snd) (lanes q))"

definition getTotalQueueSize :: "command_queue \<Rightarrow> nat" where
  "getTotalQueueSize q = sum_list (map (getLaneDepth \<circ> snd) (lanes q))"

definition clearCommandLane :: "string \<Rightarrow> command_queue \<Rightarrow> nat \<times> command_queue" where
  "clearCommandLane lane q =
     (let cleaned = normalizeLane lane
      in case jm_get (lanes q) cleaned of
           None \<Rightarrow> (0, q)
         | Some ls \<Rightarrow>
             (length (ls_queue ls),
              (putLane cleaned (ls\<lparr>ls_queue := []\<rparr>) q)
                \<lparr>settled := settled q @
                   map (\<lambda>e. (qe_promise e, Rejected (CommandLaneClearedError cleaned))) (ls_queue ls)\<rparr>))"

definition resetLane :: "lane_state \<Rightarrow> lane_state" where
  "resetLane ls =
     ls\<lparr>ls_generation := Suc (ls_generation ls), ls_activeTaskIds := [], ls_draining := False\<rparr>"

definition resetCommandLane :: "int \<Rightarrow> string \<Rightarrow> command_queue \<Rightarrow> nat \<times> command_queue" where
  "resetCommandLane now lane q =
     (let cleaned = normalizeLane lane
      in case jm_get (lanes q) cleaned of
           None \<Rightarrow> (0, q)
         | Some ls \<Rightarrow>
             (let q = putLane cleaned (resetLane ls) q;
                  q = (if ls_queue ls \<noteq> [] then drainLane now cleaned q else q)
              in (length (ls_activeTaskIds ls), notifyActiveTaskWaiters q)))"

definition resetAllLanes :: "int \<Rightarrow> command_queue \<Rightarrow> command_queue" where
  "resetAllLanes now q =
     (let lanesToDrain = map (ls_lane \<circ> snd) (filter (\<lambda>p. ls_queue (snd p) \<noteq> []) (lanes q));
          q = q\<lparr>gatewayDraining := False, lanes := map (\<lambda>(k, ls). (k, resetLane ls)) (lanes q)\<rparr>
      in notifyActiveTaskWaiters (foldl (\<lambda>q lane. drainLane now lane q) q lanesToDrain))"

definition getActiveTaskCount :: "command_queue \<Rightarrow> nat" where
  "getActiveTaskCount q = sum_list (map (length \<circ> ls_activeTaskIds \<circ> snd) (lanes q))"

definition allActiveTaskIds :: "command_queue \<Rightarrow> nat list" where
  "allActiveTaskIds q = concat (map (ls_activeTaskIds \<circ> snd) (lanes q))"

datatype wait_result = Drained bool | Waiting nat

definition waitForActiveTasks :: "int option \<Rightarrow> command_queue \<Rightarrow> wait_result \<times> command_queue" where
  "waitForActiveTasks timeoutMs q =
     (let activeAtStart = allActiveTaskIds q
      in if activeAtStart = [] then (Drained True, q)
         else if (case timeoutMs of Some t \<Rightarrow> t \<le> 0 | None \<Rightarrow> False) then (Drained False, q)
         else
           (let w = \<lparr>wt_id = nextWaiter q, wt_activeTaskIds = activeAtStart,
                     wt_timeout = (timeoutMs \<noteq> None)\<rparr>
            in (Waiting (wt_id w),
                notifyActiveTaskWaiters
                  (q\<lparr>activeTaskWaiters := activeTaskWaiters q @ [w],
                     nextWaiter := Suc (nextWaiter q)\<rparr>))))"

text \<open>The timer of a waiter fires: \<open>resolveActiveTaskWaiter(waiter, { drained: false })\<close>.\<close>

definition waiterTimeout :: "nat \<Rightarrow> command_queue \<Rightarrow> command_queue" where
  "waiterTimeout wid q =
     (case find (\<lambda>w. wt_id w = wid \<and> wt_timeout w) (activeTaskWaiters q) of
        None \<Rightarrow> q | Some w \<Rightarrow> resolveActiveTaskWaiter w False q)"

section \<open>Completion of a task\<close>

text \<open>
  \<open>runQueueEntryTask\<close> races the task against its timeout; what the race settles with is how the
  continuation of \<open>drainLane\<close> is entered, and a later result of the same task is dropped.
\<close>

datatype race = TaskDone string | TaskThrew string | TimerFired

definition runQueueEntryTask :: "string \<Rightarrow> queue_entry \<Rightarrow> race \<Rightarrow> outcome option" where
  "runQueueEntryTask lane entry r =
     (case r of
        TaskDone v \<Rightarrow> Some (Resolved v)
      | TaskThrew e \<Rightarrow> Some (Rejected (TaskError e))
      | TimerFired \<Rightarrow>
          (case normalizeTaskTimeoutMs (qe_taskTimeoutMs entry) of
             Some (Fin ms) \<Rightarrow> Some (Rejected (CommandLaneTaskTimeoutError lane \<lfloor>ms\<rfloor>))
           | _ \<Rightarrow> None))"

definition taskSettled :: "int \<Rightarrow> nat \<Rightarrow> race \<Rightarrow> command_queue \<Rightarrow> command_queue" where
  "taskSettled now taskId r q =
     (case find (\<lambda>f. fl_taskId f = taskId) (inFlight q) of
        None \<Rightarrow> q
      | Some f \<Rightarrow>
          (case runQueueEntryTask (fl_lane f) (fl_entry f) r of
             None \<Rightarrow> q
           | Some out \<Rightarrow>
               (let q = q\<lparr>inFlight := remove1 f (inFlight q)\<rparr>;
                    (ls, q) = getLaneState (fl_lane f) q;
                    (current, ls) = completeTask ls taskId (fl_generation f);
                    q = putLane (fl_lane f) ls q;
                    q = (if current
                         then (let q = notifyActiveTaskWaiters q
                               in pump now (fst (getLaneState (fl_lane f) q)) q)
                         else q)
                in q\<lparr>settled := settled q @ [(qe_promise (fl_entry f), out)]\<rparr>)))"

section \<open>The queue as a system of steps\<close>

datatype command_event =
  EvMarkDraining
| EvSetConcurrency int string jsnum
| EvEnqueue int string enqueue_options
| EvClear string
| EvReset int string
| EvResetAll int
| EvWait "int option"
| EvWaiterTimeout nat
| EvSettled int nat race

fun commandStep :: "command_queue \<Rightarrow> command_event \<Rightarrow> command_queue" where
  "commandStep q EvMarkDraining = markGatewayDraining q"
| "commandStep q (EvSetConcurrency now lane n) = setCommandLaneConcurrency now lane n q"
| "commandStep q (EvEnqueue now lane opts) = snd (enqueueCommandInLane now lane opts q)"
| "commandStep q (EvClear lane) = snd (clearCommandLane lane q)"
| "commandStep q (EvReset now lane) = snd (resetCommandLane now lane q)"
| "commandStep q (EvResetAll now) = resetAllLanes now q"
| "commandStep q (EvWait t) = snd (waitForActiveTasks t q)"
| "commandStep q (EvWaiterTimeout w) = waiterTimeout w q"
| "commandStep q (EvSettled now t r) = taskSettled now t r q"

definition commandRun :: "command_event list \<Rightarrow> command_queue" where
  "commandRun es = foldl commandStep emptyCommandQueue es"

section \<open>What one pump does\<close>

definition laneIdle :: "lane_state \<Rightarrow> bool" where
  "laneIdle ls \<longleftrightarrow>
     ls_queue ls = [] \<or> \<not> jn_less (jn_of_nat (length (ls_activeTaskIds ls))) (ls_maxConcurrent ls)"

fun newFlights :: "string \<Rightarrow> nat \<Rightarrow> nat \<Rightarrow> queue_entry list \<Rightarrow> in_flight list" where
  "newFlights lane gen t [] = []"
| "newFlights lane gen t (e # es) =
     \<lparr>fl_taskId = t, fl_lane = lane, fl_generation = gen, fl_entry = e\<rparr> #
     newFlights lane gen (Suc t) es"

lemma newFlights_simps [simp]:
  "map fl_taskId (newFlights lane gen t es) = [t..<t + length es]"
  "map (\<lambda>f. qe_promise (fl_entry f)) (newFlights lane gen t es) = map qe_promise es"
  "f \<in> set (newFlights lane gen t es) \<Longrightarrow> fl_lane f = lane"
  "f \<in> set (newFlights lane gen t es) \<Longrightarrow> fl_generation f = gen"
     apply (induction es arbitrary: t; simp add: upt_rec)
    apply (induction es arbitrary: t; simp)
   apply (induction es arbitrary: t; auto)
  apply (induction es arbitrary: t; auto)
  done

lemma newFlights_taskId:
  "f \<in> set (newFlights lane gen t es) \<Longrightarrow> t \<le> fl_taskId f \<and> fl_taskId f < t + length es"
  by (induction es arbitrary: t) fastforce+

lemma newFlights_filter:
  "filter (\<lambda>f. fl_lane f = k \<and> fl_generation f = g) (newFlights lane gen t es) =
     (if k = lane \<and> g = gen then newFlights lane gen t es else [])"
  by (induction es arbitrary: t) auto

text \<open>The part of the queue that starting tasks leaves alone.\<close>

definition sameFrame :: "command_queue \<Rightarrow> command_queue \<Rightarrow> bool" where
  "sameFrame q' q \<longleftrightarrow>
     lanes q' = lanes q \<and> gatewayDraining q' = gatewayDraining q \<and>
     activeTaskWaiters q' = activeTaskWaiters q \<and> nextPromise q' = nextPromise q \<and>
     settled q' = settled q \<and> nextWaiter q' = nextWaiter q \<and> waiterResults q' = waiterResults q"

lemma startEntry_spec:
  assumes "startEntry now e n ls q = (ls', q')"
  shows "ls' = ls\<lparr>ls_activeTaskIds := ls_activeTaskIds ls @ [nextTaskId q]\<rparr>"
    and "nextTaskId q' = Suc (nextTaskId q)"
    and "inFlight q' = inFlight q @ newFlights (ls_lane ls) (ls_generation ls) (nextTaskId q) [e]"
    and "startLog q' = startLog q @ [(ls_lane ls, qe_promise e)]"
    and "sameFrame q' q"
  using assms by (auto simp: startEntry_def Let_def sameFrame_def split: if_splits)

lemma pumpLoop_spec:
  assumes "pumpLoop now es ls q = (ls', q')"
  obtains started rest where
    "es = started @ rest"
    "ls' = ls\<lparr>ls_queue := rest,
             ls_activeTaskIds := ls_activeTaskIds ls @ [nextTaskId q..<nextTaskId q + length started]\<rparr>"
    "laneIdle ls'"
    "nextTaskId q' = nextTaskId q + length started"
    "inFlight q' = inFlight q @ newFlights (ls_lane ls) (ls_generation ls) (nextTaskId q) started"
    "startLog q' = startLog q @ map (\<lambda>e. (ls_lane ls, qe_promise e)) started"
    "sameFrame q' q"
    "started = [] \<or>
     jn_less (jn_of_nat (length (ls_activeTaskIds ls) + length started - 1)) (ls_maxConcurrent ls)"
  using assms
proof (induction es arbitrary: ls q thesis)
  case Nil
  from Nil.prems(2) show ?case
    by (intro Nil.prems(1) [of "[]" "[]"]) (auto simp: laneIdle_def sameFrame_def)
next
  case (Cons e es)
  show ?case
  proof (cases "jn_less (jn_of_nat (length (ls_activeTaskIds ls))) (ls_maxConcurrent ls)")
    case False
    with Cons.prems(2) show ?thesis
      by (intro Cons.prems(1) [of "[]" "e # es"]) (auto simp: laneIdle_def sameFrame_def)
  next
    case True
    obtain ls1 q1 where s1: "startEntry now e (length es) ls q = (ls1, q1)" by fastforce
    from True s1 Cons.prems(2) have run: "pumpLoop now es ls1 q1 = (ls', q')" by simp
    note start = startEntry_spec [OF s1]
    obtain started rest where IH: "es = started @ rest"
        "ls' = ls1\<lparr>ls_queue := rest, ls_activeTaskIds :=
            ls_activeTaskIds ls1 @ [nextTaskId q1..<nextTaskId q1 + length started]\<rparr>"
        "laneIdle ls'"
        "nextTaskId q' = nextTaskId q1 + length started"
        "inFlight q' =
           inFlight q1 @ newFlights (ls_lane ls1) (ls_generation ls1) (nextTaskId q1) started"
        "startLog q' = startLog q1 @ map (\<lambda>e. (ls_lane ls1, qe_promise e)) started"
        "sameFrame q' q1"
        "started = [] \<or>
         jn_less (jn_of_nat (length (ls_activeTaskIds ls1) + length started - 1)) (ls_maxConcurrent ls1)"
      by (rule Cons.IH [OF _ run])
    have ids: "[nextTaskId q..<nextTaskId q + length (e # started)] =
        nextTaskId q # [Suc (nextTaskId q)..<Suc (nextTaskId q) + length started]"
      by (simp add: upt_rec)
    show ?thesis
    proof (rule Cons.prems(1) [of "e # started" rest])
      show "ls' = ls\<lparr>ls_queue := rest, ls_activeTaskIds :=
          ls_activeTaskIds ls @ [nextTaskId q..<nextTaskId q + length (e # started)]\<rparr>"
        unfolding ids IH(2) start(1) start(2) by simp
      show "e # started = [] \<or> jn_less (jn_of_nat (length (ls_activeTaskIds ls) +
          length (e # started) - 1)) (ls_maxConcurrent ls)"
        using IH(8) True start(1) by (cases started) auto
      show "sameFrame q' q" using IH(7) start(5) by (simp add: sameFrame_def)
    qed (use IH start in auto)
  qed
qed

section \<open>The invariant\<close>

definition queuedPromises :: "command_queue \<Rightarrow> nat list" where
  "queuedPromises q = concat (map (\<lambda>p. map qe_promise (ls_queue (snd p))) (lanes q))"

definition runningPromises :: "command_queue \<Rightarrow> nat list" where
  "runningPromises q = map (\<lambda>f. qe_promise (fl_entry f)) (inFlight q)"

definition promisesConserved :: "command_queue \<Rightarrow> bool" where
  "promisesConserved q \<longleftrightarrow>
     mset (queuedPromises q) + mset (runningPromises q) + mset (map fst (settled q)) =
     mset [0..<nextPromise q]"

definition activeMatches :: "command_queue \<Rightarrow> bool" where
  "activeMatches q \<longleftrightarrow>
     jm_wf (lanes q) \<and> distinct (map fl_taskId (inFlight q)) \<and>
     (\<forall>f \<in> set (inFlight q). fl_taskId f < nextTaskId q \<and>
        (\<exists>ls. jm_get (lanes q) (fl_lane f) = Some ls \<and> fl_generation f \<le> ls_generation ls)) \<and>
     (\<forall>k ls. jm_get (lanes q) k = Some ls \<longrightarrow>
        ls_lane ls = k \<and> \<not> ls_draining ls \<and>
        ls_activeTaskIds ls =
          map fl_taskId (filter (\<lambda>f. fl_lane f = k \<and> fl_generation f = ls_generation ls) (inFlight q)))"

definition laneOrder :: "command_queue \<Rightarrow> string \<Rightarrow> nat list" where
  "laneOrder q k =
     map snd (filter (\<lambda>p. fst p = k) (startLog q)) @
     (case jm_get (lanes q) k of None \<Rightarrow> [] | Some ls \<Rightarrow> map qe_promise (ls_queue ls))"

definition fifoOrder :: "command_queue \<Rightarrow> bool" where
  "fifoOrder q \<longleftrightarrow>
     (\<forall>k. sorted_wrt (<) (laneOrder q k) \<and> (\<forall>p \<in> set (laneOrder q k). p < nextPromise q))"

definition idleExcept :: "string set \<Rightarrow> command_queue \<Rightarrow> bool" where
  "idleExcept X q \<longleftrightarrow> (\<forall>k ls. jm_get (lanes q) k = Some ls \<longrightarrow> k \<notin> X \<longrightarrow> laneIdle ls)"

definition waitersPending :: "command_queue \<Rightarrow> bool" where
  "waitersPending q \<longleftrightarrow>
     (\<forall>w \<in> set (activeTaskWaiters q).
        \<exists>t \<in> set (wt_activeTaskIds w). t \<in> set (allActiveTaskIds q))"

definition waitersDistinct :: "command_queue \<Rightarrow> bool" where
  "waitersDistinct q \<longleftrightarrow>
     distinct (map wt_id (activeTaskWaiters q)) \<and>
     (\<forall>w \<in> set (activeTaskWaiters q). wt_id w < nextWaiter q)"

definition cqCore :: "command_queue \<Rightarrow> bool" where
  "cqCore q \<longleftrightarrow> promisesConserved q \<and> activeMatches q \<and> fifoOrder q \<and> waitersDistinct q"

definition cqInv :: "command_queue \<Rightarrow> bool" where
  "cqInv q \<longleftrightarrow> cqCore q \<and> idleExcept {} q \<and> waitersPending q"

lemma putLane_simps [simp]:
  "lanes (putLane k ls q) = jm_set k ls (lanes q)"
  "gatewayDraining (putLane k ls q) = gatewayDraining q"
  "activeTaskWaiters (putLane k ls q) = activeTaskWaiters q"
  "nextTaskId (putLane k ls q) = nextTaskId q"
  "inFlight (putLane k ls q) = inFlight q"
  "nextPromise (putLane k ls q) = nextPromise q"
  "settled (putLane k ls q) = settled q"
  "nextWaiter (putLane k ls q) = nextWaiter q"
  "waiterResults (putLane k ls q) = waiterResults q"
  "startLog (putLane k ls q) = startLog q"
  by (simp_all add: putLane_def)

lemma cqCoreD:
  assumes "cqCore q"
  shows "promisesConserved q" "activeMatches q" "fifoOrder q" "waitersDistinct q" "jm_wf (lanes q)"
  using assms by (auto simp: cqCore_def activeMatches_def)

lemma activeMatches_laneD:
  assumes "activeMatches q" "jm_get (lanes q) k = Some ls"
  shows "ls_lane ls = k" "\<not> ls_draining ls"
    "ls_activeTaskIds ls =
       map fl_taskId (filter (\<lambda>f. fl_lane f = k \<and> fl_generation f = ls_generation ls) (inFlight q))"
  using assms by (auto simp: activeMatches_def)

lemma allActive_putLane:
  assumes "jm_get (lanes q) k = Some ls0" "jm_wf (lanes q)"
  shows "set (allActiveTaskIds (putLane k ls q)) \<union> set (ls_activeTaskIds ls0) =
         set (allActiveTaskIds q) \<union> set (ls_activeTaskIds ls)"
proof -
  have "mset (allActiveTaskIds (putLane k ls q)) + mset (ls_activeTaskIds ls0) =
        mset (allActiveTaskIds q) + mset (ls_activeTaskIds ls)"
    using mset_concat_jm_set_Some [OF assms, of ls_activeTaskIds ls]
    by (simp add: allActiveTaskIds_def comp_def)
  from this [THEN arg_cong [of _ _ set_mset]] show ?thesis by simp
qed

lemma active_in_all:
  "jm_get (lanes q) k = Some ls \<Longrightarrow> set (ls_activeTaskIds ls) \<subseteq> set (allActiveTaskIds q)"
  by (force simp: allActiveTaskIds_def dest: map_of_SomeD)

lemma queuedPromises_putLane:
  assumes "jm_get (lanes q) k = Some ls0" "jm_wf (lanes q)"
  shows "mset (queuedPromises (putLane k ls q)) + mset (map qe_promise (ls_queue ls0)) =
         mset (queuedPromises q) + mset (map qe_promise (ls_queue ls))"
  using mset_concat_jm_set_Some [OF assms, of "\<lambda>ls. map qe_promise (ls_queue ls)" ls]
  by (simp add: queuedPromises_def)

section \<open>Draining keeps the invariant\<close>

lemma pump_inv:
  assumes core: "cqCore q" and lane: "jm_get (lanes q) k = Some ls0"
    and ls: "ls = ls0\<lparr>ls_draining := d\<rparr>" and idle: "idleExcept X q"
  shows "cqCore (pump now ls q)" "idleExcept (X - {k}) (pump now ls q)"
    "set (allActiveTaskIds q) \<subseteq> set (allActiveTaskIds (pump now ls q))"
    "activeTaskWaiters (pump now ls q) = activeTaskWaiters q"
    "(jm_get (lanes (pump now ls q)) k' = None) = (jm_get (lanes q) k' = None)"
proof -
  note D = cqCoreD [OF core]
  note L = activeMatches_laneD [OF D(2) lane]
  obtain ls' q' where run: "pumpLoop now (ls_queue ls) ls q = (ls', q')" by fastforce
  from run obtain started rest where S:
    "ls_queue ls = started @ rest"
    "ls' = ls\<lparr>ls_queue := rest,
             ls_activeTaskIds := ls_activeTaskIds ls @ [nextTaskId q..<nextTaskId q + length started]\<rparr>"
    "laneIdle ls'"
    "nextTaskId q' = nextTaskId q + length started"
    "inFlight q' = inFlight q @ newFlights (ls_lane ls) (ls_generation ls) (nextTaskId q) started"
    "startLog q' = startLog q @ map (\<lambda>e. (ls_lane ls, qe_promise e)) started"
    "sameFrame q' q"
    by (rule pumpLoop_spec)
  define ls1 where "ls1 = ls'\<lparr>ls_draining := False\<rparr>"
  have k: "ls_lane ls = k" and q0: "ls_queue ls0 = started @ rest"
    and gen: "ls_generation ls = ls_generation ls0" "ls_activeTaskIds ls = ls_activeTaskIds ls0"
    using L ls S(1) by auto
  have p: "pump now ls q = putLane k ls1 q'"
    using run k by (simp add: pump_def ls1_def)
  have frame: "lanes q' = lanes q" "activeTaskWaiters q' = activeTaskWaiters q"
    "nextPromise q' = nextPromise q" "settled q' = settled q" "nextWaiter q' = nextWaiter q"
    using S(7) by (auto simp: sameFrame_def)
  have ls1: "ls_lane ls1 = k" "ls_queue ls1 = rest" "\<not> ls_draining ls1"
    "ls_generation ls1 = ls_generation ls0"
    "ls_activeTaskIds ls1 = ls_activeTaskIds ls0 @ [nextTaskId q..<nextTaskId q + length started]"
    "laneIdle ls1"
    using S(2,3) k gen by (auto simp: ls1_def laneIdle_def)
  have "promisesConserved (putLane k ls1 q')"
  proof -
    have "mset (queuedPromises (putLane k ls1 q')) + mset (map qe_promise (started @ rest)) =
        mset (queuedPromises q) + mset (map qe_promise rest)"
      using queuedPromises_putLane [of q' k ls0 ls1] lane D(5) frame q0 ls1
      by (simp add: queuedPromises_def)
    then have "mset (queuedPromises (putLane k ls1 q')) + mset (map qe_promise started) =
        mset (queuedPromises q)" by simp
    from D(1) [unfolded promisesConserved_def, folded this] show ?thesis
      using frame S(5) by (simp add: promisesConserved_def runningPromises_def ac_simps)
  qed
  moreover have "activeMatches (putLane k ls1 q')"
    unfolding activeMatches_def
  proof (intro conjI ballI allI impI)
    show "jm_wf (lanes (putLane k ls1 q'))" using D(5) frame by simp
    show "distinct (map fl_taskId (inFlight (putLane k ls1 q')))"
      using D(2) S(5) by (auto simp: activeMatches_def dest: newFlights_taskId)
  next
    fix f assume f: "f \<in> set (inFlight (putLane k ls1 q'))"
    show "fl_taskId f < nextTaskId (putLane k ls1 q')"
      using f D(2) S(4,5) by (auto simp: activeMatches_def dest: newFlights_taskId)
    show "\<exists>ls. jm_get (lanes (putLane k ls1 q')) (fl_lane f) = Some ls \<and>
        fl_generation f \<le> ls_generation ls"
      using f D(2) S(5) frame lane ls1 k gen by (auto simp: activeMatches_def jm_get_set)
  next
    fix k' l assume l: "jm_get (lanes (putLane k ls1 q')) k' = Some l"
    show "ls_lane l = k'" using l ls1 D(2) frame
      by (auto simp: jm_get_set activeMatches_def split: if_splits)
    show "\<not> ls_draining l" using l ls1 D(2) frame
      by (auto simp: jm_get_set activeMatches_def split: if_splits)
    show "ls_activeTaskIds l = map fl_taskId (filter (\<lambda>f. fl_lane f = k' \<and>
        fl_generation f = ls_generation l) (inFlight (putLane k ls1 q')))"
    proof (cases "k' = k")
      case True
      with l have "l = ls1" by (simp add: jm_get_set)
      with True show ?thesis using ls1 L(3) S(5) k gen by (simp add: newFlights_filter)
    next
      case False
      with l have "jm_get (lanes q) k' = Some l" using frame by (simp add: jm_get_set)
      from activeMatches_laneD(3) [OF D(2) this] False show ?thesis
        using S(5) k by (simp add: newFlights_filter)
    qed
  qed
  moreover have "fifoOrder (putLane k ls1 q')"
  proof -
    have "laneOrder (putLane k ls1 q') k' = laneOrder q k'" for k'
      using lane q0 frame ls1 S(6) k
      by (auto simp: laneOrder_def jm_get_set filter_map comp_def)
    with D(3) frame show ?thesis by (simp add: fifoOrder_def)
  qed
  moreover have "waitersDistinct (putLane k ls1 q')"
    using D(4) frame by (simp add: waitersDistinct_def)
  ultimately show "cqCore (pump now ls q)" by (simp add: p cqCore_def)
  show "idleExcept (X - {k}) (pump now ls q)"
    using idle frame ls1 by (auto simp: p idleExcept_def jm_get_set split: if_splits)
  have "set (allActiveTaskIds (putLane k ls1 q')) \<union> set (ls_activeTaskIds ls0) =
      set (allActiveTaskIds q) \<union> set (ls_activeTaskIds ls1)"
    using allActive_putLane [of q' k ls0 ls1] lane D(5) frame by (simp add: allActiveTaskIds_def)
  moreover have "set (ls_activeTaskIds ls0) \<subseteq> set (allActiveTaskIds (putLane k ls1 q'))"
    using active_in_all [of "putLane k ls1 q'" k ls1] ls1(5) by (simp add: jm_get_set)
  ultimately show "set (allActiveTaskIds q) \<subseteq> set (allActiveTaskIds (pump now ls q))"
    by (auto simp: p)
  show "activeTaskWaiters (pump now ls q) = activeTaskWaiters q" by (simp add: p frame)
  show "(jm_get (lanes (pump now ls q)) k' = None) = (jm_get (lanes q) k' = None)"
    using lane frame by (simp add: p jm_get_set)
qed

lemma getLaneState_fst: "jm_get (lanes q) k = Some ls \<Longrightarrow> getLaneState k q = (ls, q)"
  by (simp add: getLaneState_def)

lemma allActive_new: "allActiveTaskIds (putLane k (newLane k) q) = allActiveTaskIds q"
  if "jm_get (lanes q) k = None"
  using that by (simp add: allActiveTaskIds_def jm_set_None newLane_def)

lemma newLane_inv:
  assumes core: "cqCore q" and none: "jm_get (lanes q) k = None" and idle: "idleExcept X q"
  shows "cqCore (putLane k (newLane k) q)" "idleExcept X (putLane k (newLane k) q)"
proof -
  note D = cqCoreD [OF core]
  have noflight: "\<forall>f \<in> set (inFlight q). fl_lane f \<noteq> k"
    using D(2) none by (auto simp: activeMatches_def)
  have "promisesConserved (putLane k (newLane k) q)"
    using D(1) none
    by (simp add: promisesConserved_def queuedPromises_def runningPromises_def jm_set_None newLane_def)
  moreover have "activeMatches (putLane k (newLane k) q)"
    using D(2) none noflight
    by (auto simp: activeMatches_def jm_get_set newLane_def filter_empty_conv)
  moreover have "laneOrder (putLane k (newLane k) q) k' = laneOrder q k'" for k'
    using none by (simp add: laneOrder_def jm_get_set newLane_def)
  ultimately show "cqCore (putLane k (newLane k) q)"
    using D(3,4) by (simp add: cqCore_def fifoOrder_def waitersDistinct_def)
  show "idleExcept X (putLane k (newLane k) q)"
    using idle by (auto simp: idleExcept_def jm_get_set newLane_def laneIdle_def)
qed

lemma getLaneState_inv:
  assumes "cqCore q" "idleExcept X q" "getLaneState k q = (ls, q')"
  shows "cqCore q'" "idleExcept X q'" "jm_get (lanes q') k = Some ls"
    "allActiveTaskIds q' = allActiveTaskIds q" "activeTaskWaiters q' = activeTaskWaiters q"
    "nextPromise q' = nextPromise q" "jm_get (lanes q) k' \<noteq> None \<Longrightarrow> jm_get (lanes q') k' \<noteq> None"
proof -
  have "cqCore q' \<and> idleExcept X q' \<and> jm_get (lanes q') k = Some ls \<and>
    allActiveTaskIds q' = allActiveTaskIds q \<and> activeTaskWaiters q' = activeTaskWaiters q \<and>
    nextPromise q' = nextPromise q \<and> (jm_get (lanes q) k' \<noteq> None \<longrightarrow> jm_get (lanes q') k' \<noteq> None)"
    using assms newLane_inv [OF assms(1) _ assms(2), of k] allActive_new [of q k]
    by (auto simp: getLaneState_def jm_get_set split: option.splits)
  then show "cqCore q'" "idleExcept X q'" "jm_get (lanes q') k = Some ls"
    "allActiveTaskIds q' = allActiveTaskIds q" "activeTaskWaiters q' = activeTaskWaiters q"
    "nextPromise q' = nextPromise q" "jm_get (lanes q) k' \<noteq> None \<Longrightarrow> jm_get (lanes q') k' \<noteq> None"
    by auto
qed

lemma drainLane_inv:
  assumes core: "cqCore q" and idle: "idleExcept X q"
  shows "cqCore (drainLane now k q)" "idleExcept (X - {k}) (drainLane now k q)"
    "set (allActiveTaskIds q) \<subseteq> set (allActiveTaskIds (drainLane now k q))"
    "activeTaskWaiters (drainLane now k q) = activeTaskWaiters q"
proof -
  obtain ls q' where g: "getLaneState k q = (ls, q')" by fastforce
  note G = getLaneState_inv [OF core idle g]
  have "\<not> ls_draining ls" using activeMatches_laneD(2) [OF cqCoreD(2) [OF G(1)] G(3)] .
  then have d: "drainLane now k q = pump now (ls\<lparr>ls_draining := True\<rparr>) q'"
    by (simp add: drainLane_def g)
  note P = pump_inv [OF G(1,3) refl G(2), of now True]
  show "cqCore (drainLane now k q)" "idleExcept (X - {k}) (drainLane now k q)"
    "set (allActiveTaskIds q) \<subseteq> set (allActiveTaskIds (drainLane now k q))"
    "activeTaskWaiters (drainLane now k q) = activeTaskWaiters q"
    using P G(4,5) by (auto simp: d)
qed

section \<open>Notifying waiters\<close>

lemma hasPendingActiveTasks_iff:
  "hasPendingActiveTasks q ids \<longleftrightarrow> (\<exists>t \<in> set ids. t \<in> set (allActiveTaskIds q))"
  by (auto simp: hasPendingActiveTasks_def allActiveTaskIds_def)

lemma notifyWaiter_simps [simp]:
  "lanes (notifyWaiter q w) = lanes q" "gatewayDraining (notifyWaiter q w) = gatewayDraining q"
  "inFlight (notifyWaiter q w) = inFlight q" "nextTaskId (notifyWaiter q w) = nextTaskId q"
  "nextPromise (notifyWaiter q w) = nextPromise q" "settled (notifyWaiter q w) = settled q"
  "nextWaiter (notifyWaiter q w) = nextWaiter q" "startLog (notifyWaiter q w) = startLog q"
  "allActiveTaskIds (notifyWaiter q w) = allActiveTaskIds q"
  by (simp_all add: notifyWaiter_def resolveActiveTaskWaiter_def allActiveTaskIds_def)

lemma foldl_notifyWaiter_simps [simp]:
  "lanes (foldl notifyWaiter q ws) = lanes q"
  "gatewayDraining (foldl notifyWaiter q ws) = gatewayDraining q"
  "inFlight (foldl notifyWaiter q ws) = inFlight q"
  "nextTaskId (foldl notifyWaiter q ws) = nextTaskId q"
  "nextPromise (foldl notifyWaiter q ws) = nextPromise q"
  "settled (foldl notifyWaiter q ws) = settled q"
  "nextWaiter (foldl notifyWaiter q ws) = nextWaiter q"
  "startLog (foldl notifyWaiter q ws) = startLog q"
  "allActiveTaskIds (foldl notifyWaiter q ws) = allActiveTaskIds q"
  by (induction ws arbitrary: q; simp)+

lemma filter_neq_id: "w \<notin> set xs \<Longrightarrow> filter (\<lambda>v. v \<noteq> w) xs = xs"
  by (auto simp: filter_id_conv)

lemma activeTaskWaiters_notifyWaiter:
  "distinct (activeTaskWaiters q) \<Longrightarrow> activeTaskWaiters (notifyWaiter q w) =
     filter (\<lambda>v. v \<noteq> w \<or> hasPendingActiveTasks q (wt_activeTaskIds v)) (activeTaskWaiters q)"
  by (auto simp: notifyWaiter_def resolveActiveTaskWaiter_def distinct_remove1_removeAll
      removeAll_filter_not_eq hasPendingActiveTasks_def filter_neq_id intro!: filter_cong
      split: if_splits)

lemma activeTaskWaiters_foldl_notify:
  "distinct (activeTaskWaiters q) \<Longrightarrow> activeTaskWaiters (foldl notifyWaiter q ws) =
     filter (\<lambda>v. v \<notin> set ws \<or> hasPendingActiveTasks q (wt_activeTaskIds v)) (activeTaskWaiters q)"
  by (induction ws arbitrary: q)
    (auto simp: activeTaskWaiters_notifyWaiter hasPendingActiveTasks_iff intro!: filter_cong)

lemma notify_inv:
  assumes core: "cqCore q"
  shows "cqCore (notifyActiveTaskWaiters q)" "waitersPending (notifyActiveTaskWaiters q)"
    "lanes (notifyActiveTaskWaiters q) = lanes q"
    "idleExcept X (notifyActiveTaskWaiters q) = idleExcept X q"
proof -
  note D = cqCoreD [OF core]
  have dist: "distinct (activeTaskWaiters q)"
    using D(4) by (auto simp: waitersDistinct_def distinct_map)
  have w: "activeTaskWaiters (notifyActiveTaskWaiters q) =
      filter (\<lambda>v. hasPendingActiveTasks q (wt_activeTaskIds v)) (activeTaskWaiters q)"
    unfolding notifyActiveTaskWaiters_def activeTaskWaiters_foldl_notify [OF dist]
    by (auto intro: filter_cong)
  show "cqCore (notifyActiveTaskWaiters q)"
    using D w by (auto simp: cqCore_def notifyActiveTaskWaiters_def promisesConserved_def
        queuedPromises_def runningPromises_def activeMatches_def fifoOrder_def laneOrder_def
        waitersDistinct_def distinct_map_filter)
  show "waitersPending (notifyActiveTaskWaiters q)"
    using w by (auto simp: waitersPending_def hasPendingActiveTasks_iff notifyActiveTaskWaiters_def)
  show "lanes (notifyActiveTaskWaiters q) = lanes q" by (simp add: notifyActiveTaskWaiters_def)
  then show "idleExcept X (notifyActiveTaskWaiters q) = idleExcept X q"
    by (simp add: idleExcept_def)
qed

section \<open>Every operation keeps the invariant\<close>

lemma waitersPending_mono:
  "waitersPending q \<Longrightarrow> activeTaskWaiters q' = activeTaskWaiters q \<Longrightarrow>
   set (allActiveTaskIds q) \<subseteq> set (allActiveTaskIds q') \<Longrightarrow> waitersPending q'"
  by (fastforce simp: waitersPending_def)

lemma putLane_same_core:
  assumes core: "cqCore q" and lane: "jm_get (lanes q) k = Some ls0"
    and same: "ls_queue ls = ls_queue ls0" "ls_activeTaskIds ls = ls_activeTaskIds ls0"
      "ls_lane ls = ls_lane ls0" "ls_generation ls = ls_generation ls0" "\<not> ls_draining ls"
  shows "cqCore (putLane k ls q)" "set (allActiveTaskIds (putLane k ls q)) = set (allActiveTaskIds q)"
proof -
  note D = cqCoreD [OF core]
  note L = activeMatches_laneD [OF D(2) lane]
  have "mset (queuedPromises (putLane k ls q)) = mset (queuedPromises q)"
    using queuedPromises_putLane [OF lane D(5), of ls] same by simp
  moreover have "activeMatches (putLane k ls q)"
    using D(2) L same lane by (auto simp: activeMatches_def jm_get_set)
  moreover have "laneOrder (putLane k ls q) k' = laneOrder q k'" for k'
    using lane same by (simp add: laneOrder_def jm_get_set)
  ultimately show "cqCore (putLane k ls q)"
    using D by (simp add: cqCore_def promisesConserved_def runningPromises_def fifoOrder_def
        waitersDistinct_def)
  have "jm_get (lanes (putLane k ls q)) k = Some ls" by (simp add: jm_get_set)
  from active_in_all [OF this] active_in_all [OF lane]
  show "set (allActiveTaskIds (putLane k ls q)) = set (allActiveTaskIds q)"
    using allActive_putLane [OF lane D(5), of ls] same by auto
qed

lemma cqInvD:
  assumes "cqInv q" shows "cqCore q" "idleExcept {} q" "waitersPending q"
  using assms by (auto simp: cqInv_def)

lemma jn_less_zero_of_nat: "\<not> jn_less (Fin 0) m \<Longrightarrow> \<not> jn_less (jn_of_nat n) m"
  by (cases m) (auto simp: not_less intro: order_trans [of _ 0])

lemma setCommandLaneConcurrency_inv:
  assumes inv: "cqInv q" shows "cqInv (setCommandLaneConcurrency now lane n q)"
proof -
  note I = cqInvD [OF inv]
  define k where "k = normalizeLane lane"
  obtain ls q1 where g: "getLaneState k q = (ls, q1)" by fastforce
  note G = getLaneState_inv [OF I(1,2) g]
  define m where "m = jn_max (if isProbeLane k then Fin 1 else Fin 0) (jn_floor n)"
  define ls1 where "ls1 = ls\<lparr>ls_maxConcurrent := m\<rparr>"
  define q2 where "q2 = putLane k ls1 q1"
  have nd: "\<not> ls_draining ls" using activeMatches_laneD(2) [OF cqCoreD(2) [OF G(1)] G(3)] .
  have core: "cqCore q2" and act: "set (allActiveTaskIds q2) = set (allActiveTaskIds q)"
    using putLane_same_core [OF G(1,3), of ls1] nd G(4) by (auto simp: q2_def ls1_def)
  have idle: "idleExcept {k} q2"
    using G(2) by (auto simp: q2_def idleExcept_def jm_get_set split: if_splits)
  have wt: "activeTaskWaiters q2 = activeTaskWaiters q" using G(5) by (simp add: q2_def)
  have eq: "setCommandLaneConcurrency now lane n q =
      (if jn_less (Fin 0) m then drainLane now k q2 else q2)"
    using g by (simp add: setCommandLaneConcurrency_def Let_def k_def [symmetric]
        m_def [symmetric] ls1_def [symmetric] q2_def [symmetric])
  show ?thesis
  proof (cases "jn_less (Fin 0) m")
    case True
    note dr = drainLane_inv [OF core idle, where now = now and k = k]
    with True show ?thesis
      unfolding eq cqInv_def using waitersPending_mono [OF I(3)] act wt by simp
  next
    case False
    then have "laneIdle ls1" by (simp add: laneIdle_def ls1_def jn_less_zero_of_nat)
    with idle have "idleExcept {} q2"
      by (auto simp: q2_def idleExcept_def jm_get_set split: if_splits)
    with False show ?thesis
      unfolding eq cqInv_def using core waitersPending_mono [OF I(3)] act wt by simp
  qed
qed

lemma appendEntry_core:
  assumes core: "cqCore q" and lane: "jm_get (lanes q) k = Some ls"
    and e: "qe_promise entry = nextPromise q"
    and q': "q' = putLane k (ls\<lparr>ls_queue := ls_queue ls @ [entry]\<rparr>)
               (q\<lparr>nextPromise := Suc (nextPromise q)\<rparr>)"
  shows "cqCore q'" "set (allActiveTaskIds q') = set (allActiveTaskIds q)"
proof -
  note D = cqCoreD [OF core]
  note L = activeMatches_laneD [OF D(2) lane]
  let ?q = "q\<lparr>nextPromise := Suc (nextPromise q)\<rparr>"
  have lane': "jm_get (lanes ?q) k = Some ls" "jm_wf (lanes ?q)" using lane D(5) by auto
  have "mset (queuedPromises q') = add_mset (nextPromise q) (mset (queuedPromises q))"
    using queuedPromises_putLane [OF lane', of "ls\<lparr>ls_queue := ls_queue ls @ [entry]\<rparr>"] e
    by (simp add: q' queuedPromises_def)
  then have "promisesConserved q'"
    using D(1) by (simp add: q' promisesConserved_def runningPromises_def)
  moreover have "activeMatches q'"
    using D(2) L lane by (auto simp: q' activeMatches_def jm_get_set)
  moreover have "fifoOrder q'"
    unfolding fifoOrder_def
  proof
    fix k'
    have old: "sorted_wrt (<) (laneOrder q k')" "\<forall>p \<in> set (laneOrder q k'). p < nextPromise q"
      using D(3) by (auto simp: fifoOrder_def)
    have "laneOrder q' k' = laneOrder q k' @ (if k' = k then [nextPromise q] else [])"
      using lane e by (auto simp: q' laneOrder_def jm_get_set)
    with old show "sorted_wrt (<) (laneOrder q' k') \<and> (\<forall>p \<in> set (laneOrder q' k'). p < nextPromise q')"
      by (auto simp: q' sorted_wrt_append less_Suc_eq)
  qed
  ultimately show "cqCore q'"
    using D(4) by (simp add: cqCore_def waitersDistinct_def q')
  have "jm_get (lanes q') k = Some (ls\<lparr>ls_queue := ls_queue ls @ [entry]\<rparr>)"
    by (simp add: q' jm_get_set)
  from active_in_all [OF this] active_in_all [OF lane]
  show "set (allActiveTaskIds q') = set (allActiveTaskIds q)"
    using allActive_putLane [OF lane', of "ls\<lparr>ls_queue := ls_queue ls @ [entry]\<rparr>"]
    by (auto simp: q' allActiveTaskIds_def)
qed

lemma enqueueCommandInLane_inv:
  assumes inv: "cqInv q" shows "cqInv (snd (enqueueCommandInLane now lane opts q))"
proof (cases "gatewayDraining q")
  case True
  with inv show ?thesis by (simp add: enqueueCommandInLane_def)
next
  case False
  note I = cqInvD [OF inv]
  define k where "k = normalizeLane lane"
  obtain ls q1 where g: "getLaneState k q = (ls, q1)" by fastforce
  note G = getLaneState_inv [OF I(1,2) g]
  define entry where "entry = \<lparr>qe_promise = nextPromise q1, qe_enqueuedAt = now,
    qe_warnAfterMs = (case eo_warnAfterMs opts of None \<Rightarrow> 2000 | Some w \<Rightarrow> w),
    qe_taskTimeoutMs = normalizeTaskTimeoutMs (eo_taskTimeoutMs opts), qe_onWait = eo_onWait opts\<rparr>"
  define q2 where "q2 = putLane k (ls\<lparr>ls_queue := ls_queue ls @ [entry]\<rparr>)
               (q1\<lparr>nextPromise := Suc (nextPromise q1)\<rparr>)"
  have eq: "snd (enqueueCommandInLane now lane opts q) = drainLane now k q2"
    using False g
    by (simp add: enqueueCommandInLane_def Let_def k_def [symmetric] q2_def entry_def)
  have idle: "idleExcept {k} q2"
    using G(2) by (auto simp: q2_def idleExcept_def jm_get_set split: if_splits)
  have A1: "cqCore q2" "set (allActiveTaskIds q2) = set (allActiveTaskIds q1)"
    using appendEntry_core [OF G(1,3) _ q2_def] by (simp_all add: entry_def)
  note dr = drainLane_inv [OF A1(1) idle, where now = now and k = k]
  have "activeTaskWaiters q2 = activeTaskWaiters q" using G(5) by (simp add: q2_def)
  then show ?thesis
    unfolding eq cqInv_def using dr A1(2) G(4) waitersPending_mono [OF I(3)] by simp
qed

lemma markGatewayDraining_inv:
  "cqInv q \<Longrightarrow> cqInv (markGatewayDraining q)"
  by (auto simp: cqInv_def cqCore_def promisesConserved_def queuedPromises_def runningPromises_def
      activeMatches_def fifoOrder_def laneOrder_def waitersDistinct_def idleExcept_def
      waitersPending_def allActiveTaskIds_def markGatewayDraining_def)

lemma cqCore_settled_cong:
  assumes "lanes q' = lanes q" "inFlight q' = inFlight q" "nextTaskId q' = nextTaskId q"
    "startLog q' = startLog q" "nextPromise q' = nextPromise q" "nextWaiter q' = nextWaiter q"
    "activeTaskWaiters q' = activeTaskWaiters q"
  shows "activeMatches q' = activeMatches q" "fifoOrder q' = fifoOrder q"
    "waitersDistinct q' = waitersDistinct q" "idleExcept X q' = idleExcept X q"
    "waitersPending q' = waitersPending q" "queuedPromises q' = queuedPromises q"
    "runningPromises q' = runningPromises q" "allActiveTaskIds q' = allActiveTaskIds q"
  using assms
  by (simp_all add: activeMatches_def fifoOrder_def laneOrder_def waitersDistinct_def
      idleExcept_def waitersPending_def allActiveTaskIds_def queuedPromises_def
      runningPromises_def)

lemma clearCommandLane_inv:
  assumes inv: "cqInv q" shows "cqInv (snd (clearCommandLane lane q))"
proof (cases "jm_get (lanes q) (normalizeLane lane)")
  case None
  with inv show ?thesis by (simp add: clearCommandLane_def)
next
  case (Some ls)
  note I = cqInvD [OF inv]
  note D = cqCoreD [OF I(1)]
  define k where "k = normalizeLane lane"
  have lane: "jm_get (lanes q) k = Some ls" using Some by (simp add: k_def)
  note L = activeMatches_laneD [OF D(2) lane]
  define ls1 where "ls1 = ls\<lparr>ls_queue := []\<rparr>"
  define q1 where "q1 = putLane k ls1 q"
  define q2 where "q2 = q1\<lparr>settled := settled q @
      map (\<lambda>e. (qe_promise e, Rejected (CommandLaneClearedError k))) (ls_queue ls)\<rparr>"
  have eq: "snd (clearCommandLane lane q) = q2"
    using Some by (simp add: clearCommandLane_def Let_def k_def q1_def q2_def ls1_def)
  have c: "activeMatches q2 = activeMatches q1" "fifoOrder q2 = fifoOrder q1"
    "waitersDistinct q2 = waitersDistinct q1" "idleExcept X q2 = idleExcept X q1"
    "waitersPending q2 = waitersPending q1" "queuedPromises q2 = queuedPromises q1"
    "runningPromises q2 = runningPromises q1" "allActiveTaskIds q2 = allActiveTaskIds q1" for X
    by (rule cqCore_settled_cong; simp add: q2_def)+
  have m: "mset (queuedPromises q) = mset (queuedPromises q1) + mset (map qe_promise (ls_queue ls))"
    using queuedPromises_putLane [OF lane D(5), of ls1] by (simp add: q1_def ls1_def)
  have "promisesConserved q2"
    using D(1) [unfolded promisesConserved_def m] unfolding promisesConserved_def c(6,7)
    by (simp add: q2_def q1_def runningPromises_def comp_def ac_simps)
  moreover have "activeMatches q2"
    unfolding c using D(2) L lane by (auto simp: q1_def ls1_def activeMatches_def jm_get_set)
  moreover have "fifoOrder q1"
    unfolding fifoOrder_def
  proof
    fix k'
    have "laneOrder q k' = laneOrder q1 k' @ (if k' = k then map qe_promise (ls_queue ls) else [])"
      using lane by (auto simp: q1_def ls1_def laneOrder_def jm_get_set)
    moreover have "sorted_wrt (<) (laneOrder q k')" "\<forall>p \<in> set (laneOrder q k'). p < nextPromise q"
      using D(3) by (auto simp: fifoOrder_def)
    ultimately have "sorted_wrt (<) (laneOrder q1 k')" "\<forall>p \<in> set (laneOrder q1 k'). p < nextPromise q"
      by (auto simp: sorted_wrt_append)
    then show "sorted_wrt (<) (laneOrder q1 k') \<and> (\<forall>p \<in> set (laneOrder q1 k'). p < nextPromise q1)"
      by (simp add: q1_def)
  qed
  then have "fifoOrder q2" unfolding c .
  moreover have "waitersDistinct q2" unfolding c using D(4) by (simp add: q1_def waitersDistinct_def)
  moreover have "idleExcept {} q2"
    unfolding c using I(2) by (auto simp: q1_def ls1_def idleExcept_def jm_get_set laneIdle_def)
  moreover have "waitersPending q2"
  proof -
    have "jm_get (lanes q1) k = Some ls1" by (simp add: q1_def jm_get_set)
    from active_in_all [OF this] allActive_putLane [OF lane D(5), of ls1]
    have "set (allActiveTaskIds q) \<subseteq> set (allActiveTaskIds q1)"
      by (auto simp: q1_def ls1_def)
    with I(3) show ?thesis unfolding c by (auto simp: q1_def intro: waitersPending_mono)
  qed
  ultimately show ?thesis by (simp add: eq cqInv_def cqCore_def)
qed

lemma resetLane_simps [simp]:
  "ls_lane (resetLane ls) = ls_lane ls" "ls_queue (resetLane ls) = ls_queue ls"
  "ls_activeTaskIds (resetLane ls) = []" "\<not> ls_draining (resetLane ls)"
  "ls_generation (resetLane ls) = Suc (ls_generation ls)"
  "ls_maxConcurrent (resetLane ls) = ls_maxConcurrent ls"
  by (simp_all add: resetLane_def)

lemma no_flight_ahead:
  assumes "activeMatches q" "jm_get (lanes q) k = Some ls"
  shows "filter (\<lambda>f. fl_lane f = k \<and> fl_generation f = Suc (ls_generation ls)) (inFlight q) = []"
  using assms by (fastforce simp: activeMatches_def filter_empty_conv)

lemma resetLane_core:
  assumes core: "cqCore q" and lane: "jm_get (lanes q) k = Some ls"
  shows "cqCore (putLane k (resetLane ls) q)"
proof -
  note D = cqCoreD [OF core]
  note L = activeMatches_laneD [OF D(2) lane]
  have "mset (queuedPromises (putLane k (resetLane ls) q)) = mset (queuedPromises q)"
    using queuedPromises_putLane [OF lane D(5), of "resetLane ls"] by simp
  moreover have "activeMatches (putLane k (resetLane ls) q)"
    using D(2) L lane no_flight_ahead [OF D(2) lane]
    by (auto simp: activeMatches_def jm_get_set le_Suc_eq)
  moreover have "laneOrder (putLane k (resetLane ls) q) k' = laneOrder q k'" for k'
    using lane by (simp add: laneOrder_def jm_get_set)
  ultimately show ?thesis
    using D by (simp add: cqCore_def promisesConserved_def runningPromises_def fifoOrder_def
        waitersDistinct_def)
qed

lemma resetCommandLane_inv:
  assumes inv: "cqInv q" shows "cqInv (snd (resetCommandLane now lane q))"
proof (cases "jm_get (lanes q) (normalizeLane lane)")
  case None
  with inv show ?thesis by (simp add: resetCommandLane_def)
next
  case (Some ls)
  note I = cqInvD [OF inv]
  define k where "k = normalizeLane lane"
  have lane: "jm_get (lanes q) k = Some ls" using Some by (simp add: k_def)
  define q1 where "q1 = putLane k (resetLane ls) q"
  have core: "cqCore q1" unfolding q1_def by (rule resetLane_core [OF I(1) lane])
  have idle: "idleExcept {k} q1"
    using I(2) by (auto simp: q1_def idleExcept_def jm_get_set split: if_splits)
  define q2 where "q2 = (if ls_queue ls \<noteq> [] then drainLane now k q1 else q1)"
  have eq: "snd (resetCommandLane now lane q) = notifyActiveTaskWaiters q2"
    using Some by (simp add: resetCommandLane_def Let_def k_def q1_def q2_def)
  have "cqCore q2 \<and> idleExcept {} q2"
  proof (cases "ls_queue ls = []")
    case True
    then have "laneIdle (resetLane ls)" by (simp add: laneIdle_def)
    with idle have "idleExcept {} q1"
      by (auto simp: q1_def idleExcept_def jm_get_set split: if_splits)
    with True core show ?thesis by (simp add: q2_def)
  next
    case False
    with drainLane_inv [OF core idle, where now = now and k = k] show ?thesis by (simp add: q2_def)
  qed
  then show ?thesis
    unfolding eq cqInv_def using notify_inv by blast
qed

lemma foldl_drainLane_inv:
  "cqCore q \<Longrightarrow> idleExcept X q \<Longrightarrow>
   cqCore (foldl (\<lambda>q lane. drainLane now lane q) q ks) \<and>
   idleExcept (X - set ks) (foldl (\<lambda>q lane. drainLane now lane q) q ks)"
proof (induction ks arbitrary: q X)
  case Nil
  then show ?case by simp
next
  case (Cons k ks)
  note dr = drainLane_inv [OF Cons.prems, where now = now and k = k]
  from Cons.IH [OF dr(1,2)] show ?case by (simp add: Diff_insert2 [symmetric])
qed

lemma map_of_map_value: "map_of (map (\<lambda>(k, v). (k, f v)) m) k = map_option f (map_of m k)"
  by (induction m) auto

lemma resetAll_core:
  assumes core: "cqCore q"
    and q1: "q1 = q\<lparr>gatewayDraining := False, lanes := map (\<lambda>(k, ls). (k, resetLane ls)) (lanes q)\<rparr>"
  shows "cqCore q1"
proof -
  note D = cqCoreD [OF core]
  have keys: "map fst (lanes q1) = map fst (lanes q)" by (simp add: q1 comp_def case_prod_unfold)
  have get: "jm_get (lanes q1) k = map_option resetLane (jm_get (lanes q) k)" for k
    by (simp add: q1 map_of_map_value)
  have "queuedPromises q1 = queuedPromises q"
    by (simp add: q1 queuedPromises_def comp_def case_prod_unfold)
  then have "promisesConserved q1"
    using D(1) by (simp add: promisesConserved_def runningPromises_def q1)
  moreover have "activeMatches q1"
    unfolding activeMatches_def
  proof (intro conjI allI impI ballI)
    show "jm_wf (lanes q1)" using D(5) by (simp add: keys)
    show "distinct (map fl_taskId (inFlight q1))" using D(2) by (simp add: q1 activeMatches_def)
    fix f assume f: "f \<in> set (inFlight q1)"
    then show "fl_taskId f < nextTaskId q1" using D(2) by (simp add: q1 activeMatches_def)
    from f D(2) obtain ls where "jm_get (lanes q) (fl_lane f) = Some ls"
      "fl_generation f \<le> ls_generation ls" by (auto simp: q1 activeMatches_def)
    then show "\<exists>ls. jm_get (lanes q1) (fl_lane f) = Some ls \<and> fl_generation f \<le> ls_generation ls"
      by (simp add: get)
  next
    fix k ls assume "jm_get (lanes q1) k = Some ls"
    then obtain l where l: "jm_get (lanes q) k = Some l" "ls = resetLane l" by (auto simp: get)
    show "ls_lane ls = k" using l activeMatches_laneD(1) [OF D(2) l(1)] by simp
    show "\<not> ls_draining ls" using l by simp
    have fl: "inFlight q1 = inFlight q" by (simp add: q1)
    show "ls_activeTaskIds ls = map fl_taskId (filter (\<lambda>f. fl_lane f = k \<and>
        fl_generation f = ls_generation ls) (inFlight q1))"
      using no_flight_ahead [OF D(2) l(1)] l(2) fl by simp
  qed
  moreover have "laneOrder q1 k = laneOrder q k" for k
  proof (cases "jm_get (lanes q) k")
    case None
    then show ?thesis by (simp add: laneOrder_def get) (simp add: q1)
  next
    case (Some ls)
    then show ?thesis by (simp add: laneOrder_def get) (simp add: q1)
  qed
  then have "fifoOrder q1" using D(3) by (simp add: fifoOrder_def q1)
  moreover have "waitersDistinct q1" using D(4) by (simp add: q1 waitersDistinct_def)
  ultimately show ?thesis by (simp add: cqCore_def)
qed

lemma resetAllLanes_inv:
  assumes inv: "cqInv q" shows "cqInv (resetAllLanes now q)"
proof -
  note I = cqInvD [OF inv]
  define q1 where
    "q1 = q\<lparr>gatewayDraining := False, lanes := map (\<lambda>(k, ls). (k, resetLane ls)) (lanes q)\<rparr>"
  define ks where "ks = map (ls_lane \<circ> snd) (filter (\<lambda>p. ls_queue (snd p) \<noteq> []) (lanes q))"
  have eq: "resetAllLanes now q =
      notifyActiveTaskWaiters (foldl (\<lambda>q lane. drainLane now lane q) q1 ks)"
    by (simp add: resetAllLanes_def ks_def q1_def)
  have core: "cqCore q1" by (rule resetAll_core [OF I(1) q1_def])
  have idle: "idleExcept (set ks) q1"
    unfolding idleExcept_def
  proof (intro allI impI)
    fix k ls assume k: "jm_get (lanes q1) k = Some ls" and nk: "k \<notin> set ks"
    then obtain l where l: "jm_get (lanes q) k = Some l" "ls = resetLane l"
      by (auto simp: q1_def map_of_map_value)
    have "ls_lane l = k" using activeMatches_laneD(1) [OF cqCoreD(2) [OF I(1)] l(1)] .
    moreover have "(k, l) \<in> set (lanes q)" using l(1) by (rule map_of_SomeD)
    ultimately have "ls_queue l = []"
      using nk unfolding ks_def by force
    then show "laneIdle ls" by (simp add: l(2) laneIdle_def)
  qed
  from foldl_drainLane_inv [OF core idle, of now ks]
  show ?thesis unfolding eq cqInv_def using notify_inv by simp
qed

lemma waitForActiveTasks_inv:
  assumes inv: "cqInv q" shows "cqInv (snd (waitForActiveTasks t q))"
proof -
  note I = cqInvD [OF inv]
  note D = cqCoreD [OF I(1)]
  define w where "w = \<lparr>wt_id = nextWaiter q, wt_activeTaskIds = allActiveTaskIds q,
                     wt_timeout = (t \<noteq> None)\<rparr>"
  define q1 where "q1 = q\<lparr>activeTaskWaiters := activeTaskWaiters q @ [w], nextWaiter := Suc (nextWaiter q)\<rparr>"
  have "cqCore q1"
    using D unfolding cqCore_def
    by (auto simp: q1_def w_def promisesConserved_def queuedPromises_def runningPromises_def
        activeMatches_def fifoOrder_def laneOrder_def waitersDistinct_def)
  moreover have "idleExcept {} q1" using I(2) by (simp add: q1_def idleExcept_def)
  ultimately have "cqInv (notifyActiveTaskWaiters q1)"
    unfolding cqInv_def using notify_inv by blast
  with inv show ?thesis
    by (simp add: waitForActiveTasks_def Let_def q1_def w_def)
qed

lemma waiterTimeout_inv:
  assumes inv: "cqInv q" shows "cqInv (waiterTimeout i q)"
proof (cases "find (\<lambda>w. wt_id w = i \<and> wt_timeout w) (activeTaskWaiters q)")
  case None
  with inv show ?thesis by (simp add: waiterTimeout_def)
next
  case (Some w)
  note I = cqInvD [OF inv]
  note D = cqCoreD [OF I(1)]
  have "distinct (map wt_id (remove1 w (activeTaskWaiters q)))"
    using D(4) by (auto simp: waitersDistinct_def distinct_map inj_on_def dest: notin_set_remove1
        set_remove1_subset [THEN subsetD])
  moreover have "set (remove1 w (activeTaskWaiters q)) \<subseteq> set (activeTaskWaiters q)"
    by (rule set_remove1_subset)
  ultimately show ?thesis
    using Some I D
    by (auto simp: waiterTimeout_def resolveActiveTaskWaiter_def cqInv_def cqCore_def
        promisesConserved_def queuedPromises_def runningPromises_def activeMatches_def
        fifoOrder_def laneOrder_def waitersDistinct_def idleExcept_def waitersPending_def
        allActiveTaskIds_def)
qed

text \<open>A task that settles: first what holds whether or not its generation is current.\<close>

lemma find_flight:
  assumes "activeMatches q" "find (\<lambda>f. fl_taskId f = t) (inFlight q) = Some f"
  shows "f \<in> set (inFlight q)" "fl_taskId f = t"
    "\<exists>ls. jm_get (lanes q) (fl_lane f) = Some ls \<and> fl_generation f \<le> ls_generation ls"
    "remove1 f (inFlight q) = filter (\<lambda>g. fl_taskId g \<noteq> t) (inFlight q)"
proof -
  from assms(2) show f: "f \<in> set (inFlight q)" "fl_taskId f = t"
    by (auto simp: find_Some_iff)
  with assms(1) show "\<exists>ls. jm_get (lanes q) (fl_lane f) = Some ls \<and> fl_generation f \<le> ls_generation ls"
    by (auto simp: activeMatches_def)
  have "distinct (map fl_taskId (inFlight q))" using assms(1) by (simp add: activeMatches_def)
  with f show "remove1 f (inFlight q) = filter (\<lambda>g. fl_taskId g \<noteq> t) (inFlight q)"
    by (auto simp: distinct_map distinct_remove1_removeAll removeAll_filter_not_eq inj_on_def
        intro!: filter_cong)
qed

lemma finishFlight_core:
  assumes core: "cqCore q" and find: "find (\<lambda>f. fl_taskId f = t) (inFlight q) = Some f"
    and lane: "jm_get (lanes q) (fl_lane f) = Some ls"
    and compl: "completeTask ls t (fl_generation f) = (current, ls1)"
    and q1: "q1 = putLane (fl_lane f) ls1 (q\<lparr>inFlight := remove1 f (inFlight q),
               settled := settled q @ [(qe_promise (fl_entry f), out)]\<rparr>)"
  shows "cqCore q1" "jm_get (lanes q1) (fl_lane f) = Some ls1"
    "ls_queue ls1 = ls_queue ls" "ls_maxConcurrent ls1 = ls_maxConcurrent ls"
    "current = (fl_generation f = ls_generation ls)" "\<not> current \<Longrightarrow> ls1 = ls"
proof -
  note D = cqCoreD [OF core]
  note L = activeMatches_laneD [OF D(2) lane]
  note F = find_flight [OF D(2) find]
  have ls1: "ls_queue ls1 = ls_queue ls" "ls_lane ls1 = ls_lane ls"
    "ls_generation ls1 = ls_generation ls" "ls_draining ls1 = ls_draining ls"
    "ls_maxConcurrent ls1 = ls_maxConcurrent ls"
    "current = (fl_generation f = ls_generation ls)"
    "ls_activeTaskIds ls1 = (if current then remove1 t (ls_activeTaskIds ls) else ls_activeTaskIds ls)"
    using compl by (auto simp: completeTask_def split: if_splits)
  have fl: "inFlight q1 = filter (\<lambda>g. fl_taskId g \<noteq> t) (inFlight q)" by (simp add: q1 F(4))
  have dist: "distinct (map fl_taskId (inFlight q))" using D(2) by (simp add: activeMatches_def)
  have "mset (queuedPromises q1) = mset (queuedPromises q)"
    using queuedPromises_putLane [OF lane D(5), of ls1] ls1(1)
    by (simp add: q1 queuedPromises_def)
  moreover have "mset (runningPromises q) = add_mset (qe_promise (fl_entry f)) (mset (runningPromises q1))"
    using F(1) by (simp add: q1 runningPromises_def image_mset_Diff)
  ultimately have "promisesConserved q1"
    using D(1) unfolding promisesConserved_def by (simp add: q1 ac_simps)
  moreover have "activeMatches q1"
    unfolding activeMatches_def
  proof (intro conjI allI impI ballI)
    show "jm_wf (lanes q1)" using D(5) by (simp add: q1)
    show "distinct (map fl_taskId (inFlight q1))"
      using dist by (simp add: fl distinct_map_filter)
    fix g assume g: "g \<in> set (inFlight q1)"
    then show "fl_taskId g < nextTaskId q1" using D(2) by (auto simp: fl q1 activeMatches_def)
    from g D(2) obtain l where "jm_get (lanes q) (fl_lane g) = Some l"
      "fl_generation g \<le> ls_generation l" by (auto simp: fl activeMatches_def)
    then show "\<exists>ls. jm_get (lanes q1) (fl_lane g) = Some ls \<and> fl_generation g \<le> ls_generation ls"
      using lane ls1 by (auto simp: q1 jm_get_set)
  next
    fix k l assume l: "jm_get (lanes q1) k = Some l"
    show "ls_lane l = k" using l L(1) ls1 activeMatches_laneD(1) [OF D(2)]
      by (auto simp: q1 jm_get_set split: if_splits)
    show "\<not> ls_draining l" using l L(2) ls1 activeMatches_laneD(2) [OF D(2)]
      by (auto simp: q1 jm_get_set split: if_splits)
    show "ls_activeTaskIds l = map fl_taskId (filter (\<lambda>f. fl_lane f = k \<and>
        fl_generation f = ls_generation l) (inFlight q1))"
    proof (cases "k = fl_lane f")
      case True
      then have l1: "l = ls1" using l by (simp add: q1 jm_get_set)
      define A where "A = filter (\<lambda>g. fl_lane g = k \<and> fl_generation g = ls_generation ls) (inFlight q)"
      have act: "ls_activeTaskIds ls = map fl_taskId A" using L(3) True by (simp add: A_def)
      have dA: "distinct (map fl_taskId A)" using dist by (simp add: A_def distinct_map_filter)
      have goal: "filter (\<lambda>f. fl_lane f = k \<and> fl_generation f = ls_generation l) (inFlight q1) =
          filter (\<lambda>g. fl_taskId g \<noteq> t) A"
        by (auto simp: fl A_def l1 ls1 intro!: filter_cong)
      show ?thesis
      proof (cases current)
        case True
        then have "ls_activeTaskIds l = filter (\<lambda>x. x \<noteq> t) (map fl_taskId A)"
          using ls1(7) act dA
          by (auto simp: l1 distinct_remove1_removeAll removeAll_filter_not_eq intro!: filter_cong)
        then show ?thesis by (simp add: goal filter_map comp_def)
      next
        case False
        have "\<forall>g \<in> set A. fl_taskId g \<noteq> t"
        proof
          fix g assume "g \<in> set A"
          then have "g \<in> set (inFlight q)" "fl_generation g \<noteq> fl_generation f"
            using False ls1(6) by (auto simp: A_def)
          with F(1,2) dist show "fl_taskId g \<noteq> t" by (auto simp: distinct_map inj_on_def)
        qed
        then have "filter (\<lambda>g. fl_taskId g \<noteq> t) A = A" by (simp add: filter_id_conv)
        with False show ?thesis unfolding goal using ls1(7) act by (simp add: l1)
      qed
    next
      case False
      with l have lk: "jm_get (lanes q) k = Some l" by (simp add: q1 jm_get_set)
      have "filter (\<lambda>f. fl_lane f = k \<and> fl_generation f = ls_generation l) (inFlight q1) =
          filter (\<lambda>f. fl_lane f = k \<and> fl_generation f = ls_generation l) (inFlight q)"
        using False F(1,2) dist by (auto simp: fl distinct_map inj_on_def intro!: filter_cong)
      with activeMatches_laneD(3) [OF D(2) lk] show ?thesis by simp
    qed
  qed
  moreover have "laneOrder q1 k' = laneOrder q k'" for k'
    using lane ls1(1) by (simp add: laneOrder_def jm_get_set q1)
  then have "fifoOrder q1" using D(3) by (simp add: fifoOrder_def q1)
  moreover have "waitersDistinct q1" using D(4) by (simp add: waitersDistinct_def q1)
  ultimately show "cqCore q1" by (simp add: cqCore_def)
  show "jm_get (lanes q1) (fl_lane f) = Some ls1" by (simp add: q1 jm_get_set)
  show "ls_queue ls1 = ls_queue ls" "ls_maxConcurrent ls1 = ls_maxConcurrent ls"
    "current = (fl_generation f = ls_generation ls)" by (simp_all add: ls1)
  show "\<not> current \<Longrightarrow> ls1 = ls" using compl by (auto simp: completeTask_def split: if_splits)
qed

text \<open>The promise settles last, but nothing before it reads \<open>settled\<close>: it may as well settle first.\<close>

lemma startEntry_settled:
  "startEntry now e n ls (q\<lparr>settled := s\<rparr>) =
     (fst (startEntry now e n ls q), (snd (startEntry now e n ls q))\<lparr>settled := s\<rparr>)"
  by (simp add: startEntry_def Let_def)

lemma pumpLoop_settled:
  "pumpLoop now es ls (q\<lparr>settled := s\<rparr>) =
     (case pumpLoop now es ls q of (ls', q') \<Rightarrow> (ls', q'\<lparr>settled := s\<rparr>))"
  by (induction es arbitrary: ls q) (simp_all add: startEntry_settled case_prod_unfold)

lemma pump_settled: "pump now ls (q\<lparr>settled := s\<rparr>) = (pump now ls q)\<lparr>settled := s\<rparr>"
  by (simp add: pump_def pumpLoop_settled putLane_def split: prod.split)

lemma pump_keeps_settled [simp]: "settled (pump now ls q) = settled q"
proof -
  have "pump now ls (q\<lparr>settled := settled q\<rparr>) = (pump now ls q)\<lparr>settled := settled q\<rparr>"
    by (rule pump_settled)
  then have "pump now ls q = (pump now ls q)\<lparr>settled := settled q\<rparr>" by simp
  then show ?thesis by (metis command_queue.select_convs(7) command_queue.surjective
      command_queue.update_convs(7))
qed

lemma notifyWaiter_settled: "notifyWaiter (q\<lparr>settled := s\<rparr>) w = (notifyWaiter q w)\<lparr>settled := s\<rparr>"
  by (simp add: notifyWaiter_def resolveActiveTaskWaiter_def hasPendingActiveTasks_def)

lemma foldl_notifyWaiter_settled:
  "foldl notifyWaiter (q\<lparr>settled := s\<rparr>) ws = (foldl notifyWaiter q ws)\<lparr>settled := s\<rparr>"
  by (induction ws arbitrary: q) (simp_all add: notifyWaiter_settled)

lemma notify_settled:
  "notifyActiveTaskWaiters (q\<lparr>settled := s\<rparr>) = (notifyActiveTaskWaiters q)\<lparr>settled := s\<rparr>"
  by (simp add: notifyActiveTaskWaiters_def foldl_notifyWaiter_settled)

lemma taskSettled_unfold:
  assumes core: "activeMatches q" and find: "find (\<lambda>f. fl_taskId f = t) (inFlight q) = Some f"
    and out: "runQueueEntryTask (fl_lane f) (fl_entry f) r = Some out"
    and lane: "jm_get (lanes q) (fl_lane f) = Some ls"
    and compl: "completeTask ls t (fl_generation f) = (current, ls1)"
    and q1: "q1 = putLane (fl_lane f) ls1 (q\<lparr>inFlight := remove1 f (inFlight q),
               settled := settled q @ [(qe_promise (fl_entry f), out)]\<rparr>)"
  shows "taskSettled now t r q = (if current then pump now ls1 (notifyActiveTaskWaiters q1) else q1)"
proof -
  define q0 where "q0 = putLane (fl_lane f) ls1 (q\<lparr>inFlight := remove1 f (inFlight q)\<rparr>)"
  let ?s = "settled q @ [(qe_promise (fl_entry f), out)]"
  have q10: "q1 = q0\<lparr>settled := ?s\<rparr>" by (simp add: q1 q0_def putLane_def)
  have g: "getLaneState (fl_lane f) (q\<lparr>inFlight := remove1 f (inFlight q)\<rparr>) =
      (ls, q\<lparr>inFlight := remove1 f (inFlight q)\<rparr>)"
    using lane by (simp add: getLaneState_def)
  have lanes0: "lanes (notifyActiveTaskWaiters q0) = lanes q0"
    by (simp add: notifyActiveTaskWaiters_def)
  have "jm_get (lanes (notifyActiveTaskWaiters q0)) (fl_lane f) = Some ls1"
    unfolding lanes0 by (simp add: q0_def jm_get_set)
  then have get: "fst (getLaneState (fl_lane f) (notifyActiveTaskWaiters q0)) = ls1"
    by (simp add: getLaneState_fst)
  have s0: "settled q0 = settled q" "settled (notifyActiveTaskWaiters q0) = settled q"
    by (simp_all add: q0_def notifyActiveTaskWaiters_def)
  have "taskSettled now t r q =
      (if current then (pump now ls1 (notifyActiveTaskWaiters q0))\<lparr>settled := ?s\<rparr>
       else q0\<lparr>settled := ?s\<rparr>)"
    using find out g compl get s0 by (simp add: taskSettled_def Let_def q0_def [symmetric])
  then show ?thesis
    by (simp add: q10 notify_settled pump_settled)
qed

lemma taskSettled_inv:
  assumes inv: "cqInv q" shows "cqInv (taskSettled now t r q)"
proof (cases "find (\<lambda>f. fl_taskId f = t) (inFlight q)")
  case None
  with inv show ?thesis by (simp add: taskSettled_def)
next
  case (Some f)
  note I = cqInvD [OF inv]
  note D = cqCoreD [OF I(1)]
  show ?thesis
  proof (cases "runQueueEntryTask (fl_lane f) (fl_entry f) r")
    case None
    with Some inv show ?thesis by (simp add: taskSettled_def)
  next
    case out: (Some out)
    obtain ls where lane: "jm_get (lanes q) (fl_lane f) = Some ls"
      using find_flight(3) [OF D(2) Some] by blast
    obtain current ls1 where compl: "completeTask ls t (fl_generation f) = (current, ls1)" by fastforce
    define q1 where "q1 = putLane (fl_lane f) ls1 (q\<lparr>inFlight := remove1 f (inFlight q),
               settled := settled q @ [(qe_promise (fl_entry f), out)]\<rparr>)"
    note C = finishFlight_core [OF I(1) Some lane compl q1_def]
    note U = taskSettled_unfold [OF D(2) Some out lane compl q1_def, of now]
    show ?thesis
    proof (cases current)
      case True
      have "idleExcept {fl_lane f} q1"
        using I(2) by (auto simp: q1_def idleExcept_def jm_get_set split: if_splits)
      note N = notify_inv [OF C(1)]
      from \<open>idleExcept {fl_lane f} q1\<close> have idle: "idleExcept {fl_lane f} (notifyActiveTaskWaiters q1)"
        using N(4) by blast
      have nd: "ls_draining ls1 = False"
        using activeMatches_laneD(2) [OF cqCoreD(2) [OF C(1)] C(2)] by simp
      then have same: "ls1 = ls1\<lparr>ls_draining := False\<rparr>" by simp
      have lane1: "jm_get (lanes (notifyActiveTaskWaiters q1)) (fl_lane f) = Some ls1"
        using C(2) N(3) by simp
      note P = pump_inv [OF N(1) lane1 same idle, where now = now]
      show ?thesis
        unfolding U cqInv_def using True P(1,2) waitersPending_mono [OF N(2) P(4) P(3)] by simp
    next
      case False
      with C(6) have "ls1 = ls" by blast
      with lane I(2) have "idleExcept {} q1"
        by (auto simp: q1_def idleExcept_def jm_get_set split: if_splits)
      moreover have "set (allActiveTaskIds q) \<subseteq> set (allActiveTaskIds q1)"
        using allActive_putLane [of "q\<lparr>inFlight := remove1 f (inFlight q),
            settled := settled q @ [(qe_promise (fl_entry f), out)]\<rparr>" "fl_lane f" ls ls1]
          active_in_all [OF C(2)] lane D(5) \<open>ls1 = ls\<close>
        by (auto simp: q1_def allActiveTaskIds_def)
      then have "waitersPending q1"
        by (rule waitersPending_mono [OF I(3), rotated]) (simp add: q1_def)
      ultimately show ?thesis unfolding U cqInv_def using False C(1) by simp
    qed
  qed
qed

lemma emptyCommandQueue_inv: "cqInv emptyCommandQueue"
  by (simp add: cqInv_def cqCore_def promisesConserved_def queuedPromises_def runningPromises_def
      activeMatches_def fifoOrder_def laneOrder_def waitersDistinct_def idleExcept_def
      waitersPending_def emptyCommandQueue_def)

interpretation cq: invariant_system commandStep cqInv
proof
  show "cqInv (commandStep q e)" if "cqInv q" for q e
    using that by (cases e)
      (simp_all add: markGatewayDraining_inv setCommandLaneConcurrency_inv
        enqueueCommandInLane_inv clearCommandLane_inv resetCommandLane_inv resetAllLanes_inv
        waitForActiveTasks_inv waiterTimeout_inv taskSettled_inv)
qed

lemma commandRun_inv: "cqInv (commandRun es)"
  unfolding commandRun_def by (rule cq.run_inv [OF emptyCommandQueue_inv])

lemmas commandRun_invD = cqInvD [OF commandRun_inv]
lemmas commandRun_coreD = cqCoreD [OF commandRun_invD(1)]

section \<open>Properties\<close>

definition plainOptions :: enqueue_options where
  "plainOptions = \<lparr>eo_warnAfterMs = None, eo_taskTimeoutMs = None, eo_onWait = False\<rparr>"

lemmas command_eval =
  commandRun_def emptyCommandQueue_def enqueueCommandInLane_def getLaneState_def newLane_def
  putLane_def normalizeLane_def js_string_defs drainLane_def pump_def startEntry_def
  normalizeTaskTimeoutMs_def plainOptions_def Let_def

text \<open>C5. Every promise the queue has handed out is in exactly one place after every sequence of
operations: queued in one lane, held by one running task, or settled once.  So no accepted task is
lost and no promise settles twice, whatever is cleared, reset or timed out.\<close>

theorem command_promises_conserved:
  "mset (queuedPromises (commandRun es)) + mset (runningPromises (commandRun es)) +
   mset (map fst (settled (commandRun es))) = mset [0..<nextPromise (commandRun es)]"
  using commandRun_coreD(1) by (simp add: promisesConserved_def)

text \<open>Lanes are work-conserving: between operations no lane is draining, a lane with a queued
entry has no free slot, and a lane's active set is exactly the running tasks of its current
generation, in start order.\<close>

theorem command_lane_settled_state:
  assumes "jm_get (lanes (commandRun es)) k = Some ls"
  shows "\<not> ls_draining ls \<and>
    (ls_queue ls = [] \<or>
     \<not> jn_less (jn_of_nat (length (ls_activeTaskIds ls))) (ls_maxConcurrent ls)) \<and>
    ls_activeTaskIds ls = map fl_taskId
      (filter (\<lambda>f. fl_lane f = k \<and> fl_generation f = ls_generation ls) (inFlight (commandRun es)))"
proof -
  have "laneIdle ls" using commandRun_invD(2) [of es] assms by (simp add: idleExcept_def)
  then show ?thesis
    using activeMatches_laneD [OF commandRun_coreD(2) assms] by (simp add: laneIdle_def)
qed

theorem command_lane_settled_state_witness:
  "let ls = snd (hd (lanes (commandRun [EvEnqueue 0 ''main'' plainOptions])))
   in \<not> ls_draining ls \<and> ls_activeTaskIds ls = [1]"
proof -
  have lane: "jm_get (lanes (commandRun [EvEnqueue 0 ''main'' plainOptions])) ''main'' =
      Some (snd (hd (lanes (commandRun [EvEnqueue 0 ''main'' plainOptions]))))"
    by (simp add: command_eval)
  show ?thesis
    using command_lane_settled_state [OF lane] by (simp add: command_eval)
qed

text \<open>C13. Each lane is first-in first-out: the promises of the entries a lane has started, followed by
those it still queues, are in the order in which they were handed out, across clears, resets and
concurrency changes.\<close>

theorem command_lane_fifo:
  "sorted_wrt (<)
     (map snd (filter (\<lambda>p. fst p = k) (startLog (commandRun es))) @
      (case jm_get (lanes (commandRun es)) k of
         None \<Rightarrow> [] | Some ls \<Rightarrow> map qe_promise (ls_queue ls)))"
  using commandRun_coreD(3) by (simp add: fifoOrder_def laneOrder_def)

lemma putLane_id: "jm_wf (lanes q) \<Longrightarrow> jm_get (lanes q) k = Some ls \<Longrightarrow> putLane k ls q = q"
proof -
  have "jm_wf m \<Longrightarrow> jm_get m k = Some ls \<Longrightarrow> jm_set k ls m = m" for m :: "(string \<times> lane_state) list"
    by (induction m) auto
  then show "jm_wf (lanes q) \<Longrightarrow> jm_get (lanes q) k = Some ls \<Longrightarrow> putLane k ls q = q"
    by (simp add: putLane_def)
qed

text \<open>A completion from an abandoned generation settles its own promise and touches nothing else:
no lane, no active set, no waiter, and it starts no queued entry.\<close>

theorem command_stale_completion:
  assumes "find (\<lambda>f. fl_taskId f = t) (inFlight (commandRun es)) = Some f"
    and "runQueueEntryTask (fl_lane f) (fl_entry f) r = Some out"
    and "jm_get (lanes (commandRun es)) (fl_lane f) = Some ls"
    and "fl_generation f \<noteq> ls_generation ls"
  shows "commandStep (commandRun es) (EvSettled now t r) =
    (commandRun es)\<lparr>inFlight := remove1 f (inFlight (commandRun es)),
      settled := settled (commandRun es) @ [(qe_promise (fl_entry f), out)]\<rparr>"
proof -
  have "completeTask ls t (fl_generation f) = (False, ls)"
    using assms(4) by (simp add: completeTask_def)
  from taskSettled_unfold [OF commandRun_coreD(2) assms(1,2,3) this refl]
  show ?thesis using assms(3) commandRun_coreD(5) by (simp add: putLane_id)
qed

theorem command_stale_completion_witness:
  "settled (commandStep (commandRun [EvEnqueue 0 ''main'' plainOptions, EvReset 5 ''main''])
     (EvSettled 9 1 (TaskDone ''ok''))) = [(0, Resolved ''ok'')]"
proof -
  let ?es = "[EvEnqueue 0 ''main'' plainOptions, EvReset 5 ''main'']"
  let ?f = "\<lparr>fl_taskId = 1, fl_lane = ''main'', fl_generation = 0, fl_entry =
      \<lparr>qe_promise = 0, qe_enqueuedAt = 0, qe_warnAfterMs = 2000, qe_taskTimeoutMs = None,
       qe_onWait = False\<rparr>\<rparr>"
  note ev = command_eval resetCommandLane_def resetLane_def notifyActiveTaskWaiters_def
    runQueueEntryTask_def
  have "find (\<lambda>f. fl_taskId f = 1) (inFlight (commandRun ?es)) = Some ?f" by (simp add: ev)
  moreover have "runQueueEntryTask (fl_lane ?f) (fl_entry ?f) (TaskDone ''ok'') =
      Some (Resolved ''ok'')" by (simp add: ev)
  moreover have "jm_get (lanes (commandRun ?es)) (fl_lane ?f) =
      Some (resetLane (newLane ''main''))" by (simp add: ev)
  moreover have "fl_generation ?f \<noteq> ls_generation (resetLane (newLane ''main''))"
    by (simp add: ev)
  ultimately have "commandStep (commandRun ?es) (EvSettled 9 1 (TaskDone ''ok'')) =
      (commandRun ?es)\<lparr>inFlight := remove1 ?f (inFlight (commandRun ?es)),
        settled := settled (commandRun ?es) @ [(qe_promise (fl_entry ?f), Resolved ''ok'')]\<rparr>"
    by (rule command_stale_completion)
  then show ?thesis by (simp add: ev)
qed

end
