(* ===== verification/CommandWaiters.thy ===== *)
theory CommandWaiters
  imports CommandQueue
begin

text \<open>
  The waiters of the command queue: every promise that \<open>waitForActiveTasks\<close> hands out is pending or was
  resolved once, and a waiter is resolved as drained in the step in which the last of its tasks leaves the
  active sets.
\<close>

section \<open>What the operations do to waiters\<close>

definition sameWaiters :: "command_queue \<Rightarrow> command_queue \<Rightarrow> bool" where
  "sameWaiters q q' \<longleftrightarrow> activeTaskWaiters q' = activeTaskWaiters q \<and> nextWaiter q' = nextWaiter q \<and>
     waiterResults q' = waiterResults q \<and> nextTaskId q \<le> nextTaskId q'"

lemma sameWaiters_refl [simp]: "sameWaiters q q"
  by (simp add: sameWaiters_def)

lemma sameWaiters_trans [trans]: "sameWaiters q q' \<Longrightarrow> sameWaiters q' q'' \<Longrightarrow> sameWaiters q q''"
  by (simp add: sameWaiters_def)

lemma sameWaiters_putLane [simp]: "sameWaiters q (putLane k ls q') = sameWaiters q q'"
  by (simp add: sameWaiters_def)

lemma getLaneState_same: "getLaneState k q = (ls, q') \<Longrightarrow> sameWaiters q q'"
  by (auto simp: getLaneState_def split: option.splits)

lemma getLaneState_same' [simp]: "sameWaiters q (snd (getLaneState k q))"
  using getLaneState_same by (metis prod.collapse)

lemma pump_same: "sameWaiters q (pump now ls q)"
proof -
  obtain ls' q' where run: "pumpLoop now (ls_queue ls) ls q = (ls', q')" by fastforce
  from run have "sameWaiters q q'"
    by (rule pumpLoop_spec) (auto simp: sameFrame_def sameWaiters_def)
  with run show ?thesis by (simp add: pump_def)
qed

lemma drainLane_same: "sameWaiters q (drainLane now k q)"
proof -
  obtain ls q' where g: "getLaneState k q = (ls, q')" by fastforce
  then have "sameWaiters q q'" by (rule getLaneState_same)
  then show ?thesis using pump_same sameWaiters_trans by (auto simp: drainLane_def g)
qed

lemma drainLanes_same: "sameWaiters q (foldl (\<lambda>q k. drainLane now k q) q ks)"
  by (induction ks arbitrary: q) (auto intro: sameWaiters_trans drainLane_same)

lemma setConcurrency_same: "sameWaiters q (setCommandLaneConcurrency now k n q)"
  by (auto simp: setCommandLaneConcurrency_def Let_def case_prod_unfold
      intro: sameWaiters_trans [OF _ drainLane_same])

lemma enqueue_same: "sameWaiters q (snd (enqueueCommandInLane now k opts q))"
proof -
  have "sameWaiters q (putLane c ls (snd (getLaneState c q)\<lparr>nextPromise := n\<rparr>))" for c ls n
    using getLaneState_same' [of q c] by (simp add: sameWaiters_def)
  then show ?thesis
    by (auto simp: enqueueCommandInLane_def Let_def case_prod_unfold intro: sameWaiters_trans [OF _ drainLane_same])
qed

lemma clear_same: "sameWaiters q (snd (clearCommandLane k q))"
  by (auto simp: clearCommandLane_def sameWaiters_def Let_def split: option.split)

section \<open>Waiters are conserved\<close>

definition waitersConserved :: "command_queue \<Rightarrow> bool" where
  "waitersConserved q \<longleftrightarrow>
     mset (map wt_id (activeTaskWaiters q)) + mset (map fst (waiterResults q)) = mset [0..<nextWaiter q]"

definition waitersOld :: "command_queue \<Rightarrow> bool" where
  "waitersOld q \<longleftrightarrow> (\<forall>w \<in> set (activeTaskWaiters q). \<forall>t \<in> set (wt_activeTaskIds w). t < nextTaskId q)"

lemma sameWaiters_keeps:
  assumes "sameWaiters q q'"
  shows "waitersConserved q \<Longrightarrow> waitersConserved q'" "waitersOld q \<Longrightarrow> waitersOld q'"
  using assms by (auto simp: sameWaiters_def waitersConserved_def waitersOld_def intro: less_le_trans)

lemma resolve_keeps:
  "waitersConserved q \<Longrightarrow> waitersConserved (resolveActiveTaskWaiter w d q)"
  "waitersOld q \<Longrightarrow> waitersOld (resolveActiveTaskWaiter w d q)"
proof -
  show "waitersConserved (resolveActiveTaskWaiter w d q)" if c: "waitersConserved q"
  proof (cases "w \<in> set (activeTaskWaiters q)")
    case True
    then have "mset (map wt_id (activeTaskWaiters q)) = add_mset (wt_id w) (mset (map wt_id (remove1 w (activeTaskWaiters q))))"
      by (induction "activeTaskWaiters q" rule: list.induct; simp)
         (metis image_mset_add_mset insert_DiffM set_mset_mset)
    from c [unfolded waitersConserved_def this] True show ?thesis
      unfolding waitersConserved_def resolveActiveTaskWaiter_def by simp
  qed (use c in \<open>simp add: resolveActiveTaskWaiter_def\<close>)
  show "waitersOld q \<Longrightarrow> waitersOld (resolveActiveTaskWaiter w d q)"
    by (auto simp: resolveActiveTaskWaiter_def waitersOld_def dest: notin_set_remove1)
qed

lemma notify_keeps:
  "waitersConserved q \<Longrightarrow> waitersConserved (foldl notifyWaiter q ws)"
  "waitersOld q \<Longrightarrow> waitersOld (foldl notifyWaiter q ws)"
  by (induction ws arbitrary: q) (simp_all add: notifyWaiter_def resolve_keeps)

lemma resolve_results:
  "set (waiterResults q) \<subseteq> set (waiterResults (resolveActiveTaskWaiter w d q))"
  by (simp add: resolveActiveTaskWaiter_def subset_insertI)

lemma notify_results:
  "set (waiterResults q) \<subseteq> set (waiterResults (foldl notifyWaiter q ws))"
proof (induction ws arbitrary: q)
  case (Cons v ws)
  have "set (waiterResults q) \<subseteq> set (waiterResults (notifyWaiter q v))"
    using resolve_results by (simp add: notifyWaiter_def)
  with Cons show ?case by force
qed simp

lemma notify_resolved:
  assumes "w \<in> set (activeTaskWaiters q)" "w \<in> set ws" "\<not> hasPendingActiveTasks q (wt_activeTaskIds w)"
  shows "(wt_id w, True) \<in> set (waiterResults (foldl notifyWaiter q ws))"
  using assms
proof (induction ws arbitrary: q)
  case (Cons v ws)
  show ?case
  proof (cases "v = w")
    case True
    with Cons.prems have "(wt_id w, True) \<in> set (waiterResults (notifyWaiter q v))"
      by (simp add: notifyWaiter_def resolveActiveTaskWaiter_def)
    then show ?thesis using notify_results [of "notifyWaiter q v" ws] by auto
  next
    case False
    with Cons.prems have "w \<in> set (activeTaskWaiters (notifyWaiter q v))"
      by (simp add: notifyWaiter_def resolveActiveTaskWaiter_def)
    moreover have "\<not> hasPendingActiveTasks (notifyWaiter q v) (wt_activeTaskIds w)"
      using Cons.prems(3) by (simp add: hasPendingActiveTasks_iff)
    ultimately show ?thesis using Cons.IH [of "notifyWaiter q v"] Cons.prems(2) False by simp
  qed
qed simp

text \<open>Between the notification and the end of a step only new tasks become active.\<close>

lemma allActive_putLane_subset:
  "set (allActiveTaskIds (putLane k ls q)) \<subseteq> set (allActiveTaskIds q) \<union> set (ls_activeTaskIds ls)"
  using set_jm_set_subset [of k ls "lanes q"] by (fastforce simp: allActiveTaskIds_def)

lemma pump_active:
  "set (allActiveTaskIds (pump now ls q)) \<subseteq>
   set (allActiveTaskIds q) \<union> set (ls_activeTaskIds ls) \<union> {nextTaskId q..}"
proof -
  obtain ls' q' where run: "pumpLoop now (ls_queue ls) ls q = (ls', q')" by fastforce
  then obtain n where "lanes q' = lanes q" "set (ls_activeTaskIds ls') \<subseteq> set (ls_activeTaskIds ls) \<union> {nextTaskId q..<n}"
    by (rule pumpLoop_spec) (auto simp: sameFrame_def)
  with run show ?thesis
    using allActive_putLane_subset [of "ls_lane ls" "ls'\<lparr>ls_draining := False\<rparr>" q']
    by (fastforce simp: pump_def allActiveTaskIds_def)
qed

definition waiterServed :: "command_event \<Rightarrow> command_queue \<Rightarrow> task_waiter \<Rightarrow> bool" where
  "waiterServed e q' w \<longleftrightarrow> w \<in> set (activeTaskWaiters q') \<or>
     \<not> hasPendingActiveTasks q' (wt_activeTaskIds w) \<and> (wt_id w, True) \<in> set (waiterResults q') \<or>
     e = EvWaiterTimeout (wt_id w) \<and> (wt_id w, False) \<in> set (waiterResults q')"

lemma same_served: "sameWaiters q q' \<Longrightarrow> w \<in> set (activeTaskWaiters q) \<Longrightarrow> waiterServed e q' w"
  by (simp add: sameWaiters_def waiterServed_def)

lemma notify_served:
  assumes "distinct (activeTaskWaiters q)" "w \<in> set (activeTaskWaiters q)"
  shows "waiterServed e (notifyActiveTaskWaiters q) w"
  using notify_resolved [OF assms(2) assms(2)] assms activeTaskWaiters_foldl_notify [OF assms(1)]
  unfolding waiterServed_def notifyActiveTaskWaiters_def by (auto simp: hasPendingActiveTasks_iff)

lemma pump_served:
  assumes "waiterServed e q w" "\<forall>t \<in> set (wt_activeTaskIds w). t < nextTaskId q"
    and "set (ls_activeTaskIds ls) \<subseteq> set (allActiveTaskIds q)"
  shows "waiterServed e (pump now ls q) w"
proof -
  have "\<not> hasPendingActiveTasks (pump now ls q) (wt_activeTaskIds w)"
    if "\<not> hasPendingActiveTasks q (wt_activeTaskIds w)"
    using that pump_active [of now ls q] assms(2,3) by (fastforce simp: hasPendingActiveTasks_iff)
  with assms(1) pump_same [of q now ls] show ?thesis
    by (auto simp: waiterServed_def sameWaiters_def)
qed

lemma getLaneState_active: "set (ls_activeTaskIds (fst (getLaneState k q))) \<subseteq> set (allActiveTaskIds q)"
  using active_in_all by (auto simp: getLaneState_def newLane_def split: option.splits)

lemma served_settled [simp]: "waiterServed e (q\<lparr>settled := s\<rparr>) w = waiterServed e q w"
  by (simp add: waiterServed_def hasPendingActiveTasks_def)

section \<open>Every step serves the waiters\<close>

definition servesWaiters :: "command_event \<Rightarrow> command_queue \<Rightarrow> command_queue \<Rightarrow> bool" where
  "servesWaiters e q q' \<longleftrightarrow> waitersConserved q' \<and> waitersOld q' \<and>
     (\<forall>w \<in> set (activeTaskWaiters q). waiterServed e q' w)"

lemma same_serves:
  "waitersConserved q \<Longrightarrow> waitersOld q \<Longrightarrow> sameWaiters q q' \<Longrightarrow> servesWaiters e q q'"
  by (simp add: servesWaiters_def sameWaiters_keeps same_served)

lemma notify_serves:
  assumes "waitersConserved q" "waitersOld q" "sameWaiters q q'" "distinct (activeTaskWaiters q)"
  shows "servesWaiters e q (notifyActiveTaskWaiters q')"
proof -
  have "activeTaskWaiters q' = activeTaskWaiters q" using assms(3) by (simp add: sameWaiters_def)
  with assms show ?thesis
    using sameWaiters_keeps [OF assms(3)] notify_served [of q']
    by (simp add: servesWaiters_def notifyActiveTaskWaiters_def notify_keeps)
qed

lemma timeout_serves:
  assumes "waitersConserved q" "waitersOld q" "distinct (map wt_id (activeTaskWaiters q))"
  shows "servesWaiters (EvWaiterTimeout i) q (waiterTimeout i q)"
proof (cases "find (\<lambda>w. wt_id w = i \<and> wt_timeout w) (activeTaskWaiters q)")
  case None
  with assms show ?thesis by (simp add: waiterTimeout_def same_serves)
next
  case (Some v)
  then have v: "v \<in> set (activeTaskWaiters q)" "wt_id v = i" by (auto simp: find_Some_iff)
  then have "waiterServed (EvWaiterTimeout i) (resolveActiveTaskWaiter v False q) w"
    if "w \<in> set (activeTaskWaiters q)" for w
    using that by (cases "w = v") (auto simp: waiterServed_def resolveActiveTaskWaiter_def)
  with Some assms show ?thesis by (simp add: waiterTimeout_def servesWaiters_def resolve_keeps)
qed

lemma wait_serves:
  assumes "waitersConserved q" "waitersOld q" "distinct (map wt_id (activeTaskWaiters q))"
    and "\<forall>w \<in> set (activeTaskWaiters q). wt_id w < nextWaiter q" and "\<forall>t \<in> set (allActiveTaskIds q). t < nextTaskId q"
  shows "servesWaiters e q (snd (waitForActiveTasks timeoutMs q))"
proof -
  let ?w = "\<lparr>wt_id = nextWaiter q, wt_activeTaskIds = allActiveTaskIds q, wt_timeout = (timeoutMs \<noteq> None)\<rparr>"
  let ?q = "q\<lparr>activeTaskWaiters := activeTaskWaiters q @ [?w], nextWaiter := Suc (nextWaiter q)\<rparr>"
  have "?w \<notin> set (activeTaskWaiters q)" using assms(4) by fastforce
  then have "distinct (activeTaskWaiters ?q)" using assms(3) by (simp add: distinct_map)
  then have "waiterServed e (notifyActiveTaskWaiters ?q) w" if "w \<in> set (activeTaskWaiters q)" for w
    using that by (intro notify_served) simp_all
  moreover have "waitersConserved ?q" using assms(1) by (simp add: waitersConserved_def)
  moreover have "waitersOld ?q" using assms(2,5) by (auto simp: waitersOld_def)
  ultimately have "servesWaiters e q (notifyActiveTaskWaiters ?q)"
    unfolding servesWaiters_def notifyActiveTaskWaiters_def using notify_keeps by blast
  then show ?thesis using assms(1,2) by (simp add: waitForActiveTasks_def Let_def same_serves)
qed

lemma settled_serves:
  assumes "waitersConserved q" "waitersOld q" "distinct (activeTaskWaiters q)"
  shows "servesWaiters e q (taskSettled now i r q)"
proof -
  have *: "servesWaiters e q ((if current
       then (let q = notifyActiveTaskWaiters q' in pump now (fst (getLaneState k q)) q) else q')\<lparr>settled := s\<rparr>)"
    if same: "sameWaiters q q'" for q' current k s
  proof -
    let ?n = "notifyActiveTaskWaiters q'"
    let ?p = "pump now (fst (getLaneState k ?n)) ?n"
    have n: "servesWaiters e q ?n" by (rule notify_serves [OF assms(1,2) same assms(3)])
    moreover have "waiterServed e ?p w" if "w \<in> set (activeTaskWaiters q)" for w
    proof (rule pump_served [OF _ _ getLaneState_active])
      show "waiterServed e ?n w" using n that by (simp add: servesWaiters_def)
      have "nextTaskId q \<le> nextTaskId ?n" using same by (simp add: sameWaiters_def notifyActiveTaskWaiters_def)
      with assms(2) that show "\<forall>t \<in> set (wt_activeTaskIds w). t < nextTaskId ?n"
        by (auto simp: waitersOld_def intro: less_le_trans)
    qed
    ultimately have "servesWaiters e q ?p"
      using sameWaiters_keeps [OF pump_same] by (simp add: servesWaiters_def)
    with same_serves [OF assms(1,2) same] show ?thesis
      by (simp add: servesWaiters_def waitersConserved_def waitersOld_def Let_def)
  qed
  have "sameWaiters q (putLane k ls (snd (getLaneState k (q\<lparr>inFlight := fs\<rparr>))))" for k ls fs
    using getLaneState_same' [of "q\<lparr>inFlight := fs\<rparr>" k] by (simp add: sameWaiters_def)
  with * show ?thesis
    using same_serves [OF assms(1,2)]
    by (simp add: taskSettled_def Let_def case_prod_unfold split: option.split)
qed

lemma commandStep_serves:
  assumes "cqInv q" "waitersConserved q" "waitersOld q"
  shows "servesWaiters e q (commandStep q e)"
proof -
  note D = cqCoreD [OF cqInvD(1) [OF assms(1)]]
  have ids: "distinct (map wt_id (activeTaskWaiters q))" "\<forall>w \<in> set (activeTaskWaiters q). wt_id w < nextWaiter q"
    using D(4) by (simp_all add: waitersDistinct_def)
  then have dist: "distinct (activeTaskWaiters q)" by (simp add: distinct_map)
  have act: "\<forall>t \<in> set (allActiveTaskIds q). t < nextTaskId q"
  proof
    fix t assume "t \<in> set (allActiveTaskIds q)"
    then obtain k ls where "(k, ls) \<in> set (lanes q)" "t \<in> set (ls_activeTaskIds ls)"
      by (auto simp: allActiveTaskIds_def)
    then have "jm_get (lanes q) k = Some ls" using D(5) by simp
    with D(2) \<open>t \<in> set (ls_activeTaskIds ls)\<close> show "t < nextTaskId q"
      by (auto simp: activeMatches_def)
  qed
  note same = same_serves [OF assms(2,3)] and notify = notify_serves [OF assms(2,3) _ dist]
  show ?thesis
  proof (cases e)
    case EvMarkDraining
    then show ?thesis using same by (simp add: markGatewayDraining_def sameWaiters_def)
  next
    case (EvReset now k)
    have "sameWaiters q (drainLane now c (putLane c ls q))" for c ls
      using drainLane_same [of "putLane c ls q" now c] by (simp add: sameWaiters_def)
    then show ?thesis using EvReset same notify
      by (simp add: resetCommandLane_def Let_def split: option.split)
  next
    case (EvResetAll now)
    have "sameWaiters q (foldl (\<lambda>q k. drainLane now k q) (q\<lparr>gatewayDraining := False, lanes := m\<rparr>) ks)" for m ks
      using drainLanes_same [of "q\<lparr>gatewayDraining := False, lanes := m\<rparr>" now ks] by (simp add: sameWaiters_def)
    then show ?thesis using EvResetAll notify by (simp add: resetAllLanes_def Let_def)
  next
    case (EvWait t)
    then show ?thesis using wait_serves [OF assms(2,3) ids act] by simp
  next
    case (EvWaiterTimeout i)
    then show ?thesis using timeout_serves [OF assms(2,3) ids(1)] by simp
  next
    case (EvSettled now i r)
    then show ?thesis using settled_serves [OF assms(2,3) dist] by simp
  qed (simp_all add: same setConcurrency_same enqueue_same clear_same)
qed

lemma commandRun_snoc: "commandRun (es @ [e]) = commandStep (commandRun es) e"
  by (simp add: commandRun_def)

lemma commandRun_waiters: "waitersConserved (commandRun es) \<and> waitersOld (commandRun es)"
proof (induction es rule: rev_induct)
  case Nil
  then show ?case by (simp add: commandRun_def emptyCommandQueue_def waitersConserved_def waitersOld_def)
next
  case (snoc e es)
  then show ?case
    using commandStep_serves [OF commandRun_inv, of es e] by (simp add: commandRun_snoc servesWaiters_def)
qed

text \<open>C14. No lost wake-ups.  After any sequence of operations, every promise that \<open>waitForActiveTasks\<close> handed out
belongs to one waiter that is registered, or was resolved once; and a registered waiter waits for a task that is
still in some lane's active set.  In every step, a waiter that was registered stays so, or is resolved as drained
with none of its tasks in any active set after the step (they completed, or a reset dropped them), or its own timer
fired and it is resolved as not drained.\<close>

theorem command_no_lost_wakeup:
  fixes es e
  defines "before \<equiv> commandRun es" and "after \<equiv> commandRun (es @ [e])"
  shows "mset (map wt_id (activeTaskWaiters after)) + mset (map fst (waiterResults after)) = mset [0..<nextWaiter after] \<and>
    (\<forall>w \<in> set (activeTaskWaiters after). hasPendingActiveTasks after (wt_activeTaskIds w)) \<and>
    (\<forall>w \<in> set (activeTaskWaiters before). w \<in> set (activeTaskWaiters after) \<or>
       \<not> hasPendingActiveTasks after (wt_activeTaskIds w) \<and> (wt_id w, True) \<in> set (waiterResults after) \<or>
       e = EvWaiterTimeout (wt_id w) \<and> (wt_id w, False) \<in> set (waiterResults after))"
proof -
  have "servesWaiters e before after"
    unfolding before_def after_def commandRun_snoc
    using commandRun_waiters by (intro commandStep_serves [OF commandRun_inv]) simp_all
  moreover have "waitersPending after" unfolding after_def by (rule commandRun_invD(3))
  ultimately show ?thesis
    by (auto simp: servesWaiters_def waitersConserved_def waiterServed_def waitersPending_def hasPendingActiveTasks_iff)
qed

theorem command_no_lost_wakeup_witness:
  "(0, True) \<in> set (waiterResults (commandRun [EvEnqueue 0 ''main'' plainOptions, EvWait None, EvReset 5 ''main'']))"
proof -
  let ?es = "[EvEnqueue 0 ''main'' plainOptions, EvWait None]"
  let ?w = "\<lparr>wt_id = 0, wt_activeTaskIds = [1], wt_timeout = False\<rparr>"
  note ev = command_eval waitForActiveTasks_def allActiveTaskIds_def notifyActiveTaskWaiters_def notifyWaiter_def
    hasPendingActiveTasks_def resetCommandLane_def resetLane_def resolveActiveTaskWaiter_def
  have "?w \<in> set (activeTaskWaiters (commandRun ?es))" by (simp add: ev)
  moreover have "?w \<notin> set (activeTaskWaiters (commandRun (?es @ [EvReset 5 ''main''])))" by (simp add: ev)
  ultimately have "(wt_id ?w, True) \<in> set (waiterResults (commandRun (?es @ [EvReset 5 ''main''])))"
    using command_no_lost_wakeup [of ?es "EvReset 5 ''main''"] by blast
  then show ?thesis by simp
qed

end
