(* ===== verification/RateLimit.thy ===== *)
theory RateLimit
  imports Prelude
begin

text \<open>
  Rate limiting: the sliding-window limiter of failed authentication attempts,
  \<open>src/gateway/auth-rate-limit.ts\<close>, and the fixed-window limiter,
  \<open>src/infra/fixed-window-rate-limit.ts\<close>.  The instance a factory returns is a record of its
  resolved configuration and a state; each method is a function on the state.  Times and durations
  are integral milliseconds.  The IP parser (the package ipaddr.js behind \<open>normalizeIpAddress\<close> and
  \<open>isLoopbackAddress\<close>) is the parameter \<open>ip_lib\<close>.
\<close>

section \<open>The authentication limiter\<close>

record ip_lib =
  ipNormalize :: "string \<Rightarrow> string option"
  ipIsLoopback :: "string \<Rightarrow> bool"

record rate_limit_config =
  rc_maxAttempts :: "int option"
  rc_windowMs :: "int option"
  rc_lockoutMs :: "int option"
  rc_exemptLoopback :: "bool option"

record rate_limit_entry =
  attempts :: "int list"
  lockedUntil :: "int option"

record rate_check =
  allowed :: bool
  remaining :: int
  retryAfterMs :: int

record auth_limiter =
  al_ip :: ip_lib
  al_maxAttempts :: int
  al_windowMs :: int
  al_lockoutMs :: int
  al_exemptLoopback :: bool

type_synonym rate_entries = "(string, rate_limit_entry) jsmap"

definition orDefault :: "'a \<Rightarrow> 'a option \<Rightarrow> 'a" where
  "orDefault d v = (case v of None \<Rightarrow> d | Some x \<Rightarrow> x)"

definition createAuthRateLimiter :: "ip_lib \<Rightarrow> rate_limit_config \<Rightarrow> auth_limiter" where
  "createAuthRateLimiter lib c =
     \<lparr>al_ip = lib, al_maxAttempts = orDefault 10 (rc_maxAttempts c),
      al_windowMs = orDefault 60000 (rc_windowMs c),
      al_lockoutMs = orDefault 300000 (rc_lockoutMs c),
      al_exemptLoopback = orDefault True (rc_exemptLoopback c)\<rparr>"

text \<open>
  \<open>resolveClientIp({ remoteAddr: ip })\<close>: with no trusted proxies it is the normalised address, and
  an empty one counts as missing.
\<close>

definition resolveRemoteIp :: "ip_lib \<Rightarrow> string option \<Rightarrow> string option" where
  "resolveRemoteIp lib ip =
     (case ip of None \<Rightarrow> None
      | Some s \<Rightarrow> (case ipNormalize lib s of None \<Rightarrow> None | Some r \<Rightarrow> if r = [] then None else Some r))"

definition normalizeRateLimitClientIp :: "ip_lib \<Rightarrow> string option \<Rightarrow> string" where
  "normalizeRateLimitClientIp lib ip =
     (if (case ip of Some s \<Rightarrow> js_startsWith s ''browser-origin:'' | None \<Rightarrow> False)
      then (case ip of Some s \<Rightarrow> s | None \<Rightarrow> [])
      else (case resolveRemoteIp lib ip of Some r \<Rightarrow> r | None \<Rightarrow> ''unknown''))"

definition normalizeScope :: "string option \<Rightarrow> string" where
  "normalizeScope scope =
     (let t = js_trim (orDefault ''default'' scope) in if t = [] then ''default'' else t)"

definition resolveKey :: "auth_limiter \<Rightarrow> string option \<Rightarrow> string option \<Rightarrow> string \<times> string" where
  "resolveKey L rawIp rawScope =
     (let ip = normalizeRateLimitClientIp (al_ip L) rawIp;
          scope = normalizeScope rawScope
      in (scope @ '':'' @ ip, ip))"

definition isExempt :: "auth_limiter \<Rightarrow> string \<Rightarrow> bool" where
  "isExempt L ip \<longleftrightarrow> al_exemptLoopback L \<and> ipIsLoopback (al_ip L) ip"

definition slideWindow :: "auth_limiter \<Rightarrow> int \<Rightarrow> rate_limit_entry \<Rightarrow> rate_limit_entry" where
  "slideWindow L now e =
     (let cutoff = now - al_windowMs L in e\<lparr>attempts := filter (\<lambda>ts. cutoff < ts) (attempts e)\<rparr>)"

text \<open>\<open>entry.lockedUntil && now < entry.lockedUntil\<close>: a zero timestamp is falsy.\<close>

definition lockHolds :: "int \<Rightarrow> rate_limit_entry \<Rightarrow> bool" where
  "lockHolds now e \<longleftrightarrow> (case lockedUntil e of Some t \<Rightarrow> t \<noteq> 0 \<and> now < t | None \<Rightarrow> False)"

definition lockExpired :: "int \<Rightarrow> rate_limit_entry \<Rightarrow> bool" where
  "lockExpired now e \<longleftrightarrow> (case lockedUntil e of Some t \<Rightarrow> t \<noteq> 0 \<and> t \<le> now | None \<Rightarrow> False)"

definition checkEntry :: "auth_limiter \<Rightarrow> int \<Rightarrow> rate_limit_entry \<Rightarrow> rate_check \<times> rate_limit_entry" where
  "checkEntry L now e =
     (if lockHolds now e
      then (\<lparr>allowed = False, remaining = 0, retryAfterMs = the (lockedUntil e) - now\<rparr>, e)
      else
        (let e = (if lockExpired now e then e\<lparr>lockedUntil := None, attempts := []\<rparr> else e);
             e = slideWindow L now e;
             left = max 0 (al_maxAttempts L - int (length (attempts e)))
         in (\<lparr>allowed = (0 < left), remaining = left, retryAfterMs = 0\<rparr>, e)))"

definition rateCheck ::
  "auth_limiter \<Rightarrow> int \<Rightarrow> string option \<Rightarrow> string option \<Rightarrow> rate_entries \<Rightarrow> rate_check \<times> rate_entries" where
  "rateCheck L now rawIp rawScope es =
     (let (key, ip) = resolveKey L rawIp rawScope
      in if isExempt L ip
         then (\<lparr>allowed = True, remaining = al_maxAttempts L, retryAfterMs = 0\<rparr>, es)
         else
           (case jm_get es key of
              None \<Rightarrow> (\<lparr>allowed = True, remaining = al_maxAttempts L, retryAfterMs = 0\<rparr>, es)
            | Some entry \<Rightarrow>
                (case checkEntry L now entry of (r, entry') \<Rightarrow> (r, jm_set key entry' es))))"

definition failEntry :: "auth_limiter \<Rightarrow> int \<Rightarrow> rate_limit_entry \<Rightarrow> rate_limit_entry" where
  "failEntry L now e =
     (if lockHolds now e then e
      else
        (let e = slideWindow L now e;
             e = e\<lparr>attempts := attempts e @ [now]\<rparr>
         in if al_maxAttempts L \<le> int (length (attempts e))
            then e\<lparr>lockedUntil := Some (now + al_lockoutMs L)\<rparr> else e))"

definition recordFailure ::
  "auth_limiter \<Rightarrow> int \<Rightarrow> string option \<Rightarrow> string option \<Rightarrow> rate_entries \<Rightarrow> rate_entries" where
  "recordFailure L now rawIp rawScope es =
     (let (key, ip) = resolveKey L rawIp rawScope
      in if isExempt L ip then es
         else
           (let entry = (case jm_get es key of
                           None \<Rightarrow> \<lparr>attempts = [], lockedUntil = None\<rparr> | Some e \<Rightarrow> e)
            in jm_set key (failEntry L now entry) es))"

definition resetLimit ::
  "auth_limiter \<Rightarrow> string option \<Rightarrow> string option \<Rightarrow> rate_entries \<Rightarrow> rate_entries" where
  "resetLimit L rawIp rawScope es = jm_delete (fst (resolveKey L rawIp rawScope)) es"

definition pruneEntry :: "auth_limiter \<Rightarrow> int \<Rightarrow> rate_limit_entry \<Rightarrow> rate_limit_entry option" where
  "pruneEntry L now e =
     (if lockHolds now e then Some e
      else (let e = slideWindow L now e in if attempts e = [] then None else Some e))"

fun pruneLimits :: "auth_limiter \<Rightarrow> int \<Rightarrow> rate_entries \<Rightarrow> rate_entries" where
  "pruneLimits L now [] = []"
| "pruneLimits L now ((key, e) # es) =
     (case pruneEntry L now e of
        None \<Rightarrow> pruneLimits L now es
      | Some e' \<Rightarrow> (key, e') # pruneLimits L now es)"

definition limitSize :: "rate_entries \<Rightarrow> nat" where
  "limitSize es = length es"

definition disposeLimits :: "rate_entries \<Rightarrow> rate_entries" where
  "disposeLimits es = []"

text \<open>The operations as events; all but \<open>RlPrune\<close> and \<open>RlDispose\<close> name one key.\<close>

datatype rate_event =
  RlCheck int "string option" "string option"
| RlFail int "string option" "string option"
| RlReset "string option" "string option"

fun rateStep :: "auth_limiter \<Rightarrow> rate_entries \<Rightarrow> rate_event \<Rightarrow> rate_entries" where
  "rateStep L es (RlCheck now ip scope) = snd (rateCheck L now ip scope es)"
| "rateStep L es (RlFail now ip scope) = recordFailure L now ip scope es"
| "rateStep L es (RlReset ip scope) = resetLimit L ip scope es"

fun rateEventKey :: "auth_limiter \<Rightarrow> rate_event \<Rightarrow> string" where
  "rateEventKey L (RlCheck now ip scope) = fst (resolveKey L ip scope)"
| "rateEventKey L (RlFail now ip scope) = fst (resolveKey L ip scope)"
| "rateEventKey L (RlReset ip scope) = fst (resolveKey L ip scope)"

datatype rate_system_event = RlOp rate_event | RlPrune int | RlDispose

fun rateSystemStep :: "auth_limiter \<Rightarrow> rate_entries \<Rightarrow> rate_system_event \<Rightarrow> rate_entries" where
  "rateSystemStep L es (RlOp e) = rateStep L es e"
| "rateSystemStep L es (RlPrune now) = pruneLimits L now es"
| "rateSystemStep L es RlDispose = disposeLimits es"

section \<open>Operations touch one key\<close>

interpretation rl: keyed_store jm_get "rateStep L" "rateEventKey L" for L
proof
  show "rateEventKey L e \<noteq> k \<Longrightarrow> jm_get (rateStep L s e) k = jm_get s k" for e k s
    by (cases e)
      (auto simp: rateCheck_def recordFailure_def resetLimit_def jm_get_set jm_get_delete Let_def
        split: prod.splits option.splits)
qed

lemma pruneLimits_get:
  "jm_wf es \<Longrightarrow> jm_get (pruneLimits L now es) k = Option.bind (jm_get es k) (pruneEntry L now)"
proof (induction es)
  case Nil
  then show ?case by simp
next
  case (Cons p es)
  obtain key e where p: "p = (key, e)" by fastforce
  have sub: "fst ` set (pruneLimits L now es) \<subseteq> fst ` set es" for es
    by (induction L now es rule: pruneLimits.induct) (auto split: option.splits)
  from Cons.prems p have "key \<notin> fst ` set es" by simp
  then have "jm_get (pruneLimits L now es) key = None"
    using sub [of es] by (metis map_of_eq_None_iff subsetD)
  with Cons p show ?case by (auto split: option.splits)
qed

section \<open>Lockout after enough failures\<close>

definition freshEntry :: rate_limit_entry where
  "freshEntry = \<lparr>attempts = [], lockedUntil = None\<rparr>"

lemma failEntry_below:
  assumes "lockedUntil e = None" "\<forall>a \<in> set (attempts e). t - al_windowMs L < a"
    "int (length (attempts e)) + 1 < al_maxAttempts L"
  shows "failEntry L t e = \<lparr>attempts = attempts e @ [t], lockedUntil = None\<rparr>"
  using assms by (simp add: failEntry_def lockHolds_def slideWindow_def Let_def)

lemma failEntry_limit:
  assumes "lockedUntil e = None" "\<forall>a \<in> set (attempts e). t - al_windowMs L < a"
    "int (length (attempts e)) + 1 = al_maxAttempts L"
  shows "failEntry L t e = \<lparr>attempts = attempts e @ [t], lockedUntil = Some (t + al_lockoutMs L)\<rparr>"
  using assms by (simp add: failEntry_def lockHolds_def slideWindow_def Let_def)

lemma failures_accumulate:
  assumes "int (length ts) < al_maxAttempts L" "sorted ts" "ts \<noteq> [] \<longrightarrow> last ts - hd ts < al_windowMs L"
  shows "foldl (\<lambda>e t. failEntry L t e) freshEntry ts = \<lparr>attempts = ts, lockedUntil = None\<rparr>"
  using assms
proof (induction ts rule: rev_induct)
  case Nil
  then show ?case by (simp add: freshEntry_def)
next
  case (snoc t ts)
  have "ts \<noteq> [] \<longrightarrow> last ts \<le> t" using snoc.prems(2) by (simp add: sorted_append)
  moreover have "ts \<noteq> [] \<longrightarrow> t - hd ts < al_windowMs L" using snoc.prems(3) by auto
  ultimately have "ts \<noteq> [] \<longrightarrow> last ts - hd ts < al_windowMs L" by linarith
  then have IH: "foldl (\<lambda>e t. failEntry L t e) freshEntry ts = \<lparr>attempts = ts, lockedUntil = None\<rparr>"
    using snoc.prems by (intro snoc.IH) (auto simp: sorted_append)
  have "\<forall>a \<in> set ts. t - al_windowMs L < a"
  proof
    fix a assume a: "a \<in> set ts"
    then have "hd ts \<le> a" using snoc.prems(2) by (cases ts) (auto simp: sorted_append)
    with a snoc.prems(3) show "t - al_windowMs L < a" by (cases ts) auto
  qed
  then show ?case
    using snoc.prems(1) by (simp add: IH failEntry_below)
qed

lemma failures_lock:
  assumes "int (length ts) = al_maxAttempts L" "ts \<noteq> []" "sorted ts" "last ts - hd ts < al_windowMs L"
  shows "foldl (\<lambda>e t. failEntry L t e) freshEntry ts =
    \<lparr>attempts = ts, lockedUntil = Some (last ts + al_lockoutMs L)\<rparr>"
proof -
  obtain us t where ts: "ts = us @ [t]" using assms(2) by (cases ts rule: rev_cases) auto
  have "us \<noteq> [] \<longrightarrow> last us \<le> t" "sorted us" using assms(3) by (auto simp: ts sorted_append)
  moreover have hd: "us \<noteq> [] \<longrightarrow> hd ts = hd us" by (simp add: ts)
  ultimately have "us \<noteq> [] \<longrightarrow> last us - hd us < al_windowMs L" using assms(4) by (auto simp: ts)
  then have acc: "foldl (\<lambda>e t. failEntry L t e) freshEntry us = \<lparr>attempts = us, lockedUntil = None\<rparr>"
    using assms \<open>sorted us\<close> by (intro failures_accumulate) (auto simp: ts)
  have "\<forall>a \<in> set us. t - al_windowMs L < a"
  proof
    fix a assume a: "a \<in> set us"
    then have "hd us \<le> a" using \<open>sorted us\<close> by (cases us) auto
    with a assms(4) hd show "t - al_windowMs L < a" by (cases us) (auto simp: ts)
  qed
  then show ?thesis using assms(1) by (simp add: ts acc failEntry_limit)
qed

lemma recordFailure_get:
  assumes "\<not> isExempt L (snd (resolveKey L ip scope))" "k = fst (resolveKey L ip scope)"
  shows "jm_get (recordFailure L t ip scope es) k =
    Some (failEntry L t (case jm_get es k of None \<Rightarrow> freshEntry | Some e \<Rightarrow> e))"
  using assms
  by (simp add: recordFailure_def jm_get_set Let_def case_prod_unfold freshEntry_def split: option.split)

lemma recordFailures_get:
  assumes ex: "\<not> isExempt L (snd (resolveKey L ip scope))" and k: "k = fst (resolveKey L ip scope)"
  shows "ts \<noteq> [] \<Longrightarrow> jm_get (foldl (rateStep L) es (map (\<lambda>t. RlFail t ip scope) ts)) k =
    Some (foldl (\<lambda>e t. failEntry L t e) (case jm_get es k of None \<Rightarrow> freshEntry | Some e \<Rightarrow> e) ts)"
proof (induction ts rule: rev_induct)
  case Nil
  then show ?case by simp
next
  case (snoc t ts)
  show ?case
  proof (cases "ts = []")
    case True
    then show ?thesis by (simp add: recordFailure_get [OF ex k])
  next
    case False
    with snoc show ?thesis by (simp add: recordFailure_get [OF ex k])
  qed
qed

lemma rateStep_local:
  "rateEventKey L e = k \<Longrightarrow> jm_get s k = jm_get s' k \<Longrightarrow>
   jm_get (rateStep L s e) k = jm_get (rateStep L s' e) k"
  by (cases e)
    (auto simp: rateCheck_def recordFailure_def resetLimit_def jm_get_set jm_get_delete Let_def
      split: prod.splits option.splits)

section \<open>What justifies a lockout\<close>

text \<open>
  The failures a run has recorded for a key, and the justification an entry needs: its attempts are
  such failures, and its lock was set by a failure that closed a window with enough of them.
\<close>

fun failureTimes :: "auth_limiter \<Rightarrow> string \<Rightarrow> rate_system_event list \<Rightarrow> int list" where
  "failureTimes L k [] = []"
| "failureTimes L k (RlOp (RlFail t ip scope) # evs) =
     (if fst (resolveKey L ip scope) = k \<and> \<not> isExempt L (snd (resolveKey L ip scope))
      then t # failureTimes L k evs else failureTimes L k evs)"
| "failureTimes L k (_ # evs) = failureTimes L k evs"

lemma failureTimes_append: "failureTimes L k (xs @ ys) = failureTimes L k xs @ failureTimes L k ys"
  by (induction L k xs rule: failureTimes.induct) auto

definition failuresIn :: "auth_limiter \<Rightarrow> int \<Rightarrow> int list \<Rightarrow> nat" where
  "failuresIn L t fs = length (filter (\<lambda>x. t - al_windowMs L < x \<and> x \<le> t) fs)"

definition entryJustified :: "auth_limiter \<Rightarrow> int list \<Rightarrow> rate_limit_entry \<Rightarrow> bool" where
  "entryJustified L fs e \<longleftrightarrow>
     mset (attempts e) \<subseteq># mset fs \<and>
     (\<forall>u. lockedUntil e = Some u \<longrightarrow>
        0 < u \<and> al_maxAttempts L \<le> int (failuresIn L (u - al_lockoutMs L) fs)) \<and>
     (al_maxAttempts L \<le> int (length (attempts e)) \<longrightarrow> lockedUntil e \<noteq> None)"

lemma failuresIn_append: "failuresIn L t fs \<le> failuresIn L t (fs @ gs)"
  by (simp add: failuresIn_def)

lemma entryJustified_append:
  assumes "entryJustified L fs e" shows "entryJustified L (fs @ gs) e"
proof -
  have "mset (attempts e) \<subseteq># mset (fs @ gs)"
    using assms by (auto simp: entryJustified_def intro: subset_mset.order_trans)
  moreover have "al_maxAttempts L \<le> int (failuresIn L (u - al_lockoutMs L) (fs @ gs))"
    if "lockedUntil e = Some u" for u
    using assms that failuresIn_append [of L "u - al_lockoutMs L" fs gs]
    by (fastforce simp: entryJustified_def)
  ultimately show ?thesis using assms by (auto simp: entryJustified_def)
qed

text \<open>The bounds under which the limiter counts: positive limit and window, no negative lockout.\<close>

definition limiterOk :: "auth_limiter \<Rightarrow> bool" where
  "limiterOk L \<longleftrightarrow> 0 < al_maxAttempts L \<and> 0 < al_windowMs L \<and> 0 \<le> al_lockoutMs L"

lemma slideWindow_simps [simp]:
  "lockedUntil (slideWindow L now e) = lockedUntil e"
  "attempts (slideWindow L now e) = filter (\<lambda>ts. now - al_windowMs L < ts) (attempts e)"
  by (simp_all add: slideWindow_def Let_def)

lemma filter_mset_subset: "N \<subseteq># M \<Longrightarrow> filter_mset P N \<subseteq># M"
  by (metis multiset_filter_subset subset_mset.order_trans)

lemma length_filter_mset_mono:
  assumes "mset xs \<subseteq># mset ys"
  shows "length (filter P xs) \<le> length (filter P ys)"
proof -
  have "filter_mset P (mset xs) \<subseteq># filter_mset P (mset ys)"
    using assms by (rule multiset_filter_mono)
  then have "size (filter_mset P (mset xs)) \<le> size (filter_mset P (mset ys))"
    by (rule size_mset_mono)
  then show ?thesis by (simp flip: mset_filter)
qed

lemma slideWindow_justified: "entryJustified L fs e \<Longrightarrow> entryJustified L fs (slideWindow L now e)"
  using length_filter_le [of "\<lambda>ts. now - al_windowMs L < ts" "attempts e"]
  by (auto simp: entryJustified_def filter_mset_subset simp del: length_filter_le)

lemma checkEntry_justified:
  assumes "limiterOk L" "entryJustified L fs e"
  shows "entryJustified L fs (snd (checkEntry L now e))"
    and "\<not> allowed (fst (checkEntry L now e)) \<Longrightarrow>
      \<exists>u. lockedUntil e = Some u \<and> now < u \<and> retryAfterMs (fst (checkEntry L now e)) = u - now"
proof -
  have "entryJustified L fs (e\<lparr>lockedUntil := None, attempts := []\<rparr>)"
    using assms(1) by (simp add: entryJustified_def limiterOk_def)
  with assms(2) show "entryJustified L fs (snd (checkEntry L now e))"
    by (simp add: checkEntry_def Let_def slideWindow_justified)
  show "\<exists>u. lockedUntil e = Some u \<and> now < u \<and> retryAfterMs (fst (checkEntry L now e)) = u - now"
    if deny: "\<not> allowed (fst (checkEntry L now e))"
  proof (cases "lockHolds now e")
    case True
    then show ?thesis by (auto simp: checkEntry_def lockHolds_def split: option.splits)
  next
    case False
    have "\<not> lockExpired now e"
      using deny False assms(1) by (auto simp: checkEntry_def Let_def limiterOk_def)
    moreover have "\<not> 0 < max 0 (al_maxAttempts L -
        int (length (filter (\<lambda>ts. now - al_windowMs L < ts) (attempts e))))"
      using deny False \<open>\<not> lockExpired now e\<close> by (simp add: checkEntry_def Let_def)
    then have "al_maxAttempts L \<le> int (length (attempts e))"
      using length_filter_le [of "\<lambda>ts. now - al_windowMs L < ts" "attempts e"] by linarith
    ultimately show ?thesis
      using assms(2) False by (auto simp: entryJustified_def lockHolds_def lockExpired_def)
  qed
qed

lemma failEntry_justified:
  assumes ok: "limiterOk L" and e: "entryJustified L fs e" and t: "\<forall>x \<in> set fs. x \<le> t" "0 < t"
  shows "entryJustified L (fs @ [t]) (failEntry L t e)"
proof (cases "lockHolds t e")
  case True
  with e show ?thesis by (simp add: failEntry_def entryJustified_append)
next
  case False
  define as where "as = filter (\<lambda>ts. t - al_windowMs L < ts) (attempts e) @ [t]"
  have sub: "mset as \<subseteq># mset (fs @ [t])"
    using e by (simp add: as_def entryJustified_def filter_mset_subset)
  have eq: "failEntry L t e = (if al_maxAttempts L \<le> int (length as)
      then e\<lparr>attempts := as, lockedUntil := Some (t + al_lockoutMs L)\<rparr> else e\<lparr>attempts := as\<rparr>)"
    using False by (simp add: failEntry_def Let_def as_def slideWindow_def)
  have inw: "filter (\<lambda>x. t - al_windowMs L < x \<and> x \<le> t) as = as"
  proof -
    have "set (attempts e) \<subseteq> set fs"
      using e by (metis entryJustified_def set_mset_mono set_mset_mset)
    then show ?thesis using ok t by (auto simp: as_def limiterOk_def intro!: filter_cong)
  qed
  have cnt: "length as \<le> failuresIn L t (fs @ [t])"
    using length_filter_mset_mono [OF sub, of "\<lambda>x. t - al_windowMs L < x \<and> x \<le> t"] inw
    by (simp add: failuresIn_def)
  show ?thesis
  proof (cases "al_maxAttempts L \<le> int (length as)")
    case True
    with sub cnt ok t(2) show ?thesis by (auto simp: eq entryJustified_def limiterOk_def)
  next
    case False
    with sub entryJustified_append [OF e, of "[t]"] show ?thesis
      by (auto simp: eq entryJustified_def)
  qed
qed

definition allJustified :: "auth_limiter \<Rightarrow> string \<Rightarrow> int list \<Rightarrow> rate_entries \<Rightarrow> bool" where
  "allJustified L k fs es \<longleftrightarrow> jm_wf es \<and> (\<forall>e. jm_get es k = Some e \<longrightarrow> entryJustified L fs e)"

lemma freshEntry_justified: "limiterOk L \<Longrightarrow> entryJustified L fs freshEntry"
  by (simp add: entryJustified_def freshEntry_def limiterOk_def)

lemma pruneLimits_keys: "fst ` set (pruneLimits L now es) \<subseteq> fst ` set es"
  by (induction L now es rule: pruneLimits.induct) (auto split: option.splits)

lemma pruneLimits_wf: "jm_wf es \<Longrightarrow> jm_wf (pruneLimits L now es)"
proof (induction es)
  case Nil
  then show ?case by simp
next
  case (Cons p es)
  with pruneLimits_keys [of L now es] show ?case
    by (cases p) (auto split: option.splits)
qed

lemma rateStep_wf: "jm_wf es \<Longrightarrow> jm_wf (rateStep L es ev)"
  by (cases ev)
    (auto simp: rateCheck_def recordFailure_def resetLimit_def Let_def split: prod.splits option.splits)

lemma rateSystemStep_justified:
  assumes ok: "limiterOk L" and J: "allJustified L k fs es"
    and t: "\<forall>t \<in> set (failureTimes L k [ev]). 0 < t \<and> (\<forall>x \<in> set fs. x \<le> t)"
  shows "allJustified L k (fs @ failureTimes L k [ev]) (rateSystemStep L es ev)"
proof (cases ev)
  case (RlOp op)
  have wf: "jm_wf (rateStep L es op)" using J by (simp add: allJustified_def rateStep_wf)
  show ?thesis
  proof (cases "rateEventKey L op = k")
    case False
    then have "jm_get (rateStep L es op) k = jm_get es k" by (rule rl.op_other)
    with J wf RlOp show ?thesis by (auto simp: allJustified_def entryJustified_append)
  next
    case True
    show ?thesis
    proof (cases op)
      case (RlCheck now ip scope)
      have "entryJustified L fs e" if e: "jm_get (snd (rateCheck L now ip scope es)) k = Some e" for e
      proof (cases "isExempt L (snd (resolveKey L ip scope)) \<or> jm_get es k = None")
        case True
        with e J \<open>rateEventKey L op = k\<close> RlCheck show ?thesis
          by (auto simp: rateCheck_def allJustified_def Let_def case_prod_unfold split: if_splits)
      next
        case False
        then obtain e0 where e0: "jm_get es k = Some e0" by blast
        with e False \<open>rateEventKey L op = k\<close> RlCheck have "e = snd (checkEntry L now e0)"
          by (simp add: rateCheck_def Let_def case_prod_unfold jm_get_set)
        with checkEntry_justified(1) [OF ok] J e0 show ?thesis by (simp add: allJustified_def)
      qed
      with RlOp RlCheck wf show ?thesis by (simp add: allJustified_def)
    next
      case (RlReset ip scope)
      with True RlOp J wf show ?thesis
        by (auto simp: allJustified_def resetLimit_def jm_get_delete)
    next
      case (RlFail now ip scope)
      show ?thesis
      proof (cases "isExempt L (snd (resolveKey L ip scope))")
        case True
        with RlFail RlOp J show ?thesis by (simp add: recordFailure_def case_prod_unfold)
      next
        case False
        then have times: "failureTimes L k [ev] = [now]" using RlFail RlOp \<open>rateEventKey L op = k\<close> by simp
        have "entryJustified L fs (case jm_get es k of None \<Rightarrow> freshEntry | Some e \<Rightarrow> e)"
          using J freshEntry_justified [OF ok] by (auto simp: allJustified_def split: option.split)
        with failEntry_justified [OF ok] t times have
          "entryJustified L (fs @ [now]) (failEntry L now (case jm_get es k of None \<Rightarrow> freshEntry | Some e \<Rightarrow> e))"
          by simp
        moreover have "jm_get (rateSystemStep L es ev) k =
            Some (failEntry L now (case jm_get es k of None \<Rightarrow> freshEntry | Some e \<Rightarrow> e))"
          using recordFailure_get [OF False] \<open>rateEventKey L op = k\<close> RlFail RlOp by simp
        ultimately show ?thesis using wf RlOp times by (simp add: allJustified_def)
      qed
    qed
  qed
next
  case (RlPrune now)
  have "entryJustified L fs e" if "jm_get (pruneLimits L now es) k = Some e" for e
    using that J slideWindow_justified [of L fs _ now]
    by (auto simp: allJustified_def pruneLimits_get pruneEntry_def Let_def bind_eq_Some_conv
        split: if_splits)
  with RlPrune J show ?thesis by (simp add: allJustified_def pruneLimits_wf)
next
  case RlDispose
  then show ?thesis by (simp add: allJustified_def disposeLimits_def)
qed

definition rateRun :: "auth_limiter \<Rightarrow> rate_system_event list \<Rightarrow> rate_entries" where
  "rateRun L evs = foldl (rateSystemStep L) [] evs"

lemma rateRun_justified:
  assumes "limiterOk L" "sorted (failureTimes L k evs)" "\<forall>t \<in> set (failureTimes L k evs). 0 < t"
  shows "allJustified L k (failureTimes L k evs) (rateRun L evs)"
  using assms
proof (induction evs rule: rev_induct)
  case Nil
  then show ?case by (simp add: allJustified_def rateRun_def)
next
  case (snoc ev evs)
  have split: "failureTimes L k (evs @ [ev]) = failureTimes L k evs @ failureTimes L k [ev]"
    by (rule failureTimes_append)
  from snoc have "allJustified L k (failureTimes L k evs) (rateRun L evs)"
    by (auto simp: split sorted_append)
  with rateSystemStep_justified [OF snoc.prems(1) this, of ev] snoc.prems(2,3)
  show ?case by (auto simp: split sorted_append rateRun_def)
qed

section \<open>Pruning is invisible to checks\<close>

lemma filter_window_twice:
  "t \<le> (now::int) \<Longrightarrow> filter (\<lambda>ts. now - w < ts) (filter (\<lambda>ts. t - w < ts) xs) = filter (\<lambda>ts. now - w < ts) xs"
  by (auto intro: filter_cong)

lemma prune_check_entry:
  assumes ok: "limiterOk L" and t: "t \<le> now"
  shows "(case pruneEntry L t e of
            None \<Rightarrow> \<lparr>allowed = True, remaining = al_maxAttempts L, retryAfterMs = 0\<rparr>
          | Some e' \<Rightarrow> fst (checkEntry L now e')) = fst (checkEntry L now e)"
proof (cases "lockHolds t e")
  case True
  then show ?thesis by (simp add: pruneEntry_def)
next
  case False
  let ?e = "slideWindow L t e"
  have nh: "\<not> lockHolds now e" using False t by (auto simp: lockHolds_def split: option.splits)
  have same: "lockHolds now ?e = lockHolds now e" "lockExpired now ?e = lockExpired now e"
    by (simp_all add: lockHolds_def lockExpired_def)
  have kept: "fst (checkEntry L now ?e) = fst (checkEntry L now e)"
    using nh filter_window_twice [OF t, of "al_windowMs L" "attempts e"]
    by (simp add: checkEntry_def Let_def same)
  show ?thesis
  proof (cases "attempts ?e = []")
    case True
    then have "pruneEntry L t e = None" using False by (simp add: pruneEntry_def)
    moreover have "fst (checkEntry L now ?e) =
        \<lparr>allowed = True, remaining = al_maxAttempts L, retryAfterMs = 0\<rparr>"
      using True nh ok by (simp add: checkEntry_def Let_def same limiterOk_def)
    ultimately show ?thesis by (simp add: kept)
  next
    case False
    then have "pruneEntry L t e = Some ?e"
      using \<open>\<not> lockHolds t e\<close> by (simp only: pruneEntry_def Let_def if_False)
    then show ?thesis by (simp only: option.case kept)
  qed
qed

section \<open>The fixed-window limiter\<close>

record fixed_window =
  fw_maxRequests :: int
  fw_windowMs :: int
  fw_count :: int
  fw_windowStartMs :: int

definition createFixedWindowRateLimiter :: "rat \<Rightarrow> rat \<Rightarrow> fixed_window" where
  "createFixedWindowRateLimiter maxRequests windowMs =
     \<lparr>fw_maxRequests = max 1 \<lfloor>maxRequests\<rfloor>, fw_windowMs = max 1 \<lfloor>windowMs\<rfloor>,
      fw_count = 0, fw_windowStartMs = 0\<rparr>"

definition fwConsume :: "int \<Rightarrow> fixed_window \<Rightarrow> rate_check \<times> fixed_window" where
  "fwConsume nowMs s =
     (let s = (if fw_windowMs s \<le> nowMs - fw_windowStartMs s
               then s\<lparr>fw_windowStartMs := nowMs, fw_count := 0\<rparr> else s)
      in if fw_maxRequests s \<le> fw_count s
         then (\<lparr>allowed = False, remaining = 0,
                retryAfterMs = max 0 (fw_windowStartMs s + fw_windowMs s - nowMs)\<rparr>, s)
         else (let s = s\<lparr>fw_count := fw_count s + 1\<rparr>
               in (\<lparr>allowed = True, remaining = max 0 (fw_maxRequests s - fw_count s),
                    retryAfterMs = 0\<rparr>, s)))"

definition fwReset :: "fixed_window \<Rightarrow> fixed_window" where
  "fwReset s = s\<lparr>fw_count := 0, fw_windowStartMs := 0\<rparr>"

fun fwRun :: "int list \<Rightarrow> fixed_window \<Rightarrow> rate_check list \<times> fixed_window" where
  "fwRun [] s = ([], s)"
| "fwRun (t # ts) s =
     (case fwConsume t s of (r, s1) \<Rightarrow> (case fwRun ts s1 of (rs, s2) \<Rightarrow> (r # rs, s2)))"

definition fwOk :: "fixed_window \<Rightarrow> bool" where
  "fwOk s \<longleftrightarrow> 1 \<le> fw_maxRequests s \<and> 1 \<le> fw_windowMs s \<and> 0 \<le> fw_count s \<and> fw_count s \<le> fw_maxRequests s"

definition allowedCount :: "rate_check list \<Rightarrow> int" where
  "allowedCount rs = int (length (filter allowed rs))"

text \<open>The operations of the fixed-window limiter as events, and the interface they provide.\<close>

datatype fw_event = FwConsume int | FwReset

fun fwStep :: "fixed_window \<Rightarrow> fw_event \<Rightarrow> fixed_window" where
  "fwStep s (FwConsume t) = snd (fwConsume t s)"
| "fwStep s FwReset = fwReset s"

interpretation fw: invariant_system fwStep fwOk
proof
  show "fwOk (fwStep s e)" if "fwOk s" for s e
    using that by (cases e) (auto simp: fwOk_def fwConsume_def fwReset_def Let_def)
qed

lemma fwConsume_fields:
  "fw_maxRequests (snd (fwConsume t s)) = fw_maxRequests s"
  "fw_windowMs (snd (fwConsume t s)) = fw_windowMs s"
  by (simp_all add: fwConsume_def Let_def)

lemma fwRun_within:
  assumes "fwOk s" "\<forall>t \<in> set ts. t - fw_windowStartMs s < fw_windowMs s"
  shows "allowedCount (fst (fwRun ts s)) = min (int (length ts)) (fw_maxRequests s - fw_count s)"
  using assms
proof (induction ts arbitrary: s)
  case Nil
  then show ?case by (simp add: allowedCount_def fwOk_def)
next
  case (Cons t ts)
  obtain r s1 where c: "fwConsume t s = (r, s1)" by fastforce
  have ok: "fwOk s1" using fw.step_inv [OF Cons.prems(1), of "FwConsume t"] c by simp
  have s1: "fw_windowStartMs s1 = fw_windowStartMs s" "fw_windowMs s1 = fw_windowMs s"
    "fw_maxRequests s1 = fw_maxRequests s"
    "allowed r = (fw_count s < fw_maxRequests s)"
    "fw_count s1 = (if allowed r then fw_count s + 1 else fw_count s)"
    using c Cons.prems(2) by (auto simp: fwConsume_def Let_def split: if_splits)
  have IH: "allowedCount (fst (fwRun ts s1)) = min (int (length ts)) (fw_maxRequests s1 - fw_count s1)"
    using Cons.prems(2) s1 by (intro Cons.IH [OF ok]) simp
  have "allowedCount (fst (fwRun (t # ts) s)) = (if allowed r then 1 else 0) + allowedCount (fst (fwRun ts s1))"
    by (simp add: c allowedCount_def split: prod.split)
  with IH s1 Cons.prems(1) show ?case by (auto simp: fwOk_def)
qed

lemma fwRun_burst:
  assumes "fwOk s" "sorted ts" "ts \<noteq> [] \<longrightarrow> last ts - hd ts < fw_windowMs s"
  shows "allowedCount (fst (fwRun ts s)) \<le> 2 * fw_maxRequests s - fw_count s"
  using assms
proof (induction ts arbitrary: s)
  case Nil
  then show ?case by (simp add: allowedCount_def fwOk_def)
next
  case (Cons t ts)
  obtain r s1 where c: "fwConsume t s = (r, s1)" by fastforce
  have ok: "fwOk s1" using fw.step_inv [OF Cons.prems(1), of "FwConsume t"] c by simp
  have count: "allowedCount (fst (fwRun (t # ts) s)) = (if allowed r then 1 else 0) + allowedCount (fst (fwRun ts s1))"
    by (simp add: c allowedCount_def split: prod.split)
  show ?case
  proof (cases "t - fw_windowStartMs s < fw_windowMs s")
    case True
    then have s1: "fw_windowMs s1 = fw_windowMs s" "fw_maxRequests s1 = fw_maxRequests s"
      "fw_count s1 = (if allowed r then fw_count s + 1 else fw_count s)"
      using c by (auto simp: fwConsume_def Let_def split: if_splits)
    have "ts \<noteq> [] \<longrightarrow> t \<le> hd ts" using Cons.prems(2) by (cases ts) auto
    then have "ts \<noteq> [] \<longrightarrow> last ts - hd ts < fw_windowMs s1"
      using Cons.prems(3) s1 by auto
    with Cons.IH [OF ok] Cons.prems(2) count s1 show ?thesis by (auto split: if_splits)
  next
    case False
    define s0 where "s0 = s\<lparr>fw_windowStartMs := t, fw_count := 0\<rparr>"
    have ok0: "fwOk s0" using Cons.prems(1) by (simp add: s0_def fwOk_def)
    have same: "fwRun (t # ts) s = fwRun (t # ts) s0"
      using False Cons.prems(1) by (simp add: s0_def fwConsume_def Let_def fwOk_def)
    have "\<forall>u \<in> set (t # ts). u - fw_windowStartMs s0 < fw_windowMs s0"
    proof
      fix u assume "u \<in> set (t # ts)"
      then have "u \<le> last (t # ts)" using Cons.prems(2)
        by (metis append_butlast_last_id in_set_conv_decomp list.distinct(1) order_refl
            rotate1.simps(2) set_ConsD set_rotate1 sorted_append)
      with Cons.prems(3) show "u - fw_windowStartMs s0 < fw_windowMs s0" by (simp add: s0_def)
    qed
    from fwRun_within [OF ok0 this] Cons.prems(1) show ?thesis
      unfolding same by (simp add: s0_def fwOk_def min_le_iff_disj)
  qed
qed

lemma createFixedWindow_ok: "fwOk (createFixedWindowRateLimiter m w)"
  by (simp add: createFixedWindowRateLimiter_def fwOk_def)

section \<open>Properties\<close>

definition localLib :: ip_lib where
  "localLib = \<lparr>ipNormalize = Some, ipIsLoopback = (\<lambda>ip. ip = ''127.0.0.1'')\<rparr>"

definition strictLimiter :: auth_limiter where
  "strictLimiter = createAuthRateLimiter localLib
     \<lparr>rc_maxAttempts = Some 2, rc_windowMs = None, rc_lockoutMs = None, rc_exemptLoopback = None\<rparr>"

lemmas rate_eval = strictLimiter_def localLib_def createAuthRateLimiter_def orDefault_def
  resolveKey_def normalizeRateLimitClientIp_def resolveRemoteIp_def normalizeScope_def js_string_defs
  isExempt_def Let_def

text \<open>What may happen while a key is locked until \<open>u\<close> without ending the lock.\<close>

fun keepsLock :: "auth_limiter \<Rightarrow> string \<Rightarrow> int \<Rightarrow> rate_system_event \<Rightarrow> bool" where
  "keepsLock L k u (RlOp (RlCheck t ip scope)) \<longleftrightarrow> (fst (resolveKey L ip scope) = k \<longrightarrow> t < u)"
| "keepsLock L k u (RlOp (RlFail t ip scope)) \<longleftrightarrow> (fst (resolveKey L ip scope) = k \<longrightarrow> t < u)"
| "keepsLock L k u (RlOp (RlReset ip scope)) \<longleftrightarrow> fst (resolveKey L ip scope) \<noteq> k"
| "keepsLock L k u (RlPrune t) \<longleftrightarrow> t < u"
| "keepsLock L k u RlDispose \<longleftrightarrow> False"

lemma locked_entry:
  assumes "lockedUntil e = Some u" "0 < u" "t < u"
  shows "checkEntry L t e = (\<lparr>allowed = False, remaining = 0, retryAfterMs = u - t\<rparr>, e)"
    and "failEntry L t e = e" and "pruneEntry L t e = Some e"
  using assms by (simp_all add: checkEntry_def failEntry_def pruneEntry_def lockHolds_def)

lemma keepsLock_step:
  assumes "jm_wf es" "jm_get es k = Some e" "lockedUntil e = Some u" "0 < u" "keepsLock L k u ev"
  shows "jm_wf (rateSystemStep L es ev)" "jm_get (rateSystemStep L es ev) k = Some e"
proof -
  show "jm_wf (rateSystemStep L es ev)"
    using assms(1,5) by (cases ev) (simp_all add: rateStep_wf pruneLimits_wf)
  note locked = locked_entry [OF assms(3,4)]
  show "jm_get (rateSystemStep L es ev) k = Some e"
  proof (cases ev)
    case (RlOp op)
    show ?thesis
    proof (cases "rateEventKey L op = k")
      case False
      with RlOp assms(2) show ?thesis using rl.op_other [of L op k es] by simp
    next
      case True
      with RlOp assms(5) show ?thesis
      proof (cases op)
        case (RlCheck t ip scope)
        with True RlOp assms(2,5) show ?thesis
          by (cases "isExempt L (snd (resolveKey L ip scope))")
             (simp_all add: rateCheck_def case_prod_unfold jm_get_set locked Let_def del: map_of_eq_Some_iff)
      next
        case (RlFail t ip scope)
        with True RlOp assms(2,5) show ?thesis
          by (cases "isExempt L (snd (resolveKey L ip scope))")
             (simp_all add: recordFailure_def case_prod_unfold jm_get_set locked Let_def del: map_of_eq_Some_iff)
      qed simp
    qed
  next
    case (RlPrune t)
    then show ?thesis using assms by (simp add: pruneLimits_get locked del: map_of_eq_Some_iff)
  qed (use assms(5) in simp)
qed

lemma keepsLock_run:
  assumes "jm_wf es" "jm_get es k = Some e" "lockedUntil e = Some u" "0 < u" "list_all (keepsLock L k u) evs"
  shows "jm_get (foldl (rateSystemStep L) es evs) k = Some e"
  using assms
proof (induction evs arbitrary: es)
  case (Cons ev evs)
  then have "keepsLock L k u ev" by simp
  note step = keepsLock_step [OF Cons.prems(1-4) this]
  show ?case using Cons.IH [OF step Cons.prems(3,4)] Cons.prems(5) by simp
qed simp



text \<open>C16. No false lockouts: when a check is denied, the key really has had as many recorded failures
as the limit within one window, and the denial lasts at most until the lockout those failures
earned.  It holds for every interleaving of checks, failures, resets, prunes and disposal.\<close>

theorem auth_denial_justified:
  assumes "limiterOk L"
    and "sorted (failureTimes L (fst (resolveKey L ip scope)) evs)"
    and "\<forall>t \<in> set (failureTimes L (fst (resolveKey L ip scope)) evs). 0 < t"
    and "\<not> allowed (fst (rateCheck L now ip scope (rateRun L evs)))"
  shows "\<exists>u. now < u \<and> retryAfterMs (fst (rateCheck L now ip scope (rateRun L evs))) = u - now \<and>
    al_maxAttempts L \<le>
      int (failuresIn L (u - al_lockoutMs L) (failureTimes L (fst (resolveKey L ip scope)) evs))"
proof -
  let ?k = "fst (resolveKey L ip scope)"
  note J = rateRun_justified [OF assms(1,2,3)]
  obtain e where e: "jm_get (rateRun L evs) ?k = Some e" "\<not> isExempt L (snd (resolveKey L ip scope))"
    using assms(4) by (auto simp: rateCheck_def case_prod_unfold Let_def split: if_splits option.splits)
  then have r: "fst (rateCheck L now ip scope (rateRun L evs)) = fst (checkEntry L now e)"
    by (simp add: rateCheck_def case_prod_unfold)
  have ej: "entryJustified L (failureTimes L ?k evs) e" using J e(1) by (simp add: allJustified_def)
  from checkEntry_justified(2) [OF assms(1) ej] assms(4) obtain u where
    "lockedUntil e = Some u" "now < u" "retryAfterMs (fst (checkEntry L now e)) = u - now"
    by (auto simp: r)
  with ej show ?thesis by (auto simp: r entryJustified_def)
qed

theorem auth_denial_justified_witness:
  "\<exists>u. (3000::int) < u \<and> 2 \<le> int (failuresIn strictLimiter (u - 300000) [1000, 2000])"
  using auth_denial_justified [where L = strictLimiter and ip = "Some ''10.0.0.9''" and scope = None and
      now = 3000 and evs = "[RlOp (RlFail 1000 (Some ''10.0.0.9'') None), RlPrune 1500,
        RlOp (RlFail 2000 (Some ''10.0.0.9'') None)]"]
  by (simp add: rate_eval limiterOk_def rateRun_def rateCheck_def recordFailure_def failEntry_def
      lockHolds_def slideWindow_def pruneEntry_def checkEntry_def) (rule exI [of _ 302000], simp)

text \<open>Pruning is invisible to checks: a background prune at any earlier time changes neither the
verdict nor the remaining attempts nor the retry delay of a later check, for any key.\<close>

theorem auth_prune_invisible:
  assumes "limiterOk L" "jm_wf es" "t \<le> now"
  shows "fst (rateCheck L now ip scope (pruneLimits L t es)) = fst (rateCheck L now ip scope es)"
proof (cases "jm_get es (fst (resolveKey L ip scope))")
  case None
  then show ?thesis
    by (simp add: rateCheck_def case_prod_unfold Let_def pruneLimits_get [OF assms(2)])
next
  case (Some e)
  then show ?thesis
    using prune_check_entry [OF assms(1,3), of e]
    by (simp add: rateCheck_def case_prod_unfold Let_def pruneLimits_get [OF assms(2)] split: option.splits)
qed

theorem auth_prune_invisible_witness:
  "remaining (fst (rateCheck strictLimiter 2000 (Some ''10.0.0.9'') None
     (pruneLimits strictLimiter 1500 [(''default:10.0.0.9'', \<lparr>attempts = [1000], lockedUntil = None\<rparr>)]))) = 1"
  using auth_prune_invisible [where L = strictLimiter and t = 1500 and now = 2000 and
      ip = "Some ''10.0.0.9''" and scope = None and
      es = "[(''default:10.0.0.9'', \<lparr>attempts = [1000], lockedUntil = None\<rparr>)]"]
  by (simp add: rate_eval limiterOk_def rateCheck_def checkEntry_def lockHolds_def lockExpired_def
      slideWindow_def)

text \<open>The fixed-window limiter admits at most twice its limit in any interval shorter than its
window, after any history, because such an interval meets at most one window boundary.\<close>

theorem fixed_window_burst_bound:
  assumes "sorted ts" "ts \<noteq> [] \<longrightarrow> last ts - hd ts < max 1 \<lfloor>w\<rfloor>"
    and "s = foldl fwStep (createFixedWindowRateLimiter m w) history"
  shows "allowedCount (fst (fwRun ts s)) \<le> 2 * max 1 \<lfloor>m\<rfloor>"
proof -
  have cfg: "fw_maxRequests (foldl fwStep s0 h) = fw_maxRequests s0 \<and>
      fw_windowMs (foldl fwStep s0 h) = fw_windowMs s0" for s0 h
  proof (induction h arbitrary: s0)
    case (Cons e h)
    then show ?case by (cases e) (simp_all add: fwConsume_fields fwReset_def)
  qed simp
  have ok: "fwOk s" unfolding assms(3) by (rule fw.run_inv [OF createFixedWindow_ok])
  moreover have "fw_maxRequests s = max 1 \<lfloor>m\<rfloor>" "fw_windowMs s = max 1 \<lfloor>w\<rfloor>"
    using cfg by (simp_all add: assms(3) createFixedWindowRateLimiter_def)
  ultimately show ?thesis
    using fwRun_burst [OF ok assms(1)] assms(2) by (simp add: fwOk_def)
qed

theorem fixed_window_burst_bound_witness:
  "allowedCount (fst (fwRun [990, 995, 1000, 1005] (createFixedWindowRateLimiter 2 1000))) \<le> 4"
  using fixed_window_burst_bound [where ts = "[990, 995, 1000, 1005]" and w = 1000 and m = 2 and
      history = "[]" and s = "createFixedWindowRateLimiter 2 1000"]
  by simp

text \<open>
  A failure recorded after a lockout has expired, with no check in between, is forgotten by the next
  check: \<open>recordFailure\<close> leaves the expired \<open>lockedUntil\<close> in place, and \<open>check\<close> then clears the
  attempts together with it.
\<close>

lemma auth_stale_lock_forgets:
  "remaining (fst (rateCheck strictLimiter 500001 (Some ''10.0.0.9'') None
     (foldl (rateStep strictLimiter) []
        [RlFail 1000 (Some ''10.0.0.9'') None, RlFail 2000 (Some ''10.0.0.9'') None,
         RlFail 500000 (Some ''10.0.0.9'') None]))) = al_maxAttempts strictLimiter"
  by (simp add: rate_eval rateCheck_def recordFailure_def failEntry_def lockHolds_def lockExpired_def
      slideWindow_def checkEntry_def)

end
