(* ===== verification/JsValue.thy ===== *)
theory JsValue
  imports Prelude
begin

text \<open>
  JavaScript values as the code inspects them (tool parameters and results), JSON string quoting,
  and \<open>stableStringify\<close> (\<open>src/agents/stable-stringify.ts\<close>), which serialises a value independently
  of the order of its object fields.

  Numbers are integers or the three non-finite values, objects are field lists with distinct keys,
  and values are trees: the cyclic values for which the code prints \<open>[Circular]\<close>, byte arrays and
  values JSON cannot print (functions, symbols) are not modelled.
\<close>

section \<open>Values\<close>

datatype jsval =
  JUndef
| JNull
| JBool bool
| JInt int
| JNonFinite string
| JBig int
| JStr string
| JArr "jsval list"
| JObj "(string \<times> jsval) list"
| JError string string "string option"

definition jget :: "jsval \<Rightarrow> string \<Rightarrow> jsval" where
  "jget v k = (case v of
     JObj fs \<Rightarrow> (case map_of fs k of None \<Rightarrow> JUndef | Some x \<Rightarrow> x)
   | _ \<Rightarrow> JUndef)"

definition isPlainObject :: "jsval \<Rightarrow> bool" where
  "isPlainObject v \<longleftrightarrow> (case v of JObj _ \<Rightarrow> True | _ \<Rightarrow> False)"

text \<open>\<open>v ?? null\<close>\<close>

definition orNull :: "jsval \<Rightarrow> jsval" where
  "orNull v = (if v = JUndef then JNull else v)"

section \<open>JSON.stringify on strings\<close>

definition js_hex :: "nat \<Rightarrow> char" where
  "js_hex n = (if n < 10 then char_of (48 + n) else char_of (87 + n))"

definition json_char :: "char \<Rightarrow> string" where
  "json_char c =
     (let n = (of_char c :: nat)
      in if n = 34 then [CHR 92, CHR 34]
         else if n = 92 then [CHR 92, CHR 92]
         else if n = 8 then [CHR 92, CHR ''b'']
         else if n = 12 then [CHR 92, CHR ''f'']
         else if n = 10 then [CHR 92, CHR ''n'']
         else if n = 13 then [CHR 92, CHR ''r'']
         else if n = 9 then [CHR 92, CHR ''t'']
         else if n < 32 then [CHR 92, CHR ''u'', CHR ''0'', CHR ''0'', js_hex (n div 16), js_hex (n mod 16)]
         else [c])"

definition json_string :: "string \<Rightarrow> string" where
  "json_string s = [CHR 34] @ concat (map json_char s) @ [CHR 34]"

text \<open>The escapes form a prefix code, so a quoted string can be read back from the front of a text.\<close>

lemma js_hex_inj: "a < 16 \<Longrightarrow> b < 16 \<Longrightarrow> js_hex a = js_hex b \<Longrightarrow> a = b"
proof -
  assume ab: "a < 16" "b < 16" and e: "js_hex a = js_hex b"
  from e have "of_char (js_hex a) = (of_char (js_hex b) :: nat)" by simp
  with ab show ?thesis by (auto simp: js_hex_def split: if_splits)
qed

definition json_escape :: "nat \<Rightarrow> char option" where
  "json_escape n = (if n = 34 then Some (CHR 34) else if n = 92 then Some (CHR 92)
    else if n = 8 then Some (CHR ''b'') else if n = 12 then Some (CHR ''f'') else if n = 10 then Some (CHR ''n'')
    else if n = 13 then Some (CHR ''r'') else if n = 9 then Some (CHR ''t'') else None)"

lemma json_escape_inj: "json_escape n = json_escape m \<Longrightarrow> json_escape n \<noteq> None \<Longrightarrow> n = m"
  by (auto simp: json_escape_def split: if_splits)

lemma json_escape_u: "json_escape n \<noteq> Some (CHR ''u'')"
  by (simp add: json_escape_def)

lemma json_escape_None: "json_escape (of_char c) = None \<Longrightarrow> c \<noteq> CHR 92 \<and> c \<noteq> CHR 34"
  by (auto simp: json_escape_def)

lemma json_char_eq:
  "json_char c = (case json_escape (of_char c) of
     Some e \<Rightarrow> [CHR 92, e]
   | None \<Rightarrow> if of_char c < (32::nat)
       then [CHR 92, CHR ''u'', CHR ''0'', CHR ''0'', js_hex (of_char c div 16), js_hex (of_char c mod 16)]
       else [c])"
  by (simp add: json_char_def json_escape_def Let_def)

lemma json_char_cases:
  obtains (esc) e where "json_escape (of_char c) = Some e" "json_char c = [CHR 92, e]" "e \<noteq> CHR ''u''"
  | (hex) "json_escape (of_char c) = None" "of_char c < (32::nat)" "json_char c =
       [CHR 92, CHR ''u'', CHR ''0'', CHR ''0'', js_hex (of_char c div 16), js_hex (of_char c mod 16)]"
  | (plain) "json_escape (of_char c) = None" "json_char c = [c]" "c \<noteq> CHR 92" "c \<noteq> CHR 34"
  using json_escape_u [of "of_char c"] json_escape_None [of c] json_char_eq [of c]
  by (cases "json_escape (of_char c)"; cases "of_char c < (32::nat)") auto

lemma json_char_no_quote: "json_char c \<noteq> [] \<and> hd (json_char c) \<noteq> CHR 34"
  by (cases c rule: json_char_cases) auto

lemma json_char_prefix:
  assumes "json_char c @ r = json_char d @ r'"
  shows "c = d \<and> r = r'"
proof (cases c rule: json_char_cases)
  case c: (esc e)
  with assms show ?thesis
  proof (cases d rule: json_char_cases)
    case d: (esc e')
    with c assms have "json_escape (of_char c) = json_escape (of_char d)" "r = r'" by auto
    with c show ?thesis using json_escape_inj by fastforce
  qed auto
next
  case hex
  with assms show ?thesis
  proof (cases d rule: json_char_cases)
    case h: hex
    from hex(3) h(3) assms have "js_hex (of_char c div 16) = js_hex (of_char d div 16)"
      "js_hex (of_char c mod 16) = js_hex (of_char d mod 16)" "r = r'" by auto
    moreover have "of_char c div 16 < (16::nat)" "of_char d div 16 < (16::nat)" using hex h by auto
    ultimately have "of_char c div 16 = (of_char d div 16 :: nat)" "of_char c mod 16 = (of_char d mod 16 :: nat)"
      by (auto intro!: js_hex_inj)
    then have "of_char c = (of_char d :: nat)" by (metis div_mult_mod_eq)
    with \<open>r = r'\<close> show ?thesis by simp
  qed auto
next
  case plain
  with assms show ?thesis by (cases d rule: json_char_cases) auto
qed

lemma json_body_prefix:
  "concat (map json_char s) @ CHR 34 # r = concat (map json_char t) @ CHR 34 # r' \<Longrightarrow> s = t \<and> r = r'"
proof (induction s arbitrary: t)
  case Nil
  show ?case
  proof (cases t)
    case t: Nil
    with Nil.prems show ?thesis by simp
  next
    case (Cons d t')
    with Nil.prems json_char_no_quote [of d] show ?thesis by (cases "json_char d") auto
  qed
next
  case (Cons c s)
  show ?case
  proof (cases t)
    case Nil
    with Cons.prems json_char_no_quote [of c] show ?thesis by (cases "json_char c") auto
  next
    case t: (Cons d t')
    from Cons.prems t have "json_char c @ (concat (map json_char s) @ CHR 34 # r) =
        json_char d @ (concat (map json_char t') @ CHR 34 # r')" by simp
    from json_char_prefix [OF this] Cons.IH t show ?thesis by blast
  qed
qed

lemma json_string_prefix:
  assumes "json_string s @ r = json_string t @ r'"
  shows "s = t \<and> r = r'"
proof -
  from assms have "concat (map json_char s) @ CHR 34 # r = concat (map json_char t) @ CHR 34 # r'"
    by (simp add: json_string_def)
  then show ?thesis by (rule json_body_prefix)
qed

text \<open>\<open>JSON.stringify\<close> of an array of strings, which the code uses as a collision-free key.\<close>

definition json_tuple :: "string list \<Rightarrow> string" where
  "json_tuple xs = ''['' @ js_join '','' (map json_string xs) @ '']''"

lemma json_string_first: "\<exists>u. json_string s = CHR 34 # u"
  by (simp add: json_string_def)

lemma json_join_inj:
  "length xs = length ys \<Longrightarrow>
   js_join '','' (map json_string xs) @ r = js_join '','' (map json_string ys) @ r' \<Longrightarrow> xs = ys \<and> r = r'"
proof (induction xs arbitrary: ys)
  case Nil
  then show ?case by simp
next
  case (Cons x xs)
  then obtain y ys' where ys: "ys = y # ys'" "length xs = length ys'" by (cases ys) auto
  show ?case
  proof (cases xs)
    case xs: Nil
    with ys Cons.prems(2) show ?thesis by (auto dest: json_string_prefix)
  next
    case xs: (Cons x' xs')
    with ys obtain y' ys'' where ys': "ys' = y' # ys''" by (cases ys') auto
    from Cons.prems(2) xs ys ys' have
      "json_string x @ ('','' @ js_join '','' (map json_string xs) @ r) =
       json_string y @ ('','' @ js_join '','' (map json_string ys') @ r')" by simp
    from json_string_prefix [OF this] Cons.IH [OF ys(2)] ys show ?thesis by simp
  qed
qed

lemma json_tuple_inj: "length xs = length ys \<Longrightarrow> json_tuple xs = json_tuple ys \<longleftrightarrow> xs = ys"
  using json_join_inj [of xs ys "'']''" "'']''"] by (auto simp: json_tuple_def)

section \<open>stableStringify\<close>

fun stableStringify :: "jsval \<Rightarrow> string" where
  "stableStringify JUndef = ''undefined''"
| "stableStringify JNull = ''null''"
| "stableStringify (JBool b) = (if b then ''true'' else ''false'')"
| "stableStringify (JInt i) = js_show_int i"
| "stableStringify (JNonFinite s) = json_string s"
| "stableStringify (JBig i) = json_string (js_show_int i)"
| "stableStringify (JStr s) = json_string s"
| "stableStringify (JError name msg stack) =
     (''{'' @ js_join '','' (map (\<lambda>(k, s). json_string k @ '':'' @ s)
        [(''message'', json_string msg), (''name'', json_string name),
         (''stack'', case stack of None \<Rightarrow> ''undefined'' | Some s \<Rightarrow> json_string s)]) @ ''}'')"
| "stableStringify (JArr vs) = ''['' @ js_join '','' (map stableStringify vs) @ '']''"
| "stableStringify (JObj fs) =
     ''{'' @ js_join '',''
       (map (\<lambda>(k, v). json_string k @ '':'' @ stableStringify v) (sort_key fst fs)) @ ''}''"

section \<open>Values that differ in the order of object fields only\<close>

inductive jsSame :: "jsval \<Rightarrow> jsval \<Rightarrow> bool" where
  jsSame_refl: "jsSame v v"
| jsSame_arr: "length vs = length ws \<Longrightarrow> \<forall>i < length vs. jsSame (vs ! i) (ws ! i) \<Longrightarrow>
    jsSame (JArr vs) (JArr ws)"
| jsSame_obj: "length fs = length gs \<Longrightarrow>
    \<forall>i < length fs. fst (fs ! i) = fst (gs ! i) \<and> jsSame (snd (fs ! i)) (snd (gs ! i)) \<Longrightarrow>
    mset gs = mset hs \<Longrightarrow> distinct (map fst gs) \<Longrightarrow> jsSame (JObj fs) (JObj hs)"

inductive_cases jsSame_objE: "jsSame (JObj fs) w"

lemma insort_key_map_value:
  "insort_key fst (k, g v) (map (\<lambda>(k, v). (k, g v)) fs) =
   map (\<lambda>(k, v). (k, g v)) (insort_key fst (k, v) fs)"
  by (induction fs) auto

lemma sort_key_map_value:
  "sort_key fst (map (\<lambda>(k, v). (k, g v)) fs) = map (\<lambda>(k, v). (k, g v)) (sort_key fst fs)"
  by (induction fs) (auto simp: insort_key_map_value)

lemma sort_key_mset_cong:
  assumes "mset gs = mset hs" "distinct (map fst gs)"
  shows "sort_key fst gs = sort_key fst hs"
proof -
  have "inj_on fst (set gs)" using assms(2) by (simp add: distinct_map)
  then show ?thesis using assms(1) by (intro sort_key_inj_key_eq) simp_all
qed

lemma stableStringify_obj:
  "stableStringify (JObj fs) =
   ''{'' @ js_join '','' (map (\<lambda>(k, s). json_string k @ '':'' @ s)
     (sort_key fst (map (\<lambda>(k, v). (k, stableStringify v)) fs))) @ ''}''"
  unfolding sort_key_map_value by (simp add: case_prod_unfold comp_def)

lemma stableStringify_same: "jsSame v w \<Longrightarrow> stableStringify v = stableStringify w"
proof (induction rule: jsSame.induct)
  case (jsSame_refl v)
  then show ?case by simp
next
  case (jsSame_arr vs ws)
  then have "map stableStringify vs = map stableStringify ws"
    by (auto simp: list_eq_iff_nth_eq)
  then show ?case by simp
next
  case (jsSame_obj fs gs hs)
  then have "map (\<lambda>(k, v). (k, stableStringify v)) fs = map (\<lambda>(k, v). (k, stableStringify v)) gs"
    by (auto simp: list_eq_iff_nth_eq case_prod_unfold)
  then have "stableStringify (JObj fs) = stableStringify (JObj gs)"
    by (simp only: stableStringify_obj)
  also have "\<dots> = stableStringify (JObj hs)"
    using sort_key_mset_cong [of gs hs] jsSame_obj.hyps by simp
  finally show ?case .
qed

end
