(* ===== verification/ToolLoop.thy ===== *)
theory ToolLoop
  imports JsValue
begin

text \<open>
  Detection of tool-call loops, \<open>src/agents/tool-loop-detection.ts\<close>.  The session's history is a list
  of call records, oldest first; the backward loops of the code run on the reversed list.  SHA-256
  (the hex digest of node:crypto) is the parameter \<open>digest\<close> of the functions that hash.  Counts and
  thresholds are natural numbers.
\<close>

section \<open>Configuration\<close>

record loop_config =
  lc_enabled :: "bool option"
  lc_historySize :: "jsnum option"
  lc_warningThreshold :: "jsnum option"
  lc_unknownToolThreshold :: "jsnum option"
  lc_criticalThreshold :: "jsnum option"
  lc_globalCircuitBreakerThreshold :: "jsnum option"
  lc_genericRepeat :: "bool option"
  lc_knownPollNoProgress :: "bool option"
  lc_pingPong :: "bool option"

record resolved_loop_config =
  rl_enabled :: bool
  rl_historySize :: nat
  rl_warningThreshold :: nat
  rl_unknownToolThreshold :: nat
  rl_criticalThreshold :: nat
  rl_globalCircuitBreakerThreshold :: nat
  rl_genericRepeat :: bool
  rl_knownPollNoProgress :: bool
  rl_pingPong :: bool

definition asPositiveInt :: "jsnum option \<Rightarrow> nat \<Rightarrow> nat" where
  "asPositiveInt value fallback =
     (case value of
        Some (Fin r) \<Rightarrow> if r = of_int \<lfloor>r\<rfloor> \<and> 0 < r then nat \<lfloor>r\<rfloor> else fallback
      | _ \<Rightarrow> fallback)"

definition emptyLoopConfig :: loop_config where
  "emptyLoopConfig = \<lparr>lc_enabled = None, lc_historySize = None, lc_warningThreshold = None,
     lc_unknownToolThreshold = None, lc_criticalThreshold = None,
     lc_globalCircuitBreakerThreshold = None, lc_genericRepeat = None,
     lc_knownPollNoProgress = None, lc_pingPong = None\<rparr>"

definition resolveLoopDetectionConfig :: "loop_config option \<Rightarrow> resolved_loop_config" where
  "resolveLoopDetectionConfig config =
     (let c = (case config of None \<Rightarrow> emptyLoopConfig | Some c \<Rightarrow> c);
          warning = asPositiveInt (lc_warningThreshold c) 10;
          critical = asPositiveInt (lc_criticalThreshold c) 20;
          breaker = asPositiveInt (lc_globalCircuitBreakerThreshold c) 30;
          critical = (if critical \<le> warning then warning + 1 else critical);
          breaker = (if breaker \<le> critical then critical + 1 else breaker);
          flag = (\<lambda>d v. case v of None \<Rightarrow> d | Some b \<Rightarrow> b)
      in \<lparr>rl_enabled = flag False (lc_enabled c),
          rl_historySize = asPositiveInt (lc_historySize c) 30,
          rl_warningThreshold = warning,
          rl_unknownToolThreshold = asPositiveInt (lc_unknownToolThreshold c) 10,
          rl_criticalThreshold = critical,
          rl_globalCircuitBreakerThreshold = breaker,
          rl_genericRepeat = flag True (lc_genericRepeat c),
          rl_knownPollNoProgress = flag True (lc_knownPollNoProgress c),
          rl_pingPong = flag True (lc_pingPong c)\<rparr>)"

section \<open>History\<close>

record tool_call =
  tc_toolName :: string
  tc_argsHash :: string
  tc_toolCallId :: "string option"
  tc_runId :: "string option"
  tc_resultHash :: "string option"
  tc_unknownToolName :: "string option"
  tc_timestamp :: int

text \<open>JavaScript truthiness of an optional string.\<close>

definition truthy :: "string option \<Rightarrow> bool" where
  "truthy v \<longleftrightarrow> v \<noteq> None \<and> v \<noteq> Some []"

definition normalizeRunId :: "string option \<Rightarrow> string option" where
  "normalizeRunId runId =
     (case runId of None \<Rightarrow> None
      | Some s \<Rightarrow> (let trimmed = js_trim s in if trimmed = [] then None else Some trimmed))"

definition selectHistoryForScope :: "tool_call list \<Rightarrow> string option \<Rightarrow> tool_call list" where
  "selectHistoryForScope history runId =
     filter (\<lambda>r. normalizeRunId (tc_runId r) = normalizeRunId runId) history"

section \<open>Hashing calls and outcomes\<close>

definition digestStable :: "(string \<Rightarrow> string) \<Rightarrow> jsval \<Rightarrow> string" where
  "digestStable digest v = digest (stableStringify v)"

definition hashToolCall :: "(string \<Rightarrow> string) \<Rightarrow> string \<Rightarrow> jsval \<Rightarrow> string" where
  "hashToolCall digest toolName params = toolName @ '':'' @ digestStable digest params"

definition isKnownPollToolCall :: "string \<Rightarrow> jsval \<Rightarrow> bool" where
  "isKnownPollToolCall toolName params \<longleftrightarrow>
     (if toolName = ''command_status'' then True
      else if toolName \<noteq> ''process'' \<or> \<not> isPlainObject params then False
      else (let action = jget params ''action''
            in action = JStr ''poll'' \<or> action = JStr ''log''))"

definition textOfEntry :: "jsval \<Rightarrow> string option" where
  "textOfEntry entry =
     (if isPlainObject entry
      then (case (jget entry ''type'', jget entry ''text'') of
              (JStr _, JStr t) \<Rightarrow> Some t | _ \<Rightarrow> None)
      else None)"

definition extractTextContent :: "jsval \<Rightarrow> string" where
  "extractTextContent result =
     (if isPlainObject result
      then (case jget result ''content'' of
              JArr es \<Rightarrow> js_trim (js_join [CHR 10] (List.map_filter textOfEntry es))
            | _ \<Rightarrow> [])
      else [])"

definition formatErrorForHash :: "jsval \<Rightarrow> string" where
  "formatErrorForHash error =
     (case error of
        JError name msg _ \<Rightarrow> if msg = [] then name else msg
      | JStr s \<Rightarrow> s
      | JInt i \<Rightarrow> js_show_int i
      | JNonFinite s \<Rightarrow> s
      | JBig i \<Rightarrow> js_show_int i
      | JBool b \<Rightarrow> if b then ''true'' else ''false''
      | _ \<Rightarrow> stableStringify error)"

text \<open>
  The two regular expressions of \<open>extractUnknownToolName\<close>, matched at one position and then at every
  position from the left.  In both the character classes of neighbouring parts are disjoint, so the
  greedy match never backtracks.
\<close>

definition nameChar :: "char \<Rightarrow> bool" where
  "nameChar c \<longleftrightarrow>
     (let n = (of_char c :: nat)
      in (65 \<le> n \<and> n \<le> 90) \<or> (97 \<le> n \<and> n \<le> 122) \<or> (48 \<le> n \<and> n \<le> 57) \<or>
         c \<in> {CHR ''_'', CHR ''.'', CHR ''-''})"

definition isQuote :: "char \<Rightarrow> bool" where
  "isQuote c \<longleftrightarrow> of_char c \<in> {34::nat, 39}"

definition dropQuote :: "string \<Rightarrow> string" where
  "dropQuote s = (case s of [] \<Rightarrow> [] | c # cs \<Rightarrow> if isQuote c then cs else s)"

definition matchLit :: "string \<Rightarrow> string \<Rightarrow> string option" where
  "matchLit lit s =
     (if map js_lower_char (take (length lit) s) = lit then Some (drop (length lit) s) else None)"

definition matchUnknownTool :: "string \<Rightarrow> string option" where
  "matchUnknownTool s =
     (case matchLit ''unknown tool'' s of None \<Rightarrow> None
      | Some r \<Rightarrow>
          (let sep = takeWhile (\<lambda>c. c = CHR '':'' \<or> js_ws c) r;
               r = dropQuote (dropWhile (\<lambda>c. c = CHR '':'' \<or> js_ws c) r);
               name = takeWhile nameChar r
           in if sep = [] \<or> name = [] then None else Some name))"

definition matchToolMissing :: "string \<Rightarrow> string option" where
  "matchToolMissing s =
     (case matchLit ''tool'' s of None \<Rightarrow> None
      | Some r \<Rightarrow>
          (let sep = takeWhile js_ws r;
               r = dropQuote (dropWhile js_ws r);
               name = takeWhile nameChar r;
               r = dropQuote (dropWhile nameChar r);
               sep2 = takeWhile js_ws r;
               r = dropWhile js_ws r
           in if sep \<noteq> [] \<and> name \<noteq> [] \<and> sep2 \<noteq> [] \<and>
                 (matchLit ''not found'' r \<noteq> None \<or> matchLit ''is not available'' r \<noteq> None)
              then Some name else None))"

fun firstMatch :: "(string \<Rightarrow> string option) \<Rightarrow> string \<Rightarrow> string option" where
  "firstMatch m [] = m []"
| "firstMatch m (c # cs) = (case m (c # cs) of Some x \<Rightarrow> Some x | None \<Rightarrow> firstMatch m cs)"

definition extractUnknownToolName :: "jsval \<Rightarrow> string option" where
  "extractUnknownToolName error =
     (let raw = js_trim (formatErrorForHash error)
      in if raw = [] then None
         else
           (let match1 = (case firstMatch matchUnknownTool raw of
                            Some n \<Rightarrow> Some n | None \<Rightarrow> firstMatch matchToolMissing raw);
                toolName = map_option js_trim match1
            in if truthy toolName then map_option js_lower toolName else None))"

definition stringField :: "jsval \<Rightarrow> jsval" where
  "stringField v = (case v of JStr _ \<Rightarrow> v | _ \<Rightarrow> JNull)"

definition stringFieldOr :: "jsval \<Rightarrow> string \<Rightarrow> jsval" where
  "stringFieldOr v d = (case v of JStr _ \<Rightarrow> v | _ \<Rightarrow> JStr d)"

definition nonEmptyStringField :: "jsval \<Rightarrow> jsval" where
  "nonEmptyStringField v =
     (case v of JStr s \<Rightarrow> (let t = js_trim s in if t = [] then JNull else JStr t) | _ \<Rightarrow> JNull)"

definition isNumber :: "jsval \<Rightarrow> bool" where
  "isNumber v \<longleftrightarrow> (case v of JInt _ \<Rightarrow> True | JNonFinite _ \<Rightarrow> True | _ \<Rightarrow> False)"

definition hashExecToolOutcome :: "(string \<Rightarrow> string) \<Rightarrow> jsval \<Rightarrow> string \<Rightarrow> string option" where
  "hashExecToolOutcome digest details text =
     (case jget details ''status'' of
        JStr status \<Rightarrow>
          if status = [] then None
          else if status = ''running'' then
            Some (digestStable digest (JObj [(''status'', JStr status),
              (''tail'', stringFieldOr (jget details ''tail'') [])]))
          else if status = ''completed'' \<or> status = ''failed'' then
            Some (digestStable digest (JObj [(''status'', JStr status),
              (''exitCode'', if isNumber (jget details ''exitCode'') then jget details ''exitCode'' else JNull),
              (''timedOut'', JBool (jget details ''timedOut'' = JBool True)),
              (''output'', (let agg = nonEmptyStringField (jget details ''aggregated'')
                           in if agg = JNull then JStr text else agg))]))
          else if status = ''approval-pending'' \<or> status = ''approval-unavailable'' then
            Some (digestStable digest (JObj [(''status'', JStr status),
              (''reason'', stringField (jget details ''reason'')),
              (''host'', stringField (jget details ''host'')),
              (''command'', stringFieldOr (jget details ''command'') []),
              (''warningText'', stringFieldOr (jget details ''warningText'') [])]))
          else None
      | _ \<Rightarrow> None)"

definition hashToolOutcome ::
  "(string \<Rightarrow> string) \<Rightarrow> string \<Rightarrow> jsval \<Rightarrow> jsval \<Rightarrow> jsval \<Rightarrow> string option \<times> string option" where
  "hashToolOutcome digest toolName params result error =
     (if error \<noteq> JUndef then
        (Some (''error:'' @ digestStable digest (JStr (formatErrorForHash error))),
         extractUnknownToolName error)
      else if \<not> isPlainObject result then
        (if result = JUndef then None else Some (digestStable digest result), None)
      else
        (let details = (if isPlainObject (jget result ''details'') then jget result ''details'' else JObj []);
             text = extractTextContent result;
             execHash = (if toolName = ''exec'' then hashExecToolOutcome digest details text else None);
             action = jget params ''action'';
             poll = isKnownPollToolCall toolName params \<and> toolName = ''process'' \<and> isPlainObject params
         in if truthy execHash then (execHash, None)
            else if poll \<and> action = JStr ''poll'' then
              (Some (digestStable digest (JObj [(''action'', action),
                 (''status'', jget details ''status''),
                 (''exitCode'', orNull (jget details ''exitCode'')),
                 (''exitSignal'', orNull (jget details ''exitSignal'')),
                 (''aggregated'', orNull (jget details ''aggregated'')),
                 (''text'', JStr text)])), None)
            else if poll \<and> action = JStr ''log'' then
              (Some (digestStable digest (JObj [(''action'', action),
                 (''status'', jget details ''status''),
                 (''totalLines'', orNull (jget details ''totalLines'')),
                 (''totalChars'', orNull (jget details ''totalChars'')),
                 (''truncated'', orNull (jget details ''truncated'')),
                 (''exitCode'', orNull (jget details ''exitCode'')),
                 (''exitSignal'', orNull (jget details ''exitSignal'')),
                 (''text'', JStr text)])), None)
            else (Some (digestStable digest (JObj [(''details'', details), (''text'', JStr text)])), None)))"

section \<open>Streaks\<close>

text \<open>The arguments of the loops are the history from its end backwards.\<close>

fun unknownLoop :: "string \<Rightarrow> tool_call list \<Rightarrow> nat \<Rightarrow> string option \<Rightarrow> nat \<times> string option" where
  "unknownLoop toolName [] streak repeated = (streak, repeated)"
| "unknownLoop toolName (r # rs) streak repeated =
     (if tc_toolName r \<noteq> toolName \<or> \<not> truthy (tc_unknownToolName r) then (streak, repeated)
      else if \<not> truthy repeated then unknownLoop toolName rs 1 (tc_unknownToolName r)
      else if tc_unknownToolName r \<noteq> repeated then (streak, repeated)
      else unknownLoop toolName rs (streak + 1) repeated)"

definition getUnknownToolRepeatStreak :: "tool_call list \<Rightarrow> string \<Rightarrow> nat \<times> string option" where
  "getUnknownToolRepeatStreak history toolName = unknownLoop toolName (rev history) 0 None"

fun noProgressLoop ::
  "string \<Rightarrow> string \<Rightarrow> tool_call list \<Rightarrow> nat \<Rightarrow> string option \<Rightarrow> nat \<times> string option" where
  "noProgressLoop toolName argsHash [] streak latest = (streak, latest)"
| "noProgressLoop toolName argsHash (r # rs) streak latest =
     (if tc_toolName r \<noteq> toolName \<or> tc_argsHash r \<noteq> argsHash
      then noProgressLoop toolName argsHash rs streak latest
      else if \<not> truthy (tc_resultHash r) then noProgressLoop toolName argsHash rs streak latest
      else if \<not> truthy latest then noProgressLoop toolName argsHash rs 1 (tc_resultHash r)
      else if tc_resultHash r \<noteq> latest then (streak, latest)
      else noProgressLoop toolName argsHash rs (streak + 1) latest)"

definition getNoProgressStreak :: "tool_call list \<Rightarrow> string \<Rightarrow> string \<Rightarrow> nat \<times> string option" where
  "getNoProgressStreak history toolName argsHash = noProgressLoop toolName argsHash (rev history) 0 None"

record ping_pong =
  pp_count :: nat
  pp_pairedToolName :: "string option"
  pp_pairedSignature :: "string option"
  pp_noProgressEvidence :: bool

definition noPingPong :: ping_pong where
  "noPingPong = \<lparr>pp_count = 0, pp_pairedToolName = None, pp_pairedSignature = None,
     pp_noProgressEvidence = False\<rparr>"

fun alternatingTail :: "string \<Rightarrow> string \<Rightarrow> tool_call list \<Rightarrow> nat \<Rightarrow> nat" where
  "alternatingTail lastHash other [] n = n"
| "alternatingTail lastHash other (c # cs) n =
     (if tc_argsHash c \<noteq> (if n mod 2 = 0 then lastHash else other) then n
      else alternatingTail lastHash other cs (n + 1))"

text \<open>The loop over the alternating tail: the first result of each side, and whether all agree.\<close>

fun evidenceLoop ::
  "string \<Rightarrow> string \<Rightarrow> tool_call list \<Rightarrow> string option \<Rightarrow> string option \<Rightarrow>
   bool \<times> string option \<times> string option" where
  "evidenceLoop lastHash other [] a b = (True, a, b)"
| "evidenceLoop lastHash other (c # cs) a b =
     (if \<not> truthy (tc_resultHash c) then (False, a, b)
      else if tc_argsHash c = lastHash then
        (if \<not> truthy a then evidenceLoop lastHash other cs (tc_resultHash c) b
         else if a \<noteq> tc_resultHash c then (False, a, b)
         else evidenceLoop lastHash other cs a b)
      else if tc_argsHash c = other then
        (if \<not> truthy b then evidenceLoop lastHash other cs a (tc_resultHash c)
         else if b \<noteq> tc_resultHash c then (False, a, b)
         else evidenceLoop lastHash other cs a b)
      else (False, a, b))"

definition getPingPongStreak :: "tool_call list \<Rightarrow> string \<Rightarrow> ping_pong" where
  "getPingPongStreak history currentSignature =
     (case rev history of
        [] \<Rightarrow> noPingPong
      | newest # earlier \<Rightarrow>
          (case find (\<lambda>c. tc_argsHash c \<noteq> tc_argsHash newest) earlier of
             None \<Rightarrow> noPingPong
           | Some otherCall \<Rightarrow>
               (let other = tc_argsHash otherCall;
                    n = alternatingTail (tc_argsHash newest) other (rev history) 0;
                    tail = drop (length history - n) history;
                    (evidence, a, b) = evidenceLoop (tc_argsHash newest) other tail None None
                in if other = [] \<or> tc_toolName otherCall = [] then noPingPong
                   else if n < 2 then noPingPong
                   else if currentSignature \<noteq> other then noPingPong
                   else \<lparr>pp_count = n + 1, pp_pairedToolName = Some (tc_toolName newest),
                         pp_pairedSignature = Some (tc_argsHash newest),
                         pp_noProgressEvidence = (evidence \<and> truthy a \<and> truthy b)\<rparr>)))"

definition canonicalPairKey :: "string \<Rightarrow> string \<Rightarrow> string" where
  "canonicalPairKey a b = js_join ''|'' (sort [a, b])"

section \<open>Detection\<close>

datatype loop_level = Warning | Critical

datatype loop_detector =
  GenericRepeat | UnknownToolRepeat | KnownPollNoProgress | GlobalCircuitBreaker | PingPong

record stuck_loop =
  sl_level :: loop_level
  sl_detector :: loop_detector
  sl_count :: nat
  sl_message :: string
  sl_pairedToolName :: "string option"
  sl_warningKey :: string

datatype loop_result = NotStuck | Stuck stuck_loop

definition orString :: "string \<Rightarrow> string option \<Rightarrow> string" where
  "orString d v = (case v of None \<Rightarrow> d | Some s \<Rightarrow> s)"

text \<open>The message of each detector; the argument is the tool, or the missing tool's name.\<close>

fun loopMessage :: "loop_level \<Rightarrow> loop_detector \<Rightarrow> string \<Rightarrow> nat \<Rightarrow> string" where
  "loopMessage Critical UnknownToolRepeat tool n =
     ''CRITICAL: attempted unavailable tool '' @ tool @ '' '' @ js_show_nat n @
     '' times. Stop retrying that missing tool and answer without it.''"
| "loopMessage Warning UnknownToolRepeat tool n = []"
| "loopMessage _ GlobalCircuitBreaker tool n =
     ''CRITICAL: '' @ tool @ '' has repeated identical no-progress outcomes '' @ js_show_nat n @
     '' times. Session execution blocked by global circuit breaker to prevent runaway loops.''"
| "loopMessage Critical KnownPollNoProgress tool n =
     ''CRITICAL: Called '' @ tool @ '' with identical arguments and no progress '' @ js_show_nat n @
     '' times. This appears to be a stuck polling loop. Session execution blocked to prevent resource waste.''"
| "loopMessage Warning KnownPollNoProgress tool n =
     ''WARNING: You have called '' @ tool @ '' '' @ js_show_nat n @
     '' times with identical arguments and no progress. Stop polling and either (1) increase wait time between checks, or (2) report the task as failed if the process is stuck.''"
| "loopMessage Critical PingPong tool n =
     ''CRITICAL: You are alternating between repeated tool-call patterns ('' @ js_show_nat n @
     '' consecutive calls) with no progress. This appears to be a stuck ping-pong loop. Session execution blocked to prevent resource waste.''"
| "loopMessage Warning PingPong tool n =
     ''WARNING: You are alternating between repeated tool-call patterns ('' @ js_show_nat n @
     '' consecutive calls). This looks like a ping-pong loop; stop retrying and report the task as failed.''"
| "loopMessage Critical GenericRepeat tool n =
     ''CRITICAL: Called '' @ tool @ '' with identical arguments and identical outcomes '' @ js_show_nat n @
     '' times. Session execution blocked to prevent runaway loops.''"
| "loopMessage Warning GenericRepeat tool n =
     ''WARNING: You have called '' @ tool @ '' '' @ js_show_nat n @
     '' times with identical arguments. If this is not making progress, stop retrying and report the task as failed.''"

declare loopMessage.simps [simp del]

definition stuckAt :: "loop_level \<Rightarrow> loop_detector \<Rightarrow> string \<Rightarrow> nat \<Rightarrow> string option \<Rightarrow> string \<Rightarrow> loop_result" where
  "stuckAt level detector tool n paired key =
     Stuck \<lparr>sl_level = level, sl_detector = detector, sl_count = n,
            sl_message = loopMessage level detector tool n,
            sl_pairedToolName = paired, sl_warningKey = key\<rparr>"

definition detectToolCallLoop ::
  "(string \<Rightarrow> string) \<Rightarrow> tool_call list \<Rightarrow> string \<Rightarrow> jsval \<Rightarrow> loop_config option \<Rightarrow> string option \<Rightarrow> loop_result" where
  "detectToolCallLoop digest toolCallHistory toolName params config runId =
     (let c = resolveLoopDetectionConfig config
      in if \<not> rl_enabled c then NotStuck
         else
           (let history = selectHistoryForScope toolCallHistory runId;
                currentHash = hashToolCall digest toolName params;
                (unknownCount, unknownName) = getUnknownToolRepeatStreak history toolName;
                (noProgressStreak, latest) = getNoProgressStreak history toolName currentHash;
                knownPollTool = isKnownPollToolCall toolName params;
                pingPong = getPingPongStreak history currentHash;
                callKey = toolName @ '':'' @ currentHash;
                outcomeKey = callKey @ '':'' @ orString ''none'' latest;
                pingPongWarningKey =
                  ''pingpong:'' @
                  (if truthy (pp_pairedSignature pingPong)
                   then canonicalPairKey currentHash (the (pp_pairedSignature pingPong))
                   else callKey);
                recentCount =
                  length (filter (\<lambda>h. tc_toolName h = toolName \<and> tc_argsHash h = currentHash) history)
            in
              if rl_unknownToolThreshold c \<le> unknownCount then
                stuckAt Critical UnknownToolRepeat (orString toolName unknownName) unknownCount None
                  (''unknown-tool:'' @ toolName @ '':'' @ orString ''unknown'' unknownName)
              else if rl_globalCircuitBreakerThreshold c \<le> noProgressStreak then
                stuckAt Critical GlobalCircuitBreaker toolName noProgressStreak None
                  (''global:'' @ outcomeKey)
              else if knownPollTool \<and> rl_knownPollNoProgress c \<and> rl_criticalThreshold c \<le> noProgressStreak then
                stuckAt Critical KnownPollNoProgress toolName noProgressStreak None (''poll:'' @ outcomeKey)
              else if knownPollTool \<and> rl_knownPollNoProgress c \<and> rl_warningThreshold c \<le> noProgressStreak then
                stuckAt Warning KnownPollNoProgress toolName noProgressStreak None (''poll:'' @ outcomeKey)
              else if rl_pingPong c \<and> rl_criticalThreshold c \<le> pp_count pingPong \<and> pp_noProgressEvidence pingPong then
                stuckAt Critical PingPong toolName (pp_count pingPong) (pp_pairedToolName pingPong) pingPongWarningKey
              else if rl_pingPong c \<and> rl_warningThreshold c \<le> pp_count pingPong then
                stuckAt Warning PingPong toolName (pp_count pingPong) (pp_pairedToolName pingPong) pingPongWarningKey
              else if \<not> knownPollTool \<and> rl_genericRepeat c \<and> rl_criticalThreshold c \<le> noProgressStreak then
                stuckAt Critical GenericRepeat toolName noProgressStreak None (''generic:'' @ outcomeKey)
              else if \<not> knownPollTool \<and> rl_genericRepeat c \<and> rl_warningThreshold c \<le> recentCount then
                stuckAt Warning GenericRepeat toolName recentCount None (''generic:'' @ callKey)
              else NotStuck))"

section \<open>Recording\<close>

text \<open>\<open>history.splice(0, history.length - historySize)\<close>\<close>

definition trimHistory :: "nat \<Rightarrow> tool_call list \<Rightarrow> tool_call list" where
  "trimHistory historySize history =
     (if historySize < length history then drop (length history - historySize) history else history)"

definition recordToolCall ::
  "(string \<Rightarrow> string) \<Rightarrow> int \<Rightarrow> string \<Rightarrow> jsval \<Rightarrow> string option \<Rightarrow> loop_config option \<Rightarrow> string option \<Rightarrow>
   tool_call list \<Rightarrow> tool_call list" where
  "recordToolCall digest now toolName params toolCallId config runId history =
     (let c = resolveLoopDetectionConfig config;
          call = \<lparr>tc_toolName = toolName, tc_argsHash = hashToolCall digest toolName params,
                  tc_toolCallId = toolCallId, tc_runId = normalizeRunId runId, tc_resultHash = None,
                  tc_unknownToolName = None, tc_timestamp = now\<rparr>
      in trimHistory (rl_historySize c) (history @ [call]))"

record tool_outcome =
  to_toolName :: string
  to_toolParams :: jsval
  to_toolCallId :: "string option"
  to_result :: jsval
  to_error :: jsval
  to_config :: "loop_config option"
  to_runId :: "string option"

text \<open>The backward search for the pending call; the found record is updated in place.\<close>

fun markLoop ::
  "tool_outcome \<Rightarrow> string \<Rightarrow> string option \<Rightarrow> string \<Rightarrow> string option \<Rightarrow> tool_call list \<Rightarrow>
   (tool_call \<times> tool_call list) option" where
  "markLoop p argsHash runId resultHash unknownName [] = None"
| "markLoop p argsHash runId resultHash unknownName (call # rest) =
     (if normalizeRunId (tc_runId call) \<noteq> runId \<or>
         truthy (to_toolCallId p) \<and> tc_toolCallId call \<noteq> to_toolCallId p \<or>
         tc_toolName call \<noteq> to_toolName p \<or> tc_argsHash call \<noteq> argsHash \<or>
         tc_resultHash call \<noteq> None
      then map_option (\<lambda>(r, cs). (r, call # cs)) (markLoop p argsHash runId resultHash unknownName rest)
      else (let call = call\<lparr>tc_resultHash := Some resultHash, tc_unknownToolName := unknownName\<rparr>
            in Some (call, call # rest)))"

definition recordToolCallOutcome ::
  "(string \<Rightarrow> string) \<Rightarrow> int \<Rightarrow> tool_outcome \<Rightarrow> tool_call list \<Rightarrow> tool_call option \<times> tool_call list" where
  "recordToolCallOutcome digest now p history =
     (let c = resolveLoopDetectionConfig (to_config p);
          runId = normalizeRunId (to_runId p);
          (resultHash, unknownName) =
            hashToolOutcome digest (to_toolName p) (to_toolParams p) (to_result p) (to_error p)
      in if \<not> truthy resultHash then (None, history)
         else
           (let argsHash = hashToolCall digest (to_toolName p) (to_toolParams p);
                (recorded, history) =
                  (case markLoop p argsHash runId (the resultHash) unknownName (rev history) of
                     Some (r, cs) \<Rightarrow> (r, rev cs)
                   | None \<Rightarrow>
                       (let r = \<lparr>tc_toolName = to_toolName p, tc_argsHash = argsHash,
                                 tc_toolCallId = to_toolCallId p, tc_runId = runId,
                                 tc_resultHash = resultHash, tc_unknownToolName = unknownName,
                                 tc_timestamp = now\<rparr>
                        in (r, history @ [r])))
            in (Some recorded, trimHistory (rl_historySize c) history)))"

record tool_stats =
  ts_totalCalls :: nat
  ts_uniquePatterns :: nat
  ts_mostFrequent :: "(string \<times> nat) option"

definition countPattern :: "(string, string \<times> nat) jsmap \<Rightarrow> tool_call \<Rightarrow> (string, string \<times> nat) jsmap" where
  "countPattern patterns call =
     (case jm_get patterns (tc_argsHash call) of
        Some (t, n) \<Rightarrow> jm_set (tc_argsHash call) (t, n + 1) patterns
      | None \<Rightarrow> jm_set (tc_argsHash call) (tc_toolName call, 1) patterns)"

definition moreFrequent :: "(string \<times> nat) option \<Rightarrow> string \<times> nat \<Rightarrow> (string \<times> nat) option" where
  "moreFrequent best pattern =
     (case best of None \<Rightarrow> Some pattern | Some b \<Rightarrow> if snd b < snd pattern then Some pattern else Some b)"

definition getToolCallStats :: "tool_call list \<Rightarrow> tool_stats" where
  "getToolCallStats history =
     (let patterns = foldl countPattern [] history
      in \<lparr>ts_totalCalls = length history, ts_uniquePatterns = length patterns,
          ts_mostFrequent = foldl moreFrequent None (map snd patterns)\<rparr>)"

section \<open>What the loops compute\<close>

lemma truthy_iff: "truthy v \<longleftrightarrow> (\<exists>s. v = Some s \<and> s \<noteq> [])"
  by (cases v) (auto simp: truthy_def)

text \<open>The outcomes recorded for one call pattern, newest first.\<close>

definition outcomesOf :: "string \<Rightarrow> string \<Rightarrow> tool_call list \<Rightarrow> string option list" where
  "outcomesOf toolName argsHash rs =
     map tc_resultHash (filter (\<lambda>r. tc_toolName r = toolName \<and> tc_argsHash r = argsHash \<and>
       truthy (tc_resultHash r)) rs)"

lemma noProgressLoop_Some:
  "truthy y \<Longrightarrow> noProgressLoop t a rs n y = (n + length (takeWhile (\<lambda>x. x = y) (outcomesOf t a rs)), y)"
  by (induction rs arbitrary: n) (auto simp: outcomesOf_def)

lemma noProgressLoop_None:
  "noProgressLoop t a rs 0 None =
     (case outcomesOf t a rs of [] \<Rightarrow> (0, None)
      | y # ys \<Rightarrow> (Suc (length (takeWhile (\<lambda>x. x = y) ys)), y))"
proof (induction rs)
  case Nil
  then show ?case by (simp add: outcomesOf_def)
next
  case (Cons r rs)
  show ?case
  proof (cases "tc_toolName r = t \<and> tc_argsHash r = a \<and> truthy (tc_resultHash r)")
    case True
    then have "noProgressLoop t a (r # rs) 0 None = noProgressLoop t a rs 1 (tc_resultHash r)"
      by (simp add: truthy_def)
    with True noProgressLoop_Some show ?thesis by (simp add: outcomesOf_def)
  next
    case False
    then have "noProgressLoop t a (r # rs) 0 None = noProgressLoop t a rs 0 None" by auto
    moreover have "outcomesOf t a (r # rs) = outcomesOf t a rs" using False by (auto simp: outcomesOf_def)
    ultimately show ?thesis using Cons.IH by simp
  qed
qed

lemma unknownLoop_Some:
  "truthy y \<Longrightarrow> unknownLoop t rs n y =
     (n + length (takeWhile (\<lambda>r. tc_toolName r = t \<and> tc_unknownToolName r = y) rs), y)"
  by (induction rs arbitrary: n) auto

lemma alternatingTail_mono: "n \<le> alternatingTail a b cs n"
  by (induction cs arbitrary: n) (auto intro: Suc_leD order_trans)

lemma alternatingTail_spec:
  "i < alternatingTail a b cs n - n \<Longrightarrow>
   i < length cs \<and> tc_argsHash (cs ! i) = (if even (n + i) then a else b)"
proof (induction cs arbitrary: n i)
  case Nil
  then show ?case by simp
next
  case (Cons c cs)
  from Cons.prems have c: "tc_argsHash c = (if even n then a else b)"
    and i: "i < alternatingTail a b cs (n + 1) - n"
    by (auto simp: even_iff_mod_2_eq_zero split: if_splits)
  show ?case
  proof (cases i)
    case 0
    with c show ?thesis by simp
  next
    case (Suc j)
    then have "j < alternatingTail a b cs (n + 1) - (n + 1)" using i by simp
    from Cons.IH [OF this] Suc show ?thesis by simp
  qed
qed

lemma evidenceLoop_spec:
  "evidenceLoop x y cs a b = (True, a', b') \<Longrightarrow>
   (truthy a \<longrightarrow> a' = a) \<and> (truthy b \<longrightarrow> b' = b) \<and>
   (\<forall>c \<in> set cs. truthy (tc_resultHash c) \<and>
      (tc_argsHash c = x \<longrightarrow> tc_resultHash c = a') \<and>
      (tc_argsHash c \<noteq> x \<longrightarrow> tc_argsHash c = y \<and> tc_resultHash c = b'))"
  by (induction cs arbitrary: a b) (auto split: if_splits)

section \<open>Evidence\<close>

definition sameOutcomes :: "tool_call list \<Rightarrow> string \<Rightarrow> string \<Rightarrow> nat \<Rightarrow> bool" where
  "sameOutcomes h toolName argsHash n \<longleftrightarrow>
     (\<exists>r. truthy r \<and> n \<le> length (filter (\<lambda>c. tc_toolName c = toolName \<and> tc_argsHash c = argsHash \<and>
        tc_resultHash c = r) h))"

text \<open>The last \<open>n\<close> calls alternate between two argument hashes, each with one outcome.\<close>

definition alternates :: "tool_call list \<Rightarrow> string \<Rightarrow> nat \<Rightarrow> bool" where
  "alternates h current n \<longleftrightarrow>
     n \<le> length h \<and>
     (\<exists>a ra rb. a \<noteq> current \<and> truthy ra \<and> truthy rb \<and>
        (\<forall>i < n. tc_argsHash (rev h ! i) = (if even i then a else current) \<and>
                 tc_resultHash (rev h ! i) = (if even i then ra else rb)))"

lemma length_takeWhile_filter: "length (takeWhile P xs) \<le> length (filter P xs)"
  by (induction xs) auto

lemma getNoProgressStreak_evidence:
  assumes "getNoProgressStreak h t a = (n, latest)" "0 < n"
  shows "sameOutcomes h t a n"
proof -
  obtain y ys where o: "outcomesOf t a (rev h) = y # ys"
      "n = Suc (length (takeWhile (\<lambda>x. x = y) ys))"
    using assms by (auto simp: getNoProgressStreak_def noProgressLoop_None split: list.splits)
  then have "n \<le> length (filter (\<lambda>x. x = y) (outcomesOf t a (rev h)))"
    using length_takeWhile_filter [of "\<lambda>x. x = y" ys] by simp
  moreover have y: "y \<in> set (outcomesOf t a (rev h))" using o by simp
  then have "truthy y" by (auto simp: outcomesOf_def)
  then have "filter (\<lambda>x. x = y) (outcomesOf t a (rev h)) =
      map tc_resultHash (filter (\<lambda>c. tc_toolName c = t \<and> tc_argsHash c = a \<and> tc_resultHash c = y) (rev h))"
    by (auto simp: outcomesOf_def filter_map comp_def intro!: arg_cong [of _ _ "map tc_resultHash"] filter_cong)
  ultimately show ?thesis using \<open>truthy y\<close> by (auto simp: sameOutcomes_def simp flip: rev_filter)
qed

lemma sameOutcomes_mono: "sameOutcomes h t a n \<Longrightarrow> m \<le> n \<Longrightarrow> sameOutcomes h t a m"
  by (auto simp: sameOutcomes_def intro: order_trans)

lemma getPingPongStreak_evidence:
  assumes pp: "pp_noProgressEvidence (getPingPongStreak h s)" and n: "pp_count (getPingPongStreak h s) = Suc n"
  shows "alternates h s n"
proof -
  obtain newest earlier where rh: "rev h = newest # earlier"
    using n by (cases "rev h") (auto simp: getPingPongStreak_def noPingPong_def)
  obtain c where c: "find (\<lambda>c. tc_argsHash c \<noteq> tc_argsHash newest) earlier = Some c"
    using n rh by (cases "find (\<lambda>c. tc_argsHash c \<noteq> tc_argsHash newest) earlier")
      (auto simp: getPingPongStreak_def noPingPong_def)
  define x where "x = tc_argsHash newest"
  define y where "y = tc_argsHash c"
  define k where "k = alternatingTail x y (newest # earlier) 0"
  obtain ev a b where ev: "evidenceLoop x y (drop (length h - k) h) None None = (ev, a, b)"
    by (cases "evidenceLoop x y (drop (length h - k) h) None None") auto
  have eq: "getPingPongStreak h s =
      (if y = [] \<or> tc_toolName c = [] then noPingPong else if k < 2 then noPingPong
       else if s \<noteq> y then noPingPong
       else \<lparr>pp_count = k + 1, pp_pairedToolName = Some (tc_toolName newest),
             pp_pairedSignature = Some (tc_argsHash newest),
             pp_noProgressEvidence = (ev \<and> truthy a \<and> truthy b)\<rparr>)"
    unfolding getPingPongStreak_def rh list.case x_def [symmetric] c [folded x_def] option.case Let_def y_def [symmetric]
      k_def [symmetric] ev prod.case by (rule refl)
  have pos: "\<not> (y = [] \<or> tc_toolName c = [])" "\<not> k < 2" "s = y"
    using n unfolding eq by (simp_all add: noPingPong_def split: if_splits)
  have "getPingPongStreak h s = \<lparr>pp_count = k + 1, pp_pairedToolName = Some (tc_toolName newest),
      pp_pairedSignature = Some (tc_argsHash newest),
      pp_noProgressEvidence = (ev \<and> truthy a \<and> truthy b)\<rparr>"
    unfolding eq if_not_P [OF pos(1)] if_not_P [OF pos(2)] using pos(3) by simp
  with pp n pos have k: "k = n" "s = y" "ev" "truthy a" "truthy b" "2 \<le> k" by simp_all
  have ne: "x \<noteq> y" using find_SomeD [OF c] by (simp add: x_def y_def)
  have kn: "alternatingTail x y (rev h) 0 = n" using k(1) unfolding k_def rh .
  have alt: "i < n \<Longrightarrow> i < length h \<and> tc_argsHash (rev h ! i) = (if even i then x else y)" for i
    using alternatingTail_spec [of i x y "rev h" 0] unfolding kn by simp
  have len: "n \<le> length h"
  proof (cases n)
    case (Suc j)
    with alt [of j] show ?thesis by simp
  qed simp
  have E: "\<forall>c \<in> set (drop (length h - k) h). truthy (tc_resultHash c) \<and>
      (tc_argsHash c = x \<longrightarrow> tc_resultHash c = a) \<and>
      (tc_argsHash c \<noteq> x \<longrightarrow> tc_argsHash c = y \<and> tc_resultHash c = b)"
    using evidenceLoop_spec [of x y "drop (length h - k) h" None None a b] ev k(3) by simp
  have "tc_resultHash (rev h ! i) = (if even i then a else b)" if i: "i < n" for i
  proof -
    have "rev h ! i \<in> set (take n (rev h))" using i len by (auto simp: in_set_conv_nth)
    then have "rev h ! i \<in> set (drop (length h - k) h)" using k(1) by (simp add: take_rev)
    note e = E [rule_format, OF this]
    show ?thesis
    proof (cases "even i")
      case True
      then have "tc_argsHash (rev h ! i) = x" using alt [OF i] by simp
      with e True show ?thesis by simp
    next
      case False
      then have "tc_argsHash (rev h ! i) \<noteq> x" using alt [OF i] ne by simp
      with e False show ?thesis by simp
    qed
  qed
  then have "\<forall>i < n. tc_argsHash (rev h ! i) = (if even i then x else s) \<and>
      tc_resultHash (rev h ! i) = (if even i then a else b)"
    using alt unfolding k(2) by simp
  then show ?thesis unfolding alternates_def using len ne k(2,4,5) by blast
qed

definition repeatsUnknown :: "tool_call list \<Rightarrow> string \<Rightarrow> nat \<Rightarrow> bool" where
  "repeatsUnknown h toolName n \<longleftrightarrow>
     n \<le> length h \<and>
     (\<exists>u. truthy u \<and> (\<forall>r \<in> set (take n (rev h)). tc_toolName r = toolName \<and> tc_unknownToolName r = u))"

lemma getUnknownToolRepeatStreak_evidence:
  assumes "getUnknownToolRepeatStreak h t = (n, u)" "0 < n"
  shows "repeatsUnknown h t n"
proof -
  obtain r rs where rh: "rev h = r # rs"
    using assms by (cases "rev h") (auto simp: getUnknownToolRepeatStreak_def)
  have r: "tc_toolName r = t" "truthy (tc_unknownToolName r)"
    using assms rh by (auto simp: getUnknownToolRepeatStreak_def split: if_splits)
  let ?P = "\<lambda>x. tc_toolName x = t \<and> tc_unknownToolName x = tc_unknownToolName r"
  have "(n, u) = unknownLoop t rs 1 (tc_unknownToolName r)"
    using assms(1) r unfolding getUnknownToolRepeatStreak_def rh by (auto simp: truthy_iff)
  then have n: "n = Suc (length (takeWhile ?P rs))" using unknownLoop_Some [OF r(2)] by simp
  then have "take n (rev h) = r # takeWhile ?P rs"
    unfolding rh by (simp add: takeWhile_eq_take [symmetric])
  moreover have "n \<le> length h"
    using n rh length_takeWhile_le [of ?P rs] by (metis Suc_le_mono length_Cons length_rev)
  ultimately show ?thesis
    using r by (auto simp: repeatsUnknown_def dest: set_takeWhileD)
qed

lemma repeatsUnknown_mono: "repeatsUnknown h t n \<Longrightarrow> m \<le> n \<Longrightarrow> repeatsUnknown h t m"
  by (auto simp: repeatsUnknown_def dest: set_take_subset_set_take [THEN subsetD])

lemma alternates_mono: "alternates h s n \<Longrightarrow> m \<le> n \<Longrightarrow> alternates h s m"
  unfolding alternates_def by (meson le_trans order_less_le_trans)

section \<open>Thresholds\<close>

lemma nat_floor_pos: "r = rat_of_int \<lfloor>r\<rfloor> \<Longrightarrow> 0 < r \<Longrightarrow> 0 < nat \<lfloor>r\<rfloor>"
  by (metis of_int_0_less_iff zero_less_nat_eq)

lemma asPositiveInt_pos: "0 < d \<Longrightarrow> 0 < asPositiveInt v d"
proof (cases "\<exists>r. v = Some (Fin r) \<and> r = of_int \<lfloor>r\<rfloor> \<and> 0 < r")
  case True
  then obtain r where r: "v = Some (Fin r)" "r = of_int \<lfloor>r\<rfloor>" "0 < r" by blast
  have "asPositiveInt v d = (if r = of_int \<lfloor>r\<rfloor> \<and> 0 < r then nat \<lfloor>r\<rfloor> else d)"
    unfolding asPositiveInt_def r(1) option.case jsnum.case by (rule refl)
  then have "asPositiveInt v d = nat \<lfloor>r\<rfloor>" unfolding if_P [OF conjI [OF r(2,3)]] .
  then show ?thesis using nat_floor_pos [OF r(2,3)] by simp
next
  case False
  moreover assume "0 < d"
  ultimately show ?thesis by (auto simp: asPositiveInt_def split: option.split jsnum.split)
qed

lemma resolved_order:
  "0 < rl_warningThreshold (resolveLoopDetectionConfig c)"
  "rl_warningThreshold (resolveLoopDetectionConfig c) < rl_criticalThreshold (resolveLoopDetectionConfig c)"
  "rl_criticalThreshold (resolveLoopDetectionConfig c) <
     rl_globalCircuitBreakerThreshold (resolveLoopDetectionConfig c)"
  "0 < rl_historySize (resolveLoopDetectionConfig c)"
  "0 < rl_unknownToolThreshold (resolveLoopDetectionConfig c)"
  by (simp_all add: resolveLoopDetectionConfig_def Let_def asPositiveInt_pos)

text \<open>Which counts a critical verdict rests on.\<close>

lemma detect_critical:
  assumes "detectToolCallLoop d h t p cfg run = Stuck sl" "sl_level sl = Critical"
  defines "s \<equiv> selectHistoryForScope h run" and "c \<equiv> resolveLoopDetectionConfig cfg"
    and "cur \<equiv> hashToolCall d t p"
  shows "sl_detector sl = UnknownToolRepeat \<and> rl_unknownToolThreshold c \<le> fst (getUnknownToolRepeatStreak s t) \<or>
    sl_detector sl = PingPong \<and> rl_criticalThreshold c \<le> pp_count (getPingPongStreak s cur) \<and>
      pp_noProgressEvidence (getPingPongStreak s cur) \<or>
    sl_detector sl \<notin> {UnknownToolRepeat, PingPong} \<and> rl_criticalThreshold c \<le> fst (getNoProgressStreak s t cur)"
proof -
  obtain un uname where u: "getUnknownToolRepeatStreak s t = (un, uname)" by fastforce
  obtain n latest where n: "getNoProgressStreak s t cur = (n, latest)" by fastforce
  have "rl_criticalThreshold c < rl_globalCircuitBreakerThreshold c"
    unfolding c_def by (rule resolved_order)
  then show ?thesis
    using assms(1,2) unfolding detectToolCallLoop_def Let_def s_def [symmetric] c_def [symmetric]
      cur_def [symmetric] u n prod.case
    by (auto simp: stuckAt_def split: if_splits)
qed

section \<open>The bounded history\<close>

lemma length_trimHistory: "length (trimHistory n h) = min n (length h)"
  by (simp add: trimHistory_def)

lemma trimHistory_suffix: "\<exists>pre. h = pre @ trimHistory n h"
  by (metis append_Nil append_take_drop_id trimHistory_def)

lemma markLoop_length: "markLoop p a r res u cs = Some (x, cs') \<Longrightarrow> length cs' = length cs"
  by (induction cs arbitrary: cs') (auto simp: Let_def split: if_splits)

lemma recordToolCallOutcome_length:
  "length (snd (recordToolCallOutcome d now p h)) \<le>
     max (length h) (rl_historySize (resolveLoopDetectionConfig (to_config p)))"
  by (auto simp: recordToolCallOutcome_def Let_def length_trimHistory case_prod_unfold split: option.split)

text \<open>The recording operations of one session as events, all under one configuration.\<close>

datatype history_event =
  HistCall int string jsval "string option" "string option"
| HistOutcome int tool_outcome

fun historyStep :: "(string \<Rightarrow> string) \<Rightarrow> loop_config option \<Rightarrow> tool_call list \<Rightarrow> history_event \<Rightarrow> tool_call list" where
  "historyStep d cfg h (HistCall now t p callId run) = recordToolCall d now t p callId cfg run h"
| "historyStep d cfg h (HistOutcome now p) = snd (recordToolCallOutcome d now (p\<lparr>to_config := cfg\<rparr>) h)"

definition historyBounded :: "loop_config option \<Rightarrow> tool_call list \<Rightarrow> bool" where
  "historyBounded cfg h \<longleftrightarrow> length h \<le> rl_historySize (resolveLoopDetectionConfig cfg)"

interpretation hist: invariant_system "historyStep d cfg" "historyBounded cfg" for d cfg
proof
  show "historyBounded cfg (historyStep d cfg h e)" if "historyBounded cfg h" for h e
  proof (cases e)
    case (HistCall now t p callId run)
    then show ?thesis by (simp add: historyBounded_def recordToolCall_def Let_def length_trimHistory)
  next
    case (HistOutcome now p)
    with that recordToolCallOutcome_length [of d now "p\<lparr>to_config := cfg\<rparr>" h]
    show ?thesis by (simp add: historyBounded_def)
  qed
qed

section \<open>A repeated call is recorded as a streak\<close>

text \<open>One round of an agent: the call is recorded, then its outcome.\<close>

definition callRound ::
  "(string \<Rightarrow> string) \<Rightarrow> loop_config option \<Rightarrow> string option \<Rightarrow> string \<Rightarrow> jsval \<Rightarrow> jsval \<Rightarrow>
   tool_call list \<Rightarrow> int \<times> string option \<Rightarrow> tool_call list" where
  "callRound d cfg run t p res h x =
     snd (recordToolCallOutcome d (fst x)
       \<lparr>to_toolName = t, to_toolParams = p, to_toolCallId = snd x, to_result = res, to_error = JUndef,
        to_config = cfg, to_runId = run\<rparr>
       (recordToolCall d (fst x) t p (snd x) cfg run h))"

definition roundRecord ::
  "(string \<Rightarrow> string) \<Rightarrow> string option \<Rightarrow> string \<Rightarrow> jsval \<Rightarrow> jsval \<Rightarrow> int \<times> string option \<Rightarrow> tool_call" where
  "roundRecord d run t p res x =
     \<lparr>tc_toolName = t, tc_argsHash = hashToolCall d t p, tc_toolCallId = snd x,
      tc_runId = normalizeRunId run, tc_resultHash = fst (hashToolOutcome d t p res JUndef),
      tc_unknownToolName = snd (hashToolOutcome d t p res JUndef), tc_timestamp = fst x\<rparr>"

lemma normalizeRunId_idem [simp]: "normalizeRunId (normalizeRunId r) = normalizeRunId r"
  by (cases r) (auto simp: normalizeRunId_def Let_def)

lemma trimHistory_snoc:
  "0 < n \<Longrightarrow> \<exists>pre. trimHistory n (h @ [x]) = pre @ [x] \<and> length pre = min (n - 1) (length h) \<and>
     pre = drop (length h + 1 - n) h"
  by (auto simp: trimHistory_def)

lemma callRound_spec:
  assumes r: "truthy (fst (hashToolOutcome d t p res JUndef))"
  shows "callRound d cfg run t p res h x =
    trimHistory (rl_historySize (resolveLoopDetectionConfig cfg)) (h @ [roundRecord d run t p res x])"
proof -
  define n where "n = rl_historySize (resolveLoopDetectionConfig cfg)"
  have "0 < n" unfolding n_def by (rule resolved_order)
  define call where "call = \<lparr>tc_toolName = t, tc_argsHash = hashToolCall d t p,
    tc_toolCallId = snd x, tc_runId = normalizeRunId run, tc_resultHash = None,
    tc_unknownToolName = None, tc_timestamp = fst x\<rparr>"
  obtain pre where pre: "trimHistory n (h @ [call]) = pre @ [call]" "length pre = min (n - 1) (length h)"
      "pre = drop (length h + 1 - n) h"
    using trimHistory_snoc [OF \<open>0 < n\<close>] by blast
  have rec1: "recordToolCall d (fst x) t p (snd x) cfg run h = pre @ [call]"
    using pre(1) by (simp add: recordToolCall_def Let_def n_def call_def)
  obtain rh u where o: "hashToolOutcome d t p res JUndef = (Some rh, u)"
    using r by (cases "hashToolOutcome d t p res JUndef") (auto simp: truthy_iff)
  have rr: "roundRecord d run t p res x = call\<lparr>tc_resultHash := Some rh, tc_unknownToolName := u\<rparr>"
    by (simp add: roundRecord_def call_def o)
  have "trimHistory n (pre @ [y]) = pre @ [y]" for y
    using pre(2) \<open>0 < n\<close> by (simp add: trimHistory_def)
  moreover have "trimHistory n (h @ [y]) = pre @ [y]" for y
    using pre(3) \<open>0 < n\<close> by (auto simp: trimHistory_def)
  ultimately show ?thesis
    using r by (simp add: callRound_def rec1 recordToolCallOutcome_def Let_def o rr n_def [symmetric])
      (simp add: call_def)
qed

lemma callRounds_suffix:
  assumes r: "truthy (fst (hashToolOutcome d t p res JUndef))"
    and n: "length xs \<le> rl_historySize (resolveLoopDetectionConfig cfg)"
  shows "\<exists>pre. foldl (callRound d cfg run t p res) h xs = pre @ map (roundRecord d run t p res) xs"
  using n
proof (induction xs rule: rev_induct)
  case Nil
  then show ?case by simp
next
  case (snoc x xs)
  then obtain pre where pre: "foldl (callRound d cfg run t p res) h xs = pre @ map (roundRecord d run t p res) xs"
    by auto
  let ?n = "rl_historySize (resolveLoopDetectionConfig cfg)"
  let ?l = "map (roundRecord d run t p res) (xs @ [x])"
  have "foldl (callRound d cfg run t p res) h (xs @ [x]) = trimHistory ?n (pre @ ?l)"
    by (simp add: pre callRound_spec [OF r])
  also have "trimHistory ?n (pre @ ?l) = drop (length (pre @ ?l) - ?n) pre @ ?l"
    using snoc.prems by (auto simp: trimHistory_def)
  finally show ?case by blast
qed

lemma streak_of_repeats:
  assumes r: "truthy y" and n: "0 < n"
    and o: "outcomesOf t a (rev h) = replicate n y @ rest"
  shows "n \<le> fst (getNoProgressStreak h t a)"
proof -
  obtain m where m: "n = Suc m" using n by (cases n) auto
  have "takeWhile (\<lambda>x. x = y) (replicate m y @ rest) = replicate m y @ takeWhile (\<lambda>x. x = y) rest"
    by (induction m) auto
  then show ?thesis using o by (simp add: getNoProgressStreak_def noProgressLoop_None m)
qed

lemma detect_breaker:
  assumes "rl_enabled (resolveLoopDetectionConfig cfg)"
    and "rl_globalCircuitBreakerThreshold (resolveLoopDetectionConfig cfg) \<le>
      fst (getNoProgressStreak (selectHistoryForScope h run) t (hashToolCall d t p))"
  shows "\<exists>sl. detectToolCallLoop d h t p cfg run = Stuck sl \<and> sl_level sl = Critical"
proof -
  define s where "s = selectHistoryForScope h run"
  define c where "c = resolveLoopDetectionConfig cfg"
  define cur where "cur = hashToolCall d t p"
  obtain un uname where u: "getUnknownToolRepeatStreak s t = (un, uname)" by fastforce
  obtain n latest where n: "getNoProgressStreak s t cur = (n, latest)" by fastforce
  have A: "rl_enabled c" "rl_globalCircuitBreakerThreshold c \<le> n"
    using assms n by (simp_all add: s_def c_def cur_def)
  show ?thesis
    unfolding detectToolCallLoop_def Let_def s_def [symmetric] c_def [symmetric]
      cur_def [symmetric] u n prod.case
    using A by (simp add: stuckAt_def)
qed

section \<open>Properties\<close>

definition onCfg :: "loop_config option" where
  "onCfg = Some (emptyLoopConfig\<lparr>lc_enabled := Some True, lc_warningThreshold := Some (Fin 1),
     lc_criticalThreshold := Some (Fin 2), lc_globalCircuitBreakerThreshold := Some (Fin 3),
     lc_historySize := Some (Fin 4)\<rparr>)"

lemmas loop_eval = onCfg_def emptyLoopConfig_def resolveLoopDetectionConfig_def asPositiveInt_def Let_def

text \<open>Tool calls that differ only in the order of object fields, at any depth of their
parameters, hash to the same call signature.\<close>

theorem tool_hash_field_order:
  assumes "jsSame v w"
  shows "hashToolCall digest toolName v = hashToolCall digest toolName w"
  using stableStringify_same [OF assms] by (simp add: hashToolCall_def digestStable_def)

theorem tool_hash_field_order_witness:
  "hashToolCall id ''read'' (JObj [(''path'', JStr ''a''), (''limit'', JInt 3)]) =
   hashToolCall id ''read'' (JObj [(''limit'', JInt 3), (''path'', JStr ''a'')])"
  by (rule tool_hash_field_order, rule jsSame_obj
      [of _ "[(''path'', JStr ''a''), (''limit'', JInt 3)]"])
    (auto intro: jsSame_refl)

text \<open>C17. A runaway loop is always blocked: when an agent repeats one call with one unchanging
outcome at least as often as the global circuit breaker allows (and the history can hold that many),
the next such call is refused with a critical verdict, whatever the history held before.\<close>

theorem tool_loop_blocked:
  assumes "rl_enabled (resolveLoopDetectionConfig cfg)"
    and "truthy (fst (hashToolOutcome d t p res JUndef))"
    and "rl_globalCircuitBreakerThreshold (resolveLoopDetectionConfig cfg) \<le> length xs"
    and "length xs \<le> rl_historySize (resolveLoopDetectionConfig cfg)"
  shows "\<exists>sl. detectToolCallLoop d (foldl (callRound d cfg run t p res) h xs) t p cfg run = Stuck sl \<and>
    sl_level sl = Critical"
proof -
  obtain pre where pre: "foldl (callRound d cfg run t p res) h xs = pre @ map (roundRecord d run t p res) xs"
    using callRounds_suffix [OF assms(2,4)] by blast
  let ?s = "selectHistoryForScope (pre @ map (roundRecord d run t p res) xs) run"
  let ?y = "fst (hashToolOutcome d t p res JUndef)"
  have s: "?s = selectHistoryForScope pre run @ map (roundRecord d run t p res) xs"
    by (auto simp: selectHistoryForScope_def roundRecord_def filter_id_conv)
  have "outcomesOf t (hashToolCall d t p) (rev (map (roundRecord d run t p res) xs)) =
      replicate (length xs) ?y"
    using assms(2) by (auto simp: outcomesOf_def roundRecord_def filter_map comp_def rev_map
        map_replicate_const)
  then have "outcomesOf t (hashToolCall d t p) (rev ?s) = replicate (length xs) ?y @
      outcomesOf t (hashToolCall d t p) (rev (selectHistoryForScope pre run))"
    unfolding s by (simp add: outcomesOf_def)
  moreover have "0 < length xs" using assms(3) resolved_order(3) [of cfg] by linarith
  ultimately have "length xs \<le> fst (getNoProgressStreak ?s t (hashToolCall d t p))"
    using streak_of_repeats [OF assms(2)] by blast
  with assms(3) have "rl_globalCircuitBreakerThreshold (resolveLoopDetectionConfig cfg) \<le>
      fst (getNoProgressStreak ?s t (hashToolCall d t p))" by linarith
  from detect_breaker [OF assms(1) this] show ?thesis unfolding pre .
qed

theorem tool_loop_blocked_witness:
  "\<exists>sl. detectToolCallLoop id (foldl (callRound id onCfg None ''read'' JNull (JStr ''eof''))
      [] [(1, None), (2, None), (3, None)]) ''read'' JNull onCfg None = Stuck sl \<and> sl_level sl = Critical"
  by (rule tool_loop_blocked)
    (simp_all add: loop_eval hashToolOutcome_def isPlainObject_def digestStable_def json_string_def truthy_def)

text \<open>C18. No critical verdict without evidence in the history of the same run: repeated attempts of
one unknown tool, an alternation of two calls whose outcomes never change, or as many records of this
very call with one and the same outcome as the critical threshold.\<close>

theorem tool_loop_critical_evidence:
  assumes "detectToolCallLoop d h t p cfg run = Stuck sl" "sl_level sl = Critical"
  shows "case sl_detector sl of
      UnknownToolRepeat \<Rightarrow> repeatsUnknown (selectHistoryForScope h run) t
        (rl_unknownToolThreshold (resolveLoopDetectionConfig cfg))
    | PingPong \<Rightarrow> alternates (selectHistoryForScope h run) (hashToolCall d t p)
        (rl_criticalThreshold (resolveLoopDetectionConfig cfg) - 1)
    | _ \<Rightarrow> sameOutcomes (selectHistoryForScope h run) t (hashToolCall d t p)
        (rl_criticalThreshold (resolveLoopDetectionConfig cfg))"
proof -
  define s where "s = selectHistoryForScope h run"
  define c where "c = resolveLoopDetectionConfig cfg"
  define cur where "cur = hashToolCall d t p"
  have order: "0 < rl_criticalThreshold c" "1 < rl_criticalThreshold c" "0 < rl_unknownToolThreshold c"
    using resolved_order [of cfg] by (simp_all add: c_def)
  have unknown: "repeatsUnknown s t (rl_unknownToolThreshold c)"
    if "rl_unknownToolThreshold c \<le> fst (getUnknownToolRepeatStreak s t)"
    using that getUnknownToolRepeatStreak_evidence [of s t "fst (getUnknownToolRepeatStreak s t)"
        "snd (getUnknownToolRepeatStreak s t)"] order(3) repeatsUnknown_mono [OF _ that] by simp
  have pingpong: "alternates s cur (rl_criticalThreshold c - 1)"
    if pp: "rl_criticalThreshold c \<le> pp_count (getPingPongStreak s cur)"
      "pp_noProgressEvidence (getPingPongStreak s cur)"
  proof -
    obtain n where n: "pp_count (getPingPongStreak s cur) = Suc n"
      using pp(1) order by (cases "pp_count (getPingPongStreak s cur)") auto
    from getPingPongStreak_evidence [OF pp(2) n] show ?thesis
      using pp(1) n by (auto intro: alternates_mono)
  qed
  have repeat: "sameOutcomes s t cur (rl_criticalThreshold c)"
    if "rl_criticalThreshold c \<le> fst (getNoProgressStreak s t cur)"
    using that getNoProgressStreak_evidence [of s t cur "fst (getNoProgressStreak s t cur)"
        "snd (getNoProgressStreak s t cur)"] order(1) sameOutcomes_mono [OF _ that] by simp
  from detect_critical [OF assms] show ?thesis
    unfolding s_def [symmetric] c_def [symmetric] cur_def [symmetric]
    using unknown pingpong repeat by (auto split: loop_detector.split)
qed

theorem tool_loop_critical_evidence_witness:
  "sameOutcomes (replicate 3 \<lparr>tc_toolName = ''t'', tc_argsHash = ''t:null'', tc_toolCallId = None,
      tc_runId = None, tc_resultHash = Some ''r'', tc_unknownToolName = None, tc_timestamp = 0\<rparr>) ''t'' ''t:null'' 2"
proof -
  let ?h = "replicate 3 \<lparr>tc_toolName = ''t'', tc_argsHash = ''t:null'', tc_toolCallId = None,
      tc_runId = None, tc_resultHash = Some ''r'', tc_unknownToolName = None, tc_timestamp = 0\<rparr>"
  let ?sl = "\<lparr>sl_level = Critical, sl_detector = GlobalCircuitBreaker, sl_count = 3,
      sl_message = loopMessage Critical GlobalCircuitBreaker ''t'' 3, sl_pairedToolName = None,
      sl_warningKey = ''global:t:t:null:r''\<rparr>"
  have d: "detectToolCallLoop id ?h ''t'' JNull onCfg None = Stuck ?sl"
    by (simp add: detectToolCallLoop_def loop_eval stuckAt_def selectHistoryForScope_def normalizeRunId_def
        hashToolCall_def digestStable_def getUnknownToolRepeatStreak_def getNoProgressStreak_def
        truthy_def numeral_3_eq_3 orString_def)
  from tool_loop_critical_evidence [OF d]
  show ?thesis
    by (simp add: loop_eval selectHistoryForScope_def hashToolCall_def digestStable_def normalizeRunId_def)
qed

text \<open>The history never outgrows the configured size: under one configuration every sequence of
recorded calls and outcomes, matched or not, keeps at most \<open>historySize\<close> records, and thresholds
resolve to positive values with warning below critical below the circuit breaker.\<close>

theorem tool_history_bounded:
  "length (foldl (historyStep d cfg) [] evs) \<le> rl_historySize (resolveLoopDetectionConfig cfg) \<and>
   0 < rl_warningThreshold (resolveLoopDetectionConfig cfg) \<and>
   rl_warningThreshold (resolveLoopDetectionConfig cfg) < rl_criticalThreshold (resolveLoopDetectionConfig cfg) \<and>
   rl_criticalThreshold (resolveLoopDetectionConfig cfg) <
     rl_globalCircuitBreakerThreshold (resolveLoopDetectionConfig cfg)"
proof -
  have "historyBounded cfg []" by (simp add: historyBounded_def)
  from hist.run_inv [OF this] have "historyBounded cfg (foldl (historyStep d cfg) [] evs)" .
  then show ?thesis using resolved_order by (simp add: historyBounded_def)
qed

end
