(* ===== verification/PipelineText.thy ===== *)
theory PipelineText
  imports JsValue
begin

text \<open>
  Templates and conditions of the pipeline executor, \<open>src/pipeline-registry/pipeline-executor.ts\<close>:
  \<open>interpolate\<close> and \<open>evaluateCondition\<close>, with the string conversions of JavaScript they use.
  A step's output is an object (what \<open>executeStep\<close> returns); other values have no fields here.
\<close>

section \<open>Context\<close>

type_synonym fields = "(string \<times> jsval) list"

record step_context =
  cx_outputs :: fields
  cx_inputs :: fields
  cx_env :: "fields option"

section \<open>Conversions\<close>

text \<open>\<open>String(v)\<close>\<close>

fun js_String :: "jsval \<Rightarrow> string" where
  "js_String JUndef = ''undefined''"
| "js_String JNull = ''null''"
| "js_String (JBool b) = (if b then ''true'' else ''false'')"
| "js_String (JInt i) = js_show_int i"
| "js_String (JNonFinite s) = s"
| "js_String (JBig i) = js_show_int i"
| "js_String (JStr s) = s"
| "js_String (JError name msg stack) = (if msg = [] then name else name @ '': '' @ msg)"
| "js_String (JArr vs) =
     js_join '','' (map (\<lambda>v. if v = JUndef \<or> v = JNull then [] else js_String v) vs)"
| "js_String (JObj fs) = ''[object Object]''"

definition js_truthy :: "jsval \<Rightarrow> bool" where
  "js_truthy v = (case v of
     JUndef \<Rightarrow> False | JNull \<Rightarrow> False | JBool b \<Rightarrow> b | JInt i \<Rightarrow> i \<noteq> 0 | JBig i \<Rightarrow> i \<noteq> 0
   | JNonFinite s \<Rightarrow> s \<noteq> ''NaN'' | JStr s \<Rightarrow> s \<noteq> [] | _ \<Rightarrow> True)"

definition hasOwn :: "jsval \<Rightarrow> string \<Rightarrow> bool" where
  "hasOwn v k = (case v of JObj fs \<Rightarrow> map_of fs k \<noteq> None | _ \<Rightarrow> False)"

definition fieldOf :: "fields \<Rightarrow> string \<Rightarrow> jsval" where
  "fieldOf fs k = (case map_of fs k of None \<Rightarrow> JUndef | Some v \<Rightarrow> v)"

section \<open>interpolate\<close>

type_synonym output_names = "(string \<times> string) list"

definition resolveStepPath ::
  "step_context \<Rightarrow> output_names option \<Rightarrow> string \<Rightarrow> string \<Rightarrow> string option" where
  "resolveStepPath ctx stepIdToOutputAs stepId field =
     (let direct = fieldOf (cx_outputs ctx) stepId;
          stepOutput =
            (if \<not> js_truthy direct \<or> \<not> hasOwn direct field then
               (case stepIdToOutputAs of
                  None \<Rightarrow> direct
                | Some names \<Rightarrow>
                    (case map_of names stepId of
                       None \<Rightarrow> direct
                     | Some outputAs \<Rightarrow> if outputAs = [] then direct else fieldOf (cx_outputs ctx) outputAs))
             else direct);
          resolvedField =
            (if js_truthy stepOutput \<and> \<not> hasOwn stepOutput field \<and> js_startsWith field ''output.''
             then drop 7 field else field)
      in if js_truthy stepOutput \<and> hasOwn stepOutput resolvedField
         then Some (js_String (jget stepOutput resolvedField)) else None)"

definition ownField :: "fields \<Rightarrow> string \<Rightarrow> string option" where
  "ownField fs k = map_option js_String (map_of fs k)"

text \<open>What the callback of \<open>replace\<close> puts for a path; \<open>None\<close> leaves the placeholder.\<close>

definition resolvePath :: "step_context \<Rightarrow> output_names option \<Rightarrow> string \<Rightarrow> string option" where
  "resolvePath ctx names path =
     (let parts = splitOn (CHR ''.'') (js_trim path); first = hd parts
      in if first = ''steps'' \<and> 3 \<le> length parts then
           resolveStepPath ctx names (parts ! 1) (js_join ''.'' (drop 2 parts))
         else if first = ''context'' \<and> 2 \<le> length parts then ownField (cx_inputs ctx) (parts ! 1)
         else if first = ''env'' \<and> 2 \<le> length parts then
           (case cx_env ctx of None \<Rightarrow> None | Some env \<Rightarrow> ownField env (parts ! 1))
         else if length parts = 1 then ownField (cx_inputs ctx) first
         else None)"

definition expandPath :: "step_context \<Rightarrow> output_names option \<Rightarrow> string \<Rightarrow> string" where
  "expandPath ctx names path =
     (case resolvePath ctx names path of Some s \<Rightarrow> s | None \<Rightarrow> ''{{'' @ path @ ''}}'')"

text \<open>A match of \<open>\{\{([^}]+)\}\}\<close> at the start of a string: the path and the rest.\<close>

definition placeholderAt :: "string \<Rightarrow> (string \<times> string) option" where
  "placeholderAt s =
     (if js_startsWith s ''{{'' then
        (let r = drop 2 s;
             path = takeWhile (\<lambda>c. c \<noteq> CHR ''}'') r;
             after = dropWhile (\<lambda>c. c \<noteq> CHR ''}'') r
         in if path \<noteq> [] \<and> js_startsWith after ''}}'' then Some (path, drop 2 after) else None)
      else None)"

lemma placeholderAt_shorter: "placeholderAt s = Some (p, r) \<Longrightarrow> length r < length s"
proof -
  assume a: "placeholderAt s = Some (p, r)"
  then have "js_startsWith s ''{{''" by (simp add: placeholderAt_def split: if_splits)
  then have "s \<noteq> []" by (auto simp: js_startsWith_def)
  moreover from a have "r = drop 2 (dropWhile (\<lambda>c. c \<noteq> CHR ''}'') (drop 2 s))"
    by (auto simp: placeholderAt_def Let_def split: if_splits)
  then have "length r \<le> length s - 2"
    using length_dropWhile_le [of "\<lambda>c. c \<noteq> CHR ''}''" "drop 2 s"] by simp
  ultimately show ?thesis by (cases s) auto
qed

function interpolate :: "string \<Rightarrow> step_context \<Rightarrow> output_names option \<Rightarrow> string" where
  "interpolate s ctx names =
     (case placeholderAt s of
        Some (path, rest) \<Rightarrow> expandPath ctx names path @ interpolate rest ctx names
      | None \<Rightarrow> (case s of [] \<Rightarrow> [] | c # cs \<Rightarrow> c # interpolate cs ctx names))"
  by pat_completeness auto
termination
  by (relation "measure (\<lambda>(s, _, _). length s)") (auto dest: placeholderAt_shorter)

declare interpolate.simps [simp del]

lemma no_placeholder: "\<not> js_includes s ''{{'' \<Longrightarrow> placeholderAt s = None"
  by (cases s) (auto simp: placeholderAt_def)

lemma interpolate_plain: "\<not> js_includes s ''{{'' \<Longrightarrow> interpolate s ctx names = s"
proof (induction s)
  case Nil
  then show ?case by (simp add: interpolate.simps [of "[]"] no_placeholder)
next
  case (Cons c cs)
  then have "placeholderAt (c # cs) = None" by (intro no_placeholder)
  with Cons show ?case by (subst interpolate.simps) simp
qed

section \<open>evaluateCondition\<close>

text \<open>\<open>/PAT/i\<close> for a lower-case literal: prefix test, test anywhere, and \<open>split\<close>.\<close>

definition prefixCI :: "string \<Rightarrow> string \<Rightarrow> bool" where
  "prefixCI pat s \<longleftrightarrow> map js_lower_char (take (length pat) s) = pat"

fun includesCI :: "string \<Rightarrow> string \<Rightarrow> bool" where
  "includesCI pat [] = (pat = [])"
| "includesCI pat (c # cs) = (prefixCI pat (c # cs) \<or> includesCI pat cs)"

fun splitCI :: "string \<Rightarrow> nat \<Rightarrow> string \<Rightarrow> string list" where
  "splitCI pat skip [] = [[]]"
| "splitCI pat (Suc k) (c # cs) = splitCI pat k cs"
| "splitCI pat 0 (c # cs) =
     (if prefixCI pat (c # cs) then [] # splitCI pat (length pat - 1) cs
      else (case splitCI pat 0 cs of [] \<Rightarrow> [[c]] | y # ys \<Rightarrow> (c # y) # ys))"

lemma splitCI_nonempty: "splitCI pat k s \<noteq> []"
  by (induction pat k s rule: splitCI.induct) (auto split: list.split)

lemma splitCI_length: "p \<in> set (splitCI pat k s) \<Longrightarrow> length p \<le> length s"
proof (induction pat k s arbitrary: p rule: splitCI.induct)
  case (3 pat c cs)
  then show ?case by (force split: if_splits list.splits)
qed (auto intro: le_SucI)

lemma splitCI_shorter: "includesCI pat s \<Longrightarrow> pat \<noteq> [] \<Longrightarrow> p \<in> set (splitCI pat 0 s) \<Longrightarrow> length p < length s"
proof (induction s arbitrary: p)
  case Nil
  then show ?case by simp
next
  case (Cons c cs)
  show ?case
  proof (cases "prefixCI pat (c # cs)")
    case True
    with Cons.prems(3) show ?thesis by (auto dest!: splitCI_length)
  next
    case False
    with Cons.prems have inc: "includesCI pat cs" by simp
    obtain y ys where y: "splitCI pat 0 cs = y # ys"
      using splitCI_nonempty by (cases "splitCI pat 0 cs") auto
    with False Cons.prems(3) have "p = c # y \<or> p \<in> set ys" by simp
    then consider "p = c # y" | "p \<in> set ys" by blast
    then show ?thesis
    proof cases
      case 1
      with Cons.IH [OF inc Cons.prems(2), of y] y show ?thesis by simp
    next
      case 2
      with Cons.IH [OF inc Cons.prems(2), of p] y show ?thesis by simp
    qed
  qed
qed

definition isDigit :: "char \<Rightarrow> bool" where
  "isDigit c \<longleftrightarrow> 48 \<le> (of_char c :: nat) \<and> (of_char c :: nat) \<le> 57"

definition isWord :: "char \<Rightarrow> bool" where
  "isWord c \<longleftrightarrow>
     (let n = (of_char c :: nat)
      in (48 \<le> n \<and> n \<le> 57) \<or> (65 \<le> n \<and> n \<le> 90) \<or> (97 \<le> n \<and> n \<le> 122) \<or> n = 95)"

definition digitsValue :: "string \<Rightarrow> int" where
  "digitsValue ds = foldl (\<lambda>a c. 10 * a + (of_char c - 48)) 0 ds"

text \<open>
  \<open>parseFloat\<close>, as far as \<open>isNaN(num)\<close> and \<open>num > 0\<close> see it: \<open>None\<close> when no number starts the
  string, otherwise whether it is positive.  (The exponent cannot change the sign; a positive literal
  that underflows to 0 is not modelled.)
\<close>

definition parseFloatPositive :: "string \<Rightarrow> bool option" where
  "parseFloatPositive s =
     (let t = js_trim_start s;
          negative = (t \<noteq> [] \<and> hd t = CHR ''-'');
          u = (if t \<noteq> [] \<and> (hd t = CHR ''-'' \<or> hd t = CHR ''+'') then tl t else t);
          whole = takeWhile isDigit u;
          rest = dropWhile isDigit u;
          frac = (if rest \<noteq> [] \<and> hd rest = CHR ''.'' then takeWhile isDigit (tl rest) else [])
      in if js_startsWith u ''Infinity'' then Some (\<not> negative)
         else if whole = [] \<and> frac = [] then None
         else Some (\<not> negative \<and> (\<exists>c \<in> set (whole @ frac). c \<noteq> CHR ''0'')))"

text \<open>\<open>/^(\w+)\s*([><=!]+)\s*(\d+)$/\<close>; neighbouring classes are disjoint, so there is one way to match.\<close>

definition isOpChar :: "char \<Rightarrow> bool" where
  "isOpChar c \<longleftrightarrow> c \<in> {CHR ''>'', CHR ''<'', CHR ''='', CHR ''!''}"

definition matchComparison :: "string \<Rightarrow> (string \<times> string \<times> string) option" where
  "matchComparison s =
     (let field = takeWhile isWord s;
          r1 = dropWhile js_ws (dropWhile isWord s);
          op = takeWhile isOpChar r1;
          r2 = dropWhile js_ws (dropWhile isOpChar r1)
      in if field \<noteq> [] \<and> op \<noteq> [] \<and> r2 \<noteq> [] \<and> (\<forall>c \<in> set r2. isDigit c)
         then Some (field, op, r2) else None)"

definition numberOf :: "jsval \<Rightarrow> jsnum option" where
  "numberOf v = (case v of
     JInt i \<Rightarrow> Some (jn_of_int i)
   | JNonFinite s \<Rightarrow> Some (if s = ''Infinity'' then PosInf else if s = ''-Infinity'' then NegInf else NaN)
   | _ \<Rightarrow> None)"

definition compareOp :: "string \<Rightarrow> jsnum \<Rightarrow> int \<Rightarrow> bool option" where
  "compareOp op val n =
     (if op = ''>'' then Some (jn_less (jn_of_int n) val)
      else if op = ''<'' then Some (jn_less val (jn_of_int n))
      else if op = ''>='' then Some (jn_less (jn_of_int n) val \<or> val = jn_of_int n)
      else if op = ''<='' then Some (jn_less val (jn_of_int n) \<or> val = jn_of_int n)
      else if op = ''=='' then Some (val = jn_of_int n)
      else if op = ''!='' then Some (val \<noteq> jn_of_int n) else None)"

definition assignFields :: "fields \<Rightarrow> fields \<Rightarrow> fields" where
  "assignFields flat fs = foldl (\<lambda>m (k, v). jm_set k v m) flat fs"

definition flatFields :: "step_context \<Rightarrow> fields" where
  "flatFields ctx =
     foldl (\<lambda>flat (_, val). case val of JObj fs \<Rightarrow> assignFields flat fs | _ \<Rightarrow> flat)
       (cx_inputs ctx) (cx_outputs ctx)"

definition evalBareField :: "string \<Rightarrow> step_context \<Rightarrow> bool" where
  "evalBareField condition ctx =
     (let flat = flatFields ctx;
          trimmed = js_trim condition;
          compared =
            (case matchComparison trimmed of
               Some (field, op, right) \<Rightarrow>
                 (case numberOf (fieldOf flat field) of
                    Some val \<Rightarrow> compareOp op val (digitsValue right) | None \<Rightarrow> None)
             | None \<Rightarrow> None)
      in case compared of
           Some b \<Rightarrow> b
         | None \<Rightarrow>
             if trimmed \<noteq> [] \<and> (\<forall>c \<in> set trimmed. isWord c) then
               (case fieldOf flat trimmed of
                  JBool b \<Rightarrow> b
                | v \<Rightarrow> (case numberOf v of Some n \<Rightarrow> jn_less (Fin 0) n | None \<Rightarrow> js_truthy v))
             else False)"

text \<open>
  The part of \<open>evaluateCondition\<close> after interpolation.  It calls \<open>evaluateCondition\<close> on the parts of a
  string without placeholders, where interpolation is the identity (\<open>interpolate_plain\<close>);
  \<open>evaluateCondition_code\<close> below is the recursive equation as the code has it.
\<close>

function evalResolved :: "string \<Rightarrow> bool" where
  "evalResolved result =
     (if includesCI ''or'' result then \<exists>p \<in> set (splitCI ''or'' 0 result). evalResolved (js_trim p)
      else if includesCI ''and'' result then \<forall>p \<in> set (splitCI ''and'' 0 result). evalResolved (js_trim p)
      else if js_trim result = ''true'' then True
      else if js_trim result = ''false'' then False
      else (case parseFloatPositive result of None \<Rightarrow> False | Some b \<Rightarrow> b))"
  by pat_completeness auto
termination
proof (relation "measure length")
  show "wf (measure (length :: string \<Rightarrow> nat))" by simp
next
  fix result p :: string
  assume "includesCI ''or'' result" "p \<in> set (splitCI ''or'' 0 result)"
  then have "length p < length result" by (intro splitCI_shorter) auto
  with length_js_trim [of p] show "(js_trim p, result) \<in> measure length" by simp
next
  fix result p :: string
  assume "includesCI ''and'' result" "p \<in> set (splitCI ''and'' 0 result)"
  then have "length p < length result" by (intro splitCI_shorter) auto
  with length_js_trim [of p] show "(js_trim p, result) \<in> measure length" by simp
qed

declare evalResolved.simps [simp del]

definition evaluateCondition :: "string \<Rightarrow> step_context \<Rightarrow> output_names option \<Rightarrow> bool" where
  "evaluateCondition condition ctx names =
     (let result = interpolate condition ctx names
      in if js_includes result ''{{'' then evalBareField condition ctx else evalResolved result)"

lemma js_includes_split: "js_includes (a @ p @ b) q \<or> \<not> js_includes p q"
proof -
  have tail: "js_includes s q \<Longrightarrow> js_includes (a @ s) q" for s
    by (induction a) auto
  have pre: "js_startsWith p q \<Longrightarrow> js_startsWith (p @ b) q" for p
  proof -
    assume s: "js_startsWith p q"
    then have "take (length q) p = q" by (simp add: js_startsWith_def)
    then have "length q \<le> length p" by (metis length_take min.absorb_iff2)
    with \<open>take (length q) p = q\<close> show ?thesis by (simp add: js_startsWith_def)
  qed
  have "js_includes p q \<Longrightarrow> js_includes (p @ b) q"
  proof (induction p)
    case Nil
    then have "q = []" by simp
    then show ?case by (cases b) (auto simp: js_startsWith_def)
  next
    case (Cons c p)
    then show ?case using pre [of "c # p"] by auto
  qed
  with tail [of "p @ b"] show ?thesis by auto
qed

lemma splitCI_part: "p \<in> set (splitCI pat k s) \<Longrightarrow> \<exists>a b. s = a @ p @ b"
proof -
  have gen: "(\<forall>p \<in> set (splitCI pat k s). \<exists>a b. s = a @ p @ b) \<and>
      (k = 0 \<longrightarrow> (\<exists>b. s = hd (splitCI pat k s) @ b))"
  proof (induction pat k s rule: splitCI.induct)
    case (2 pat k c cs)
    then show ?case by (metis Suc_neq_Zero append_Cons splitCI.simps(2))
  next
    case (3 pat c cs)
    show ?case
    proof (cases "prefixCI pat (c # cs)")
      case True
      have "\<exists>a b. c # cs = a @ p @ b" if "p \<in> set (splitCI pat (length pat - 1) cs)" for p
      proof -
        from 3(1) [OF True] that obtain a b where "cs = a @ p @ b" by auto
        then have "c # cs = (c # a) @ p @ b" by simp
        then show ?thesis by blast
      qed
      with True show ?thesis by auto
    next
      case False
      obtain y ys where y: "splitCI pat 0 cs = y # ys"
        using splitCI_nonempty by (cases "splitCI pat 0 cs") auto
      from 3(2) [OF False] y obtain b where b: "cs = y @ b" by auto
      have "\<exists>a b. c # cs = a @ p @ b" if "p \<in> set ys" for p
      proof -
        have "\<forall>p \<in> set (y # ys). \<exists>a b. cs = a @ p @ b" using 3(2) [OF False] y by simp
        with that obtain a b where "cs = a @ p @ b" by (meson list.set_intros(2))
        then have "c # cs = (c # a) @ p @ b" by simp
        then show ?thesis by blast
      qed
      moreover have "\<exists>a b'. c # cs = a @ (c # y) @ b'" using b by (intro exI [of _ "[]"] exI [of _ b]) simp
      ultimately show ?thesis using False y b by auto
    qed
  qed auto
  then show "p \<in> set (splitCI pat k s) \<Longrightarrow> \<exists>a b. s = a @ p @ b" by blast
qed

lemma js_trim_part: "\<exists>a b. s = a @ js_trim s @ b"
proof -
  obtain a where a: "s = a @ js_trim_start s"
    unfolding js_trim_start_def by (metis takeWhile_dropWhile_id)
  obtain b where "rev (js_trim_start s) = b @ dropWhile js_ws (rev (js_trim_start s))"
    by (metis takeWhile_dropWhile_id)
  then have "js_trim_start s = js_trim s @ rev b"
    unfolding js_trim_def js_trim_end_def by (metis rev_append rev_rev_ident)
  with a show ?thesis by metis
qed

text \<open>The recursive equation of \<open>evaluateCondition\<close> as the code has it.\<close>

lemma evaluateCondition_plain:
  assumes "\<not> js_includes s ''{{''" "p \<in> set (splitCI pat 0 s)"
  shows "evaluateCondition (js_trim p) ctx names = evalResolved (js_trim p)"
proof -
  obtain a b where s: "s = a @ p @ b" using splitCI_part [OF assms(2)] by blast
  obtain a' b' where p: "p = a' @ js_trim p @ b'" using js_trim_part by blast
  have "s = (a @ a') @ js_trim p @ (b' @ b)" using s p by (metis append_assoc)
  with assms(1) have "\<not> js_includes (js_trim p) ''{{''"
    by (metis js_includes_split)
  then show ?thesis by (simp add: evaluateCondition_def interpolate_plain)
qed

lemma evaluateCondition_code:
  "evaluateCondition condition ctx names =
     (let result = interpolate condition ctx names
      in if js_includes result ''{{'' then evalBareField condition ctx
         else if includesCI ''or'' result then
           \<exists>p \<in> set (splitCI ''or'' 0 result). evaluateCondition (js_trim p) ctx names
         else if includesCI ''and'' result then
           \<forall>p \<in> set (splitCI ''and'' 0 result). evaluateCondition (js_trim p) ctx names
         else if js_trim result = ''true'' then True
         else if js_trim result = ''false'' then False
         else (case parseFloatPositive result of None \<Rightarrow> False | Some b \<Rightarrow> b))"
proof (cases "js_includes (interpolate condition ctx names) ''{{''")
  case True
  then show ?thesis by (simp add: evaluateCondition_def)
next
  case False
  then have "evaluateCondition condition ctx names = evalResolved (interpolate condition ctx names)"
    by (simp add: evaluateCondition_def)
  with False show ?thesis
    by (simp add: Let_def evalResolved.simps [of "interpolate condition ctx names"]
        evaluateCondition_plain [OF False])
qed

section \<open>Resolved comparisons\<close>

text \<open>A string of digits, blanks and operator characters: what a comparison of two numbers is.\<close>

definition plainChar :: "char \<Rightarrow> bool" where
  "plainChar c \<longleftrightarrow> isDigit c \<or> c = CHR '' '' \<or> isOpChar c"

lemma js_digit_isDigit: "n < 10 \<Longrightarrow> isDigit (js_digit n)"
  by (simp add: isDigit_def js_digit_def)

lemma js_show_nat_digits: "c \<in> set (js_show_nat n) \<Longrightarrow> isDigit c"
proof (induction n rule: js_show_nat.induct)
  case (1 n)
  show ?case
  proof (cases "n < 10")
    case True
    with 1(2) js_digit_isDigit show ?thesis by (simp add: js_show_nat.simps [of n])
  next
    case False
    with 1 js_digit_isDigit [of "n mod 10"] show ?thesis
      by (auto simp: js_show_nat.simps [of n])
  qed
qed

lemma js_digit_zero:
  assumes "n < 10" shows "js_digit n = CHR ''0'' \<longleftrightarrow> n = 0"
proof -
  have "js_digit n = CHR ''0'' \<longleftrightarrow> (of_char (js_digit n) :: nat) = of_char (CHR ''0'')"
    by (simp only: of_char_eq_iff)
  also have "\<dots> \<longleftrightarrow> n = 0" using assms by (simp add: js_digit_def)
  finally show ?thesis .
qed

lemma js_show_nat_pos: "(\<exists>c \<in> set (js_show_nat n). c \<noteq> CHR ''0'') \<longleftrightarrow> 0 < n"
proof (induction n rule: js_show_nat.induct)
  case (1 n)
  show ?case
  proof (cases "n < 10")
    case True
    then show ?thesis by (simp add: js_show_nat.simps [of n] js_digit_zero)
  next
    case False
    then have "0 < n div 10" by simp
    with 1 [OF False] False show ?thesis by (auto simp: js_show_nat.simps [of n])
  qed
qed

lemma plainChar_cases: "plainChar c \<Longrightarrow> js_lower_char c \<notin> {CHR ''o'', CHR ''a''} \<and> c \<noteq> CHR ''{'' \<and> c \<noteq> CHR ''t'' \<and> c \<noteq> CHR ''f'' \<and> c \<noteq> CHR ''I'' \<and> c \<noteq> CHR ''-'' \<and> c \<noteq> CHR ''.'' \<and> c \<noteq> CHR ''+''"
  by (auto simp: plainChar_def isDigit_def isOpChar_def js_lower_char_def Let_def)

lemma plain_no_keyword:
  assumes "\<forall>c \<in> set s. plainChar c" "pat = ''or'' \<or> pat = ''and''"
  shows "\<not> includesCI pat s"
  using assms(1)
proof (induction s)
  case Nil
  with assms(2) show ?case by auto
next
  case (Cons c s)
  then have "\<not> prefixCI pat (c # s)"
    using assms(2) plainChar_cases [of c] by (auto simp: prefixCI_def)
  with Cons show ?case by simp
qed

lemma plain_no_braces: "\<forall>c \<in> set s. plainChar c \<Longrightarrow> \<not> js_includes s ''{{''"
proof (induction s)
  case (Cons c s)
  then have "c \<noteq> CHR ''{''" using plainChar_cases [of c] by simp
  with Cons show ?case by (simp add: js_startsWith_def)
qed simp

lemma trim_not_word:
  assumes "\<forall>c \<in> set s. plainChar c" "w = ''true'' \<or> w = ''false''"
  shows "js_trim s \<noteq> w"
proof
  assume e: "js_trim s = w"
  obtain a b where "s = a @ w @ b" using js_trim_part [of s] e by auto
  then have "hd w \<in> set s" using assms(2) by auto
  with assms plainChar_cases [of "hd w"] show False by auto
qed

text \<open>A comparison whose operands interpolation has already resolved is decided by its left operand
alone: \<open>a OP b\<close> holds exactly when \<open>a\<close> is positive, for every operator and every \<open>b\<close>.\<close>

theorem condition_reads_left_operand_only:
  assumes "op = ''>'' \<or> op = ''<'' \<or> op = ''>='' \<or> op = ''<='' \<or> op = ''=='' \<or> op = ''!=''"
  shows "evaluateCondition (js_show_nat a @ '' '' @ op @ '' '' @ js_show_nat b) ctx names \<longleftrightarrow> 0 < a"
proof -
  let ?s = "js_show_nat a @ '' '' @ op @ '' '' @ js_show_nat b"
  have plain: "\<forall>c \<in> set ?s. plainChar c"
    using assms js_show_nat_digits by (auto simp: plainChar_def isOpChar_def)
  obtain d ds where a: "js_show_nat a = d # ds" using js_show_nat_nonempty by (cases "js_show_nat a") auto
  have d: "isDigit d" using js_show_nat_digits [of d a] a by simp
  then have dws: "\<not> js_ws d" by (auto simp: js_ws_def isDigit_def)
  have start: "js_trim_start ?s = ?s" using dws by (simp add: js_trim_start_def a)
  have dsign: "d \<noteq> CHR ''-''" "d \<noteq> CHR ''+''" "d \<noteq> CHR ''I''" using d by (auto simp: isDigit_def)
  have tw: "takeWhile isDigit ?s = js_show_nat a" "dropWhile isDigit ?s = '' '' @ op @ '' '' @ js_show_nat b"
    using js_show_nat_digits [of _ a] by (simp_all add: isDigit_def)
  have "parseFloatPositive ?s = Some (\<exists>c \<in> set (js_show_nat a). c \<noteq> CHR ''0'')"
    unfolding parseFloatPositive_def start using tw dsign a by (simp add: Let_def js_startsWith_def)
  then have "parseFloatPositive ?s = Some (0 < a)" by (simp only: js_show_nat_pos)
  moreover have "evaluateCondition s ctx names = evalResolved s" if "\<forall>c \<in> set s. plainChar c" for s
    using plain_no_braces [OF that] by (simp add: evaluateCondition_def interpolate_plain)
  moreover have "evalResolved s = b" if "\<forall>c \<in> set s. plainChar c" "parseFloatPositive s = Some b" for s b
    using plain_no_keyword [OF that(1)] trim_not_word [OF that(1)] that(2)
    by (simp add: evalResolved.simps [of s])
  ultimately show ?thesis using plain by metis
qed

theorem condition_reads_left_operand_only_witness:
  "evaluateCondition (js_show_nat 3 @ '' '' @ ''<'' @ '' '' @ js_show_nat 1) \<lparr>cx_outputs = [], cx_inputs = [], cx_env = None\<rparr> None"
  using condition_reads_left_operand_only [where op = "''<''" and a = 3 and b = 1] by simp

end
