(* ===== verification/Pipeline.thy ===== *)
theory Pipeline
  imports PipelineText
begin

text \<open>
  The pipeline executor of MH-OS, \<open>src/pipeline-registry/pipeline-executor.ts\<close>, and its intent gate,
  \<open>src/pipeline-registry/intent-gate.ts\<close>.

  Everything outside the module is the record \<open>host\<close>: the skill registry on disk, the clock readings
  of each step, the date functions, SHA-256, and the free names the module uses without importing
  them (\<open>sessions_spawn\<close>, \<open>message\<close>, \<open>memory_search\<close>, \<open>feishu_doc\<close>, \<open>mkdirSync\<close>, \<open>output\<close>), which
  resolve to properties of the global object or fail with a ReferenceError.  The steps of one round
  start together, each up to its only tool call, and complete in an order the argument \<open>sched\<close> picks;
  no schedule is excluded.  Console output is left out.
\<close>

section \<open>Data\<close>

record skill_card =
  sk_action_verb :: string
  sk_target_object :: string

record pipeline_step =
  ps_id :: string
  ps_skill :: string
  ps_depends_on :: "string list"
  ps_condition :: "string option"
  ps_input_mapping :: "(string \<times> string) list option"
  ps_output_as :: string
  ps_compensating_action :: "string option"

datatype step_fail_policy = Compensate | PauseAndNotify | SkipContinue

record pipeline =
  pl_pipeline_id :: string
  pl_condition :: string
  pl_steps :: "pipeline_step list"
  pl_on_step_fail :: step_fail_policy

record pipeline_log_entry =
  le_exec_id :: string
  le_timestamp :: string
  le_pipeline_id :: string
  le_pipeline_step :: string
  le_skill_id :: string
  le_action_verb :: string
  le_input_mapping :: "(string \<times> string) list"
  le_resolved_inputs :: "(string \<times> string) list"
  le_input_hash :: string
  le_output :: jsval
  le_output_hash :: "string option"
  le_duration_ms :: int
  le_status :: string
  le_compensation_status :: string
  le_error :: "string option"

datatype tool_request =
  SessionsSpawn string jsval string
| SendMessage jsval jsval jsval
| MemorySearch jsval
| FeishuRead jsval
| FeishuWrite jsval jsval

record host =
  h_skill :: "string \<Rightarrow> skill_card option"
  h_tool :: "nat \<Rightarrow> tool_request \<Rightarrow> string + jsval"
  h_started :: "string \<Rightarrow> int"
  h_finished :: "string \<Rightarrow> int"
  h_iso :: "int \<Rightarrow> string"
  h_dateParse :: "string \<Rightarrow> int option"
  h_sha256 :: "string \<Rightarrow> string"
  h_mkdirSync :: bool
  h_output :: "jsval option"

datatype pipe_event =
  Started string
| Requested string tool_request
| Completed string
| Failed string string

record pipe_state =
  st_ctx :: step_context
  st_completed :: "string list"
  st_log :: "pipeline_log_entry list"
  st_logDir :: bool
  st_trace :: "pipe_event list"

section \<open>Numbers in strings\<close>

text \<open>\<open>Number(s)\<close> on decimal literals with fraction and exponent; other literals (hexadecimal and the
like) are NaN here.\<close>

definition js_Number :: "string \<Rightarrow> jsnum" where
  "js_Number s =
     (let t = js_trim s;
          negative = (t \<noteq> [] \<and> hd t = CHR ''-'');
          u = (if t \<noteq> [] \<and> (hd t = CHR ''-'' \<or> hd t = CHR ''+'') then tl t else t);
          whole = takeWhile isDigit u;
          r = dropWhile isDigit u;
          dot = (r \<noteq> [] \<and> hd r = CHR ''.'');
          frac = (if dot then takeWhile isDigit (tl r) else []);
          r = (if dot then dropWhile isDigit (tl r) else r);
          hasExp = (r \<noteq> [] \<and> (hd r = CHR ''e'' \<or> hd r = CHR ''E''));
          e = (if hasExp then tl r else []);
          eneg = (e \<noteq> [] \<and> hd e = CHR ''-'');
          ed = (if e \<noteq> [] \<and> (hd e = CHR ''-'' \<or> hd e = CHR ''+'') then tl e else e);
          mant = of_int (digitsValue (whole @ frac)) / (10::rat) ^ length frac;
          scaled = (if eneg then mant / 10 ^ nat (digitsValue ed) else mant * 10 ^ nat (digitsValue ed))
      in if t = [] then Fin 0
         else if u = ''Infinity'' then (if negative then NegInf else PosInf)
         else if whole = [] \<and> frac = [] then NaN
         else if hasExp \<and> ed \<noteq> [] \<and> (\<forall>c \<in> set ed. isDigit c) then Fin (if negative then - scaled else scaled)
         else if r = [] then Fin (if negative then - mant else mant)
         else NaN)"

fun jn_scale :: "rat \<Rightarrow> jsnum \<Rightarrow> jsnum" where
  "jn_scale k (Fin r) = Fin (r * k)"
| "jn_scale k x = x"

text \<open>\<open>JSON.stringify(v)\<close>: \<open>None\<close> is the undefined it returns for undefined.\<close>

fun jsonStringify :: "jsval \<Rightarrow> string option" where
  "jsonStringify JUndef = None"
| "jsonStringify JNull = Some ''null''"
| "jsonStringify (JBool b) = Some (if b then ''true'' else ''false'')"
| "jsonStringify (JInt i) = Some (js_show_int i)"
| "jsonStringify (JNonFinite s) = Some ''null''"
| "jsonStringify (JBig i) = Some (js_show_int i)"
| "jsonStringify (JStr s) = Some (json_string s)"
| "jsonStringify (JError name msg stack) = Some ''{}''"
| "jsonStringify (JArr vs) =
     Some (''['' @ js_join '','' (map (\<lambda>v. case jsonStringify v of None \<Rightarrow> ''null'' | Some s \<Rightarrow> s) vs) @ '']'')"
| "jsonStringify (JObj fs) =
     Some (''{'' @ js_join '','' (concat (map (\<lambda>(k, v). case jsonStringify v of
        None \<Rightarrow> [] | Some s \<Rightarrow> [json_string k @ '':'' @ s]) fs)) @ ''}'')"

section \<open>The intent gate\<close>

record intent_result =
  in_category :: jsval
  in_confidence :: jsval
  in_matchedKeyword :: jsval
  in_ts :: jsval

definition orElse :: "jsval \<Rightarrow> jsval \<Rightarrow> jsval" where
  "orElse v d = (if v = JUndef \<or> v = JNull then d else v)"

definition idleIntent :: "int \<Rightarrow> intent_result" where
  "idleIntent now = \<lparr>in_category = JStr ''idle'', in_confidence = JInt 1, in_matchedKeyword = JUndef,
     in_ts = JInt now\<rparr>"

text \<open>
  The parsed intent file, \<open>None\<close> when reading or parsing throws; a null document throws on the first
  property access.  A timestamp that is not a number makes the age NaN, which is not above the limit.
\<close>

definition readIntent :: "int \<Rightarrow> jsval option \<Rightarrow> intent_result" where
  "readIntent now file =
     (case file of
        None \<Rightarrow> idleIntent now
      | Some data \<Rightarrow>
          if data = JNull \<or> data = JUndef then idleIntent now
          else if (case orElse (jget data ''ts'') (JInt 0) of JInt ts \<Rightarrow> 30 * 60 * 1000 < now - ts | _ \<Rightarrow> False)
          then idleIntent now
          else \<lparr>in_category = orElse (jget data ''category'') (JStr ''idle''),
                in_confidence = orElse (jget data ''confidence'') (JInt 1),
                in_matchedKeyword = orElse (jget data ''matchedKeyword'') JUndef,
                in_ts = orElse (jget data ''ts'') (JInt now)\<rparr>)"

datatype gate_decision = GateAllowed intent_result | GateBlocked string intent_result

definition checkIntentGate :: "int \<Rightarrow> jsval option \<Rightarrow> gate_decision" where
  "checkIntentGate now file =
     (let intent = readIntent now file
      in if in_category intent = JStr ''idle'' then
           GateBlocked (''intent=idle (confidence '' @ js_String (in_confidence intent) @ ''), skipping dispatch'') intent
         else GateAllowed intent)"

definition intentLabel :: "intent_result \<Rightarrow> string" where
  "intentLabel i =
     js_String (in_category i) @
     (if js_truthy (in_matchedKeyword i)
      then '' (matched: '' @ [CHR 34] @ js_String (in_matchedKeyword i) @ [CHR 34] @ '')'' else []) @
     '' [confidence: '' @ js_String (in_confidence i) @ '']''"

section \<open>One step\<close>

definition resolveInputs :: "pipeline_step \<Rightarrow> step_context \<Rightarrow> (string \<times> string) list" where
  "resolveInputs step ctx =
     (case ps_input_mapping step of None \<Rightarrow> []
      | Some im \<Rightarrow> map (\<lambda>(key, tmpl). (key, interpolate tmpl ctx None)) im)"

definition inputOf :: "(string \<times> string) list \<Rightarrow> string \<Rightarrow> jsval" where
  "inputOf r k = (case map_of r k of None \<Rightarrow> JUndef | Some s \<Rightarrow> JStr s)"

definition inputOr :: "(string \<times> string) list \<Rightarrow> string \<Rightarrow> string \<Rightarrow> string" where
  "inputOr r k d = (case map_of r k of None \<Rightarrow> d | Some s \<Rightarrow> if s = [] then d else s)"

definition preview :: "jsval \<Rightarrow> string" where
  "preview v = take 80 (js_String (orElse v (JStr [])))"

record started_step =
  ss_startTime :: int
  ss_skill :: skill_card
  ss_inputs :: "(string \<times> string) list"
  ss_request :: "tool_request option"
  ss_result :: jsval
  ss_prior :: jsval
  ss_stale :: bool
  ss_scanOnly :: bool

definition staleThreshold :: "(string \<times> string) list \<Rightarrow> jsval" where
  "staleThreshold r =
     (case map_of r ''stale_threshold_hours'' of
        Some s \<Rightarrow> if s = [] then JInt 4 else JStr s | None \<Rightarrow> JInt 4)"

definition isStale :: "host \<Rightarrow> int \<Rightarrow> (string \<times> string) list \<Rightarrow> bool" where
  "isStale h now r =
     (case map_of r ''created_at'' of
        None \<Rightarrow> False
      | Some createdAt \<Rightarrow>
          if createdAt = [] then False
          else
            (let ageMs = (case h_dateParse h createdAt of None \<Rightarrow> NaN | Some t \<Rightarrow> jn_of_int (now - t));
                 hours = (case staleThreshold r of JStr s \<Rightarrow> js_Number s | _ \<Rightarrow> Fin 4)
             in jn_less (jn_scale (60 * 60 * 1000) hours) ageMs))"

definition isScanOnly :: "(string \<times> string) list \<Rightarrow> step_context \<Rightarrow> bool" where
  "isScanOnly r ctx \<longleftrightarrow>
     map_of r ''scan_only'' = Some ''true'' \<or>
     (case cx_env ctx of None \<Rightarrow> False | Some env \<Rightarrow> map_of env ''scan_only'' = Some (JBool True))"

text \<open>
  The tool call of a step, by the verb of its skill card.  In the \<open>send\<close> branch the local
  \<open>const message\<close>, the text to send, hides the tool of that name, so that the call throws before
  anything is requested; the \<open>write\<close> branch has no such local and calls the tool.
\<close>

definition stepRequest ::
  "host \<Rightarrow> int \<Rightarrow> skill_card \<Rightarrow> (string \<times> string) list \<Rightarrow> step_context \<Rightarrow>
   string + tool_request option" where
  "stepRequest h now sk r ctx =
     (let verb = sk_action_verb sk
      in if verb = ''dispatch'' then
           Inr (if isScanOnly r ctx \<or> isStale h now r then None
                else Some (SessionsSpawn (inputOr r ''agent_id'' ''canmou'') (inputOf r ''task'')
                       (inputOr r ''run_id'' (''dispatch-'' @ js_show_int now))))
         else if verb = ''send'' then Inl ''message is not a function''
         else if verb = ''read'' then
           (let source = inputOr r ''source'' ''memory''
            in Inr (if source = ''memory'' then Some (MemorySearch (inputOf r ''query''))
                    else if source = ''feishu_doc'' then Some (FeishuRead (inputOf r ''doc_token''))
                    else None))
         else if verb = ''write'' then
           (let dest = inputOr r ''destination'' ''memory''
            in Inr (if dest = ''feishu_doc'' then Some (FeishuWrite (inputOf r ''doc_token'') (inputOf r ''content''))
                    else if dest = ''qq'' then
                      Some (SendMessage (JStr ''qqbot'') (inputOf r ''target'') (inputOf r ''content''))
                    else None))
         else Inr None)"

text \<open>
  \<open>executeStep\<close> up to its first await.  \<open>ss_prior\<close> is \<open>ctx.outputs[step.output_as]\<close> as the step finds
  it when it starts.
\<close>

definition startStep ::
  "host \<Rightarrow> nat \<Rightarrow> pipeline_step \<Rightarrow> step_context \<Rightarrow> (string + started_step) \<times> tool_request list" where
  "startStep h n step ctx =
     (case h_skill h (ps_skill step) of
        None \<Rightarrow> (Inl (''Skill Card not found for skill: '' @ ps_skill step), [])
      | Some sk \<Rightarrow>
          (let now = h_started h (ps_id step);
               r = resolveInputs step ctx;
               mk = (\<lambda>req res. \<lparr>ss_startTime = now, ss_skill = sk, ss_inputs = r, ss_request = req,
                             ss_result = res, ss_prior = fieldOf (cx_outputs ctx) (ps_output_as step),
                             ss_stale = isStale h now r, ss_scanOnly = isScanOnly r ctx\<rparr>)
           in case stepRequest h now sk r ctx of
                Inl e \<Rightarrow> (Inl e, [])
              | Inr None \<Rightarrow> (Inr (mk None JUndef), [])
              | Inr (Some q) \<Rightarrow> (case h_tool h n q of Inl e \<Rightarrow> (Inl e, [q]) | Inr v \<Rightarrow> (Inr (mk (Some q) v), [q]))))"

definition jsTruthyField :: "string \<Rightarrow> jsval \<Rightarrow> fields" where
  "jsTruthyField k v = (if js_truthy v then [(k, v)] else [])"

text \<open>
  The output object of each verb.  \<open>prior\<close> is \<open>ctx.outputs[step.output_as]\<close> when the object is built:
  after the await of a spawning step, at once for a scan-only or stale one, which awaits nothing.
\<close>

definition priorOutput :: "pipeline_step \<Rightarrow> started_step \<Rightarrow> step_context \<Rightarrow> jsval" where
  "priorOutput step ss ctx =
     (if ss_request ss = None then ss_prior ss else fieldOf (cx_outputs ctx) (ps_output_as step))"

definition dispatchOutput ::
  "host \<Rightarrow> pipeline_step \<Rightarrow> started_step \<Rightarrow> int \<Rightarrow> jsval \<Rightarrow> string + jsval" where
  "dispatchOutput h step ss now prior =
     (let r = ss_inputs ss;
          spawned = (ss_request ss \<noteq> None);
          priority = inputOr r ''priority'' ''normal'';
          sortScore = (if ss_stale ss then 0 else if priority = ''high'' then 1
                       else if priority = ''low'' then 3 else 2);
          key = (if spawned
                 then (let k = jget (ss_result ss) ''session_key''
                       in if js_truthy k then k else jget (ss_result ss) ''runId'')
                 else JUndef);
          status = (if ss_scanOnly ss then ''scan_only'' else if ss_stale ss then ''stale'' else ''dispatched'')
      in if spawned \<and> (ss_result ss = JUndef \<or> ss_result ss = JNull)
         then Inl (''Cannot read properties of '' @ js_String (ss_result ss) @ '' (reading '' @ [CHR 39] @
                  ''session_key'' @ [CHR 39] @ '')'')
         else Inr (JObj (assignFields (case prior of JObj fs \<Rightarrow> fs | _ \<Rightarrow> [])
           ([(''skill_id'', JStr (ps_skill step)),
             (''action_verb'', JStr (sk_action_verb (ss_skill ss))),
             (''target_object'', JStr (sk_target_object (ss_skill ss))),
             (''inputs'', JObj (map (\<lambda>(k, v). (k, JStr v)) r)),
             (''pending_count'', inputOf r ''pending_count''),
             (''pending_tasks'', inputOf r ''pending_tasks''),
             (''new_complete_count'', inputOf r ''new_complete_count''),
             (''timeout_count'', inputOf r ''timeout_count''),
             (''dispatched'', JBool (\<not> ss_scanOnly ss \<and> \<not> ss_stale ss)),
             (''stale'', JBool (ss_stale ss)),
             (''stale_threshold_hours'', staleThreshold r),
             (''sort_score'', JInt sortScore),
             (''priority'', inputOf r ''priority'')] @
            jsTruthyField ''spawn_session_key'' key @
            [(''dispatched_at'', JStr (h_iso h now)), (''status'', JStr status)]))))"

definition plainOutput ::
  "host \<Rightarrow> pipeline_step \<Rightarrow> started_step \<Rightarrow> int \<Rightarrow> jsval" where
  "plainOutput h step ss now =
     (let r = ss_inputs ss; verb = sk_action_verb (ss_skill ss); res = ss_result ss;
          base = [(''skill_id'', JStr (ps_skill step)), (''action_verb'', JStr verb),
                  (''target_object'', JStr (sk_target_object (ss_skill ss)))];
          stamp = JStr (h_iso h now)
      in JObj (base @
           (if verb = ''send'' then
              [(''channel'', JStr (inputOr r ''channel'' ''qqbot'')), (''target'', inputOf r ''target''),
               (''message_preview'', JStr (preview (inputOf r ''message''))),
               (''message_length'', JInt (int (length (js_String (orElse (inputOf r ''message'') (JStr [])))))),
               (''queued_at'', stamp), (''status'', JStr (if js_truthy res then ''sent'' else ''failed''))]
            else if verb = ''read'' then
              [(''source'', JStr (inputOr r ''source'' ''memory'')), (''result'', res), (''read_at'', stamp),
               (''status'', JStr (if js_truthy res then ''ok'' else ''not_found''))]
            else if verb = ''write'' then
              [(''destination'', JStr (inputOr r ''destination'' ''memory'')),
               (''content_preview'', JStr (preview (inputOf r ''content''))), (''written_at'', stamp),
               (''status'', JStr (if js_truthy res then ''ok'' else ''failed''))]
            else
              [(''inputs'', JObj (map (\<lambda>(k, v). (k, JStr v)) r)), (''status'', JStr ''executed''),
               (''executed_at'', stamp)])))"

text \<open>\<open>execLog\<close> creates the missing log directory with \<open>mkdirSync\<close>, which the module does not import.\<close>

definition execLog :: "host \<Rightarrow> pipeline_log_entry \<Rightarrow> pipe_state \<Rightarrow> string option \<times> pipe_state" where
  "execLog h e st =
     (if \<not> st_logDir st \<and> \<not> h_mkdirSync h then (Some ''mkdirSync is not defined'', st)
      else (None, st\<lparr>st_logDir := True, st_log := st_log st @ [e]\<rparr>))"

definition execId :: "string list \<Rightarrow> int \<Rightarrow> string" where
  "execId parts now = js_join ''.'' (parts @ [js_show_int now])"

definition mappingOf :: "pipeline_step \<Rightarrow> (string \<times> string) list" where
  "mappingOf step = (case ps_input_mapping step of None \<Rightarrow> [] | Some im \<Rightarrow> im)"

text \<open>\<open>executeStep\<close> after its await: the output, the log entry, the returned value.\<close>

definition finishStep ::
  "host \<Rightarrow> string \<Rightarrow> pipeline_step \<Rightarrow> started_step \<Rightarrow> pipe_state \<Rightarrow> (string + jsval) \<times> pipe_state" where
  "finishStep h pipelineId step ss st =
     (let now = h_finished h (ps_id step);
          r = ss_inputs ss
      in case (if sk_action_verb (ss_skill ss) = ''dispatch''
               then dispatchOutput h step ss now (priorOutput step ss (st_ctx st))
               else Inr (plainOutput h step ss now)) of
           Inl e \<Rightarrow> (Inl e, st)
         | Inr out \<Rightarrow>
             (case execLog h
                \<lparr>le_exec_id = execId [pipelineId, ps_id step] now, le_timestamp = h_iso h now,
                 le_pipeline_id = pipelineId, le_pipeline_step = ps_id step, le_skill_id = ps_skill step,
                 le_action_verb = sk_action_verb (ss_skill ss), le_input_mapping = mappingOf step,
                 le_resolved_inputs = r,
                 le_input_hash = take 16 (h_sha256 h (stableStringify (JObj (map (\<lambda>(k, v). (k, JStr v)) r)))),
                 le_output = out,
                 le_output_hash = Some (take 16 (h_sha256 h (case jsonStringify out of None \<Rightarrow> [] | Some s \<Rightarrow> s))),
                 le_duration_ms = now - ss_startTime ss, le_status = ''success'',
                 le_compensation_status = ''n/a'', le_error = None\<rparr> st of
                (Some e, st) \<Rightarrow> (Inl e, st)
              | (None, st) \<Rightarrow> (Inr out, st)))"

section \<open>Failure of a step\<close>

definition failureEntry ::
  "host \<Rightarrow> string \<Rightarrow> pipeline_step \<Rightarrow> string list \<Rightarrow> string \<Rightarrow> jsval \<Rightarrow> string \<Rightarrow> string \<Rightarrow> string option \<Rightarrow>
   pipeline_log_entry" where
  "failureEntry h pipelineId step idParts verb out status compensation err =
     (let now = h_finished h (ps_id step)
      in \<lparr>le_exec_id = execId idParts now, le_timestamp = h_iso h now, le_pipeline_id = pipelineId,
          le_pipeline_step = ps_id step, le_skill_id = ps_skill step, le_action_verb = verb,
          le_input_mapping = mappingOf step, le_resolved_inputs = [], le_input_hash = [], le_output = out,
          le_output_hash = None, le_duration_ms = 0, le_status = status,
          le_compensation_status = compensation, le_error = err\<rparr>)"

definition compensationEntries :: "host \<Rightarrow> pipeline \<Rightarrow> pipe_state \<Rightarrow> pipeline_log_entry list" where
  "compensationEntries h pl st =
     concat (map (\<lambda>s. case ps_compensating_action s of
         None \<Rightarrow> []
       | Some a \<Rightarrow> if a = [] then [] else
           [failureEntry h (pl_pipeline_id pl) s [pl_pipeline_id pl, ps_id s, ''compensate''] ''compensate''
              (JObj [(''compensating_action'', JStr a)]) ''success'' ''triggered'' None])
       (rev (filter (\<lambda>s. ps_id s \<in> set (st_completed st)) (pl_steps pl))))"

fun execLogs :: "host \<Rightarrow> pipeline_log_entry list \<Rightarrow> pipe_state \<Rightarrow> string option \<times> pipe_state" where
  "execLogs h [] st = (None, st)"
| "execLogs h (e # es) st =
     (case execLog h e st of (Some err, st) \<Rightarrow> (Some err, st) | (None, st) \<Rightarrow> execLogs h es st)"

definition markCompleted :: "string \<Rightarrow> pipe_state \<Rightarrow> pipe_state" where
  "markCompleted i st =
     st\<lparr>st_completed := (if i \<in> set (st_completed st) then st_completed st else st_completed st @ [i]),
        st_trace := st_trace st @ [Completed i]\<rparr>"

text \<open>
  The catch block.  Its classification of the error reads \<open>output\<close>, which is declared inside the try
  block and out of scope here: a name of the global object, or a ReferenceError that leaves the block
  before the error policy is consulted.  \<open>Some e\<close> is the error the step's promise rejects with.
\<close>

definition handleStepFailure ::
  "host \<Rightarrow> pipeline \<Rightarrow> pipeline_step \<Rightarrow> string \<Rightarrow> pipe_state \<Rightarrow> string option \<times> pipe_state" where
  "handleStepFailure h pl step errorMsg st =
     (let st = st\<lparr>st_trace := st_trace st @ [Failed (ps_id step) errorMsg]\<rparr>;
          pid = pl_pipeline_id pl;
          out = JObj [(''error'', JStr errorMsg)]
      in case h_output h of
           None \<Rightarrow> (Some ''output is not defined'', st)
         | Some _ \<Rightarrow>
             (case pl_on_step_fail pl of
                SkipContinue \<Rightarrow>
                  (case execLog h (failureEntry h pid step [pid, ps_id step] ''skip'' out ''failed'' ''skipped''
                          (Some errorMsg)) st of
                     (Some e, st) \<Rightarrow> (Some e, st)
                   | (None, st) \<Rightarrow> (None, markCompleted (ps_id step) st))
              | Compensate \<Rightarrow>
                  (case execLogs h (compensationEntries h pl st @
                          [failureEntry h pid step [pid, ps_id step] ''fail'' out ''failed'' ''triggered''
                             (Some errorMsg)]) st of
                     (Some e, st) \<Rightarrow> (Some e, st)
                   | (None, st) \<Rightarrow> (Some errorMsg, st))
              | PauseAndNotify \<Rightarrow> (Some errorMsg, st)))"

section \<open>Rounds\<close>

definition getReadySteps ::
  "pipeline_step list \<Rightarrow> string list \<Rightarrow> step_context \<Rightarrow> output_names option \<Rightarrow> pipeline_step list" where
  "getReadySteps steps completed ctx names =
     filter (\<lambda>step.
        ps_id step \<notin> set completed \<and>
        (\<forall>dep \<in> set (ps_depends_on step). dep \<in> set completed) \<and>
        (case ps_condition step of
           None \<Rightarrow> True | Some c \<Rightarrow> c = [] \<or> evaluateCondition c ctx names)) steps"

text \<open>All ready steps start, in list order, on the same context.\<close>

fun startAll ::
  "host \<Rightarrow> pipeline_step list \<Rightarrow> pipe_state \<Rightarrow> (pipeline_step \<times> (string + started_step)) list \<times> pipe_state" where
  "startAll h [] st = ([], st)"
| "startAll h (step # steps) st =
     (case startStep h (length (st_trace st)) step (st_ctx st) of
        (res, reqs) \<Rightarrow>
          (case startAll h steps (st\<lparr>st_trace := st_trace st @ Started (ps_id step) #
                  map (Requested (ps_id step)) reqs\<rparr>) of
             (rs, st) \<Rightarrow> ((step, res) # rs, st)))"

definition settleStep ::
  "host \<Rightarrow> pipeline \<Rightarrow> pipeline_step \<times> (string + started_step) \<Rightarrow> pipe_state \<Rightarrow> string option \<times> pipe_state" where
  "settleStep h pl p st =
     (case p of (step, res) \<Rightarrow>
        (case (case res of Inl e \<Rightarrow> (Inl e, st) | Inr ss \<Rightarrow> finishStep h (pl_pipeline_id pl) step ss st) of
           (Inl e, st) \<Rightarrow> handleStepFailure h pl step e st
         | (Inr out, st) \<Rightarrow>
             (None, markCompleted (ps_id step)
                (st\<lparr>st_ctx := (st_ctx st)\<lparr>cx_outputs := jm_set (ps_output_as step) out (cx_outputs (st_ctx st))\<rparr>\<rparr>))))"

text \<open>Completion in schedule order; the first rejection is what \<open>Promise.all\<close> rejects with.\<close>

fun settleAll ::
  "host \<Rightarrow> pipeline \<Rightarrow> (pipeline_step \<times> (string + started_step)) list \<Rightarrow> pipe_state \<Rightarrow> string option \<times> pipe_state" where
  "settleAll h pl [] st = (None, st)"
| "settleAll h pl (p # ps) st =
     (case settleStep h pl p st of
        (e1, st) \<Rightarrow> (case settleAll h pl ps st of (e2, st) \<Rightarrow> (if e1 \<noteq> None then e1 else e2, st)))"

text \<open>A schedule is any list of positions; what it does not name completes last, in order.\<close>

definition arrange :: "nat list \<Rightarrow> 'a list \<Rightarrow> 'a list" where
  "arrange ks xs =
     (let ks = remdups (filter (\<lambda>k. k < length xs) ks)
      in map (\<lambda>k. xs ! k) (ks @ filter (\<lambda>k. k \<notin> set ks) [0..<length xs]))"

definition runRound ::
  "host \<Rightarrow> nat list \<Rightarrow> pipeline \<Rightarrow> pipeline_step list \<Rightarrow> pipe_state \<Rightarrow> string option \<times> pipe_state" where
  "runRound h order pl ready st =
     (case startAll h ready st of (rs, st) \<Rightarrow> settleAll h pl (arrange order rs) st)"

section \<open>What a round does to the set of completed steps\<close>

lemma arrange_set [simp]: "set (arrange ks xs) = set xs"
proof -
  define js where "js = remdups (filter (\<lambda>k. k < length xs) ks)"
  have "set js \<subseteq> {0..<length xs}" by (auto simp: js_def)
  then have "set (js @ filter (\<lambda>k. k \<notin> set js) [0..<length xs]) = {0..<length xs}" by auto
  then show ?thesis
    unfolding arrange_def Let_def js_def [symmetric] set_map by (simp add: nth_image)
qed

lemma execLog_keeps [simp]:
  "st_completed (snd (execLog h e st)) = st_completed st" "st_trace (snd (execLog h e st)) = st_trace st"
  "st_ctx (snd (execLog h e st)) = st_ctx st"
  by (simp_all add: execLog_def)

lemma execLogs_keeps [simp]:
  "st_completed (snd (execLogs h es st)) = st_completed st" "st_trace (snd (execLogs h es st)) = st_trace st"
  "st_ctx (snd (execLogs h es st)) = st_ctx st"
proof -
  have "st_completed (snd (execLogs h es st)) = st_completed st \<and>
      st_trace (snd (execLogs h es st)) = st_trace st \<and> st_ctx (snd (execLogs h es st)) = st_ctx st"
  proof (induction h es st rule: execLogs.induct)
    case (2 h e es st)
    obtain r st' where l: "execLog h e st = (r, st')" by fastforce
    from execLog_keeps [of h e st] have "st_completed st' = st_completed st" "st_trace st' = st_trace st"
      "st_ctx st' = st_ctx st" by (simp_all add: l)
    with 2 l show ?case by (cases r) auto
  qed simp
  then show "st_completed (snd (execLogs h es st)) = st_completed st"
    "st_trace (snd (execLogs h es st)) = st_trace st" "st_ctx (snd (execLogs h es st)) = st_ctx st" by auto
qed

lemma finishStep_keeps [simp]:
  "st_completed (snd (finishStep h p step ss st)) = st_completed st"
  "st_trace (snd (finishStep h p step ss st)) = st_trace st"
  "st_ctx (snd (finishStep h p step ss st)) = st_ctx st"
proof -
  have "st_completed (snd (finishStep h p step ss st)) = st_completed st \<and>
      st_trace (snd (finishStep h p step ss st)) = st_trace st \<and>
      st_ctx (snd (finishStep h p step ss st)) = st_ctx st"
    by (auto simp: finishStep_def Let_def execLog_def split: sum.split option.split)
  then show "st_completed (snd (finishStep h p step ss st)) = st_completed st"
    "st_trace (snd (finishStep h p step ss st)) = st_trace st"
    "st_ctx (snd (finishStep h p step ss st)) = st_ctx st" by auto
qed

text \<open>Settling a step either completes it or fails it, and adds only such events.\<close>

definition settleEvents :: "pipe_state \<Rightarrow> pipe_state \<Rightarrow> pipe_event list \<Rightarrow> bool" where
  "settleEvents st st' evs \<longleftrightarrow>
     st_trace st' = st_trace st @ evs \<and>
     set (st_completed st') = set (st_completed st) \<union> {i. Completed i \<in> set evs} \<and>
     (distinct (st_completed st) \<longrightarrow> distinct (st_completed st')) \<and>
     (\<forall>ev \<in> set evs. (\<exists>i. ev = Completed i) \<or> (\<exists>i m. ev = Failed i m)) \<and>
     cx_env (st_ctx st') = cx_env (st_ctx st) \<and> cx_inputs (st_ctx st') = cx_inputs (st_ctx st)"

lemma settleEvents_refl: "settleEvents st st []"
  by (simp add: settleEvents_def)

lemma settleEvents_trans:
  "settleEvents st st1 es \<Longrightarrow> settleEvents st1 st2 fs \<Longrightarrow> settleEvents st st2 (es @ fs)"
  by (auto simp: settleEvents_def)

lemma markCompleted_simps [simp]:
  "set (st_completed (markCompleted i st)) = insert i (set (st_completed st))"
  "st_trace (markCompleted i st) = st_trace st @ [Completed i]"
  "st_ctx (markCompleted i st) = st_ctx st"
  "distinct (st_completed st) \<Longrightarrow> distinct (st_completed (markCompleted i st))"
  by (auto simp: markCompleted_def)

lemma handleStepFailure_events:
  assumes "handleStepFailure h pl step msg st = (e, st')"
  shows "settleEvents st st'
    (Failed (ps_id step) msg # (if e = None then [Completed (ps_id step)] else []))"
  using assms
  by (auto simp: handleStepFailure_def Let_def settleEvents_def split: option.splits step_fail_policy.splits
      prod.splits dest!: arg_cong [of "execLog _ _ _" _ snd] arg_cong [of "execLogs _ _ _" _ snd])

lemma handleStepFailure_error:
  "handleStepFailure h pl step msg st = (e, st') \<Longrightarrow>
   h_output h = None \<or> pl_on_step_fail pl \<noteq> SkipContinue \<Longrightarrow> e \<noteq> None"
  by (auto simp: handleStepFailure_def Let_def split: option.splits step_fail_policy.splits prod.splits)

lemma settleStep_events:
  assumes "settleStep h pl (step, res) st = (e, st')"
  shows "\<exists>evs. settleEvents st st' evs \<and> (e = None \<longrightarrow> Completed (ps_id step) \<in> set evs) \<and>
    (\<forall>i. Completed i \<in> set evs \<longrightarrow> i = ps_id step) \<and>
    (h_output h = None \<or> pl_on_step_fail pl \<noteq> SkipContinue \<longrightarrow> e = None \<longrightarrow> (\<forall>i m. Failed i m \<notin> set evs))"
proof (cases res)
  case (Inl m)
  then have "handleStepFailure h pl step m st = (e, st')" using assms by (simp add: settleStep_def)
  from handleStepFailure_events [OF this] handleStepFailure_error [OF this] show ?thesis
    by (intro exI conjI) (assumption, auto)
next
  case (Inr ss)
  obtain r st1 where f: "finishStep h (pl_pipeline_id pl) step ss st = (r, st1)" by fastforce
  have k: "st_completed st1 = st_completed st" "st_trace st1 = st_trace st" "st_ctx st1 = st_ctx st"
    using finishStep_keeps [of h "pl_pipeline_id pl" step ss st] by (simp_all add: f)
  show ?thesis
  proof (cases r)
    case (Inl m)
    then have "handleStepFailure h pl step m st1 = (e, st')" using assms f Inr by (simp add: settleStep_def)
    from handleStepFailure_events [OF this] handleStepFailure_error [OF this] k show ?thesis
      by (intro exI [of _ "Failed (ps_id step) m # (if e = None then [Completed (ps_id step)] else [])"])
        (auto simp: settleEvents_def)
  next
    case (Inr out)
    with assms f \<open>res = Inr ss\<close> k have "settleEvents st st' [Completed (ps_id step)]"
      by (auto simp: settleStep_def settleEvents_def)
    then show ?thesis by (intro exI conjI) (assumption, auto)
  qed
qed

lemma settleAll_events:
  "settleAll h pl ps st = (e, st') \<Longrightarrow>
   \<exists>evs. settleEvents st st' evs \<and> (e = None \<longrightarrow> (\<forall>p \<in> set ps. Completed (ps_id (fst p)) \<in> set evs)) \<and>
     (\<forall>i. Completed i \<in> set evs \<longrightarrow> i \<in> ps_id ` fst ` set ps) \<and>
     (h_output h = None \<or> pl_on_step_fail pl \<noteq> SkipContinue \<longrightarrow> e = None \<longrightarrow> (\<forall>i m. Failed i m \<notin> set evs))"
proof (induction h pl ps st arbitrary: e st' rule: settleAll.induct)
  case (1 h pl st)
  then show ?case using settleEvents_refl by (intro exI [of _ "[]"]) auto
next
  case (2 h pl p ps st)
  obtain e1 st1 where s1: "settleStep h pl p st = (e1, st1)" by fastforce
  obtain e2 st2 where s2: "settleAll h pl ps st1 = (e2, st2)" by fastforce
  have "settleStep h pl (fst p, snd p) st = (e1, st1)" using s1 by simp
  from settleStep_events [OF this] obtain es where es: "settleEvents st st1 es" "e1 = None \<longrightarrow> Completed (ps_id (fst p)) \<in> set es"
      "\<forall>i. Completed i \<in> set es \<longrightarrow> i = ps_id (fst p)"
      "h_output h = None \<or> pl_on_step_fail pl \<noteq> SkipContinue \<longrightarrow> e1 = None \<longrightarrow> (\<forall>i m. Failed i m \<notin> set es)"
    by (elim exE conjE) (rule that)
  from 2(1) [OF s1 [symmetric] s2] obtain fs where
    fs: "settleEvents st1 st2 fs" "e2 = None \<longrightarrow> (\<forall>p \<in> set ps. Completed (ps_id (fst p)) \<in> set fs)"
      "\<forall>i. Completed i \<in> set fs \<longrightarrow> i \<in> ps_id ` fst ` set ps"
      "h_output h = None \<or> pl_on_step_fail pl \<noteq> SkipContinue \<longrightarrow> e2 = None \<longrightarrow> (\<forall>i m. Failed i m \<notin> set fs)"
    by (elim exE conjE) (rule that)
  have st': "st' = st2" and en: "e = None \<longrightarrow> e1 = None \<and> e2 = None"
    using 2(2) s1 s2 by (auto split: if_splits)
  have "settleEvents st st' (es @ fs)" using settleEvents_trans [OF es(1) fs(1)] by (simp add: st')
  moreover have "e = None \<longrightarrow> (\<forall>p' \<in> set (p # ps). Completed (ps_id (fst p')) \<in> set (es @ fs))"
    using en es(2) fs(2) by simp
  moreover have "\<forall>i. Completed i \<in> set (es @ fs) \<longrightarrow> i \<in> ps_id ` fst ` set (p # ps)"
    using es(3) fs(3) by simp
  moreover have "h_output h = None \<or> pl_on_step_fail pl \<noteq> SkipContinue \<longrightarrow> e = None \<longrightarrow> (\<forall>i m. Failed i m \<notin> set (es @ fs))"
    using en es(4) fs(4) by simp
  ultimately show ?case by (intro exI [of _ "es @ fs"] conjI)
qed

lemma startAll_steps: "startAll h steps st = (rs, st') \<Longrightarrow> map fst rs = steps"
  by (induction h steps st arbitrary: rs st' rule: startAll.induct) (auto split: prod.splits)

lemma startAll_keeps:
  "startAll h steps st = (rs, st') \<Longrightarrow> st_completed st' = st_completed st \<and> st_ctx st' = st_ctx st"
  by (induction h steps st arbitrary: rs st' rule: startAll.induct) (auto split: prod.splits)

lemma runRound_completes:
  assumes "runRound h order pl ready st = (e, st')"
  shows "set (st_completed st) \<subseteq> set (st_completed st')"
    and "e = None \<Longrightarrow> ps_id ` set ready \<subseteq> set (st_completed st')"
    and "set (st_completed st') \<subseteq> set (st_completed st) \<union> ps_id ` set ready"
    and "distinct (st_completed st) \<Longrightarrow> distinct (st_completed st')"
proof -
  obtain rs st1 where s: "startAll h ready st = (rs, st1)" by fastforce
  with assms have "settleAll h pl (arrange order rs) st1 = (e, st')" by (simp add: runRound_def)
  from settleAll_events [OF this] obtain evs where
    evs: "settleEvents st1 st' evs" "e = None \<longrightarrow> (\<forall>p \<in> set rs. Completed (ps_id (fst p)) \<in> set evs)"
      "\<forall>i. Completed i \<in> set evs \<longrightarrow> i \<in> ps_id ` fst ` set rs" by auto
  show "set (st_completed st) \<subseteq> set (st_completed st')"
    using evs(1) startAll_keeps [OF s] by (auto simp: settleEvents_def)
  have "fst ` set rs = set ready" using startAll_steps [OF s] by (metis list.set_map)
  then show "set (st_completed st') \<subseteq> set (st_completed st) \<union> ps_id ` set ready"
    using evs(1,3) startAll_keeps [OF s] by (auto simp: settleEvents_def)
  show "distinct (st_completed st) \<Longrightarrow> distinct (st_completed st')"
    using evs(1) startAll_keeps [OF s] by (simp add: settleEvents_def)
  show "ps_id ` set ready \<subseteq> set (st_completed st')" if "e = None"
  proof
    fix i assume "i \<in> ps_id ` set ready"
    then obtain p where "p \<in> set rs" "ps_id (fst p) = i"
      using startAll_steps [OF s] by (metis (no_types, lifting) image_iff list.set_map)
    with evs that show "i \<in> set (st_completed st')" by (auto simp: settleEvents_def)
  qed
qed

definition openSteps :: "pipeline \<Rightarrow> pipe_state \<Rightarrow> nat" where
  "openSteps pl st = length (filter (\<lambda>s. ps_id s \<notin> set (st_completed st)) (pl_steps pl))"

lemma runRound_progress:
  assumes "runRound h order pl ready st = (None, st')"
    and "ready = getReadySteps (pl_steps pl) (st_completed st) ctx names" "ready \<noteq> []"
  shows "openSteps pl st' < openSteps pl st"
proof -
  note C = runRound_completes [OF assms(1)]
  obtain s where s: "s \<in> set ready" using assms(3) by (cases ready) auto
  then have s': "s \<in> set (pl_steps pl)" "ps_id s \<notin> set (st_completed st)"
    by (auto simp: assms(2) getReadySteps_def)
  have "ps_id s \<in> set (st_completed st')" using C(2) s by auto
  let ?P = "\<lambda>s. ps_id s \<notin> set (st_completed st')" and ?Q = "\<lambda>s. ps_id s \<notin> set (st_completed st)"
  have f: "filter ?P (pl_steps pl) = filter ?P (filter ?Q (pl_steps pl))"
    using C(1) by (auto simp: intro!: filter_cong)
  have "\<exists>x \<in> set (filter ?Q (pl_steps pl)). \<not> ?P x"
    using s' \<open>ps_id s \<in> set (st_completed st')\<close> by auto
  from length_filter_less [of _ "filter ?Q (pl_steps pl)" ?P] this
  have "length (filter ?P (filter ?Q (pl_steps pl))) < length (filter ?Q (pl_steps pl))" by auto
  then show ?thesis unfolding openSteps_def f .
qed

section \<open>The executor\<close>

definition outputNames :: "pipeline \<Rightarrow> output_names" where
  "outputNames pl = foldl (\<lambda>m s. jm_set (ps_id s) (ps_output_as s) m) [] (pl_steps pl)"

function runRounds ::
  "host \<Rightarrow> (nat \<Rightarrow> nat list) \<Rightarrow> pipeline \<Rightarrow> nat \<Rightarrow> pipe_state \<Rightarrow> string option \<times> pipe_state" where
  "runRounds h sched pl rnd st =
     (if length (st_completed st) < length (pl_steps pl) then
        (let ready = getReadySteps (pl_steps pl) (st_completed st) (st_ctx st) (Some (outputNames pl))
         in if ready = [] then (None, st)
            else (case runRound h (sched rnd) pl ready st of
                    (Some e, st') \<Rightarrow> (Some e, st')
                  | (None, st') \<Rightarrow> runRounds h sched pl (Suc rnd) st'))
      else (None, st))"
  by pat_completeness auto
termination
proof (relation "measure (\<lambda>(h, sched, pl, rnd, st). openSteps pl st)", goal_cases)
  case 1
  then show ?case by simp
next
  case (2 h sched pl rnd st ready p st')
  then show ?case using runRound_progress [of h "sched rnd" pl ready st st'] by simp
qed

declare runRounds.simps [simp del]

definition startState :: "bool \<Rightarrow> step_context \<Rightarrow> pipe_state" where
  "startState logDir ctx =
     \<lparr>st_ctx = ctx, st_completed = [], st_log = [], st_logDir = logDir, st_trace = []\<rparr>"

text \<open>
  \<open>executePipeline\<close>: the returned context, or the error the promise rejects with, and the state the
  run leaves.  \<open>now\<close> and \<open>intentFile\<close> are what the intent gate reads.
\<close>

definition executePipeline ::
  "host \<Rightarrow> (nat \<Rightarrow> nat list) \<Rightarrow> bool \<Rightarrow> int \<Rightarrow> jsval option \<Rightarrow> pipeline \<Rightarrow> step_context \<Rightarrow> fields option \<Rightarrow>
   (string + step_context) \<times> pipe_state" where
  "executePipeline h sched logDir now intentFile pl initial env =
     (let ctx = (case env of None \<Rightarrow> initial | Some e \<Rightarrow> initial\<lparr>cx_env := Some e\<rparr>)
      in case checkIntentGate now intentFile of
           GateBlocked reason intent \<Rightarrow> (Inr ctx, startState logDir ctx)
         | GateAllowed intent \<Rightarrow>
             (let ctx = (if in_category intent = JStr ''query''
                         then ctx\<lparr>cx_env := Some (jm_set ''scan_only'' (JBool True)
                                (case cx_env ctx of None \<Rightarrow> [] | Some e \<Rightarrow> e))\<rparr>
                         else ctx)
              in case runRounds h sched pl 1 (startState logDir ctx) of
                   (Some e, st) \<Rightarrow> (Inl e, st)
                 | (None, st) \<Rightarrow> (Inr (st_ctx st), st)))"

definition loadPipelineFromIndex :: "pipeline list option \<Rightarrow> string \<Rightarrow> pipeline option" where
  "loadPipelineFromIndex pipelines pipelineId =
     find (\<lambda>p. pl_pipeline_id p = pipelineId) (case pipelines of None \<Rightarrow> [] | Some ps \<Rightarrow> ps)"

section \<open>Invariants of a run\<close>

fun startedIds :: "pipe_event list \<Rightarrow> string list" where
  "startedIds [] = []"
| "startedIds (Started i # es) = i # startedIds es"
| "startedIds (_ # es) = startedIds es"

lemma startedIds_append [simp]: "startedIds (xs @ ys) = startedIds xs @ startedIds ys"
  by (induction xs rule: startedIds.induct) auto

lemma startedIds_iff: "startedIds es = [] \<longleftrightarrow> (\<forall>i. Started i \<notin> set es)"
  by (induction es rule: startedIds.induct) auto

lemma startedIds_none:
  "\<forall>ev \<in> set es. \<forall>i. ev \<noteq> Started i \<Longrightarrow> startedIds es = []"
  by (induction es rule: startedIds.induct) auto

definition orderedStarts :: "pipeline_step list \<Rightarrow> pipe_event list \<Rightarrow> bool" where
  "orderedStarts steps tr \<longleftrightarrow>
     (\<forall>k < length tr. \<forall>i. tr ! k = Started i \<longrightarrow>
        (\<exists>s \<in> set steps. ps_id s = i \<and> (\<forall>d \<in> set (ps_depends_on s). Completed d \<in> set (take k tr))))"

lemma orderedStarts_snoc:
  "orderedStarts steps (tr @ [ev]) \<longleftrightarrow>
     orderedStarts steps tr \<and>
     (\<forall>i. ev = Started i \<longrightarrow>
        (\<exists>s \<in> set steps. ps_id s = i \<and> (\<forall>d \<in> set (ps_depends_on s). Completed d \<in> set tr)))"
  by (auto simp: orderedStarts_def nth_append less_Suc_eq)

lemma orderedStarts_append_other:
  "orderedStarts steps tr \<Longrightarrow> \<forall>ev \<in> set es. \<forall>i. ev \<noteq> Started i \<Longrightarrow> orderedStarts steps (tr @ es)"
proof (induction es rule: rev_induct)
  case (snoc e es)
  then show ?case by (simp add: orderedStarts_snoc flip: append_assoc)
qed simp

definition completedMatch :: "pipe_state \<Rightarrow> bool" where
  "completedMatch st \<longleftrightarrow> set (st_completed st) = {i. Completed i \<in> set (st_trace st)}"

text \<open>No tool call that dispatches an agent.\<close>

definition noSpawn :: "pipe_event list \<Rightarrow> bool" where
  "noSpawn tr \<longleftrightarrow> (\<forall>i a t r. Requested i (SessionsSpawn a t r) \<notin> set tr)"

definition scanOnlyCtx :: "step_context \<Rightarrow> bool" where
  "scanOnlyCtx ctx \<longleftrightarrow>
     (case cx_env ctx of None \<Rightarrow> False | Some env \<Rightarrow> map_of env ''scan_only'' = Some (JBool True))"

lemma startStep_scanOnly:
  "scanOnlyCtx ctx \<Longrightarrow> SessionsSpawn a t r \<notin> set (snd (startStep h n step ctx))"
  by (auto simp: startStep_def stepRequest_def Let_def isScanOnly_def scanOnlyCtx_def
      split: option.splits sum.splits if_splits)

text \<open>What starting the ready steps appends to the trace.\<close>

lemma startAll_trace:
  assumes "startAll h ready st = (rs, st')"
    and "\<forall>s \<in> set ready. s \<in> set steps \<and> (\<forall>d \<in> set (ps_depends_on s). Completed d \<in> set (st_trace st))"
    and "orderedStarts steps (st_trace st)"
  shows "orderedStarts steps (st_trace st') \<and> startedIds (st_trace st') = startedIds (st_trace st) @ map ps_id ready \<and>
    {i. Completed i \<in> set (st_trace st')} = {i. Completed i \<in> set (st_trace st)} \<and>
    (scanOnlyCtx (st_ctx st) \<longrightarrow> noSpawn (st_trace st) \<longrightarrow> noSpawn (st_trace st'))"
  using assms
proof (induction h ready st arbitrary: rs st' rule: startAll.induct)
  case (1 h st)
  then show ?case by simp
next
  case (2 h step ready st)
  obtain res reqs where s: "startStep h (length (st_trace st)) step (st_ctx st) = (res, reqs)" by fastforce
  define st1 where "st1 = st\<lparr>st_trace := st_trace st @ Started (ps_id step) # map (Requested (ps_id step)) reqs\<rparr>"
  obtain rs' where r: "startAll h ready st1 = (rs', st')"
    using 2(2) s by (auto simp: st1_def split: prod.splits)
  have o1: "orderedStarts steps (st_trace st1)"
  proof -
    have "orderedStarts steps (st_trace st @ [Started (ps_id step)])"
      using 2(3,4) by (auto simp: orderedStarts_snoc)
    from orderedStarts_append_other [OF this, of "map (Requested (ps_id step)) reqs"]
    show ?thesis by (auto simp: st1_def)
  qed
  have deps: "\<forall>s \<in> set ready. s \<in> set steps \<and> (\<forall>d \<in> set (ps_depends_on s). Completed d \<in> set (st_trace st1))"
    using 2(3) by (auto simp: st1_def)
  have sp: "scanOnlyCtx (st_ctx st) \<longrightarrow> noSpawn (st_trace st) \<longrightarrow> noSpawn (st_trace st1)"
    using startStep_scanOnly [of "st_ctx st" _ _ _ h "length (st_trace st)" step] s
    by (auto simp: noSpawn_def st1_def)
  have sid: "startedIds (map (Requested (ps_id step)) reqs) = []"
    by (rule startedIds_none) auto
  have "orderedStarts steps (st_trace st') \<and> startedIds (st_trace st') = startedIds (st_trace st1) @ map ps_id ready \<and>
    {i. Completed i \<in> set (st_trace st')} = {i. Completed i \<in> set (st_trace st1)} \<and>
    (scanOnlyCtx (st_ctx st1) \<longrightarrow> noSpawn (st_trace st1) \<longrightarrow> noSpawn (st_trace st'))"
    by (rule 2(1) [OF s [symmetric], folded st1_def, OF r deps o1])
  then show ?case using sp sid by (auto simp: st1_def)
qed

definition runOk :: "pipeline \<Rightarrow> pipe_state \<Rightarrow> bool" where
  "runOk pl st \<longleftrightarrow>
     orderedStarts (pl_steps pl) (st_trace st) \<and> completedMatch st \<and> distinct (startedIds (st_trace st)) \<and>
     set (st_completed st) \<subseteq> set (startedIds (st_trace st))"

text \<open>One round: starts are justified, each step starts at most once.\<close>

lemma runRound_ok:
  assumes ok: "runOk pl st" and started: "set (startedIds (st_trace st)) \<subseteq> set (st_completed st)"
    and ids: "distinct (map ps_id (pl_steps pl))"
    and ready: "ready = getReadySteps (pl_steps pl) (st_completed st) ctx names"
    and run: "runRound h order pl ready st = (e, st')"
  shows "runOk pl st'" "e = None \<Longrightarrow> set (startedIds (st_trace st')) \<subseteq> set (st_completed st')"
    "scanOnlyCtx (st_ctx st) \<Longrightarrow> noSpawn (st_trace st) \<Longrightarrow> noSpawn (st_trace st') \<and> scanOnlyCtx (st_ctx st')"
proof -
  obtain rs st1 where s: "startAll h ready st = (rs, st1)" by fastforce
  with run have "settleAll h pl (arrange order rs) st1 = (e, st')" by (simp add: runRound_def)
  from settleAll_events [OF this] obtain evs where
    evs: "settleEvents st1 st' evs" "e = None \<longrightarrow> (\<forall>p \<in> set rs. Completed (ps_id (fst p)) \<in> set evs)" by auto
  have deps: "\<forall>s \<in> set ready. s \<in> set (pl_steps pl) \<and>
      (\<forall>d \<in> set (ps_depends_on s). Completed d \<in> set (st_trace st))"
    using ok by (auto simp: ready getReadySteps_def runOk_def completedMatch_def)
  note T = startAll_trace [OF s deps, unfolded] and K = startAll_keeps [OF s]
  have T1: "orderedStarts (pl_steps pl) (st_trace st1)"
      "startedIds (st_trace st1) = startedIds (st_trace st) @ map ps_id ready"
      "{i. Completed i \<in> set (st_trace st1)} = {i. Completed i \<in> set (st_trace st)}"
      "scanOnlyCtx (st_ctx st) \<longrightarrow> noSpawn (st_trace st) \<longrightarrow> noSpawn (st_trace st1)"
    using startAll_trace [OF s deps] ok by (auto simp: runOk_def)
  have other: "\<forall>ev \<in> set evs. \<forall>i. ev \<noteq> Started i" using evs(1) by (fastforce simp: settleEvents_def)
  have tr: "st_trace st' = st_trace st1 @ evs" using evs(1) by (simp add: settleEvents_def)
  have sid: "startedIds (st_trace st') = startedIds (st_trace st) @ map ps_id ready"
    using T1(2) startedIds_none [OF other] by (simp add: tr)
  have "orderedStarts (pl_steps pl) (st_trace st')"
    unfolding tr by (rule orderedStarts_append_other [OF T1(1) other])
  moreover have "completedMatch st'"
    using ok K T1(3) evs(1) by (auto simp: runOk_def completedMatch_def settleEvents_def)
  moreover have "distinct (map ps_id ready)"
    using ids unfolding ready getReadySteps_def by (rule distinct_map_filter)
  then have "distinct (startedIds (st_trace st'))"
    using ok started sid by (auto simp: runOk_def ready getReadySteps_def)
  moreover have "set (st_completed st') \<subseteq> set (startedIds (st_trace st'))"
    using ok runRound_completes(3) [OF run] by (auto simp: runOk_def sid)
  ultimately show "runOk pl st'" by (simp add: runOk_def)
  show "set (startedIds (st_trace st')) \<subseteq> set (st_completed st')" if "e = None"
    using runRound_completes [OF run] started that by (auto simp: sid)
  show "noSpawn (st_trace st') \<and> scanOnlyCtx (st_ctx st')"
    if "scanOnlyCtx (st_ctx st)" "noSpawn (st_trace st)"
  proof -
    have "noSpawn (st_trace st')"
      using T1(4) that evs(1) by (fastforce simp: tr noSpawn_def settleEvents_def)
    moreover have "cx_env (st_ctx st') = cx_env (st_ctx st)" using evs(1) K by (simp add: settleEvents_def)
    ultimately show ?thesis using that by (simp add: scanOnlyCtx_def)
  qed
qed

lemma runRounds_ok:
  "runOk pl st \<Longrightarrow> set (startedIds (st_trace st)) \<subseteq> set (st_completed st) \<Longrightarrow>
    runRounds h sched pl rnd st = (e, st') \<Longrightarrow> distinct (map ps_id (pl_steps pl)) \<Longrightarrow>
    runOk pl st' \<and> (scanOnlyCtx (st_ctx st) \<longrightarrow> noSpawn (st_trace st) \<longrightarrow> noSpawn (st_trace st'))"
proof (induction h sched pl rnd st rule: runRounds.induct)
  case (1 h sched pl rnd st)
  define ready where "ready = getReadySteps (pl_steps pl) (st_completed st) (st_ctx st) (Some (outputNames pl))"
  show ?case
  proof (cases "length (st_completed st) < length (pl_steps pl) \<and> ready \<noteq> []")
    case False
    with 1(4) have "st' = st"
      by (auto simp: runRounds.simps [of h sched pl rnd st] ready_def [symmetric] split: if_splits)
    with 1(2) show ?thesis by simp
  next
    case True
    obtain e1 st1 where r: "runRound h (sched rnd) pl ready st = (e1, st1)" by fastforce
    note R = runRound_ok [OF 1(2,3,5) ready_def r]
    show ?thesis
    proof (cases e1)
      case (Some x)
      with 1(4) True r have "st' = st1"
        by (simp add: runRounds.simps [of h sched pl rnd st] ready_def [symmetric])
      with R show ?thesis by blast
    next
      case None
      with 1(4) True r have "runRounds h sched pl (Suc rnd) st1 = (e, st')"
        by (simp add: runRounds.simps [of h sched pl rnd st] ready_def [symmetric])
      with 1(1) [OF _ ready_def _ r [symmetric] None] 1(5) True R None show ?thesis by blast
    qed
  qed
qed

definition stepIds :: "pipeline \<Rightarrow> string set" where
  "stepIds pl = ps_id ` set (pl_steps pl)"

lemma startedIds_member: "i \<in> set (startedIds es) \<longleftrightarrow> Started i \<in> set es"
  by (induction es rule: startedIds.induct) auto

lemma runOk_started:
  assumes "runOk pl st"
  shows "{i. Started i \<in> set (st_trace st)} \<subseteq> stepIds pl"
    and "set (st_completed st) \<subseteq> {i. Started i \<in> set (st_trace st)}"
proof -
  show "{i. Started i \<in> set (st_trace st)} \<subseteq> stepIds pl"
    using assms by (auto simp: runOk_def orderedStarts_def stepIds_def in_set_conv_nth)
  show "set (st_completed st) \<subseteq> {i. Started i \<in> set (st_trace st)}"
    using assms by (auto simp: runOk_def simp flip: startedIds_member)
qed

definition noFailures :: "pipe_event list \<Rightarrow> bool" where
  "noFailures tr \<longleftrightarrow> (\<forall>i m. Failed i m \<notin> set tr)"

lemma startAll_noFailures:
  "startAll h steps st = (rs, st') \<Longrightarrow> noFailures (st_trace st) \<Longrightarrow> noFailures (st_trace st')"
proof (induction h steps st arbitrary: rs st' rule: startAll.induct)
  case (2 h step steps st)
  obtain res reqs where s: "startStep h (length (st_trace st)) step (st_ctx st) = (res, reqs)" by fastforce
  define st1 where "st1 = st\<lparr>st_trace := st_trace st @ Started (ps_id step) # map (Requested (ps_id step)) reqs\<rparr>"
  obtain rs' where r: "startAll h steps st1 = (rs', st')"
    using 2(2) s by (auto simp: st1_def split: prod.splits)
  have "noFailures (st_trace st1)" using 2(3) by (auto simp: st1_def noFailures_def)
  from 2(1) [OF s [symmetric], folded st1_def, OF r this] show ?case .
qed simp

lemma runRound_noFailures:
  assumes "runRound h order pl ready st = (None, st')"
    "h_output h = None \<or> pl_on_step_fail pl \<noteq> SkipContinue" "noFailures (st_trace st)"
  shows "noFailures (st_trace st')"
proof -
  obtain rs st1 where s: "startAll h ready st = (rs, st1)" by fastforce
  with assms(1) have r: "settleAll h pl (arrange order rs) st1 = (None, st')" by (simp add: runRound_def)
  have "\<exists>evs. st_trace st' = st_trace st1 @ evs \<and> noFailures evs"
    using settleAll_events [OF r] assms(2) by (fastforce simp: settleEvents_def noFailures_def)
  with startAll_noFailures [OF s assms(3)] show ?thesis by (auto simp: noFailures_def)
qed

lemma runRounds_end:
  "runRounds h sched pl rnd st = (None, st') \<Longrightarrow> distinct (st_completed st) \<Longrightarrow>
   set (st_completed st) \<subseteq> stepIds pl \<Longrightarrow>
   distinct (st_completed st') \<and> set (st_completed st') \<subseteq> stepIds pl \<and>
   (length (pl_steps pl) \<le> length (st_completed st') \<or>
    getReadySteps (pl_steps pl) (st_completed st') (st_ctx st') (Some (outputNames pl)) = []) \<and>
   (h_output h = None \<or> pl_on_step_fail pl \<noteq> SkipContinue \<longrightarrow> noFailures (st_trace st) \<longrightarrow> noFailures (st_trace st'))"
proof (induction h sched pl rnd st rule: runRounds.induct)
  case (1 h sched pl rnd st)
  define ready where "ready = getReadySteps (pl_steps pl) (st_completed st) (st_ctx st) (Some (outputNames pl))"
  show ?case
  proof (cases "length (st_completed st) < length (pl_steps pl) \<and> ready \<noteq> []")
    case False
    with 1(2) have "st' = st"
      by (auto simp: runRounds.simps [of h sched pl rnd st] ready_def [symmetric] split: if_splits)
    with 1(3,4) False show ?thesis by (auto simp: ready_def [symmetric] not_less)
  next
    case True
    obtain e1 st1 where r: "runRound h (sched rnd) pl ready st = (e1, st1)" by fastforce
    have e1: "e1 = None" and rec: "runRounds h sched pl (Suc rnd) st1 = (None, st')"
      using 1(2) True r
      by (auto simp: runRounds.simps [of h sched pl rnd st] ready_def [symmetric] split: option.splits)
    note C = runRound_completes [OF r]
    have "ps_id ` set ready \<subseteq> stepIds pl" by (auto simp: ready_def getReadySteps_def stepIds_def)
    then have "set (st_completed st1) \<subseteq> stepIds pl" using C(3) 1(4) by blast
    from 1(1) [OF _ ready_def _ r [symmetric] e1 rec C(4) [OF 1(3)] this] True
      runRound_noFailures [of h "sched rnd" pl ready st st1] r e1
    show ?thesis by simp
  qed
qed

text \<open>A failure that is not skipped ends the run with its round: no step starts after it.\<close>

definition failStop :: "pipe_event list \<Rightarrow> bool" where
  "failStop tr \<longleftrightarrow> (\<exists>before after. tr = before @ after \<and> noFailures before \<and> startedIds after = [])"

lemma failStop_no_failure: "noFailures tr \<Longrightarrow> failStop tr"
  unfolding failStop_def by (rule exI [of _ tr], rule exI [of _ "[]"]) simp

lemma failStop_after:
  assumes "failStop (xs @ Failed i m # ys)"
  shows "startedIds ys = []"
proof -
  obtain before after where s: "xs @ Failed i m # ys = before @ after" and n: "noFailures before"
    and a: "startedIds after = []"
    using assms by (auto simp: failStop_def)
  from s consider us where "before = xs @ us" "us @ after = Failed i m # ys"
    | us where "xs = before @ us" "us @ Failed i m # ys = after"
    by (auto simp: append_eq_append_conv2)
  then show ?thesis
  proof cases
    case 1
    with n have "us = []" by (cases us) (auto simp: noFailures_def)
    with 1 a show ?thesis by simp
  next
    case 2
    from a show ?thesis unfolding 2(2) [symmetric] by simp
  qed
qed

lemma runRound_failStop:
  assumes "runRound h order pl ready st = (e, st')" "noFailures (st_trace st)"
  shows "failStop (st_trace st')"
proof -
  obtain rs st1 where s: "startAll h ready st = (rs, st1)" by fastforce
  with assms(1) have r: "settleAll h pl (arrange order rs) st1 = (e, st')" by (simp add: runRound_def)
  obtain evs where evs: "settleEvents st1 st' evs" using settleAll_events [OF r] by blast
  then have "\<forall>ev \<in> set evs. \<forall>i. ev \<noteq> Started i" by (fastforce simp: settleEvents_def)
  then have "startedIds evs = []" by (rule startedIds_none)
  moreover have "st_trace st' = st_trace st1 @ evs" using evs by (simp add: settleEvents_def)
  moreover have "noFailures (st_trace st1)" by (rule startAll_noFailures [OF s assms(2)])
  ultimately show ?thesis by (auto simp: failStop_def)
qed

lemma runRounds_failStop:
  "runRounds h sched pl rnd st = (e, st') \<Longrightarrow> noFailures (st_trace st) \<Longrightarrow>
   h_output h = None \<or> pl_on_step_fail pl \<noteq> SkipContinue \<Longrightarrow> failStop (st_trace st')"
proof (induction h sched pl rnd st rule: runRounds.induct)
  case (1 h sched pl rnd st)
  define ready where "ready = getReadySteps (pl_steps pl) (st_completed st) (st_ctx st) (Some (outputNames pl))"
  show ?case
  proof (cases "length (st_completed st) < length (pl_steps pl) \<and> ready \<noteq> []")
    case False
    with 1(2) have "st' = st"
      by (auto simp: runRounds.simps [of h sched pl rnd st] ready_def [symmetric] split: if_splits)
    with 1(3) show ?thesis by (simp add: failStop_no_failure)
  next
    case True
    obtain e1 st1 where r: "runRound h (sched rnd) pl ready st = (e1, st1)" by fastforce
    show ?thesis
    proof (cases e1)
      case (Some x)
      with 1(2) True r have "st' = st1"
        by (simp add: runRounds.simps [of h sched pl rnd st] ready_def [symmetric])
      with runRound_failStop [OF r 1(3)] show ?thesis by simp
    next
      case None
      with 1(2) True r have rec: "runRounds h sched pl (Suc rnd) st1 = (e, st')"
        by (simp add: runRounds.simps [of h sched pl rnd st] ready_def [symmetric])
      from r None have "noFailures (st_trace st1)" using runRound_noFailures 1(3,4) by blast
      from 1(1) [OF _ ready_def _ r [symmetric] None rec this 1(4)] True show ?thesis by blast
    qed
  qed
qed

text \<open>The state of a run once the gate is open.\<close>

definition gatedCtx :: "jsval \<Rightarrow> step_context \<Rightarrow> fields option \<Rightarrow> step_context" where
  "gatedCtx category initial env =
     (let ctx = (case env of None \<Rightarrow> initial | Some e \<Rightarrow> initial\<lparr>cx_env := Some e\<rparr>)
      in if category = JStr ''query''
         then ctx\<lparr>cx_env := Some (jm_set ''scan_only'' (JBool True)
                (case cx_env ctx of None \<Rightarrow> [] | Some e \<Rightarrow> e))\<rparr>
         else ctx)"

lemma executePipeline_open:
  assumes "in_category (readIntent now f) \<noteq> JStr ''idle''"
  shows "executePipeline h sched logDir now f pl initial env =
    (case runRounds h sched pl 1 (startState logDir (gatedCtx (in_category (readIntent now f)) initial env)) of
       (Some e, st) \<Rightarrow> (Inl e, st) | (None, st) \<Rightarrow> (Inr (st_ctx st), st))"
  using assms by (simp add: executePipeline_def checkIntentGate_def Let_def gatedCtx_def)

lemma executePipeline_closed:
  assumes "in_category (readIntent now f) = JStr ''idle''"
  shows "executePipeline h sched logDir now f pl initial env =
    (let ctx = (case env of None \<Rightarrow> initial | Some e \<Rightarrow> initial\<lparr>cx_env := Some e\<rparr>)
     in (Inr ctx, startState logDir ctx))"
  using assms by (simp add: executePipeline_def checkIntentGate_def Let_def)

lemma startState_ok [simp]:
  "runOk pl (startState logDir ctx)" "startedIds (st_trace (startState logDir ctx)) = []"
  "noSpawn (st_trace (startState logDir ctx))" "noFailures (st_trace (startState logDir ctx))"
  "st_completed (startState logDir ctx) = []" "st_ctx (startState logDir ctx) = ctx"
  by (simp_all add: startState_def runOk_def orderedStarts_def completedMatch_def noSpawn_def noFailures_def)

section \<open>Properties\<close>

text \<open>A two-step pipeline and a host on which every skill is a plain action.\<close>

definition demoStep :: "string \<Rightarrow> string list \<Rightarrow> pipeline_step" where
  "demoStep i deps = \<lparr>ps_id = i, ps_skill = ''echo'', ps_depends_on = deps, ps_condition = None,
     ps_input_mapping = None, ps_output_as = i, ps_compensating_action = None\<rparr>"

definition demoPipeline :: pipeline where
  "demoPipeline = \<lparr>pl_pipeline_id = ''p'', pl_condition = ''true'',
     pl_steps = [demoStep ''b'' [''a''], demoStep ''a'' []], pl_on_step_fail = SkipContinue\<rparr>"

definition demoHost :: host where
  "demoHost = \<lparr>h_skill = (\<lambda>s. if s = ''echo'' then Some \<lparr>sk_action_verb = ''echo'', sk_target_object = ''x''\<rparr> else None),
     h_tool = (\<lambda>_ _. Inl ''unbound''), h_started = (\<lambda>_. 0), h_finished = (\<lambda>_. 0), h_iso = (\<lambda>_. ''t''),
     h_dateParse = (\<lambda>_. None), h_sha256 = (\<lambda>s. s), h_mkdirSync = False, h_output = None\<rparr>"

definition emptyCtx :: step_context where
  "emptyCtx = \<lparr>cx_outputs = [], cx_inputs = [], cx_env = None\<rparr>"

definition intentFile :: "string \<Rightarrow> jsval option" where
  "intentFile c = Some (JObj [(''category'', JStr c), (''ts'', JInt 0)])"

lemma intentFile_category: "in_category (readIntent 0 (intentFile c)) = JStr c"
  by (simp add: readIntent_def intentFile_def orElse_def jget_def)

text \<open>C6. In every run of a pipeline with distinct step ids, whatever the schedule, the tools and the
error policy do: a step starts only after each of its dependencies has completed, and at most once.\<close>

theorem pipeline_respects_dependencies:
  assumes "distinct (map ps_id (pl_steps pl))"
    and "executePipeline h sched logDir now f pl initial env = (r, st)"
  shows "orderedStarts (pl_steps pl) (st_trace st) \<and> distinct (startedIds (st_trace st))"
proof (cases "in_category (readIntent now f) = JStr ''idle''")
  case True
  with assms(2) have "runOk pl st" by (auto simp: executePipeline_closed Let_def)
  then show ?thesis by (simp add: runOk_def)
next
  case False
  let ?st = "startState logDir (gatedCtx (in_category (readIntent now f)) initial env)"
  obtain e st1 where run: "runRounds h sched pl 1 ?st = (e, st1)" by fastforce
  have "st = st1" using assms(2) run by (auto simp: executePipeline_open [OF False] split: option.splits)
  moreover have "runOk pl st1" using runRounds_ok [OF startState_ok(1) _ run assms(1)] by simp
  ultimately show ?thesis by (simp add: runOk_def)
qed

theorem pipeline_respects_dependencies_witness:
  "distinct (startedIds (st_trace (snd (executePipeline demoHost (\<lambda>_. []) True 0 (intentFile ''continue'')
     demoPipeline emptyCtx None))))"
  using pipeline_respects_dependencies [of demoPipeline, OF _ prod.collapse [symmetric]]
  by (simp add: demoPipeline_def demoStep_def)

text \<open>C19. While the operator's intent is a query, no step of any pipeline dispatches an agent: no
\<open>sessions_spawn\<close> request is ever made.\<close>

theorem pipeline_query_never_dispatches:
  assumes "distinct (map ps_id (pl_steps pl))"
    and "in_category (readIntent now f) = JStr ''query''"
    and "executePipeline h sched logDir now f pl initial env = (r, st)"
  shows "Requested i (SessionsSpawn agentId task runId) \<notin> set (st_trace st)"
proof -
  have open': "in_category (readIntent now f) \<noteq> JStr ''idle''" using assms(2) by simp
  let ?ctx = "gatedCtx (JStr ''query'') initial env"
  obtain e st1 where run: "runRounds h sched pl 1 (startState logDir ?ctx) = (e, st1)" by fastforce
  have "st = st1" using assms(2,3) run by (auto simp: executePipeline_open [OF open'] split: option.splits)
  moreover have "scanOnlyCtx ?ctx" by (simp add: gatedCtx_def scanOnlyCtx_def Let_def update_conv')
  then have "noSpawn (st_trace st1)" using runRounds_ok [OF startState_ok(1) _ run assms(1)] by simp
  ultimately show ?thesis by (simp add: noSpawn_def)
qed

theorem pipeline_query_never_dispatches_witness:
  "Requested ''a'' (SessionsSpawn ''canmou'' JUndef ''x'') \<notin> set (st_trace (snd (executePipeline demoHost
     (\<lambda>_. []) True 0 (intentFile ''query'') demoPipeline emptyCtx None)))"
  using pipeline_query_never_dispatches [of demoPipeline 0 "intentFile ''query''",
      OF _ _ prod.collapse [symmetric]]
  by (simp add: intentFile_category demoPipeline_def demoStep_def)

text \<open>What a run does with a failure that its policy does not skip.\<close>

lemma unskipped_failure_rejects:
  assumes "h_output h = None \<or> pl_on_step_fail pl \<noteq> SkipContinue"
    and "executePipeline h sched logDir now f pl initial env = (r, st)"
    and "Failed i m \<in> set (st_trace st)"
  shows "(\<exists>e. r = Inl e) \<and> failStop (st_trace st)"
proof (cases "in_category (readIntent now f) = JStr ''idle''")
  case True
  with assms(2,3) show ?thesis by (auto simp: executePipeline_closed Let_def startState_def)
next
  case False
  let ?st = "startState logDir (gatedCtx (in_category (readIntent now f)) initial env)"
  obtain e st1 where run: "runRounds h sched pl 1 ?st = (e, st1)" by fastforce
  have st: "st = st1" using assms(2) run by (auto simp: executePipeline_open [OF False] split: option.splits)
  have stop: "failStop (st_trace st1)" by (rule runRounds_failStop [OF run _ assms(1)]) simp
  have "e \<noteq> None"
  proof
    assume "e = None"
    with run runRounds_end [of h sched pl 1 ?st st1] assms(1) have "noFailures (st_trace st1)" by simp
    with assms(3) st show False by (simp add: noFailures_def)
  qed
  with assms(2) run st stop show ?thesis by (auto simp: executePipeline_open [OF False])
qed

text \<open>C20. Once the gate is open (the intent is readable, recent and not idle), a pipeline whose steps
have distinct ids, acyclic dependencies on its own steps and no conditions is carried out in full:
if the run does not reject, every step has been started and is marked completed.  Under the policies
compensate and pause_and_notify none has failed; under \<open>skip_continue\<close> a failed step that was passed
over is marked completed too.\<close>

theorem pipeline_runs_to_completion:
  fixes rank :: "string \<Rightarrow> nat"
  assumes "distinct (map ps_id (pl_steps pl))"
    and "\<And>s d. s \<in> set (pl_steps pl) \<Longrightarrow> d \<in> set (ps_depends_on s) \<Longrightarrow> d \<in> stepIds pl \<and> rank d < rank (ps_id s)"
    and "\<And>s. s \<in> set (pl_steps pl) \<Longrightarrow> ps_condition s = None"
    and "in_category (readIntent now f) \<noteq> JStr ''idle''"
    and "executePipeline h sched logDir now f pl initial env = (Inr ctx, st)"
  shows "set (st_completed st) = stepIds pl \<and> {i. Started i \<in> set (st_trace st)} = stepIds pl \<and>
    (pl_on_step_fail pl \<noteq> SkipContinue \<longrightarrow> (\<forall>i m. Failed i m \<notin> set (st_trace st)))"
proof -
  let ?st = "startState logDir (gatedCtx (in_category (readIntent now f)) initial env)"
  have run: "runRounds h sched pl 1 ?st = (None, st)"
    using assms(5) by (auto simp: executePipeline_open [OF assms(4)] split: prod.splits option.splits)
  note E = runRounds_end [OF run]
  have d: "distinct (st_completed st)" "set (st_completed st) \<subseteq> stepIds pl" using E by simp_all
  have ok: "runOk pl st" using runRounds_ok [OF startState_ok(1) _ run assms(1)] by simp
  have fails: "\<forall>i m. Failed i m \<notin> set (st_trace st)" if "pl_on_step_fail pl \<noteq> SkipContinue"
    using unskipped_failure_rejects [OF _ assms(5)] that by blast
  have all: "set (st_completed st) = stepIds pl \<Longrightarrow> {i. Started i \<in> set (st_trace st)} = stepIds pl"
    using runOk_started [OF ok] by auto
  have card: "card (stepIds pl) = length (pl_steps pl)" "finite (stepIds pl)"
    using distinct_card [OF assms(1)] by (simp_all add: stepIds_def)
  show ?thesis
  proof (cases "length (pl_steps pl) \<le> length (st_completed st)")
    case True
    then have "card (stepIds pl) \<le> card (set (st_completed st))" using d(1) card(1) by (simp add: distinct_card)
    with d(2) card(2) have "set (st_completed st) = stepIds pl" by (metis card_seteq)
    with all fails show ?thesis by blast
  next
    case False
    then have none: "getReadySteps (pl_steps pl) (st_completed st) (st_ctx st) (Some (outputNames pl)) = []"
      using E by simp
    have "s \<in> set (pl_steps pl) \<Longrightarrow> ps_id s \<in> set (st_completed st)" for s
    proof (induction "rank (ps_id s)" arbitrary: s rule: less_induct)
      case less
      have "d \<in> set (st_completed st)" if "d \<in> set (ps_depends_on s)" for d
        using assms(2) [OF less.prems that] less.hyps by (auto simp: stepIds_def)
      with none less.prems assms(3) [OF less.prems] show ?case
        by (auto simp: getReadySteps_def filter_empty_conv)
    qed
    with d(2) have "set (st_completed st) = stepIds pl" by (auto simp: stepIds_def)
    with all fails show ?thesis by blast
  qed
qed

theorem pipeline_runs_to_completion_witness:
  "set (st_completed (snd (executePipeline demoHost (\<lambda>_. [1, 0]) True 0 (intentFile ''continue'')
     demoPipeline emptyCtx None))) = stepIds demoPipeline"
proof -
  define rank :: "string \<Rightarrow> nat" where "rank i = (if i = ''a'' then 0 else 1)" for i
  have run: "\<exists>ctx. fst (executePipeline demoHost (\<lambda>_. [1, 0]) True 0 (intentFile ''continue'') demoPipeline
      emptyCtx None) = Inr ctx"
    by (simp add: executePipeline_def checkIntentGate_def intentFile_category demoPipeline_def demoStep_def
        demoHost_def emptyCtx_def startState_def runRounds.simps getReadySteps_def runRound_def
        startStep_def resolveInputs_def stepRequest_def arrange_def settleStep_def finishStep_def
        execLog_def markCompleted_def Let_def)
  then obtain ctx where "fst (executePipeline demoHost (\<lambda>_. [1, 0]) True 0 (intentFile ''continue'') demoPipeline
      emptyCtx None) = Inr ctx" by blast
  then have ex: "executePipeline demoHost (\<lambda>_. [1, 0]) True 0 (intentFile ''continue'') demoPipeline emptyCtx None =
      (Inr ctx, snd (executePipeline demoHost (\<lambda>_. [1, 0]) True 0 (intentFile ''continue'') demoPipeline emptyCtx None))"
    by (metis prod.collapse)
  show ?thesis
    by (rule conjunct1 [OF pipeline_runs_to_completion [OF _ _ _ _ ex, where rank = rank]])
      (auto simp: demoPipeline_def demoStep_def stepIds_def rank_def intentFile_category split: if_splits)
qed

text \<open>C21. Under the policies compensate and pause_and_notify a failing step aborts the pipeline: a run
in which some step failed rejects, and after the first failure no further step starts; the steps
already started with the failing one are waited for.\<close>

theorem pipeline_failure_aborts:
  assumes "pl_on_step_fail pl \<in> {Compensate, PauseAndNotify}"
    and "executePipeline h sched logDir now f pl initial env = (r, st)"
    and "st_trace st = before @ Failed i m # after"
  shows "(\<exists>e. r = Inl e) \<and> (\<forall>j. Started j \<notin> set after)"
proof -
  have "pl_on_step_fail pl \<noteq> SkipContinue" using assms(1) by auto
  with unskipped_failure_rejects [of h pl sched logDir now f initial env r st i m] assms(2,3)
  have "(\<exists>e. r = Inl e) \<and> failStop (st_trace st)" by simp
  then show ?thesis using failStop_after [of before i m after] assms(3) by (auto simp: startedIds_iff)
qed

theorem pipeline_failure_aborts_witness:
  "\<exists>e. fst (executePipeline (demoHost\<lparr>h_skill := (\<lambda>_. None)\<rparr>) (\<lambda>_. []) True 0 (intentFile ''continue'')
     (demoPipeline\<lparr>pl_on_step_fail := PauseAndNotify\<rparr>) emptyCtx None) = Inl e"
proof -
  have "st_trace (snd (executePipeline (demoHost\<lparr>h_skill := (\<lambda>_. None)\<rparr>) (\<lambda>_. []) True 0
      (intentFile ''continue'') (demoPipeline\<lparr>pl_on_step_fail := PauseAndNotify\<rparr>) emptyCtx None)) =
      [Started ''a''] @ Failed ''a'' ''Skill Card not found for skill: echo'' # []"
    by (simp add: executePipeline_def checkIntentGate_def intentFile_category demoPipeline_def demoStep_def
        demoHost_def emptyCtx_def startState_def runRounds.simps getReadySteps_def runRound_def
        startStep_def arrange_def settleStep_def handleStepFailure_def)
  from pipeline_failure_aborts [OF _ prod.collapse [symmetric] this] show ?thesis by simp
qed

text \<open>
  The documentation of \<open>executePipeline\<close> promises more: "skip_continue - mark step complete and continue",
  and compensating actions in reverse order.  With no global \<open>output\<close> the catch block throws before it
  reads the policy: a run with a failed step rejects under \<open>skip_continue\<close> as well, and no
  compensation is ever logged.
\<close>

lemma skip_continue_rejects:
  assumes "h_output h = None"
    and "executePipeline h sched logDir now f pl initial env = (r, st)"
    and "Failed i m \<in> set (st_trace st)"
  shows "\<exists>e. r = Inl e"
  using unskipped_failure_rejects [OF _ assms(2,3)] assms(1) by blast

lemma failure_policy_not_consulted:
  "h_output h = None \<Longrightarrow> handleStepFailure h pl step msg st =
     (Some ''output is not defined'', st\<lparr>st_trace := st_trace st @ [Failed (ps_id step) msg]\<rparr>)"
  by (simp add: handleStepFailure_def Let_def)

text \<open>A step of a skill with the verb \<open>send\<close> always fails, whatever it is to send, and requests nothing.\<close>

lemma send_step_always_fails:
  "h_skill h (ps_skill step) = Some sk \<Longrightarrow> sk_action_verb sk = ''send'' \<Longrightarrow>
   startStep h n step ctx = (Inl ''message is not a function'', [])"
  by (simp add: startStep_def stepRequest_def)

text \<open>The intent gate fails closed: with no readable intent, one that expired more than thirty
minutes ago, or one without a category, the pipeline starts no step and returns its context as it is.\<close>

theorem pipeline_gate_fails_closed:
  assumes "f = None \<or> f = Some (JObj fs) \<and>
    (map_of fs ''category'' = None \<or> (\<exists>ts. map_of fs ''ts'' = Some (JInt ts) \<and> ts + 30 * 60 * 1000 < now))"
  shows "fst (executePipeline h sched logDir now f pl initial None) = Inr initial \<and>
    st_trace (snd (executePipeline h sched logDir now f pl initial None)) = [] \<and>
    st_log (snd (executePipeline h sched logDir now f pl initial None)) = []"
proof -
  have "in_category (readIntent now f) = JStr ''idle''"
    using assms by (auto simp: readIntent_def idleIntent_def orElse_def jget_def)
  then show ?thesis by (simp add: executePipeline_closed startState_def)
qed

theorem pipeline_gate_fails_closed_witness:
  "st_trace (snd (executePipeline demoHost (\<lambda>_. []) True 1800001
     (Some (JObj [(''category'', JStr ''continue''), (''ts'', JInt 0)])) demoPipeline emptyCtx None)) = []"
  using pipeline_gate_fails_closed [where f = "Some (JObj [(''category'', JStr ''continue''), (''ts'', JInt 0)])"
      and fs = "[(''category'', JStr ''continue''), (''ts'', JInt 0)]" and now = 1800001] by simp

text \<open>
  Inputs of a step cannot name an earlier step by its id when its output is stored under another
  name, although conditions can: \<open>executeStep\<close> interpolates without the map of output names.
\<close>

lemma step_inputs_miss_step_ids:
  "let ctx = \<lparr>cx_outputs = [(''dispatch_result'', JObj [(''n'', JInt 3)])], cx_inputs = [], cx_env = None\<rparr>
   in resolveInputs ((demoStep ''spawn'' [''scan''])\<lparr>ps_input_mapping := Some [(''n'', ''{{steps.scan.output.n}}'')]\<rparr>) ctx =
        [(''n'', ''{{steps.scan.output.n}}'')] \<and>
      interpolate ''{{steps.scan.output.n}}'' ctx (Some [(''scan'', ''dispatch_result'')]) = js_show_int 3"
  by (simp add: resolveInputs_def demoStep_def interpolate.simps placeholderAt_def js_startsWith_def
      expandPath_def resolvePath_def resolveStepPath_def js_trim_def js_trim_start_def js_trim_end_def
      js_ws_def fieldOf_def hasOwn_def jget_def js_truthy_def)

end
