(* ===== verification/NodeWork.thy ===== *)
theory NodeWork
  imports Prelude
begin

text \<open>
  Pending work of gateway nodes, \<open>src/gateway/node-pending-work.ts\<close>: per node a revision and a map of
  work items, filled by \<open>enqueueNodePendingWork\<close>, read by \<open>drainNodePendingWork\<close> and emptied by
  \<open>acknowledgeNodePendingWork\<close>.  The identifier \<open>randomUUID\<close> returns is an argument; times are integral
  milliseconds; a payload is an opaque string.
\<close>

section \<open>Data\<close>

datatype work_type = StatusRequest | LocationRequest

datatype work_priority = DefaultPriority | NormalPriority | HighPriority

fun priorityRank :: "work_priority \<Rightarrow> int" where
  "priorityRank HighPriority = 3"
| "priorityRank NormalPriority = 2"
| "priorityRank DefaultPriority = 1"

text \<open>Priorities are ordered by their rank.\<close>

instantiation work_priority :: linorder
begin

definition less_eq_work_priority :: "work_priority \<Rightarrow> work_priority \<Rightarrow> bool" where
  "less_eq_work_priority a b \<longleftrightarrow> priorityRank a \<le> priorityRank b"

definition less_work_priority :: "work_priority \<Rightarrow> work_priority \<Rightarrow> bool" where
  "less_work_priority a b \<longleftrightarrow> priorityRank a < priorityRank b"

instance
proof
  fix a b :: work_priority
  show "a \<le> b \<Longrightarrow> b \<le> a \<Longrightarrow> a = b"
    by (cases a; cases b) (simp_all add: less_eq_work_priority_def)
qed (auto simp: less_eq_work_priority_def less_work_priority_def)

end

record work_item =
  wi_id :: string
  wi_type :: work_type
  wi_priority :: work_priority
  wi_createdAtMs :: int
  wi_expiresAtMs :: "int option"
  wi_payload :: "string option"

record work_state =
  ws_revision :: nat
  ws_itemsById :: "(string, work_item) jsmap"

type_synonym node_states = "(string, work_state) jsmap"

section \<open>Helpers\<close>

definition emptyWorkState :: work_state where
  "emptyWorkState = \<lparr>ws_revision = 0, ws_itemsById = []\<rparr>"

definition getOrCreateState :: "string \<Rightarrow> node_states \<Rightarrow> work_state \<times> node_states" where
  "getOrCreateState nodeId m =
     (case jm_get m nodeId of
        Some s \<Rightarrow> (s, m) | None \<Rightarrow> (emptyWorkState, jm_set nodeId emptyWorkState m))"

definition expired :: "int \<Rightarrow> work_item \<Rightarrow> bool" where
  "expired nowMs item \<longleftrightarrow> (case wi_expiresAtMs item of None \<Rightarrow> False | Some e \<Rightarrow> e \<le> nowMs)"

definition pruneExpired :: "int \<Rightarrow> work_state \<Rightarrow> bool \<times> work_state" where
  "pruneExpired nowMs s =
     (let kept = filter (\<lambda>p. \<not> expired nowMs (snd p)) (ws_itemsById s);
          changed = (length kept \<noteq> length (ws_itemsById s))
      in (changed, s\<lparr>ws_itemsById := kept,
                     ws_revision := (if changed then Suc (ws_revision s) else ws_revision s)\<rparr>))"

definition pruneStateIfEmpty :: "string \<Rightarrow> work_state \<Rightarrow> node_states \<Rightarrow> node_states" where
  "pruneStateIfEmpty nodeId s m = (if ws_itemsById s = [] then jm_delete nodeId m else m)"

definition compareItems :: "work_item \<Rightarrow> work_item \<Rightarrow> int" where
  "compareItems a b =
     (let priorityDelta = priorityRank (wi_priority b) - priorityRank (wi_priority a)
      in if priorityDelta \<noteq> 0 then priorityDelta
         else if wi_createdAtMs a \<noteq> wi_createdAtMs b then wi_createdAtMs a - wi_createdAtMs b
         else cu_compare (wi_id a) (wi_id b))"

definition sortedItems :: "work_state \<Rightarrow> work_item list" where
  "sortedItems s = js_toSorted compareItems (map snd (ws_itemsById s))"

definition makeBaselineStatusItem :: "int \<Rightarrow> work_item" where
  "makeBaselineStatusItem nowMs =
     \<lparr>wi_id = ''baseline-status'', wi_type = StatusRequest, wi_priority = DefaultPriority,
      wi_createdAtMs = nowMs, wi_expiresAtMs = None, wi_payload = None\<rparr>"

text \<open>\<open>Math.trunc\<close>, \<open>Math.min\<close>, and the length \<open>slice(0, n)\<close> takes.\<close>

fun jn_trunc :: "jsnum \<Rightarrow> jsnum" where
  "jn_trunc (Fin r) = Fin (of_int (if r < 0 then \<lceil>r\<rceil> else \<lfloor>r\<rfloor>))"
| "jn_trunc x = x"

definition jn_min :: "jsnum \<Rightarrow> jsnum \<Rightarrow> jsnum" where
  "jn_min a b = (if a = NaN \<or> b = NaN then NaN else if jn_less a b then a else b)"

definition sliceLimit :: "jsnum \<Rightarrow> nat" where
  "sliceLimit n = (case n of Fin r \<Rightarrow> nat \<lfloor>r\<rfloor> | _ \<Rightarrow> 0)"

section \<open>Operations\<close>

record enqueue_params =
  ep_nodeId :: string
  ep_type :: work_type
  ep_priority :: "work_priority option"
  ep_expiresInMs :: "jsnum option"
  ep_payload :: "string option"

datatype enqueue_work_result = NodeIdRequired | WorkQueued nat work_item bool

definition expiryOf :: "int \<Rightarrow> jsnum option \<Rightarrow> int option" where
  "expiryOf nowMs e =
     (case e of
        Some (Fin r) \<Rightarrow> Some (nowMs + max 1000 (if r < 0 then \<lceil>r\<rceil> else \<lfloor>r\<rfloor>))
      | _ \<Rightarrow> None)"

definition enqueueNodePendingWork ::
  "int \<Rightarrow> string \<Rightarrow> enqueue_params \<Rightarrow> node_states \<Rightarrow> enqueue_work_result \<times> node_states" where
  "enqueueNodePendingWork nowMs uuid p m =
     (let nodeId = js_trim (ep_nodeId p)
      in if nodeId = [] then (NodeIdRequired, m)
         else
           (let (s, m) = getOrCreateState nodeId m;
                s = snd (pruneExpired nowMs s)
            in case find (\<lambda>item. wi_type item = ep_type p) (map snd (ws_itemsById s)) of
                 Some existing \<Rightarrow> (WorkQueued (ws_revision s) existing True, jm_set nodeId s m)
               | None \<Rightarrow>
                   (let item = \<lparr>wi_id = uuid, wi_type = ep_type p,
                                wi_priority = (case ep_priority p of None \<Rightarrow> NormalPriority | Some q \<Rightarrow> q),
                                wi_createdAtMs = nowMs, wi_expiresAtMs = expiryOf nowMs (ep_expiresInMs p),
                                wi_payload = ep_payload p\<rparr>;
                        s = s\<lparr>ws_itemsById := jm_set uuid item (ws_itemsById s),
                              ws_revision := Suc (ws_revision s)\<rparr>
                    in (WorkQueued (ws_revision s) item False, jm_set nodeId s m))))"

record drain_options =
  do_maxItems :: "jsnum option"
  do_includeDefaultStatus :: "bool option"

record drain_result =
  dr_revision :: nat
  dr_items :: "work_item list"
  dr_hasMore :: bool

definition maxItemsOf :: "jsnum option \<Rightarrow> jsnum" where
  "maxItemsOf o' =
     jn_min (Fin 10) (jn_max (Fin 1) (jn_trunc (case o' of None \<Rightarrow> Fin 4 | Some n \<Rightarrow> n)))"

text \<open>The selection of items, from the node's items after pruning.\<close>

definition selectItems :: "int \<Rightarrow> drain_options \<Rightarrow> work_item list \<Rightarrow> work_item list \<times> bool" where
  "selectItems nowMs opts explicitItems =
     (let maxItems = maxItemsOf (do_maxItems opts);
          items = take (sliceLimit maxItems) explicitItems;
          hasExplicitStatus = (\<exists>item \<in> set explicitItems. wi_type item = StatusRequest);
          includeBaseline = (do_includeDefaultStatus opts \<noteq> Some False \<and> \<not> hasExplicitStatus);
          items = (if includeBaseline \<and> jn_less (jn_of_nat (length items)) maxItems
                   then items @ [makeBaselineStatusItem nowMs] else items);
          explicitReturnedCount = length (filter (\<lambda>item. wi_id item \<noteq> ''baseline-status'') items);
          baselineIncluded = (\<exists>item \<in> set items. wi_id item = ''baseline-status'')
      in (items, explicitReturnedCount < length explicitItems \<or> includeBaseline \<and> \<not> baselineIncluded))"

definition drainNodePendingWork ::
  "int \<Rightarrow> string \<Rightarrow> drain_options \<Rightarrow> node_states \<Rightarrow> drain_result \<times> node_states" where
  "drainNodePendingWork nowMs nodeId opts m =
     (let n = js_trim nodeId
      in if n = [] then (\<lparr>dr_revision = 0, dr_items = [], dr_hasMore = False\<rparr>, m)
         else
           (let (revision, explicitItems, m) =
              (case jm_get m n of
                 None \<Rightarrow> (0, [], m)
               | Some s \<Rightarrow>
                   (let s' = snd (pruneExpired nowMs s)
                    in (ws_revision s, sortedItems s', pruneStateIfEmpty n s' (jm_set n s' m))));
                (items, hasMore) = selectItems nowMs opts explicitItems
            in (\<lparr>dr_revision = revision, dr_items = items, dr_hasMore = hasMore\<rparr>, m)))"

fun ackLoop :: "string list \<Rightarrow> (string, work_item) jsmap \<Rightarrow> string list \<times> (string, work_item) jsmap" where
  "ackLoop [] items = ([], items)"
| "ackLoop (itemId # ids) items =
     (let trimmedId = js_trim itemId
      in if trimmedId = [] \<or> trimmedId = ''baseline-status'' then ackLoop ids items
         else if jm_get items trimmedId \<noteq> None
         then (case ackLoop ids (jm_delete trimmedId items) of (removed, items) \<Rightarrow> (trimmedId # removed, items))
         else ackLoop ids items)"

definition acknowledgeNodePendingWork ::
  "string \<Rightarrow> string list \<Rightarrow> node_states \<Rightarrow> (nat \<times> string list) \<times> node_states" where
  "acknowledgeNodePendingWork nodeId itemIds m =
     (let n = js_trim nodeId
      in if n = [] then ((0, []), m)
         else
           (case jm_get m n of
              None \<Rightarrow> ((0, []), m)
            | Some s \<Rightarrow>
                (let (removed, items) = ackLoop itemIds (ws_itemsById s);
                     s = s\<lparr>ws_itemsById := items,
                           ws_revision := (if removed \<noteq> [] then Suc (ws_revision s) else ws_revision s)\<rparr>
                 in ((ws_revision s, removed), pruneStateIfEmpty n s (jm_set n s m)))))"

datatype work_event =
  WkEnqueue int string enqueue_params
| WkDrain int string drain_options
| WkAck string "string list"

fun workStep :: "node_states \<Rightarrow> work_event \<Rightarrow> node_states" where
  "workStep m (WkEnqueue now uuid p) = snd (enqueueNodePendingWork now uuid p m)"
| "workStep m (WkDrain now nodeId opts) = snd (drainNodePendingWork now nodeId opts m)"
| "workStep m (WkAck nodeId ids) = snd (acknowledgeNodePendingWork nodeId ids m)"

fun workEventNode :: "work_event \<Rightarrow> string" where
  "workEventNode (WkEnqueue now uuid p) = js_trim (ep_nodeId p)"
| "workEventNode (WkDrain now nodeId opts) = js_trim nodeId"
| "workEventNode (WkAck nodeId ids) = js_trim nodeId"

section \<open>Interfaces\<close>

lemma cu_compare_le: "cu_compare a b \<le> 0 \<longleftrightarrow> a \<le> b"
  by (auto simp: cu_compare_def)

lemma compareItems_le:
  "compareItems a b \<le> 0 \<longleftrightarrow>
     priorityRank (wi_priority b) < priorityRank (wi_priority a) \<or>
     wi_priority a = wi_priority b \<and>
       (wi_createdAtMs a < wi_createdAtMs b \<or> wi_createdAtMs a = wi_createdAtMs b \<and> wi_id a \<le> wi_id b)"
  by (cases "wi_priority a"; cases "wi_priority b") (auto simp: compareItems_def Let_def cu_compare_le)

interpretation work: comparator compareItems
proof
  show "compareItems x y \<le> 0 \<or> compareItems y x \<le> 0" for x y
    using priorityRank.simps by (cases "wi_priority x"; cases "wi_priority y") (auto simp: compareItems_le)
  show "compareItems x y \<le> 0 \<Longrightarrow> compareItems y z \<le> 0 \<Longrightarrow> compareItems x z \<le> 0" for x y z
    by (auto simp: compareItems_le)
qed

interpretation wk: keyed_store jm_get workStep workEventNode
proof
  show "workEventNode e \<noteq> k \<Longrightarrow> jm_get (workStep m e) k = jm_get m k" for e k m
    by (cases e)
      (auto simp: enqueueNodePendingWork_def drainNodePendingWork_def acknowledgeNodePendingWork_def
        getOrCreateState_def pruneStateIfEmpty_def Let_def jm_get_set jm_get_delete
        split: option.splits prod.splits)
qed

section \<open>The invariant\<close>

definition itemsOk :: "(string, work_item) jsmap \<Rightarrow> bool" where
  "itemsOk items \<longleftrightarrow>
     jm_wf items \<and> (\<forall>(k, i) \<in> set items. wi_id i = k) \<and> distinct (map (wi_type \<circ> snd) items)"

definition workInv :: "node_states \<Rightarrow> bool" where
  "workInv m \<longleftrightarrow>
     jm_wf m \<and> (\<forall>n s. jm_get m n = Some s \<longrightarrow> ws_itemsById s \<noteq> [] \<and> itemsOk (ws_itemsById s))"

lemma itemsOk_filter: "itemsOk items \<Longrightarrow> itemsOk (filter P items)"
  by (auto simp: itemsOk_def distinct_map_filter)

lemma itemsOk_delete: "itemsOk items \<Longrightarrow> itemsOk (jm_delete k items)"
  by (simp add: AList.delete_eq itemsOk_filter)

lemma jm_set_types:
  "wi_type i \<notin> set (map (wi_type \<circ> snd) items) \<Longrightarrow> distinct (map (wi_type \<circ> snd) items) \<Longrightarrow>
   distinct (map (wi_type \<circ> snd) (jm_set k i items)) \<and>
   set (map (wi_type \<circ> snd) (jm_set k i items)) \<subseteq> insert (wi_type i) (set (map (wi_type \<circ> snd) items))"
  by (induction items) (auto split: if_splits)

lemma itemsOk_set:
  assumes "itemsOk items" "\<forall>j \<in> set (map snd items). wi_type j \<noteq> wi_type i" "wi_id i = k"
  shows "itemsOk (jm_set k i items)"
proof -
  have "distinct (map (wi_type \<circ> snd) (jm_set k i items))"
  proof -
    have "wi_type i \<notin> set (map (wi_type \<circ> snd) items)" using assms(2) by auto
    from jm_set_types [OF this] assms(1) show ?thesis by (simp only: itemsOk_def)
  qed
  moreover have "\<forall>(k', j) \<in> set (jm_set k i items). wi_id j = k'"
    using assms(1,3) set_jm_set_subset [of k i items] by (auto simp: itemsOk_def)
  ultimately show ?thesis using assms(1) by (simp add: itemsOk_def)
qed

lemma pruneExpired_items [simp]:
  "ws_itemsById (snd (pruneExpired now s)) = filter (\<lambda>p. \<not> expired now (snd p)) (ws_itemsById s)"
  by (simp add: pruneExpired_def Let_def)

lemma workInv_put:
  assumes "workInv m" "itemsOk (ws_itemsById s)"
  shows "ws_itemsById s \<noteq> [] \<Longrightarrow> workInv (jm_set n s m)"
    and "workInv (pruneStateIfEmpty n s (jm_set n s m))"
  using assms
  by (auto simp: workInv_def pruneStateIfEmpty_def jm_get_set jm_get_delete
      simp del: map_of_eq_Some_iff split: if_splits)

lemma jm_set_not_Nil: "jm_set k v m \<noteq> []"
  by (cases m) auto

lemma jm_set_twice: "jm_set n a (jm_set n b m) = jm_set n a m"
  by (induction m) auto

lemma enqueue_inv:
  assumes inv: "workInv m" shows "workInv (snd (enqueueNodePendingWork now uuid p m))"
proof (cases "js_trim (ep_nodeId p) = []")
  case True
  with inv show ?thesis by (simp add: enqueueNodePendingWork_def)
next
  case False
  define n where "n = js_trim (ep_nodeId p)"
  define s0 where "s0 = (case jm_get m n of None \<Rightarrow> emptyWorkState | Some s \<Rightarrow> s)"
  define s where "s = snd (pruneExpired now s0)"
  have ok0: "itemsOk (ws_itemsById s0)"
    using inv by (auto simp: s0_def workInv_def emptyWorkState_def itemsOk_def split: option.split)
  then have ok: "itemsOk (ws_itemsById s)" by (simp add: s_def itemsOk_filter)
  have set2: "jm_set n x (snd (getOrCreateState n m)) = jm_set n x m" for x
    by (simp add: getOrCreateState_def jm_set_twice split: option.split)
  have fst: "fst (getOrCreateState n m) = s0"
    by (simp add: getOrCreateState_def s0_def split: option.split)
  show ?thesis
  proof (cases "find (\<lambda>item. wi_type item = ep_type p) (map snd (ws_itemsById s))")
    case (Some x)
    then have "ws_itemsById s \<noteq> []" by auto
    moreover have "snd (enqueueNodePendingWork now uuid p m) = jm_set n s m"
      using Some False fst set2 [of s]
      by (simp add: enqueueNodePendingWork_def Let_def n_def [symmetric] case_prod_unfold s_def [symmetric]
          del: pruneExpired_items)
    ultimately show ?thesis using workInv_put(1) [OF inv ok] by simp
  next
    case None
    define item where "item = \<lparr>wi_id = uuid, wi_type = ep_type p,
      wi_priority = (case ep_priority p of None \<Rightarrow> NormalPriority | Some q \<Rightarrow> q),
      wi_createdAtMs = now, wi_expiresAtMs = expiryOf now (ep_expiresInMs p), wi_payload = ep_payload p\<rparr>"
    define s1 where "s1 = s\<lparr>ws_itemsById := jm_set uuid item (ws_itemsById s), ws_revision := Suc (ws_revision s)\<rparr>"
    have "\<forall>j \<in> set (map snd (ws_itemsById s)). wi_type j \<noteq> wi_type item"
      using None by (auto simp: find_None_iff item_def)
    then have "itemsOk (ws_itemsById s1)"
      using itemsOk_set [OF ok, of item uuid] by (simp add: s1_def item_def)
    moreover have "ws_itemsById s1 \<noteq> []" by (simp add: s1_def jm_set_not_Nil)
    moreover have "snd (enqueueNodePendingWork now uuid p m) = jm_set n s1 m"
      using None False fst set2 [of s1]
      by (simp add: enqueueNodePendingWork_def Let_def n_def [symmetric] case_prod_unfold s_def [symmetric]
          s1_def item_def del: pruneExpired_items)
    ultimately show ?thesis using workInv_put(1) [OF inv] by simp
  qed
qed

lemma drain_inv:
  assumes inv: "workInv m" shows "workInv (snd (drainNodePendingWork now nodeId opts m))"
proof (cases "jm_get m (js_trim nodeId)")
  case None
  with inv show ?thesis by (simp add: drainNodePendingWork_def Let_def split: prod.split)
next
  case (Some s)
  then have "itemsOk (ws_itemsById (snd (pruneExpired now s)))"
    using inv by (auto simp: workInv_def itemsOk_filter)
  from workInv_put(2) [OF inv this] inv Some show ?thesis
    by (simp add: drainNodePendingWork_def Let_def split: prod.split)
qed

lemma ackLoop_ok: "itemsOk items \<Longrightarrow> itemsOk (snd (ackLoop ids items))"
  by (induction ids items rule: ackLoop.induct) (auto simp: Let_def itemsOk_delete split: prod.split)

lemma ack_inv:
  assumes inv: "workInv m" shows "workInv (snd (acknowledgeNodePendingWork nodeId ids m))"
proof (cases "jm_get m (js_trim nodeId)")
  case None
  with inv show ?thesis by (simp add: acknowledgeNodePendingWork_def Let_def)
next
  case (Some s)
  obtain removed items where l: "ackLoop ids (ws_itemsById s) = (removed, items)" by fastforce
  have "itemsOk items" using Some inv ackLoop_ok [of "ws_itemsById s" ids] l by (auto simp: workInv_def)
  then show ?thesis
    using inv Some l workInv_put(2) [OF inv, of "s\<lparr>ws_itemsById := items, ws_revision :=
        (if removed \<noteq> [] then Suc (ws_revision s) else ws_revision s)\<rparr>" "js_trim nodeId"]
    by (simp add: acknowledgeNodePendingWork_def Let_def)
qed

interpretation wkinv: invariant_system workStep workInv
proof
  show "workInv (workStep m e)" if "workInv m" for m e
    using that by (cases e) (simp_all add: enqueue_inv drain_inv ack_inv)
qed

lemma workRun_inv: "workInv (foldl workStep [] evs)"
  by (rule wkinv.run_inv) (simp add: workInv_def)

section \<open>What a drain returns\<close>

definition liveItems :: "int \<Rightarrow> work_state \<Rightarrow> work_item list" where
  "liveItems now s = map snd (filter (\<lambda>p. \<not> expired now (snd p)) (ws_itemsById s))"

lemma sorted_take_rest:
  "sorted_wrt R xs \<Longrightarrow> x \<in> set (take n xs) \<Longrightarrow> y \<in> set xs \<Longrightarrow> y \<notin> set (take n xs) \<Longrightarrow> R x y"
  by (metis Un_iff append_take_drop_id set_append sorted_wrt_append)

definition baselineId :: string where
  "baselineId = ''baseline-status''"

lemma sliceLimit_bound: "sliceLimit (maxItemsOf n) \<le> 10"
proof (cases "jn_max (Fin 1) (jn_trunc (case n of None \<Rightarrow> Fin 4 | Some n \<Rightarrow> n))")
  case (Fin r)
  have "nat \<lfloor>r\<rfloor> \<le> 10" if "r \<le> 10" using that by (simp add: nat_le_iff floor_le_iff)
  with Fin show ?thesis by (auto simp: maxItemsOf_def jn_min_def sliceLimit_def not_less)
qed (simp_all add: maxItemsOf_def jn_min_def sliceLimit_def)

lemma below_limit: "jn_less (jn_of_nat k) (maxItemsOf n) \<Longrightarrow> k < 10"
proof -
  assume "jn_less (jn_of_nat k) (maxItemsOf n)"
  then have "jn_less (jn_of_nat k) (Fin 10)"
    by (auto simp: maxItemsOf_def jn_min_def not_less split: if_splits dest: jn_less_trans)
      (cases "jn_max (Fin 1) (jn_trunc (case n of None \<Rightarrow> Fin 4 | Some n \<Rightarrow> n))"; auto)
  then show ?thesis by simp
qed

lemma drain_items:
  assumes "jm_get m (js_trim nodeId) = Some s" "js_trim nodeId \<noteq> []"
  shows "(dr_items (fst (drainNodePendingWork now nodeId opts m)), dr_hasMore (fst (drainNodePendingWork now nodeId opts m))) =
    selectItems now opts (js_toSorted compareItems (liveItems now s))"
  using assms
  by (simp add: drainNodePendingWork_def Let_def sortedItems_def liveItems_def split: prod.split)

lemma selectItems_spec:
  assumes base: "\<forall>x \<in> set xs. wi_id x \<noteq> baselineId" and sel: "selectItems now opts xs = (items, hasMore)"
  obtains k tl' where "items = take k xs @ tl'" "\<forall>x \<in> set tl'. wi_id x = baselineId"
    "length items \<le> 10" "\<not> hasMore \<Longrightarrow> take k xs = xs"
proof -
  define mx where "mx = maxItemsOf (do_maxItems opts)"
  define k where "k = sliceLimit mx"
  define b where "b = (do_includeDefaultStatus opts \<noteq> Some False \<and> \<not> (\<exists>item \<in> set xs. wi_type item = StatusRequest))"
  define tl' where "tl' = (if b \<and> jn_less (jn_of_nat (length (take k xs))) mx then [makeBaselineStatusItem now] else [])"
  have items: "items = take k xs @ tl'"
    using sel by (auto simp: selectItems_def Let_def mx_def k_def b_def tl'_def)
  have tl: "\<forall>x \<in> set tl'. wi_id x = baselineId"
    by (auto simp: tl'_def makeBaselineStatusItem_def baselineId_def)
  have "length (take k xs) \<le> 10" using sliceLimit_bound [of "do_maxItems opts"] by (simp add: k_def mx_def)
  then have len: "length items \<le> 10"
    using below_limit [of "length (take k xs)" "do_maxItems opts"] by (auto simp: items tl'_def mx_def)
  have "filter (\<lambda>x. wi_id x \<noteq> ''baseline-status'') items = take k xs"
    using base tl by (auto simp: items baselineId_def filter_empty_conv filter_id_conv dest: in_set_takeD)
  moreover have "hasMore \<longleftrightarrow> length (filter (\<lambda>x. wi_id x \<noteq> ''baseline-status'') items) < length xs \<or>
      b \<and> \<not> (\<exists>item \<in> set items. wi_id item = ''baseline-status'')"
    using sel by (auto simp: selectItems_def Let_def b_def)
  ultimately have "\<not> hasMore \<Longrightarrow> \<not> length (take k xs) < length xs" by auto
  then have "\<not> hasMore \<Longrightarrow> take k xs = xs" by (simp add: min_def split: if_splits)
  with items tl len show ?thesis by (rule that)
qed

section \<open>Properties\<close>

text \<open>After any sequence of operations every stored node has work, keyed by its item ids, and at
most one item of each type: no empty state is kept, and repeated requests of a type are merged.\<close>

theorem node_work_well_formed:
  assumes "jm_get (foldl workStep [] evs) n = Some s"
  shows "ws_itemsById s \<noteq> [] \<and> (\<forall>(k, i) \<in> set (ws_itemsById s). wi_id i = k) \<and>
    distinct (map (wi_type \<circ> snd) (ws_itemsById s))"
  using workRun_inv [of evs] assms by (simp add: workInv_def itemsOk_def)

definition demoRequest :: enqueue_params where
  "demoRequest = \<lparr>ep_nodeId = ''n1'', ep_type = LocationRequest, ep_priority = None,
     ep_expiresInMs = None, ep_payload = None\<rparr>"

lemmas work_eval = enqueueNodePendingWork_def getOrCreateState_def emptyWorkState_def pruneExpired_def
  expiryOf_def demoRequest_def js_string_defs expired_def Let_def

theorem node_work_well_formed_witness:
  "\<exists>s. jm_get (foldl workStep [] [WkEnqueue 0 ''u1'' demoRequest, WkEnqueue 5 ''u2'' demoRequest]) ''n1'' = Some s \<and>
     distinct (map (wi_type \<circ> snd) (ws_itemsById s))"
proof -
  let ?m = "foldl workStep [] [WkEnqueue 0 ''u1'' demoRequest, WkEnqueue 5 ''u2'' demoRequest]"
  obtain s where s: "jm_get ?m ''n1'' = Some s" by (simp add: work_eval)
  from node_work_well_formed [OF this] s show ?thesis by blast
qed

text \<open>C22. A drain returns live work of the node only, at most ten items, ordered by priority, then age,
then id; nothing left behind should have come before what was returned; and when it does not report
more work, it has returned all of it.\<close>

theorem node_drain_correct:
  assumes "jm_get m (js_trim nodeId) = Some s" "js_trim nodeId \<noteq> []"
    and "\<forall>x \<in> set (liveItems now s). wi_id x \<noteq> baselineId"
    and "r = fst (drainNodePendingWork now nodeId opts m)"
  shows "length (dr_items r) \<le> 10 \<and>
    (\<forall>x \<in> set (dr_items r). wi_id x = baselineId \<or> x \<in> set (liveItems now s)) \<and>
    sorted_wrt (\<lambda>a b. compareItems a b \<le> 0) (filter (\<lambda>x. wi_id x \<noteq> baselineId) (dr_items r)) \<and>
    (\<forall>x \<in> set (dr_items r). \<forall>y \<in> set (liveItems now s).
       wi_id x \<noteq> baselineId \<longrightarrow> y \<notin> set (dr_items r) \<longrightarrow> compareItems x y \<le> 0) \<and>
    (\<not> dr_hasMore r \<longrightarrow> set (liveItems now s) \<subseteq> set (dr_items r))"
proof -
  let ?xs = "js_toSorted compareItems (liveItems now s)"
  have base: "\<forall>x \<in> set ?xs. wi_id x \<noteq> baselineId" using assms(3) by simp
  have "selectItems now opts ?xs = (dr_items r, dr_hasMore r)"
    using drain_items [OF assms(1,2), of now opts] by (simp add: assms(4))
  from selectItems_spec [OF base this] obtain k tl' where
    I: "dr_items r = take k ?xs @ tl'" "\<forall>x \<in> set tl'. wi_id x = baselineId" "length (dr_items r) \<le> 10"
      "\<not> dr_hasMore r \<Longrightarrow> take k ?xs = ?xs" by blast
  have sorted: "sorted_wrt (\<lambda>a b. compareItems a b \<le> 0) ?xs" by (rule work.sorted_toSorted)
  have filt: "filter (\<lambda>x. wi_id x \<noteq> baselineId) (dr_items r) = take k ?xs"
    using I(2) base by (auto simp: I(1) filter_empty_conv filter_id_conv dest: in_set_takeD)
  have rest: "compareItems x y \<le> 0" if "x \<in> set (dr_items r)" "y \<in> set (liveItems now s)"
      "wi_id x \<noteq> baselineId" "y \<notin> set (dr_items r)" for x y
    using sorted_take_rest [OF sorted, of x k y] that I(1,2) by auto
  have live: "\<forall>x \<in> set (dr_items r). wi_id x = baselineId \<or> x \<in> set (liveItems now s)"
    using I(1,2) in_set_takeD [of _ k ?xs] by auto
  have all: "\<not> dr_hasMore r \<longrightarrow> set (liveItems now s) \<subseteq> set (dr_items r)"
    using I(1,4) by auto
  show ?thesis using I(3) live filt sorted_wrt_take [OF sorted, of k] rest all by simp
qed

theorem node_drain_correct_witness:
  "length (dr_items (fst (drainNodePendingWork 7 ''n1'' \<lparr>do_maxItems = Some NaN, do_includeDefaultStatus = None\<rparr>
     (foldl workStep [] [WkEnqueue 0 ''u1'' demoRequest])))) \<le> 10"
proof -
  let ?m = "foldl workStep [] [WkEnqueue 0 ''u1'' demoRequest]"
  obtain s where s: "jm_get ?m (js_trim ''n1'') = Some s" and w: "liveItems 7 s = liveItems 7 (snd (hd ?m))"
    by (simp add: work_eval)
  have "\<forall>x \<in> set (liveItems 7 s). wi_id x \<noteq> baselineId"
    unfolding w by (simp add: work_eval liveItems_def baselineId_def)
  moreover have "js_trim ''n1'' \<noteq> []" by (simp add: js_string_defs)
  ultimately show ?thesis using node_drain_correct [OF s _ _ refl] by blast
qed

text \<open>Nodes are isolated: what a node's state is after any interleaving of operations is what the
operations naming that node alone would have made of it.\<close>

theorem node_work_isolated:
  "jm_get (foldl workStep m evs) n = jm_get (foldl workStep m (filter (\<lambda>e. workEventNode e = n) evs)) n"
proof (rule wk.run_filter_view)
  show "workEventNode e = n \<Longrightarrow> jm_get s n = jm_get s' n \<Longrightarrow> jm_get (workStep s e) n = jm_get (workStep s' e) n"
    for s s' e
    by (cases e)
      (auto simp: enqueueNodePendingWork_def drainNodePendingWork_def acknowledgeNodePendingWork_def
        getOrCreateState_def pruneStateIfEmpty_def Let_def jm_get_set jm_get_delete
        simp del: map_of_eq_Some_iff split: option.splits prod.splits)
qed simp

end
