(* ===== verification/ExecApproval.thy ===== *)
theory ExecApproval
  imports Prelude
begin

text \<open>
  Execution approvals, \<open>src/gateway/exec-approval-manager.ts\<close>.  Each registration makes a new entry
  object with a promise and a timer; the model numbers the entries (\<open>pe_serial\<close>), so that the identity
  test of the delayed cleanup and the promise an entry settles are visible.  \<open>settled\<close> records how
  promises were settled, \<open>consumed\<close> the successful consumptions of one-time approvals, \<open>timers\<close> and
  \<open>cleanups\<close> the callbacks that may still fire.  Times are integral milliseconds; the random id is an
  argument; a request payload is an opaque string.
\<close>

section \<open>Data\<close>

datatype approval_decision = AllowOnce | AllowAlways | Deny

record approval_record =
  ar_id :: string
  ar_request :: string
  ar_createdAtMs :: int
  ar_expiresAtMs :: int
  ar_resolvedAtMs :: "int option"
  ar_decision :: "approval_decision option"
  ar_consumedDecision :: "approval_decision option"
  ar_resolvedBy :: "string option"

record pending_entry =
  pe_serial :: nat
  pe_record :: approval_record

record approval_manager =
  pending :: "(string, pending_entry) jsmap"
  nextSerial :: nat
  timers :: "(nat \<times> string) list"
  cleanups :: "(nat \<times> string) list"
  settled :: "(nat \<times> approval_decision option) list"
  consumed :: "nat list"

definition newManager :: approval_manager where
  "newManager = \<lparr>pending = [], nextSerial = 0, timers = [], cleanups = [], settled = [], consumed = []\<rparr>"

section \<open>Operations\<close>

definition createApproval :: "int \<Rightarrow> string \<Rightarrow> string \<Rightarrow> int \<Rightarrow> string option \<Rightarrow> approval_record" where
  "createApproval now uuid request timeoutMs i =
     (let resolvedId = (case i of None \<Rightarrow> uuid | Some s \<Rightarrow> if js_trim s \<noteq> [] then js_trim s else uuid)
      in \<lparr>ar_id = resolvedId, ar_request = request, ar_createdAtMs = now,
          ar_expiresAtMs = now + timeoutMs, ar_resolvedAtMs = None, ar_decision = None,
          ar_consumedDecision = None, ar_resolvedBy = None\<rparr>)"

datatype register_result = Promised nat | AlreadyResolved string

definition registerApproval :: "approval_record \<Rightarrow> approval_manager \<Rightarrow> register_result \<times> approval_manager" where
  "registerApproval record M =
     (case jm_get (pending M) (ar_id record) of
        Some existing \<Rightarrow>
          if ar_resolvedAtMs (pe_record existing) = None then (Promised (pe_serial existing), M)
          else (AlreadyResolved (ar_id record), M)
      | None \<Rightarrow>
          (Promised (nextSerial M),
           M\<lparr>pending := jm_set (ar_id record) \<lparr>pe_serial = nextSerial M, pe_record = record\<rparr> (pending M),
             nextSerial := Suc (nextSerial M),
             timers := timers M @ [(nextSerial M, ar_id record)]\<rparr>))"

definition waitForDecision :: "approval_record \<Rightarrow> approval_manager \<Rightarrow> register_result \<times> approval_manager" where
  "waitForDecision record M = registerApproval record M"

text \<open>The common part of \<open>resolve\<close> and \<open>expire\<close>: stop the timer, stamp the record, settle, schedule.\<close>

definition settleApproval ::
  "int \<Rightarrow> string \<Rightarrow> approval_decision option \<Rightarrow> string option \<Rightarrow> approval_manager \<Rightarrow> bool \<times> approval_manager" where
  "settleApproval now recordId decision resolvedBy M =
     (case jm_get (pending M) recordId of
        None \<Rightarrow> (False, M)
      | Some e \<Rightarrow>
          if ar_resolvedAtMs (pe_record e) \<noteq> None then (False, M)
          else
            (let r = (pe_record e)\<lparr>ar_resolvedAtMs := Some now, ar_decision := decision,
                                   ar_resolvedBy := resolvedBy\<rparr>
             in (True,
                 M\<lparr>pending := jm_set recordId (e\<lparr>pe_record := r\<rparr>) (pending M),
                   timers := filter (\<lambda>t. fst t \<noteq> pe_serial e) (timers M),
                   cleanups := cleanups M @ [(pe_serial e, recordId)],
                   settled := settled M @ [(pe_serial e, decision)]\<rparr>)))"

definition resolveApproval ::
  "int \<Rightarrow> string \<Rightarrow> approval_decision \<Rightarrow> string option \<Rightarrow> approval_manager \<Rightarrow> bool \<times> approval_manager" where
  "resolveApproval now recordId decision resolvedBy M = settleApproval now recordId (Some decision) resolvedBy M"

definition expireApproval ::
  "int \<Rightarrow> string \<Rightarrow> string option \<Rightarrow> approval_manager \<Rightarrow> bool \<times> approval_manager" where
  "expireApproval now recordId resolvedBy M = settleApproval now recordId None resolvedBy M"

text \<open>The timer of an entry fires: \<open>this.expire(record.id)\<close>.\<close>

definition timerFires :: "int \<Rightarrow> nat \<Rightarrow> approval_manager \<Rightarrow> approval_manager" where
  "timerFires now serial M =
     (case find (\<lambda>t. fst t = serial) (timers M) of
        None \<Rightarrow> M
      | Some t \<Rightarrow> snd (expireApproval now (snd t) None (M\<lparr>timers := remove1 t (timers M)\<rparr>)))"

text \<open>The cleanup after the grace period: delete the entry unless it has been replaced.\<close>

definition cleanupFires :: "nat \<Rightarrow> approval_manager \<Rightarrow> approval_manager" where
  "cleanupFires serial M =
     (case find (\<lambda>c. fst c = serial) (cleanups M) of
        None \<Rightarrow> M
      | Some c \<Rightarrow>
          (let M = M\<lparr>cleanups := remove1 c (cleanups M)\<rparr>
           in case jm_get (pending M) (snd c) of
                Some e \<Rightarrow> if pe_serial e = serial then M\<lparr>pending := jm_delete (snd c) (pending M)\<rparr> else M
              | None \<Rightarrow> M))"

definition getSnapshot :: "string \<Rightarrow> approval_manager \<Rightarrow> approval_record option" where
  "getSnapshot recordId M = map_option pe_record (jm_get (pending M) recordId)"

definition listPendingRecords :: "approval_manager \<Rightarrow> approval_record list" where
  "listPendingRecords M =
     filter (\<lambda>r. ar_resolvedAtMs r = None) (map (pe_record \<circ> snd) (pending M))"

definition consumeAllowOnce :: "string \<Rightarrow> approval_manager \<Rightarrow> bool \<times> approval_manager" where
  "consumeAllowOnce recordId M =
     (case jm_get (pending M) recordId of
        None \<Rightarrow> (False, M)
      | Some e \<Rightarrow>
          if ar_decision (pe_record e) \<noteq> Some AllowOnce then (False, M)
          else
            (let r = (pe_record e)\<lparr>ar_consumedDecision := ar_decision (pe_record e), ar_decision := None\<rparr>
             in (True, M\<lparr>pending := jm_set recordId (e\<lparr>pe_record := r\<rparr>) (pending M),
                         consumed := consumed M @ [pe_serial e]\<rparr>)))"

definition awaitDecision :: "string \<Rightarrow> approval_manager \<Rightarrow> nat option" where
  "awaitDecision recordId M = map_option pe_serial (jm_get (pending M) recordId)"

datatype id_lookup = LookupExact string | LookupPrefix string | LookupAmbiguous "string list" | LookupNone

definition visible :: "bool \<Rightarrow> pending_entry \<Rightarrow> bool" where
  "visible includeResolved e \<longleftrightarrow> includeResolved \<or> ar_resolvedAtMs (pe_record e) = None"

definition prefixMatches :: "bool \<Rightarrow> string \<Rightarrow> approval_manager \<Rightarrow> string list" where
  "prefixMatches includeResolved normalized M =
     (let lowerPrefix = normalizeLowercaseStringOrEmpty (Some normalized)
      in map fst (filter (\<lambda>(i, e). visible includeResolved e \<and>
           js_startsWith (normalizeLowercaseStringOrEmpty (Some i)) lowerPrefix) (pending M)))"

definition lookupApprovalId :: "string \<Rightarrow> bool \<Rightarrow> approval_manager \<Rightarrow> id_lookup" where
  "lookupApprovalId inp includeResolved M =
     (let normalized = js_trim inp
      in if normalized = [] then LookupNone
         else (case jm_get (pending M) normalized of
                 Some e \<Rightarrow> if visible includeResolved e then LookupExact normalized else LookupNone
               | None \<Rightarrow>
                   (case prefixMatches includeResolved normalized M of
                      [] \<Rightarrow> LookupNone
                    | [i] \<Rightarrow> LookupPrefix i
                    | i # j # is \<Rightarrow> LookupAmbiguous (i # j # is))))"

definition lookupPendingId :: "string \<Rightarrow> approval_manager \<Rightarrow> id_lookup" where
  "lookupPendingId inp M = lookupApprovalId inp False M"

section \<open>The manager as a step relation\<close>

text \<open>
  A record handed to \<open>register\<close> comes from \<open>create\<close>, so it is unresolved; every operation and every
  callback that is still armed may come next.
\<close>

inductive approvalStep :: "approval_manager \<Rightarrow> approval_manager \<Rightarrow> bool" where
  step_register: "approvalStep M (snd (registerApproval (createApproval now uuid request timeoutMs i) M))"
| step_resolve: "approvalStep M (snd (resolveApproval now recordId decision resolvedBy M))"
| step_expire: "approvalStep M (snd (expireApproval now recordId resolvedBy M))"
| step_timer: "approvalStep M (timerFires now serial M)"
| step_cleanup: "approvalStep M (cleanupFires serial M)"
| step_consume: "approvalStep M (snd (consumeAllowOnce recordId M))"

inductive reachable :: "approval_manager \<Rightarrow> bool" where
  reach_new: "reachable newManager"
| reach_step: "reachable M \<Longrightarrow> approvalStep M M' \<Longrightarrow> reachable M'"

inductive_cases approvalStepE: "approvalStep M M'"

section \<open>Invariant\<close>

text \<open>
  An entry is unresolved exactly while its promise is open; a decision of allow-once on an entry is
  one its promise was settled with and that has not been consumed.
\<close>

definition entryOk :: "approval_manager \<Rightarrow> string \<Rightarrow> pending_entry \<Rightarrow> bool" where
  "entryOk M k e \<longleftrightarrow>
     ar_id (pe_record e) = k \<and> pe_serial e < nextSerial M \<and>
     (ar_resolvedAtMs (pe_record e) = None \<longleftrightarrow> pe_serial e \<notin> fst ` set (settled M)) \<and>
     (ar_resolvedAtMs (pe_record e) = None \<longrightarrow> ar_decision (pe_record e) = None) \<and>
     (\<forall>d. ar_decision (pe_record e) = Some d \<longrightarrow> (pe_serial e, Some d) \<in> set (settled M)) \<and>
     (ar_decision (pe_record e) = Some AllowOnce \<longrightarrow> pe_serial e \<notin> set (consumed M))"

definition approvalInv :: "approval_manager \<Rightarrow> bool" where
  "approvalInv M \<longleftrightarrow>
     jm_wf (pending M) \<and>
     (\<forall>k e. jm_get (pending M) k = Some e \<longrightarrow> entryOk M k e) \<and>
     (\<forall>k k' e e'. jm_get (pending M) k = Some e \<longrightarrow> jm_get (pending M) k' = Some e' \<longrightarrow>
        pe_serial e = pe_serial e' \<longrightarrow> k = k') \<and>
     distinct (map fst (settled M)) \<and> (\<forall>s \<in> fst ` set (settled M). s < nextSerial M) \<and>
     distinct (consumed M) \<and> (\<forall>s \<in> set (consumed M). (s, Some AllowOnce) \<in> set (settled M))"

lemmas approval_defs = approvalInv_def entryOk_def

lemma approvalInvD:
  assumes "approvalInv M" "jm_get (pending M) k = Some e"
  shows "entryOk M k e"
  using assms by (auto simp: approvalInv_def)

lemma register_inv:
  assumes inv: "approvalInv M" shows "approvalInv (snd (registerApproval (createApproval now u q t i) M))"
proof -
  define r where "r = createApproval now u q t i"
  have r: "ar_resolvedAtMs r = None" "ar_decision r = None" by (simp_all add: r_def createApproval_def Let_def)
  show ?thesis
  proof (cases "jm_get (pending M) (ar_id r)")
    case (Some e)
    with inv show ?thesis by (simp add: registerApproval_def r_def [symmetric])
  next
    case None
    define e where "e = \<lparr>pe_serial = nextSerial M, pe_record = r\<rparr>"
    define M' where "M' = M\<lparr>pending := jm_set (ar_id r) e (pending M), nextSerial := Suc (nextSerial M),
      timers := timers M @ [(nextSerial M, ar_id r)]\<rparr>"
    have fresh: "nextSerial M \<notin> fst ` set (settled M)" using inv by (auto simp: approvalInv_def)
    have old: "entryOk M k x \<Longrightarrow> entryOk M' k x" for k x by (auto simp: entryOk_def M'_def)
    have new: "entryOk M' (ar_id r) e" using fresh r by (simp add: entryOk_def M'_def e_def)
    have lt: "jm_get (pending M) k = Some x \<Longrightarrow> pe_serial x < nextSerial M" for k x
      using inv by (auto simp: approval_defs simp del: map_of_eq_Some_iff)
    have "approvalInv M'"
      unfolding approvalInv_def
    proof (intro conjI allI impI)
      fix k x assume "jm_get (pending M') k = Some x"
      with new old inv show "entryOk M' k x"
        by (auto simp: M'_def jm_get_set approvalInv_def simp del: map_of_eq_Some_iff split: if_splits)
    next
      fix k k' x x' assume "jm_get (pending M') k = Some x" "jm_get (pending M') k' = Some x'"
        "pe_serial x = pe_serial x'"
      with lt inv show "k = k'"
        by (auto simp: M'_def jm_get_set e_def approvalInv_def simp del: map_of_eq_Some_iff split: if_splits)
          (metis less_irrefl_nat)+
    qed (use inv in \<open>auto simp: approvalInv_def M'_def less_Suc_eq\<close>)
    with None show ?thesis by (simp add: registerApproval_def r_def [symmetric] M'_def e_def)
  qed
qed

text \<open>Replacing an entry's record keeps the key and the serial.\<close>

lemma update_entry_inv:
  assumes inv: "approvalInv M" and e: "jm_get (pending M) k = Some e"
    and M': "pending M' = jm_set k (e\<lparr>pe_record := r\<rparr>) (pending M)" "nextSerial M' = nextSerial M"
    and new: "entryOk M' k (e\<lparr>pe_record := r\<rparr>)"
    and old: "\<And>k' x. jm_get (pending M) k' = Some x \<Longrightarrow> pe_serial x \<noteq> pe_serial e \<Longrightarrow> entryOk M' k' x"
    and settled: "distinct (map fst (settled M'))" "\<forall>s \<in> fst ` set (settled M'). s < nextSerial M"
      "distinct (consumed M')" "\<forall>s \<in> set (consumed M'). (s, Some AllowOnce) \<in> set (settled M')"
  shows "approvalInv M'"
proof -
  have uniq: "jm_get (pending M) k1 = Some x1 \<Longrightarrow> jm_get (pending M) k2 = Some x2 \<Longrightarrow>
      pe_serial x1 = pe_serial x2 \<Longrightarrow> k1 = k2" for k1 k2 x1 x2
    using inv unfolding approvalInv_def by blast
  show ?thesis
    unfolding approvalInv_def
  proof (intro conjI allI impI)
    show "jm_wf (pending M')" using inv by (simp add: approvalInv_def M'(1))
    fix k' x assume x: "jm_get (pending M') k' = Some x"
    show "entryOk M' k' x"
    proof (cases "k' = k")
      case True
      with x new show ?thesis by (simp add: M'(1) jm_get_set)
    next
      case False
      then have x': "jm_get (pending M) k' = Some x" using x by (simp add: M'(1) jm_get_set)
      with uniq e False have "pe_serial x \<noteq> pe_serial e" by blast
      with old x' show ?thesis by blast
    qed
  next
    fix k1 k2 x1 x2
    assume "jm_get (pending M') k1 = Some x1" "jm_get (pending M') k2 = Some x2" "pe_serial x1 = pe_serial x2"
    with uniq e show "k1 = k2"
      by (auto simp: M'(1) jm_get_set simp del: map_of_eq_Some_iff split: if_splits)
  qed (use settled M'(2) in auto)
qed

lemma settle_inv:
  assumes inv: "approvalInv M" shows "approvalInv (snd (settleApproval now k d by' M))"
proof (cases "jm_get (pending M) k")
  case None
  with inv show ?thesis by (simp add: settleApproval_def)
next
  case (Some e)
  show ?thesis
  proof (cases "ar_resolvedAtMs (pe_record e) = None")
    case False
    with Some inv show ?thesis by (simp add: settleApproval_def)
  next
    case True
    note E = approvalInvD [OF inv Some]
    define r where "r = (pe_record e)\<lparr>ar_resolvedAtMs := Some now, ar_decision := d, ar_resolvedBy := by'\<rparr>"
    define M' where "M' = M\<lparr>pending := jm_set k (e\<lparr>pe_record := r\<rparr>) (pending M),
      timers := filter (\<lambda>t. fst t \<noteq> pe_serial e) (timers M), cleanups := cleanups M @ [(pe_serial e, k)],
      settled := settled M @ [(pe_serial e, d)]\<rparr>"
    have opn: "pe_serial e \<notin> fst ` set (settled M)" using E True by (simp add: entryOk_def)
    have "\<forall>s \<in> set (consumed M). (s, Some AllowOnce) \<in> set (settled M)" using inv by (simp add: approvalInv_def)
    with opn have nc: "pe_serial e \<notin> set (consumed M)" by (metis fst_conv image_eqI)
    have "approvalInv M'"
    proof (rule update_entry_inv [OF inv Some])
      show "entryOk M' k (e\<lparr>pe_record := r\<rparr>)" using E nc by (simp add: entryOk_def M'_def r_def)
      show "entryOk M' k' x" if "jm_get (pending M) k' = Some x" "pe_serial x \<noteq> pe_serial e" for k' x
        using approvalInvD [OF inv that(1)] that(2) by (auto simp: entryOk_def M'_def)
      show "\<forall>s \<in> fst ` set (settled M'). s < nextSerial M"
        using inv E by (auto simp: approvalInv_def entryOk_def M'_def)
      show "distinct (map fst (settled M'))" using inv opn by (simp add: approvalInv_def M'_def)
      show "\<forall>s \<in> set (consumed M'). (s, Some AllowOnce) \<in> set (settled M')"
        using inv by (simp add: approvalInv_def M'_def)
    qed (use inv in \<open>simp_all add: approvalInv_def M'_def\<close>)
    with Some True show ?thesis by (simp add: settleApproval_def Let_def M'_def r_def)
  qed
qed

lemma consume_inv:
  assumes inv: "approvalInv M" shows "approvalInv (snd (consumeAllowOnce k M))"
proof (cases "jm_get (pending M) k")
  case None
  with inv show ?thesis by (simp add: consumeAllowOnce_def)
next
  case (Some e)
  show ?thesis
  proof (cases "ar_decision (pe_record e) = Some AllowOnce")
    case False
    with Some inv show ?thesis by (simp add: consumeAllowOnce_def)
  next
    case True
    note E = approvalInvD [OF inv Some]
    define r where "r = (pe_record e)\<lparr>ar_consumedDecision := ar_decision (pe_record e), ar_decision := None\<rparr>"
    define M' where "M' = M\<lparr>pending := jm_set k (e\<lparr>pe_record := r\<rparr>) (pending M), consumed := consumed M @ [pe_serial e]\<rparr>"
    have "approvalInv M'"
    proof (rule update_entry_inv [OF inv Some])
      show "entryOk M' k (e\<lparr>pe_record := r\<rparr>)" using E by (auto simp: entryOk_def M'_def r_def)
      show "entryOk M' k' x" if "jm_get (pending M) k' = Some x" "pe_serial x \<noteq> pe_serial e" for k' x
        using approvalInvD [OF inv that(1)] that(2) by (auto simp: entryOk_def M'_def)
      show "distinct (consumed M')" using inv E True by (auto simp: approvalInv_def entryOk_def M'_def)
      show "\<forall>s \<in> set (consumed M'). (s, Some AllowOnce) \<in> set (settled M')"
        using inv E True by (auto simp: approvalInv_def entryOk_def M'_def)
    qed (use inv in \<open>simp_all add: approvalInv_def M'_def r_def\<close>)
    with Some True show ?thesis by (simp add: consumeAllowOnce_def Let_def M'_def r_def)
  qed
qed

lemma approvalInv_timers: "approvalInv (M\<lparr>timers := ts\<rparr>) = approvalInv M"
  "approvalInv (M\<lparr>cleanups := cs\<rparr>) = approvalInv M"
  by (simp_all add: approval_defs)

lemma timer_inv: "approvalInv M \<Longrightarrow> approvalInv (timerFires now serial M)"
  by (simp add: timerFires_def expireApproval_def settle_inv approvalInv_timers split: option.split)

lemma delete_inv: "approvalInv M \<Longrightarrow> approvalInv (M\<lparr>pending := jm_delete k (pending M)\<rparr>)"
  by (auto simp: approval_defs jm_get_delete simp del: map_of_eq_Some_iff)

lemma cleanup_inv: "approvalInv M \<Longrightarrow> approvalInv (cleanupFires serial M)"
  using delete_inv [of "M\<lparr>cleanups := cs\<rparr>" k for cs k]
  by (auto simp: cleanupFires_def Let_def approvalInv_timers split: option.split)

lemma step_inv: "approvalStep M M' \<Longrightarrow> approvalInv M \<Longrightarrow> approvalInv M'"
  by (erule approvalStepE)
    (simp_all add: register_inv resolveApproval_def expireApproval_def settle_inv timer_inv cleanup_inv consume_inv)

lemma reachable_inv: "reachable M \<Longrightarrow> approvalInv M"
proof (induction rule: reachable.induct)
  case reach_new
  then show ?case by (simp add: newManager_def approvalInv_def)
next
  case (reach_step M M')
  then show ?case by (blast intro: step_inv)
qed

section \<open>Properties\<close>

text \<open>Exactly-once settlement: in every reachable state each registration's promise has been settled
at most once (by a decision or by expiry, never both), and an entry is listed as pending exactly while
its promise is open.\<close>

theorem approval_settles_at_most_once:
  assumes "reachable M"
  shows "distinct (map fst (settled M)) \<and>
    (\<forall>k e. jm_get (pending M) k = Some e \<longrightarrow>
       (pe_record e \<in> set (listPendingRecords M) \<longleftrightarrow> pe_serial e \<notin> fst ` set (settled M)))"
proof -
  note inv = reachable_inv [OF assms]
  have "pe_record e \<in> set (listPendingRecords M) \<longleftrightarrow> pe_serial e \<notin> fst ` set (settled M)"
    if e: "jm_get (pending M) k = Some e" for k e
    using approvalInvD [OF inv e] map_of_SomeD [OF e]
    by (auto simp: entryOk_def listPendingRecords_def intro: rev_image_eqI)
  with inv show ?thesis by (simp add: approvalInv_def)
qed

definition demoApproval :: "int \<Rightarrow> approval_record" where
  "demoApproval now = createApproval now ''u'' ''ls'' 1000 (Some ''a1'')"

definition demoManager :: approval_manager where
  "demoManager = snd (resolveApproval 5 ''a1'' AllowOnce None (snd (registerApproval (demoApproval 0) newManager)))"

lemma demoManager_reachable: "reachable demoManager"
  unfolding demoManager_def demoApproval_def
  by (intro reach_step [OF reach_step [OF reach_new step_register] step_resolve])

lemmas approval_eval = demoManager_def demoApproval_def createApproval_def registerApproval_def
  resolveApproval_def settleApproval_def newManager_def js_string_defs

theorem approval_settles_at_most_once_witness:
  "distinct (map fst (settled demoManager)) \<and> settled demoManager = [(0, Some AllowOnce)]"
  using approval_settles_at_most_once [OF demoManager_reachable] by (simp add: approval_eval)

text \<open>C23. A one-time approval is spent once: every successful consumption belongs to a different
registration, one whose promise was settled with allow-once, and right after a consumption the same
approval cannot be consumed again, whatever happens inside the grace window.\<close>

theorem approval_allow_once_consumed_once:
  assumes "reachable M"
  shows "distinct (consumed M) \<and> (\<forall>s \<in> set (consumed M). (s, Some AllowOnce) \<in> set (settled M)) \<and>
    (fst (consumeAllowOnce k M) \<longrightarrow> \<not> fst (consumeAllowOnce k (snd (consumeAllowOnce k M))))"
proof -
  have "\<not> fst (consumeAllowOnce k (snd (consumeAllowOnce k M)))" if "fst (consumeAllowOnce k M)"
    using that by (auto simp: consumeAllowOnce_def Let_def jm_get_set split: option.splits if_splits)
  with reachable_inv [OF assms] show ?thesis by (simp add: approvalInv_def)
qed

theorem approval_allow_once_consumed_once_witness:
  "fst (consumeAllowOnce ''a1'' demoManager) \<and>
   \<not> fst (consumeAllowOnce ''a1'' (snd (consumeAllowOnce ''a1'' demoManager)))"
proof -
  have "fst (consumeAllowOnce ''a1'' demoManager)" by (simp add: approval_eval consumeAllowOnce_def)
  with approval_allow_once_consumed_once [OF demoManager_reachable, of "''a1''"] show ?thesis by simp
qed

text \<open>Looking up a pending approval never guesses: an exact answer names a pending unresolved entry,
a prefix answer names the only unresolved entry whose id starts with the input (case ignored), and an
ambiguous answer lists at least two of them.\<close>

theorem approval_lookup_sound:
  "case lookupPendingId inp M of
     LookupExact i \<Rightarrow> i = js_trim inp \<and> (\<exists>e. jm_get (pending M) i = Some e \<and> ar_resolvedAtMs (pe_record e) = None)
   | LookupPrefix i \<Rightarrow> prefixMatches False (js_trim inp) M = [i]
   | LookupAmbiguous is \<Rightarrow> is = prefixMatches False (js_trim inp) M \<and> 2 \<le> length is
   | LookupNone \<Rightarrow> js_trim inp = [] \<or>
       (\<exists>e. jm_get (pending M) (js_trim inp) = Some e \<and> ar_resolvedAtMs (pe_record e) \<noteq> None) \<or>
       prefixMatches False (js_trim inp) M = []"
  by (auto simp: lookupPendingId_def lookupApprovalId_def Let_def visible_def simp del: map_of_eq_Some_iff
      split: option.split list.split)

end
