(* ===== verification/TaskFlow.thy ===== *)
theory TaskFlow
  imports JsValue "HOL-Library.Extended_Nat"
begin

text \<open>
  Task flows, \<open>src/tasks/task-flow-registry.ts\<close>: the registry of flow records with optimistic
  concurrency (a revision per record), the lifecycle operations on it, the mirroring of tasks, and
  the owner-scoped queries of \<open>src/tasks/task-flow-owner-access.ts\<close>.

  The registry is restored from a store when it is first used and writes through to it.  The store
  (\<open>src/tasks/task-flow-registry.store.ts\<close>) is an interface with a state of type \<open>'st\<close>: every call
  may throw, \<open>upsertFlow\<close> and \<open>deleteFlow\<close> are optional.  Exceptions are the left values of a sum,
  and the registry after a throwing operation is returned as well, because the code changes its map
  before it calls the store.  \<open>fr_events\<close> lists the observer events.  Record values are immutable
  here, so \<open>cloneFlowRecord\<close> is the identity; a delivery context is opaque; times and revisions are
  integral.
\<close>

section \<open>Data\<close>

datatype flow_sync_mode = TaskMirrored | Managed

datatype flow_status =
  FsQueued | FsRunning | FsWaiting | FsBlocked | FsSucceeded | FsFailed | FsCancelled | FsLost

datatype task_status =
  TsQueued | TsRunning | TsSucceeded | TsFailed | TsTimedOut | TsCancelled | TsLost

datatype notify_policy = DoneOnly | StateChanges | Silent

datatype task_outcome = OutcomeSucceeded | OutcomeBlocked

record task_flow =
  tf_flowId :: string
  tf_syncMode :: flow_sync_mode
  tf_ownerKey :: string
  tf_requesterOrigin :: "string option"
  tf_controllerId :: "string option"
  tf_revision :: int
  tf_status :: flow_status
  tf_notifyPolicy :: notify_policy
  tf_goal :: string
  tf_currentStep :: "string option"
  tf_blockedTaskId :: "string option"
  tf_blockedSummary :: "string option"
  tf_stateJson :: "jsval option"
  tf_waitJson :: "jsval option"
  tf_cancelRequestedAt :: "int option"
  tf_createdAt :: int
  tf_updatedAt :: int
  tf_endedAt :: "int option"

text \<open>The fields of a \<open>TaskRecord\<close> the flow registry reads.\<close>

record task_record =
  tr_taskId :: string
  tr_parentFlowId :: "string option"
  tr_ownerKey :: string
  tr_label :: "string option"
  tr_task :: string
  tr_status :: task_status
  tr_notifyPolicy :: notify_policy
  tr_createdAt :: int
  tr_endedAt :: "int option"
  tr_lastEventAt :: "int option"
  tr_progressSummary :: "string option"
  tr_terminalSummary :: "string option"
  tr_terminalOutcome :: "task_outcome option"

text \<open>A patch field of type \<open>T | null | undefined\<close>: undefined keeps, null clears.\<close>

datatype 'a nullable = Undef | Null | Val 'a

fun nullableOr :: "'a nullable \<Rightarrow> 'a option \<Rightarrow> 'a option" where
  "nullableOr Undef current = current"
| "nullableOr Null current = None"
| "nullableOr (Val v) current = Some v"

fun nullableString :: "string nullable \<Rightarrow> string option \<Rightarrow> string option" where
  "nullableString Undef current = current"
| "nullableString Null current = None"
| "nullableString (Val s) current = normalizeOptionalString (Some s)"

fun nullableValue :: "'a nullable \<Rightarrow> 'a option" where
  "nullableValue (Val v) = Some v"
| "nullableValue _ = None"

record flow_patch =
  fp_status :: "flow_status option"
  fp_notifyPolicy :: "notify_policy option"
  fp_goal :: "string option"
  fp_currentStep :: "string nullable"
  fp_blockedTaskId :: "string nullable"
  fp_blockedSummary :: "string nullable"
  fp_controllerId :: "string nullable"
  fp_stateJson :: "jsval option"
  fp_waitJson :: "jsval option"
  fp_cancelRequestedAt :: "int nullable"
  fp_updatedAt :: "int option"
  fp_endedAt :: "int nullable"

definition emptyPatch :: flow_patch where
  "emptyPatch = \<lparr>fp_status = None, fp_notifyPolicy = None, fp_goal = None, fp_currentStep = Undef,
     fp_blockedTaskId = Undef, fp_blockedSummary = Undef, fp_controllerId = Undef,
     fp_stateJson = None, fp_waitJson = None, fp_cancelRequestedAt = Undef,
     fp_updatedAt = None, fp_endedAt = Undef\<rparr>"

record create_params =
  cp_syncMode :: "flow_sync_mode option"
  cp_ownerKey :: string
  cp_requesterOrigin :: "string option"
  cp_controllerId :: "string option"
  cp_revision :: "int option"
  cp_status :: "flow_status option"
  cp_notifyPolicy :: "notify_policy option"
  cp_goal :: string
  cp_currentStep :: "string option"
  cp_blockedTaskId :: "string option"
  cp_blockedSummary :: "string option"
  cp_stateJson :: "jsval option"
  cp_waitJson :: "jsval option"
  cp_cancelRequestedAt :: "int option"
  cp_createdAt :: "int option"
  cp_updatedAt :: "int option"
  cp_endedAt :: "int option"

datatype flow_error = OwnerKeyRequired | ControllerIdRequired | StoreThrew string

text \<open>\<open>formatErrorMessage(error)\<close> of the errors the restore can meet.\<close>

fun flowErrorMessage :: "flow_error \<Rightarrow> string" where
  "flowErrorMessage OwnerKeyRequired = ''Flow ownerKey is required.''"
| "flowErrorMessage ControllerIdRequired = ''Managed flow controllerId is required.''"
| "flowErrorMessage (StoreThrew e) = e"

datatype flow_event =
  FlowsRestored "task_flow list"
| FlowUpserted task_flow "task_flow option"
| FlowDeleted string task_flow

record 'st flow_store =
  loadSnapshot :: "'st \<Rightarrow> (string + (string \<times> task_flow) list) \<times> 'st"
  saveSnapshot :: "(string \<times> task_flow) list \<Rightarrow> 'st \<Rightarrow> string option \<times> 'st"
  upsertFlow :: "(task_flow \<Rightarrow> 'st \<Rightarrow> string option \<times> 'st) option"
  deleteFlow :: "(string \<Rightarrow> 'st \<Rightarrow> string option \<times> 'st) option"

record 'st flow_registry =
  fr_flows :: "(string, task_flow) jsmap"
  fr_restoreAttempted :: bool
  fr_restoreFailure :: "string option"
  fr_store :: 'st
  fr_events :: "flow_event list"

text \<open>The module as it is loaded, over the store as it is.\<close>

definition initFlowRegistry :: "'st \<Rightarrow> 'st flow_registry" where
  "initFlowRegistry st = \<lparr>fr_flows = [], fr_restoreAttempted = False, fr_restoreFailure = None,
     fr_store = st, fr_events = []\<rparr>"

section \<open>Normalisation and derivation\<close>

definition assertFlowOwnerKey :: "string \<Rightarrow> flow_error + string" where
  "assertFlowOwnerKey ownerKey =
     (case normalizeOptionalString (Some ownerKey) of None \<Rightarrow> Inl OwnerKeyRequired | Some k \<Rightarrow> Inr k)"

definition assertControllerId :: "string option \<Rightarrow> flow_error + string" where
  "assertControllerId controllerId =
     (case normalizeOptionalString controllerId of None \<Rightarrow> Inl ControllerIdRequired | Some c \<Rightarrow> Inr c)"

definition ensureNotifyPolicy :: "notify_policy option \<Rightarrow> notify_policy" where
  "ensureNotifyPolicy p = (case p of None \<Rightarrow> DoneOnly | Some q \<Rightarrow> q)"

fun legacyControllerId :: "unit \<Rightarrow> string" where
  "legacyControllerId _ = ''core/legacy-restored''"

text \<open>A mirrored record keeps the \<open>controllerId\<close> it was stored with, through the spread.\<close>

definition normalizeRestoredFlowRecord :: "task_flow \<Rightarrow> flow_error + task_flow" where
  "normalizeRestoredFlowRecord r =
     (let controllerId = (if tf_syncMode r = Managed
                          then (case normalizeOptionalString (tf_controllerId r) of
                                  None \<Rightarrow> Some (legacyControllerId ()) | Some c \<Rightarrow> Some c)
                          else None)
      in case assertFlowOwnerKey (tf_ownerKey r) of
           Inl e \<Rightarrow> Inl e
         | Inr ownerKey \<Rightarrow>
             Inr (r\<lparr>tf_ownerKey := ownerKey,
                    tf_controllerId := (case controllerId of None \<Rightarrow> tf_controllerId r | Some c \<Rightarrow> Some c),
                    tf_currentStep := normalizeOptionalString (tf_currentStep r),
                    tf_blockedTaskId := normalizeOptionalString (tf_blockedTaskId r),
                    tf_blockedSummary := normalizeOptionalString (tf_blockedSummary r),
                    tf_revision := max 0 (tf_revision r)\<rparr>))"

definition resolveFlowBlockedSummary :: "task_record \<Rightarrow> string option" where
  "resolveFlowBlockedSummary t =
     (if tr_status t \<noteq> TsSucceeded \<or> tr_terminalOutcome t \<noteq> Some OutcomeBlocked then None
      else case normalizeOptionalString (tr_terminalSummary t) of
             Some s \<Rightarrow> Some s
           | None \<Rightarrow> normalizeOptionalString (tr_progressSummary t))"

definition deriveTaskFlowStatusFromTask :: "task_record \<Rightarrow> flow_status" where
  "deriveTaskFlowStatusFromTask t =
     (if tr_status t = TsQueued then FsQueued
      else if tr_status t = TsRunning then FsRunning
      else if tr_status t = TsSucceeded then
        (if tr_terminalOutcome t = Some OutcomeBlocked then FsBlocked else FsSucceeded)
      else if tr_status t = TsCancelled then FsCancelled
      else if tr_status t = TsLost then FsLost
      else FsFailed)"

definition isTerminalTaskFlowStatus :: "flow_status \<Rightarrow> bool" where
  "isTerminalTaskFlowStatus s \<longleftrightarrow>
     s = FsSucceeded \<or> s = FsBlocked \<or> s = FsFailed \<or> s = FsCancelled \<or> s = FsLost"

text \<open>\<open>a ?? b\<close> on optional values.\<close>

definition orElse :: "'a option \<Rightarrow> 'a \<Rightarrow> 'a" where
  "orElse v d = (case v of None \<Rightarrow> d | Some x \<Rightarrow> x)"

definition resolveTaskMirroredFlowTiming ::
  "int \<Rightarrow> int option \<Rightarrow> int option \<Rightarrow> bool \<Rightarrow> int \<times> int option" where
  "resolveTaskMirroredFlowTiming createdAt lastEventAt endedAt isTerminal =
     (if \<not> isTerminal then (orElse lastEventAt createdAt, None)
      else (let e = orElse endedAt (orElse lastEventAt createdAt) in (e, Some e)))"

text \<open>\<open>normalizeOptionalString(label) ?? (task.trim() || "Background task")\<close>\<close>

definition mirroredGoal :: "string option \<Rightarrow> string \<Rightarrow> string" where
  "mirroredGoal label task =
     (case normalizeOptionalString label of
        Some l \<Rightarrow> l
      | None \<Rightarrow> if js_trim task = [] then ''Background task'' else js_trim task)"

definition buildFlowRecord :: "int \<Rightarrow> string \<Rightarrow> create_params \<Rightarrow> flow_error + task_flow" where
  "buildFlowRecord clock uuid p =
     (let now = orElse (cp_createdAt p) clock;
          syncMode = orElse (cp_syncMode p) Managed
      in case (if syncMode = Managed then map_sum id Some (assertControllerId (cp_controllerId p)) else Inr None) of
           Inl e \<Rightarrow> Inl e
         | Inr controllerId \<Rightarrow>
             (case assertFlowOwnerKey (cp_ownerKey p) of
                Inl e \<Rightarrow> Inl e
              | Inr ownerKey \<Rightarrow>
                  Inr \<lparr>tf_flowId = uuid, tf_syncMode = syncMode, tf_ownerKey = ownerKey,
                       tf_requesterOrigin = cp_requesterOrigin p, tf_controllerId = controllerId,
                       tf_revision = max 0 (orElse (cp_revision p) 0),
                       tf_status = orElse (cp_status p) FsQueued,
                       tf_notifyPolicy = ensureNotifyPolicy (cp_notifyPolicy p),
                       tf_goal = cp_goal p,
                       tf_currentStep = normalizeOptionalString (cp_currentStep p),
                       tf_blockedTaskId = normalizeOptionalString (cp_blockedTaskId p),
                       tf_blockedSummary = normalizeOptionalString (cp_blockedSummary p),
                       tf_stateJson = cp_stateJson p, tf_waitJson = cp_waitJson p,
                       tf_cancelRequestedAt = cp_cancelRequestedAt p,
                       tf_createdAt = now, tf_updatedAt = orElse (cp_updatedAt p) now,
                       tf_endedAt = cp_endedAt p\<rparr>))"

definition applyFlowPatch :: "int \<Rightarrow> task_flow \<Rightarrow> flow_patch \<Rightarrow> flow_error + task_flow" where
  "applyFlowPatch clock current patch =
     (let controllerId = nullableString (fp_controllerId patch) (tf_controllerId current)
      in case (if tf_syncMode current = Managed then map_sum id (\<lambda>_. ()) (assertControllerId controllerId)
               else Inr ()) of
           Inl e \<Rightarrow> Inl e
         | Inr _ \<Rightarrow>
             Inr (current\<lparr>tf_status := orElse (fp_status patch) (tf_status current),
                    tf_notifyPolicy := orElse (fp_notifyPolicy patch) (tf_notifyPolicy current),
                    tf_goal := (case fp_goal patch of
                                  None \<Rightarrow> tf_goal current
                                | Some g \<Rightarrow> if g = [] then tf_goal current else g),
                    tf_controllerId := controllerId,
                    tf_currentStep := nullableString (fp_currentStep patch) (tf_currentStep current),
                    tf_blockedTaskId := nullableString (fp_blockedTaskId patch) (tf_blockedTaskId current),
                    tf_blockedSummary := nullableString (fp_blockedSummary patch) (tf_blockedSummary current),
                    tf_stateJson := (case fp_stateJson patch of None \<Rightarrow> tf_stateJson current | Some v \<Rightarrow> Some v),
                    tf_waitJson := (case fp_waitJson patch of None \<Rightarrow> tf_waitJson current | Some v \<Rightarrow> Some v),
                    tf_cancelRequestedAt := nullableOr (fp_cancelRequestedAt patch) (tf_cancelRequestedAt current),
                    tf_revision := tf_revision current + 1,
                    tf_updatedAt := orElse (fp_updatedAt patch) clock,
                    tf_endedAt := nullableOr (fp_endedAt patch) (tf_endedAt current)\<rparr>))"

section \<open>Restoring and persisting\<close>

definition emitFlowEvent :: "flow_event \<Rightarrow> 'st flow_registry \<Rightarrow> 'st flow_registry" where
  "emitFlowEvent ev R = R\<lparr>fr_events := fr_events R @ [ev]\<rparr>"

text \<open>The loop over the snapshot; the first record without an owner key throws.\<close>

fun restoreFlows ::
  "(string \<times> task_flow) list \<Rightarrow> (string, task_flow) jsmap \<Rightarrow> flow_error + (string, task_flow) jsmap" where
  "restoreFlows [] m = Inr m"
| "restoreFlows ((flowId, flow) # rest) m =
     (case normalizeRestoredFlowRecord flow of
        Inl e \<Rightarrow> Inl e
      | Inr f \<Rightarrow> restoreFlows rest (jm_set flowId f m))"

definition ensureFlowRegistryReady :: "'st flow_store \<Rightarrow> 'st flow_registry \<Rightarrow> 'st flow_registry" where
  "ensureFlowRegistryReady S R =
     (if fr_restoreAttempted R then R
      else
        (let (loaded, st) = loadSnapshot S (fr_store R);
             R = R\<lparr>fr_restoreAttempted := True, fr_store := st\<rparr>
         in case (case loaded of Inl e \<Rightarrow> Inl (StoreThrew e) | Inr snap \<Rightarrow> restoreFlows snap []) of
              Inl e \<Rightarrow> R\<lparr>fr_flows := [], fr_restoreFailure := Some (flowErrorMessage e)\<rparr>
            | Inr m \<Rightarrow>
                emitFlowEvent (FlowsRestored (map snd m)) (R\<lparr>fr_flows := m, fr_restoreFailure := None\<rparr>)))"

definition getTaskFlowRegistryRestoreFailure ::
  "'st flow_store \<Rightarrow> 'st flow_registry \<Rightarrow> string option \<times> 'st flow_registry" where
  "getTaskFlowRegistryRestoreFailure S R =
     (let R = ensureFlowRegistryReady S R in (fr_restoreFailure R, R))"

definition persistFlowRegistry :: "'st flow_store \<Rightarrow> 'st flow_registry \<Rightarrow> string option \<times> 'st flow_registry" where
  "persistFlowRegistry S R =
     (let snapshot = foldl (\<lambda>m f. jm_set (tf_flowId f) f m) [] (map snd (fr_flows R));
          (e, st) = saveSnapshot S snapshot (fr_store R)
      in (e, R\<lparr>fr_store := st\<rparr>))"

definition persistFlowUpsert ::
  "'st flow_store \<Rightarrow> task_flow \<Rightarrow> 'st flow_registry \<Rightarrow> string option \<times> 'st flow_registry" where
  "persistFlowUpsert S flow R =
     (case upsertFlow S of
        Some up \<Rightarrow> (let (e, st) = up flow (fr_store R) in (e, R\<lparr>fr_store := st\<rparr>))
      | None \<Rightarrow> persistFlowRegistry S R)"

definition persistFlowDelete ::
  "'st flow_store \<Rightarrow> string \<Rightarrow> 'st flow_registry \<Rightarrow> string option \<times> 'st flow_registry" where
  "persistFlowDelete S flowId R =
     (case deleteFlow S of
        Some del \<Rightarrow> (let (e, st) = del flowId (fr_store R) in (e, R\<lparr>fr_store := st\<rparr>))
      | None \<Rightarrow> persistFlowRegistry S R)"

type_synonym ('a, 'st) flow_result = "(flow_error + 'a) \<times> 'st flow_registry"

definition writeFlowRecord ::
  "'st flow_store \<Rightarrow> task_flow \<Rightarrow> task_flow option \<Rightarrow> 'st flow_registry \<Rightarrow> (task_flow, 'st) flow_result" where
  "writeFlowRecord S next_flow previous R =
     (let R = R\<lparr>fr_flows := jm_set (tf_flowId next_flow) next_flow (fr_flows R)\<rparr>
      in case persistFlowUpsert S next_flow R of
           (Some e, R) \<Rightarrow> (Inl (StoreThrew e), R)
         | (None, R) \<Rightarrow> (Inr next_flow, emitFlowEvent (FlowUpserted next_flow previous) R))"

section \<open>Creating\<close>

definition createFlowRecord ::
  "'st flow_store \<Rightarrow> int \<Rightarrow> string \<Rightarrow> create_params \<Rightarrow> 'st flow_registry \<Rightarrow> (task_flow, 'st) flow_result" where
  "createFlowRecord S clock uuid p R =
     (let R = ensureFlowRegistryReady S R
      in case buildFlowRecord clock uuid p of
           Inl e \<Rightarrow> (Inl e, R)
         | Inr r \<Rightarrow> writeFlowRecord S r None R)"

definition createManagedTaskFlow ::
  "'st flow_store \<Rightarrow> int \<Rightarrow> string \<Rightarrow> create_params \<Rightarrow> 'st flow_registry \<Rightarrow> (task_flow, 'st) flow_result" where
  "createManagedTaskFlow S clock uuid p R =
     (case assertControllerId (cp_controllerId p) of
        Inl e \<Rightarrow> (Inl e, R)
      | Inr c \<Rightarrow> createFlowRecord S clock uuid (p\<lparr>cp_syncMode := Some Managed, cp_controllerId := Some c\<rparr>) R)"

definition createTaskFlowForTask ::
  "'st flow_store \<Rightarrow> int \<Rightarrow> string \<Rightarrow> task_record \<Rightarrow> string option \<Rightarrow> 'st flow_registry \<Rightarrow>
   (task_flow, 'st) flow_result" where
  "createTaskFlowForTask S clock uuid t requesterOrigin R =
     (let terminalFlowStatus = deriveTaskFlowStatusFromTask t;
          timing = resolveTaskMirroredFlowTiming (tr_createdAt t) (tr_lastEventAt t) (tr_endedAt t)
                     (isTerminalTaskFlowStatus terminalFlowStatus)
      in createFlowRecord S clock uuid
           \<lparr>cp_syncMode = Some TaskMirrored, cp_ownerKey = tr_ownerKey t,
            cp_requesterOrigin = requesterOrigin, cp_controllerId = None, cp_revision = None,
            cp_status = Some terminalFlowStatus, cp_notifyPolicy = Some (tr_notifyPolicy t),
            cp_goal = mirroredGoal (tr_label t) (tr_task t), cp_currentStep = None,
            cp_blockedTaskId = (if terminalFlowStatus = FsBlocked
                                then normalizeOptionalString (Some (tr_taskId t)) else None),
            cp_blockedSummary = resolveFlowBlockedSummary t, cp_stateJson = None, cp_waitJson = None,
            cp_cancelRequestedAt = None, cp_createdAt = Some (tr_createdAt t),
            cp_updatedAt = Some (fst timing), cp_endedAt = snd timing\<rparr> R)"

section \<open>Updating\<close>

datatype flow_update =
  Applied task_flow
| FlowNotFound
| RevisionConflict task_flow

definition patchAndWrite ::
  "'st flow_store \<Rightarrow> int \<Rightarrow> task_flow \<Rightarrow> flow_patch \<Rightarrow> 'st flow_registry \<Rightarrow> (task_flow, 'st) flow_result" where
  "patchAndWrite S clock current patch R =
     (case applyFlowPatch clock current patch of
        Inl e \<Rightarrow> (Inl e, R)
      | Inr next_flow \<Rightarrow> writeFlowRecord S next_flow (Some current) R)"

definition updateFlowRecordByIdUnchecked ::
  "'st flow_store \<Rightarrow> int \<Rightarrow> string \<Rightarrow> flow_patch \<Rightarrow> 'st flow_registry \<Rightarrow> (task_flow option, 'st) flow_result" where
  "updateFlowRecordByIdUnchecked S clock flowId patch R =
     (let R = ensureFlowRegistryReady S R
      in case jm_get (fr_flows R) flowId of
           None \<Rightarrow> (Inr None, R)
         | Some current \<Rightarrow> map_prod (map_sum id Some) id (patchAndWrite S clock current patch R))"

definition updateFlowRecordByIdExpectedRevision ::
  "'st flow_store \<Rightarrow> int \<Rightarrow> string \<Rightarrow> int \<Rightarrow> flow_patch \<Rightarrow> 'st flow_registry \<Rightarrow> (flow_update, 'st) flow_result" where
  "updateFlowRecordByIdExpectedRevision S clock flowId expectedRevision patch R =
     (let R = ensureFlowRegistryReady S R
      in case jm_get (fr_flows R) flowId of
           None \<Rightarrow> (Inr FlowNotFound, R)
         | Some current \<Rightarrow>
             if tf_revision current \<noteq> expectedRevision then (Inr (RevisionConflict current), R)
             else map_prod (map_sum id Applied) id (patchAndWrite S clock current patch R))"

text \<open>The parameter objects of the lifecycle operations; each operation reads its own fields.\<close>

record flow_change =
  fc_flowId :: string
  fc_expectedRevision :: int
  fc_status :: "flow_status option"
  fc_currentStep :: "string nullable"
  fc_stateJson :: "jsval option"
  fc_waitJson :: "jsval option"
  fc_blockedTaskId :: "string nullable"
  fc_blockedSummary :: "string nullable"
  fc_cancelRequestedAt :: "int option"
  fc_updatedAt :: "int option"
  fc_endedAt :: "int option"

definition setFlowWaiting ::
  "'st flow_store \<Rightarrow> int \<Rightarrow> flow_change \<Rightarrow> 'st flow_registry \<Rightarrow> (flow_update, 'st) flow_result" where
  "setFlowWaiting S clock c R =
     updateFlowRecordByIdExpectedRevision S clock (fc_flowId c) (fc_expectedRevision c)
       (emptyPatch\<lparr>fp_status := Some (if normalizeOptionalString (nullableValue (fc_blockedTaskId c)) \<noteq> None
                                       \<or> normalizeOptionalString (nullableValue (fc_blockedSummary c)) \<noteq> None
                                      then FsBlocked else FsWaiting),
                   fp_currentStep := fc_currentStep c, fp_stateJson := fc_stateJson c,
                   fp_waitJson := fc_waitJson c, fp_blockedTaskId := fc_blockedTaskId c,
                   fp_blockedSummary := fc_blockedSummary c, fp_endedAt := Null,
                   fp_updatedAt := fc_updatedAt c\<rparr>) R"

definition resumeFlow ::
  "'st flow_store \<Rightarrow> int \<Rightarrow> flow_change \<Rightarrow> 'st flow_registry \<Rightarrow> (flow_update, 'st) flow_result" where
  "resumeFlow S clock c R =
     updateFlowRecordByIdExpectedRevision S clock (fc_flowId c) (fc_expectedRevision c)
       (emptyPatch\<lparr>fp_status := Some (orElse (fc_status c) FsQueued),
                   fp_currentStep := fc_currentStep c, fp_stateJson := fc_stateJson c,
                   fp_waitJson := Some JNull, fp_blockedTaskId := Null, fp_blockedSummary := Null,
                   fp_endedAt := Null, fp_updatedAt := fc_updatedAt c\<rparr>) R"

definition finishFlow ::
  "'st flow_store \<Rightarrow> int \<Rightarrow> flow_change \<Rightarrow> 'st flow_registry \<Rightarrow> (flow_update, 'st) flow_result" where
  "finishFlow S clock c R =
     (let endedAt = orElse (fc_endedAt c) (orElse (fc_updatedAt c) clock)
      in updateFlowRecordByIdExpectedRevision S clock (fc_flowId c) (fc_expectedRevision c)
           (emptyPatch\<lparr>fp_status := Some FsSucceeded,
                       fp_currentStep := fc_currentStep c, fp_stateJson := fc_stateJson c,
                       fp_waitJson := Some JNull, fp_blockedTaskId := Null, fp_blockedSummary := Null,
                       fp_endedAt := Val endedAt,
                       fp_updatedAt := Some (orElse (fc_updatedAt c) endedAt)\<rparr>) R)"

definition failFlow ::
  "'st flow_store \<Rightarrow> int \<Rightarrow> flow_change \<Rightarrow> 'st flow_registry \<Rightarrow> (flow_update, 'st) flow_result" where
  "failFlow S clock c R =
     (let endedAt = orElse (fc_endedAt c) (orElse (fc_updatedAt c) clock)
      in updateFlowRecordByIdExpectedRevision S clock (fc_flowId c) (fc_expectedRevision c)
           (emptyPatch\<lparr>fp_status := Some FsFailed,
                       fp_currentStep := fc_currentStep c, fp_stateJson := fc_stateJson c,
                       fp_waitJson := Some JNull, fp_blockedTaskId := fc_blockedTaskId c,
                       fp_blockedSummary := fc_blockedSummary c,
                       fp_endedAt := Val endedAt,
                       fp_updatedAt := Some (orElse (fc_updatedAt c) endedAt)\<rparr>) R)"

definition requestFlowCancel ::
  "'st flow_store \<Rightarrow> int \<Rightarrow> flow_change \<Rightarrow> 'st flow_registry \<Rightarrow> (flow_update, 'st) flow_result" where
  "requestFlowCancel S clock c R =
     updateFlowRecordByIdExpectedRevision S clock (fc_flowId c) (fc_expectedRevision c)
       (emptyPatch\<lparr>fp_cancelRequestedAt := Val (orElse (fc_cancelRequestedAt c) (orElse (fc_updatedAt c) clock)),
                   fp_updatedAt := fc_updatedAt c\<rparr>) R"

section \<open>Reading\<close>

definition getTaskFlowById ::
  "'st flow_store \<Rightarrow> string \<Rightarrow> 'st flow_registry \<Rightarrow> task_flow option \<times> 'st flow_registry" where
  "getTaskFlowById S flowId R = (let R = ensureFlowRegistryReady S R in (jm_get (fr_flows R) flowId, R))"

definition newestFirst :: "task_flow \<Rightarrow> task_flow \<Rightarrow> int" where
  "newestFirst l r = tf_createdAt r - tf_createdAt l"

definition listTaskFlowsForOwnerKey ::
  "'st flow_store \<Rightarrow> string \<Rightarrow> 'st flow_registry \<Rightarrow> task_flow list \<times> 'st flow_registry" where
  "listTaskFlowsForOwnerKey S ownerKey R =
     (let R = ensureFlowRegistryReady S R
      in if js_trim ownerKey = [] then ([], R)
         else (js_toSorted newestFirst
                 (filter (\<lambda>f. js_trim (tf_ownerKey f) = js_trim ownerKey) (map snd (fr_flows R))), R))"

text \<open>\<open>xs[0]\<close>\<close>

definition firstOf :: "'a list \<Rightarrow> 'a option" where
  "firstOf xs = (case xs of [] \<Rightarrow> None | x # _ \<Rightarrow> Some x)"

definition findLatestTaskFlowForOwnerKey ::
  "'st flow_store \<Rightarrow> string \<Rightarrow> 'st flow_registry \<Rightarrow> task_flow option \<times> 'st flow_registry" where
  "findLatestTaskFlowForOwnerKey S ownerKey R =
     (let (fs, R) = listTaskFlowsForOwnerKey S ownerKey R in (firstOf fs, R))"

definition resolveTaskFlowForLookupToken ::
  "'st flow_store \<Rightarrow> string \<Rightarrow> 'st flow_registry \<Rightarrow> task_flow option \<times> 'st flow_registry" where
  "resolveTaskFlowForLookupToken S token R =
     (if js_trim token = [] then (None, R)
      else case getTaskFlowById S (js_trim token) R of
             (Some f, R) \<Rightarrow> (Some f, R)
           | (None, R) \<Rightarrow> findLatestTaskFlowForOwnerKey S (js_trim token) R)"

definition listTaskFlowRecords ::
  "'st flow_store \<Rightarrow> 'st flow_registry \<Rightarrow> task_flow list \<times> 'st flow_registry" where
  "listTaskFlowRecords S R =
     (let R = ensureFlowRegistryReady S R in (js_toSorted newestFirst (map snd (fr_flows R)), R))"

section \<open>Mirroring and deleting\<close>

text \<open>The patch \<open>syncFlowFromTask\<close> writes.\<close>

definition mirrorPatch :: "task_record \<Rightarrow> task_flow \<Rightarrow> flow_patch" where
  "mirrorPatch t flow =
     (let terminalFlowStatus = deriveTaskFlowStatusFromTask t;
          isTerminal = isTerminalTaskFlowStatus terminalFlowStatus;
          timing = resolveTaskMirroredFlowTiming (tf_createdAt flow) (tr_lastEventAt t)
                     (tr_endedAt t) isTerminal
      in emptyPatch\<lparr>fp_status := Some terminalFlowStatus,
           fp_notifyPolicy := Some (tr_notifyPolicy t),
           fp_goal := Some (mirroredGoal (tr_label t) (tr_task t)),
           fp_blockedTaskId :=
             (if terminalFlowStatus = FsBlocked \<and> js_trim (tr_taskId t) \<noteq> []
              then Val (js_trim (tr_taskId t)) else Null),
           fp_blockedSummary :=
             (if terminalFlowStatus = FsBlocked
              then (case resolveFlowBlockedSummary t of None \<Rightarrow> Null | Some s \<Rightarrow> Val s)
              else Null),
           fp_waitJson := Some JNull,
           fp_updatedAt := Some (fst timing),
           fp_endedAt := (if isTerminal then Val (orElse (snd timing) (fst timing)) else Null)\<rparr>)"

definition syncFlowFromTask ::
  "'st flow_store \<Rightarrow> int \<Rightarrow> task_record \<Rightarrow> 'st flow_registry \<Rightarrow> (task_flow option, 'st) flow_result" where
  "syncFlowFromTask S clock t R =
     (case map_option js_trim (tr_parentFlowId t) of
        None \<Rightarrow> (Inr None, R)
      | Some flowId \<Rightarrow>
          if flowId = [] then (Inr None, R)
          else
            (case getTaskFlowById S flowId R of
               (None, R) \<Rightarrow> (Inr None, R)
             | (Some flow, R) \<Rightarrow>
                 if tf_syncMode flow \<noteq> TaskMirrored then (Inr (Some flow), R)
                 else updateFlowRecordByIdUnchecked S clock flowId (mirrorPatch t flow) R))"

definition dropFlowRecord ::
  "'st flow_store \<Rightarrow> string \<Rightarrow> task_flow \<Rightarrow> 'st flow_registry \<Rightarrow> (bool, 'st) flow_result" where
  "dropFlowRecord S flowId current R =
     (let R = R\<lparr>fr_flows := jm_delete flowId (fr_flows R)\<rparr>
      in case persistFlowDelete S flowId R of
           (Some e, R) \<Rightarrow> (Inl (StoreThrew e), R)
         | (None, R) \<Rightarrow> (Inr True, emitFlowEvent (FlowDeleted flowId current) R))"

definition deleteTaskFlowRecordById ::
  "'st flow_store \<Rightarrow> string \<Rightarrow> 'st flow_registry \<Rightarrow> (bool, 'st) flow_result" where
  "deleteTaskFlowRecordById S flowId R =
     (let R = ensureFlowRegistryReady S R
      in case jm_get (fr_flows R) flowId of
           None \<Rightarrow> (Inr False, R)
         | Some current \<Rightarrow> dropFlowRecord S flowId current R)"

section \<open>Access by owner\<close>

definition getTaskFlowByIdForOwner ::
  "'st flow_store \<Rightarrow> string \<Rightarrow> string \<Rightarrow> 'st flow_registry \<Rightarrow> task_flow option \<times> 'st flow_registry" where
  "getTaskFlowByIdForOwner S flowId callerOwnerKey R =
     (case getTaskFlowById S flowId R of
        (Some f, R) \<Rightarrow>
          (if normalizeOptionalString (Some (tf_ownerKey f)) = normalizeOptionalString (Some callerOwnerKey)
           then Some f else None, R)
      | (None, R) \<Rightarrow> (None, R))"

definition listTaskFlowsForOwner ::
  "'st flow_store \<Rightarrow> string \<Rightarrow> 'st flow_registry \<Rightarrow> task_flow list \<times> 'st flow_registry" where
  "listTaskFlowsForOwner S callerOwnerKey R =
     (case normalizeOptionalString (Some callerOwnerKey) of
        None \<Rightarrow> ([], R) | Some k \<Rightarrow> listTaskFlowsForOwnerKey S k R)"

definition findLatestTaskFlowForOwner ::
  "'st flow_store \<Rightarrow> string \<Rightarrow> 'st flow_registry \<Rightarrow> task_flow option \<times> 'st flow_registry" where
  "findLatestTaskFlowForOwner S callerOwnerKey R =
     (case normalizeOptionalString (Some callerOwnerKey) of
        None \<Rightarrow> (None, R) | Some k \<Rightarrow> findLatestTaskFlowForOwnerKey S k R)"

definition resolveTaskFlowForLookupTokenForOwner ::
  "'st flow_store \<Rightarrow> string \<Rightarrow> string \<Rightarrow> 'st flow_registry \<Rightarrow> task_flow option \<times> 'st flow_registry" where
  "resolveTaskFlowForLookupTokenForOwner S token callerOwnerKey R =
     (case getTaskFlowByIdForOwner S token callerOwnerKey R of
        (Some f, R) \<Rightarrow> (Some f, R)
      | (None, R) \<Rightarrow>
          (case normalizeOptionalString (Some token) of
             None \<Rightarrow> (None, R)
           | Some t \<Rightarrow>
               if normalizeOptionalString (Some callerOwnerKey) \<noteq> Some t then (None, R)
               else findLatestTaskFlowForOwner S t R))"

section \<open>The registry as a system\<close>

datatype flow_op =
  OpCreate int string create_params
| OpCreateManaged int string create_params
| OpCreateForTask int string task_record "string option"
| OpUpdate int string int flow_patch
| OpSetWaiting int flow_change
| OpResume int flow_change
| OpFinish int flow_change
| OpFail int flow_change
| OpCancel int flow_change
| OpSync int task_record
| OpDelete string
| OpQuery string

fun flowStep :: "'st flow_store \<Rightarrow> 'st flow_registry \<Rightarrow> flow_op \<Rightarrow> 'st flow_registry" where
  "flowStep S R (OpCreate clock uuid p) = snd (createFlowRecord S clock uuid p R)"
| "flowStep S R (OpCreateManaged clock uuid p) = snd (createManagedTaskFlow S clock uuid p R)"
| "flowStep S R (OpCreateForTask clock uuid t ro) = snd (createTaskFlowForTask S clock uuid t ro R)"
| "flowStep S R (OpUpdate clock i r p) = snd (updateFlowRecordByIdExpectedRevision S clock i r p R)"
| "flowStep S R (OpSetWaiting clock c) = snd (setFlowWaiting S clock c R)"
| "flowStep S R (OpResume clock c) = snd (resumeFlow S clock c R)"
| "flowStep S R (OpFinish clock c) = snd (finishFlow S clock c R)"
| "flowStep S R (OpFail clock c) = snd (failFlow S clock c R)"
| "flowStep S R (OpCancel clock c) = snd (requestFlowCancel S clock c R)"
| "flowStep S R (OpSync clock t) = snd (syncFlowFromTask S clock t R)"
| "flowStep S R (OpDelete i) = snd (deleteTaskFlowRecordById S i R)"
| "flowStep S R (OpQuery i) = snd (getTaskFlowById S i R)"

section \<open>What an operation may do to the flows\<close>

text \<open>
  The abstract effect of one operation on the map of flows: nothing, one new record under a fresh
  identifier, one patched record, or one deletion.  Every operation refines it.
\<close>

inductive flowEffect :: "string option \<Rightarrow> (string, task_flow) jsmap \<Rightarrow> (string, task_flow) jsmap \<Rightarrow> bool" where
  effect_keep: "flowEffect u m m"
| effect_create: "buildFlowRecord clock i p = Inr f \<Longrightarrow> flowEffect (Some i) m (jm_set (tf_flowId f) f m)"
| effect_patch: "jm_get m i = Some cur \<Longrightarrow> applyFlowPatch clock cur patch = Inr f \<Longrightarrow>
    flowEffect u m (jm_set (tf_flowId f) f m)"
| effect_delete: "flowEffect u m (jm_delete i m)"

fun createdBy :: "flow_op \<Rightarrow> string option" where
  "createdBy (OpCreate _ uuid _) = Some uuid"
| "createdBy (OpCreateManaged _ uuid _) = Some uuid"
| "createdBy (OpCreateForTask _ uuid _ _) = Some uuid"
| "createdBy _ = None"

lemma ensure_ready_attempted [simp]: "fr_restoreAttempted (ensureFlowRegistryReady S R)"
  by (auto simp: ensureFlowRegistryReady_def emitFlowEvent_def Let_def split: prod.splits sum.splits)

lemma ensure_ready_ready [simp]: "fr_restoreAttempted R \<Longrightarrow> ensureFlowRegistryReady S R = R"
  by (simp add: ensureFlowRegistryReady_def)

lemma persist_upsert_memory [simp]:
  "persistFlowUpsert S f R = (e, R') \<Longrightarrow> fr_flows R' = fr_flows R \<and>
     fr_restoreAttempted R' = fr_restoreAttempted R \<and> fr_restoreFailure R' = fr_restoreFailure R"
  by (auto simp: persistFlowUpsert_def persistFlowRegistry_def Let_def split: option.splits prod.splits)

lemma persist_delete_memory [simp]:
  "persistFlowDelete S i R = (e, R') \<Longrightarrow> fr_flows R' = fr_flows R \<and>
     fr_restoreAttempted R' = fr_restoreAttempted R \<and> fr_restoreFailure R' = fr_restoreFailure R"
  by (auto simp: persistFlowDelete_def persistFlowRegistry_def Let_def split: option.splits prod.splits)

lemma writeFlowRecord_memory [simp]:
  "fr_flows (snd (writeFlowRecord S f p R)) = jm_set (tf_flowId f) f (fr_flows R)"
  "fr_restoreAttempted (snd (writeFlowRecord S f p R)) = fr_restoreAttempted R"
  by (auto simp: writeFlowRecord_def emitFlowEvent_def Let_def split: prod.split option.split
      dest!: persist_upsert_memory)

lemma dropFlowRecord_memory [simp]:
  "fr_flows (snd (dropFlowRecord S i c R)) = jm_delete i (fr_flows R)"
  "fr_restoreAttempted (snd (dropFlowRecord S i c R)) = fr_restoreAttempted R"
  by (auto simp: dropFlowRecord_def emitFlowEvent_def Let_def split: prod.split option.split
      dest!: persist_delete_memory)

text \<open>The moves of the registry with its store, each of which has such an effect.\<close>

inductive flowMove :: "'st flow_store \<Rightarrow> string option \<Rightarrow> 'st flow_registry \<Rightarrow> 'st flow_registry \<Rightarrow> bool"
  for S :: "'st flow_store" where
  move_keep: "flowMove S u R R"
| move_create: "buildFlowRecord clock i p = Inr f \<Longrightarrow> flowMove S (Some i) R (snd (writeFlowRecord S f None R))"
| move_patch: "jm_get (fr_flows R) i = Some cur \<Longrightarrow> applyFlowPatch clock cur patch = Inr f \<Longrightarrow>
    flowMove S u R (snd (writeFlowRecord S f (Some cur) R))"
| move_delete: "jm_get (fr_flows R) i = Some cur \<Longrightarrow> flowMove S u R (snd (dropFlowRecord S i cur R))"

lemma flowMove_effect:
  "flowMove S u R R' \<Longrightarrow>
   flowEffect u (fr_flows R) (fr_flows R') \<and> fr_restoreAttempted R' = fr_restoreAttempted R"
  by (induction rule: flowMove.induct)
    (auto intro: effect_keep effect_create effect_patch effect_delete)

text \<open>What a lemma says of an operation: it restored the registry if need be and made one move.\<close>

definition movesBy :: "'st flow_store \<Rightarrow> string option \<Rightarrow> 'st flow_registry \<Rightarrow> 'st flow_registry \<Rightarrow> bool" where
  "movesBy S u R R' \<longleftrightarrow> flowMove S u (ensureFlowRegistryReady S R) R'"

lemma patchAndWrite_move:
  assumes "jm_get (fr_flows R) i = Some cur"
  shows "flowMove S u R (snd (patchAndWrite S clock cur patch R))"
  using move_patch [OF assms]
  by (auto simp: patchAndWrite_def intro: move_keep split: sum.split)

lemma ready_move [simp]: "movesBy S u R (ensureFlowRegistryReady S R)"
  by (simp add: movesBy_def move_keep)

lemma update_guarded_move [simp]:
  "movesBy S u R (snd (updateFlowRecordByIdExpectedRevision S clock i r patch R))"
  by (auto simp: updateFlowRecordByIdExpectedRevision_def movesBy_def Let_def
      split: option.split intro: move_keep patchAndWrite_move)

lemma update_unchecked_move [simp]:
  "movesBy S u R (snd (updateFlowRecordByIdUnchecked S clock i patch R))"
  by (auto simp: updateFlowRecordByIdUnchecked_def movesBy_def Let_def
      split: option.split intro: move_keep patchAndWrite_move)

lemma create_move [simp]: "movesBy S (Some uuid) R (snd (createFlowRecord S clock uuid p R))"
  by (auto simp: createFlowRecord_def movesBy_def Let_def split: sum.split
      intro: move_keep move_create)

lemma delete_move [simp]: "movesBy S u R (snd (deleteTaskFlowRecordById S i R))"
  by (auto simp: deleteTaskFlowRecordById_def movesBy_def Let_def
      split: option.split intro: move_keep move_delete)

lemma movesBy_ready: "movesBy S u (ensureFlowRegistryReady S R) R' \<longleftrightarrow> movesBy S u R R'"
  by (simp add: movesBy_def)

lemma sync_move:
  "snd (syncFlowFromTask S clock t R) = R \<or> movesBy S u R (snd (syncFlowFromTask S clock t R))"
proof -
  have "movesBy S u R (snd (updateFlowRecordByIdUnchecked S clock i patch (ensureFlowRegistryReady S R)))" for i patch
    using update_unchecked_move [where S = S and R = "ensureFlowRegistryReady S R"] by (simp only: movesBy_ready)
  then show ?thesis
    by (simp add: syncFlowFromTask_def getTaskFlowById_def Let_def split: option.split)
qed

lemmas lifecycle_defs =
  setFlowWaiting_def resumeFlow_def finishFlow_def failFlow_def requestFlowCancel_def

lemma flowStep_move: "flowStep S R op = R \<or> movesBy S (createdBy op) R (flowStep S R op)"
proof (cases op)
  case (OpCreateManaged clock uuid p)
  then show ?thesis by (simp add: createManagedTaskFlow_def split: sum.split)
next
  case (OpCreateForTask clock uuid t ro)
  then show ?thesis by (simp add: createTaskFlowForTask_def Let_def)
next
  case (OpSync clock t)
  then show ?thesis using sync_move by simp
next
  case (OpQuery i)
  then show ?thesis by (simp add: getTaskFlowById_def Let_def)
qed (simp_all add: lifecycle_defs Let_def)

section \<open>Well-formed registries\<close>

abbreviation normalized :: "string option \<Rightarrow> bool" where
  "normalized v \<equiv> normalizeOptionalString v = v"

definition flow_ok :: "string \<Rightarrow> task_flow \<Rightarrow> bool" where
  "flow_ok k f \<longleftrightarrow> tf_flowId f = k \<and> normalized (Some (tf_ownerKey f)) \<and>
     (tf_syncMode f = Managed \<longrightarrow> tf_controllerId f \<noteq> None \<and> normalized (tf_controllerId f)) \<and>
     0 \<le> tf_revision f \<and> normalized (tf_currentStep f) \<and> normalized (tf_blockedTaskId f) \<and>
     normalized (tf_blockedSummary f)"

definition flow_map_ok :: "(string, task_flow) jsmap \<Rightarrow> bool" where
  "flow_map_ok m \<longleftrightarrow> jm_wf m \<and> (\<forall>(k, f) \<in> set m. flow_ok k f)"

text \<open>What the registry needs of a store: a snapshot files every record under its own identifier.\<close>

definition snapshot_keyed :: "'st flow_store \<Rightarrow> bool" where
  "snapshot_keyed S \<longleftrightarrow>
     (\<forall>st snap st'. loadSnapshot S st = (Inr snap, st') \<longrightarrow> (\<forall>(k, f) \<in> set snap. tf_flowId f = k))"

lemma flow_map_ok_Nil [simp]: "flow_map_ok []"
  by (simp add: flow_map_ok_def)

lemma flow_map_ok_get: "flow_map_ok m \<Longrightarrow> jm_get m k = Some f \<Longrightarrow> flow_ok k f"
  by (auto simp: flow_map_ok_def dest: map_of_SomeD)

lemma flow_map_ok_set: "flow_map_ok m \<Longrightarrow> flow_ok k f \<Longrightarrow> flow_map_ok (jm_set k f m)"
  using set_jm_set_subset [of k f m] by (fastforce simp: flow_map_ok_def)

lemma flow_map_ok_delete: "flow_map_ok m \<Longrightarrow> flow_map_ok (jm_delete k m)"
  using set_jm_delete_subset [of k m] by (fastforce simp: flow_map_ok_def)

lemma normalized_nullableString: "normalized v \<Longrightarrow> normalized (nullableString p v)"
  by (cases p) auto

lemma assertFlowOwnerKey_Inr: "assertFlowOwnerKey k = Inr k' \<Longrightarrow> normalized (Some k')"
  by (auto simp: assertFlowOwnerKey_def normalizeOptionalString_Some_iff split: option.splits)

lemma assertControllerId_Inr: "assertControllerId c = Inr c' \<Longrightarrow> normalizeOptionalString c = Some c' \<and> normalized (Some c')"
  by (auto simp: assertControllerId_def normalizeOptionalString_Some_iff split: option.splits)

lemma legacy_normalized [simp]: "normalized (Some (legacyControllerId ()))"
  by (simp add: normalizeOptionalString_def normalizeNullableString_def js_defs Let_def)

declare legacyControllerId.simps [simp del]

lemma map_sum_Inr_iff [simp]: "map_sum f g x = Inr y \<longleftrightarrow> (\<exists>c. x = Inr c \<and> g c = y)"
  by (cases x) auto

lemma restored_ok:
  "normalizeRestoredFlowRecord f = Inr f' \<Longrightarrow> flow_ok (tf_flowId f) f'"
  by (auto simp: normalizeRestoredFlowRecord_def flow_ok_def Let_def normalizeOptionalString_Some_iff
      split: sum.splits option.splits if_splits dest!: assertFlowOwnerKey_Inr)

lemma built_ok: "buildFlowRecord clock u p = Inr f \<Longrightarrow> flow_ok u f"
  by (auto simp: buildFlowRecord_def flow_ok_def Let_def map_sum_def
      split: sum.splits if_splits dest!: assertFlowOwnerKey_Inr assertControllerId_Inr)

lemma patched_ok:
  "flow_ok k cur \<Longrightarrow> applyFlowPatch clock cur patch = Inr f \<Longrightarrow>
   flow_ok k f \<and> tf_revision f = tf_revision cur + 1"
  by (cases "fp_controllerId patch")
    (auto simp: applyFlowPatch_def flow_ok_def Let_def normalized_nullableString
      split: sum.splits if_splits dest!: assertControllerId_Inr)

lemma effect_ok: "flowEffect u m m' \<Longrightarrow> flow_map_ok m \<Longrightarrow> flow_map_ok m'"
proof (induction rule: flowEffect.induct)
  case (effect_create clock i p f m)
  then show ?case using built_ok [of clock i p f] by (auto intro: flow_map_ok_set simp: flow_ok_def)
next
  case (effect_patch m i cur clock patch f u)
  then show ?case using patched_ok flow_map_ok_get by (metis flow_map_ok_set flow_ok_def)
qed (auto intro: flow_map_ok_delete)

lemma restoreFlows_ok:
  "\<forall>(k, f) \<in> set snap. tf_flowId f = k \<Longrightarrow> flow_map_ok m \<Longrightarrow> restoreFlows snap m = Inr m' \<Longrightarrow>
   flow_map_ok m'"
proof (induction snap m rule: restoreFlows.induct)
  case (1 m)
  then show ?case by simp
next
  case (2 k f rest m)
  then show ?case
    by (auto simp del: map_of_eq_Some_iff split: sum.splits dest: restored_ok intro: flow_map_ok_set)
qed

definition registry_ok :: "'st flow_registry \<Rightarrow> bool" where
  "registry_ok R \<longleftrightarrow> flow_map_ok (fr_flows R)"

lemma snapshot_keyedD:
  "snapshot_keyed S \<Longrightarrow> loadSnapshot S st = (Inr snap, st') \<Longrightarrow> \<forall>(k, f) \<in> set snap. tf_flowId f = k"
  unfolding snapshot_keyed_def by blast

lemma ensure_ready_ok:
  "snapshot_keyed S \<Longrightarrow> registry_ok R \<Longrightarrow> registry_ok (ensureFlowRegistryReady S R)"
  by (auto simp: ensureFlowRegistryReady_def registry_ok_def emitFlowEvent_def Let_def
      split: prod.splits sum.splits dest: snapshot_keyedD elim!: restoreFlows_ok [rotated 2])

lemma flowStep_ok:
  assumes "registry_ok R" "snapshot_keyed S \<or> fr_restoreAttempted R"
  shows "registry_ok (flowStep S R op)"
proof -
  have "registry_ok (ensureFlowRegistryReady S R)"
    using assms ensure_ready_ok by auto
  then show ?thesis
    using flowStep_move [of S R op] assms(1) effect_ok flowMove_effect
    by (fastforce simp: registry_ok_def movesBy_def)
qed

section \<open>The revision as a clock\<close>

definition flowClock :: "string \<Rightarrow> 'st flow_registry \<Rightarrow> enat" where
  "flowClock i R = (case jm_get (fr_flows R) i of None \<Rightarrow> \<infinity> | Some f \<Rightarrow> enat (nat (tf_revision f)))"

text \<open>A step that does not reuse the identifier \<open>i\<close> for a new flow.\<close>

definition freshStep :: "'st flow_store \<Rightarrow> string \<Rightarrow> 'st flow_registry \<Rightarrow> flow_op \<Rightarrow> 'st flow_registry" where
  "freshStep S i R op = (if createdBy op = Some i then R else flowStep S R op)"

definition restored_ok_registry :: "'st flow_registry \<Rightarrow> bool" where
  "restored_ok_registry R \<longleftrightarrow> fr_restoreAttempted R \<and> registry_ok R"

lemma flowStep_attempted: "fr_restoreAttempted R \<Longrightarrow> fr_restoreAttempted (flowStep S R op)"
  using flowStep_move [of S R op] flowMove_effect by (fastforce simp: movesBy_def)

lemma effect_clock:
  assumes "flowEffect u (fr_flows R) (fr_flows R')" "u \<noteq> Some i" "flow_map_ok (fr_flows R)"
  shows "flowClock i R \<le> flowClock i R'"
  using assms(1)
proof (cases rule: flowEffect.cases)
  case (effect_create clock k p f)
  then have "tf_flowId f \<noteq> i" using assms(2) built_ok by (auto simp: flow_ok_def)
  then show ?thesis using effect_create by (simp add: flowClock_def jm_get_set)
next
  case (effect_patch k cur clock patch f)
  then have "flow_ok k f" "tf_revision f = tf_revision cur + 1" "flow_ok k cur"
    using patched_ok flow_map_ok_get [OF assms(3)] by blast+
  then show ?thesis using effect_patch
    by (auto simp: flowClock_def jm_get_set flow_ok_def split: option.split)
qed (auto simp: flowClock_def jm_get_delete)

interpretation rev: monotone_system "freshStep S i" restored_ok_registry "flowClock i"
  for S :: "'st flow_store" and i
proof
  fix R :: "'st flow_registry" and op
  assume R: "restored_ok_registry R"
  then show "restored_ok_registry (freshStep S i R op)"
    using flowStep_ok flowStep_attempted by (auto simp: restored_ok_registry_def freshStep_def)
  have "flowEffect (createdBy op) (fr_flows R) (fr_flows (flowStep S R op)) \<or> flowStep S R op = R"
    using flowStep_move [of S R op] R flowMove_effect
    by (fastforce simp: movesBy_def restored_ok_registry_def)
  then show "flowClock i R \<le> flowClock i (freshStep S i R op)"
    using R effect_clock by (auto simp: freshStep_def restored_ok_registry_def registry_ok_def)
qed

lemma foldl_freshStep:
  "\<forall>op \<in> set ops. createdBy op \<noteq> Some i \<Longrightarrow> foldl (freshStep S i) R ops = foldl (flowStep S) R ops"
  by (induction ops arbitrary: R) (auto simp: freshStep_def)

interpretation tflow: invariant_system "flowStep S" "\<lambda>R. registry_ok R \<and> (snapshot_keyed S \<or> fr_restoreAttempted R)"
  for S :: "'st flow_store"
  by unfold_locales (auto intro: flowStep_ok flowStep_attempted)

section \<open>Properties\<close>

text \<open>A store that keeps the records in a map and never throws, for the instances below.\<close>

definition memoryFlowStore :: "((string, task_flow) jsmap) flow_store" where
  "memoryFlowStore = \<lparr>loadSnapshot = (\<lambda>m. (Inr m, m)), saveSnapshot = (\<lambda>snap m. (None, snap)),
     upsertFlow = Some (\<lambda>f m. (None, jm_set (tf_flowId f) f m)),
     deleteFlow = Some (\<lambda>i m. (None, jm_delete i m))\<rparr>"

fun sampleFlow :: "string \<Rightarrow> flow_sync_mode \<Rightarrow> task_flow" where
  "sampleFlow i mode = \<lparr>tf_flowId = i, tf_syncMode = mode, tf_ownerKey = ''me'', tf_requesterOrigin = None,
     tf_controllerId = Some ''c'', tf_revision = 0, tf_status = FsRunning, tf_notifyPolicy = DoneOnly,
     tf_goal = ''g'', tf_currentStep = None, tf_blockedTaskId = None, tf_blockedSummary = None,
     tf_stateJson = None, tf_waitJson = None, tf_cancelRequestedAt = None, tf_createdAt = 5,
     tf_updatedAt = 5, tf_endedAt = None\<rparr>"

fun sampleChange :: "string \<Rightarrow> int \<Rightarrow> flow_change" where
  "sampleChange i r = \<lparr>fc_flowId = i, fc_expectedRevision = r, fc_status = None, fc_currentStep = Undef,
     fc_stateJson = None, fc_waitJson = None, fc_blockedTaskId = Undef, fc_blockedSummary = Undef,
     fc_cancelRequestedAt = None, fc_updatedAt = None, fc_endedAt = None\<rparr>"

lemmas flow_eval =
  memoryFlowStore_def initFlowRegistry_def ensureFlowRegistryReady_def emitFlowEvent_def
  normalizeRestoredFlowRecord_def assertFlowOwnerKey_def assertControllerId_def orElse_def
  normalizeOptionalString_def normalizeNullableString_def js_defs Let_def
  updateFlowRecordByIdExpectedRevision_def patchAndWrite_def applyFlowPatch_def writeFlowRecord_def
  persistFlowUpsert_def emptyPatch_def finishFlow_def failFlow_def requestFlowCancel_def

text \<open>A store whose load refuses a snapshot with a misfiled record; it is keyed by construction.\<close>

definition checkedFlowStore :: "((string, task_flow) jsmap) flow_store" where
  "checkedFlowStore = memoryFlowStore\<lparr>loadSnapshot :=
     (\<lambda>m. (if list_all (\<lambda>(k, f). tf_flowId f = k) m then Inr m else Inl ''misfiled'', m))\<rparr>"

lemma checked_keyed: "snapshot_keyed checkedFlowStore"
  by (auto simp: snapshot_keyed_def checkedFlowStore_def list_all_iff split: if_splits)

text \<open>C24. Whatever the operations and whatever the store answers, the registry files every flow
  once, under its own identifier, with a trimmed non-empty owner, a revision that is not negative,
  trimmed optional texts, and a non-empty controller when the flow is managed.\<close>

theorem flow_registry_well_formed:
  assumes "snapshot_keyed S" and "R = foldl (flowStep S) (initFlowRegistry st) ops"
  shows "distinct (map fst (fr_flows R)) \<and> (\<forall>(k, f) \<in> set (fr_flows R). flow_ok k f)"
  using tflow.run_inv [of "initFlowRegistry st" S ops] assms
  by (simp add: registry_ok_def flow_map_ok_def initFlowRegistry_def)

theorem flow_registry_well_formed_witness:
  "let R = foldl (flowStep checkedFlowStore) (initFlowRegistry [(''a'', sampleFlow ''a'' Managed)])
             [OpFinish 9 (sampleChange ''a'' 0), OpCancel 9 (sampleChange ''a'' 0)]
   in distinct (map fst (fr_flows R)) \<and> (\<forall>(k, f) \<in> set (fr_flows R). flow_ok k f)"
  unfolding Let_def by (rule flow_registry_well_formed [OF checked_keyed refl])

lemma guarded_update_clock:
  assumes R: "restored_ok_registry R"
    and u: "updateFlowRecordByIdExpectedRevision S clock i r patch R = (res, R')"
    and res: "(\<exists>f. res = Inr (Applied f)) \<or> (\<exists>e. res = Inl (StoreThrew e))"
  shows "flowClock i R' = enat (nat (r + 1)) \<and> 0 \<le> r"
proof -
  obtain cur where cur: "jm_get (fr_flows R) i = Some cur" "tf_revision cur = r"
    and w: "map_prod (map_sum id Applied) id (patchAndWrite S clock cur patch R) = (res, R')"
    using u res R unfolding updateFlowRecordByIdExpectedRevision_def restored_ok_registry_def
    by (fastforce split: option.splits if_splits)
  have ok: "flow_ok i cur"
    using R cur flow_map_ok_get by (auto simp: restored_ok_registry_def registry_ok_def)
  obtain f where f: "applyFlowPatch clock cur patch = Inr f"
    using w res by (cases "applyFlowPatch clock cur patch")
      (auto simp: patchAndWrite_def applyFlowPatch_def assertControllerId_def Let_def
        split: if_splits option.splits)
  have "flow_ok i f" "tf_revision f = r + 1" using patched_ok [OF ok f] cur by auto
  moreover have "R' = snd (writeFlowRecord S f (Some cur) R)"
    using w f by (cases "writeFlowRecord S f (Some cur) R") (auto simp: patchAndWrite_def)
  ultimately show ?thesis
    using ok cur by (auto simp: flowClock_def flow_ok_def jm_get_set)
qed

lemma guarded_update_stale:
  assumes "restored_ok_registry R" "enat (nat r) < flowClock i R" "0 \<le> r"
  shows "fst (updateFlowRecordByIdExpectedRevision S clock i r patch R) \<in>
           insert (Inr FlowNotFound) {Inr (RevisionConflict g) |g. r < tf_revision g}"
    and "snd (updateFlowRecordByIdExpectedRevision S clock i r patch R) = R"
  using assms
  by (auto simp: updateFlowRecordByIdExpectedRevision_def flowClock_def restored_ok_registry_def
      split: option.splits)

text \<open>C10. Optimistic concurrency: once a guarded update that expected revision \<open>r\<close> has changed a flow
  (it was applied, or it threw from the store after the change), no later guarded update that expects
  \<open>r\<close> or less changes it, whatever happens in between: it is answered with a conflict that carries the
  newer revision, or with not-found if the flow has been deleted, and leaves the registry alone.\<close>

theorem flow_revision_exclusive:
  assumes "fr_restoreAttempted R" and "registry_ok R"
    and "updateFlowRecordByIdExpectedRevision S clock i r patch R = (res, R1)"
    and "(\<exists>f. res = Inr (Applied f)) \<or> (\<exists>e. res = Inl (StoreThrew e))"
    and "\<forall>op \<in> set ops. createdBy op \<noteq> Some i" and "0 \<le> r'" and "r' \<le> r"
    and "R2 = foldl (flowStep S) R1 ops"
  shows "(fst (updateFlowRecordByIdExpectedRevision S clock' i r' patch' R2) = Inr FlowNotFound \<or>
          (\<exists>g. fst (updateFlowRecordByIdExpectedRevision S clock' i r' patch' R2) = Inr (RevisionConflict g)
               \<and> r < tf_revision g)) \<and>
         snd (updateFlowRecordByIdExpectedRevision S clock' i r' patch' R2) = R2"
proof -
  have R: "restored_ok_registry R" using assms(1,2) by (simp add: restored_ok_registry_def)
  have R1: "R1 = flowStep S R (OpUpdate clock i r patch)" using assms(3) by simp
  then have ok1: "restored_ok_registry R1"
    using rev.step_inv [where i = "[]" and e = "OpUpdate clock i r patch", OF R] by (simp add: freshStep_def)
  have r: "0 \<le> r" and "flowClock i R1 = enat (nat (r + 1))"
    using guarded_update_clock [OF R assms(3,4)] by auto
  moreover have R2: "R2 = foldl (freshStep S i) R1 ops"
    using assms(5,8) foldl_freshStep by metis
  ultimately have clk: "enat (nat (r + 1)) \<le> flowClock i R2" using rev.run_mono [OF ok1] by metis
  have ok2: "restored_ok_registry R2" using rev.run_inv [OF ok1] R2 by metis
  have lt: "enat (nat r') < flowClock i R2"
    using clk assms(6,7) by (intro order_less_le_trans [OF _ clk]) simp
  have "r < tf_revision g" if "jm_get (fr_flows R2) i = Some g" for g
    using clk that r by (simp add: flowClock_def nat_le_eq_zle)
  then show ?thesis
    using guarded_update_stale [OF ok2 lt assms(6), of S clock' patch'] ok2
    by (auto simp: updateFlowRecordByIdExpectedRevision_def restored_ok_registry_def split: option.splits if_splits)
qed

theorem flow_revision_exclusive_witness:
  "\<nexists>f. fst (updateFlowRecordByIdExpectedRevision memoryFlowStore 11 ''a'' 0 emptyPatch
     (foldl (flowStep memoryFlowStore)
       (snd (updateFlowRecordByIdExpectedRevision memoryFlowStore 9 ''a'' 0 emptyPatch
          (ensureFlowRegistryReady memoryFlowStore (initFlowRegistry [(''a'', sampleFlow ''a'' Managed)]))))
       [OpCancel 10 (sampleChange ''a'' 1)])) = Inr (Applied f)"
proof -
  let ?R = "ensureFlowRegistryReady memoryFlowStore (initFlowRegistry [(''a'', sampleFlow ''a'' Managed)])"
  have ok: "registry_ok ?R" by (simp add: flow_eval registry_ok_def flow_map_ok_def flow_ok_def)
  let ?U = "updateFlowRecordByIdExpectedRevision memoryFlowStore 9 ''a'' 0 emptyPatch ?R"
  have "(\<exists>f. fst ?U = Inr (Applied f)) \<or> (\<exists>e. fst ?U = Inl (StoreThrew e))"
    by (simp add: flow_eval)
  from flow_revision_exclusive [OF ensure_ready_attempted ok surjective_pairing this, where
      ops = "[OpCancel 10 (sampleChange ''a'' 1)]" and r' = 0 and clock' = 11 and patch' = emptyPatch, OF _ _ _ refl]
  show ?thesis by auto
qed

section \<open>Queries by owner\<close>

interpretation newest: comparator newestFirst
  by unfold_locales (auto simp: newestFirst_def)

lemma owner_normalized:
  assumes "flow_map_ok m" "(k, f) \<in> set m"
  shows "js_trim (tf_ownerKey f) = tf_ownerKey f \<and> tf_ownerKey f \<noteq> []"
  using assms by (force simp: flow_map_ok_def flow_ok_def normalizeOptionalString_Some_iff)

lemma listForOwner_ready:
  assumes "restored_ok_registry R"
  shows "fst (listTaskFlowsForOwner S k R) =
    js_toSorted newestFirst (filter (\<lambda>f. tf_ownerKey f = js_trim k) (map snd (fr_flows R)))"
proof (cases "js_trim k = []")
  case True
  then have "filter (\<lambda>f. tf_ownerKey f = js_trim k) (map snd (fr_flows R)) = []"
    using assms owner_normalized
    by (fastforce simp: filter_empty_conv restored_ok_registry_def registry_ok_def)
  with True show ?thesis
    by (simp add: listTaskFlowsForOwner_def normalizeOptionalString_def normalizeNullableString_def Let_def)
next
  case False
  have "filter (\<lambda>f. js_trim (tf_ownerKey f) = js_trim k) (map snd (fr_flows R)) =
        filter (\<lambda>f. tf_ownerKey f = js_trim k) (map snd (fr_flows R))"
    using assms owner_normalized
    by (intro filter_cong) (fastforce simp: restored_ok_registry_def registry_ok_def)+
  with False assms show ?thesis
    by (simp add: listTaskFlowsForOwner_def listTaskFlowsForOwnerKey_def normalizeOptionalString_def
        normalizeNullableString_def restored_ok_registry_def Let_def)
qed

lemma latestForOwner_ready:
  "fst (findLatestTaskFlowForOwner S k R) = firstOf (fst (listTaskFlowsForOwner S k R))"
  by (simp add: findLatestTaskFlowForOwner_def findLatestTaskFlowForOwnerKey_def
      listTaskFlowsForOwner_def firstOf_def split: option.split prod.split)

lemma getForOwner_ready:
  assumes "restored_ok_registry R"
  shows "getTaskFlowByIdForOwner S i k R =
    (case jm_get (fr_flows R) i of
       None \<Rightarrow> None | Some f \<Rightarrow> if tf_ownerKey f = js_trim k then Some f else None, R)"
proof (cases "jm_get (fr_flows R) i")
  case None
  with assms show ?thesis
    by (simp add: getTaskFlowByIdForOwner_def getTaskFlowById_def restored_ok_registry_def Let_def)
next
  case (Some f)
  then have "js_trim (tf_ownerKey f) = tf_ownerKey f" "tf_ownerKey f \<noteq> []"
    using assms owner_normalized map_of_SomeD by (fastforce simp: restored_ok_registry_def registry_ok_def)+
  with Some assms show ?thesis
    by (auto simp: getTaskFlowByIdForOwner_def getTaskFlowById_def restored_ok_registry_def Let_def
        normalizeOptionalString_def normalizeNullableString_def)
qed

lemma firstOf_in: "firstOf xs = Some x \<Longrightarrow> x \<in> set xs"
  by (auto simp: firstOf_def split: list.splits)

text \<open>C25. A caller sees its own flows only, and all of them: the list for an owner is exactly the
  flows with that (trimmed) owner, newest first; a lookup token resolves to a flow of the caller or to
  nothing, a flow of another owner stays hidden even when its identifier is known, and the caller's
  own flow is found by its identifier.\<close>

theorem flow_owner_isolation:
  assumes "fr_restoreAttempted R" and "registry_ok R"
  shows "mset (fst (listTaskFlowsForOwner S k R)) =
           mset (filter (\<lambda>f. tf_ownerKey f = js_trim k) (map snd (fr_flows R))) \<and>
         sorted_wrt (\<lambda>f g. tf_createdAt g \<le> tf_createdAt f) (fst (listTaskFlowsForOwner S k R)) \<and>
         (\<forall>f. fst (resolveTaskFlowForLookupTokenForOwner S token k R) = Some f \<longrightarrow>
            tf_ownerKey f = js_trim k \<and> f \<in> snd ` set (fr_flows R)) \<and>
         (\<forall>f. jm_get (fr_flows R) token = Some f \<longrightarrow> tf_ownerKey f = js_trim k \<longrightarrow>
            fst (resolveTaskFlowForLookupTokenForOwner S token k R) = Some f)"
proof (intro conjI allI impI)
  have R: "restored_ok_registry R" using assms by (simp add: restored_ok_registry_def)
  note eqs = listForOwner_ready [OF R] getForOwner_ready [OF R]
  show "mset (fst (listTaskFlowsForOwner S k R)) =
        mset (filter (\<lambda>f. tf_ownerKey f = js_trim k) (map snd (fr_flows R)))"
    by (simp add: eqs)
  show "sorted_wrt (\<lambda>f g. tf_createdAt g \<le> tf_createdAt f) (fst (listTaskFlowsForOwner S k R))"
    using newest.sorted_toSorted by (simp add: eqs newestFirst_def)
  show "fst (resolveTaskFlowForLookupTokenForOwner S token k R) = Some f"
    if "jm_get (fr_flows R) token = Some f" "tf_ownerKey f = js_trim k" for f
    using that by (simp add: resolveTaskFlowForLookupTokenForOwner_def eqs)
  fix f
  assume f: "fst (resolveTaskFlowForLookupTokenForOwner S token k R) = Some f"
  have latest: "tf_ownerKey g = js_trim t \<and> g \<in> snd ` set (fr_flows R)"
    if "fst (findLatestTaskFlowForOwner S t R) = Some g" for t g
    using firstOf_in [OF that [unfolded latestForOwner_ready eqs]] by auto
  consider "jm_get (fr_flows R) token = Some f" "tf_ownerKey f = js_trim k"
    | "fst (findLatestTaskFlowForOwner S (js_trim k) R) = Some f"
    using f by (auto simp: resolveTaskFlowForLookupTokenForOwner_def eqs normalizeOptionalString_def
        normalizeNullableString_def Let_def split: option.splits if_splits)
  then have "tf_ownerKey f = js_trim k \<and> f \<in> snd ` set (fr_flows R)"
  proof cases
    case 1
    then show ?thesis using map_of_SomeD by (metis image_eqI snd_conv)
  next
    case 2
    then show ?thesis using latest [of "js_trim k" f] by simp
  qed
  then show "tf_ownerKey f = js_trim k" "f \<in> snd ` set (fr_flows R)" by blast+
qed

theorem flow_owner_isolation_witness:
  "fst (resolveTaskFlowForLookupTokenForOwner memoryFlowStore ''a'' '' me ''
     (ensureFlowRegistryReady memoryFlowStore (initFlowRegistry [(''a'', sampleFlow ''a'' Managed)])))
   = Some (sampleFlow ''a'' Managed)"
proof -
  let ?R = "ensureFlowRegistryReady memoryFlowStore (initFlowRegistry [(''a'', sampleFlow ''a'' Managed)])"
  have ok: "registry_ok ?R" by (simp add: flow_eval registry_ok_def flow_map_ok_def flow_ok_def)
  have "jm_get (fr_flows ?R) ''a'' = Some (sampleFlow ''a'' Managed)"
    "tf_ownerKey (sampleFlow ''a'' Managed) = js_trim '' me ''"
    by (simp_all add: flow_eval)
  then show ?thesis
    using flow_owner_isolation [OF ensure_ready_attempted ok, of memoryFlowStore "'' me ''" "''a''"] by blast
qed

section \<open>Mirroring a task\<close>

lemma applyFlowPatch_fields:
  assumes "applyFlowPatch clock f patch = Inr g"
  shows "tf_status g = orElse (fp_status patch) (tf_status f)"
    and "tf_revision g = tf_revision f + 1"
    and "tf_endedAt g = nullableOr (fp_endedAt patch) (tf_endedAt f)"
    and "tf_updatedAt g = orElse (fp_updatedAt patch) clock"
    and "tf_goal g = (case fp_goal patch of None \<Rightarrow> tf_goal f | Some x \<Rightarrow> if x = [] then tf_goal f else x)"
    and "tf_blockedTaskId g = nullableString (fp_blockedTaskId patch) (tf_blockedTaskId f)"
    and "tf_blockedSummary g = nullableString (fp_blockedSummary patch) (tf_blockedSummary f)"
    and "tf_cancelRequestedAt g = nullableOr (fp_cancelRequestedAt patch) (tf_cancelRequestedAt f)"
    and "tf_waitJson g = (case fp_waitJson patch of None \<Rightarrow> tf_waitJson f | Some v \<Rightarrow> Some v)"
    and "tf_controllerId g = nullableString (fp_controllerId patch) (tf_controllerId f)"
    and "tf_flowId g = tf_flowId f" and "tf_syncMode g = tf_syncMode f"
    and "tf_ownerKey g = tf_ownerKey f" and "tf_createdAt g = tf_createdAt f"
  using assms by (auto simp: applyFlowPatch_def Let_def split: sum.splits)

lemma mirroredGoal_nonempty: "mirroredGoal label task \<noteq> []"
  by (auto simp: mirroredGoal_def normalizeOptionalString_Some_iff split: option.split)

lemma mirrorPatch_fields:
  "fp_status (mirrorPatch t f) = Some (deriveTaskFlowStatusFromTask t)"
  "fp_goal (mirrorPatch t f) = Some (mirroredGoal (tr_label t) (tr_task t))"
  "deriveTaskFlowStatusFromTask t \<noteq> FsBlocked \<Longrightarrow> fp_blockedTaskId (mirrorPatch t f) = Null"
  "deriveTaskFlowStatusFromTask t \<noteq> FsBlocked \<Longrightarrow> fp_blockedSummary (mirrorPatch t f) = Null"
  "if isTerminalTaskFlowStatus (deriveTaskFlowStatusFromTask t)
   then \<exists>e. fp_endedAt (mirrorPatch t f) = Val e \<and> fp_updatedAt (mirrorPatch t f) = Some e
   else fp_endedAt (mirrorPatch t f) = Null"
  by (simp_all add: mirrorPatch_def emptyPatch_def Let_def resolveTaskMirroredFlowTiming_def orElse_def)

lemma mirror_applies:
  assumes f: "tf_syncMode f = TaskMirrored"
  obtains g where "applyFlowPatch clock f (mirrorPatch t f) = Inr g"
    and "tf_status g = deriveTaskFlowStatusFromTask t" and "tf_revision g = tf_revision f + 1"
    and "if isTerminalTaskFlowStatus (tf_status g) then tf_endedAt g = Some (tf_updatedAt g)
         else tf_endedAt g = None"
    and "tf_status g \<noteq> FsBlocked \<longrightarrow> tf_blockedTaskId g = None \<and> tf_blockedSummary g = None"
    and "tf_goal g = mirroredGoal (tr_label t) (tr_task t)"
    and "tf_flowId g = tf_flowId f \<and> tf_ownerKey g = tf_ownerKey f \<and> tf_createdAt g = tf_createdAt f"
proof -
  obtain g where g: "applyFlowPatch clock f (mirrorPatch t f) = Inr g"
    using f by (simp add: applyFlowPatch_def Let_def)
  note g_fields = applyFlowPatch_fields [OF g]
  show ?thesis
  proof (rule that [OF g])
    show "if isTerminalTaskFlowStatus (tf_status g) then tf_endedAt g = Some (tf_updatedAt g)
          else tf_endedAt g = None"
      using mirrorPatch_fields(5) [of t f]
      by (auto simp: g_fields mirrorPatch_fields(1) orElse_def split: if_splits)
  qed (simp_all add: g_fields mirrorPatch_fields orElse_def mirroredGoal_nonempty)
qed

text \<open>Mirroring: synchronising from a task whose parent flow is known leaves a managed flow alone;
  a mirrored flow gets exactly the status the task's status and outcome derive, is ended, at the time
  of its last update, exactly when that status is terminal, carries blocking details only when blocked,
  moves its revision by one, keeps its identity and owner, and no other flow changes; if the store
  throws, the error is returned and the registry has the new record already.\<close>

theorem flow_mirrors_task:
  assumes "fr_restoreAttempted R" and "registry_ok R"
    and "map_option js_trim (tr_parentFlowId t) = Some i" and "i \<noteq> []"
    and "jm_get (fr_flows R) i = Some f"
  shows "if tf_syncMode f = Managed then syncFlowFromTask S clock t R = (Inr (Some f), R)
     else \<exists>g res R'. syncFlowFromTask S clock t R = (res, R') \<and>
            (res = Inr (Some g) \<or> (\<exists>e. res = Inl (StoreThrew e))) \<and>
            jm_get (fr_flows R') = (jm_get (fr_flows R))(i \<mapsto> g) \<and>
            tf_status g = deriveTaskFlowStatusFromTask t \<and>
            (if isTerminalTaskFlowStatus (tf_status g) then tf_endedAt g = Some (tf_updatedAt g)
             else tf_endedAt g = None) \<and>
            (tf_status g \<noteq> FsBlocked \<longrightarrow> tf_blockedTaskId g = None \<and> tf_blockedSummary g = None) \<and>
            tf_goal g = mirroredGoal (tr_label t) (tr_task t) \<and>
            tf_revision g = tf_revision f + 1 \<and> tf_ownerKey g = tf_ownerKey f \<and>
            tf_createdAt g = tf_createdAt f"
proof (cases "tf_syncMode f")
  case Managed
  then show ?thesis
    using assms by (auto simp: syncFlowFromTask_def getTaskFlowById_def Let_def)
next
  case TaskMirrored
  then obtain g where g: "applyFlowPatch clock f (mirrorPatch t f) = Inr g"
    and g_facts: "tf_status g = deriveTaskFlowStatusFromTask t" "tf_revision g = tf_revision f + 1"
      "if isTerminalTaskFlowStatus (tf_status g) then tf_endedAt g = Some (tf_updatedAt g)
       else tf_endedAt g = None"
      "tf_status g \<noteq> FsBlocked \<longrightarrow> tf_blockedTaskId g = None \<and> tf_blockedSummary g = None"
      "tf_goal g = mirroredGoal (tr_label t) (tr_task t)"
      "tf_flowId g = tf_flowId f \<and> tf_ownerKey g = tf_ownerKey f \<and> tf_createdAt g = tf_createdAt f"
    by (rule mirror_applies)
  obtain res R' where w: "writeFlowRecord S g (Some f) R = (res, R')" by fastforce
  have "tf_flowId g = i"
    using g_facts assms flow_map_ok_get by (auto simp: registry_ok_def flow_ok_def)
  then have mem: "jm_get (fr_flows R') = (jm_get (fr_flows R))(i \<mapsto> g)"
    using writeFlowRecord_memory(1) [of S g "Some f" R] w by (simp add: update_conv' fun_eq_iff)
  have res: "res = Inr g \<or> (\<exists>e. res = Inl (StoreThrew e))"
    using w by (auto simp: writeFlowRecord_def Let_def split: prod.splits option.splits)
  have "syncFlowFromTask S clock t R = (map_sum id Some res, R')"
    using assms TaskMirrored g w
    by (auto simp: syncFlowFromTask_def getTaskFlowById_def updateFlowRecordByIdUnchecked_def
        patchAndWrite_def Let_def)
  moreover have "map_sum id Some res = Inr (Some g) \<or> (\<exists>e. map_sum id Some res = Inl (StoreThrew e))"
    using res by auto
  ultimately show ?thesis using TaskMirrored mem g_facts by auto
qed

fun sampleTask :: "task_status \<Rightarrow> task_record" where
  "sampleTask s = \<lparr>tr_taskId = ''t'', tr_parentFlowId = Some ''a'', tr_ownerKey = ''me'', tr_label = None,
     tr_task = ''work'', tr_status = s, tr_notifyPolicy = Silent, tr_createdAt = 5, tr_endedAt = Some 8,
     tr_lastEventAt = Some 7, tr_progressSummary = None, tr_terminalSummary = None,
     tr_terminalOutcome = None\<rparr>"

theorem flow_mirrors_task_witness:
  "\<exists>g. jm_get (fr_flows (snd (syncFlowFromTask memoryFlowStore 9 (sampleTask TsTimedOut)
     (ensureFlowRegistryReady memoryFlowStore
       (initFlowRegistry [(''a'', sampleFlow ''a'' TaskMirrored)]))))) ''a'' = Some g \<and> tf_status g = FsFailed"
proof -
  let ?R = "ensureFlowRegistryReady memoryFlowStore (initFlowRegistry [(''a'', sampleFlow ''a'' TaskMirrored)])"
  have ok: "registry_ok ?R" by (simp add: flow_eval registry_ok_def flow_map_ok_def flow_ok_def)
  have get: "jm_get (fr_flows ?R) ''a'' = Some (sampleFlow ''a'' TaskMirrored)"
    and parent: "map_option js_trim (tr_parentFlowId (sampleTask TsTimedOut)) = Some ''a''"
    by (simp_all add: flow_eval)
  from flow_mirrors_task [OF ensure_ready_attempted ok parent _ get, of memoryFlowStore 9]
  show ?thesis by (auto simp: deriveTaskFlowStatusFromTask_def)
qed

end
