(* ===== verification/TaskFlowStore.thy ===== *)
theory TaskFlowStore
  imports TaskFlow
begin

text \<open>
  The default store of the task-flow registry, \<open>src/tasks/task-flow-registry.store.sqlite.ts\<close>: the
  rows of the table \<open>flow_runs\<close>, the conversion between records and rows, the load in creation order,
  the snapshot in one transaction, the upsert and the delete.

  The table is a map from the primary key; \<open>db_faults\<close> lists what the database does on the next
  statements: it may throw before it has changed anything or after (the permission fix-up that follows
  a write).  A JSON text is represented by the value it was printed from: parsing gives the value back
  the way JSON keeps it (\<open>jsonKept\<close>), or fails when the column is garbled or blank.  The migrations of
  older table layouts are not modelled, the repair of managed rows without a controller is.
\<close>

section \<open>Rows\<close>

datatype 'a json_text = JsonText 'a | JsonGarbled | JsonBlank

record flow_row =
  rw_flow_id :: string
  rw_sync_mode :: "string option"
  rw_shape :: "string option"
  rw_owner_key :: string
  rw_requester_origin_json :: "string json_text option"
  rw_controller_id :: "string option"
  rw_revision :: "int option"
  rw_status :: flow_status
  rw_notify_policy :: notify_policy
  rw_goal :: string
  rw_current_step :: "string option"
  rw_blocked_task_id :: "string option"
  rw_blocked_summary :: "string option"
  rw_state_json :: "jsval json_text option"
  rw_wait_json :: "jsval json_text option"
  rw_cancel_requested_at :: "int option"
  rw_created_at :: int
  rw_updated_at :: int
  rw_ended_at :: "int option"

datatype db_fault = NoFault | FailBefore string | FailAfter string

record flow_db =
  db_rows :: "(string, flow_row) jsmap"
  db_open :: bool
  db_faults :: "db_fault list"

text \<open>What \<open>JSON.parse(JSON.stringify(v))\<close> keeps of a value: non-finite numbers become null, undefined
  disappears from objects and becomes null in arrays, an error object has no enumerable fields.\<close>

fun jsonKept :: "jsval \<Rightarrow> jsval" where
  "jsonKept (JNonFinite s) = JNull"
| "jsonKept JUndef = JNull"
| "jsonKept (JError n m st) = JObj []"
| "jsonKept (JArr vs) = JArr (map jsonKept vs)"
| "jsonKept (JObj fs) = JObj (map (\<lambda>(k, v). (k, jsonKept v)) (filter (\<lambda>(k, v). v \<noteq> JUndef) fs))"
| "jsonKept v = v"

definition serializeJson :: "'a option \<Rightarrow> 'a json_text option" where
  "serializeJson v = map_option JsonText v"

definition parseJsonValue :: "('a \<Rightarrow> 'b) \<Rightarrow> 'a json_text option \<Rightarrow> 'b option" where
  "parseJsonValue read_value raw =
     (case raw of Some (JsonText v) \<Rightarrow> Some (read_value v) | _ \<Rightarrow> None)"

fun syncModeText :: "flow_sync_mode \<Rightarrow> string" where
  "syncModeText TaskMirrored = ''task_mirrored''"
| "syncModeText Managed = ''managed''"

definition rowToSyncMode :: "flow_row \<Rightarrow> flow_sync_mode" where
  "rowToSyncMode row =
     (if rw_sync_mode row = Some ''task_mirrored'' then TaskMirrored
      else if rw_sync_mode row = Some ''managed'' then Managed
      else if rw_shape row = Some ''single_task'' then TaskMirrored else Managed)"

text \<open>\<open>...(column ? { field: column } : {})\<close>\<close>

definition truthyText :: "string option \<Rightarrow> string option" where
  "truthyText v = (if v = Some [] then None else v)"

definition rowToFlowRecord :: "flow_row \<Rightarrow> task_flow" where
  "rowToFlowRecord row =
     \<lparr>tf_flowId = rw_flow_id row, tf_syncMode = rowToSyncMode row, tf_ownerKey = rw_owner_key row,
      tf_requesterOrigin = parseJsonValue id (rw_requester_origin_json row),
      tf_controllerId = truthyText (rw_controller_id row),
      tf_revision = orElse (rw_revision row) 0, tf_status = rw_status row,
      tf_notifyPolicy = rw_notify_policy row, tf_goal = rw_goal row,
      tf_currentStep = truthyText (rw_current_step row),
      tf_blockedTaskId = truthyText (rw_blocked_task_id row),
      tf_blockedSummary = truthyText (rw_blocked_summary row),
      tf_stateJson = parseJsonValue jsonKept (rw_state_json row),
      tf_waitJson = parseJsonValue jsonKept (rw_wait_json row),
      tf_cancelRequestedAt = rw_cancel_requested_at row, tf_createdAt = rw_created_at row,
      tf_updatedAt = rw_updated_at row, tf_endedAt = rw_ended_at row\<rparr>"

text \<open>The statement has no \<open>shape\<close>: a new row has none, an updated row keeps its own.\<close>

definition bindFlowRecord :: "string option \<Rightarrow> task_flow \<Rightarrow> flow_row" where
  "bindFlowRecord shape f =
     \<lparr>rw_flow_id = tf_flowId f, rw_sync_mode = Some (syncModeText (tf_syncMode f)), rw_shape = shape,
      rw_owner_key = tf_ownerKey f, rw_requester_origin_json = serializeJson (tf_requesterOrigin f),
      rw_controller_id = tf_controllerId f, rw_revision = Some (tf_revision f), rw_status = tf_status f,
      rw_notify_policy = tf_notifyPolicy f, rw_goal = tf_goal f, rw_current_step = tf_currentStep f,
      rw_blocked_task_id = tf_blockedTaskId f, rw_blocked_summary = tf_blockedSummary f,
      rw_state_json = serializeJson (tf_stateJson f), rw_wait_json = serializeJson (tf_waitJson f),
      rw_cancel_requested_at = tf_cancelRequestedAt f, rw_created_at = tf_createdAt f,
      rw_updated_at = tf_updatedAt f, rw_ended_at = tf_endedAt f\<rparr>"

section \<open>Statements\<close>

text \<open>SQL \<open>trim\<close> strips spaces only.\<close>

definition sqlTrim :: "string \<Rightarrow> string" where
  "sqlTrim s = rev (dropWhile (\<lambda>c. c = CHR '' '') (rev (dropWhile (\<lambda>c. c = CHR '' '') s)))"

definition ensureSchemaRow :: "flow_row \<Rightarrow> flow_row" where
  "ensureSchemaRow row =
     (if rw_sync_mode row = Some ''managed'' \<and>
         (case rw_controller_id row of None \<Rightarrow> True | Some c \<Rightarrow> sqlTrim c = [])
      then row\<lparr>rw_controller_id := Some (legacyControllerId ())\<rparr> else row)"

definition openFlowRegistryDatabase :: "flow_db \<Rightarrow> flow_db" where
  "openFlowRegistryDatabase d =
     (if db_open d then d
      else d\<lparr>db_rows := map (\<lambda>(k, r). (k, ensureSchemaRow r)) (db_rows d), db_open := True\<rparr>)"

definition takeFault :: "flow_db \<Rightarrow> db_fault \<times> flow_db" where
  "takeFault d = (case db_faults d of
     [] \<Rightarrow> (NoFault, d) | x # xs \<Rightarrow> (x, d\<lparr>db_faults := xs\<rparr>))"

text \<open>A statement over the open database: throw before it, run it, or run it and throw.\<close>

definition runStatement ::
  "((string, flow_row) jsmap \<Rightarrow> (string, flow_row) jsmap) \<Rightarrow> flow_db \<Rightarrow> string option \<times> flow_db" where
  "runStatement write d =
     (case takeFault (openFlowRegistryDatabase d) of
        (FailBefore e, d) \<Rightarrow> (Some e, d)
      | (FailAfter e, d) \<Rightarrow> (Some e, d\<lparr>db_rows := write (db_rows d)\<rparr>)
      | (NoFault, d) \<Rightarrow> (None, d\<lparr>db_rows := write (db_rows d)\<rparr>))"

definition upsertRow :: "task_flow \<Rightarrow> (string, flow_row) jsmap \<Rightarrow> (string, flow_row) jsmap" where
  "upsertRow f rows =
     (let shape = (case jm_get rows (tf_flowId f) of None \<Rightarrow> None | Some r \<Rightarrow> rw_shape r)
      in jm_set (tf_flowId f) (bindFlowRecord shape f) rows)"

text \<open>\<open>ORDER BY created_at ASC, flow_id ASC\<close>\<close>

definition rowOrder :: "flow_row \<Rightarrow> flow_row \<Rightarrow> int" where
  "rowOrder a b = (if rw_created_at a < rw_created_at b then -1
                   else if rw_created_at b < rw_created_at a then 1
                   else cu_compare (rw_flow_id a) (rw_flow_id b))"

definition loadTaskFlowRegistryStateFromSqlite ::
  "flow_db \<Rightarrow> (string + (string \<times> task_flow) list) \<times> flow_db" where
  "loadTaskFlowRegistryStateFromSqlite d =
     (case takeFault (openFlowRegistryDatabase d) of
        (NoFault, d) \<Rightarrow>
          (Inr (foldl (\<lambda>m r. jm_set (rw_flow_id r) (rowToFlowRecord r) m) []
                  (js_toSorted rowOrder (map snd (db_rows d)))), d)
      | (FailBefore e, d) \<Rightarrow> (Inl e, d)
      | (FailAfter e, d) \<Rightarrow> (Inl e, d))"

definition saveTaskFlowRegistryStateToSqlite ::
  "(string \<times> task_flow) list \<Rightarrow> flow_db \<Rightarrow> string option \<times> flow_db" where
  "saveTaskFlowRegistryStateToSqlite snapshot d =
     runStatement (\<lambda>rows. foldl (\<lambda>rows f. upsertRow f rows) [] (map snd snapshot)) d"

definition upsertTaskFlowRegistryRecordToSqlite :: "task_flow \<Rightarrow> flow_db \<Rightarrow> string option \<times> flow_db" where
  "upsertTaskFlowRegistryRecordToSqlite f d = runStatement (upsertRow f) d"

definition deleteTaskFlowRegistryRecordFromSqlite :: "string \<Rightarrow> flow_db \<Rightarrow> string option \<times> flow_db" where
  "deleteTaskFlowRegistryRecordFromSqlite flowId d = runStatement (jm_delete flowId) d"

definition closeTaskFlowRegistrySqliteStore :: "flow_db \<Rightarrow> flow_db" where
  "closeTaskFlowRegistrySqliteStore d = d\<lparr>db_open := False\<rparr>"

definition sqliteFlowStore :: "flow_db flow_store" where
  "sqliteFlowStore = \<lparr>loadSnapshot = loadTaskFlowRegistryStateFromSqlite,
     saveSnapshot = saveTaskFlowRegistryStateToSqlite,
     upsertFlow = Some upsertTaskFlowRegistryRecordToSqlite,
     deleteFlow = Some deleteTaskFlowRegistryRecordFromSqlite\<rparr>"

section \<open>The contract between the registry and its store\<close>

text \<open>What a record is after it has been stored and restored.\<close>

definition storedForm :: "task_flow \<Rightarrow> task_flow" where
  "storedForm f = f\<lparr>tf_controllerId := truthyText (tf_controllerId f),
     tf_stateJson := map_option jsonKept (tf_stateJson f),
     tf_waitJson := map_option jsonKept (tf_waitJson f)\<rparr>"

text \<open>
  A healthy store loads what it holds (\<open>stored\<close>), takes every well-formed record and forgets what is
  deleted.
\<close>

locale flow_store_contract =
  fixes S :: "'st flow_store"
    and healthy :: "'st \<Rightarrow> bool"
    and stored :: "'st \<Rightarrow> string \<Rightarrow> task_flow option"
  assumes load_law: "healthy st \<Longrightarrow> \<exists>snap st' m. loadSnapshot S st = (Inr snap, st') \<and>
      restoreFlows snap [] = Inr m \<and> jm_get m = stored st \<and> healthy st' \<and> stored st' = stored st"
    and upsert_law: "healthy st \<Longrightarrow> flow_ok (tf_flowId f) f \<Longrightarrow>
      \<exists>up st'. upsertFlow S = Some up \<and> up f st = (None, st') \<and> healthy st' \<and>
        stored st' = (stored st)(tf_flowId f \<mapsto> storedForm f)"
    and delete_law: "healthy st \<Longrightarrow>
      \<exists>del st'. deleteFlow S = Some del \<and> del i st = (None, st') \<and> healthy st' \<and>
        stored st' = (stored st)(i := None)"
    and stored_form: "healthy st \<Longrightarrow> stored st i = Some f \<Longrightarrow> storedForm f = f"

text \<open>The store of a restored registry holds the registry's flows.\<close>

definition inStep :: "('st \<Rightarrow> bool) \<Rightarrow> ('st \<Rightarrow> string \<Rightarrow> task_flow option) \<Rightarrow> 'st flow_registry \<Rightarrow> bool" where
  "inStep healthy stored R \<longleftrightarrow> healthy (fr_store R) \<and>
     (fr_restoreAttempted R \<longrightarrow> stored (fr_store R) = map_option storedForm \<circ> jm_get (fr_flows R))"

context flow_store_contract
begin

lemma ready_inStep:
  assumes "inStep healthy stored R"
  shows "inStep healthy stored (ensureFlowRegistryReady S R)"
    and "stored (fr_store (ensureFlowRegistryReady S R)) = stored (fr_store R)"
    and "\<not> fr_restoreAttempted R \<Longrightarrow> jm_get (fr_flows (ensureFlowRegistryReady S R)) = stored (fr_store R)"
proof -
  have h: "healthy (fr_store R)" using assms by (simp add: inStep_def)
  obtain snap st' m where l: "loadSnapshot S (fr_store R) = (Inr snap, st')" "restoreFlows snap [] = Inr m"
    "jm_get m = stored (fr_store R)" "healthy st'" "stored st' = stored (fr_store R)"
    using load_law [OF h] by blast
  have "map_option storedForm (stored (fr_store R) i) = stored (fr_store R) i" for i
    using stored_form [OF h] by (cases "stored (fr_store R) i") auto
  then have k: "map_option storedForm \<circ> jm_get m = stored (fr_store R)"
    using l(3) by (simp add: fun_eq_iff)
  show "inStep healthy stored (ensureFlowRegistryReady S R)"
    using assms l k by (cases "fr_restoreAttempted R")
      (simp_all add: inStep_def ensureFlowRegistryReady_def emitFlowEvent_def)
  show "stored (fr_store (ensureFlowRegistryReady S R)) = stored (fr_store R)"
    using l by (cases "fr_restoreAttempted R") (simp_all add: ensureFlowRegistryReady_def emitFlowEvent_def)
  show "jm_get (fr_flows (ensureFlowRegistryReady S R)) = stored (fr_store R)" if "\<not> fr_restoreAttempted R"
    using that l by (simp add: ensureFlowRegistryReady_def emitFlowEvent_def)
qed

lemma write_inStep:
  assumes "inStep healthy stored R" "flow_ok (tf_flowId f) f" "fr_restoreAttempted R"
  shows "inStep healthy stored (snd (writeFlowRecord S f p R)) \<and> fst (writeFlowRecord S f p R) = Inr f"
proof -
  obtain up st' where "upsertFlow S = Some up" "up f (fr_store R) = (None, st')" "healthy st'"
    "stored st' = (stored (fr_store R))(tf_flowId f \<mapsto> storedForm f)"
    using upsert_law [of "fr_store R" f] assms by (auto simp: inStep_def)
  with assms show ?thesis
    by (auto simp: inStep_def writeFlowRecord_def persistFlowUpsert_def emitFlowEvent_def fun_eq_iff jm_get_set)
qed

lemma drop_inStep:
  assumes "inStep healthy stored R" "fr_restoreAttempted R"
  shows "inStep healthy stored (snd (dropFlowRecord S i cur R))"
proof -
  obtain del st' where "deleteFlow S = Some del" "del i (fr_store R) = (None, st')" "healthy st'"
    "stored st' = (stored (fr_store R))(i := None)"
    using delete_law [of "fr_store R" i] assms by (auto simp: inStep_def)
  with assms show ?thesis
    by (auto simp: inStep_def dropFlowRecord_def persistFlowDelete_def emitFlowEvent_def fun_eq_iff jm_get_delete)
qed

lemma move_inStep:
  assumes "flowMove S u R R'" "inStep healthy stored R" "registry_ok R" "fr_restoreAttempted R"
  shows "inStep healthy stored R'"
  using assms
proof (cases rule: flowMove.cases)
  case (move_create clock i p f)
  then have "flow_ok (tf_flowId f) f" using built_ok by (metis flow_ok_def)
  then show ?thesis using move_create assms write_inStep by simp
next
  case (move_patch i cur clock patch f)
  then have "flow_ok (tf_flowId f) f"
    using patched_ok flow_map_ok_get assms(3) by (metis flow_ok_def registry_ok_def)
  then show ?thesis using move_patch assms write_inStep by simp
qed (simp_all add: drop_inStep)

lemma step_inStep:
  assumes "inStep healthy stored R" "registry_ok R" "snapshot_keyed S \<or> fr_restoreAttempted R"
  shows "inStep healthy stored (flowStep S R op)"
proof -
  have "registry_ok (ensureFlowRegistryReady S R)" using assms ensure_ready_ok by auto
  then show ?thesis
    using flowStep_move [of S R op] assms(1) move_inStep [OF _ ready_inStep(1)]
    by (auto simp: movesBy_def)
qed

lemma run_inStep:
  assumes "inStep healthy stored R" "registry_ok R" "snapshot_keyed S"
  shows "inStep healthy stored (foldl (flowStep S) R ops)"
  using assms
proof (induction ops arbitrary: R)
  case (Cons op ops)
  have "inStep healthy stored (flowStep S R op)" "registry_ok (flowStep S R op)"
    using Cons.prems by (auto intro: step_inStep flowStep_ok)
  then show ?case using Cons by simp
qed simp

text \<open>A new process over the store a run has left sees the flows of the run.\<close>

lemma restart_sees_flows:
  assumes "inStep healthy stored R" "fr_restoreAttempted R"
  shows "jm_get (fr_flows (ensureFlowRegistryReady S (initFlowRegistry (fr_store R)))) =
         map_option storedForm \<circ> jm_get (fr_flows R)"
proof -
  have "inStep healthy stored (initFlowRegistry (fr_store R))"
    using assms by (simp add: inStep_def initFlowRegistry_def)
  from ready_inStep(3) [OF this] assms show ?thesis
    by (simp add: inStep_def initFlowRegistry_def comp_def)
qed

end


section \<open>The table fulfils the contract\<close>

definition restoreRow :: "flow_row \<Rightarrow> flow_error + task_flow" where
  "restoreRow r = normalizeRestoredFlowRecord (rowToFlowRecord r)"

definition rowsKeyed :: "(string, flow_row) jsmap \<Rightarrow> bool" where
  "rowsKeyed rows \<longleftrightarrow> jm_wf rows \<and> (\<forall>(k, r) \<in> set rows. rw_flow_id r = k)"

text \<open>No failing statement ahead, rows under their primary key, every row with an owner.\<close>

definition dbHealthy :: "flow_db \<Rightarrow> bool" where
  "dbHealthy d \<longleftrightarrow> db_faults d = [] \<and> rowsKeyed (db_rows d) \<and>
     (\<forall>(k, r) \<in> set (db_rows d). js_trim (rw_owner_key r) \<noteq> [])"

definition storedFlows :: "flow_db \<Rightarrow> string \<Rightarrow> task_flow option" where
  "storedFlows d i = (case jm_get (db_rows d) i of
     None \<Rightarrow> None | Some r \<Rightarrow> (case restoreRow r of Inl _ \<Rightarrow> None | Inr f \<Rightarrow> Some f))"

lemma trim_both_Nil:
  assumes "rev (dropWhile P (rev (dropWhile P xs))) = []"
  shows "\<forall>x \<in> set xs. P x"
proof -
  have "\<forall>x \<in> set (dropWhile P xs). P x" using assms by simp
  then have "dropWhile P xs = []"
    using hd_dropWhile [of P xs] hd_in_set [of "dropWhile P xs"] by blast
  then show ?thesis by simp
qed

lemma sqlTrim_blank:
  assumes "sqlTrim c = []"
  shows "js_trim c = []"
proof -
  have space: "js_ws (CHR '' '')" by (simp add: js_ws_def)
  note all_space = trim_both_Nil [OF assms [unfolded sqlTrim_def]]
  have "js_ws x" if "x \<in> set c" for x
  proof -
    from all_space that have "x = CHR '' ''" by (rule bspec)
    with space show ?thesis by (simp only:)
  qed
  then have "js_trim_start c = []" by (simp add: js_trim_start_def)
  then show ?thesis by (simp add: js_trim_def)
qed

lemma blank_controller:
  "(case c of None \<Rightarrow> True | Some s \<Rightarrow> sqlTrim s = []) \<Longrightarrow> normalizeOptionalString (truthyText c) = None"
  using sqlTrim_blank
  by (auto simp: truthyText_def normalizeOptionalString_def normalizeNullableString_def Let_def
      split: option.splits)

lemma truthyText_normalized: "normalized v \<Longrightarrow> truthyText v = v"
  by (auto simp: truthyText_def normalizeOptionalString_def normalizeNullableString_def)

lemma normalizeOptionalString_truthy [simp]: "normalizeOptionalString (truthyText v) = normalizeOptionalString v"
  by (auto simp: truthyText_def normalizeOptionalString_def normalizeNullableString_def)

lemma legacy_nonempty: "legacyControllerId () \<noteq> []"
  by (simp add: legacyControllerId.simps)

lemma restore_ensureSchemaRow: "restoreRow (ensureSchemaRow r) = restoreRow r"
proof -
  have "truthyText (Some (legacyControllerId ())) = Some (legacyControllerId ())"
    by (simp add: truthyText_def legacy_nonempty)
  then show ?thesis
    using blank_controller [of "rw_controller_id r"]
    by (auto simp: restoreRow_def ensureSchemaRow_def normalizeRestoredFlowRecord_def rowToFlowRecord_def
        rowToSyncMode_def Let_def split: sum.split)
qed

lemma restore_bind:
  assumes "flow_ok k f"
  shows "restoreRow (bindFlowRecord shape f) = Inr (storedForm f)"
proof -
  have mode: "rowToSyncMode (bindFlowRecord shape f) = tf_syncMode f"
    by (cases "tf_syncMode f") (simp_all add: rowToSyncMode_def bindFlowRecord_def)
  show ?thesis
    using assms mode
    by (auto simp: restoreRow_def normalizeRestoredFlowRecord_def rowToFlowRecord_def bindFlowRecord_def
        storedForm_def serializeJson_def parseJsonValue_def flow_ok_def assertFlowOwnerKey_def orElse_def
        truthyText_normalized Let_def option.map_id split: option.split)
qed

lemma restoreRow_Inr: "js_trim (rw_owner_key r) \<noteq> [] \<Longrightarrow> \<exists>f. restoreRow r = Inr f"
  by (simp add: restoreRow_def normalizeRestoredFlowRecord_def rowToFlowRecord_def assertFlowOwnerKey_def
      normalizeOptionalString_def normalizeNullableString_def Let_def)

lemma jsonKept_idem [simp]: "jsonKept (jsonKept v) = jsonKept v"
proof (induction v rule: jsonKept.induct)
  case (5 fs)
  have "jsonKept v \<noteq> JUndef" for v by (cases v) auto
  then have "filter (\<lambda>(k, v). v \<noteq> JUndef) (map (\<lambda>(k, v). (k, jsonKept v)) gs) =
    map (\<lambda>(k, v). (k, jsonKept v)) gs" for gs :: "(string \<times> jsval) list"
    by (induction gs) auto
  with 5 show ?case by (auto simp: comp_def)
qed (auto simp: comp_def)

lemma parseKept: "map_option jsonKept (parseJsonValue jsonKept v) = parseJsonValue jsonKept v"
  by (auto simp: parseJsonValue_def split: option.split json_text.split)

lemma truthyText_idem [simp]: "truthyText (truthyText v) = truthyText v"
  by (simp add: truthyText_def)

lemma restored_storedForm:
  assumes "restoreRow r = Inr f"
  shows "storedForm f = f"
proof -
  have legacy: "truthyText (Some (legacyControllerId ())) = Some (legacyControllerId ())"
    by (simp add: truthyText_def legacy_nonempty)
  have some: "truthyText (Some c) = Some c" if "normalizeOptionalString v = Some c" for v c
    using that normalizeOptionalString_nonempty [of v] by (auto simp: truthyText_def)
  show ?thesis
    using assms
    by (auto simp: restoreRow_def normalizeRestoredFlowRecord_def rowToFlowRecord_def storedForm_def
        parseKept legacy some Let_def split: sum.splits option.splits if_splits)
qed

text \<open>The snapshot that is loaded, and what the restore makes of it.\<close>

lemma restoreFlows_get:
  "distinct (map fst snap) \<Longrightarrow> \<forall>(k, f) \<in> set snap. \<exists>g. normalizeRestoredFlowRecord f = Inr g \<Longrightarrow>
   \<exists>m. restoreFlows snap m0 = Inr m \<and>
     (\<forall>i. jm_get m i = (case map_of snap i of
        None \<Rightarrow> jm_get m0 i
      | Some f \<Rightarrow> (case normalizeRestoredFlowRecord f of Inl _ \<Rightarrow> None | Inr g \<Rightarrow> Some g)))"
proof (induction snap m0 rule: restoreFlows.induct)
  case (1 m)
  then show ?case by simp
next
  case (2 k f rest m)
  then obtain g where g: "normalizeRestoredFlowRecord f = Inr g" by auto
  with 2 obtain m' where m': "restoreFlows rest (jm_set k g m) = Inr m'"
    "\<forall>i. jm_get m' i = (case map_of rest i of
        None \<Rightarrow> jm_get (jm_set k g m) i
      | Some f \<Rightarrow> (case normalizeRestoredFlowRecord f of Inl _ \<Rightarrow> None | Inr g \<Rightarrow> Some g))"
    by force
  have "k \<notin> fst ` set rest" using "2.prems" by auto
  then have "map_of rest k = None" by (simp add: map_of_eq_None_iff)
  with g m' show ?case by (auto simp: jm_get_set split: option.split)
qed

lemma foldl_jm_set_get:
  "distinct (map key xs) \<Longrightarrow>
   jm_get (foldl (\<lambda>m r. jm_set (key r) (val r) m) m0 xs) i =
   (case find (\<lambda>r. key r = i) xs of None \<Rightarrow> jm_get m0 i | Some r \<Rightarrow> Some (val r))"
proof (induction xs arbitrary: m0)
  case (Cons x xs)
  have "find (\<lambda>r. key r = key x) xs = None"
    using Cons.prems unfolding find_None_iff by (metis distinct.simps(2) image_eqI list.simps(9) set_map)
  with Cons show ?case by (auto simp: jm_get_set split: option.split)
qed simp

lemma foldl_jm_set_wf: "jm_wf m0 \<Longrightarrow> jm_wf (foldl (\<lambda>m r. jm_set (key r) (val r) m) m0 xs)"
  by (induction xs arbitrary: m0) auto

lemma open_healthy:
  assumes "dbHealthy d"
  shows "dbHealthy (openFlowRegistryDatabase d)"
    and "storedFlows (openFlowRegistryDatabase d) = storedFlows d"
proof -
  let ?g = "\<lambda>(k :: string, r). (k, ensureSchemaRow r)"
  have keys: "rw_flow_id (ensureSchemaRow r) = rw_flow_id r \<and> rw_owner_key (ensureSchemaRow r) = rw_owner_key r" for r
    by (simp add: ensureSchemaRow_def)
  have fst_g: "fst \<circ> ?g = fst" by (auto simp: fun_eq_iff)
  show "dbHealthy (openFlowRegistryDatabase d)"
    using assms keys fst_g by (auto simp: dbHealthy_def rowsKeyed_def openFlowRegistryDatabase_def)
  have get_g: "jm_get (map ?g rows) i = map_option ensureSchemaRow (jm_get rows i)"
    for rows and i :: string
    by (induction rows) auto
  have "storedFlows (openFlowRegistryDatabase d) i = storedFlows d i" for i
    by (auto simp: storedFlows_def openFlowRegistryDatabase_def get_g restore_ensureSchemaRow split: option.split)
  then show "storedFlows (openFlowRegistryDatabase d) = storedFlows d" by blast
qed

lemma rows_get:
  assumes "rowsKeyed rows"
  shows "find (\<lambda>r. rw_flow_id r = i) (js_toSorted rowOrder (map snd rows)) = jm_get rows i"
    and "distinct (map rw_flow_id (js_toSorted rowOrder (map snd rows)))"
proof -
  have "map rw_flow_id (map snd rows) = map fst rows"
    using assms by (auto simp: rowsKeyed_def)
  then have "mset (map rw_flow_id (js_toSorted rowOrder (map snd rows))) = mset (map fst rows)"
    by (metis mset_js_toSorted mset_map)
  then show d: "distinct (map rw_flow_id (js_toSorted rowOrder (map snd rows)))"
    using assms by (metis mset_eq_imp_distinct_iff rowsKeyed_def)
  have "find (\<lambda>r. rw_flow_id r = i) (js_toSorted rowOrder (map snd rows)) = Some r \<longleftrightarrow> jm_get rows i = Some r" for r
    using assms unfolding find_key [OF d] by (auto simp: rowsKeyed_def dest: map_of_SomeD intro: rev_image_eqI)
  then show "find (\<lambda>r. rw_flow_id r = i) (js_toSorted rowOrder (map snd rows)) = jm_get rows i"
    by (metis option.exhaust)
qed

lemma load_healthy:
  assumes "dbHealthy d"
  shows "\<exists>snap m. loadTaskFlowRegistryStateFromSqlite d = (Inr snap, openFlowRegistryDatabase d) \<and>
           restoreFlows snap [] = Inr m \<and> jm_get m = storedFlows d"
proof -
  let ?rows = "db_rows (openFlowRegistryDatabase d)"
  let ?rs = "js_toSorted rowOrder (map snd ?rows)"
  let ?snap = "foldl (\<lambda>m r. jm_set (rw_flow_id r) (rowToFlowRecord r) m) [] ?rs"
  note h = open_healthy [OF assms]
  have keyed: "rowsKeyed ?rows" and owner: "\<forall>r \<in> set (map snd ?rows). js_trim (rw_owner_key r) \<noteq> []"
    using h(1) by (auto simp: dbHealthy_def)
  have load: "loadTaskFlowRegistryStateFromSqlite d = (Inr ?snap, openFlowRegistryDatabase d)"
    using h(1) by (simp add: loadTaskFlowRegistryStateFromSqlite_def takeFault_def dbHealthy_def)
  have get: "map_of ?snap i = map_option rowToFlowRecord (jm_get ?rows i)" for i
    unfolding foldl_jm_set_get [OF rows_get(2) [OF keyed]] rows_get(1) [OF keyed]
    by (simp split: option.split)
  have wf: "jm_wf ?snap" by (rule foldl_jm_set_wf) simp
  have "\<forall>(k, f) \<in> set ?snap. \<exists>g. normalizeRestoredFlowRecord f = Inr g"
  proof (intro ballI, clarify)
    fix k f
    assume "(k, f) \<in> set ?snap"
    then have "map_of ?snap k = Some f" using wf by simp
    then obtain r where "jm_get ?rows k = Some r" "f = rowToFlowRecord r" unfolding get by auto
    then have "js_trim (rw_owner_key r) \<noteq> []" using owner by (auto dest!: map_of_SomeD)
    then show "\<exists>g. normalizeRestoredFlowRecord f = Inr g"
      using restoreRow_Inr [of r] \<open>f = rowToFlowRecord r\<close> by (simp add: restoreRow_def)
  qed
  from restoreFlows_get [OF wf this, of "[]"] obtain m where m: "restoreFlows ?snap [] = Inr m"
    "\<forall>i. jm_get m i = (case map_of ?snap i of None \<Rightarrow> jm_get [] i
      | Some f \<Rightarrow> (case normalizeRestoredFlowRecord f of Inl _ \<Rightarrow> None | Inr g \<Rightarrow> Some g))"
    by blast
  have "jm_get m i = storedFlows (openFlowRegistryDatabase d) i" for i
    using m(2) unfolding get by (simp add: storedFlows_def restoreRow_def split: option.split)
  then have "jm_get m = storedFlows d" using h(2) by (simp add: fun_eq_iff)
  with load m(1) show ?thesis by blast
qed

lemma set_map_snd_jm_set: "(k, r) \<in> set (jm_set i x rows) \<Longrightarrow> (k, r) = (i, x) \<or> (k, r) \<in> set rows"
  using set_jm_set_subset [of i x rows] by auto

lemma upsert_healthy:
  assumes "dbHealthy d" "flow_ok (tf_flowId f) f"
  obtains d' where "upsertTaskFlowRegistryRecordToSqlite f d = (None, d')" "dbHealthy d'"
    "storedFlows d' = (storedFlows d)(tf_flowId f \<mapsto> storedForm f)"
proof -
  let ?o = "openFlowRegistryDatabase d"
  note h = open_healthy [OF assms(1)]
  let ?d' = "?o\<lparr>db_rows := upsertRow f (db_rows ?o)\<rparr>"
  have run: "upsertTaskFlowRegistryRecordToSqlite f d = (None, ?d')"
    using h(1) by (simp add: upsertTaskFlowRegistryRecordToSqlite_def runStatement_def takeFault_def dbHealthy_def)
  have "js_trim (tf_ownerKey f) \<noteq> []"
    using assms(2) by (auto simp: flow_ok_def normalizeOptionalString_Some_iff)
  then have ok: "dbHealthy ?d'"
    using h(1) by (auto simp: dbHealthy_def rowsKeyed_def upsertRow_def Let_def bindFlowRecord_def
        dest!: set_map_snd_jm_set)
  have "storedFlows ?d' = (storedFlows ?o)(tf_flowId f \<mapsto> storedForm f)"
    by (auto simp: storedFlows_def upsertRow_def jm_get_set restore_bind [OF assms(2)] Let_def fun_eq_iff)
  with h(2) run ok show ?thesis by (intro that) auto
qed

lemma delete_healthy:
  assumes "dbHealthy d"
  obtains d' where "deleteTaskFlowRegistryRecordFromSqlite i d = (None, d')" "dbHealthy d'"
    "storedFlows d' = (storedFlows d)(i := None)"
proof -
  let ?o = "openFlowRegistryDatabase d"
  note h = open_healthy [OF assms(1)]
  let ?d' = "?o\<lparr>db_rows := jm_delete i (db_rows ?o)\<rparr>"
  have run: "deleteTaskFlowRegistryRecordFromSqlite i d = (None, ?d')"
    using h(1) by (simp add: deleteTaskFlowRegistryRecordFromSqlite_def runStatement_def takeFault_def dbHealthy_def)
  have ok: "dbHealthy ?d'"
    using h(1) set_jm_delete_subset [of i "db_rows ?o"] by (auto simp: dbHealthy_def rowsKeyed_def)
  have "storedFlows ?d' = (storedFlows ?o)(i := None)"
    by (auto simp: storedFlows_def jm_get_delete fun_eq_iff)
  with h(2) run ok show ?thesis by (intro that) auto
qed

interpretation sqlite: flow_store_contract sqliteFlowStore dbHealthy storedFlows
proof
  fix d :: flow_db
  assume d: "dbHealthy d"
  show "\<exists>snap d' m. loadSnapshot sqliteFlowStore d = (Inr snap, d') \<and> restoreFlows snap [] = Inr m \<and>
      jm_get m = storedFlows d \<and> dbHealthy d' \<and> storedFlows d' = storedFlows d"
    using load_healthy [OF d] open_healthy [OF d] by (auto simp: sqliteFlowStore_def)
  show "\<exists>up d'. upsertFlow sqliteFlowStore = Some up \<and> up f d = (None, d') \<and> dbHealthy d' \<and>
      storedFlows d' = (storedFlows d)(tf_flowId f \<mapsto> storedForm f)"
    if "flow_ok (tf_flowId f) f" for f
    using upsert_healthy [OF d that] by (metis flow_store.select_convs(3) sqliteFlowStore_def)
  show "\<exists>del d'. deleteFlow sqliteFlowStore = Some del \<and> del i d = (None, d') \<and> dbHealthy d' \<and>
      storedFlows d' = (storedFlows d)(i := None)" for i
    using delete_healthy [OF d] by (metis flow_store.select_convs(4) sqliteFlowStore_def)
  show "storedForm f = f" if "storedFlows d i = Some f" for i f
    using that by (auto simp: storedFlows_def intro: restored_storedForm split: option.splits sum.splits)
qed

section \<open>Properties\<close>

lemma foldl_jm_set_entries:
  "(k, v) \<in> set (foldl (\<lambda>m r. jm_set (key r) (val r) m) m0 xs) \<Longrightarrow>
   (k, v) \<in> set m0 \<or> (\<exists>r \<in> set xs. k = key r \<and> v = val r)"
proof (induction xs arbitrary: m0)
  case (Cons x xs)
  then consider "(k, v) \<in> set (jm_set (key x) (val x) m0)" | "\<exists>r \<in> set xs. k = key r \<and> v = val r"
    by auto
  then show ?case using set_jm_set_subset [of "key x" "val x" m0] by cases auto
qed simp

lemma sqlite_keyed: "snapshot_keyed sqliteFlowStore"
proof -
  have "tf_flowId f = k"
    if "(k, f) \<in> set (foldl (\<lambda>m r. jm_set (rw_flow_id r) (rowToFlowRecord r) m) [] rs)" for k f rs
    using foldl_jm_set_entries [OF that] by (auto simp: rowToFlowRecord_def)
  then show ?thesis
    by (auto simp: snapshot_keyed_def sqliteFlowStore_def loadTaskFlowRegistryStateFromSqlite_def
        split: prod.splits db_fault.splits)
qed

lemma close_healthy:
  "dbHealthy d \<Longrightarrow> dbHealthy (closeTaskFlowRegistrySqliteStore d)"
  "storedFlows (closeTaskFlowRegistrySqliteStore d) = storedFlows d"
  by (simp_all add: closeTaskFlowRegistrySqliteStore_def dbHealthy_def storedFlows_def fun_eq_iff)

text \<open>C3. Round trip through the database: after any run of operations over a database that does not
  fail, a new process restores exactly the flows the old one had in memory, each in its stored form
  (JSON values the way JSON keeps them, nothing else changed).\<close>

theorem flow_restart_roundtrip:
  assumes "dbHealthy d" and "R = foldl (flowStep sqliteFlowStore) (initFlowRegistry d) ops"
    and "fr_restoreAttempted R"
  shows "jm_get (fr_flows (ensureFlowRegistryReady sqliteFlowStore
            (initFlowRegistry (closeTaskFlowRegistrySqliteStore (fr_store R))))) =
         (\<lambda>i. map_option storedForm (jm_get (fr_flows R) i))"
proof -
  have start: "inStep dbHealthy storedFlows (initFlowRegistry d)" "registry_ok (initFlowRegistry d)"
    using assms(1) by (simp_all add: inStep_def initFlowRegistry_def registry_ok_def)
  have "inStep dbHealthy storedFlows R"
    using sqlite.run_inStep [OF start sqlite_keyed] assms(2) by simp
  then have "inStep dbHealthy storedFlows (R\<lparr>fr_store := closeTaskFlowRegistrySqliteStore (fr_store R)\<rparr>)"
    using close_healthy by (simp add: inStep_def)
  from sqlite.restart_sees_flows [OF this] assms(3) show ?thesis by (simp add: comp_def)
qed

fun sampleDb :: "unit \<Rightarrow> flow_db" where
  "sampleDb _ = \<lparr>db_rows = [(''a'', bindFlowRecord None (sampleFlow ''a'' Managed))], db_open = False, db_faults = []\<rparr>"

theorem flow_restart_roundtrip_witness:
  "let R = foldl (flowStep sqliteFlowStore) (initFlowRegistry (sampleDb ()))
             [OpFinish 9 (sampleChange ''a'' 0), OpDelete ''b'']
   in jm_get (fr_flows (ensureFlowRegistryReady sqliteFlowStore
            (initFlowRegistry (closeTaskFlowRegistrySqliteStore (fr_store R))))) =
         (\<lambda>i. map_option storedForm (jm_get (fr_flows R) i))"
proof -
  have "dbHealthy (sampleDb ())"
    by (simp add: dbHealthy_def rowsKeyed_def bindFlowRecord_def js_defs)
  moreover have "fr_restoreAttempted (flowStep S R (OpFinish 9 c))" for S :: "flow_db flow_store" and R c
    using flowMove_effect update_guarded_move by (fastforce simp: finishFlow_def movesBy_def Let_def)
  then have "fr_restoreAttempted (foldl (flowStep sqliteFlowStore) (initFlowRegistry (sampleDb ()))
      [OpFinish 9 (sampleChange ''a'' 0), OpDelete ''b''])"
    by (simp only: foldl.simps flowStep_attempted)
  ultimately show ?thesis unfolding Let_def by (intro flow_restart_roundtrip [OF _ refl])
qed

lemma normalize_Inl_iff:
  "normalizeRestoredFlowRecord f = Inl e \<longleftrightarrow> js_trim (tf_ownerKey f) = [] \<and> e = OwnerKeyRequired"
  by (auto simp: normalizeRestoredFlowRecord_def assertFlowOwnerKey_def normalizeOptionalString_def
      normalizeNullableString_def Let_def)

lemma restoreFlows_Inl:
  "(k, f) \<in> set snap \<Longrightarrow> js_trim (tf_ownerKey f) = [] \<Longrightarrow> restoreFlows snap m = Inl OwnerKeyRequired"
proof (induction snap m rule: restoreFlows.induct)
  case (2 i g rest m)
  then show ?case
    by (cases "normalizeRestoredFlowRecord g") (auto simp: normalize_Inl_iff [THEN iffD2] normalize_Inl_iff)
qed simp

text \<open>The restore is all or nothing: over a database whose statements succeed it fails exactly when
  some row has a blank owner key, and then no flow is restored at all, whatever the other rows hold;
  otherwise the flow of every row is there.\<close>

theorem flow_restore_all_or_nothing:
  assumes "rowsKeyed (db_rows d)" and "db_faults d = []"
  shows "if \<exists>(k, r) \<in> set (db_rows d). js_trim (rw_owner_key r) = []
         then fr_flows (ensureFlowRegistryReady sqliteFlowStore (initFlowRegistry d)) = [] \<and>
              fr_restoreFailure (ensureFlowRegistryReady sqliteFlowStore (initFlowRegistry d)) =
                Some ''Flow ownerKey is required.''
         else fr_restoreFailure (ensureFlowRegistryReady sqliteFlowStore (initFlowRegistry d)) = None \<and>
              dom (jm_get (fr_flows (ensureFlowRegistryReady sqliteFlowStore (initFlowRegistry d)))) =
                fst ` set (db_rows d)"
proof (cases "\<exists>(k, r) \<in> set (db_rows d). js_trim (rw_owner_key r) = []")
  case True
  then obtain k r where r: "(k, r) \<in> set (db_rows d)" "js_trim (rw_owner_key r) = []" by auto
  let ?rows = "db_rows (openFlowRegistryDatabase d)"
  let ?snap = "foldl (\<lambda>m r. jm_set (rw_flow_id r) (rowToFlowRecord r) m) [] (js_toSorted rowOrder (map snd ?rows))"
  define r' where "r' = (if db_open d then r else ensureSchemaRow r)"
  have r': "(k, r') \<in> set ?rows" "rw_owner_key r' = rw_owner_key r"
    using r(1) by (auto simp: r'_def openFlowRegistryDatabase_def ensureSchemaRow_def intro: rev_image_eqI)
  have fst_g: "fst \<circ> (\<lambda>(k :: string, r). (k, ensureSchemaRow r)) = fst" by (auto simp: fun_eq_iff)
  have keyed: "rowsKeyed ?rows"
    using assms(1) fst_g by (auto simp: rowsKeyed_def openFlowRegistryDatabase_def ensureSchemaRow_def)
  have "jm_get ?snap k = map_option rowToFlowRecord (jm_get ?rows k)"
    unfolding foldl_jm_set_get [OF rows_get(2) [OF keyed]] rows_get(1) [OF keyed]
    by (simp split: option.split)
  moreover have "jm_get ?rows k = Some r'" using r' keyed by (simp add: rowsKeyed_def)
  ultimately have "(k, rowToFlowRecord r') \<in> set ?snap" by (auto dest: map_of_SomeD)
  moreover have "js_trim (tf_ownerKey (rowToFlowRecord r')) = []"
    using r r' by (simp add: rowToFlowRecord_def)
  ultimately have "restoreFlows ?snap [] = Inl OwnerKeyRequired"
    by (rule restoreFlows_Inl)
  moreover have "loadTaskFlowRegistryStateFromSqlite d = (Inr ?snap, openFlowRegistryDatabase d)"
    using assms(2) by (simp add: loadTaskFlowRegistryStateFromSqlite_def takeFault_def openFlowRegistryDatabase_def)
  ultimately show ?thesis
    using True by (simp add: ensureFlowRegistryReady_def initFlowRegistry_def sqliteFlowStore_def)
next
  case False
  then have "dbHealthy d" using assms by (auto simp: dbHealthy_def)
  from load_healthy [OF this] obtain snap m where
    "loadTaskFlowRegistryStateFromSqlite d = (Inr snap, openFlowRegistryDatabase d)"
    "restoreFlows snap [] = Inr m" "jm_get m = storedFlows d"
    by blast
  moreover have "dom (storedFlows d) = fst ` set (db_rows d)"
  proof -
    have "storedFlows d i \<noteq> None \<longleftrightarrow> jm_get (db_rows d) i \<noteq> None" for i
      using False restoreRow_Inr by (fastforce simp: storedFlows_def dest: map_of_SomeD split: option.split sum.split)
    then show ?thesis by (auto simp: dom_def map_of_eq_None_iff)
  qed
  ultimately show ?thesis
    using False by (auto simp: ensureFlowRegistryReady_def initFlowRegistry_def sqliteFlowStore_def emitFlowEvent_def)
qed

theorem flow_restore_all_or_nothing_witness:
  "fr_flows (ensureFlowRegistryReady sqliteFlowStore (initFlowRegistry
     \<lparr>db_rows = [(''a'', bindFlowRecord None (sampleFlow ''a'' Managed)),
                 (''b'', bindFlowRecord None ((sampleFlow ''b'' Managed)\<lparr>tf_ownerKey := '' ''\<rparr>))],
      db_open = False, db_faults = []\<rparr>)) = []"
  using flow_restore_all_or_nothing [of "\<lparr>db_rows = [(''a'', bindFlowRecord None (sampleFlow ''a'' Managed)),
      (''b'', bindFlowRecord None ((sampleFlow ''b'' Managed)\<lparr>tf_ownerKey := '' ''\<rparr>))],
      db_open = False, db_faults = []\<rparr>"]
  by (simp add: rowsKeyed_def bindFlowRecord_def js_defs)

end
