(* ===== verification/TaskFlowMaintenance.thy ===== *)
theory TaskFlowMaintenance
  imports TaskFlow
begin

text \<open>
  Maintenance and audit of task flows, \<open>src/tasks/task-flow-registry.maintenance.ts\<close> and
  \<open>src/tasks/task-flow-registry.audit.ts\<close>: repairing the timestamps of mirrored flows, finalising
  flows whose cancellation was requested, pruning old terminal flows, and the audit findings with
  their order and summary.

  The tasks linked to a flow come from the task registry (\<open>listTasksForFlowId\<close>), which a run does not
  change; they are the argument \<open>linked\<close>.  A run is synchronous, so nothing else touches the registry
  while it lasts.
\<close>

section \<open>Maintenance\<close>

definition TASK_FLOW_RETENTION_MS :: int where
  "TASK_FLOW_RETENTION_MS = 7 * 24 * 60 * 60000"

definition isTerminalFlow :: "task_flow \<Rightarrow> bool" where
  "isTerminalFlow f \<longleftrightarrow> tf_status f = FsSucceeded \<or> tf_status f = FsBlocked \<or> tf_status f = FsFailed \<or>
     tf_status f = FsCancelled \<or> tf_status f = FsLost"

definition activeTask :: "task_record \<Rightarrow> bool" where
  "activeTask t \<longleftrightarrow> tr_status t = TsQueued \<or> tr_status t = TsRunning"

definition hasActiveLinkedTasks :: "(string \<Rightarrow> task_record list) \<Rightarrow> string \<Rightarrow> bool" where
  "hasActiveLinkedTasks linked flowId = list_ex activeTask (linked flowId)"

text \<open>\<open>endedAt ?? updatedAt ?? createdAt\<close>, where \<open>updatedAt\<close> is always present.\<close>

definition resolveTerminalAt :: "task_flow \<Rightarrow> int" where
  "resolveTerminalAt f = orElse (tf_endedAt f) (tf_updatedAt f)"

definition shouldPruneFlow :: "(string \<Rightarrow> task_record list) \<Rightarrow> int \<Rightarrow> task_flow \<Rightarrow> bool" where
  "shouldPruneFlow linked now f =
     (if \<not> isTerminalFlow f then False
      else if hasActiveLinkedTasks linked (tf_flowId f) then False
      else now - resolveTerminalAt f \<ge> TASK_FLOW_RETENTION_MS)"

definition shouldFinalizeCancelledFlow :: "(string \<Rightarrow> task_record list) \<Rightarrow> task_flow \<Rightarrow> bool" where
  "shouldFinalizeCancelledFlow linked f =
     (if tf_syncMode f \<noteq> Managed then False
      else if tf_cancelRequestedAt f = None \<or> isTerminalFlow f then False
      else \<not> hasActiveLinkedTasks linked (tf_flowId f))"

text \<open>The loop of \<open>finalizeCancelledFlow\<close>, with the attempts that are left.\<close>

fun finalizeAttempts ::
  "'st flow_store \<Rightarrow> (string \<Rightarrow> task_record list) \<Rightarrow> int \<Rightarrow> nat \<Rightarrow> task_flow \<Rightarrow> 'st flow_registry \<Rightarrow>
   (bool, 'st) flow_result" where
  "finalizeAttempts S linked now 0 current R = (Inr False, R)"
| "finalizeAttempts S linked now (Suc n) current R =
     (let endedAt = max now (max (tf_updatedAt current) (orElse (tf_cancelRequestedAt current) now))
      in case updateFlowRecordByIdExpectedRevision S now (tf_flowId current) (tf_revision current)
                (emptyPatch\<lparr>fp_status := Some FsCancelled, fp_blockedTaskId := Null,
                   fp_blockedSummary := Null, fp_waitJson := Some JNull, fp_endedAt := Val endedAt,
                   fp_updatedAt := Some endedAt\<rparr>) R of
           (Inl e, R) \<Rightarrow> (Inl e, R)
         | (Inr (Applied _), R) \<Rightarrow> (Inr True, R)
         | (Inr FlowNotFound, R) \<Rightarrow> (Inr False, R)
         | (Inr (RevisionConflict other), R) \<Rightarrow>
             if \<not> shouldFinalizeCancelledFlow linked other then (Inr False, R)
             else finalizeAttempts S linked now n other R)"

definition finalizeCancelledFlow ::
  "'st flow_store \<Rightarrow> (string \<Rightarrow> task_record list) \<Rightarrow> int \<Rightarrow> task_flow \<Rightarrow> 'st flow_registry \<Rightarrow>
   (bool, 'st) flow_result" where
  "finalizeCancelledFlow S linked now flow R = finalizeAttempts S linked now 2 flow R"

definition shouldRepairTerminalMirroredFlowTimestamp :: "task_flow \<Rightarrow> bool" where
  "shouldRepairTerminalMirroredFlowTimestamp f =
     (if tf_syncMode f \<noteq> TaskMirrored \<or> \<not> isTerminalFlow f then False
      else case tf_endedAt f of
             None \<Rightarrow> False
           | Some e \<Rightarrow> if e < tf_createdAt f then False else tf_updatedAt f > e)"

fun repairAttempts ::
  "'st flow_store \<Rightarrow> int \<Rightarrow> nat \<Rightarrow> task_flow \<Rightarrow> 'st flow_registry \<Rightarrow> (bool, 'st) flow_result" where
  "repairAttempts S now 0 current R = (Inr False, R)"
| "repairAttempts S now (Suc n) current R =
     (if \<not> shouldRepairTerminalMirroredFlowTimestamp current then (Inr False, R)
      else case updateFlowRecordByIdExpectedRevision S now (tf_flowId current) (tf_revision current)
                (emptyPatch\<lparr>fp_updatedAt := tf_endedAt current\<rparr>) R of
           (Inl e, R) \<Rightarrow> (Inl e, R)
         | (Inr (Applied _), R) \<Rightarrow> (Inr True, R)
         | (Inr FlowNotFound, R) \<Rightarrow> (Inr False, R)
         | (Inr (RevisionConflict other), R) \<Rightarrow> repairAttempts S now n other R)"

definition repairTerminalMirroredFlowTimestamp ::
  "'st flow_store \<Rightarrow> int \<Rightarrow> task_flow \<Rightarrow> 'st flow_registry \<Rightarrow> (bool, 'st) flow_result" where
  "repairTerminalMirroredFlowTimestamp S now flow R = repairAttempts S now 2 flow R"

record maintenance_summary =
  ms_reconciled :: nat
  ms_pruned :: nat

definition countReconciled :: "bool \<Rightarrow> maintenance_summary \<Rightarrow> maintenance_summary" where
  "countReconciled b s = (if b then s\<lparr>ms_reconciled := Suc (ms_reconciled s)\<rparr> else s)"

definition countPruned :: "bool \<Rightarrow> maintenance_summary \<Rightarrow> maintenance_summary" where
  "countPruned b s = (if b then s\<lparr>ms_pruned := Suc (ms_pruned s)\<rparr> else s)"

fun previewLoop ::
  "(string \<Rightarrow> task_record list) \<Rightarrow> int \<Rightarrow> task_flow list \<Rightarrow> maintenance_summary \<Rightarrow> maintenance_summary" where
  "previewLoop linked now [] s = s"
| "previewLoop linked now (f # fs) s =
     (if shouldRepairTerminalMirroredFlowTimestamp f then previewLoop linked now fs (countReconciled True s)
      else if shouldFinalizeCancelledFlow linked f then previewLoop linked now fs (countReconciled True s)
      else previewLoop linked now fs (countPruned (shouldPruneFlow linked now f) s))"

definition previewTaskFlowRegistryMaintenance ::
  "'st flow_store \<Rightarrow> (string \<Rightarrow> task_record list) \<Rightarrow> int \<Rightarrow> 'st flow_registry \<Rightarrow>
   maintenance_summary \<times> 'st flow_registry" where
  "previewTaskFlowRegistryMaintenance S linked now R =
     (let (fs, R) = listTaskFlowRecords S R
      in (previewLoop linked now fs \<lparr>ms_reconciled = 0, ms_pruned = 0\<rparr>, R))"

fun maintenanceLoop ::
  "'st flow_store \<Rightarrow> (string \<Rightarrow> task_record list) \<Rightarrow> int \<Rightarrow> task_flow list \<Rightarrow> maintenance_summary \<Rightarrow>
   'st flow_registry \<Rightarrow> (maintenance_summary, 'st) flow_result" where
  "maintenanceLoop S linked now [] s R = (Inr s, R)"
| "maintenanceLoop S linked now (flow # fs) s R =
     (case getTaskFlowById S (tf_flowId flow) R of
        (None, R) \<Rightarrow> maintenanceLoop S linked now fs s R
      | (Some current, R) \<Rightarrow>
          if shouldRepairTerminalMirroredFlowTimestamp current then
            (case repairTerminalMirroredFlowTimestamp S now current R of
               (Inl e, R) \<Rightarrow> (Inl e, R)
             | (Inr b, R) \<Rightarrow> maintenanceLoop S linked now fs (countReconciled b s) R)
          else if shouldFinalizeCancelledFlow linked current then
            (case finalizeCancelledFlow S linked now current R of
               (Inl e, R) \<Rightarrow> (Inl e, R)
             | (Inr b, R) \<Rightarrow> maintenanceLoop S linked now fs (countReconciled b s) R)
          else if shouldPruneFlow linked now current then
            (case deleteTaskFlowRecordById S (tf_flowId current) R of
               (Inl e, R) \<Rightarrow> (Inl e, R)
             | (Inr b, R) \<Rightarrow> maintenanceLoop S linked now fs (countPruned b s) R)
          else maintenanceLoop S linked now fs s R)"

definition runTaskFlowRegistryMaintenance ::
  "'st flow_store \<Rightarrow> (string \<Rightarrow> task_record list) \<Rightarrow> int \<Rightarrow> 'st flow_registry \<Rightarrow>
   (maintenance_summary, 'st) flow_result" where
  "runTaskFlowRegistryMaintenance S linked now R =
     (let (fs, R) = listTaskFlowRecords S R
      in maintenanceLoop S linked now fs \<lparr>ms_reconciled = 0, ms_pruned = 0\<rparr> R)"

section \<open>Audit\<close>

datatype audit_severity = AuditWarn | AuditError

datatype audit_code =
  AcRestoreFailed | AcStaleRunning | AcStaleWaiting | AcStaleBlocked | AcCancelStuck
| AcMissingLinkedTasks | AcBlockedTaskMissing | AcInconsistentTimestamps

record audit_finding =
  af_severity :: audit_severity
  af_code :: audit_code
  af_detail :: string
  af_ageMs :: "int option"
  af_flow :: "task_flow option"

record audit_summary =
  as_total :: nat
  as_warnings :: nat
  as_errors :: nat
  as_byCode :: "audit_code \<Rightarrow> nat"

record audit_options =
  ao_staleRunningMs :: int
  ao_staleWaitingMs :: int
  ao_staleBlockedMs :: int
  ao_cancelStuckMs :: int

definition defaultAuditOptions :: audit_options where
  "defaultAuditOptions = \<lparr>ao_staleRunningMs = 30 * 60000, ao_staleWaitingMs = 30 * 60000,
     ao_staleBlockedMs = 30 * 60000, ao_cancelStuckMs = 5 * 60000\<rparr>"

definition createFinding ::
  "audit_severity \<Rightarrow> audit_code \<Rightarrow> string \<Rightarrow> int option \<Rightarrow> task_flow option \<Rightarrow> audit_finding" where
  "createFinding severity code detail ageMs flow =
     \<lparr>af_severity = severity, af_code = code, af_detail = detail, af_ageMs = ageMs, af_flow = flow\<rparr>"

definition severityRank :: "audit_severity \<Rightarrow> int" where
  "severityRank s = (if s = AuditError then 0 else 1)"

definition compareFindings :: "audit_finding \<Rightarrow> audit_finding \<Rightarrow> int" where
  "compareFindings left right =
     (let severityDiff = severityRank (af_severity left) - severityRank (af_severity right);
          leftAge = orElse (af_ageMs left) (-1);
          rightAge = orElse (af_ageMs right) (-1)
      in if severityDiff \<noteq> 0 then severityDiff
         else if leftAge \<noteq> rightAge then rightAge - leftAge
         else (case af_flow left of None \<Rightarrow> 0 | Some f \<Rightarrow> tf_createdAt f) -
              (case af_flow right of None \<Rightarrow> 0 | Some f \<Rightarrow> tf_createdAt f))"

definition textPresent :: "string option \<Rightarrow> bool" where
  "textPresent v \<longleftrightarrow> (case v of None \<Rightarrow> False | Some s \<Rightarrow> js_trim s \<noteq> [])"

definition hasBlockingMetadata :: "task_flow \<Rightarrow> bool" where
  "hasBlockingMetadata f \<longleftrightarrow> textPresent (tf_blockedTaskId f) \<or> textPresent (tf_blockedSummary f) \<or>
     (tf_waitJson f \<noteq> None \<and> tf_waitJson f \<noteq> Some JNull)"

fun timestampDetail :: "nat \<Rightarrow> string" where
  "timestampDetail n = (if n = 0 then ''updatedAt is earlier than createdAt''
     else if n = 1 then ''endedAt is earlier than createdAt'' else ''endedAt is earlier than updatedAt'')"

declare timestampDetail.simps [simp del]

text \<open>\<open>flow.endedAt && flow.endedAt < t\<close>: a zero timestamp counts as absent.\<close>

definition endedBefore :: "task_flow \<Rightarrow> int \<Rightarrow> bool" where
  "endedBefore f t \<longleftrightarrow> (case tf_endedAt f of None \<Rightarrow> False | Some e \<Rightarrow> e \<noteq> 0 \<and> e < t)"

definition findTimestampInconsistency :: "task_flow \<Rightarrow> audit_finding option" where
  "findTimestampInconsistency f =
     (if tf_updatedAt f < tf_createdAt f then
        Some (createFinding AuditWarn AcInconsistentTimestamps (timestampDetail 0) None (Some f))
      else if endedBefore f (tf_createdAt f) then
        Some (createFinding AuditWarn AcInconsistentTimestamps (timestampDetail 1) None (Some f))
      else if endedBefore f (tf_updatedAt f) then
        Some (createFinding AuditWarn AcInconsistentTimestamps (timestampDetail 2) None (Some f))
      else None)"

fun auditDetail :: "audit_code \<Rightarrow> string" where
  "auditDetail AcRestoreFailed = ''task-flow registry restore failed: ''"
| "auditDetail AcStaleRunning = ''running TaskFlow has not advanced recently''"
| "auditDetail AcStaleWaiting = ''waiting TaskFlow has not advanced recently''"
| "auditDetail AcStaleBlocked = ''blocked TaskFlow has not advanced recently''"
| "auditDetail AcCancelStuck =
     ''cancel-requested TaskFlow has no active child tasks but is still nonterminal''"
| "auditDetail AcMissingLinkedTasks = ''managed TaskFlow has no linked tasks or wait state''"
| "auditDetail AcBlockedTaskMissing = ''blocked TaskFlow points at missing task ''"
| "auditDetail AcInconsistentTimestamps = []"

declare auditDetail.simps [simp del]

text \<open>The findings about one flow, in the order the loop pushes them.\<close>

definition auditStale :: "audit_options \<Rightarrow> int \<Rightarrow> task_flow \<Rightarrow> audit_finding list" where
  "auditStale opts ageMs f =
     (if tf_status f = FsRunning \<and> ageMs \<ge> ao_staleRunningMs opts
      then [createFinding AuditError AcStaleRunning (auditDetail AcStaleRunning) (Some ageMs) (Some f)] else []) @
     (if tf_status f = FsWaiting \<and> ageMs \<ge> ao_staleWaitingMs opts
      then [createFinding AuditWarn AcStaleWaiting (auditDetail AcStaleWaiting) (Some ageMs) (Some f)] else []) @
     (if tf_status f = FsBlocked \<and> ageMs \<ge> ao_staleBlockedMs opts
      then [createFinding AuditWarn AcStaleBlocked (auditDetail AcStaleBlocked) (Some ageMs) (Some f)] else [])"

definition auditCancelStuck ::
  "audit_options \<Rightarrow> int \<Rightarrow> task_record list \<Rightarrow> task_flow \<Rightarrow> audit_finding list" where
  "auditCancelStuck opts now tasks f =
     (case tf_cancelRequestedAt f of
        None \<Rightarrow> []
      | Some at_ms \<Rightarrow>
          if tf_status f \<noteq> FsCancelled \<and> tf_status f \<noteq> FsFailed \<and> tf_status f \<noteq> FsSucceeded \<and>
             tf_status f \<noteq> FsLost \<and> filter activeTask tasks = [] \<and> now - at_ms \<ge> ao_cancelStuckMs opts
          then [createFinding AuditWarn AcCancelStuck (auditDetail AcCancelStuck)
                  (Some (max 0 (now - at_ms))) (Some f)]
          else [])"

definition auditMissingTasks ::
  "audit_options \<Rightarrow> int \<Rightarrow> task_record list \<Rightarrow> task_flow \<Rightarrow> audit_finding list" where
  "auditMissingTasks opts ageMs tasks f =
     (if tf_syncMode f = Managed \<and>
         (tf_status f = FsRunning \<or> tf_status f = FsWaiting \<or> tf_status f = FsBlocked) \<and>
         ageMs \<ge> (if tf_status f = FsRunning then ao_staleRunningMs opts
                   else if tf_status f = FsWaiting then ao_staleWaitingMs opts
                   else ao_staleBlockedMs opts) \<and>
         tasks = [] \<and> \<not> hasBlockingMetadata f
      then [createFinding (if tf_status f = FsRunning then AuditError else AuditWarn) AcMissingLinkedTasks
              (auditDetail AcMissingLinkedTasks) (Some ageMs) (Some f)]
      else [])"

definition auditBlockedTask :: "int \<Rightarrow> task_record list \<Rightarrow> task_flow \<Rightarrow> audit_finding list" where
  "auditBlockedTask ageMs tasks f =
     (if textPresent (tf_blockedTaskId f) then
        (let blockedTaskId = js_trim (orElse (tf_blockedTaskId f) [])
         in if \<not> list_ex (\<lambda>t. tr_taskId t = blockedTaskId) tasks
            then [createFinding AuditWarn AcBlockedTaskMissing
                    (auditDetail AcBlockedTaskMissing @ blockedTaskId) (Some ageMs) (Some f)]
            else [])
      else [])"

definition auditFlow ::
  "audit_options \<Rightarrow> (string \<Rightarrow> task_record list) \<Rightarrow> int \<Rightarrow> task_flow \<Rightarrow> audit_finding list" where
  "auditFlow opts linked now f =
     (let ageMs = max 0 (now - tf_updatedAt f); tasks = linked (tf_flowId f)
      in auditStale opts ageMs f @ auditCancelStuck opts now tasks f @
         auditMissingTasks opts ageMs tasks f @ auditBlockedTask ageMs tasks f @
         (case findTimestampInconsistency f of None \<Rightarrow> [] | Some x \<Rightarrow> [x]))"

definition listTaskFlowAuditFindings ::
  "'st flow_store \<Rightarrow> audit_options \<Rightarrow> (string \<Rightarrow> task_record list) \<Rightarrow> int \<Rightarrow> 'st flow_registry \<Rightarrow>
   audit_finding list \<times> 'st flow_registry" where
  "listTaskFlowAuditFindings S opts linked now R =
     (let (flows, R) = listTaskFlowRecords S R;
          (restoreFailure, R) = getTaskFlowRegistryRestoreFailure S R;
          first = (case restoreFailure of
                     None \<Rightarrow> []
                   | Some e \<Rightarrow> if e = [] then [] else
                       [createFinding AuditError AcRestoreFailed (auditDetail AcRestoreFailed @ e) None None])
      in (js_toSorted compareFindings (first @ concat (map (auditFlow opts linked now) flows)), R))"

definition createEmptyTaskFlowAuditSummary :: audit_summary where
  "createEmptyTaskFlowAuditSummary = \<lparr>as_total = 0, as_warnings = 0, as_errors = 0, as_byCode = (\<lambda>_. 0)\<rparr>"

definition addFinding :: "audit_summary \<Rightarrow> audit_finding \<Rightarrow> audit_summary" where
  "addFinding s f =
     (let s = s\<lparr>as_total := Suc (as_total s),
                as_byCode := (as_byCode s)(af_code f := Suc (as_byCode s (af_code f)))\<rparr>
      in if af_severity f = AuditError then s\<lparr>as_errors := Suc (as_errors s)\<rparr>
         else s\<lparr>as_warnings := Suc (as_warnings s)\<rparr>)"

definition summarizeTaskFlowAuditFindings :: "audit_finding list \<Rightarrow> audit_summary" where
  "summarizeTaskFlowAuditFindings findings = foldl addFinding createEmptyTaskFlowAuditSummary findings"

section \<open>What one flow becomes\<close>

text \<open>The specification of a run: what it makes of a flow.\<close>

definition maintained :: "(string \<Rightarrow> task_record list) \<Rightarrow> int \<Rightarrow> task_flow \<Rightarrow> task_flow option" where
  "maintained linked now f =
     (if shouldRepairTerminalMirroredFlowTimestamp f then
        Some (f\<lparr>tf_updatedAt := the (tf_endedAt f), tf_revision := tf_revision f + 1\<rparr>)
      else if shouldFinalizeCancelledFlow linked f then
        (let e = max now (max (tf_updatedAt f) (orElse (tf_cancelRequestedAt f) now))
         in Some (f\<lparr>tf_status := FsCancelled, tf_blockedTaskId := None, tf_blockedSummary := None,
                   tf_waitJson := Some JNull, tf_endedAt := Some e, tf_updatedAt := e,
                   tf_revision := tf_revision f + 1\<rparr>))
      else if shouldPruneFlow linked now f then None
      else Some f)"

definition maintainedSummary :: "(string \<Rightarrow> task_record list) \<Rightarrow> int \<Rightarrow> task_flow \<Rightarrow> maintenance_summary \<Rightarrow> maintenance_summary" where
  "maintainedSummary linked now f s =
     (if shouldRepairTerminalMirroredFlowTimestamp f \<or> shouldFinalizeCancelledFlow linked f
      then countReconciled True s else countPruned (shouldPruneFlow linked now f) s)"

lemma emptyPatch_apply:
  "flow_ok k f \<Longrightarrow> applyFlowPatch clock f (emptyPatch\<lparr>fp_updatedAt := Some e\<rparr>) =
     Inr (f\<lparr>tf_updatedAt := e, tf_revision := tf_revision f + 1\<rparr>)"
  by (auto simp: applyFlowPatch_def emptyPatch_def orElse_def assertControllerId_def flow_ok_def
      Let_def split: option.split)

lemma cancelPatch_apply:
  "flow_ok k f \<Longrightarrow>
   applyFlowPatch clock f (emptyPatch\<lparr>fp_status := Some FsCancelled, fp_blockedTaskId := Null,
      fp_blockedSummary := Null, fp_waitJson := Some JNull, fp_endedAt := Val e, fp_updatedAt := Some e\<rparr>) =
   Inr (f\<lparr>tf_status := FsCancelled, tf_blockedTaskId := None, tf_blockedSummary := None,
          tf_waitJson := Some JNull, tf_endedAt := Some e, tf_updatedAt := e,
          tf_revision := tf_revision f + 1\<rparr>)"
  by (auto simp: applyFlowPatch_def emptyPatch_def orElse_def assertControllerId_def flow_ok_def
      Let_def split: option.split)

text \<open>A guarded update with the revision just read either applies or the store throws.\<close>

lemma fresh_update:
  assumes "fr_restoreAttempted R" and "jm_get (fr_flows R) k = Some f" and "tf_flowId f = k"
    and "applyFlowPatch clock f patch = Inr g" and "tf_flowId g = k"
    and "updateFlowRecordByIdExpectedRevision S clock k (tf_revision f) patch R = (res, R')"
  shows "(res = Inr (Applied g) \<or> (\<exists>e. res = Inl (StoreThrew e))) \<and>
     jm_get (fr_flows R') = (jm_get (fr_flows R))(k \<mapsto> g) \<and> fr_restoreAttempted R'"
proof -
  obtain r R'' where w: "writeFlowRecord S g (Some f) R = (r, R'')" by fastforce
  have R'': "R' = R''" "res = map_sum id Applied r"
    using assms w by (auto simp: updateFlowRecordByIdExpectedRevision_def patchAndWrite_def Let_def)
  have "r = Inr g \<or> (\<exists>e. r = Inl (StoreThrew e))"
    using w by (auto simp: writeFlowRecord_def Let_def split: prod.splits option.splits)
  then show ?thesis
    using R'' writeFlowRecord_memory [of S g "Some f" R] w assms by (auto simp: update_conv' fun_eq_iff)
qed

text \<open>One turn of the loop on a flow that the registry still holds as listed.\<close>

definition maintainOne ::
  "'st flow_store \<Rightarrow> (string \<Rightarrow> task_record list) \<Rightarrow> int \<Rightarrow> task_flow \<Rightarrow> maintenance_summary \<Rightarrow>
   'st flow_registry \<Rightarrow> (maintenance_summary, 'st) flow_result" where
  "maintainOne S linked now f s R = maintenanceLoop S linked now [f] s R"

lemma maintenanceLoop_Cons:
  "maintenanceLoop S linked now (f # fs) s R =
   (case maintainOne S linked now f s R of
      (Inl e, R) \<Rightarrow> (Inl e, R) | (Inr s, R) \<Rightarrow> maintenanceLoop S linked now fs s R)"
  by (simp add: maintainOne_def getTaskFlowById_def Let_def split: option.split prod.split sum.split)

lemma repair_turn:
  assumes "restored_ok_registry R" "jm_get (fr_flows R) (tf_flowId f) = Some f"
    and "shouldRepairTerminalMirroredFlowTimestamp f"
    and "repairTerminalMirroredFlowTimestamp S now f R = (res, R')"
  shows "(res = Inr True \<or> (\<exists>e. res = Inl (StoreThrew e))) \<and> fr_restoreAttempted R' \<and>
    jm_get (fr_flows R') = (jm_get (fr_flows R))(tf_flowId f := maintained linked now f)"
proof -
  have ok: "flow_ok (tf_flowId f) f"
    using assms(1,2) flow_map_ok_get by (auto simp: restored_ok_registry_def registry_ok_def)
  obtain e where e: "tf_endedAt f = Some e"
    using assms(3) by (auto simp: shouldRepairTerminalMirroredFlowTimestamp_def split: if_splits option.splits)
  obtain r R'' where u: "updateFlowRecordByIdExpectedRevision S now (tf_flowId f) (tf_revision f)
      (emptyPatch\<lparr>fp_updatedAt := Some e\<rparr>) R = (r, R'')" by fastforce
  have att: "fr_restoreAttempted R" using assms(1) by (simp add: restored_ok_registry_def)
  from fresh_update [OF att assms(2) refl emptyPatch_apply [OF ok] _ u]
  show ?thesis
    using assms(3,4) u e
    by (auto simp: repairTerminalMirroredFlowTimestamp_def maintained_def numeral_2_eq_2
        split: prod.splits sum.splits flow_update.splits)
qed

lemma finalize_turn:
  assumes "restored_ok_registry R" "jm_get (fr_flows R) (tf_flowId f) = Some f"
    and "shouldFinalizeCancelledFlow linked f"
    and "finalizeCancelledFlow S linked now f R = (res, R')"
  shows "(res = Inr True \<or> (\<exists>e. res = Inl (StoreThrew e))) \<and> fr_restoreAttempted R' \<and>
    jm_get (fr_flows R') = (jm_get (fr_flows R))(tf_flowId f := maintained linked now f)"
proof -
  have ok: "flow_ok (tf_flowId f) f"
    using assms(1,2) flow_map_ok_get by (auto simp: restored_ok_registry_def registry_ok_def)
  let ?e = "max now (max (tf_updatedAt f) (orElse (tf_cancelRequestedAt f) now))"
  obtain r R'' where u: "updateFlowRecordByIdExpectedRevision S now (tf_flowId f) (tf_revision f)
      (emptyPatch\<lparr>fp_status := Some FsCancelled, fp_blockedTaskId := Null,
         fp_blockedSummary := Null, fp_waitJson := Some JNull, fp_endedAt := Val ?e,
         fp_updatedAt := Some ?e\<rparr>) R = (r, R'')" by fastforce
  have att: "fr_restoreAttempted R" using assms(1) by (simp add: restored_ok_registry_def)
  have "\<not> shouldRepairTerminalMirroredFlowTimestamp f"
    using assms(3) by (auto simp: shouldFinalizeCancelledFlow_def shouldRepairTerminalMirroredFlowTimestamp_def
        split: if_splits)
  then show ?thesis
    using fresh_update [OF att assms(2) refl cancelPatch_apply [OF ok] _ u] assms(3,4) u
    by (auto simp: finalizeCancelledFlow_def maintained_def numeral_2_eq_2 Let_def
        split: prod.splits sum.splits flow_update.splits)
qed

lemma prune_turn:
  assumes "restored_ok_registry R" "jm_get (fr_flows R) (tf_flowId f) = Some f"
    and "\<not> shouldRepairTerminalMirroredFlowTimestamp f" "\<not> shouldFinalizeCancelledFlow linked f"
    and "shouldPruneFlow linked now f"
    and "deleteTaskFlowRecordById S (tf_flowId f) R = (res, R')"
  shows "(res = Inr True \<or> (\<exists>e. res = Inl (StoreThrew e))) \<and> fr_restoreAttempted R' \<and>
    jm_get (fr_flows R') = (jm_get (fr_flows R))(tf_flowId f := maintained linked now f)"
  using assms
  by (auto simp: deleteTaskFlowRecordById_def dropFlowRecord_def maintained_def emitFlowEvent_def
      restored_ok_registry_def delete_conv' fun_eq_iff Let_def split: prod.splits option.splits
      dest!: persist_delete_memory)

lemma maintainOne_turn:
  assumes "restored_ok_registry R" "jm_get (fr_flows R) (tf_flowId f) = Some f"
    and "maintainOne S linked now f s R = (res, R')"
  shows "(res = Inr (maintainedSummary linked now f s) \<or> (\<exists>e. res = Inl (StoreThrew e))) \<and>
    fr_restoreAttempted R' \<and>
    jm_get (fr_flows R') = (jm_get (fr_flows R))(tf_flowId f := maintained linked now f)"
proof -
  have get: "getTaskFlowById S (tf_flowId f) R = (Some f, R)"
    using assms(1,2) by (simp add: getTaskFlowById_def restored_ok_registry_def)
  consider "shouldRepairTerminalMirroredFlowTimestamp f"
    | "\<not> shouldRepairTerminalMirroredFlowTimestamp f" "shouldFinalizeCancelledFlow linked f"
    | "\<not> shouldRepairTerminalMirroredFlowTimestamp f" "\<not> shouldFinalizeCancelledFlow linked f"
      "shouldPruneFlow linked now f"
    | "\<not> shouldRepairTerminalMirroredFlowTimestamp f" "\<not> shouldFinalizeCancelledFlow linked f"
      "\<not> shouldPruneFlow linked now f"
    by blast
  then show ?thesis
  proof cases
    case 1
    obtain r R'' where t: "repairTerminalMirroredFlowTimestamp S now f R = (r, R'')" by fastforce
    from repair_turn [OF assms(1,2) 1 t, of linked] assms(3) 1 t get show ?thesis
      by (auto simp: maintainOne_def maintainedSummary_def)
  next
    case 2
    obtain r R'' where t: "finalizeCancelledFlow S linked now f R = (r, R'')" by fastforce
    from finalize_turn [OF assms(1,2) 2(2) t] assms(3) 2 t get show ?thesis
      by (auto simp: maintainOne_def maintainedSummary_def)
  next
    case 3
    obtain r R'' where t: "deleteTaskFlowRecordById S (tf_flowId f) R = (r, R'')" by fastforce
    from prune_turn [OF assms(1,2) 3 t] assms(3) 3 t get show ?thesis
      by (auto simp: maintainOne_def maintainedSummary_def)
  next
    case 4
    with assms get show ?thesis
      by (auto simp: maintainOne_def maintainedSummary_def maintained_def countPruned_def
          restored_ok_registry_def)
  qed
qed

lemma movesBy_ok:
  "movesBy S u R R' \<Longrightarrow> restored_ok_registry R \<Longrightarrow> restored_ok_registry R'"
  using flowMove_effect effect_ok
  by (fastforce simp: movesBy_def restored_ok_registry_def registry_ok_def)

lemma guarded_ok:
  "updateFlowRecordByIdExpectedRevision S clock i r patch R = (res, R') \<Longrightarrow>
   restored_ok_registry R \<Longrightarrow> restored_ok_registry R'"
  by (metis movesBy_ok snd_conv update_guarded_move)

lemma delete_ok:
  "deleteTaskFlowRecordById S i R = (res, R') \<Longrightarrow> restored_ok_registry R \<Longrightarrow> restored_ok_registry R'"
  by (metis delete_move movesBy_ok snd_conv)

lemma finalizeAttempts_ok:
  "finalizeAttempts S linked now n f R = (res, R') \<Longrightarrow> restored_ok_registry R \<Longrightarrow> restored_ok_registry R'"
  by (induction n arbitrary: f R res R')
    (auto simp: Let_def split: prod.splits sum.splits flow_update.splits if_splits dest: guarded_ok)

lemma repairAttempts_ok:
  "repairAttempts S now n f R = (res, R') \<Longrightarrow> restored_ok_registry R \<Longrightarrow> restored_ok_registry R'"
  by (induction n arbitrary: f R res R')
    (auto split: prod.splits sum.splits flow_update.splits if_splits dest: guarded_ok)

lemma maintainOne_ok:
  "maintainOne S linked now f s R = (res, R') \<Longrightarrow> restored_ok_registry R \<Longrightarrow> restored_ok_registry R'"
  by (auto simp: maintainOne_def getTaskFlowById_def repairTerminalMirroredFlowTimestamp_def
      finalizeCancelledFlow_def restored_ok_registry_def [THEN iffD1, THEN conjunct1]
      split: option.splits prod.splits sum.splits if_splits
      dest: finalizeAttempts_ok repairAttempts_ok delete_ok)

lemma previewLoop_foldl:
  "previewLoop linked now fs s = foldl (\<lambda>s f. maintainedSummary linked now f s) s fs"
  by (induction fs arbitrary: s) (auto simp: maintainedSummary_def)

lemma maintenanceLoop_run:
  assumes "restored_ok_registry R" "distinct (map tf_flowId fs)"
    and "\<forall>f \<in> set fs. jm_get (fr_flows R) (tf_flowId f) = Some f"
    and "maintenanceLoop S linked now fs s R = (res, R')"
  shows "(\<exists>e. res = Inl (StoreThrew e)) \<or>
    res = Inr (previewLoop linked now fs s) \<and>
    (\<forall>i. jm_get (fr_flows R') i = (case find (\<lambda>f. tf_flowId f = i) fs of
       None \<Rightarrow> jm_get (fr_flows R) i | Some f \<Rightarrow> maintained linked now f))"
  using assms
proof (induction fs arbitrary: s R)
  case Nil
  then show ?case by simp
next
  case (Cons f fs)
  obtain r R1 where one: "maintainOne S linked now f s R = (r, R1)" by fastforce
  have get: "jm_get (fr_flows R) (tf_flowId f) = Some f" using Cons.prems by simp
  note turn = maintainOne_turn [OF Cons.prems(1) get one]
  have rest: "find (\<lambda>g. tf_flowId g = tf_flowId f) fs = None"
    using Cons.prems(2) unfolding find_None_iff
    by (metis distinct.simps(2) image_eqI list.simps(9) set_map)
  show ?case
  proof (cases r)
    case (Inl e)
    with turn Cons.prems(4) one show ?thesis by (auto simp: maintenanceLoop_Cons simp del: maintenanceLoop.simps)
  next
    case (Inr s1)
    have upd: "jm_get (fr_flows R1) = (jm_get (fr_flows R))(tf_flowId f := maintained linked now f)"
      using turn by blast
    have "jm_get (fr_flows R1) (tf_flowId g) = Some g" if g: "g \<in> set fs" for g
    proof -
      have "tf_flowId g \<noteq> tf_flowId f"
        using Cons.prems(2) g by (metis distinct.simps(2) image_eqI list.simps(9) set_map)
      moreover have "jm_get (fr_flows R) (tf_flowId g) = Some g" using Cons.prems(3) g by simp
      ultimately show ?thesis by (simp only: upd fun_upd_apply if_False)
    qed
    then have "\<forall>g \<in> set fs. jm_get (fr_flows R1) (tf_flowId g) = Some g" by blast
    moreover have "maintenanceLoop S linked now fs s1 R1 = (res, R')"
      using Cons.prems(4) one Inr by (simp add: maintenanceLoop_Cons del: maintenanceLoop.simps)
    ultimately have "(\<exists>e. res = Inl (StoreThrew e)) \<or>
        res = Inr (previewLoop linked now fs s1) \<and>
        (\<forall>i. jm_get (fr_flows R') i = (case find (\<lambda>f. tf_flowId f = i) fs of
           None \<Rightarrow> jm_get (fr_flows R1) i | Some f \<Rightarrow> maintained linked now f))"
      using Cons.IH [OF maintainOne_ok [OF one Cons.prems(1)]] Cons.prems(2) by simp
    moreover have "s1 = maintainedSummary linked now f s" using turn Inr by simp
    moreover have "(case find (\<lambda>f. tf_flowId f = i) fs of
        None \<Rightarrow> jm_get (fr_flows R1) i | Some f \<Rightarrow> maintained linked now f) =
      (case find (\<lambda>f. tf_flowId f = i) (f # fs) of
        None \<Rightarrow> jm_get (fr_flows R) i | Some f \<Rightarrow> maintained linked now f)" for i
      using rest by (cases "tf_flowId f = i") (auto simp: upd split: option.split)
    ultimately show ?thesis by (simp add: previewLoop_foldl)
  qed
qed

lemma maintenanceLoop_ok:
  "maintenanceLoop S linked now fs s R = (res, R') \<Longrightarrow> restored_ok_registry R \<Longrightarrow> restored_ok_registry R'"
proof (induction fs arbitrary: s R)
  case (Cons f fs)
  then show ?case
    using maintainOne_ok by (fastforce simp: maintenanceLoop_Cons simp del: maintenanceLoop.simps(2)
        split: prod.splits sum.splits)
qed simp


lemma maintenance_outcome:
  assumes "fr_restoreAttempted R" and "registry_ok R"
    and "runTaskFlowRegistryMaintenance S linked now R = (res, R')"
  shows "(\<exists>e. res = Inl (StoreThrew e)) \<or>
    res = Inr (fst (previewTaskFlowRegistryMaintenance S linked now R)) \<and>
    (\<forall>i. jm_get (fr_flows R') i = Option.bind (jm_get (fr_flows R) i) (maintained linked now))"
proof -
  let ?fs = "js_toSorted newestFirst (map snd (fr_flows R))"
  have R: "restored_ok_registry R" using assms by (simp add: restored_ok_registry_def)
  have ids: "map tf_flowId (map snd (fr_flows R)) = map fst (fr_flows R)"
    using assms(2) by (auto simp: registry_ok_def flow_map_ok_def flow_ok_def)
  then have "mset (map tf_flowId ?fs) = mset (map fst (fr_flows R))"
    by (metis mset_js_toSorted mset_map)
  then have dist: "distinct (map tf_flowId ?fs)"
    using assms(2) by (metis flow_map_ok_def mset_eq_imp_distinct_iff registry_ok_def)
  have mem: "f \<in> set ?fs \<longleftrightarrow> jm_get (fr_flows R) (tf_flowId f) = Some f" for f
    using assms(2) by (auto simp: registry_ok_def flow_map_ok_def flow_ok_def intro: rev_image_eqI)
  have found: "find (\<lambda>f. tf_flowId f = i) ?fs = jm_get (fr_flows R) i" for i
  proof -
    have "find (\<lambda>f. tf_flowId f = i) ?fs = Some f \<longleftrightarrow> jm_get (fr_flows R) i = Some f" for f
      unfolding find_key [OF dist] mem
      using assms(2) flow_map_ok_get by (auto simp: registry_ok_def flow_ok_def)
    then show ?thesis by (metis option.exhaust)
  qed
  have "maintenanceLoop S linked now ?fs \<lparr>ms_reconciled = 0, ms_pruned = 0\<rparr> R = (res, R')"
    using assms by (simp add: runTaskFlowRegistryMaintenance_def listTaskFlowRecords_def)
  from maintenanceLoop_run [OF R dist _ this] mem
  have "(\<exists>e. res = Inl (StoreThrew e)) \<or>
      res = Inr (previewLoop linked now ?fs \<lparr>ms_reconciled = 0, ms_pruned = 0\<rparr>) \<and>
      (\<forall>i. jm_get (fr_flows R') i = (case jm_get (fr_flows R) i of
         None \<Rightarrow> jm_get (fr_flows R) i | Some f \<Rightarrow> maintained linked now f))"
    unfolding found by blast
  moreover have "(case x of None \<Rightarrow> x | Some f \<Rightarrow> maintained linked now f) = Option.bind x (maintained linked now)"
    for x by (cases x) auto
  ultimately show ?thesis
    using assms(1) by (simp add: previewTaskFlowRegistryMaintenance_def listTaskFlowRecords_def)
qed

section \<open>Properties\<close>

text \<open>C26. Maintenance does what its preview announces: a run over a restored registry either stops
  with an error of the store or reports exactly the counts the preview reports, and then every flow is
  what the specification makes of it: a mirrored flow updated after its end is put back to its end, a
  managed flow with a pending cancellation and no active task is cancelled, an old terminal flow
  without active tasks is gone, every other flow is untouched.\<close>

theorem maintenance_matches_preview:
  assumes "fr_restoreAttempted R" and "registry_ok R"
    and "runTaskFlowRegistryMaintenance S linked now R = (res, R')"
  shows "(\<exists>e. res = Inl (StoreThrew e)) \<or>
    res = Inr (fst (previewTaskFlowRegistryMaintenance S linked now R)) \<and>
    (\<forall>i. jm_get (fr_flows R') i = Option.bind (jm_get (fr_flows R) i) (maintained linked now))"
  using assms by (rule maintenance_outcome)

theorem maintenance_matches_preview_witness:
  "\<exists>R'. runTaskFlowRegistryMaintenance memoryFlowStore (\<lambda>_. []) 604800005
     (ensureFlowRegistryReady memoryFlowStore
       (initFlowRegistry [(''a'', (sampleFlow ''a'' Managed)\<lparr>tf_status := FsLost\<rparr>)]))
   = (Inr \<lparr>ms_reconciled = 0, ms_pruned = 1\<rparr>, R') \<and> jm_get (fr_flows R') ''a'' = None"
proof -
  let ?R = "ensureFlowRegistryReady memoryFlowStore
       (initFlowRegistry [(''a'', (sampleFlow ''a'' Managed)\<lparr>tf_status := FsLost\<rparr>)])"
  have ok: "registry_ok ?R" by (simp add: flow_eval registry_ok_def flow_map_ok_def flow_ok_def)
  have pre: "fst (previewTaskFlowRegistryMaintenance memoryFlowStore (\<lambda>_. []) 604800005 ?R) =
      \<lparr>ms_reconciled = 0, ms_pruned = 1\<rparr>"
    by (simp add: flow_eval previewTaskFlowRegistryMaintenance_def listTaskFlowRecords_def
        shouldRepairTerminalMirroredFlowTimestamp_def shouldFinalizeCancelledFlow_def shouldPruneFlow_def
        isTerminalFlow_def hasActiveLinkedTasks_def resolveTerminalAt_def TASK_FLOW_RETENTION_MS_def
        countPruned_def)
  have gone: "Option.bind (jm_get (fr_flows ?R) ''a'') (maintained (\<lambda>_. []) 604800005) = None"
    by (simp add: flow_eval maintained_def shouldRepairTerminalMirroredFlowTimestamp_def
        shouldFinalizeCancelledFlow_def shouldPruneFlow_def isTerminalFlow_def hasActiveLinkedTasks_def
        resolveTerminalAt_def TASK_FLOW_RETENTION_MS_def)
  have total: "\<exists>R'. runTaskFlowRegistryMaintenance memoryFlowStore (\<lambda>_. []) 604800005 ?R = (Inr s, R')"
    if "s = \<lparr>ms_reconciled = 0, ms_pruned = 1\<rparr>" for s
    using that
    by (simp add: flow_eval runTaskFlowRegistryMaintenance_def listTaskFlowRecords_def getTaskFlowById_def
        shouldRepairTerminalMirroredFlowTimestamp_def shouldFinalizeCancelledFlow_def shouldPruneFlow_def
        isTerminalFlow_def hasActiveLinkedTasks_def resolveTerminalAt_def TASK_FLOW_RETENTION_MS_def
        countPruned_def deleteTaskFlowRecordById_def dropFlowRecord_def persistFlowDelete_def)
  then obtain R' where "runTaskFlowRegistryMaintenance memoryFlowStore (\<lambda>_. []) 604800005 ?R =
      (Inr \<lparr>ms_reconciled = 0, ms_pruned = 1\<rparr>, R')" by blast
  from maintenance_matches_preview [OF ensure_ready_attempted ok this] this show ?thesis
    using gone by auto
qed

interpretation findings: comparator compareFindings
  by unfold_locales (auto simp: compareFindings_def severityRank_def Let_def split: if_splits)

lemma summarize_foldl:
  "as_total (foldl addFinding s fs) = as_total s + length fs"
  "as_errors (foldl addFinding s fs) = as_errors s + length (filter (\<lambda>f. af_severity f = AuditError) fs)"
  "as_warnings (foldl addFinding s fs) = as_warnings s + length (filter (\<lambda>f. af_severity f \<noteq> AuditError) fs)"
  "as_byCode (foldl addFinding s fs) c = as_byCode s c + length (filter (\<lambda>f. af_code f = c) fs)"
  by (induction fs arbitrary: s) (auto simp: addFinding_def Let_def)

lemma compare_errors_first:
  "compareFindings l r \<le> 0 \<Longrightarrow> af_severity r = AuditError \<Longrightarrow> af_severity l = AuditError"
  by (auto simp: compareFindings_def severityRank_def Let_def split: if_splits)

lemma compare_older_first:
  "compareFindings l r \<le> 0 \<Longrightarrow> af_severity l = af_severity r \<Longrightarrow>
   orElse (af_ageMs r) (-1) \<le> orElse (af_ageMs l) (-1)"
  by (auto simp: compareFindings_def Let_def split: if_splits)

lemma audit_ready:
  "fr_restoreAttempted R \<Longrightarrow> mset (fst (listTaskFlowAuditFindings S opts linked now R)) =
     mset ((case fr_restoreFailure R of
              None \<Rightarrow> []
            | Some e \<Rightarrow> if e = [] then [] else
                [createFinding AuditError AcRestoreFailed (auditDetail AcRestoreFailed @ e) None None]) @
       concat (map (auditFlow opts linked now) (js_toSorted newestFirst (map snd (fr_flows R)))))"
  by (simp add: listTaskFlowAuditFindings_def listTaskFlowRecords_def getTaskFlowRegistryRestoreFailure_def)

text \<open>The audit lists exactly the findings of the restore and of each flow, errors before warnings
  and older findings first among equals, and its summary adds up: the total is the number of findings,
  split into errors and warnings, and per code the number of findings with that code.\<close>

theorem audit_ordered_and_summarised:
  assumes "fr_restoreAttempted R"
    and "fs = fst (listTaskFlowAuditFindings S opts linked now R)"
    and "s = summarizeTaskFlowAuditFindings fs"
  shows "set fs = (case fr_restoreFailure R of
            None \<Rightarrow> {}
          | Some e \<Rightarrow> if e = [] then {} else
              {createFinding AuditError AcRestoreFailed (auditDetail AcRestoreFailed @ e) None None}) \<union>
          (\<Union>f \<in> snd ` set (fr_flows R). set (auditFlow opts linked now f)) \<and>
    sorted_wrt (\<lambda>l r. (af_severity r = AuditError \<longrightarrow> af_severity l = AuditError) \<and>
      (af_severity l = af_severity r \<longrightarrow> orElse (af_ageMs r) (-1) \<le> orElse (af_ageMs l) (-1))) fs \<and>
    as_total s = length fs \<and> as_errors s + as_warnings s = as_total s \<and>
    (\<forall>c. as_byCode s c = length (filter (\<lambda>f. af_code f = c) fs))"
proof (intro conjI allI)
  have "set fs = set_mset (mset fs)" by simp
  also have "\<dots> = (case fr_restoreFailure R of
            None \<Rightarrow> {}
          | Some e \<Rightarrow> if e = [] then {} else
              {createFinding AuditError AcRestoreFailed (auditDetail AcRestoreFailed @ e) None None}) \<union>
          (\<Union>f \<in> snd ` set (fr_flows R). set (auditFlow opts linked now f))"
    unfolding assms(2) audit_ready [OF assms(1)] by (auto split: option.split)
  finally show "set fs = (case fr_restoreFailure R of
            None \<Rightarrow> {}
          | Some e \<Rightarrow> if e = [] then {} else
              {createFinding AuditError AcRestoreFailed (auditDetail AcRestoreFailed @ e) None None}) \<union>
          (\<Union>f \<in> snd ` set (fr_flows R). set (auditFlow opts linked now f))" .
  obtain xs where "fs = js_toSorted compareFindings xs"
    using assms(2) by (auto simp: listTaskFlowAuditFindings_def split: prod.splits)
  then have "sorted_wrt (\<lambda>l r. compareFindings l r \<le> 0) fs" by (simp add: findings.sorted_toSorted)
  then show "sorted_wrt (\<lambda>l r. (af_severity r = AuditError \<longrightarrow> af_severity l = AuditError) \<and>
      (af_severity l = af_severity r \<longrightarrow> orElse (af_ageMs r) (-1) \<le> orElse (af_ageMs l) (-1))) fs"
    by (rule sorted_wrt_mono_rel [rotated]) (auto dest: compare_errors_first compare_older_first)
  show "as_total s = length fs" "as_byCode s c = length (filter (\<lambda>f. af_code f = c) fs)" for c
    unfolding assms(3) summarizeTaskFlowAuditFindings_def summarize_foldl
    by (simp_all add: createEmptyTaskFlowAuditSummary_def)
  show "as_errors s + as_warnings s = as_total s"
    unfolding assms(3) summarizeTaskFlowAuditFindings_def summarize_foldl
    using sum_length_filter_compl [of "\<lambda>f. af_severity f = AuditError" fs]
    by (simp add: createEmptyTaskFlowAuditSummary_def)
qed

theorem audit_ordered_and_summarised_witness:
  "as_total (summarizeTaskFlowAuditFindings (fst (listTaskFlowAuditFindings memoryFlowStore
     defaultAuditOptions (\<lambda>_. []) 9000000 (ensureFlowRegistryReady memoryFlowStore
       (initFlowRegistry [(''a'', sampleFlow ''a'' Managed)]))))) =
   length (fst (listTaskFlowAuditFindings memoryFlowStore
     defaultAuditOptions (\<lambda>_. []) 9000000 (ensureFlowRegistryReady memoryFlowStore
       (initFlowRegistry [(''a'', sampleFlow ''a'' Managed)]))))"
  using audit_ordered_and_summarised [OF ensure_ready_attempted refl refl] by blast

lemma blocked_is_left:
  assumes "tf_syncMode f = Managed" "tf_status f = FsBlocked"
    and "now - resolveTerminalAt f < TASK_FLOW_RETENTION_MS"
  shows "maintained linked now f = Some f"
  using assms by (simp add: maintained_def shouldRepairTerminalMirroredFlowTimestamp_def
      shouldFinalizeCancelledFlow_def shouldPruneFlow_def isTerminalFlow_def)

lemma blocked_is_reported:
  assumes "tf_status f = FsBlocked" "tf_cancelRequestedAt f = Some c"
    and "\<not> hasActiveLinkedTasks linked (tf_flowId f)" "ao_cancelStuckMs opts \<le> now - c"
  shows "\<exists>x \<in> set (auditFlow opts linked now f). af_code x = AcCancelStuck"
proof -
  have "filter activeTask (linked (tf_flowId f)) = []"
    using assms(3) by (simp add: hasActiveLinkedTasks_def list_ex_iff filter_empty_conv)
  then show ?thesis
    using assms by (simp add: auditFlow_def auditCancelStuck_def createFinding_def Let_def)
qed

text \<open>A blocked flow whose cancellation was requested stays: the audit reports a managed blocked flow
  without active tasks as stuck once its cancellation is old enough, and maintenance, which counts
  blocked as terminal, never finalises it; it leaves the flow as it is until it is old enough to prune.\<close>

theorem blocked_cancel_never_finalised:
  assumes "fr_restoreAttempted R" and "registry_ok R" and "jm_get (fr_flows R) i = Some f"
    and "tf_syncMode f = Managed" and "tf_status f = FsBlocked" and "tf_cancelRequestedAt f = Some c"
    and "\<not> hasActiveLinkedTasks linked i" and "5 * 60000 \<le> now - c"
    and "now - resolveTerminalAt f < TASK_FLOW_RETENTION_MS"
    and "runTaskFlowRegistryMaintenance S linked now R = (Inr s, R')"
  shows "jm_get (fr_flows R') i = Some f \<and>
    (\<exists>x \<in> set (fst (listTaskFlowAuditFindings S defaultAuditOptions linked now R')).
       af_code x = AcCancelStuck \<and> x \<in> set (auditFlow defaultAuditOptions linked now f))"
proof -
  have R: "restored_ok_registry R" using assms(1,2) by (simp add: restored_ok_registry_def)
  have R': "restored_ok_registry R'"
    using assms(1,10) maintenanceLoop_ok [OF _ R]
    by (auto simp: runTaskFlowRegistryMaintenance_def listTaskFlowRecords_def Let_def)
  have get: "jm_get (fr_flows R') i = Some f"
    using maintenance_outcome [OF assms(1,2,10)] assms(3) blocked_is_left [OF assms(4,5,9)] by simp
  have "tf_flowId f = i" using assms(2,3) flow_map_ok_get by (auto simp: registry_ok_def flow_ok_def)
  then obtain x where x: "x \<in> set (auditFlow defaultAuditOptions linked now f)" "af_code x = AcCancelStuck"
    using blocked_is_reported [OF assms(5,6), of linked defaultAuditOptions now] assms(7,8)
    by (auto simp: defaultAuditOptions_def)
  have "f \<in> snd ` set (fr_flows R')" using get map_of_SomeD by (metis image_eqI snd_conv)
  then have "x \<in># mset (fst (listTaskFlowAuditFindings S defaultAuditOptions linked now R'))"
    using R' x(1) by (subst audit_ready) (auto simp: restored_ok_registry_def)
  with get x show ?thesis by auto
qed

theorem blocked_cancel_never_finalised_witness:
  "\<exists>s R'. runTaskFlowRegistryMaintenance memoryFlowStore (\<lambda>_. []) 400000
     (ensureFlowRegistryReady memoryFlowStore (initFlowRegistry
       [(''a'', (sampleFlow ''a'' Managed)\<lparr>tf_status := FsBlocked, tf_cancelRequestedAt := Some 10\<rparr>)]))
     = (Inr s, R') \<and> tf_status (the (jm_get (fr_flows R') ''a'')) = FsBlocked"
proof -
  let ?f = "(sampleFlow ''a'' Managed)\<lparr>tf_status := FsBlocked, tf_cancelRequestedAt := Some 10\<rparr>"
  let ?R = "ensureFlowRegistryReady memoryFlowStore (initFlowRegistry [(''a'', ?f)])"
  have ok: "registry_ok ?R" by (simp add: flow_eval registry_ok_def flow_map_ok_def flow_ok_def)
  have get: "jm_get (fr_flows ?R) ''a'' = Some ?f" by (simp add: flow_eval)
  obtain s R' where run: "runTaskFlowRegistryMaintenance memoryFlowStore (\<lambda>_. []) 400000 ?R = (Inr s, R')"
    by (simp add: flow_eval runTaskFlowRegistryMaintenance_def listTaskFlowRecords_def getTaskFlowById_def
        shouldRepairTerminalMirroredFlowTimestamp_def shouldFinalizeCancelledFlow_def shouldPruneFlow_def
        isTerminalFlow_def hasActiveLinkedTasks_def resolveTerminalAt_def TASK_FLOW_RETENTION_MS_def)
  have "jm_get (fr_flows R') ''a'' = Some ?f"
    by (rule conjunct1 [OF blocked_cancel_never_finalised [OF ensure_ready_attempted ok get _ _ _ _ _ _ run, of 10]])
      (simp_all add: hasActiveLinkedTasks_def resolveTerminalAt_def TASK_FLOW_RETENTION_MS_def orElse_def)
  with run show ?thesis by auto
qed

end
