(* ===== verification/ChannelRoute.thy ===== *)
theory ChannelRoute
  imports JsValue
begin

text \<open>
  Account identifiers, \<open>src/routing/account-id.ts\<close>, and channel routes, \<open>src/plugin-sdk/channel-route.ts\<close>:
  the normalisation of identifiers with its bounded cache, the normal form of a route, the two ways
  routes are compared and the two keys routes are filed under.

  Inputs the code takes as \<open>unknown\<close> are optional strings here (a value of another type is dropped by
  the code); a thread identifier is a string or a number.
\<close>

section \<open>Account identifiers\<close>

definition idAlnum :: "char \<Rightarrow> bool" where
  "idAlnum c \<longleftrightarrow> (let n = (of_char c :: nat) in (97 \<le> n \<and> n \<le> 122) \<or> (48 \<le> n \<and> n \<le> 57))"

text \<open>\<open>[a-z0-9_-]\<close>\<close>

definition idChar :: "char \<Rightarrow> bool" where
  "idChar c \<longleftrightarrow> idAlnum c \<or> c = CHR ''_'' \<or> c = CHR ''-''"

text \<open>ASCII capitals, for the flag \<open>i\<close> of \<open>VALID_ID_RE\<close>.\<close>

definition asciiUpper :: "char \<Rightarrow> bool" where
  "asciiUpper c \<longleftrightarrow> (let n = (of_char c :: nat) in 65 \<le> n \<and> n \<le> 90)"

fun validId :: "string \<Rightarrow> bool" where
  "validId [] = False"
| "validId (c # cs) = ((idAlnum c \<or> asciiUpper c) \<and> length cs \<le> 63 \<and>
     list_all (\<lambda>c. idChar c \<or> asciiUpper c) cs)"

text \<open>\<open>replace(/[^a-z0-9_-]+/g, "-")\<close>\<close>

function collapseInvalid :: "string \<Rightarrow> string" where
  "collapseInvalid [] = []"
| "collapseInvalid (c # cs) =
     (if idChar c then c # collapseInvalid cs
      else CHR ''-'' # collapseInvalid (dropWhile (\<lambda>c. \<not> idChar c) cs))"
  by pat_completeness auto
termination
  by (relation "measure length") (auto simp: less_Suc_eq_le length_dropWhile_le)

definition stripDashes :: "string \<Rightarrow> string" where
  "stripDashes s = rev (dropWhile (\<lambda>c. c = CHR ''-'') (rev (dropWhile (\<lambda>c. c = CHR ''-'') s)))"

definition canonicalizeAccountId :: "string \<Rightarrow> string" where
  "canonicalizeAccountId value =
     (let normalized = normalizeLowercaseStringOrEmpty (Some value)
      in if validId value then normalized else take 64 (stripDashes (collapseInvalid normalized)))"

definition isBlockedObjectKey :: "string \<Rightarrow> bool" where
  "isBlockedObjectKey k \<longleftrightarrow> k \<in> {''__proto__'', ''prototype'', ''constructor''}"

definition normalizeCanonicalAccountId :: "string \<Rightarrow> string option" where
  "normalizeCanonicalAccountId value =
     (let canonical = canonicalizeAccountId value
      in if canonical = [] \<or> isBlockedObjectKey canonical then None else Some canonical)"

definition ACCOUNT_ID_CACHE_MAX :: nat where
  "ACCOUNT_ID_CACHE_MAX = 512"

definition setNormalizeCache :: "(string, 'v) jsmap \<Rightarrow> string \<Rightarrow> 'v \<Rightarrow> (string, 'v) jsmap" where
  "setNormalizeCache cache key v =
     (let cache = jm_set key v cache
      in if length cache \<le> ACCOUNT_ID_CACHE_MAX then cache
         else case cache of [] \<Rightarrow> cache | (oldest, _) # _ \<Rightarrow> jm_delete oldest cache)"

definition DEFAULT_ACCOUNT_ID :: string where
  "DEFAULT_ACCOUNT_ID = ''default''"

text \<open>\<open>normalizeCanonicalAccountId(trimmed) || DEFAULT_ACCOUNT_ID\<close>\<close>

definition canonicalOrDefault :: "string \<Rightarrow> string" where
  "canonicalOrDefault trimmed =
     (case normalizeCanonicalAccountId trimmed of None \<Rightarrow> DEFAULT_ACCOUNT_ID | Some n \<Rightarrow> n)"

definition normalizeAccountId ::
  "(string, string) jsmap \<Rightarrow> string option \<Rightarrow> string \<times> (string, string) jsmap" where
  "normalizeAccountId cache value =
     (let trimmed = js_trim (case value of None \<Rightarrow> [] | Some s \<Rightarrow> s)
      in if trimmed = [] then (DEFAULT_ACCOUNT_ID, cache)
         else case jm_get cache trimmed of
                Some (c # cs) \<Rightarrow> (c # cs, cache)
              | _ \<Rightarrow>
                  (let normalized = canonicalOrDefault trimmed
                   in (normalized, setNormalizeCache cache trimmed normalized)))"

definition normalizeOptionalAccountId ::
  "(string, string option) jsmap \<Rightarrow> string option \<Rightarrow> string option \<times> (string, string option) jsmap" where
  "normalizeOptionalAccountId cache value =
     (let trimmed = js_trim (case value of None \<Rightarrow> [] | Some s \<Rightarrow> s)
      in if trimmed = [] then (None, cache)
         else case jm_get cache trimmed of
                Some r \<Rightarrow> (r, cache)
              | None \<Rightarrow>
                  (let normalized = normalizeCanonicalAccountId trimmed
                   in (normalized, setNormalizeCache cache trimmed normalized)))"

text \<open>The same without the cache.\<close>

definition accountId :: "string option \<Rightarrow> string option" where
  "accountId value =
     (let trimmed = js_trim (case value of None \<Rightarrow> [] | Some s \<Rightarrow> s)
      in if trimmed = [] then None else normalizeCanonicalAccountId trimmed)"

section \<open>Routes\<close>

datatype chat_type = ChatDirect | ChatGroup | ChatChannel
datatype thread_kind = KindTopic | KindThread | KindReply
datatype thread_source = SourceExplicit | SourceTarget | SourceSession | SourceTurn

datatype thread_value = ThreadText string | ThreadNumber jsnum
datatype thread_id = TidText string | TidNumber int

record route_target =
  rt_to :: string
  rt_rawTo :: "string option"
  rt_chatType :: "chat_type option"

record route_thread =
  rh_id :: thread_id
  rh_kind :: "thread_kind option"
  rh_source :: "thread_source option"

record channel_route =
  cr_channel :: "string option"
  cr_accountId :: "string option"
  cr_target :: "route_target option"
  cr_thread :: "route_thread option"

record route_input =
  ri_channel :: "string option"
  ri_accountId :: "string option"
  ri_to :: "string option"
  ri_rawTo :: "string option"
  ri_chatType :: "chat_type option"
  ri_threadId :: "thread_value option"
  ri_threadKind :: "thread_kind option"
  ri_threadSource :: "thread_source option"

text \<open>\<open>Math.trunc\<close> of a finite number.\<close>

definition js_trunc :: "rat \<Rightarrow> int" where
  "js_trunc r = (if r < 0 then \<lceil>r\<rceil> else \<lfloor>r\<rfloor>)"

definition normalizeOptionalThreadValue :: "thread_value option \<Rightarrow> thread_id option" where
  "normalizeOptionalThreadValue v = (case v of
     None \<Rightarrow> None
   | Some (ThreadNumber (Fin r)) \<Rightarrow> Some (TidNumber (js_trunc r))
   | Some (ThreadNumber _) \<Rightarrow> None
   | Some (ThreadText s) \<Rightarrow> map_option TidText (normalizeOptionalString (Some s)))"

definition normalizeRouteThreadId :: "thread_value option \<Rightarrow> thread_id option" where
  "normalizeRouteThreadId v = normalizeOptionalThreadValue v"

text \<open>A thread identifier of a route, as a value again.\<close>

definition threadValue :: "thread_id \<Rightarrow> thread_value" where
  "threadValue t = (case t of TidText s \<Rightarrow> ThreadText s | TidNumber n \<Rightarrow> ThreadNumber (jn_of_int n))"

definition stringifyRouteThreadId :: "thread_id option \<Rightarrow> string option" where
  "stringifyRouteThreadId v =
     (case normalizeRouteThreadId (map_option threadValue v) of
        None \<Rightarrow> None | Some (TidText s) \<Rightarrow> Some s | Some (TidNumber n) \<Rightarrow> Some (js_show_int n))"

text \<open>A non-empty string, or nothing: \<open>s ? s : undefined\<close>.\<close>

definition nonEmpty :: "string \<Rightarrow> string option" where
  "nonEmpty s = (if s = [] then None else Some s)"

definition normalizeChannelRouteRef :: "route_input option \<Rightarrow> channel_route option" where
  "normalizeChannelRouteRef input = (case input of
     None \<Rightarrow> None
   | Some i \<Rightarrow>
       (let channel = normalizeLowercaseStringOrEmpty (ri_channel i);
            account = (case ri_accountId i of None \<Rightarrow> None | Some a \<Rightarrow> accountId (Some a));
            to = normalizeOptionalString (ri_to i);
            rawTo = normalizeOptionalString (ri_rawTo i);
            threadId = normalizeRouteThreadId (ri_threadId i)
        in if channel = [] \<and> to = None \<and> account = None \<and> threadId = None then None
           else Some \<lparr>cr_channel = nonEmpty channel, cr_accountId = account,
              cr_target = map_option (\<lambda>t. \<lparr>rt_to = t,
                 rt_rawTo = (if rawTo \<noteq> None \<and> rawTo \<noteq> Some t then rawTo else None),
                 rt_chatType = ri_chatType i\<rparr>) to,
              cr_thread = map_option (\<lambda>t. \<lparr>rh_id = t, rh_kind = ri_threadKind i,
                 rh_source = ri_threadSource i\<rparr>) threadId\<rparr>))"

definition channelRouteTarget :: "channel_route option \<Rightarrow> string option" where
  "channelRouteTarget route = Option.bind route (\<lambda>r. map_option rt_to (cr_target r))"

definition channelRouteThreadId :: "channel_route option \<Rightarrow> thread_id option" where
  "channelRouteThreadId route = Option.bind route (\<lambda>r. map_option rh_id (cr_thread r))"

text \<open>A \<open>ChannelRouteTargetInput\<close> has no thread kind and source.\<close>

definition normalizeChannelRouteTarget :: "route_input option \<Rightarrow> channel_route option" where
  "normalizeChannelRouteTarget input =
     normalizeChannelRouteRef (map_option (\<lambda>i. i\<lparr>ri_threadKind := None, ri_threadSource := None\<rparr>) input)"

text \<open>The four texts both keys are made of.\<close>

definition routeParts :: "channel_route option \<Rightarrow> string list" where
  "routeParts route =
     [orEmpty (Option.bind route cr_channel), orEmpty (channelRouteTarget route),
      orEmpty (Option.bind route cr_accountId),
      orEmpty (stringifyRouteThreadId (channelRouteThreadId route))]"

definition channelRouteDedupeKey :: "route_input option \<Rightarrow> string" where
  "channelRouteDedupeKey input = json_tuple (routeParts (normalizeChannelRouteTarget input))"

definition channelRouteIdentityKey :: "route_input option \<Rightarrow> string" where
  "channelRouteIdentityKey input = channelRouteDedupeKey input"

definition threadIdsEqual :: "thread_id option \<Rightarrow> thread_id option \<Rightarrow> bool" where
  "threadIdsEqual l r \<longleftrightarrow> stringifyRouteThreadId l = stringifyRouteThreadId r"

definition accountsCompatible :: "string option \<Rightarrow> string option \<Rightarrow> bool" where
  "accountsCompatible l r \<longleftrightarrow> orEmpty l = [] \<or> orEmpty r = [] \<or> l = r"

definition accountsEqual :: "string option \<Rightarrow> string option \<Rightarrow> bool" where
  "accountsEqual l r \<longleftrightarrow> orEmpty l = orEmpty r"

definition channelRoutesMatchExact :: "channel_route option \<Rightarrow> channel_route option \<Rightarrow> bool" where
  "channelRoutesMatchExact left right = (case (left, right) of
     (Some l, Some r) \<Rightarrow>
       cr_channel l = cr_channel r \<and> channelRouteTarget left = channelRouteTarget right \<and>
       accountsEqual (cr_accountId l) (cr_accountId r) \<and>
       threadIdsEqual (channelRouteThreadId left) (channelRouteThreadId right)
   | _ \<Rightarrow> False)"

definition channelRoutesShareConversation :: "channel_route option \<Rightarrow> channel_route option \<Rightarrow> bool" where
  "channelRoutesShareConversation left right = (case (left, right) of
     (Some l, Some r) \<Rightarrow>
       if cr_channel l \<noteq> cr_channel r \<or> channelRouteTarget left \<noteq> channelRouteTarget right \<or>
          \<not> accountsCompatible (cr_accountId l) (cr_accountId r) then False
       else if channelRouteThreadId left = None \<or> channelRouteThreadId right = None then True
       else threadIdsEqual (channelRouteThreadId left) (channelRouteThreadId right)
   | _ \<Rightarrow> False)"

definition channelRouteTargetsMatchExact :: "route_input option \<Rightarrow> route_input option \<Rightarrow> bool" where
  "channelRouteTargetsMatchExact left right =
     channelRoutesMatchExact (normalizeChannelRouteTarget left) (normalizeChannelRouteTarget right)"

definition channelRouteTargetsShareConversation :: "route_input option \<Rightarrow> route_input option \<Rightarrow> bool" where
  "channelRouteTargetsShareConversation left right =
     channelRoutesShareConversation (normalizeChannelRouteTarget left) (normalizeChannelRouteTarget right)"

text \<open>A key input is a route (it has a target or a thread field) or a target input.\<close>

datatype route_key_input = KeyRoute channel_route | KeyTarget route_input

definition routeAsInput :: "channel_route \<Rightarrow> route_input" where
  "routeAsInput r = \<lparr>ri_channel = cr_channel r, ri_accountId = cr_accountId r,
     ri_to = map_option rt_to (cr_target r), ri_rawTo = None, ri_chatType = None,
     ri_threadId = map_option (threadValue \<circ> rh_id) (cr_thread r),
     ri_threadKind = None, ri_threadSource = None\<rparr>"

definition normalizeChannelRouteKeyInput :: "route_key_input option \<Rightarrow> channel_route option" where
  "normalizeChannelRouteKeyInput route = (case route of
     None \<Rightarrow> None
   | Some (KeyRoute r) \<Rightarrow> normalizeChannelRouteRef (Some (routeAsInput r))
   | Some (KeyTarget i) \<Rightarrow> normalizeChannelRouteTarget (Some i))"

definition channelRouteCompactKey :: "route_key_input option \<Rightarrow> string option" where
  "channelRouteCompactKey route =
     (let normalized = normalizeChannelRouteKeyInput route
      in if orEmpty (Option.bind normalized cr_channel) = [] \<or> orEmpty (channelRouteTarget normalized) = []
         then None else Some (js_join ''|'' (routeParts normalized)))"

record parsed_target =
  pt_channel :: string
  pt_rawTo :: string
  pt_to :: string
  pt_threadId :: "thread_id option"
  pt_chatType :: "chat_type option"

text \<open>The parser of explicit targets belongs to a channel plugin; it is an argument.\<close>

definition resolveChannelRouteTargetWithParser ::
  "(string \<Rightarrow> string \<Rightarrow> (string \<times> thread_value option \<times> chat_type option) option) \<Rightarrow>
   string \<Rightarrow> string option \<Rightarrow> thread_value option \<Rightarrow> parsed_target option" where
  "resolveChannelRouteTargetWithParser parseExplicitTarget channel0 rawTarget fallbackThreadId =
     (let channel = normalizeLowercaseStringOrEmpty (Some channel0)
      in case normalizeOptionalString rawTarget of
           None \<Rightarrow> None
         | Some rawTo \<Rightarrow>
             if channel = [] then None
             else
               (let parsed = parseExplicitTarget channel rawTo;
                    fallback = map_option threadValue (normalizeOptionalThreadValue fallbackThreadId)
                in Some \<lparr>pt_channel = channel, pt_rawTo = rawTo,
                     pt_to = (case parsed of None \<Rightarrow> rawTo | Some (t, _, _) \<Rightarrow> t),
                     pt_threadId = normalizeOptionalThreadValue
                       (case parsed of Some (_, Some th, _) \<Rightarrow> Some th | _ \<Rightarrow> fallback),
                     pt_chatType = (case parsed of None \<Rightarrow> None | Some (_, _, ct) \<Rightarrow> ct)\<rparr>))"

section \<open>Identifiers: lemmas\<close>

lemma collapseInvalid_chars: "c \<in> set (collapseInvalid s) \<Longrightarrow> idChar c"
  by (induction s rule: collapseInvalid.induct) (auto simp: idChar_def split: if_splits)

lemma stripDashes_subset: "set (stripDashes s) \<subseteq> set s"
  by (auto simp: stripDashes_def dest!: set_dropWhileD)

lemma lower_idChar: "idChar c \<or> asciiUpper c \<Longrightarrow> idChar (js_lower_char c)"
  by (auto simp: idChar_def idAlnum_def asciiUpper_def js_lower_char_def Let_def)

lemma idChar_not_ws: "idChar c \<Longrightarrow> \<not> js_ws c"
  by (auto simp: idChar_def idAlnum_def js_ws_def Let_def)

lemma idChar_lower: "idChar c \<Longrightarrow> js_lower_char c = c"
  by (auto simp: idChar_def idAlnum_def js_lower_char_def Let_def)

lemma validId_chars: "validId s \<Longrightarrow> \<forall>c \<in> set s. idChar c \<or> asciiUpper c"
  by (cases s) (auto simp: idChar_def list_all_iff)

lemma validId_length: "validId s \<Longrightarrow> length s \<le> 64"
  by (cases s) auto

lemma normalizeLower_set:
  "c \<in> set (normalizeLowercaseStringOrEmpty (Some s)) \<Longrightarrow> \<exists>d \<in> set s. c = js_lower_char d"
  using set_js_trim_subset [of s]
  by (auto simp: normalizeLowercaseStringOrEmpty_def normalizeOptionalLowercaseString_def
      normalizeOptionalString_def normalizeNullableString_def js_lower_def Let_def split: if_splits)

lemma normalizeLower_length: "length (normalizeLowercaseStringOrEmpty (Some s)) \<le> length s"
  using length_js_trim [of s]
  by (auto simp: normalizeLowercaseStringOrEmpty_def normalizeOptionalLowercaseString_def
      normalizeOptionalString_def normalizeNullableString_def js_lower_def Let_def split: if_splits)

lemma canonical_chars: "c \<in> set (canonicalizeAccountId s) \<Longrightarrow> idChar c"
proof (cases "validId s")
  case True
  assume "c \<in> set (canonicalizeAccountId s)"
  with True obtain d where "d \<in> set s" "c = js_lower_char d"
    using normalizeLower_set by (auto simp: canonicalizeAccountId_def)
  with validId_chars [OF True] lower_idChar show ?thesis by blast
next
  case False
  assume "c \<in> set (canonicalizeAccountId s)"
  with False have "c \<in> set (collapseInvalid (normalizeLowercaseStringOrEmpty (Some s)))"
    using stripDashes_subset in_set_takeD by (fastforce simp: canonicalizeAccountId_def Let_def)
  then show ?thesis by (rule collapseInvalid_chars)
qed

lemma canonical_length: "length (canonicalizeAccountId s) \<le> 64"
  using normalizeLower_length [of s] validId_length [of s]
  by (auto simp: canonicalizeAccountId_def Let_def)

lemma canonical_fixed:
  assumes "\<forall>c \<in> set a. idChar c" "a \<noteq> []" "idAlnum (hd a)" "length a \<le> 64"
  shows "canonicalizeAccountId a = a"
proof -
  obtain c cs where a: "a = c # cs" using assms(2) by (cases a) auto
  have "validId a" using assms a by (auto simp: list_all_iff)
  moreover have "js_trim a = a" using assms(1) idChar_not_ws by (intro js_trim_no_ws) blast
  moreover have "map js_lower_char a = a" using assms(1) idChar_lower by (intro map_idI) blast
  ultimately show ?thesis using a
    by (simp add: canonicalizeAccountId_def normalizeLowercaseStringOrEmpty_def js_lower_def
        normalizeOptionalLowercaseString_def normalizeOptionalString_def normalizeNullableString_def Let_def)
qed

lemma accountId_Some:
  assumes "accountId v = Some a"
  shows "a \<noteq> [] \<and> length a \<le> 64 \<and> (\<forall>c \<in> set a. idChar c) \<and> \<not> isBlockedObjectKey a"
  using assms canonical_length canonical_chars
  by (auto simp: accountId_def normalizeCanonicalAccountId_def Let_def split: if_splits)

lemma accountId_fixed:
  assumes "accountId v = Some a" "idAlnum (hd a)"
  shows "accountId (Some a) = Some a"
proof -
  note a = accountId_Some [OF assms(1)]
  have "js_trim a = a" using a idChar_not_ws by (intro js_trim_no_ws) blast
  moreover have "canonicalizeAccountId a = a" using a assms(2) by (intro canonical_fixed) auto
  ultimately show ?thesis using a by (simp add: accountId_def normalizeCanonicalAccountId_def)
qed

section \<open>The caches\<close>

text \<open>A cache holds at most 512 entries, each the value of the uncached function at its key.\<close>

definition cacheOk :: "(string \<Rightarrow> 'v) \<Rightarrow> (string, 'v) jsmap \<Rightarrow> bool" where
  "cacheOk f cache \<longleftrightarrow> jm_wf cache \<and> length cache \<le> ACCOUNT_ID_CACHE_MAX \<and> (\<forall>(k, v) \<in> set cache. v = f k)"

lemma setNormalizeCache_ok:
  assumes "cacheOk f cache"
  shows "cacheOk f (setNormalizeCache cache key (f key))"
proof -
  let ?c = "jm_set key (f key) cache"
  have wf: "jm_wf ?c" using assms by (simp add: cacheOk_def)
  have len: "length ?c \<le> Suc ACCOUNT_ID_CACHE_MAX" using assms by (simp add: cacheOk_def length_jm_set)
  have vals: "\<forall>(k, v) \<in> set ?c. v = f k"
    using assms set_jm_set_subset [of key "f key" cache] by (fastforce simp: cacheOk_def)
  show ?thesis
  proof (cases "length ?c \<le> ACCOUNT_ID_CACHE_MAX")
    case True
    with wf vals show ?thesis by (simp add: cacheOk_def setNormalizeCache_def)
  next
    case False
    then obtain k v rest where c: "?c = (k, v) # rest" by (cases ?c) auto
    then have "k \<notin> fst ` set rest" using wf by simp
    then have "jm_delete k rest = rest" by (simp add: delete_id)
    with c have "jm_delete k ?c = rest" by simp
    then have "setNormalizeCache cache key (f key) = rest"
      using c False by (simp add: setNormalizeCache_def Let_def)
    with wf vals len show ?thesis unfolding c by (simp add: cacheOk_def)
  qed
qed

abbreviation optionalCacheOk :: "(string, string option) jsmap \<Rightarrow> bool" where
  "optionalCacheOk \<equiv> cacheOk normalizeCanonicalAccountId"

abbreviation defaultCacheOk :: "(string, string) jsmap \<Rightarrow> bool" where
  "defaultCacheOk \<equiv> cacheOk canonicalOrDefault"

lemma optional_cached:
  assumes "optionalCacheOk cache"
  shows "fst (normalizeOptionalAccountId cache v) = accountId v"
    and "optionalCacheOk (snd (normalizeOptionalAccountId cache v))"
  using assms setNormalizeCache_ok [OF assms]
  by (auto simp: normalizeOptionalAccountId_def accountId_def Let_def cacheOk_def
      split: option.split dest: map_of_SomeD)

lemma canonicalOrDefault_nonempty: "canonicalOrDefault k \<noteq> []"
  by (auto simp: canonicalOrDefault_def normalizeCanonicalAccountId_def DEFAULT_ACCOUNT_ID_def Let_def)

lemma accountId_default:
  "(case accountId v of None \<Rightarrow> DEFAULT_ACCOUNT_ID | Some a \<Rightarrow> a) =
   (let t = js_trim (case v of None \<Rightarrow> [] | Some s \<Rightarrow> s)
    in if t = [] then DEFAULT_ACCOUNT_ID else canonicalOrDefault t)"
  by (simp add: accountId_def canonicalOrDefault_def Let_def)

lemma default_cached:
  assumes "defaultCacheOk cache"
  shows "fst (normalizeAccountId cache v) = (case accountId v of None \<Rightarrow> DEFAULT_ACCOUNT_ID | Some a \<Rightarrow> a)"
    and "defaultCacheOk (snd (normalizeAccountId cache v))"
proof -
  let ?t = "js_trim (case v of None \<Rightarrow> [] | Some s \<Rightarrow> s)"
  have hit: "r = canonicalOrDefault ?t \<and> r \<noteq> []" if "jm_get cache ?t = Some r" for r
  proof -
    have "r = canonicalOrDefault ?t" using map_of_SomeD [OF that] assms by (auto simp: cacheOk_def)
    then show ?thesis by (simp add: canonicalOrDefault_nonempty)
  qed
  show "fst (normalizeAccountId cache v) = (case accountId v of None \<Rightarrow> DEFAULT_ACCOUNT_ID | Some a \<Rightarrow> a)"
    unfolding accountId_default
    using hit by (fastforce simp: normalizeAccountId_def Let_def split: option.split list.split simp del: map_of_eq_Some_iff)
  show "defaultCacheOk (snd (normalizeAccountId cache v))"
    using assms setNormalizeCache_ok [OF assms]
    by (simp add: normalizeAccountId_def Let_def split: option.split list.split)
qed

interpretation optcache: invariant_system "\<lambda>c v. snd (normalizeOptionalAccountId c v)" optionalCacheOk
  by unfold_locales (rule optional_cached(2))

interpretation defcache: invariant_system "\<lambda>c v. snd (normalizeAccountId c v)" defaultCacheOk
  by unfold_locales (rule default_cached(2))

text \<open>Account identifiers: after any history of calls the caches hold at most 512 entries and the
  cached functions answer what the plain normalisation answers; an identifier it gives is not empty, has
  at most 64 characters, all of them lower-case letters, digits, underscore or dash, is no prototype key,
  and is a fixed point when it begins with a letter or digit.\<close>

theorem account_id_normalisation:
  assumes "oc = foldl (\<lambda>c v. snd (normalizeOptionalAccountId c v)) [] vs"
    and "dc = foldl (\<lambda>c v. snd (normalizeAccountId c v)) [] ws"
  shows "fst (normalizeOptionalAccountId oc v) = accountId v \<and>
    fst (normalizeAccountId dc v) = (case accountId v of None \<Rightarrow> ''default'' | Some a \<Rightarrow> a) \<and>
    length oc \<le> 512 \<and> length dc \<le> 512 \<and>
    (\<forall>a. accountId v = Some a \<longrightarrow>
       a \<noteq> [] \<and> length a \<le> 64 \<and> list_all idChar a \<and>
       a \<notin> {''__proto__'', ''prototype'', ''constructor''} \<and>
       (idAlnum (hd a) \<longrightarrow> accountId (Some a) = Some a))"
proof (intro conjI allI impI)
  have oc: "optionalCacheOk oc" and dc: "defaultCacheOk dc"
    using assms optcache.run_inv [of "[]" vs] defcache.run_inv [of "[]" ws] by (simp_all add: cacheOk_def)
  show "fst (normalizeOptionalAccountId oc v) = accountId v" by (rule optional_cached(1) [OF oc])
  show "fst (normalizeAccountId dc v) = (case accountId v of None \<Rightarrow> ''default'' | Some a \<Rightarrow> a)"
    using default_cached(1) [OF dc] unfolding DEFAULT_ACCOUNT_ID_def .
  show "length oc \<le> 512" "length dc \<le> 512" using oc dc by (simp_all add: cacheOk_def ACCOUNT_ID_CACHE_MAX_def)
  fix a
  assume a: "accountId v = Some a"
  show "a \<noteq> []" "length a \<le> 64" "list_all idChar a" "a \<notin> {''__proto__'', ''prototype'', ''constructor''}"
    using accountId_Some [OF a] by (simp_all add: isBlockedObjectKey_def list_all_iff)
  show "accountId (Some a) = Some a" if "idAlnum (hd a)" using a that by (rule accountId_fixed)
qed

theorem account_id_normalisation_witness:
  "fst (normalizeOptionalAccountId (foldl (\<lambda>c v. snd (normalizeOptionalAccountId c v)) []
     [Some ''Team Blue!'', None]) (Some '' Team Blue! '')) = accountId (Some '' Team Blue! '')"
  using account_id_normalisation [OF refl refl] by blast

section \<open>Keys and comparisons\<close>

lemma normalizeOptionalThreadValue_text:
  "normalizeOptionalThreadValue v = Some t \<Longrightarrow> stringifyRouteThreadId (Some t) \<noteq> None \<and>
     stringifyRouteThreadId (Some t) \<noteq> Some []"
  by (auto simp: normalizeOptionalThreadValue_def stringifyRouteThreadId_def normalizeRouteThreadId_def
      threadValue_def normalizeOptionalString_Some_iff js_trunc_def
      split: option.splits thread_value.splits jsnum.splits)

lemma threadValue_fixed:
  "normalizeOptionalThreadValue v = Some t \<Longrightarrow> normalizeOptionalThreadValue (Some (threadValue t)) = Some t"
  by (auto simp: normalizeOptionalThreadValue_def threadValue_def js_trunc_def normalizeOptionalString_Some_iff
      split: option.splits thread_value.splits jsnum.splits)

text \<open>What the normal form of a route guarantees.\<close>

definition route_ok :: "channel_route \<Rightarrow> bool" where
  "route_ok r \<longleftrightarrow> cr_channel r \<noteq> Some [] \<and> channelRouteTarget (Some r) \<noteq> Some [] \<and>
     cr_accountId r \<noteq> Some [] \<and>
     (\<forall>t. channelRouteThreadId (Some r) = Some t \<longrightarrow>
        stringifyRouteThreadId (Some t) \<noteq> None \<and> stringifyRouteThreadId (Some t) \<noteq> Some []) \<and>
     (cr_channel r \<noteq> None \<or> channelRouteTarget (Some r) \<noteq> None \<or> cr_accountId r \<noteq> None \<or>
      channelRouteThreadId (Some r) \<noteq> None)"

lemma normalized_route_ok: "normalizeChannelRouteRef i = Some r \<Longrightarrow> route_ok r"
  using accountId_Some normalizeOptionalThreadValue_text
  by (fastforce simp: normalizeChannelRouteRef_def route_ok_def channelRouteTarget_def channelRouteThreadId_def
      nonEmpty_def normalizeRouteThreadId_def normalizeOptionalString_nonempty Let_def
      split: option.splits if_splits)

lemma orEmpty_eq: "v \<noteq> Some [] \<Longrightarrow> w \<noteq> Some [] \<Longrightarrow> orEmpty v = orEmpty w \<longleftrightarrow> v = w"
  by (cases v; cases w) (auto simp: orEmpty_def)

lemma orEmpty_Nil: "v \<noteq> Some [] \<Longrightarrow> orEmpty v = [] \<longleftrightarrow> v = None"
  by (cases v) (auto simp: orEmpty_def)

lemma stringify_None [simp]: "stringifyRouteThreadId None = None"
  by (simp add: stringifyRouteThreadId_def normalizeRouteThreadId_def normalizeOptionalThreadValue_def)

lemma route_thread_text:
  assumes "route_ok r"
  shows "stringifyRouteThreadId (channelRouteThreadId (Some r)) \<noteq> Some []"
    and "stringifyRouteThreadId (channelRouteThreadId (Some r)) = None \<longleftrightarrow> channelRouteThreadId (Some r) = None"
  using assms by (cases "channelRouteThreadId (Some r)"; simp add: route_ok_def)+

lemma routeParts_match:
  assumes "route_ok l" "route_ok r"
  shows "routeParts (Some l) = routeParts (Some r) \<longleftrightarrow> channelRoutesMatchExact (Some l) (Some r)"
  using assms route_thread_text(1) [OF assms(1)] route_thread_text(1) [OF assms(2)]
  by (simp add: routeParts_def channelRoutesMatchExact_def accountsEqual_def threadIdsEqual_def
      orEmpty_eq route_ok_def)

lemma routeParts_None: "routeParts None = [[], [], [], []]"
  by (simp add: routeParts_def orEmpty_def channelRouteTarget_def channelRouteThreadId_def)

lemma routeParts_nonempty: "route_ok r \<Longrightarrow> routeParts (Some r) \<noteq> [[], [], [], []]"
  using route_thread_text by (auto simp: routeParts_def orEmpty_Nil route_ok_def)

lemma length_routeParts [simp]: "length (routeParts r) = 4"
  by (simp add: routeParts_def)

lemma routeParts_eq_iff:
  assumes "\<And>r. l = Some r \<Longrightarrow> route_ok r" "\<And>r. l' = Some r \<Longrightarrow> route_ok r"
  shows "routeParts l = routeParts l' \<longleftrightarrow> channelRoutesMatchExact l l' \<or> (l = None \<and> l' = None)"
  using assms routeParts_match routeParts_None routeParts_nonempty
  by (cases l; cases l') (auto simp: channelRoutesMatchExact_def dest: sym)

text \<open>Joining with a separator that no part contains.\<close>

lemma split_at_sep: "c \<notin> set x \<Longrightarrow> c \<notin> set y \<Longrightarrow> x @ c # r = y @ c # r' \<Longrightarrow> x = y \<and> r = r'"
proof (induction x arbitrary: y)
  case Nil
  then show ?case by (cases y) auto
next
  case (Cons d x)
  then show ?case by (cases y) auto
qed

lemma join_sep_inj:
  "length xs = length ys \<Longrightarrow> \<forall>x \<in> set xs. c \<notin> set x \<Longrightarrow> \<forall>y \<in> set ys. c \<notin> set y \<Longrightarrow>
   js_join [c] xs = js_join [c] ys \<Longrightarrow> xs = ys"
proof (induction xs arbitrary: ys)
  case Nil
  then show ?case by simp
next
  case (Cons x xs)
  then obtain y ys' where ys: "ys = y # ys'" "length xs = length ys'" by (cases ys) auto
  show ?case
  proof (cases xs)
    case Nil
    with ys Cons.prems show ?thesis by simp
  next
    case xs: (Cons x' xs')
    with ys obtain y' ys'' where ys': "ys' = y' # ys''" by (cases ys') auto
    from Cons.prems(4) xs ys ys' have "x @ c # js_join [c] xs = y @ c # js_join [c] ys'" by simp
    then have "x = y \<and> js_join [c] xs = js_join [c] ys'"
      using Cons.prems(2,3) ys by (intro split_at_sep) auto
    with Cons.IH [OF ys(2)] Cons.prems ys show ?thesis by simp
  qed
qed

lemma key_target_ok:
  "normalizeChannelRouteTarget i = Some r \<Longrightarrow> route_ok r"
  unfolding normalizeChannelRouteTarget_def by (rule normalized_route_ok)

text \<open>C27. Route keys: two targets have the same dedupe key exactly when they match exactly or both
  normalise to nothing; a compact key exists exactly for a target with a channel and a recipient, targets
  that match have the same one, and as long as no part contains the separator the same compact key means
  an exact match.\<close>

theorem channel_route_keys:
  shows "(channelRouteDedupeKey a = channelRouteDedupeKey b \<longleftrightarrow>
      channelRouteTargetsMatchExact a b \<or>
      (normalizeChannelRouteTarget a = None \<and> normalizeChannelRouteTarget b = None)) \<and>
    (channelRouteTargetsMatchExact (Some i) (Some j) \<longrightarrow>
      channelRouteCompactKey (Some (KeyTarget i)) = channelRouteCompactKey (Some (KeyTarget j))) \<and>
    (channelRouteCompactKey (Some (KeyTarget i)) = channelRouteCompactKey (Some (KeyTarget j)) \<longrightarrow>
      channelRouteCompactKey (Some (KeyTarget i)) \<noteq> None \<longrightarrow>
      (\<forall>p \<in> set (routeParts (normalizeChannelRouteTarget (Some i))) \<union>
             set (routeParts (normalizeChannelRouteTarget (Some j))). CHR ''|'' \<notin> set p) \<longrightarrow>
      channelRouteTargetsMatchExact (Some i) (Some j))"
proof (intro conjI impI)
  show "channelRouteDedupeKey a = channelRouteDedupeKey b \<longleftrightarrow>
      channelRouteTargetsMatchExact a b \<or>
      (normalizeChannelRouteTarget a = None \<and> normalizeChannelRouteTarget b = None)"
    unfolding channelRouteDedupeKey_def channelRouteTargetsMatchExact_def
    by (simp add: json_tuple_inj routeParts_eq_iff key_target_ok)
next
  let ?l = "normalizeChannelRouteTarget (Some i)" and ?r = "normalizeChannelRouteTarget (Some j)"
  assume m: "channelRouteTargetsMatchExact (Some i) (Some j)"
  then have "routeParts ?l = routeParts ?r"
    by (simp add: routeParts_eq_iff key_target_ok channelRouteTargetsMatchExact_def)
  moreover from this have "orEmpty (Option.bind ?l cr_channel) = orEmpty (Option.bind ?r cr_channel)"
    "orEmpty (channelRouteTarget ?l) = orEmpty (channelRouteTarget ?r)"
    by (simp_all add: routeParts_def)
  ultimately show "channelRouteCompactKey (Some (KeyTarget i)) = channelRouteCompactKey (Some (KeyTarget j))"
    by (simp add: channelRouteCompactKey_def normalizeChannelRouteKeyInput_def)
next
  let ?l = "normalizeChannelRouteTarget (Some i)" and ?r = "normalizeChannelRouteTarget (Some j)"
  assume k: "channelRouteCompactKey (Some (KeyTarget i)) = channelRouteCompactKey (Some (KeyTarget j))"
    and some: "channelRouteCompactKey (Some (KeyTarget i)) \<noteq> None"
    and sep: "\<forall>p \<in> set (routeParts ?l) \<union> set (routeParts ?r). CHR ''|'' \<notin> set p"
  from k some have "js_join ''|'' (routeParts ?l) = js_join ''|'' (routeParts ?r)"
    by (auto simp: channelRouteCompactKey_def normalizeChannelRouteKeyInput_def Let_def split: if_splits)
  then have parts: "routeParts ?l = routeParts ?r"
    using join_sep_inj [of "routeParts ?l" "routeParts ?r" "CHR ''|''"] sep by auto
  have "?l \<noteq> None"
    using some by (cases ?l) (auto simp: channelRouteCompactKey_def normalizeChannelRouteKeyInput_def orEmpty_def)
  with parts show "channelRouteTargetsMatchExact (Some i) (Some j)"
    by (simp add: routeParts_eq_iff key_target_ok channelRouteTargetsMatchExact_def)
qed

fun sampleRoute :: "string \<Rightarrow> route_input" where
  "sampleRoute t = \<lparr>ri_channel = Some ''Slack'', ri_accountId = None, ri_to = Some t, ri_rawTo = None,
     ri_chatType = None, ri_threadId = Some (ThreadNumber (Fin 5)), ri_threadKind = None, ri_threadSource = None\<rparr>"

theorem channel_route_keys_witness:
  "channelRouteDedupeKey (Some (sampleRoute ''a'')) = channelRouteDedupeKey (Some (sampleRoute '' a ''))"
proof -
  have "channelRouteTargetsMatchExact (Some (sampleRoute ''a'')) (Some (sampleRoute '' a ''))"
    by (simp add: channelRouteTargetsMatchExact_def normalizeChannelRouteTarget_def normalizeChannelRouteRef_def
        channelRoutesMatchExact_def channelRouteTarget_def channelRouteThreadId_def accountsEqual_def
        threadIdsEqual_def normalizeOptionalString_def normalizeNullableString_def js_defs Let_def
        normalizeLowercaseStringOrEmpty_def normalizeOptionalLowercaseString_def)
  then show ?thesis using channel_route_keys by blast
qed

text \<open>With the separator in a recipient, different targets share a compact key.\<close>

lemma compact_key_collides:
  "channelRouteCompactKey (Some (KeyTarget ((sampleRoute ''x|y'')\<lparr>ri_threadId := None\<rparr>))) =
   channelRouteCompactKey (Some (KeyTarget ((sampleRoute ''x'')\<lparr>ri_accountId := Some ''y'', ri_threadId := Some (ThreadText ''|'')\<rparr>))) \<and>
   \<not> channelRouteTargetsMatchExact (Some ((sampleRoute ''x|y'')\<lparr>ri_threadId := None\<rparr>))
       (Some ((sampleRoute ''x'')\<lparr>ri_accountId := Some ''y'', ri_threadId := Some (ThreadText ''|'')\<rparr>))"
  by (simp add: channelRouteTargetsMatchExact_def normalizeChannelRouteTarget_def normalizeChannelRouteRef_def
      channelRoutesMatchExact_def channelRouteTarget_def channelRouteThreadId_def accountsEqual_def
      threadIdsEqual_def normalizeOptionalString_def normalizeNullableString_def js_defs Let_def
      normalizeLowercaseStringOrEmpty_def normalizeOptionalLowercaseString_def channelRouteCompactKey_def
      normalizeChannelRouteKeyInput_def routeParts_def orEmpty_def stringifyRouteThreadId_def
      normalizeRouteThreadId_def normalizeOptionalThreadValue_def threadValue_def accountId_def
      normalizeCanonicalAccountId_def canonicalizeAccountId_def idAlnum_def isBlockedObjectKey_def nonEmpty_def)

end
