(* ===== verification/DedupeCache.thy ===== *)
theory DedupeCache
  imports Prelude
begin

text \<open>
  The duplicate filter, \<open>src/infra/dedupe.ts\<close> and \<open>src/infra/map-size.ts\<close>: a map from keys to the time
  they were last seen, in the order they were last seen, bounded in age and in size.  A missing or empty
  key is never a duplicate.  Times are integral milliseconds.
\<close>

section \<open>Operations\<close>

record dedupe_cache =
  dc_ttlMs :: int
  dc_maxSize :: nat
  dc_entries :: "(string, int) jsmap"

text \<open>\<open>Math.max(0, \<dots>)\<close> on both options.\<close>

definition createDedupeCache :: "int \<Rightarrow> int \<Rightarrow> dedupe_cache" where
  "createDedupeCache ttlMs maxSize =
     \<lparr>dc_ttlMs = max 0 ttlMs, dc_maxSize = nat maxSize, dc_entries = []\<rparr>"

text \<open>Delete the oldest entries until at most \<open>maxSize\<close> are left.\<close>

definition pruneMapToMaxSize :: "nat \<Rightarrow> ('k, 'v) jsmap \<Rightarrow> ('k, 'v) jsmap" where
  "pruneMapToMaxSize maxSize m = (if maxSize = 0 then [] else drop (length m - maxSize) m)"

definition touchKey :: "string \<Rightarrow> int \<Rightarrow> (string, int) jsmap \<Rightarrow> (string, int) jsmap" where
  "touchKey key now m = jm_set key now (jm_delete key m)"

definition pruneDedupe :: "int \<Rightarrow> dedupe_cache \<Rightarrow> dedupe_cache" where
  "pruneDedupe now c =
     (let entries = (if dc_ttlMs c > 0 then filter (\<lambda>(k, t). \<not> t < now - dc_ttlMs c) (dc_entries c)
                     else dc_entries c)
      in c\<lparr>dc_entries := (if dc_maxSize c = 0 then [] else pruneMapToMaxSize (dc_maxSize c) entries)\<rparr>)"

definition hasUnexpired :: "string \<Rightarrow> int \<Rightarrow> bool \<Rightarrow> dedupe_cache \<Rightarrow> bool \<times> dedupe_cache" where
  "hasUnexpired key now touchOnRead c =
     (case jm_get (dc_entries c) key of
        None \<Rightarrow> (False, c)
      | Some existing \<Rightarrow>
          if dc_ttlMs c > 0 \<and> now - existing \<ge> dc_ttlMs c
          then (False, c\<lparr>dc_entries := jm_delete key (dc_entries c)\<rparr>)
          else if touchOnRead then (True, c\<lparr>dc_entries := touchKey key now (dc_entries c)\<rparr>)
          else (True, c))"

definition dedupeCheck :: "string option \<Rightarrow> int \<Rightarrow> dedupe_cache \<Rightarrow> bool \<times> dedupe_cache" where
  "dedupeCheck key now c = (case key of
     None \<Rightarrow> (False, c)
   | Some k \<Rightarrow>
       if k = [] then (False, c)
       else (case hasUnexpired k now True c of
               (True, c) \<Rightarrow> (True, c)
             | (False, c) \<Rightarrow> (False, pruneDedupe now (c\<lparr>dc_entries := touchKey k now (dc_entries c)\<rparr>))))"

definition dedupePeek :: "string option \<Rightarrow> int \<Rightarrow> dedupe_cache \<Rightarrow> bool \<times> dedupe_cache" where
  "dedupePeek key now c = (case key of
     None \<Rightarrow> (False, c) | Some k \<Rightarrow> if k = [] then (False, c) else hasUnexpired k now False c)"

definition dedupeDelete :: "string option \<Rightarrow> dedupe_cache \<Rightarrow> dedupe_cache" where
  "dedupeDelete key c = (case key of
     None \<Rightarrow> c | Some k \<Rightarrow> if k = [] then c else c\<lparr>dc_entries := jm_delete k (dc_entries c)\<rparr>)"

definition dedupeClear :: "dedupe_cache \<Rightarrow> dedupe_cache" where
  "dedupeClear c = c\<lparr>dc_entries := []\<rparr>"

definition dedupeSize :: "dedupe_cache \<Rightarrow> nat" where
  "dedupeSize c = length (dc_entries c)"

section \<open>Order of the entries\<close>

text \<open>\<open>k\<close> was last seen at \<open>t\<close>, and the entries behind it are for keys in \<open>K\<close>.\<close>

definition seenAt :: "string \<Rightarrow> int \<Rightarrow> string set \<Rightarrow> dedupe_cache \<Rightarrow> bool" where
  "seenAt k t K c \<longleftrightarrow>
     (\<exists>pre post. dc_entries c = pre @ (k, t) # post \<and> fst ` set post \<subseteq> K) \<and> jm_wf (dc_entries c)"

lemma jm_delete_filter: "jm_delete k m = filter (\<lambda>e. fst e \<noteq> k) m"
  unfolding AList.delete_eq by (rule filter_cong) auto

lemma touchKey_append: "touchKey k now m = jm_delete k m @ [(k, now)]"
  unfolding touchKey_def by (rule jm_set_None) (simp add: delete_conv')

lemma jm_wf_filter: "jm_wf m \<Longrightarrow> jm_wf (filter P m)"
  by (induction m) auto

lemma jm_wf_drop: "jm_wf m \<Longrightarrow> jm_wf (drop n m)"
  by (simp add: drop_map [symmetric])

lemma jm_wf_touch: "jm_wf m \<Longrightarrow> jm_wf (touchKey k now m)"
  by (simp add: touchKey_def)

lemma jm_wf_prune: "jm_wf (dc_entries c) \<Longrightarrow> jm_wf (dc_entries (pruneDedupe now c))"
  by (simp add: pruneDedupe_def pruneMapToMaxSize_def Let_def jm_wf_filter jm_wf_drop)

lemma seenAtE:
  assumes "seenAt k t K c"
  obtains pre post where "dc_entries c = pre @ (k, t) # post" "fst ` set post \<subseteq> K" "jm_wf (dc_entries c)"
  using assms by (auto simp: seenAt_def)

lemma seenAtI:
  "dc_entries c = pre @ (k, t) # post \<Longrightarrow> fst ` set post \<subseteq> K \<Longrightarrow> jm_wf (dc_entries c) \<Longrightarrow> seenAt k t K c"
  unfolding seenAt_def by blast

lemma seenAt_get: "seenAt k t K c \<Longrightarrow> jm_get (dc_entries c) k = Some t"
  by (elim seenAtE) (rule map_of_is_SomeI, simp_all)

lemma seenAt_filter:
  assumes "seenAt k t K c" "P (k, t)"
  shows "seenAt k t K (c\<lparr>dc_entries := filter P (dc_entries c)\<rparr>)"
proof -
  from assms(1) obtain pre post where e: "dc_entries c = pre @ (k, t) # post" "fst ` set post \<subseteq> K"
    "jm_wf (dc_entries c)" by (rule seenAtE)
  show ?thesis
  proof (rule seenAtI [where pre = "filter P pre" and post = "filter P post"])
    show "dc_entries (c\<lparr>dc_entries := filter P (dc_entries c)\<rparr>) = filter P pre @ (k, t) # filter P post"
      using e(1) assms(2) by simp
    show "fst ` set (filter P post) \<subseteq> K" using e(2) by auto
    show "jm_wf (dc_entries (c\<lparr>dc_entries := filter P (dc_entries c)\<rparr>))"
      using jm_wf_filter [OF e(3)] by simp
  qed
qed

lemma seenAt_drop:
  assumes "seenAt k t K c" "finite K" "Suc (card K) \<le> n"
  shows "seenAt k t K (c\<lparr>dc_entries := drop (length (dc_entries c) - n) (dc_entries c)\<rparr>)"
proof -
  from assms(1) obtain pre post where e: "dc_entries c = pre @ (k, t) # post" "fst ` set post \<subseteq> K"
    "jm_wf (dc_entries c)" by (rule seenAtE)
  have "jm_wf post" using e(1,3) by simp
  then have "length post = card (fst ` set post)"
    by (metis distinct_card length_map set_map)
  also have "\<dots> \<le> card K" using assms(2) e(2) by (rule card_mono)
  finally have "length (dc_entries c) - n \<le> length pre" using assms(3) e(1) by simp
  then have d: "drop (length (dc_entries c) - n) (dc_entries c) =
      drop (length (dc_entries c) - n) pre @ (k, t) # post"
    by (simp add: e(1))
  have "jm_wf (drop (length (dc_entries c) - n) (dc_entries c))" by (rule jm_wf_drop [OF e(3)])
  with d e(2) show ?thesis unfolding seenAt_def by auto
qed

lemma seenAt_touch:
  assumes "seenAt k t K c" "k' \<noteq> k" "k' \<in> K"
  shows "seenAt k t K (c\<lparr>dc_entries := touchKey k' now (dc_entries c)\<rparr>)"
proof -
  have "seenAt k t K (c\<lparr>dc_entries := jm_delete k' (dc_entries c)\<rparr>)"
    unfolding jm_delete_filter using assms by (intro seenAt_filter) auto
  then obtain pre post where "jm_delete k' (dc_entries c) = pre @ (k, t) # post" "fst ` set post \<subseteq> K"
    by (auto elim: seenAtE)
  moreover have "jm_wf (touchKey k' now (dc_entries c))"
    using assms(1) by (intro jm_wf_touch) (rule seenAtE)
  ultimately show ?thesis
    using assms(3) by (intro seenAtI [where pre = pre and post = "post @ [(k', now)]"]) (auto simp: touchKey_append)
qed

lemma seenAt_prune:
  assumes "seenAt k t K c" "finite K" "Suc (card K) \<le> dc_maxSize c" "dc_ttlMs c > 0 \<longrightarrow> now - dc_ttlMs c \<le> t"
  shows "seenAt k t K (pruneDedupe now c)"
proof -
  let ?es = "if dc_ttlMs c > 0 then filter (\<lambda>(k, t). \<not> t < now - dc_ttlMs c) (dc_entries c) else dc_entries c"
  have "seenAt k t K (c\<lparr>dc_entries := ?es\<rparr>)"
    using assms(1,4) by (auto intro!: seenAt_filter)
  from seenAt_drop [OF this assms(2,3)] assms(3) show ?thesis
    by (simp add: pruneDedupe_def pruneMapToMaxSize_def Let_def)
qed

section \<open>Runs\<close>

datatype dedupe_op = DoCheck "string option" int | DoPeek "string option" int | DoDelete "string option" | DoClear

fun dedupeStep :: "dedupe_cache \<Rightarrow> dedupe_op \<Rightarrow> dedupe_cache" where
  "dedupeStep c (DoCheck k now) = snd (dedupeCheck k now c)"
| "dedupeStep c (DoPeek k now) = snd (dedupePeek k now c)"
| "dedupeStep c (DoDelete k) = dedupeDelete k c"
| "dedupeStep c DoClear = dedupeClear c"

text \<open>An operation that leaves \<open>k\<close> alone, no later than \<open>now\<close>.\<close>

fun sparesKey :: "string \<Rightarrow> int \<Rightarrow> dedupe_op \<Rightarrow> bool" where
  "sparesKey k now (DoCheck k' t) = (k' \<noteq> Some k \<and> t \<le> now)"
| "sparesKey k now (DoPeek k' t) = (k' \<noteq> Some k \<and> t \<le> now)"
| "sparesKey k now (DoDelete k') = (k' \<noteq> Some k)"
| "sparesKey k now DoClear = False"

definition checkedKeys :: "dedupe_op list \<Rightarrow> string set" where
  "checkedKeys ops = {k. \<exists>t. DoCheck (Some k) t \<in> set ops}"

lemma finite_checkedKeys [simp]: "finite (checkedKeys ops)"
proof -
  have "checkedKeys ops \<subseteq> (\<lambda>op. case op of DoCheck (Some k) t \<Rightarrow> k | _ \<Rightarrow> []) ` set ops"
    by (force simp: checkedKeys_def)
  then show ?thesis by (rule finite_subset) simp
qed

lemma config_fixed [simp]:
  "dc_ttlMs (dedupeStep c op) = dc_ttlMs c" "dc_maxSize (dedupeStep c op) = dc_maxSize c"
  by (cases op; auto simp: dedupeCheck_def dedupePeek_def dedupeDelete_def dedupeClear_def hasUnexpired_def
      pruneDedupe_def Let_def split: option.split prod.split if_split)+

lemma step_seenAt:
  assumes "seenAt k t K c" "finite K" "Suc (card K) \<le> dc_maxSize c" "dc_ttlMs c > 0 \<longrightarrow> now - t < dc_ttlMs c"
    and "sparesKey k now op" "\<And>k' t'. op = DoCheck (Some k') t' \<Longrightarrow> k' \<in> K"
  shows "seenAt k t K (dedupeStep c op)"
proof -
  have del: "seenAt k t K (c\<lparr>dc_entries := jm_delete k' (dc_entries c)\<rparr>)" if "k' \<noteq> k" for k'
    unfolding jm_delete_filter using assms(1) that by (intro seenAt_filter) auto
  have miss: "seenAt k t K (pruneDedupe t' (c'\<lparr>dc_entries := touchKey k' t' (dc_entries c')\<rparr>))"
    if "seenAt k t K c'" "k' \<noteq> k" "k' \<in> K" "t' \<le> now" "dc_ttlMs c' = dc_ttlMs c" "dc_maxSize c' = dc_maxSize c"
    for k' t' c'
    using that assms(2-4) by (intro seenAt_prune seenAt_touch) auto
  show ?thesis
  proof (cases op)
    case (DoCheck ko t')
    show ?thesis
    proof (cases "ko = None \<or> ko = Some []")
      case True
      with DoCheck assms(1) show ?thesis by (auto simp: dedupeCheck_def)
    next
      case False
      then obtain x where x: "ko = Some x" "x \<noteq> []" by auto
      with DoCheck assms(5,6) have "x \<noteq> k" "x \<in> K" "t' \<le> now" by auto
      with DoCheck x assms(1) miss [of c] miss [OF del] seenAt_touch [OF assms(1)] show ?thesis
        by (simp add: dedupeCheck_def hasUnexpired_def split: option.split)
    qed
  next
    case (DoPeek ko t')
    with assms(1,5) del show ?thesis
      by (auto simp: dedupePeek_def hasUnexpired_def split: option.split)
  qed (use assms(1,5) del in \<open>auto simp: dedupeDelete_def split: option.split\<close>)
qed

lemma run_config [simp]:
  "dc_ttlMs (foldl dedupeStep c ops) = dc_ttlMs c" "dc_maxSize (foldl dedupeStep c ops) = dc_maxSize c"
  by (induction ops arbitrary: c) auto

lemma run_seenAt:
  assumes "seenAt k t K c" "finite K" "Suc (card K) \<le> dc_maxSize c" "dc_ttlMs c > 0 \<longrightarrow> now - t < dc_ttlMs c"
    and "\<forall>op \<in> set ops. sparesKey k now op" "checkedKeys ops \<subseteq> K"
  shows "seenAt k t K (foldl dedupeStep c ops)"
  using assms
proof (induction ops arbitrary: c)
  case Nil
  then show ?case by simp
next
  case (Cons op ops)
  have "seenAt k t K (dedupeStep c op)"
    using Cons.prems by (intro step_seenAt [of k t K c now op]) (auto simp: checkedKeys_def)
  moreover have "checkedKeys ops \<subseteq> K" using Cons.prems(6) by (auto simp: checkedKeys_def)
  ultimately show ?case using Cons.IH Cons.prems by simp
qed

text \<open>Entries are bounded, unique, and each stems from a check of its key at that time.\<close>

definition dedupe_ok :: "dedupe_op set \<Rightarrow> dedupe_cache \<Rightarrow> bool" where
  "dedupe_ok H c \<longleftrightarrow> jm_wf (dc_entries c) \<and> length (dc_entries c) \<le> dc_maxSize c \<and>
     (\<forall>(k, t) \<in> set (dc_entries c). DoCheck (Some k) t \<in> H)"

lemma dedupe_ok_delete:
  "dedupe_ok H c \<Longrightarrow> dedupe_ok H (c\<lparr>dc_entries := jm_delete k (dc_entries c)\<rparr>)"
  using set_jm_delete_subset [of k "dc_entries c"] length_delete_le [of k "dc_entries c"]
  by (auto simp: dedupe_ok_def)

lemma touch_entries: "e \<in> set (touchKey k now m) \<Longrightarrow> e = (k, now) \<or> e \<in> set m"
  using set_jm_delete_subset [of k m] by (auto simp: touchKey_append)

lemma prune_entries: "set (dc_entries (pruneDedupe now c)) \<subseteq> set (dc_entries c)"
  using set_drop_subset by (fastforce simp: pruneDedupe_def pruneMapToMaxSize_def Let_def split: if_splits)

lemma prune_length: "length (dc_entries (pruneDedupe now c)) \<le> dc_maxSize c"
proof -
  have "length (drop (length xs - n) xs) \<le> n" for xs :: "(string \<times> int) list" and n by simp
  then show ?thesis by (auto simp: pruneDedupe_def pruneMapToMaxSize_def Let_def simp del: length_drop)
qed

lemma dedupe_okD:
  assumes "dedupe_ok H c"
  shows "jm_wf (dc_entries c)" "length (dc_entries c) \<le> dc_maxSize c"
    "(k, t) \<in> set (dc_entries c) \<Longrightarrow> DoCheck (Some k) t \<in> H"
  using assms unfolding dedupe_ok_def by blast+

lemma dedupe_okI:
  "jm_wf (dc_entries c) \<Longrightarrow> length (dc_entries c) \<le> dc_maxSize c \<Longrightarrow>
   (\<And>k t. (k, t) \<in> set (dc_entries c) \<Longrightarrow> DoCheck (Some k) t \<in> H) \<Longrightarrow> dedupe_ok H c"
  unfolding dedupe_ok_def by blast

lemma length_touch_hit: "jm_get m k = Some t \<Longrightarrow> jm_wf m \<Longrightarrow> length (touchKey k now m) = length m"
proof (induction m)
  case Nil
  then show ?case by simp
next
  case (Cons e m)
  then show ?case
    by (cases "fst e = k") (auto simp: touchKey_append split: if_splits)
qed

lemma dedupe_ok_step:
  assumes "dedupe_ok H c"
  shows "dedupe_ok (insert op H) (dedupeStep c op)"
proof -
  have mono: "dedupe_ok (insert op H) c'" if "dedupe_ok H c'" for c'
    using that by (auto simp: dedupe_ok_def)
  note ok = dedupe_okD [OF assms]
  have hit: "dedupe_ok (insert op H) (c\<lparr>dc_entries := touchKey k t (dc_entries c)\<rparr>)"
    if "jm_get (dc_entries c) k = Some t0" "op = DoCheck (Some k) t" for k t t0
  proof (rule dedupe_okI)
    show "length (dc_entries (c\<lparr>dc_entries := touchKey k t (dc_entries c)\<rparr>))
        \<le> dc_maxSize (c\<lparr>dc_entries := touchKey k t (dc_entries c)\<rparr>)"
      using ok(2) by (simp add: length_touch_hit [OF that(1) ok(1)])
    show "jm_wf (dc_entries (c\<lparr>dc_entries := touchKey k t (dc_entries c)\<rparr>))"
      using ok(1) by (simp add: jm_wf_touch)
    show "DoCheck (Some i) s \<in> insert op H"
      if "(i, s) \<in> set (dc_entries (c\<lparr>dc_entries := touchKey k t (dc_entries c)\<rparr>))" for i s
      using touch_entries [of "(i, s)" k t "dc_entries c"] that ok(3) \<open>op = DoCheck (Some k) t\<close> by auto
  qed
  have miss: "dedupe_ok (insert op H) (pruneDedupe t (c'\<lparr>dc_entries := touchKey k t (dc_entries c')\<rparr>))"
    if "dedupe_ok H c'" "op = DoCheck (Some k) t" for c' k t
  proof (rule dedupe_okI)
    let ?c = "c'\<lparr>dc_entries := touchKey k t (dc_entries c')\<rparr>"
    show "length (dc_entries (pruneDedupe t ?c)) \<le> dc_maxSize (pruneDedupe t ?c)"
      using prune_length [of t ?c] by (simp add: pruneDedupe_def Let_def)
    show "jm_wf (dc_entries (pruneDedupe t ?c))"
      using dedupe_okD(1) [OF that(1)] by (intro jm_wf_prune) (simp add: jm_wf_touch)
    show "DoCheck (Some i) s \<in> insert op H" if "(i, s) \<in> set (dc_entries (pruneDedupe t ?c))" for i s
    proof -
      have "(i, s) \<in> set (touchKey k t (dc_entries c'))"
        using prune_entries [of t ?c] that by (simp add: subset_eq)
      from touch_entries [OF this] show ?thesis
        using dedupe_okD(3) [OF \<open>dedupe_ok H c'\<close>] \<open>op = DoCheck (Some k) t\<close> by auto
    qed
  qed
  show ?thesis
    using assms hit miss miss [OF dedupe_ok_delete [OF assms]] mono dedupe_ok_delete [OF assms]
    by (cases op) (auto simp: dedupeCheck_def dedupePeek_def dedupeDelete_def dedupeClear_def hasUnexpired_def
        dedupe_ok_def [of _ "c\<lparr>dc_entries := []\<rparr>"] split: option.split)
qed

lemma dedupe_ok_run: "dedupe_ok H c \<Longrightarrow> dedupe_ok (H \<union> set ops) (foldl dedupeStep c ops)"
proof (induction ops arbitrary: c H)
  case (Cons op ops)
  from Cons.IH [OF dedupe_ok_step [OF Cons.prems]] show ?case by simp
qed simp

lemma check_sees:
  assumes "jm_wf (dc_entries c)" "k \<noteq> []" "0 < dc_maxSize c"
  shows "seenAt k t {} (snd (dedupeCheck (Some k) t c))"
proof -
  have touched: "seenAt k t {} (c'\<lparr>dc_entries := touchKey k t (dc_entries c')\<rparr>)" if "jm_wf (dc_entries c')" for c'
    using that by (intro seenAtI [where pre = "jm_delete k (dc_entries c')" and post = "[]"])
      (simp_all add: touchKey_append [symmetric] jm_wf_touch)
  have pruned: "seenAt k t {} (pruneDedupe t (c'\<lparr>dc_entries := touchKey k t (dc_entries c')\<rparr>))"
    if "jm_wf (dc_entries c')" "dc_maxSize c' = dc_maxSize c" for c'
    using that touched [OF that(1)] assms(3) by (intro seenAt_prune) auto
  show ?thesis
    using assms touched [of c] pruned [of c] pruned [of "c\<lparr>dc_entries := jm_delete k (dc_entries c)\<rparr>"]
    by (simp add: dedupeCheck_def hasUnexpired_def split: option.split)
qed

text \<open>A check answers what a peek would have answered; the two differ in what they leave behind.\<close>

lemma dedupeCheck_answer: "fst (dedupeCheck (Some k) now c) = fst (dedupePeek (Some k) now c)"
  by (simp add: dedupeCheck_def dedupePeek_def hasUnexpired_def split: option.split)

text \<open>C28. The filter remembers and forgets.  After any history, a key checked at \<open>t\<close> is reported as a
  duplicate, by a peek and by the next check of it, at every time \<open>now\<close> before the time-to-live has
  passed, provided that in between fewer than the maximal number of other keys have been checked, the key
  itself is neither checked again, peeked at nor deleted, the filter is not cleared, and no operation
  carries a time later than \<open>now\<close> (\<open>sparesKey\<close>).  Whatever a peek or a check reports as a duplicate was
  checked before, within the time-to-live; and the filter never exceeds its size.\<close>

theorem dedupe_window:
  assumes "c = foldl dedupeStep (createDedupeCache ttl maxSize) history" and "0 < ttl" and "k \<noteq> []"
    and "c' = foldl dedupeStep (snd (dedupeCheck (Some k) t c)) ops"
    and "\<forall>op \<in> set ops. sparesKey k now op" and "int (card (checkedKeys ops)) < maxSize"
  shows "(now - t < ttl \<longrightarrow> fst (dedupePeek (Some k) now c') \<and> fst (dedupeCheck (Some k) now c')) \<and>
    (fst (dedupePeek (Some x) now c) \<or> fst (dedupeCheck (Some x) now c) \<longrightarrow>
      (\<exists>s. DoCheck (Some x) s \<in> set history \<and> now - s < ttl)) \<and>
    int (dedupeSize c) \<le> max 0 maxSize"
proof (intro conjI impI)
  note answers = dedupeCheck_answer [of k now c'] dedupeCheck_answer [of x now c]
  have cfg: "dc_ttlMs c = ttl" "dc_maxSize c = nat maxSize"
    using assms(1,2) by (simp_all add: createDedupeCache_def)
  have "dedupe_ok {} (createDedupeCache ttl maxSize)" by (simp add: dedupe_ok_def createDedupeCache_def)
  from dedupe_ok_run [OF this, of history] have ok: "dedupe_ok (set history) c" using assms(1) by simp
  show "int (dedupeSize c) \<le> max 0 maxSize" using dedupe_okD(2) [OF ok] cfg by (simp add: dedupeSize_def)
  show "\<exists>s. DoCheck (Some x) s \<in> set history \<and> now - s < ttl"
    if "fst (dedupePeek (Some x) now c) \<or> fst (dedupeCheck (Some x) now c)"
    using that [unfolded answers disj_absorb] dedupe_okD(3) [OF ok] cfg assms(2) map_of_SomeD
    by (fastforce simp: dedupePeek_def hasUnexpired_def split: if_splits option.splits simp del: map_of_eq_Some_iff)
  assume "now - t < ttl"
  have "seenAt k t {} (snd (dedupeCheck (Some k) t c))"
    using check_sees [OF dedupe_okD(1) [OF ok] assms(3)] assms(6) cfg by simp
  then have start: "seenAt k t (checkedKeys ops) (snd (dedupeCheck (Some k) t c))"
    by (elim seenAtE) (rule seenAtI, assumption, auto)
  have cfg1: "dc_ttlMs (snd (dedupeCheck (Some k) t c)) = ttl"
    "dc_maxSize (snd (dedupeCheck (Some k) t c)) = nat maxSize"
    using config_fixed [of c "DoCheck (Some k) t"] cfg by simp_all
  have "seenAt k t (checkedKeys ops) c'"
    unfolding assms(4) using start \<open>now - t < ttl\<close> assms(5,6) cfg1
    by (intro run_seenAt [where now = now]) auto
  then have "jm_get (dc_entries c') k = Some t" by (rule seenAt_get)
  moreover have "dc_ttlMs c' = ttl" unfolding assms(4) by (simp add: cfg1)
  ultimately show "fst (dedupePeek (Some k) now c')"
    using \<open>now - t < ttl\<close> assms(3) by (simp add: dedupePeek_def hasUnexpired_def)
  then show "fst (dedupeCheck (Some k) now c')" unfolding answers .
qed

theorem dedupe_window_witness:
  "fst (dedupeCheck (Some ''m1'') 90 (foldl dedupeStep
     (snd (dedupeCheck (Some ''m1'') 10 (foldl dedupeStep (createDedupeCache 100 2) [DoCheck (Some ''m0'') 5])))
     [DoCheck (Some ''m2'') 20]))"
proof -
  have "checkedKeys [DoCheck (Some ''m2'') 20] = {''m2''}" by (auto simp: checkedKeys_def)
  then show ?thesis
    using dedupe_window [OF refl, of 100 "''m1''" _ 10 2 "[DoCheck (Some ''m0'') 5]" "[DoCheck (Some ''m2'') 20]" 90]
    by simp
qed

end
