(* ===== verification/FollowupQueue.thy ===== *)
theory FollowupQueue
  imports ChannelRoute DedupeCache
begin

text \<open>
  The followup queues of busy sessions: \<open>src/utils/queue-helpers.ts\<close> and
  \<open>src/auto-reply/reply/queue/\<close> (\<open>state.ts\<close>, \<open>enqueue.ts\<close>, \<open>drain.ts\<close>, \<open>cleanup.ts\<close>).

  Queue objects have an identity, because a drain keeps working on its object after the map entry for
  the key has been replaced.  A drain is an asynchronous function; between its steps it is suspended at
  one of the points of \<open>drain_pc\<close>, and the events of the system resume it: the debounce wait ends, or the
  run it awaits settles.  Everything else (an enqueue, a clear) may happen in between.  Callbacks are
  numbered, \<open>fs_runs\<close> lists the runs that were started.  Four fields are ghosts, which no operation reads:
  \<open>fq_accepted\<close>, the items an object accepted, \<open>fq_completed\<close>, the items taken off after a run,
  \<open>fq_covered\<close>, the items that a successful run was given, and \<open>dr_covers\<close>, those of the current run.

  Runs carry the fields the code reads; whether a channel can be routed to is the channel registry's
  business and an argument.  The ellipsis character is written as the control character 133.
\<close>

section \<open>Queue helpers\<close>

datatype drop_policy = DropOld | DropNew | DropSummarize
datatype queue_mode = ModeSteer | ModeFollowup | ModeCollect | ModeInterrupt
datatype queue_dedupe_mode = DedupeMessageId | DedupePrompt | DedupeNone

record run_config =
  rc_sessionId :: string
  rc_sessionFile :: string
  rc_provider :: string
  rc_model :: string
  rc_hasSessionModelOverride :: "bool option"
  rc_modelOverrideSource :: "string option"
  rc_authProfileId :: "string option"
  rc_authProfileIdSource :: "string option"
  rc_senderId :: "string option"
  rc_senderName :: "string option"
  rc_senderUsername :: "string option"
  rc_senderE164 :: "string option"
  rc_senderIsOwner :: "bool option"
  rc_execHost :: "string option"
  rc_execSecurity :: "string option"
  rc_execAsk :: "string option"
  rc_execNode :: "string option"
  rc_bashEnabled :: "bool option"
  rc_bashAllowed :: "bool option"
  rc_bashDefaultLevel :: "string option"

record followup_run =
  fu_prompt :: string
  fu_messageId :: "string option"
  fu_summaryLine :: "string option"
  fu_enqueuedAt :: int
  fu_images :: "string list option"
  fu_imageOrder :: "string list option"
  fu_channel :: "string option"
  fu_to :: "string option"
  fu_accountId :: "string option"
  fu_threadId :: "thread_value option"
  fu_run :: run_config

record queue_settings =
  qs_mode :: queue_mode
  qs_debounceMs :: "jsnum option"
  qs_cap :: "jsnum option"
  qs_dropPolicy :: "drop_policy option"

record followup_queue =
  fq_items :: "followup_run list"
  fq_draining :: bool
  fq_lastEnqueuedAt :: int
  fq_mode :: queue_mode
  fq_debounceMs :: jsnum
  fq_cap :: jsnum
  fq_dropPolicy :: drop_policy
  fq_droppedCount :: nat
  fq_summaryLines :: "string list"
  fq_lastRun :: "run_config option"
  fq_accepted :: "followup_run list"
  fq_completed :: "followup_run list"
  fq_covered :: "followup_run list"

definition clearQueueSummaryState :: "followup_queue \<Rightarrow> followup_queue" where
  "clearQueueSummaryState q = q\<lparr>fq_droppedCount := 0, fq_summaryLines := []\<rparr>"

definition applyQueueRuntimeSettings :: "followup_queue \<Rightarrow> queue_settings \<Rightarrow> followup_queue" where
  "applyQueueRuntimeSettings target s =
     target\<lparr>fq_mode := qs_mode s,
       fq_debounceMs := (case qs_debounceMs s of None \<Rightarrow> fq_debounceMs target | Some d \<Rightarrow> jn_max (Fin 0) d),
       fq_cap := (case qs_cap s of
                    None \<Rightarrow> fq_cap target
                  | Some c \<Rightarrow> if jn_less (Fin 0) c then jn_floor c else fq_cap target),
       fq_dropPolicy := (case qs_dropPolicy s of None \<Rightarrow> fq_dropPolicy target | Some p \<Rightarrow> p)\<rparr>"

definition elideQueueText :: "string \<Rightarrow> nat \<Rightarrow> string" where
  "elideQueueText text limit =
     (if length text \<le> limit then text else js_trim_end (take (limit - 1) text) @ [CHR 0x85])"

text \<open>\<open>replace(/\s+/g, " ")\<close>\<close>

function collapseSpaces :: "string \<Rightarrow> string" where
  "collapseSpaces [] = []"
| "collapseSpaces (c # cs) =
     (if js_ws c then CHR '' '' # collapseSpaces (dropWhile js_ws cs) else c # collapseSpaces cs)"
  by pat_completeness auto
termination
  by (relation "measure length") (auto simp: less_Suc_eq_le length_dropWhile_le)

definition buildQueueSummaryLine :: "string \<Rightarrow> nat \<Rightarrow> string" where
  "buildQueueSummaryLine text limit = elideQueueText (js_trim (collapseSpaces text)) limit"

definition shouldSkipQueueItem ::
  "(followup_run \<Rightarrow> followup_run list \<Rightarrow> bool) option \<Rightarrow> followup_run \<Rightarrow> followup_run list \<Rightarrow> bool" where
  "shouldSkipQueueItem dedupe item items = (case dedupe of None \<Rightarrow> False | Some f \<Rightarrow> f item items)"

definition jn_le :: "jsnum \<Rightarrow> jsnum \<Rightarrow> bool" where
  "jn_le a b \<longleftrightarrow> a \<noteq> NaN \<and> b \<noteq> NaN \<and> \<not> jn_less b a"

text \<open>A cap that a queue can reach is a finite number.\<close>

definition capNat :: "jsnum \<Rightarrow> nat" where
  "capNat c = (case c of Fin r \<Rightarrow> nat \<lfloor>r\<rfloor> | _ \<Rightarrow> 0)"

definition applyQueueDropPolicy :: "(followup_run \<Rightarrow> string) \<Rightarrow> followup_queue \<Rightarrow> bool \<times> followup_queue" where
  "applyQueueDropPolicy summarize q =
     (if jn_le (fq_cap q) (Fin 0) \<or> jn_less (jn_of_nat (length (fq_items q))) (fq_cap q) then (True, q)
      else if fq_dropPolicy q = DropNew then (False, q)
      else
        (let dropCount = length (fq_items q) - capNat (fq_cap q) + 1;
             dropped = take dropCount (fq_items q);
             q = q\<lparr>fq_items := drop dropCount (fq_items q)\<rparr>
         in (True,
             if fq_dropPolicy q = DropSummarize then
               (let summaryLines = fq_summaryLines q @
                      map (\<lambda>item. buildQueueSummaryLine (summarize item) 160) dropped
                in q\<lparr>fq_droppedCount := fq_droppedCount q + length dropped,
                     fq_summaryLines := drop (length summaryLines - capNat (fq_cap q)) summaryLines\<rparr>)
             else q)))"

fun queueText :: "nat \<Rightarrow> string" where
  "queueText n = (if n = 0 then ''[Queue overflow] Dropped ''
     else if n = 1 then '' due to cap.''
     else if n = 2 then ''Summary:''
     else if n = 3 then ''[Queued messages while agent was busy]''
     else if n = 4 then ''Queued #''
     else '' (from '')"

declare queueText.simps [simp del]

definition newline :: string where
  "newline = [CHR 10]"

definition buildQueueSummaryPrompt :: "string \<Rightarrow> string option \<Rightarrow> followup_queue \<Rightarrow> string option \<times> followup_queue" where
  "buildQueueSummaryPrompt noun title q =
     (if fq_dropPolicy q \<noteq> DropSummarize \<or> fq_droppedCount q = 0 then (None, q)
      else
        (let first = (case title of
               Some t \<Rightarrow> t
             | None \<Rightarrow> queueText 0 @ js_show_nat (fq_droppedCount q) @ '' '' @ noun @
                        (if fq_droppedCount q = 1 then [] else ''s'') @ queueText 1);
             prompt_lines = first # (if fq_summaryLines q = [] then []
                      else queueText 2 # map (\<lambda>l. ''- '' @ l) (fq_summaryLines q))
         in (Some (js_join newline prompt_lines), clearQueueSummaryState q)))"

text \<open>The preview works on a copy of the state.\<close>

definition previewQueueSummaryPrompt :: "string \<Rightarrow> string option \<Rightarrow> followup_queue \<Rightarrow> string option" where
  "previewQueueSummaryPrompt noun title q = fst (buildQueueSummaryPrompt noun title q)"

definition buildCollectPrompt ::
  "string \<Rightarrow> followup_run list \<Rightarrow> string option \<Rightarrow> (followup_run \<Rightarrow> nat \<Rightarrow> string) \<Rightarrow> string" where
  "buildCollectPrompt title items summary renderItem =
     js_join (newline @ newline)
       (title # (case summary of None \<Rightarrow> [] | Some s \<Rightarrow> if s = [] then [] else [s]) @
        map (\<lambda>(item, idx). renderItem item idx) (zip items [0..<length items]))"

text \<open>A resolved route of an item: cross-channel, keyed, or neither.\<close>

datatype cross_key = CrossChannel | RouteKey string | Unkeyed

fun crossLoop :: "cross_key list \<Rightarrow> string list \<Rightarrow> bool \<Rightarrow> bool" where
  "crossLoop [] keys hasUnkeyed =
     (if keys = [] then False else if hasUnkeyed then True else length keys > 1)"
| "crossLoop (CrossChannel # rs) keys hasUnkeyed = True"
| "crossLoop (Unkeyed # rs) keys hasUnkeyed = crossLoop rs keys True"
| "crossLoop (RouteKey k # rs) keys hasUnkeyed =
     (if k = [] then crossLoop rs keys True else crossLoop rs (List.insert k keys) hasUnkeyed)"

definition hasCrossChannelItems :: "('a \<Rightarrow> cross_key) \<Rightarrow> 'a list \<Rightarrow> bool" where
  "hasCrossChannelItems resolveKey items = crossLoop (map resolveKey items) [] False"

section \<open>Runs: routing, authorization and batches\<close>

definition routeInput :: "followup_run \<Rightarrow> route_input" where
  "routeInput r = \<lparr>ri_channel = fu_channel r, ri_accountId = fu_accountId r, ri_to = fu_to r, ri_rawTo = None,
     ri_chatType = None, ri_threadId = fu_threadId r, ri_threadKind = None, ri_threadSource = None\<rparr>"

definition followupRouteIdentityKey :: "followup_run \<Rightarrow> string" where
  "followupRouteIdentityKey r = channelRouteDedupeKey (Some (routeInput r))"

definition buildRecentMessageIdKey :: "followup_run \<Rightarrow> string \<Rightarrow> string option" where
  "buildRecentMessageIdKey r queueKey =
     (case normalizeOptionalString (fu_messageId r) of
        None \<Rightarrow> None
      | Some messageId \<Rightarrow> Some (json_tuple [''queue'', queueKey, followupRouteIdentityKey r, messageId]))"

definition isRunAlreadyQueued :: "bool \<Rightarrow> followup_run \<Rightarrow> followup_run list \<Rightarrow> bool" where
  "isRunAlreadyQueued allowPromptFallback r items =
     (let routeKey = followupRouteIdentityKey r;
          hasSameRouting = (\<lambda>item. followupRouteIdentityKey item = routeKey)
      in case normalizeOptionalString (fu_messageId r) of
           Some messageId \<Rightarrow>
             list_ex (\<lambda>item. normalizeOptionalString (fu_messageId item) = Some messageId \<and> hasSameRouting item) items
         | None \<Rightarrow>
             if \<not> allowPromptFallback then False
             else list_ex (\<lambda>item. fu_prompt item = fu_prompt r \<and> hasSameRouting item) items)"

text \<open>\<open>isRoutableChannel\<close>: \<open>registered\<close> says whether the registry knows the channel.\<close>

definition isRoutableChannel :: "(string \<Rightarrow> bool) \<Rightarrow> string option \<Rightarrow> bool" where
  "isRoutableChannel registered channel =
     (case channel of None \<Rightarrow> False
      | Some c \<Rightarrow> if c = [] \<or> c = ''webchat'' then False else registered c)"

definition threadBlank :: "thread_value option \<Rightarrow> bool" where
  "threadBlank t \<longleftrightarrow> t = None \<or> t = Some (ThreadText [])"

definition resolveCrossChannelKey :: "(string \<Rightarrow> bool) \<Rightarrow> followup_run \<Rightarrow> cross_key" where
  "resolveCrossChannelKey registered item =
     (if orEmpty (fu_channel item) = [] \<and> orEmpty (fu_to item) = [] \<and> orEmpty (fu_accountId item) = [] \<and>
         threadBlank (fu_threadId item) then Unkeyed
      else if \<not> isRoutableChannel registered (fu_channel item) \<or> orEmpty (fu_to item) = [] then CrossChannel
      else case channelRouteCompactKey (Some (KeyTarget (routeInput item))) of
             Some k \<Rightarrow> if k = [] then CrossChannel else RouteKey k
           | None \<Rightarrow> CrossChannel)"

text \<open>\<open>JSON.stringify\<close> of the ten fields that decide how a run is authorized.\<close>

definition json_bool :: "bool \<Rightarrow> string" where
  "json_bool b = (if b then ''true'' else ''false'')"

definition resolveFollowupAuthorizationKey :: "run_config \<Rightarrow> string" where
  "resolveFollowupAuthorizationKey r =
     ''['' @ js_join '',''
       [json_string (orEmpty (rc_senderId r)), json_string (orEmpty (rc_senderE164 r)),
        json_bool (rc_senderIsOwner r = Some True), json_string (orEmpty (rc_execHost r)),
        json_string (orEmpty (rc_execSecurity r)), json_string (orEmpty (rc_execAsk r)),
        json_string (orEmpty (rc_execNode r)), json_bool (rc_bashEnabled r = Some True),
        json_bool (rc_bashAllowed r = Some True), json_string (orEmpty (rc_bashDefaultLevel r))] @ '']''"

text \<open>The loop that groups neighbours with the same key; the current group and its key are the state.\<close>

fun splitLoop ::
  "followup_run list \<Rightarrow> followup_run list list \<Rightarrow> followup_run list \<Rightarrow> string \<Rightarrow> followup_run list list" where
  "splitLoop [] groups currentGroup currentKey =
     (if currentGroup = [] then groups else groups @ [currentGroup])"
| "splitLoop (item # items) groups currentGroup currentKey =
     (let itemKey = resolveFollowupAuthorizationKey (fu_run item)
      in if currentGroup = [] \<or> itemKey = currentKey
         then splitLoop items groups (currentGroup @ [item]) itemKey
         else splitLoop items (groups @ [currentGroup]) [item] itemKey)"

definition splitCollectItemsByAuthorization :: "followup_run list \<Rightarrow> followup_run list list" where
  "splitCollectItemsByAuthorization items =
     (if length items \<le> 1 then (if items = [] then [] else [items]) else splitLoop items [] [] [])"

text \<open>The first item that has a field decides it.\<close>

record routing_metadata =
  rm_channel :: "string option"
  rm_to :: "string option"
  rm_accountId :: "string option"
  rm_threadId :: "thread_value option"

definition textField :: "string option \<Rightarrow> string option \<Rightarrow> string option" where
  "textField known v = (if known = None \<and> v \<noteq> None \<and> v \<noteq> Some [] then v else known)"

definition threadField :: "thread_value option \<Rightarrow> thread_value option \<Rightarrow> thread_value option" where
  "threadField known v = (if known = None \<and> \<not> threadBlank v then v else known)"

definition resolveOriginRoutingMetadata :: "followup_run list \<Rightarrow> routing_metadata" where
  "resolveOriginRoutingMetadata items =
     foldl (\<lambda>md item. \<lparr>rm_channel = textField (rm_channel md) (fu_channel item),
                       rm_to = textField (rm_to md) (fu_to item),
                       rm_accountId = textField (rm_accountId md) (fu_accountId item),
                       rm_threadId = threadField (rm_threadId md) (fu_threadId item)\<rparr>)
       \<lparr>rm_channel = None, rm_to = None, rm_accountId = None, rm_threadId = None\<rparr> items"

definition renderCollectItem :: "followup_run \<Rightarrow> nat \<Rightarrow> string" where
  "renderCollectItem item idx =
     (let r = fu_run item;
          senderLabel = (case rc_senderName r of Some s \<Rightarrow> Some s | None \<Rightarrow>
                         (case rc_senderUsername r of Some s \<Rightarrow> Some s | None \<Rightarrow>
                         (case rc_senderId r of Some s \<Rightarrow> Some s | None \<Rightarrow> rc_senderE164 r)));
          senderSuffix = (if orEmpty senderLabel = [] then [] else queueText 5 @ orEmpty senderLabel @ '')'')
      in js_trim (''---'' @ newline @ queueText 4 @ js_show_nat (idx + 1) @ senderSuffix @ newline @ fu_prompt item))"

definition collectQueuedImages :: "followup_run list \<Rightarrow> string list option \<times> string list option" where
  "collectQueuedImages items =
     (let images = concat (map (\<lambda>i. case fu_images i of None \<Rightarrow> [] | Some x \<Rightarrow> x) items);
          imageOrder = concat (map (\<lambda>i. case fu_imageOrder i of None \<Rightarrow> [] | Some x \<Rightarrow> x) items)
      in (if images = [] then None else Some images, if imageOrder = [] then None else Some imageOrder))"

section \<open>The registry of queues and their drains\<close>

text \<open>Where a drain is suspended: in the debounce wait, whose length was read at its start, or awaiting a
  run, with what it does next.\<close>

datatype drain_pc =
  PcDebounce
| PcItem
| PcSummaryOnly
| PcGroups nat "followup_run list list" bool
| PcSummaryItem

record drain =
  dr_key :: string
  dr_callback :: nat
  dr_force :: bool
  dr_pc :: drain_pc
  dr_debounce :: jsnum
  dr_covers :: "followup_run list"

record followup_state =
  fs_queues :: "(nat, followup_queue) jsmap"
  fs_map :: "(string, nat) jsmap"
  fs_nextQueue :: nat
  fs_recent :: dedupe_cache
  fs_callbacks :: "(string, nat) jsmap"
  fs_drains :: "(nat, drain) jsmap"
  fs_runs :: "(nat \<times> nat \<times> followup_run) list"

definition newFollowupState :: followup_state where
  "newFollowupState = \<lparr>fs_queues = [], fs_map = [], fs_nextQueue = 0,
     fs_recent = createDedupeCache (5 * 60 * 1000) 10000, fs_callbacks = [], fs_drains = [], fs_runs = []\<rparr>"

definition putQueue :: "nat \<Rightarrow> followup_queue \<Rightarrow> followup_state \<Rightarrow> followup_state" where
  "putQueue i q S = S\<lparr>fs_queues := jm_set i q (fs_queues S)\<rparr>"

definition putDrain :: "nat \<Rightarrow> drain \<Rightarrow> followup_state \<Rightarrow> followup_state" where
  "putDrain i d S = S\<lparr>fs_drains := jm_set i d (fs_drains S)\<rparr>"

definition getExistingFollowupQueue :: "string \<Rightarrow> followup_state \<Rightarrow> nat option" where
  "getExistingFollowupQueue key S =
     (let cleaned = js_trim key in if cleaned = [] then None else jm_get (fs_map S) cleaned)"

definition createdQueue :: "queue_settings \<Rightarrow> followup_queue" where
  "createdQueue s = applyQueueRuntimeSettings
     \<lparr>fq_items = [], fq_draining = False, fq_lastEnqueuedAt = 0, fq_mode = qs_mode s,
      fq_debounceMs = (case qs_debounceMs s of None \<Rightarrow> Fin 500 | Some d \<Rightarrow> jn_max (Fin 0) d),
      fq_cap = (case qs_cap s of None \<Rightarrow> Fin 20
                | Some c \<Rightarrow> if jn_less (Fin 0) c then jn_floor c else Fin 20),
      fq_dropPolicy = (case qs_dropPolicy s of None \<Rightarrow> DropSummarize | Some p \<Rightarrow> p),
      fq_droppedCount = 0, fq_summaryLines = [], fq_lastRun = None,
      fq_accepted = [], fq_completed = [], fq_covered = []\<rparr> s"

definition getFollowupQueue :: "string \<Rightarrow> queue_settings \<Rightarrow> followup_state \<Rightarrow> nat \<times> followup_state" where
  "getFollowupQueue key s S =
     (case jm_get (fs_map S) key of
        Some i \<Rightarrow>
          (case jm_get (fs_queues S) i of
             Some q \<Rightarrow> (i, putQueue i (applyQueueRuntimeSettings q s) S)
           | None \<Rightarrow> (i, S))
      | None \<Rightarrow>
          (let i = fs_nextQueue S
           in (i, putQueue i (createdQueue s)
                 (S\<lparr>fs_nextQueue := Suc i, fs_map := jm_set key i (fs_map S)\<rparr>))))"

definition clearedQueue :: "followup_queue \<Rightarrow> followup_queue" where
  "clearedQueue q = q\<lparr>fq_items := [], fq_droppedCount := 0, fq_summaryLines := [], fq_lastRun := None,
     fq_lastEnqueuedAt := 0\<rparr>"

definition clearFollowupQueue :: "string \<Rightarrow> followup_state \<Rightarrow> nat \<times> followup_state" where
  "clearFollowupQueue key S =
     (let cleaned = js_trim key
      in case getExistingFollowupQueue cleaned S of
           None \<Rightarrow> (0, S)
         | Some i \<Rightarrow>
             (case jm_get (fs_queues S) i of
                None \<Rightarrow> (0, S)
              | Some q \<Rightarrow> (length (fq_items q) + fq_droppedCount q,
                   (putQueue i (clearedQueue q) S)\<lparr>fs_map := jm_delete cleaned (fs_map S)\<rparr>)))"

section \<open>Draining\<close>

definition rememberFollowupDrainCallback :: "string \<Rightarrow> nat \<Rightarrow> followup_state \<Rightarrow> followup_state" where
  "rememberFollowupDrainCallback key cb S = S\<lparr>fs_callbacks := jm_set key cb (fs_callbacks S)\<rparr>"

definition clearFollowupDrainCallback :: "string \<Rightarrow> followup_state \<Rightarrow> followup_state" where
  "clearFollowupDrainCallback key S = S\<lparr>fs_callbacks := jm_delete key (fs_callbacks S)\<rparr>"

definition hasWork :: "followup_queue \<Rightarrow> bool" where
  "hasWork q \<longleftrightarrow> fq_items q \<noteq> [] \<or> fq_droppedCount q > 0"

text \<open>The drain ends on an empty queue: remove the map entry if it still points to this object.\<close>

definition drainExitEmpty :: "string \<Rightarrow> nat \<Rightarrow> followup_state \<Rightarrow> followup_state" where
  "drainExitEmpty key i S =
     (let S = S\<lparr>fs_drains := jm_delete i (fs_drains S)\<rparr>
      in if jm_get (fs_map S) key = Some i
         then clearFollowupDrainCallback key (S\<lparr>fs_map := jm_delete key (fs_map S)\<rparr>) else S)"

text \<open>\<open>beginQueueDrain\<close>: the queue of the key, marked as draining, unless it is being drained.\<close>

definition beginQueueDrain :: "string \<Rightarrow> followup_state \<Rightarrow> (nat \<times> followup_queue) option" where
  "beginQueueDrain key S =
     (case jm_get (fs_map S) key of
        None \<Rightarrow> None
      | Some i \<Rightarrow>
          (case jm_get (fs_queues S) i of
             None \<Rightarrow> None
           | Some q \<Rightarrow> if fq_draining q then None else Some (i, q\<lparr>fq_draining := True\<rparr>)))"

text \<open>The synchronous part of \<open>scheduleFollowupDrain\<close>: up to the first await, or, without work, its end.\<close>

definition scheduleFollowupDrain :: "string \<Rightarrow> nat \<Rightarrow> followup_state \<Rightarrow> followup_state" where
  "scheduleFollowupDrain key cb S =
     (case beginQueueDrain key S of
        None \<Rightarrow> S
      | Some (i, q) \<Rightarrow>
          (let effective = (case jm_get (fs_callbacks S) key of Some c \<Rightarrow> c | None \<Rightarrow> cb);
               S = rememberFollowupDrainCallback key effective S
           in if hasWork q
              then putDrain i \<lparr>dr_key = key, dr_callback = effective, dr_force = False, dr_pc = PcDebounce,
                          dr_debounce = jn_max (Fin 0) (fq_debounceMs q), dr_covers = []\<rparr>
                     (putQueue i q S)
              else drainExitEmpty key i (putQueue i (q\<lparr>fq_draining := False\<rparr>) S)))"

definition kickFollowupDrainIfIdle :: "string \<Rightarrow> followup_state \<Rightarrow> followup_state" where
  "kickFollowupDrainIfIdle key S =
     (case jm_get (fs_callbacks S) key of None \<Rightarrow> S | Some cb \<Rightarrow> scheduleFollowupDrain key cb S)"

text \<open>The \<open>finally\<close> block.\<close>

definition drainFinish :: "nat \<Rightarrow> drain \<Rightarrow> followup_queue \<Rightarrow> followup_state \<Rightarrow> followup_state" where
  "drainFinish i d q S =
     (let S = putQueue i (q\<lparr>fq_draining := False\<rparr>) S
      in if \<not> hasWork q then drainExitEmpty (dr_key d) i S
         else scheduleFollowupDrain (dr_key d) (dr_callback d) (S\<lparr>fs_drains := jm_delete i (fs_drains S)\<rparr>))"

text \<open>The head of the loop: wait for the debounce if there is work, else finish.\<close>

definition drainLoopHead :: "nat \<Rightarrow> drain \<Rightarrow> followup_queue \<Rightarrow> followup_state \<Rightarrow> followup_state" where
  "drainLoopHead i d q S =
     (if hasWork q then putDrain i (d\<lparr>dr_pc := PcDebounce, dr_debounce := jn_max (Fin 0) (fq_debounceMs q), dr_covers := []\<rparr>)
                           (putQueue i q S) else drainFinish i d q S)"

text \<open>Start a run and suspend.\<close>

definition startRun ::
  "nat \<Rightarrow> drain \<Rightarrow> followup_queue \<Rightarrow> followup_run \<Rightarrow> followup_run list \<Rightarrow> drain_pc \<Rightarrow> followup_state \<Rightarrow>
   followup_state" where
  "startRun i d q r covers pc S =
     putDrain i (d\<lparr>dr_pc := pc, dr_covers := covers\<rparr>)
       (putQueue i q (S\<lparr>fs_runs := fs_runs S @ [(i, dr_callback d, r)]\<rparr>))"

definition summaryRun :: "int \<Rightarrow> string \<Rightarrow> run_config \<Rightarrow> followup_run" where
  "summaryRun now prompt r = \<lparr>fu_prompt = prompt, fu_messageId = None, fu_summaryLine = None,
     fu_enqueuedAt = now, fu_images = None, fu_imageOrder = None, fu_channel = None, fu_to = None,
     fu_accountId = None, fu_threadId = None, fu_run = r\<rparr>"

definition groupRun :: "int \<Rightarrow> string option \<Rightarrow> followup_run list \<Rightarrow> followup_run" where
  "groupRun now summary groupItems =
     (let routing = resolveOriginRoutingMetadata groupItems;
          images = collectQueuedImages groupItems
      in (summaryRun now (buildCollectPrompt (queueText 3) groupItems summary renderCollectItem)
            (fu_run (last groupItems)))
         \<lparr>fu_channel := rm_channel routing, fu_to := rm_to routing, fu_accountId := rm_accountId routing,
          fu_threadId := rm_threadId routing, fu_images := fst images, fu_imageOrder := snd images\<rparr>)"

definition itemSummaryRun :: "int \<Rightarrow> string \<Rightarrow> run_config \<Rightarrow> followup_run \<Rightarrow> followup_run" where
  "itemSummaryRun now prompt r item =
     (let images = collectQueuedImages [item]
      in (summaryRun now prompt r)\<lparr>fu_channel := fu_channel item, fu_to := fu_to item,
           fu_accountId := fu_accountId item, fu_threadId := fu_threadId item,
           fu_images := fst images, fu_imageOrder := snd images\<rparr>)"

text \<open>A summary without items, in collect mode; without a summary or a last run the loop breaks.\<close>

definition drainSummaryOnly :: "int \<Rightarrow> nat \<Rightarrow> drain \<Rightarrow> followup_queue \<Rightarrow> followup_state \<Rightarrow> followup_state" where
  "drainSummaryOnly now i d q S =
     (case (previewQueueSummaryPrompt ''message'' None q, fq_lastRun q) of
        (Some prompt, Some r) \<Rightarrow> startRun i d q (summaryRun now prompt r) [] PcSummaryOnly S
      | _ \<Rightarrow> drainFinish i d q S)"

text \<open>One turn of the loop in collect mode.\<close>

definition drainCollect ::
  "(string \<Rightarrow> bool) \<Rightarrow> int \<Rightarrow> nat \<Rightarrow> drain \<Rightarrow> followup_queue \<Rightarrow> followup_state \<Rightarrow> followup_state" where
  "drainCollect registered now i d q S =
     (let isCross = hasCrossChannelItems (resolveCrossChannelKey registered) (fq_items q)
      in if dr_force d \<or> isCross then
           (let d = d\<lparr>dr_force := dr_force d \<or> isCross\<rparr>
            in case fq_items q of
                 [] \<Rightarrow> drainSummaryOnly now i d q S
               | item # _ \<Rightarrow> startRun i d q item [item] PcItem S)
         else
           (case splitCollectItemsByAuthorization (fq_items q) of
              [] \<Rightarrow> drainSummaryOnly now i d q S
            | g # gs \<Rightarrow>
                (let summary = previewQueueSummaryPrompt ''message'' None q
                 in startRun i d q (groupRun now summary g) g
                      (PcGroups (length g) gs (summary \<noteq> None)) S)))"

text \<open>One turn in the other modes.\<close>

definition drainEach :: "int \<Rightarrow> nat \<Rightarrow> drain \<Rightarrow> followup_queue \<Rightarrow> followup_state \<Rightarrow> followup_state" where
  "drainEach now i d q S =
     (case previewQueueSummaryPrompt ''message'' None q of
        Some prompt \<Rightarrow>
          (case (fq_lastRun q, fq_items q) of
             (Some r, item # _) \<Rightarrow> startRun i d q (itemSummaryRun now prompt r item) [] PcSummaryItem S
           | _ \<Rightarrow> drainFinish i d q S)
      | None \<Rightarrow>
          (case fq_items q of
             item # _ \<Rightarrow> startRun i d q item [item] PcItem S
           | [] \<Rightarrow> drainFinish i d q S))"

text \<open>The debounce timer checks the time: go on, or wait again.\<close>

definition drainWake :: "(string \<Rightarrow> bool) \<Rightarrow> int \<Rightarrow> nat \<Rightarrow> followup_state \<Rightarrow> followup_state" where
  "drainWake registered now i S =
     (case (jm_get (fs_drains S) i, jm_get (fs_queues S) i) of
        (Some d, Some q) \<Rightarrow>
          if dr_pc d \<noteq> PcDebounce then S
          else if \<not> jn_le (dr_debounce d) (Fin 0) \<and>
                  \<not> jn_le (dr_debounce d) (jn_of_int (now - fq_lastEnqueuedAt q)) then S
          else if fq_mode q = ModeCollect then drainCollect registered now i d q S
          else drainEach now i d q S
      | _ \<Rightarrow> S)"

text \<open>\<open>items.shift()\<close> and \<open>items.splice(0, n)\<close> after a run; the ghost records what was taken off.\<close>

definition takeDone :: "nat \<Rightarrow> followup_run list \<Rightarrow> followup_queue \<Rightarrow> followup_queue" where
  "takeDone n covers q =
     q\<lparr>fq_items := drop n (fq_items q), fq_completed := fq_completed q @ take n (fq_items q),
       fq_covered := fq_covered q @ covers\<rparr>"

text \<open>The awaited run settles: go on with the loop, or, after a failure, finish.\<close>

definition drainSettle :: "int \<Rightarrow> bool \<Rightarrow> nat \<Rightarrow> followup_state \<Rightarrow> followup_state" where
  "drainSettle now succeeded i S =
     (case (jm_get (fs_drains S) i, jm_get (fs_queues S) i) of
        (Some d, Some q) \<Rightarrow>
          if dr_pc d = PcDebounce then S
          else if \<not> succeeded then drainFinish i d (q\<lparr>fq_lastEnqueuedAt := now\<rparr>) S
          else (case dr_pc d of
             PcDebounce \<Rightarrow> S
           | PcItem \<Rightarrow> drainLoopHead i d (takeDone 1 (dr_covers d) q) S
           | PcSummaryOnly \<Rightarrow> drainLoopHead i d (clearQueueSummaryState q) S
           | PcSummaryItem \<Rightarrow> drainLoopHead i d (clearQueueSummaryState (takeDone 1 (dr_covers d) q)) S
           | PcGroups n gs pending \<Rightarrow>
               (let q = (if pending then clearQueueSummaryState (takeDone n (dr_covers d) q)
                       else takeDone n (dr_covers d) q)
                in case gs of
                     [] \<Rightarrow> drainLoopHead i d q S
                   | g # gs \<Rightarrow> startRun i d q (groupRun now None g) g (PcGroups (length g) gs False) S))
      | _ \<Rightarrow> S)"

section \<open>Enqueueing, refreshing and clearing\<close>

definition dedupeOf :: "queue_dedupe_mode \<Rightarrow> (followup_run \<Rightarrow> followup_run list \<Rightarrow> bool) option" where
  "dedupeOf mode = (if mode = DedupeNone then None else Some (isRunAlreadyQueued (mode = DedupePrompt)))"

definition summarizeRun :: "followup_run \<Rightarrow> string" where
  "summarizeRun item =
     (case normalizeOptionalString (fu_summaryLine item) of Some s \<Rightarrow> s | None \<Rightarrow> js_trim (fu_prompt item))"

text \<open>The last steps of an enqueue: store the item, mark its message as seen, restart an idle drain.\<close>

definition acceptRun ::
  "string \<Rightarrow> followup_run \<Rightarrow> string option \<Rightarrow> nat option \<Rightarrow> bool \<Rightarrow> int \<Rightarrow> nat \<Rightarrow> followup_queue \<Rightarrow>
   followup_state \<Rightarrow> followup_state" where
  "acceptRun key r recentKey cb restartIfIdle now i q S =
     (let S = putQueue i (q\<lparr>fq_items := fq_items q @ [r], fq_accepted := fq_accepted q @ [r]\<rparr>) S;
          S = (if recentKey = None then S else S\<lparr>fs_recent := snd (dedupeCheck recentKey now (fs_recent S))\<rparr>);
          S = (case cb of None \<Rightarrow> S | Some c \<Rightarrow> rememberFollowupDrainCallback key c S)
      in if restartIfIdle \<and> \<not> fq_draining q then kickFollowupDrainIfIdle key S else S)"

definition enqueueFollowupRun ::
  "string \<Rightarrow> followup_run \<Rightarrow> queue_settings \<Rightarrow> queue_dedupe_mode \<Rightarrow> nat option \<Rightarrow> bool \<Rightarrow> int \<Rightarrow>
   followup_state \<Rightarrow> bool \<times> followup_state" where
  "enqueueFollowupRun key r settings mode cb restartIfIdle now S =
     (let (i, S) = getFollowupQueue key settings S;
          recentKey = (if mode \<noteq> DedupeNone then buildRecentMessageIdKey r key else None);
          (recent, cache) = dedupePeek recentKey now (fs_recent S);
          S = (if recentKey = None then S else S\<lparr>fs_recent := cache\<rparr>)
      in if recentKey \<noteq> None \<and> recent then (False, S)
         else
           (case jm_get (fs_queues S) i of
              None \<Rightarrow> (False, S)
            | Some q \<Rightarrow>
                if shouldSkipQueueItem (dedupeOf mode) r (fq_items q) then (False, S)
                else
                  (case applyQueueDropPolicy summarizeRun
                          (q\<lparr>fq_lastEnqueuedAt := now, fq_lastRun := Some (fu_run r)\<rparr>) of
                     (False, q) \<Rightarrow> (False, putQueue i q S)
                   | (True, q) \<Rightarrow> (True, acceptRun key r recentKey cb restartIfIdle now i q S))))"

definition getFollowupQueueDepth :: "string \<Rightarrow> followup_state \<Rightarrow> nat" where
  "getFollowupQueueDepth key S =
     (case getExistingFollowupQueue key S of
        None \<Rightarrow> 0
      | Some i \<Rightarrow> (case jm_get (fs_queues S) i of None \<Rightarrow> 0 | Some q \<Rightarrow> length (fq_items q)))"

definition resetRecentQueuedMessageIdDedupe :: "followup_state \<Rightarrow> followup_state" where
  "resetRecentQueuedMessageIdDedupe S = S\<lparr>fs_recent := dedupeClear (fs_recent S)\<rparr>"

text \<open>New session or model settings for queued runs.  For the three own properties that may be present
  and undefined the outer option says whether the property is there.\<close>

record session_refresh =
  sr_previousSessionId :: "string option"
  sr_nextSessionId :: "string option"
  sr_nextSessionFile :: "string option"
  sr_nextProvider :: "string option"
  sr_nextModel :: "string option"
  sr_nextModelOverrideSource :: "string option option"
  sr_nextAuthProfileId :: "string option option"
  sr_nextAuthProfileIdSource :: "string option option"

definition shouldRewriteSession :: "session_refresh \<Rightarrow> bool" where
  "shouldRewriteSession p \<longleftrightarrow> orEmpty (sr_previousSessionId p) \<noteq> [] \<and> orEmpty (sr_nextSessionId p) \<noteq> [] \<and>
     sr_previousSessionId p \<noteq> sr_nextSessionId p"

definition shouldRewriteSelection :: "session_refresh \<Rightarrow> bool" where
  "shouldRewriteSelection p \<longleftrightarrow> sr_nextProvider p \<noteq> None \<or> sr_nextModel p \<noteq> None \<or>
     sr_nextModelOverrideSource p \<noteq> None \<or> sr_nextAuthProfileId p \<noteq> None \<or> sr_nextAuthProfileIdSource p \<noteq> None"

definition rewriteSession :: "session_refresh \<Rightarrow> run_config \<Rightarrow> run_config" where
  "rewriteSession p r =
     (if shouldRewriteSession p \<and> Some (rc_sessionId r) = sr_previousSessionId p
      then r\<lparr>rc_sessionId := orEmpty (sr_nextSessionId p),
             rc_sessionFile := (case normalizeOptionalString (sr_nextSessionFile p) of
                                  None \<Rightarrow> rc_sessionFile r | Some f \<Rightarrow> f)\<rparr>
      else r)"

definition rewriteModel :: "session_refresh \<Rightarrow> run_config \<Rightarrow> run_config" where
  "rewriteModel p r =
     (let r = (case sr_nextProvider p of None \<Rightarrow> r | Some v \<Rightarrow> r\<lparr>rc_provider := v\<rparr>);
          r = (case sr_nextModel p of None \<Rightarrow> r | Some v \<Rightarrow> r\<lparr>rc_model := v\<rparr>)
      in case sr_nextModelOverrideSource p of
           None \<Rightarrow> r
         | Some src \<Rightarrow> r\<lparr>rc_hasSessionModelOverride := Some (rc_provider r \<noteq> [] \<or> rc_model r \<noteq> []),
                        rc_modelOverrideSource := src\<rparr>)"

definition rewriteAuthProfile :: "session_refresh \<Rightarrow> run_config \<Rightarrow> run_config" where
  "rewriteAuthProfile p r =
     (let r = (case sr_nextAuthProfileId p of None \<Rightarrow> r
               | Some v \<Rightarrow> r\<lparr>rc_authProfileId := normalizeOptionalString v\<rparr>)
      in case sr_nextAuthProfileIdSource p of
           None \<Rightarrow> r
         | Some src \<Rightarrow> r\<lparr>rc_authProfileIdSource :=
                          (if orEmpty (rc_authProfileId r) \<noteq> [] then src else None)\<rparr>)"

definition rewriteRun :: "session_refresh \<Rightarrow> run_config \<Rightarrow> run_config" where
  "rewriteRun p r =
     (let r = rewriteSession p r
      in if shouldRewriteSelection p then rewriteAuthProfile p (rewriteModel p r) else r)"

definition refreshQueuedFollowupSession ::
  "string \<Rightarrow> session_refresh \<Rightarrow> followup_state \<Rightarrow> followup_state" where
  "refreshQueuedFollowupSession key p S =
     (case getExistingFollowupQueue key S of
        None \<Rightarrow> S
      | Some i \<Rightarrow>
          (case jm_get (fs_queues S) i of
             None \<Rightarrow> S
           | Some q \<Rightarrow>
               if \<not> shouldRewriteSession p \<and> \<not> shouldRewriteSelection p then S
               else putQueue i
                 (q\<lparr>fq_lastRun := map_option (rewriteRun p) (fq_lastRun q),
                    fq_items := map (\<lambda>it. it\<lparr>fu_run := rewriteRun p (fu_run it)\<rparr>) (fq_items q)\<rparr>) S))"

text \<open>\<open>clearSessionQueues\<close>; the lanes belong to the command queue, \<open>clearLane\<close> clears the lane of a session
  key and counts what it removed.\<close>

fun clearSessionLoop ::
  "(string \<Rightarrow> 'l \<Rightarrow> nat \<times> 'l) \<Rightarrow> string option list \<Rightarrow> string list \<Rightarrow> nat \<Rightarrow> nat \<Rightarrow> followup_state \<Rightarrow> 'l \<Rightarrow>
   (nat \<times> nat \<times> string list) \<times> followup_state \<times> 'l" where
  "clearSessionLoop clearLane [] keys followups lanes S L = ((followups, lanes, keys), S, L)"
| "clearSessionLoop clearLane (key # rest) keys followups lanes S L =
     (case normalizeOptionalString key of
        None \<Rightarrow> clearSessionLoop clearLane rest keys followups lanes S L
      | Some cleaned \<Rightarrow>
          if cleaned \<in> set keys then clearSessionLoop clearLane rest keys followups lanes S L
          else
            (let (n, S) = clearFollowupQueue cleaned S;
                 S = clearFollowupDrainCallback cleaned S;
                 (k, L) = clearLane cleaned L
             in clearSessionLoop clearLane rest (keys @ [cleaned]) (followups + n) (lanes + k) S L))"

definition clearSessionQueues ::
  "(string \<Rightarrow> 'l \<Rightarrow> nat \<times> 'l) \<Rightarrow> string option list \<Rightarrow> followup_state \<Rightarrow> 'l \<Rightarrow>
   (nat \<times> nat \<times> string list) \<times> followup_state \<times> 'l" where
  "clearSessionQueues clearLane keys S L = clearSessionLoop clearLane keys [] 0 0 S L"

section \<open>Events\<close>

datatype followup_event =
  EvEnqueue string followup_run queue_settings queue_dedupe_mode "nat option" bool int
| EvClear string
| EvSchedule string nat
| EvWake nat int
| EvSettle nat bool int

fun followupStep :: "(string \<Rightarrow> bool) \<Rightarrow> followup_state \<Rightarrow> followup_event \<Rightarrow> followup_state" where
  "followupStep registered S (EvEnqueue key r settings mode cb restart now) =
     snd (enqueueFollowupRun key r settings mode cb restart now S)"
| "followupStep registered S (EvClear key) = clearFollowupDrainCallback key (snd (clearFollowupQueue key S))"
| "followupStep registered S (EvSchedule key cb) = scheduleFollowupDrain key cb S"
| "followupStep registered S (EvWake i now) = drainWake registered now i S"
| "followupStep registered S (EvSettle i succeeded now) = drainSettle now succeeded i S"

definition followupRun :: "(string \<Rightarrow> bool) \<Rightarrow> followup_event list \<Rightarrow> followup_state" where
  "followupRun registered = foldl (followupStep registered) newFollowupState"

end
