(* ===== verification/FollowupOrder.thy ===== *)
theory FollowupOrder
  imports FollowupQueue "HOL-Library.Sublist"
begin

text \<open>
  Order of delivery in the followup queues.  The invariant \<open>fifo_inv\<close> relates the items of every queue
  object, and the drain working on it, to the ghosts: what an object accepted is what its successful runs
  covered followed by what it still holds.  It needs a policy that drops no queued item; the last section
  shows what happens otherwise.
\<close>

section \<open>Views of the state\<close>

abbreviation queueAt :: "followup_state \<Rightarrow> nat \<Rightarrow> followup_queue option" where
  "queueAt S i \<equiv> jm_get (fs_queues S) i"

abbreviation drainAt :: "followup_state \<Rightarrow> nat \<Rightarrow> drain option" where
  "drainAt S i \<equiv> jm_get (fs_drains S) i"

definition mapped :: "followup_state \<Rightarrow> nat \<Rightarrow> bool" where
  "mapped S i \<longleftrightarrow> i \<in> ran (jm_get (fs_map S))"

lemma mappedI: "jm_get (fs_map S) k = Some i \<Longrightarrow> mapped S i"
  by (auto simp: mapped_def ran_def)

lemma putQueue_view [simp]:
  "queueAt (putQueue i q S) j = (if j = i then Some q else queueAt S j)"
  "drainAt (putQueue i q S) j = drainAt S j" "fs_map (putQueue i q S) = fs_map S"
  "fs_nextQueue (putQueue i q S) = fs_nextQueue S" "fs_callbacks (putQueue i q S) = fs_callbacks S"
  "fs_recent (putQueue i q S) = fs_recent S" "fs_runs (putQueue i q S) = fs_runs S"
  by (auto simp: putQueue_def jm_get_set)

lemma putDrain_view [simp]:
  "queueAt (putDrain i d S) j = queueAt S j"
  "drainAt (putDrain i d S) j = (if j = i then Some d else drainAt S j)" "fs_map (putDrain i d S) = fs_map S"
  "fs_nextQueue (putDrain i d S) = fs_nextQueue S" "fs_callbacks (putDrain i d S) = fs_callbacks S"
  "fs_recent (putDrain i d S) = fs_recent S" "fs_runs (putDrain i d S) = fs_runs S"
  by (auto simp: putDrain_def jm_get_set)

lemma callback_view [simp]:
  "fs_queues (rememberFollowupDrainCallback k cb S) = fs_queues S"
  "fs_drains (rememberFollowupDrainCallback k cb S) = fs_drains S"
  "fs_map (rememberFollowupDrainCallback k cb S) = fs_map S"
  "fs_nextQueue (rememberFollowupDrainCallback k cb S) = fs_nextQueue S"
  "fs_queues (clearFollowupDrainCallback k S) = fs_queues S"
  "fs_drains (clearFollowupDrainCallback k S) = fs_drains S"
  "fs_map (clearFollowupDrainCallback k S) = fs_map S"
  "fs_nextQueue (clearFollowupDrainCallback k S) = fs_nextQueue S"
  by (auto simp: rememberFollowupDrainCallback_def clearFollowupDrainCallback_def)

lemma mapped_cong: "fs_map S = fs_map T \<Longrightarrow> mapped S = mapped T"
  by (simp add: mapped_def fun_eq_iff)

lemma mapped_view [simp]:
  "mapped (putQueue i q S) = mapped S" "mapped (putDrain i d S) = mapped S"
  "mapped (rememberFollowupDrainCallback k cb S) = mapped S" "mapped (clearFollowupDrainCallback k S) = mapped S"
  "mapped (S\<lparr>fs_drains := ds\<rparr>) = mapped S" "mapped (S\<lparr>fs_runs := rs\<rparr>) = mapped S"
  "mapped (S\<lparr>fs_recent := c\<rparr>) = mapped S"
  by (rule mapped_cong; simp)+

section \<open>The invariant\<close>

text \<open>The items still ahead of a drain: those of the current run and of the groups after it.\<close>

definition drain_ok :: "followup_queue \<Rightarrow> drain \<Rightarrow> bool" where
  "drain_ok q d \<longleftrightarrow> (case dr_pc d of
     PcDebounce \<Rightarrow> True
   | PcItem \<Rightarrow> length (dr_covers d) = 1 \<and> prefix (fq_covered q @ dr_covers d) (fq_accepted q)
   | PcGroups n gs pending \<Rightarrow> n = length (dr_covers d) \<and> \<not> pending \<and> [] \<notin> set (dr_covers d # gs) \<and>
       prefix (fq_covered q @ dr_covers d @ concat gs) (fq_accepted q)
   | _ \<Rightarrow> False)"

definition queue_ok :: "bool \<Rightarrow> followup_queue \<Rightarrow> bool" where
  "queue_ok m q \<longleftrightarrow> fq_dropPolicy q = DropNew \<and> fq_droppedCount q = 0 \<and>
     (if m then fq_accepted q = fq_covered q @ fq_items q
      else fq_items q = [] \<and> prefix (fq_covered q) (fq_accepted q))"

definition entry_ok :: "followup_state \<Rightarrow> nat \<Rightarrow> followup_queue \<Rightarrow> bool" where
  "entry_ok S i q \<longleftrightarrow> i < fs_nextQueue S \<and> queue_ok (mapped S i) q \<and>
     (\<forall>d. drainAt S i = Some d \<longrightarrow> drain_ok q d)"

definition map_ok :: "followup_state \<Rightarrow> bool" where
  "map_ok S \<longleftrightarrow> inj_on (jm_get (fs_map S)) (dom (jm_get (fs_map S))) \<and>
     (\<forall>i \<in> ran (jm_get (fs_map S)). queueAt S i \<noteq> None)"

definition drains_ok :: "nat set \<Rightarrow> followup_state \<Rightarrow> bool" where
  "drains_ok X S \<longleftrightarrow> (\<forall>j. j \<notin> X \<longrightarrow> queueAt S j = None \<longrightarrow> drainAt S j = None)"

text \<open>Everything but object \<open>i\<close> is in order.\<close>

definition others_ok :: "nat \<Rightarrow> followup_state \<Rightarrow> bool" where
  "others_ok i S \<longleftrightarrow> map_ok S \<and> drains_ok {i} S \<and> queueAt S i \<noteq> None \<and> i < fs_nextQueue S \<and>
     (\<forall>j q. j \<noteq> i \<longrightarrow> queueAt S j = Some q \<longrightarrow> entry_ok S j q)"

definition fifo_inv :: "followup_state \<Rightarrow> bool" where
  "fifo_inv S \<longleftrightarrow> map_ok S \<and> drains_ok {} S \<and> (\<forall>j q. queueAt S j = Some q \<longrightarrow> entry_ok S j q)"

lemma fifo_others: "fifo_inv S \<Longrightarrow> queueAt S i = Some q \<Longrightarrow> others_ok i S"
  by (simp add: fifo_inv_def others_ok_def entry_ok_def drains_ok_def)

lemma fifo_entry: "fifo_inv S \<Longrightarrow> queueAt S i = Some q \<Longrightarrow> entry_ok S i q"
  by (simp add: fifo_inv_def)

lemma others_fifo: "others_ok i S \<Longrightarrow> queueAt S i = Some q \<Longrightarrow> entry_ok S i q \<Longrightarrow> fifo_inv S"
  unfolding fifo_inv_def others_ok_def drains_ok_def
  by (metis (no_types, lifting) option.distinct(1) option.inject singletonD)

lemma map_ok_put [simp]: "queueAt S i \<noteq> None \<Longrightarrow> map_ok (putQueue i q S) = map_ok S"
  by (auto simp: map_ok_def)

lemma map_ok_view:
  "map_ok (putDrain i d S) = map_ok S" "map_ok (S\<lparr>fs_drains := ds\<rparr>) = map_ok S"
  "map_ok (S\<lparr>fs_runs := rs\<rparr>) = map_ok S" "map_ok (S\<lparr>fs_recent := c\<rparr>) = map_ok S"
  "map_ok (rememberFollowupDrainCallback k cb S) = map_ok S" "map_ok (clearFollowupDrainCallback k S) = map_ok S"
  by (auto simp: map_ok_def)

lemma others_put [simp]: "queueAt S i \<noteq> None \<Longrightarrow> others_ok i (putQueue i q S) = others_ok i S"
  by (auto simp: others_ok_def entry_ok_def drains_ok_def)

lemma others_view [simp]:
  "others_ok i (putDrain i d S) = others_ok i S" "others_ok i (S\<lparr>fs_drains := jm_delete i ds\<rparr>) = others_ok i (S\<lparr>fs_drains := ds\<rparr>)"
  "others_ok i (S\<lparr>fs_runs := rs\<rparr>) = others_ok i S" "others_ok i (S\<lparr>fs_recent := c\<rparr>) = others_ok i S"
  "others_ok i (rememberFollowupDrainCallback k cb S) = others_ok i S"
  "others_ok i (clearFollowupDrainCallback k S) = others_ok i S"
  by (auto simp: others_ok_def entry_ok_def map_ok_view drains_ok_def jm_get_delete split: if_splits)

lemma fifo_view [simp]:
  "fifo_inv (S\<lparr>fs_recent := c\<rparr>) = fifo_inv S" "fifo_inv (rememberFollowupDrainCallback k cb S) = fifo_inv S"
  "fifo_inv (clearFollowupDrainCallback k S) = fifo_inv S" "fifo_inv (S\<lparr>fs_runs := rs\<rparr>) = fifo_inv S"
  by (auto simp: fifo_inv_def entry_ok_def map_ok_view drains_ok_def)

section \<open>Preservation\<close>

lemma queue_ok_draining [simp]: "queue_ok m (q\<lparr>fq_draining := b\<rparr>) = queue_ok m q"
  "drain_ok (q\<lparr>fq_draining := b\<rparr>) d = drain_ok q d"
  "queue_ok m (q\<lparr>fq_lastEnqueuedAt := t\<rparr>) = queue_ok m q"
  "drain_ok (q\<lparr>fq_lastEnqueuedAt := t\<rparr>) d = drain_ok q d"
  "queue_ok m (q\<lparr>fq_lastRun := r\<rparr>) = queue_ok m q"
  "drain_ok (q\<lparr>fq_lastRun := r\<rparr>) d = drain_ok q d"
  by (simp_all add: queue_ok_def drain_ok_def cong: drain_pc.case_cong)

lemma hasWork_ok: "queue_ok m q \<Longrightarrow> hasWork q \<longleftrightarrow> fq_items q \<noteq> []"
  by (simp add: queue_ok_def hasWork_def)

lemma others_next: "others_ok i S \<Longrightarrow> i < fs_nextQueue S" "others_ok i S \<Longrightarrow> \<exists>q. queueAt S i = Some q"
  "others_ok i S \<Longrightarrow> map_ok S"
  by (auto simp: others_ok_def)

lemma suspend_fifo:
  assumes "others_ok i S" "queue_ok (mapped S i) q" "drain_ok q d"
  shows "fifo_inv (putDrain i d (putQueue i q S))"
  by (rule others_fifo [where i = i and q = q]) (use assms others_next [OF assms(1)] in \<open>auto simp: entry_ok_def\<close>)

lemma unmap_others:
  assumes "others_ok i S" "jm_get (fs_map S) key = Some i"
  shows "others_ok i (S\<lparr>fs_map := jm_delete key (fs_map S)\<rparr>)" "\<not> mapped (S\<lparr>fs_map := jm_delete key (fs_map S)\<rparr>) i"
proof -
  let ?S = "S\<lparr>fs_map := jm_delete key (fs_map S)\<rparr>"
  have inj: "inj_on (jm_get (fs_map S)) (dom (jm_get (fs_map S)))" using assms(1)
    by (simp add: others_ok_def map_ok_def)
  have get: "jm_get (fs_map ?S) k = Some j \<longleftrightarrow> k \<noteq> key \<and> jm_get (fs_map S) k = Some j" for k j
    by (simp add: jm_get_delete)
  have other: "mapped ?S j \<longleftrightarrow> mapped S j" if "j \<noteq> i" for j
  proof -
    have "k \<noteq> key" if "jm_get (fs_map S) k = Some j" for k using that assms(2) \<open>j \<noteq> i\<close> by auto
    then show ?thesis unfolding mapped_def ran_def by (simp only: get mem_Collect_eq) blast
  qed
  show "\<not> mapped ?S i"
  proof
    assume "mapped ?S i"
    then obtain k where "jm_get (fs_map ?S) k = Some i" unfolding mapped_def ran_def by blast
    then have k: "k \<noteq> key" "jm_get (fs_map S) k = Some i" unfolding get by blast+
    with inj_onD [OF inj, of k key] assms(2) show False by (auto simp: dom_def)
  qed
  have "map_ok ?S" using others_next(3) [OF assms(1)]
    unfolding map_ok_def by (auto simp: jm_get_delete ran_def inj_on_def dom_def)
  then show "others_ok i ?S" using assms(1) other by (simp add: others_ok_def entry_ok_def drains_ok_def)
qed

lemma drop_drain_fifo:
  assumes "others_ok i S" "queueAt S i = Some q" "queue_ok (mapped S i) q"
  shows "fifo_inv (S\<lparr>fs_drains := jm_delete i (fs_drains S)\<rparr>)"
proof (rule others_fifo [where i = i and q = q])
  show "others_ok i (S\<lparr>fs_drains := jm_delete i (fs_drains S)\<rparr>)" using assms(1) by simp
qed (use assms others_next [OF assms(1)] in \<open>auto simp: entry_ok_def jm_get_delete\<close>)

lemma queue_ok_unmapped: "queue_ok m q \<Longrightarrow> fq_items q = [] \<Longrightarrow> queue_ok False q"
  by (simp add: queue_ok_def split: if_splits)

lemma exit_fifo:
  assumes "others_ok i S" "queueAt S i = Some q" "queue_ok (mapped S i) q" "fq_items q = []"
  shows "fifo_inv (drainExitEmpty key i S)"
proof (cases "jm_get (fs_map S) key = Some i")
  case False
  then show ?thesis using drop_drain_fifo [OF assms(1-3)] by (simp add: drainExitEmpty_def)
next
  case True
  let ?S = "S\<lparr>fs_map := jm_delete key (fs_map S)\<rparr>"
  have "fifo_inv (?S\<lparr>fs_drains := jm_delete i (fs_drains ?S)\<rparr>)"
  proof (rule drop_drain_fifo)
    show "queue_ok (mapped ?S i) q"
      using unmap_others(2) [OF assms(1) True] queue_ok_unmapped [OF assms(3,4)] by simp
  qed (use unmap_others(1) [OF assms(1) True] assms(2) in simp_all)
  moreover have "?S\<lparr>fs_drains := jm_delete i (fs_drains ?S)\<rparr> =
      S\<lparr>fs_drains := jm_delete i (fs_drains S), fs_map := jm_delete key (fs_map S)\<rparr>" by simp
  ultimately have "fifo_inv (S\<lparr>fs_drains := jm_delete i (fs_drains S), fs_map := jm_delete key (fs_map S)\<rparr>)"
    by (simp only:)
  then show ?thesis using True by (simp add: drainExitEmpty_def)
qed

lemma exit_put_fifo:
  "others_ok i S \<Longrightarrow> queue_ok (mapped S i) q \<Longrightarrow> fq_items q = [] \<Longrightarrow>
   fifo_inv (drainExitEmpty key i (putQueue i q S))"
  by (rule exit_fifo [where q = q]) (simp_all add: others_next(2))

lemma begin_view:
  "beginQueueDrain key S = Some (i, q) \<longleftrightarrow>
   (\<exists>q0. jm_get (fs_map S) key = Some i \<and> queueAt S i = Some q0 \<and> \<not> fq_draining q0 \<and> q = q0\<lparr>fq_draining := True\<rparr>)"
  by (auto simp: beginQueueDrain_def split: option.splits)

lemma schedule_fifo:
  assumes "fifo_inv S"
  shows "fifo_inv (scheduleFollowupDrain key cb S)"
proof (cases "beginQueueDrain key S")
  case None
  then show ?thesis using assms by (simp add: scheduleFollowupDrain_def)
next
  case (Some p)
  then obtain i q where b: "beginQueueDrain key S = Some (i, q)" by (cases p) auto
  then obtain q0 where q: "jm_get (fs_map S) key = Some i" "queueAt S i = Some q0" "q = q0\<lparr>fq_draining := True\<rparr>"
    by (auto simp: begin_view)
  have ok: "queue_ok (mapped S i) q0" and o: "others_ok i S"
    using fifo_entry [OF assms q(2)] fifo_others [OF assms q(2)] by (simp_all add: entry_ok_def)
  show ?thesis
  proof (cases "hasWork q")
    case True
    with b o ok q show ?thesis
      by (simp add: scheduleFollowupDrain_def Let_def, intro suspend_fifo) (simp_all add: drain_ok_def)
  next
    case False
    then have "fq_items q = []" using hasWork_ok [of _ q] ok q(3) by simp
    with False b o ok q show ?thesis
      by (simp add: scheduleFollowupDrain_def Let_def, intro exit_put_fifo) simp_all
  qed
qed

lemma kick_fifo: "fifo_inv S \<Longrightarrow> fifo_inv (kickFollowupDrainIfIdle key S)"
  by (simp add: kickFollowupDrainIfIdle_def schedule_fifo split: option.split)

lemma finish_fifo:
  assumes "others_ok i S" "queue_ok (mapped S i) q"
  shows "fifo_inv (drainFinish i d q S)"
proof (cases "fq_items q = []")
  case True
  with assms hasWork_ok [OF assms(2)] others_next(2) [OF assms(1)] show ?thesis
    by (simp add: drainFinish_def Let_def hasWork_def, intro exit_put_fifo) auto
next
  case False
  let ?S = "putQueue i (q\<lparr>fq_draining := False\<rparr>) S"
  have "fifo_inv (?S\<lparr>fs_drains := jm_delete i (fs_drains ?S)\<rparr>)"
    using assms others_next(2) [OF assms(1)] by (intro drop_drain_fifo [where q = "q\<lparr>fq_draining := False\<rparr>"]) auto
  moreover have "hasWork q" using False by (simp add: hasWork_def)
  ultimately show ?thesis by (simp add: drainFinish_def Let_def hasWork_def schedule_fifo)
qed

lemma head_fifo: "others_ok i S \<Longrightarrow> queue_ok (mapped S i) q \<Longrightarrow> fifo_inv (drainLoopHead i d q S)"
  by (auto simp: drainLoopHead_def drain_ok_def intro!: suspend_fifo finish_fifo)

lemma start_fifo:
  assumes "others_ok i S" "queue_ok (mapped S i) q" "drain_ok q (d\<lparr>dr_pc := pc, dr_covers := covers\<rparr>)"
  shows "fifo_inv (startRun i d q r covers pc S)"
  unfolding startRun_def by (rule suspend_fifo) (use assms in simp_all)

text \<open>No operation of a drain finds a summary to send.\<close>

lemma preview_None: "queue_ok m q \<Longrightarrow> previewQueueSummaryPrompt noun title q = None"
  by (simp add: previewQueueSummaryPrompt_def buildQueueSummaryPrompt_def queue_ok_def)

lemma concat_splitLoop: "concat (splitLoop items groups g k) = concat groups @ g @ items"
  by (induction items arbitrary: groups g k) (auto simp: Let_def)

lemma splitLoop_nonempty: "[] \<notin> set groups \<Longrightarrow> [] \<notin> set (splitLoop items groups g k)"
  by (induction items arbitrary: groups g k) (auto simp: Let_def)

lemma concat_split: "concat (splitCollectItemsByAuthorization items) = items"
  by (simp add: splitCollectItemsByAuthorization_def concat_splitLoop)

lemma split_nonempty: "[] \<notin> set (splitCollectItemsByAuthorization items)"
  by (simp add: splitCollectItemsByAuthorization_def splitLoop_nonempty)

lemma items_prefix: "queue_ok m q \<Longrightarrow> fq_items q = xs @ ys \<Longrightarrow> prefix (fq_covered q @ xs) (fq_accepted q)"
  by (auto simp: queue_ok_def prefix_def split: if_splits)

lemma item_ok: "queue_ok m q \<Longrightarrow> fq_items q = x # xs \<Longrightarrow> drain_ok q (d\<lparr>dr_pc := PcItem, dr_covers := [x]\<rparr>)"
  using items_prefix [of m q "[x]" xs] by (simp add: drain_ok_def)

lemma groups_ok:
  assumes "queue_ok m q" "splitCollectItemsByAuthorization (fq_items q) = g # gs"
  shows "drain_ok q (d\<lparr>dr_pc := PcGroups (length g) gs False, dr_covers := g\<rparr>)"
proof -
  have "fq_items q = (g @ concat gs) @ []" using concat_split [of "fq_items q"] assms(2) by simp
  from items_prefix [OF assms(1) this] split_nonempty [of "fq_items q"] assms(2) show ?thesis
    by (simp add: drain_ok_def)
qed

lemma drainCollect_fifo:
  assumes "others_ok i S" "queue_ok (mapped S i) q"
  shows "fifo_inv (drainCollect registered now i d q S)"
  using assms preview_None [OF assms(2)] item_ok [OF assms(2)] groups_ok [OF assms(2)]
  by (auto simp: drainCollect_def drainSummaryOnly_def Let_def split: list.split
      intro!: finish_fifo start_fifo)

lemma drainEach_fifo:
  assumes "others_ok i S" "queue_ok (mapped S i) q"
  shows "fifo_inv (drainEach now i d q S)"
  using assms preview_None [OF assms(2)] item_ok [OF assms(2)]
  by (auto simp: drainEach_def split: list.split intro!: finish_fifo start_fifo)

lemma wake_fifo: "fifo_inv S \<Longrightarrow> fifo_inv (drainWake registered now i S)"
  using fifo_others [of S i] fifo_entry [of S i]
  by (auto simp: drainWake_def entry_ok_def drainCollect_fifo drainEach_fifo split: option.split)

text \<open>A settled run takes off exactly what it covered.\<close>

lemma takeDone_ok:
  assumes "queue_ok m q" "prefix (fq_covered q @ covers @ rest) (fq_accepted q)"
  shows "queue_ok m (takeDone (length covers) covers q)"
    "prefix (fq_covered (takeDone (length covers) covers q) @ rest) (fq_accepted (takeDone (length covers) covers q))"
proof -
  have "prefix (fq_covered q @ covers) (fq_accepted q)"
    using assms(2) by (metis append_assoc prefix_order.trans prefixI)
  then show "queue_ok m (takeDone (length covers) covers q)"
    using assms(1) by (auto simp: queue_ok_def takeDone_def prefix_def)
qed (use assms(2) in \<open>simp add: takeDone_def\<close>)

lemma settle_fifo:
  assumes "fifo_inv S"
  shows "fifo_inv (drainSettle now succeeded i S)"
proof (cases "drainAt S i")
  case None
  then show ?thesis using assms by (simp add: drainSettle_def)
next
  case (Some d)
  show ?thesis
  proof (cases "queueAt S i")
    case None
    then show ?thesis using assms by (simp add: drainSettle_def split: option.split)
  next
    case q: (Some q)
    have o: "others_ok i S" and ok: "queue_ok (mapped S i) q" and d: "drain_ok q d"
      using fifo_others [OF assms q] fifo_entry [OF assms q] Some by (simp_all add: entry_ok_def)
    show ?thesis
    proof (cases "succeeded \<and> dr_pc d \<noteq> PcDebounce")
      case False
      then show ?thesis using Some q o ok assms by (auto simp: drainSettle_def intro!: finish_fifo)
    next
      case succ: True
      show ?thesis
      proof (cases "dr_pc d")
        case PcItem
        then have one: "length (dr_covers d) = 1" and p: "prefix (fq_covered q @ dr_covers d @ []) (fq_accepted q)"
          using d by (simp_all add: drain_ok_def)
        from takeDone_ok(1) [OF ok p] one o succ PcItem Some q show ?thesis
          by (simp add: drainSettle_def head_fifo)
      next
        case (PcGroups n gs pending)
        then have n: "n = length (dr_covers d)" "\<not> pending" "[] \<notin> set (dr_covers d # gs)"
          and p: "prefix (fq_covered q @ dr_covers d @ concat gs) (fq_accepted q)"
          using d by (simp_all add: drain_ok_def)
        note taken = takeDone_ok [OF ok p]
        show ?thesis
        proof (cases gs)
          case Nil
          with taken(1) n o succ PcGroups Some q show ?thesis by (simp add: drainSettle_def Let_def head_fifo)
        next
          case (Cons g gs')
          with taken n o succ PcGroups Some q show ?thesis
            by (simp add: drainSettle_def Let_def) (intro start_fifo, simp_all add: drain_ok_def)
        qed
      qed (use succ d in \<open>simp_all add: drain_ok_def\<close>)
    qed
  qed
qed

section \<open>Events\<close>

lemma policy_settings:
  assumes "qs_dropPolicy s = Some DropNew"
  shows "queue_ok m q \<Longrightarrow> queue_ok m (applyQueueRuntimeSettings q s)"
    "drain_ok q d \<Longrightarrow> drain_ok (applyQueueRuntimeSettings q s) d" "queue_ok m (createdQueue s)"
  using assms
  by (simp_all add: applyQueueRuntimeSettings_def createdQueue_def queue_ok_def drain_ok_def cong: drain_pc.case_cong)

lemma entry_update:
  assumes "fifo_inv S" "queueAt S i = Some q" "queue_ok (mapped S i) q'" "\<And>d. drain_ok q d \<Longrightarrow> drain_ok q' d"
  shows "fifo_inv (putQueue i q' S)"
  by (rule others_fifo [where i = i and q = q'])
    (use assms fifo_others [OF assms(1,2)] fifo_entry [OF assms(1,2)] in \<open>auto simp: entry_ok_def\<close>)

lemma create_fifo:
  assumes "fifo_inv S" "jm_get (fs_map S) key = None" "queue_ok True q"
  defines "i \<equiv> fs_nextQueue S"
  defines "S' \<equiv> putQueue i q (S\<lparr>fs_nextQueue := Suc i, fs_map := jm_set key i (fs_map S)\<rparr>)"
  shows "fifo_inv S'"
proof -
  have fresh: "queueAt S i = None"
  proof (rule ccontr)
    assume "queueAt S i \<noteq> None"
    then obtain q0 where "queueAt S i = Some q0" by blast
    from fifo_entry [OF assms(1) this] show False by (simp add: i_def entry_ok_def)
  qed
  from fresh assms(1) have idle: "drainAt S i = None" by (simp add: fifo_inv_def drains_ok_def)
  have old: "j \<noteq> i" if "jm_get (fs_map S) k = Some j" for k j
    using assms(1) fresh that by (auto simp: fifo_inv_def map_ok_def ran_def)
  have map': "jm_get (fs_map S') k = (if k = key then Some i else jm_get (fs_map S) k)" for k
    by (simp add: S'_def jm_get_set)
  have m: "mapped S' j \<longleftrightarrow> j = i \<or> mapped S j" for j
  proof -
    have "k \<noteq> key" if "jm_get (fs_map S) k = Some j" for k using that assms(2) by auto
    moreover have "mapped S' j \<longleftrightarrow> (\<exists>k. (if k = key then Some i else jm_get (fs_map S) k) = Some j)"
      unfolding mapped_def ran_def by (simp only: map' mem_Collect_eq)
    ultimately show ?thesis unfolding mapped_def ran_def by auto
  qed
  have "map_ok S'"
    using assms(1) old fresh unfolding fifo_inv_def map_ok_def
    by (auto simp: map' inj_on_def dom_def ran_def S'_def jm_get_set split: if_splits)
  moreover have "entry_ok S' j q'" if "queueAt S' j = Some q'" for j q'
  proof (cases "j = i")
    case True
    with that assms(3) idle m show ?thesis by (simp add: entry_ok_def S'_def)
  next
    case False
    with that have "entry_ok S j q'" using assms(1) by (simp add: S'_def fifo_inv_def)
    with False m show ?thesis by (simp add: entry_ok_def S'_def i_def)
  qed
  moreover have "drains_ok {} S'" using assms(1) by (auto simp: fifo_inv_def drains_ok_def S'_def)
  ultimately show ?thesis by (simp add: fifo_inv_def)
qed

lemma get_fifo:
  assumes "fifo_inv S" "qs_dropPolicy s = Some DropNew" "getFollowupQueue key s S = (i, S')"
  shows "fifo_inv S'" "mapped S' i" "\<exists>q. queueAt S' i = Some q"
proof -
  show "fifo_inv S'"
  proof (cases "jm_get (fs_map S) key")
    case None
    then show ?thesis
      using assms(3) create_fifo [OF assms(1) None policy_settings(3) [OF assms(2)]]
      by (auto simp: getFollowupQueue_def Let_def)
  next
    case (Some j)
    then obtain q where q: "queueAt S j = Some q" using assms(1) by (auto simp: fifo_inv_def map_ok_def ran_def)
    from entry_update [OF assms(1) q policy_settings(1) [OF assms(2)] policy_settings(2) [OF assms(2)]]
      fifo_entry [OF assms(1) q] assms(3) Some q
    show ?thesis by (auto simp: getFollowupQueue_def entry_ok_def)
  qed
  have m: "jm_get (fs_map S') key = Some i"
    using assms(3) by (auto simp: getFollowupQueue_def Let_def jm_get_set split: option.splits)
  then show "mapped S' i" by (rule mappedI)
  with \<open>fifo_inv S'\<close> show "\<exists>q. queueAt S' i = Some q" by (auto simp: fifo_inv_def map_ok_def mapped_def)
qed

lemma policy_new: "queue_ok m q \<Longrightarrow> snd (applyQueueDropPolicy summarize q) = q"
  by (simp add: applyQueueDropPolicy_def queue_ok_def)

lemma push_fifo:
  assumes "fifo_inv S" "queueAt S i = Some q" "mapped S i"
  shows "fifo_inv (putQueue i (q\<lparr>fq_lastEnqueuedAt := t, fq_lastRun := l, fq_items := fq_items q @ [r],
                                fq_accepted := fq_accepted q @ [r]\<rparr>) S)"
proof (rule entry_update [OF assms(1,2)])
  show "queue_ok (mapped S i) (q\<lparr>fq_lastEnqueuedAt := t, fq_lastRun := l, fq_items := fq_items q @ [r],
      fq_accepted := fq_accepted q @ [r]\<rparr>)"
    using fifo_entry [OF assms(1,2)] assms(3) by (simp add: entry_ok_def queue_ok_def)
qed (auto simp: drain_ok_def split: drain_pc.splits)

lemma enqueue_fifo:
  assumes "fifo_inv S" "qs_dropPolicy s = Some DropNew"
  shows "fifo_inv (snd (enqueueFollowupRun key r s mode cb restart now S))"
proof -
  obtain i S1 where g: "getFollowupQueue key s S = (i, S1)" by fastforce
  note S1 = get_fifo [OF assms g]
  then obtain q where q: "queueAt S1 i = Some q" by blast
  define recentKey where "recentKey = (if mode \<noteq> DedupeNone then buildRecentMessageIdKey r key else None)"
  obtain recent cache where c: "dedupePeek recentKey now (fs_recent S1) = (recent, cache)" by fastforce
  define S2 where "S2 = (if recentKey = None then S1 else S1\<lparr>fs_recent := cache\<rparr>)"
  have S2: "fifo_inv S2" "mapped S2 i" "queueAt S2 i = Some q"
    using S1 q by (auto simp: S2_def)
  let ?q = "q\<lparr>fq_lastEnqueuedAt := now, fq_lastRun := Some (fu_run r)\<rparr>"
  have ok: "queue_ok (mapped S2 i) ?q" using fifo_entry [OF S2(1,3)] by (simp add: entry_ok_def)
  obtain b where p: "applyQueueDropPolicy summarizeRun ?q = (b, ?q)"
    using policy_new [OF ok, of summarizeRun] by (metis prod.collapse)
  have no: "fifo_inv (putQueue i ?q S2)" by (rule entry_update [OF S2(1,3) ok]) simp
  have yes: "fifo_inv (acceptRun key r recentKey cb restart now i ?q S2)"
    using push_fifo [OF S2(1,3,2), where t = now and l = "Some (fu_run r)" and r = r]
    by (simp add: acceptRun_def Let_def kick_fifo split: option.split)
  have "snd (enqueueFollowupRun key r s mode cb restart now S) \<in>
      {S2, putQueue i ?q S2, acceptRun key r recentKey cb restart now i ?q S2}"
    using c by (cases "recentKey = None"; cases b)
      (simp_all add: enqueueFollowupRun_def g Let_def recentKey_def [symmetric] S2_def q p)
  with S2(1) no yes show ?thesis by auto
qed

lemma clear_fifo:
  assumes "fifo_inv S"
  shows "fifo_inv (snd (clearFollowupQueue key S))"
proof (cases "getExistingFollowupQueue (js_trim key) S")
  case None
  then show ?thesis using assms by (simp add: clearFollowupQueue_def)
next
  case (Some i)
  then obtain k where k: "jm_get (fs_map S) k = Some i" "k = js_trim key"
    by (auto simp: getExistingFollowupQueue_def Let_def split: if_splits)
  then obtain q where q: "queueAt S i = Some q" using assms by (auto simp: fifo_inv_def map_ok_def ran_def)
  let ?S = "S\<lparr>fs_map := jm_delete k (fs_map S)\<rparr>"
  note un = unmap_others [OF fifo_others [OF assms q] k(1)]
  have e: "entry_ok S i q" by (rule fifo_entry [OF assms q])
  then have ok: "queue_ok False (clearedQueue q)"
    by (auto simp: entry_ok_def queue_ok_def clearedQueue_def split: if_splits)
  have d: "drain_ok (clearedQueue q) d = drain_ok q d" for d
    by (simp add: drain_ok_def clearedQueue_def cong: drain_pc.case_cong)
  have "fifo_inv (putQueue i (clearedQueue q) ?S)"
    by (rule others_fifo [where i = i and q = "clearedQueue q"])
      (use un e ok d q in \<open>auto simp: entry_ok_def\<close>)
  moreover have "putQueue i (clearedQueue q) ?S =
      (putQueue i (clearedQueue q) S)\<lparr>fs_map := jm_delete k (fs_map (putQueue i (clearedQueue q) S))\<rparr>"
    by (simp add: putQueue_def)
  ultimately show ?thesis using Some q k by (simp add: clearFollowupQueue_def Let_def)
qed

text \<open>The enqueues of a history ask for the policy that refuses new items instead of dropping old ones.\<close>

fun refuses_new :: "followup_event \<Rightarrow> bool" where
  "refuses_new (EvEnqueue key r settings mode cb restart now) = (qs_dropPolicy settings = Some DropNew)"
| "refuses_new _ = True"

lemma step_fifo: "fifo_inv S \<Longrightarrow> refuses_new ev \<Longrightarrow> fifo_inv (followupStep registered S ev)"
  by (cases ev) (simp_all add: enqueue_fifo clear_fifo schedule_fifo wake_fifo settle_fifo)

lemma init_fifo: "fifo_inv newFollowupState"
  by (simp add: fifo_inv_def newFollowupState_def map_ok_def drains_ok_def)

lemma run_fifo:
  assumes "list_all refuses_new evs"
  shows "fifo_inv (followupRun registered evs)"
proof -
  have "fifo_inv (foldl (followupStep registered) S evs)" if "fifo_inv S" for S
    using that assms by (induction evs arbitrary: S) (simp_all add: step_fifo)
  then show ?thesis unfolding followupRun_def using init_fifo .
qed

text \<open>C4. In-order, exactly-once delivery: if every enqueue asks for the policy that refuses new items, then in
  every history of enqueues, clears, scheduled drains, wake-ups and settled runs (failed ones are retried),
  the items covered by the successful runs of a queue object are a prefix of the items it accepted, a run
  that is under way covers the next ones, and as long as the object is registered nothing is lost between
  what was covered and what is still queued.  An object that left the registry holds nothing.\<close>

theorem followup_fifo_exactly_once:
  assumes "list_all refuses_new evs" "S = followupRun registered evs" "queueAt S i = Some q"
  shows "prefix (fq_covered q) (fq_accepted q) \<and>
    (if mapped S i then fq_accepted q = fq_covered q @ fq_items q else fq_items q = []) \<and>
    (drainAt S i = Some d \<and> dr_pc d \<noteq> PcDebounce \<longrightarrow>
     dr_covers d \<noteq> [] \<and> prefix (fq_covered q @ dr_covers d) (fq_accepted q))"
proof (intro conjI impI)
  have e: "entry_ok S i q" using fifo_entry [OF run_fifo [OF assms(1)]] assms(2,3) by blast
  then show "prefix (fq_covered q) (fq_accepted q)"
    and "if mapped S i then fq_accepted q = fq_covered q @ fq_items q else fq_items q = []"
    by (auto simp: entry_ok_def queue_ok_def split: if_splits)
  assume "drainAt S i = Some d \<and> dr_pc d \<noteq> PcDebounce"
  with e have "drain_ok q d" "dr_pc d \<noteq> PcDebounce" by (simp_all add: entry_ok_def)
  then show "dr_covers d \<noteq> []" "prefix (fq_covered q @ dr_covers d) (fq_accepted q)"
    by (auto simp: drain_ok_def prefix_def split: drain_pc.splits)
qed

definition sampleConfig :: run_config where
  "sampleConfig = \<lparr>rc_sessionId = ''s'', rc_sessionFile = ''f'', rc_provider = ''p'', rc_model = ''m'',
     rc_hasSessionModelOverride = None, rc_modelOverrideSource = None, rc_authProfileId = None,
     rc_authProfileIdSource = None, rc_senderId = Some ''u'', rc_senderName = None, rc_senderUsername = None,
     rc_senderE164 = None, rc_senderIsOwner = None, rc_execHost = None, rc_execSecurity = None, rc_execAsk = None,
     rc_execNode = None, rc_bashEnabled = None, rc_bashAllowed = None, rc_bashDefaultLevel = None\<rparr>"

definition sampleItem :: "string \<Rightarrow> followup_run" where
  "sampleItem p = \<lparr>fu_prompt = p, fu_messageId = None, fu_summaryLine = None, fu_enqueuedAt = 0, fu_images = None,
     fu_imageOrder = None, fu_channel = None, fu_to = None, fu_accountId = None, fu_threadId = None,
     fu_run = sampleConfig\<rparr>"

definition sampleSettings :: "queue_mode \<Rightarrow> drop_policy \<Rightarrow> rat \<Rightarrow> queue_settings" where
  "sampleSettings mode policy cap =
     \<lparr>qs_mode = mode, qs_debounceMs = Some (Fin 0), qs_cap = Some (Fin cap), qs_dropPolicy = Some policy\<rparr>"

lemmas followup_eval = followupRun_def newFollowupState_def enqueueFollowupRun_def getFollowupQueue_def createdQueue_def
  applyQueueRuntimeSettings_def applyQueueDropPolicy_def acceptRun_def shouldSkipQueueItem_def dedupeOf_def
  buildRecentMessageIdKey_def dedupePeek_def rememberFollowupDrainCallback_def kickFollowupDrainIfIdle_def
  scheduleFollowupDrain_def beginQueueDrain_def hasWork_def drainWake_def drainEach_def drainSettle_def
  drainLoopHead_def drainFinish_def drainExitEmpty_def startRun_def takeDone_def putQueue_def putDrain_def
  previewQueueSummaryPrompt_def buildQueueSummaryPrompt_def sampleSettings_def jn_le_def jn_max_def capNat_def
  clearFollowupDrainCallback_def Let_def

text \<open>Two items, one run settled: the second is next.\<close>

definition sampleEvents :: "followup_event list" where
  "sampleEvents =
     [EvEnqueue ''k'' (sampleItem ''a'') (sampleSettings ModeFollowup DropNew 2) DedupeNone (Some 7) True 1,
      EvEnqueue ''k'' (sampleItem ''b'') (sampleSettings ModeFollowup DropNew 2) DedupeNone (Some 7) True 2,
      EvWake 0 3, EvSettle 0 True 4, EvWake 0 5]"

theorem followup_fifo_exactly_once_witness:
  "\<exists>q. queueAt (followupRun (\<lambda>_. True) sampleEvents) 0 = Some q \<and> prefix (fq_covered q) (fq_accepted q) \<and>
       fq_covered q = [sampleItem ''a''] \<and> fq_accepted q = [sampleItem ''a'', sampleItem ''b'']"
proof -
  have all: "list_all refuses_new sampleEvents" by (simp add: sampleEvents_def sampleSettings_def)
  have "\<exists>q. queueAt (followupRun (\<lambda>_. True) sampleEvents) 0 = Some q \<and>
       fq_covered q = [sampleItem ''a''] \<and> fq_accepted q = [sampleItem ''a'', sampleItem ''b'']"
    by (simp add: sampleEvents_def followup_eval)
  then obtain q where q: "queueAt (followupRun (\<lambda>_. True) sampleEvents) 0 = Some q"
    "fq_covered q = [sampleItem ''a''] \<and> fq_accepted q = [sampleItem ''a'', sampleItem ''b'']" by blast
  from followup_fifo_exactly_once [OF all refl q(1)] q show ?thesis by blast
qed

section \<open>The drain loop ends\<close>

text \<open>What the event loop does for a drain when nothing else happens: wake it, or settle its run.\<close>

definition drainTick :: "(string \<Rightarrow> bool) \<Rightarrow> nat \<Rightarrow> followup_state \<Rightarrow> int \<Rightarrow> followup_state" where
  "drainTick registered i S now =
     (case drainAt S i of
        None \<Rightarrow> S
      | Some d \<Rightarrow> if dr_pc d = PcDebounce then drainWake registered now i S else drainSettle now True i S)"

definition debounceOver :: "drain \<Rightarrow> followup_queue \<Rightarrow> int \<Rightarrow> bool" where
  "debounceOver d q now \<longleftrightarrow> (dr_pc d = PcDebounce \<longrightarrow>
     jn_le (dr_debounce d) (Fin 0) \<or> jn_le (dr_debounce d) (jn_of_int (now - fq_lastEnqueuedAt q)))"

definition drainMeasure :: "drain \<Rightarrow> followup_queue \<Rightarrow> nat" where
  "drainMeasure d q = 2 * length (fq_items q) +
     (case dr_pc d of
        PcDebounce \<Rightarrow> 1
      | PcGroups n gs pending \<Rightarrow> if fq_items q = [] then length gs else 0
      | _ \<Rightarrow> 0)"

text \<open>How far a drain has come after a tick.\<close>

definition progressed :: "nat \<Rightarrow> drain \<Rightarrow> followup_queue \<Rightarrow> followup_state \<Rightarrow> bool" where
  "progressed i d q S \<longleftrightarrow> (\<exists>q'. queueAt S i = Some q' \<and> fq_accepted q' = fq_accepted q \<and>
     (fq_accepted q = fq_covered q @ fq_items q \<longrightarrow> fq_accepted q' = fq_covered q' @ fq_items q') \<and>
     fq_debounceMs q' = fq_debounceMs q \<and> fq_lastEnqueuedAt q' = fq_lastEnqueuedAt q \<and>
     (case drainAt S i of
        None \<Rightarrow> fq_items q' = []
      | Some d' \<Rightarrow> drainMeasure d' q' < drainMeasure d q \<and>
          (dr_pc d' = PcDebounce \<longrightarrow> dr_debounce d' = jn_max (Fin 0) (fq_debounceMs q))))"

lemma exit_view [simp]:
  "queueAt (drainExitEmpty key i S) j = queueAt S j"
  "drainAt (drainExitEmpty key i S) j = (if j = i then None else drainAt S j)"
  by (auto simp: drainExitEmpty_def clearFollowupDrainCallback_def Let_def jm_get_delete)

lemma start_view [simp]:
  "queueAt (startRun i d q r covers pc S) j = (if j = i then Some q else queueAt S j)"
  "drainAt (startRun i d q r covers pc S) j =
     (if j = i then Some (d\<lparr>dr_pc := pc, dr_covers := covers\<rparr>) else drainAt S j)"
  by (simp_all add: startRun_def)

lemma wake_progress:
  assumes "queue_ok m q" "dr_pc d = PcDebounce"
  shows "progressed i d q (drainEach now i d q S)" "progressed i d q (drainCollect registered now i d q S)"
proof -
  note none = preview_None [OF assms(1)] and dc = assms(1) [unfolded queue_ok_def]
  show "progressed i d q (drainEach now i d q S)"
    using none dc assms(2)
    by (auto simp: progressed_def drainEach_def drainFinish_def hasWork_def drainMeasure_def split: list.split)
  have nosplit: "splitCollectItemsByAuthorization (fq_items q) = [] \<longleftrightarrow> fq_items q = []"
    using concat_split [of "fq_items q"] by (auto simp: splitCollectItemsByAuthorization_def)
  show "progressed i d q (drainCollect registered now i d q S)"
    using none dc assms(2) nosplit
    by (auto simp: progressed_def drainCollect_def drainSummaryOnly_def drainFinish_def hasWork_def
        drainMeasure_def Let_def split: list.split)
qed

lemma head_progress:
  assumes "queue_ok m q'" "fq_accepted q' = fq_accepted q"
    "fq_accepted q = fq_covered q @ fq_items q \<longrightarrow> fq_accepted q' = fq_covered q' @ fq_items q'"
    "fq_debounceMs q' = fq_debounceMs q" "fq_lastEnqueuedAt q' = fq_lastEnqueuedAt q"
    "length (fq_items q') < length (fq_items q) \<or> fq_items q' = []"
  shows "progressed i d q (drainLoopHead i d' q' S)"
  using assms hasWork_ok [OF assms(1)]
  by (auto simp: progressed_def drainLoopHead_def drainFinish_def hasWork_def drainMeasure_def Let_def)

lemma takeDone_view [simp]:
  "fq_accepted (takeDone n covers q) = fq_accepted q" "fq_debounceMs (takeDone n covers q) = fq_debounceMs q"
  "fq_lastEnqueuedAt (takeDone n covers q) = fq_lastEnqueuedAt q"
  "fq_items (takeDone n covers q) = drop n (fq_items q)" "fq_covered (takeDone n covers q) = fq_covered q @ covers"
  by (simp_all add: takeDone_def)

lemma covers_in_items:
  "fq_accepted q = fq_covered q @ fq_items q \<Longrightarrow> prefix (fq_covered q @ covers @ rest) (fq_accepted q) \<Longrightarrow>
   \<exists>more_items. fq_items q = covers @ rest @ more_items"
  by (auto simp: prefix_def)

lemma taken_order:
  assumes "fq_accepted q = fq_covered q @ fq_items q" "prefix (fq_covered q @ covers @ rest) (fq_accepted q)"
  shows "fq_accepted (takeDone (length covers) covers q) =
    fq_covered (takeDone (length covers) covers q) @ fq_items (takeDone (length covers) covers q)"
  using covers_in_items [OF assms] assms(1) by auto

lemma settle_progress:
  assumes "queue_ok m q" "drain_ok q d" "dr_pc d \<noteq> PcDebounce" "drainAt S i = Some d" "queueAt S i = Some q"
  shows "progressed i d q (drainSettle now True i S)"
proof (cases "dr_pc d")
  case PcItem
  with assms(2) have one: "length (dr_covers d) = 1"
    and p: "prefix (fq_covered q @ dr_covers d @ []) (fq_accepted q)" by (simp_all add: drain_ok_def)
  have ok: "queue_ok m (takeDone 1 (dr_covers d) q)" using takeDone_ok(1) [OF assms(1) p] one by simp
  have order: "fq_accepted q = fq_covered q @ fq_items q \<longrightarrow>
      fq_accepted (takeDone 1 (dr_covers d) q) = fq_covered (takeDone 1 (dr_covers d) q) @ fq_items (takeDone 1 (dr_covers d) q)"
    using taken_order [OF _ p] one by simp
  have "progressed i d q (drainLoopHead i d (takeDone 1 (dr_covers d) q) S)"
    by (rule head_progress [OF ok _ order]) (simp_all, cases "fq_items q", simp_all)
  with PcItem assms(4,5) show ?thesis by (simp add: drainSettle_def)
next
  case (PcGroups n gs pending)
  with assms(2) have n: "n = length (dr_covers d)" "\<not> pending" "[] \<notin> set (dr_covers d # gs)"
    and p: "prefix (fq_covered q @ dr_covers d @ concat gs) (fq_accepted q)" by (simp_all add: drain_ok_def)
  let ?q = "takeDone n (dr_covers d) q"
  have ok: "queue_ok m ?q" using takeDone_ok(1) [OF assms(1) p] n(1) by simp
  have order: "fq_accepted q = fq_covered q @ fq_items q \<longrightarrow>
      fq_accepted ?q = fq_covered ?q @ fq_items ?q"
    using taken_order [OF _ p] n(1) by simp
  have shrinks: "length (fq_items ?q) < length (fq_items q) \<or> fq_items ?q = []"
  proof -
    have "0 < length (dr_covers d)" using n(3) by (cases "dr_covers d") simp_all
    then have "0 < n" using n(1) by simp
    then show ?thesis by (simp, linarith)
  qed
  show ?thesis
  proof (cases gs)
    case Nil
    have "progressed i d q (drainLoopHead i d ?q S)"
      by (rule head_progress [OF ok _ order _ _ shrinks]) simp_all
    with Nil PcGroups n(2) assms(4,5) show ?thesis by (simp add: drainSettle_def Let_def)
  next
    case (Cons g gs')
    have kept: "fq_items ?q = [] \<longrightarrow> fq_items q = []"
    proof (cases m)
      case True
      then obtain xs where "fq_items q = dr_covers d @ concat gs @ xs"
        using covers_in_items [OF _ p] assms(1) by (auto simp: queue_ok_def)
      then show ?thesis using n(1,3) Cons by auto
    qed (use assms(1) in \<open>simp add: queue_ok_def\<close>)
    have "drainMeasure (d\<lparr>dr_pc := PcGroups (length g) gs' False, dr_covers := g\<rparr>) ?q <
        drainMeasure d q"
    proof (cases "fq_items q = []")
      case True
      then show ?thesis by (simp add: drainMeasure_def PcGroups Cons)
    next
      case False
      with kept have "fq_items ?q \<noteq> []" by blast
      with shrinks have "length (fq_items ?q) < length (fq_items q)" by blast
      with \<open>fq_items ?q \<noteq> []\<close> False show ?thesis by (simp add: drainMeasure_def PcGroups)
    qed
    moreover have "drainSettle now True i S =
        startRun i d ?q (groupRun now None g) g (PcGroups (length g) gs' False) S"
      using Cons PcGroups n(2) assms(4,5) by (simp add: drainSettle_def Let_def)
    ultimately show ?thesis unfolding progressed_def using order by (simp only: start_view) simp
  qed
qed (use assms(2,3) in \<open>simp_all add: drain_ok_def\<close>)

lemma tick_progress:
  assumes "fifo_inv S" "drainAt S i = Some d" "queueAt S i = Some q" "debounceOver d q now"
  shows "progressed i d q (drainTick registered i S now)"
proof -
  have ok: "queue_ok (mapped S i) q" and d: "drain_ok q d"
    using fifo_entry [OF assms(1,3)] assms(2) by (simp_all add: entry_ok_def)
  show ?thesis
  proof (cases "dr_pc d = PcDebounce")
    case True
    with assms wake_progress [OF ok True] show ?thesis
      by (auto simp: drainTick_def drainWake_def debounceOver_def)
  next
    case False
    with assms(2,3) settle_progress [OF ok d False] show ?thesis by (simp add: drainTick_def)
  qed
qed

lemma tick_fifo: "fifo_inv S \<Longrightarrow> fifo_inv (drainTick registered i S now)"
  by (simp add: drainTick_def wake_fifo settle_fifo split: option.split)

lemma ticks_end:
  assumes "fifo_inv S" "drainAt S i = Some d" "queueAt S i = Some q"
    "drainMeasure d q < length ts" "fq_debounceMs q = Fin debounce"
    "\<forall>t \<in> set ts. debounceOver d q t \<and> debounce \<le> of_int (t - fq_lastEnqueuedAt q)"
  shows "\<exists>q'. queueAt (foldl (drainTick registered i) S ts) i = Some q' \<and>
     drainAt (foldl (drainTick registered i) S ts) i = None \<and> fq_items q' = [] \<and>
     fq_accepted q' = fq_accepted q \<and>
     (fq_accepted q = fq_covered q @ fq_items q \<longrightarrow> fq_covered q' = fq_accepted q')"
  using assms
proof (induction ts arbitrary: S d q)
  case Nil
  then show ?case by simp
next
  case (Cons t ts)
  let ?S = "drainTick registered i S t"
  from tick_progress [OF Cons.prems(1-3), of t registered] Cons.prems(6) have "progressed i d q ?S" by simp
  then obtain q' where q': "queueAt ?S i = Some q'" "fq_accepted q' = fq_accepted q"
    "fq_accepted q = fq_covered q @ fq_items q \<longrightarrow> fq_accepted q' = fq_covered q' @ fq_items q'"
    "fq_debounceMs q' = fq_debounceMs q" "fq_lastEnqueuedAt q' = fq_lastEnqueuedAt q"
    and next': "case drainAt ?S i of None \<Rightarrow> fq_items q' = []
      | Some d' \<Rightarrow> drainMeasure d' q' < drainMeasure d q \<and>
          (dr_pc d' = PcDebounce \<longrightarrow> dr_debounce d' = jn_max (Fin 0) (fq_debounceMs q))"
    by (auto simp: progressed_def)
  show ?case
  proof (cases "drainAt ?S i")
    case None
    then have "foldl (drainTick registered i) ?S ts = ?S" by (induction ts) (simp_all add: drainTick_def)
    with None q' next' show ?thesis by auto
  next
    case (Some d')
    have "debounceOver d' q' t' \<and> debounce \<le> of_int (t' - fq_lastEnqueuedAt q')" if "t' \<in> set ts" for t'
      using that Some next' Cons.prems(5,6) q'(5)
      by (auto simp: debounceOver_def jn_le_def jn_max_def)
    then have "\<forall>t' \<in> set ts. debounceOver d' q' t' \<and> debounce \<le> of_int (t' - fq_lastEnqueuedAt q')" by blast
    from Cons.IH [OF tick_fifo [OF Cons.prems(1)] Some q'(1) _ _ this] Some next' Cons.prems(4,5) q'(2-4)
    show ?thesis by auto
  qed
qed

text \<open>C29. Termination of a drain.  Hypotheses: the state is reached under the refusing drop policy
  (\<open>refuses_new\<close>), the queue is registered, its debounce is finite, and at every event of the drain the
  debounce has run out; the drain is left alone, so that its runs succeed and nothing is enqueued.  Then any
  number of events above \<open>2 * n + 1\<close>, for \<open>n\<close> queued items, has ended the drain, with every accepted item
  covered and nothing left.  A debounce of NaN or infinity never runs out, and with other policies the loop
  may not end
  (\<open>dropped_only_spins\<close>).\<close>

theorem followup_drain_terminates:
  assumes "list_all refuses_new evs" "S = followupRun registered evs"
    and "drainAt S i = Some d" "queueAt S i = Some q" "mapped S i"
    and "fq_debounceMs q = Fin debounce"
    and "\<forall>t \<in> set ts. debounceOver d q t \<and> debounce \<le> of_int (t - fq_lastEnqueuedAt q)"
    and "2 * length (fq_items q) + 1 < length ts"
  shows "\<exists>q'. queueAt (foldl (drainTick registered i) S ts) i = Some q' \<and>
     drainAt (foldl (drainTick registered i) S ts) i = None \<and> fq_items q' = [] \<and>
     fq_covered q' = fq_accepted q \<and> fq_accepted q' = fq_accepted q"
proof -
  have inv: "fifo_inv S" unfolding assms(2) by (rule run_fifo [OF assms(1)])
  from fifo_entry [OF inv assms(4)] assms(3,5)
  have acc: "fq_accepted q = fq_covered q @ fq_items q" and d: "drain_ok q d"
    by (simp_all add: entry_ok_def queue_ok_def)
  have "drainMeasure d q \<le> 2 * length (fq_items q) + 1"
  proof (cases "dr_pc d")
    case (PcGroups n gs pending)
    with d acc covers_in_items [OF acc, of "dr_covers d" "concat gs"] show ?thesis
      by (auto simp: drainMeasure_def drain_ok_def)
  qed (simp_all add: drainMeasure_def)
  with assms(8) have "drainMeasure d q < length ts" by simp
  from ticks_end [OF inv assms(3,4) this assms(6,7)] acc show ?thesis by force
qed

theorem followup_drain_terminates_witness:
  "\<exists>S q. S = foldl (drainTick (\<lambda>_. True) 0) (followupRun (\<lambda>_. True) sampleEvents) [10, 11, 12, 13] \<and>
     queueAt S 0 = Some q \<and> drainAt S 0 = None \<and> fq_covered q = [sampleItem ''a'', sampleItem ''b'']"
proof -
  let ?S = "followupRun (\<lambda>_. True) sampleEvents"
  have all: "list_all refuses_new sampleEvents" by (simp add: sampleEvents_def sampleSettings_def)
  have "\<exists>d q. drainAt ?S 0 = Some d \<and> queueAt ?S 0 = Some q \<and> dr_pc d = PcItem \<and> fq_debounceMs q = Fin 0 \<and>
      fq_lastEnqueuedAt q = 2 \<and> length (fq_items q) = 1 \<and> fq_accepted q = [sampleItem ''a'', sampleItem ''b''] \<and>
      jm_get (fs_map ?S) ''k'' = Some 0"
    by (simp add: sampleEvents_def followup_eval)
  then obtain d q where dq: "drainAt ?S 0 = Some d" "queueAt ?S 0 = Some q" "dr_pc d = PcItem"
    "fq_debounceMs q = Fin 0" "fq_lastEnqueuedAt q = 2" "length (fq_items q) = 1"
    "fq_accepted q = [sampleItem ''a'', sampleItem ''b'']" "mapped ?S 0" by (auto intro: mappedI)
  from followup_drain_terminates [OF all refl dq(1,2,8,4), where ts = "[10, 11, 12, 13]"] dq
  show ?thesis by (auto simp: debounceOver_def)
qed

section \<open>Authorization groups\<close>

text \<open>The fields that decide how a run is authorized.\<close>

definition authorizationFields :: "run_config \<Rightarrow> string list \<times> bool list" where
  "authorizationFields r =
     ([orEmpty (rc_senderId r), orEmpty (rc_senderE164 r), orEmpty (rc_execHost r), orEmpty (rc_execSecurity r),
       orEmpty (rc_execAsk r), orEmpty (rc_execNode r), orEmpty (rc_bashDefaultLevel r)],
      [rc_senderIsOwner r = Some True, rc_bashEnabled r = Some True, rc_bashAllowed r = Some True])"

lemma json_string_eq: "json_string s @ r = json_string t @ r' \<longleftrightarrow> s = t \<and> r = r'"
  using json_string_prefix by blast

lemma json_bool_eq: "json_bool a @ CHR '','' # r = json_bool b @ CHR '','' # r' \<longleftrightarrow> a = b \<and> r = r'"
  by (cases a; cases b) (simp_all add: json_bool_def)

lemma authorization_key_inj:
  "resolveFollowupAuthorizationKey r = resolveFollowupAuthorizationKey r' \<longleftrightarrow>
   authorizationFields r = authorizationFields r'"
  by (simp add: resolveFollowupAuthorizationKey_def authorizationFields_def json_string_eq json_bool_eq
      json_string_eq [of _ "[]" _ "[]", simplified]) blast

text \<open>Every group is uniform and neighbouring groups differ.\<close>

definition uniformIn :: "('a \<Rightarrow> 'b) \<Rightarrow> 'a list \<Rightarrow> bool" where
  "uniformIn f xs \<longleftrightarrow> (\<forall>x \<in> set xs. f x = f (hd xs))"

definition separatedBy :: "('a \<Rightarrow> 'b) \<Rightarrow> 'a list list \<Rightarrow> bool" where
  "separatedBy f gs \<longleftrightarrow> successively (\<lambda>g h. f (last g) \<noteq> f (hd h)) gs"

abbreviation authKey :: "followup_run \<Rightarrow> string" where
  "authKey item \<equiv> resolveFollowupAuthorizationKey (fu_run item)"

lemma uniform_snoc:
  "uniformIn f (g @ [x]) \<longleftrightarrow> uniformIn f g \<and> (g = [] \<or> f x = f (last g))"
proof (cases g)
  case (Cons a as)
  then have "f (last g) = f a" if "uniformIn f g" using that by (auto simp: uniformIn_def)
  then show ?thesis using Cons by (auto simp: uniformIn_def)
qed (simp add: uniformIn_def)

lemma separated_snoc:
  "separatedBy f (gs @ [g]) \<longleftrightarrow> separatedBy f gs \<and> (gs = [] \<or> f (last (last gs)) \<noteq> f (hd g))"
  by (auto simp: separatedBy_def successively_append_iff)

lemma splitLoop_uniform:
  assumes "\<forall>h \<in> set groups. uniformIn authKey h" "uniformIn authKey g" "g \<noteq> [] \<longrightarrow> authKey (last g) = k"
  shows "\<forall>h \<in> set (splitLoop items groups g k). uniformIn authKey h"
  using assms
proof (induction items arbitrary: groups g k)
  case Nil
  then show ?case by simp
next
  case (Cons item items)
  have one: "uniformIn authKey [item]" by (simp add: uniformIn_def)
  show ?case
  proof (cases "g = [] \<or> authKey item = k")
    case True
    then have u: "uniformIn authKey (g @ [item])" using Cons.prems(2,3) by (auto simp: uniform_snoc)
    from Cons.IH [OF Cons.prems(1) u, of "authKey item"] True show ?thesis by simp
  next
    case False
    have "\<forall>h \<in> set (groups @ [g]). uniformIn authKey h" using Cons.prems(1,2) by simp
    from Cons.IH [OF this one, of "authKey item"] False show ?thesis by simp
  qed
qed

lemma splitLoop_separated:
  assumes "separatedBy authKey groups" "g \<noteq> [] \<longrightarrow> authKey (last g) = k" "uniformIn authKey g"
    "groups \<noteq> [] \<longrightarrow> g \<noteq> [] \<and> authKey (last (last groups)) \<noteq> authKey (hd g)"
  shows "separatedBy authKey (splitLoop items groups g k)"
  using assms
proof (induction items arbitrary: groups g k)
  case Nil
  then show ?case by (auto simp: separated_snoc)
next
  case (Cons item items)
  show ?case
  proof (cases "g = [] \<or> authKey item = k")
    case True
    with Cons.prems show ?thesis
      by (simp add: Let_def) (intro Cons.IH, auto simp: uniform_snoc uniformIn_def [of _ "[]"])
  next
    case False
    with Cons.prems show ?thesis
      by (simp add: Let_def) (intro Cons.IH, auto simp: separated_snoc uniformIn_def [of _ "[item]"])
  qed
qed

lemma uniform_last: "uniformIn f g \<Longrightarrow> x \<in> set g \<Longrightarrow> f x = f (last g)"
  by (metis last_in_set length_greater_0_conv length_pos_if_in_set uniformIn_def)

text \<open>C30. Collect batches never mix authorizations: the groups are the items in order, none is empty, every item of
  a group has the same ten authorization fields as the run that is started for the group (the last
  item's), and neighbouring groups differ in some field, so no batch is split needlessly.  The JSON text the
  code compares is injective in the fields.\<close>

theorem followup_collect_authorization:
  "concat (splitCollectItemsByAuthorization items) = items \<and>
   [] \<notin> set (splitCollectItemsByAuthorization items) \<and>
   (\<forall>g \<in> set (splitCollectItemsByAuthorization items). \<forall>item \<in> set g.
      authorizationFields (fu_run item) = authorizationFields (fu_run (groupRun now summary g))) \<and>
   successively (\<lambda>g h. authorizationFields (fu_run (last g)) \<noteq> authorizationFields (fu_run (hd h)))
     (splitCollectItemsByAuthorization items)"
proof (intro conjI ballI)
  show "concat (splitCollectItemsByAuthorization items) = items"
    and "[] \<notin> set (splitCollectItemsByAuthorization items)" by (rule concat_split split_nonempty)+
  have none: "uniformIn authKey []" by (simp add: uniformIn_def)
  have "\<forall>h \<in> set (splitCollectItemsByAuthorization items). uniformIn authKey h"
  proof (cases "length items \<le> 1")
    case True
    then show ?thesis
      by (cases items) (auto simp: splitCollectItemsByAuthorization_def uniformIn_def)
  next
    case False
    then show ?thesis using splitLoop_uniform [of "[]" "[]" "[]" items] none
      by (simp add: splitCollectItemsByAuthorization_def)
  qed
  then show "authorizationFields (fu_run item) = authorizationFields (fu_run (groupRun now summary g))"
    if "g \<in> set (splitCollectItemsByAuthorization items)" "item \<in> set g" for g item
    using that uniform_last [of authKey g item] authorization_key_inj
    by (simp add: groupRun_def summaryRun_def Let_def)
  have "separatedBy authKey (splitCollectItemsByAuthorization items)"
    using splitLoop_separated [of "[]" "[]" "[]" items] none
    by (simp add: splitCollectItemsByAuthorization_def separatedBy_def)
  then show "successively (\<lambda>g h. authorizationFields (fu_run (last g)) \<noteq> authorizationFields (fu_run (hd h)))
     (splitCollectItemsByAuthorization items)"
    by (simp add: separatedBy_def authorization_key_inj)
qed

theorem followup_collect_authorization_witness:
  "authorizationFields (fu_run (sampleItem ''a'')) =
   authorizationFields (fu_run (groupRun 5 None [sampleItem ''a'', sampleItem ''b'']))"
proof -
  have "splitCollectItemsByAuthorization [sampleItem ''a'', sampleItem ''b''] = [[sampleItem ''a'', sampleItem ''b'']]"
    by (simp add: splitCollectItemsByAuthorization_def sampleItem_def Let_def)
  then show ?thesis
    using followup_collect_authorization [of "[sampleItem ''a'', sampleItem ''b'']" 5 None] by simp
qed

section \<open>What the other policies allow\<close>

text \<open>A queue that holds no items but a count of dropped ones: in a mode other than collect the drain
  schedules itself again without a run, for ever, since only a run clears the count.\<close>

definition spinning :: "nat \<Rightarrow> followup_state \<Rightarrow> bool" where
  "spinning i S \<longleftrightarrow> (\<exists>d q. drainAt S i = Some d \<and> queueAt S i = Some q \<and> dr_pc d = PcDebounce \<and>
     fq_items q = [] \<and> 0 < fq_droppedCount q \<and> fq_mode q \<noteq> ModeCollect \<and>
     jm_get (fs_map S) (dr_key d) = Some i)"

lemma dropped_only_spins:
  assumes "spinning i S"
  shows "spinning i (drainWake registered now i S)" "fs_runs (drainWake registered now i S) = fs_runs S"
proof -
  from assms obtain d q where dq: "drainAt S i = Some d" "queueAt S i = Some q" "dr_pc d = PcDebounce"
    "fq_items q = []" "0 < fq_droppedCount q" "fq_mode q \<noteq> ModeCollect" "jm_get (fs_map S) (dr_key d) = Some i"
    unfolding spinning_def by blast
  let ?q = "q\<lparr>fq_draining := False\<rparr>"
  have each: "drainEach now i d q S = drainFinish i d q S"
    using dq(4) by (simp add: drainEach_def split: option.split)
  have again: "spinning i (drainFinish i d q S)" "fs_runs (drainFinish i d q S) = fs_runs S"
    using dq unfolding spinning_def
    by (simp_all add: drainFinish_def Let_def hasWork_def scheduleFollowupDrain_def beginQueueDrain_def
        rememberFollowupDrainCallback_def putQueue_def putDrain_def jm_get_set)
  show "spinning i (drainWake registered now i S)" "fs_runs (drainWake registered now i S) = fs_runs S"
    using dq assms each again by (simp_all add: drainWake_def)
qed

text \<open>Such a state is reached with the default policy and a cap of one: while \<open>a\<close> runs, \<open>b\<close> drops it from the
  queue, and when the run of \<open>a\<close> settles, the queue takes off its first item, which is now \<open>b\<close>.  It was
  accepted, counts as completed, and no run ever covered it.\<close>

definition overflowEvents :: "followup_event list" where
  "overflowEvents =
     [EvEnqueue ''k'' (sampleItem ''a'') (sampleSettings ModeFollowup DropSummarize 1) DedupeNone (Some 7) True 1,
      EvWake 0 2,
      EvEnqueue ''k'' (sampleItem ''b'') (sampleSettings ModeFollowup DropSummarize 1) DedupeNone (Some 7) True 3,
      EvSettle 0 True 4]"

lemma overflow_loses_item:
  defines "S \<equiv> followupRun (\<lambda>_. True) overflowEvents"
  shows "spinning 0 S"
    "\<exists>q. queueAt S 0 = Some q \<and> fq_covered q = [sampleItem ''a''] \<and> fq_completed q = [sampleItem ''b''] \<and>
         fq_items q = [] \<and> map (\<lambda>(i, cb, r). fu_prompt r) (fs_runs S) = [''a'']"
  unfolding S_def spinning_def
  by (simp_all add: overflowEvents_def followup_eval summarizeRun_def sampleItem_def)

end
