(* ===== verification/HeartbeatPolicy.thy ===== *)
theory HeartbeatPolicy
  imports Prelude
begin

text \<open>
  When a heartbeat may run: the cooldown gate \<open>src/infra/heartbeat-cooldown.ts\<close>, which decides for every
  wake of an agent whether it runs or is deferred, and the phase-aligned schedule
  \<open>src/infra/heartbeat-schedule.ts\<close>.  Times and intervals are integral milliseconds, so the
  \<open>Math.floor\<close> calls are identities; the first four digest bytes of SHA-256 are an argument.
\<close>

section \<open>The cooldown gate\<close>

datatype wake_intent = IntentScheduled | IntentEvent | IntentImmediate | IntentManual

datatype wake_source =
  SrcInterval | SrcManual | SrcExecEvent | SrcNotificationsEvent | SrcCron | SrcHook | SrcBackgroundTask
| SrcBackgroundTaskBlocked | SrcAcpSpawn | SrcCliWatchdog | SrcRestartSentinel | SrcRetry | SrcOther

definition DEFAULT_MIN_WAKE_SPACING_MS :: int where "DEFAULT_MIN_WAKE_SPACING_MS = 30000"
definition DEFAULT_FLOOD_WINDOW_MS :: int where "DEFAULT_FLOOD_WINDOW_MS = 60000"
definition DEFAULT_FLOOD_THRESHOLD :: nat where "DEFAULT_FLOOD_THRESHOLD = 5"

datatype defer_reason = NotDue | MinSpacing | Flood

text \<open>\<open>None\<close> is \<open>{ defer: false }\<close>.\<close>

type_synonym defer_decision = "defer_reason option"

record defer_input =
  di_intent :: wake_intent
  di_now :: int
  di_nextDueMs :: int
  di_lastRunStartedAtMs :: "int option"
  di_recentRunStarts :: "int list option"
  di_minSpacingMs :: "int option"
  di_floodWindowMs :: "int option"
  di_floodThreshold :: "nat option"

definition orDefault :: "'a option \<Rightarrow> 'a \<Rightarrow> 'a" where
  "orDefault v d = (case v of None \<Rightarrow> d | Some x \<Rightarrow> x)"

text \<open>The backward loop counts until it meets a start before the window.\<close>

definition checkFloodGuard :: "defer_input \<Rightarrow> defer_decision" where
  "checkFloodGuard input =
     (let floodWindow = orDefault (di_floodWindowMs input) DEFAULT_FLOOD_WINDOW_MS;
          floodThreshold = orDefault (di_floodThreshold input) DEFAULT_FLOOD_THRESHOLD
      in case di_recentRunStarts input of
           None \<Rightarrow> None
         | Some starts \<Rightarrow>
             if length starts < floodThreshold \<or> floodWindow \<le> 0 then None
             else
               (let windowStart = di_now input - floodWindow;
                    inWindow = length (takeWhile (\<lambda>ts. \<not> ts < windowStart) (rev starts))
                in if inWindow \<ge> floodThreshold then Some Flood else None))"

definition shouldDeferWake :: "defer_input \<Rightarrow> defer_decision" where
  "shouldDeferWake input =
     (if di_intent input = IntentManual then None
      else if di_intent input = IntentImmediate then checkFloodGuard input
      else case checkFloodGuard input of
             Some d \<Rightarrow> Some d
           | None \<Rightarrow>
               if di_intent input = IntentScheduled then
                 (if di_now input < di_nextDueMs input then Some NotDue else None)
               else (case di_lastRunStartedAtMs input of
                       None \<Rightarrow> None
                     | Some started \<Rightarrow>
                         if di_now input < di_nextDueMs input then Some NotDue
                         else
                           (let minSpacing = orDefault (di_minSpacingMs input) DEFAULT_MIN_WAKE_SPACING_MS
                            in if minSpacing > 0 \<and> di_now input - started < minSpacing then Some MinSpacing
                               else None)))"

text \<open>Shift until at most \<open>floodThreshold + 1\<close> entries are left.\<close>

definition recordRunStart :: "int list \<Rightarrow> int \<Rightarrow> nat \<Rightarrow> int list" where
  "recordRunStart buffer ts floodThreshold =
     (let buffer = buffer @ [ts] in drop (length buffer - (floodThreshold + 1)) buffer)"

section \<open>The phase-aligned schedule\<close>

text \<open>The JavaScript remainder takes the sign of the dividend.\<close>

definition js_rem :: "int \<Rightarrow> int \<Rightarrow> int" where
  "js_rem a b = sgn a * (\<bar>a\<bar> mod \<bar>b\<bar>)"

definition normalizeModulo :: "int \<Rightarrow> int \<Rightarrow> int" where
  "normalizeModulo v divisor = js_rem (js_rem v divisor + divisor) divisor"

definition resolveHeartbeatPhaseMs :: "(string \<Rightarrow> nat) \<Rightarrow> string \<Rightarrow> string \<Rightarrow> int \<Rightarrow> int" where
  "resolveHeartbeatPhaseMs digest32 schedulerSeed agentId intervalMs =
     js_rem (int (digest32 (schedulerSeed @ '':'' @ agentId))) (max 1 intervalMs)"

definition computeNextHeartbeatPhaseDueMs :: "int \<Rightarrow> int \<Rightarrow> int \<Rightarrow> int" where
  "computeNextHeartbeatPhaseDueMs nowMs intervalMs phaseMs =
     (let intervalMs = max 1 intervalMs;
          phaseMs = normalizeModulo phaseMs intervalMs;
          cyclePositionMs = normalizeModulo nowMs intervalMs;
          deltaMs = normalizeModulo (phaseMs - cyclePositionMs) intervalMs
      in nowMs + (if deltaMs = 0 then intervalMs else deltaMs))"

record prev_schedule =
  ps_intervalMs :: int
  ps_phaseMs :: int
  ps_nextDueMs :: int

definition resolveNextHeartbeatDueMs :: "int \<Rightarrow> int \<Rightarrow> int \<Rightarrow> prev_schedule option \<Rightarrow> int" where
  "resolveNextHeartbeatDueMs nowMs intervalMs phaseMs prev =
     (let intervalMs = max 1 intervalMs;
          phaseMs = normalizeModulo phaseMs intervalMs
      in case prev of
           Some p \<Rightarrow>
             if ps_intervalMs p = intervalMs \<and> ps_phaseMs p = phaseMs \<and> ps_nextDueMs p > nowMs
             then ps_nextDueMs p else computeNextHeartbeatPhaseDueMs nowMs intervalMs phaseMs
         | None \<Rightarrow> computeNextHeartbeatPhaseDueMs nowMs intervalMs phaseMs)"

definition MAX_SEEK_HORIZON_MS :: int where "MAX_SEEK_HORIZON_MS = 7 * 24 * 60 * 60000"
definition MAX_SEEK_ITERATIONS :: nat where "MAX_SEEK_ITERATIONS = 10080"

text \<open>The loop, with the iterations that are left.\<close>

fun seekLoop :: "(int \<Rightarrow> bool) \<Rightarrow> int \<Rightarrow> int \<Rightarrow> int \<Rightarrow> nat \<Rightarrow> int option" where
  "seekLoop isActive intervalMs horizonMs candidateMs 0 = None"
| "seekLoop isActive intervalMs horizonMs candidateMs (Suc left) =
     (if candidateMs \<le> horizonMs then
        (if isActive candidateMs then Some candidateMs
         else seekLoop isActive intervalMs horizonMs (candidateMs + intervalMs) left)
      else None)"

definition seekNextActivePhaseDueMs :: "int \<Rightarrow> int \<Rightarrow> (int \<Rightarrow> bool) option \<Rightarrow> int" where
  "seekNextActivePhaseDueMs startMs intervalMs isActive =
     (case isActive of
        None \<Rightarrow> startMs
      | Some active \<Rightarrow>
          orDefault (seekLoop active (max 1 intervalMs) (startMs + MAX_SEEK_HORIZON_MS) startMs MAX_SEEK_ITERATIONS)
            startMs)"

section \<open>Schedule lemmas\<close>

lemma js_rem_nonneg: "0 \<le> a \<Longrightarrow> 0 < b \<Longrightarrow> js_rem a b = a mod b"
  by (cases "a = 0") (simp_all add: js_rem_def)

lemma js_rem_mod: "0 < b \<Longrightarrow> js_rem a b mod b = a mod b \<and> - b < js_rem a b \<and> js_rem a b < b"
proof (cases "0 \<le> a")
  case True
  assume "0 < b"
  then have "0 \<le> a mod b" "a mod b < b" by simp_all
  with True \<open>0 < b\<close> show ?thesis by (simp add: js_rem_nonneg)
next
  case False
  assume b: "0 < b"
  then have "js_rem a b = - ((- a) mod b)" using False by (simp add: js_rem_def)
  moreover have "(- ((- a) mod b)) mod b = a mod b" by (simp add: mod_minus_eq)
  moreover have "(- a) mod b < b" "0 \<le> (- a) mod b" using b by simp_all
  ultimately show ?thesis using b by (intro conjI) (simp, linarith, linarith)
qed

lemma normalizeModulo_mod: "0 < d \<Longrightarrow> normalizeModulo v d = v mod d"
proof -
  assume d: "0 < d"
  from js_rem_mod [OF d, of v] have "0 \<le> js_rem v d + d" "js_rem v d mod d = v mod d" by simp_all
  with d show ?thesis by (simp add: normalizeModulo_def js_rem_nonneg)
qed

lemma next_due:
  assumes "1 \<le> interval"
  shows "now < computeNextHeartbeatPhaseDueMs now interval phase"
    "computeNextHeartbeatPhaseDueMs now interval phase \<le> now + interval"
    "computeNextHeartbeatPhaseDueMs now interval phase mod interval = phase mod interval"
proof -
  have d: "0 < interval" using assms by simp
  define delta where "delta = (phase - now) mod interval"
  have delta: "0 \<le> delta" "delta < interval" using d by (simp_all add: delta_def)
  have "(phase mod interval - now mod interval) mod interval = delta" by (simp add: delta_def mod_diff_eq)
  then have due: "computeNextHeartbeatPhaseDueMs now interval phase = now + (if delta = 0 then interval else delta)"
    using assms d by (simp add: computeNextHeartbeatPhaseDueMs_def Let_def normalizeModulo_mod max_def)
  then show "now < computeNextHeartbeatPhaseDueMs now interval phase"
    "computeNextHeartbeatPhaseDueMs now interval phase \<le> now + interval" using delta by simp_all
  have "(now + delta) mod interval = phase mod interval"
    by (simp add: delta_def mod_add_right_eq)
  then show "computeNextHeartbeatPhaseDueMs now interval phase mod interval = phase mod interval"
    unfolding due by (cases "delta = 0") simp_all
qed

lemma seek_Some:
  "seekLoop active interval horizon start n = Some t \<Longrightarrow>
   \<exists>k < n. t = start + int k * interval \<and> active t \<and> t \<le> horizon \<and>
     (\<forall>j < k. \<not> active (start + int j * interval))"
proof (induction n arbitrary: start)
  case 0
  then show ?case by simp
next
  case (Suc n)
  show ?case
  proof (cases "active start")
    case True
    with Suc.prems show ?thesis by (intro exI [of _ 0]) (auto split: if_splits)
  next
    case False
    with Suc.prems have "seekLoop active interval horizon (start + interval) n = Some t" by (simp split: if_splits)
    from Suc.IH [OF this] obtain k where k: "k < n" "t = start + interval + int k * interval" "active t" "t \<le> horizon"
      "\<forall>j < k. \<not> active (start + interval + int j * interval)" by blast
    have "\<not> active (start + int j * interval)" if "j < Suc k" for j
      using that False k(5) by (cases j) (auto simp: algebra_simps)
    with k show ?thesis by (intro exI [of _ "Suc k"]) (auto simp: algebra_simps)
  qed
qed

lemma seek_None:
  "seekLoop active interval horizon start n = None \<Longrightarrow> 0 \<le> interval \<Longrightarrow> j < n \<Longrightarrow>
   start + int j * interval \<le> horizon \<Longrightarrow> \<not> active (start + int j * interval)"
proof (induction n arbitrary: start j)
  case (Suc n)
  from Suc.prems have "start \<le> horizon"
    by (smt (verit) mult_nonneg_nonneg of_nat_0_le_iff)
  with Suc.prems(1) have no: "\<not> active start" "seekLoop active interval horizon (start + interval) n = None"
    by (auto split: if_splits)
  show ?case
  proof (cases j)
    case 0
    with no show ?thesis by simp
  next
    case (Suc j')
    with Suc.IH [OF no(2) Suc.prems(2), of j'] Suc.prems(3,4) show ?thesis by (simp add: algebra_simps)
  qed
qed simp

text \<open>Heartbeat slots: without a schedule to keep, the next slot lies in the future, at most one interval
  ahead, and has the agent's phase; a schedule with the same interval and phase that is still ahead is
  kept.  The search for an active hour stays on slots of the same phase within seven days, and returns the
  first active one, or the first slot when none of the slots it may try is active.\<close>

theorem heartbeat_slots:
  assumes "1 \<le> interval" and "due = resolveNextHeartbeatDueMs now interval phase prev"
    and "slot = seekNextActivePhaseDueMs due interval (Some active)"
  shows "now < due \<and>
    (due \<le> now + interval \<and> due mod interval = phase mod interval \<or>
     (\<exists>p. prev = Some p \<and> due = ps_nextDueMs p \<and> ps_intervalMs p = interval \<and>
          ps_phaseMs p = phase mod interval)) \<and>
    (\<exists>k < MAX_SEEK_ITERATIONS. slot = due + int k * interval \<and> slot \<le> due + MAX_SEEK_HORIZON_MS \<and>
       slot mod interval = due mod interval \<and>
       (active slot \<and> (\<forall>j < k. \<not> active (due + int j * interval)) \<or>
        k = 0 \<and> (\<forall>j < MAX_SEEK_ITERATIONS. int j * interval \<le> MAX_SEEK_HORIZON_MS \<longrightarrow>
                   \<not> active (due + int j * interval))))"
proof (intro conjI)
  have compute: "computeNextHeartbeatPhaseDueMs now interval (phase mod interval) mod interval = phase mod interval"
    "now < computeNextHeartbeatPhaseDueMs now interval (phase mod interval)"
    "computeNextHeartbeatPhaseDueMs now interval (phase mod interval) \<le> now + interval"
    using next_due [OF assms(1), of now "phase mod interval"] by simp_all
  have due: "due = (case prev of
      Some p \<Rightarrow> if ps_intervalMs p = interval \<and> ps_phaseMs p = phase mod interval \<and> ps_nextDueMs p > now
                then ps_nextDueMs p else computeNextHeartbeatPhaseDueMs now interval (phase mod interval)
    | None \<Rightarrow> computeNextHeartbeatPhaseDueMs now interval (phase mod interval))"
    using assms(1) normalizeModulo_mod [of interval phase]
    by (cases prev) (simp_all add: assms(2) resolveNextHeartbeatDueMs_def Let_def max_def)
  show "now < due" using compute(2) by (auto simp: due split: option.split)
  show "due \<le> now + interval \<and> due mod interval = phase mod interval \<or>
     (\<exists>p. prev = Some p \<and> due = ps_nextDueMs p \<and> ps_intervalMs p = interval \<and>
          ps_phaseMs p = phase mod interval)"
    using compute by (auto simp: due split: option.split)
  let ?seek = "seekLoop active interval (due + MAX_SEEK_HORIZON_MS) due MAX_SEEK_ITERATIONS"
  have slot: "slot = orDefault ?seek due"
    using assms(1,3) by (simp add: seekNextActivePhaseDueMs_def max_def)
  show "\<exists>k < MAX_SEEK_ITERATIONS. slot = due + int k * interval \<and> slot \<le> due + MAX_SEEK_HORIZON_MS \<and>
       slot mod interval = due mod interval \<and>
       (active slot \<and> (\<forall>j < k. \<not> active (due + int j * interval)) \<or>
        k = 0 \<and> (\<forall>j < MAX_SEEK_ITERATIONS. int j * interval \<le> MAX_SEEK_HORIZON_MS \<longrightarrow>
                   \<not> active (due + int j * interval)))"
  proof (cases ?seek)
    case None
    with seek_None [OF None] assms(1) slot show ?thesis
      by (intro exI [of _ 0]) (auto simp: orDefault_def MAX_SEEK_ITERATIONS_def MAX_SEEK_HORIZON_MS_def)
  next
    case (Some t)
    with slot have "slot = t" by (simp add: orDefault_def)
    with seek_Some [OF Some] show ?thesis by auto
  qed
qed

theorem heartbeat_slots_witness:
  "1000 < resolveNextHeartbeatDueMs 1000 60000 5000 None"
  using heartbeat_slots [of 60000 _ 1000 5000 None _ "\<lambda>t. t > 100000", OF _ refl refl] by simp

section \<open>The flood guard counts exactly\<close>

lemma takeWhile_rev_sorted:
  "sorted xs \<Longrightarrow> length (takeWhile (\<lambda>t. \<not> t < w) (rev xs)) = length (filter (\<lambda>t. w \<le> t) xs)"
proof (induction xs rule: rev_induct)
  case (snoc x xs)
  then have "sorted xs" "\<forall>y \<in> set xs. y \<le> x" by (simp_all add: sorted_append)
  then show ?case using snoc.IH by (cases "w \<le> x") (auto simp: filter_empty_conv not_le)
qed simp

text \<open>The buffer holds the latest starts.\<close>

definition latest :: "nat \<Rightarrow> int list \<Rightarrow> int list" where
  "latest n starts = drop (length starts - n) starts"

lemma recordRunStart_latest: "recordRunStart (latest (Suc n) starts) ts n = latest (Suc n) (starts @ [ts])"
  by (cases "length starts \<le> n") (auto simp: recordRunStart_def latest_def Let_def Suc_diff_Suc not_le)

lemma count_latest:
  assumes "sorted starts"
  shows "n \<le> length (filter (\<lambda>t. w \<le> t) (latest (Suc n) starts)) \<longleftrightarrow> n \<le> length (filter (\<lambda>t. w \<le> t) starts)"
proof -
  let ?c = "length starts - Suc n"
  have split: "length (filter (\<lambda>t. w \<le> t) starts) =
      length (filter (\<lambda>t. w \<le> t) (take ?c starts)) + length (filter (\<lambda>t. w \<le> t) (latest (Suc n) starts))"
    unfolding latest_def by (metis append_take_drop_id filter_append length_append)
  show ?thesis
  proof (cases "\<exists>t \<in> set (take ?c starts). w \<le> t")
    case True
    then obtain t where t: "t \<in> set (take ?c starts)" "w \<le> t" by blast
    have "t \<le> u" if "u \<in> set (latest (Suc n) starts)" for u
      using assms t(1) that unfolding latest_def
      by (metis append_take_drop_id sorted_append)
    with t(2) have "filter (\<lambda>t. w \<le> t) (latest (Suc n) starts) = latest (Suc n) starts"
      by (intro filter_True) (meson order_trans)
    moreover have "n \<le> length (latest (Suc n) starts)" using t(1) by (cases ?c) (auto simp: latest_def)
    ultimately show ?thesis using split by simp
  next
    case False
    then have "filter (\<lambda>t. w \<le> t) (take ?c starts) = []" by (auto simp: filter_empty_conv)
    then show ?thesis using split by simp
  qed
qed

lemma flood_exact:
  assumes "sorted starts" "di_recentRunStarts input = Some (latest (Suc DEFAULT_FLOOD_THRESHOLD) starts)"
    "di_floodWindowMs input = None" "di_floodThreshold input = None"
  shows "checkFloodGuard input =
    (if DEFAULT_FLOOD_THRESHOLD \<le> length (filter (\<lambda>t. di_now input - DEFAULT_FLOOD_WINDOW_MS \<le> t) starts)
     then Some Flood else None)"
proof -
  let ?b = "latest (Suc DEFAULT_FLOOD_THRESHOLD) starts"
  have "sorted ?b" using assms(1) unfolding latest_def by (rule sorted_wrt_drop)
  from takeWhile_rev_sorted [OF this] count_latest [OF assms(1)]
  have "DEFAULT_FLOOD_THRESHOLD \<le> length (takeWhile (\<lambda>t. \<not> t < di_now input - DEFAULT_FLOOD_WINDOW_MS) (rev ?b)) \<longleftrightarrow>
    DEFAULT_FLOOD_THRESHOLD \<le> length (filter (\<lambda>t. di_now input - DEFAULT_FLOOD_WINDOW_MS \<le> t) starts)" by metis
  moreover have "length (takeWhile P (rev ?b)) \<le> length ?b" for P
    using length_takeWhile_le [of P "rev ?b"] by simp
  then have "\<not> DEFAULT_FLOOD_THRESHOLD \<le> length (takeWhile P (rev ?b))" if "length ?b < DEFAULT_FLOOD_THRESHOLD" for P
    using that by (meson le_trans not_le)
  ultimately show ?thesis
    using assms(2-4) unfolding checkFloodGuard_def
    by (auto simp: Let_def orDefault_def DEFAULT_FLOOD_WINDOW_MS_def)
qed

end
