(* ===== verification/HeartbeatWake.thy ===== *)
theory HeartbeatWake
  imports HeartbeatPolicy
begin

text \<open>
  Heartbeat wakes, \<open>src/infra/heartbeat-wake.ts\<close>: requests are merged per target, a timer coalesces them
  and hands the pending ones to the registered handler, one after the other.

  The module's variables are a record.  A batch that the timer's callback is working on is a suspended
  coroutine: it awaits the handler's answer to one wake, and the events resume it.  Handlers are numbered;
  a batch keeps the handler it started with.  After a new registration batches of the old lifecycle may
  still be in flight, hence a map of batches.  Two fields are ghosts: \<open>hw_calls\<close>, the calls of handlers, and
  \<open>hw_owed\<close>, the targets that were requested (or have to be retried) and not handed to a handler since.
  Times are rational milliseconds.
\<close>

section \<open>State\<close>

record wake_override =
  wo_target :: "string option"
  wo_to :: "string option"
  wo_accountId :: "string option"

record wake_request =
  wr_source :: wake_source
  wr_intent :: wake_intent
  wr_reason :: "string option"
  wr_agentId :: "string option"
  wr_sessionKey :: "string option"
  wr_heartbeat :: "wake_override option"

datatype heartbeat_result = HbRan int | HbSkipped string | HbFailed string

record pending_wake =
  pw_source :: wake_source
  pw_intent :: wake_intent
  pw_reason :: string
  pw_priority :: nat
  pw_requestedAt :: rat
  pw_agentId :: "string option"
  pw_sessionKey :: "string option"
  pw_heartbeat :: "wake_override option"

datatype timer_kind = NormalTimer | RetryTimer

text \<open>The timer with the delay its callback closes over.\<close>

record wake_timer =
  ti_dueAt :: rat
  ti_kind :: timer_kind
  ti_delay :: rat

record wake_batch =
  wb_all :: "pending_wake list"
  wb_current :: pending_wake
  wb_rest :: "pending_wake list"
  wb_delay :: rat
  wb_handler :: nat

record wake_state =
  hw_enabled :: bool
  hw_handler :: "nat option"
  hw_handlerGeneration :: nat
  hw_pendingWakes :: "(string, pending_wake) jsmap"
  hw_scheduled :: bool
  hw_running :: bool
  hw_timer :: "wake_timer option"
  hw_batches :: "(nat, wake_batch) jsmap"
  hw_nextBatch :: nat
  hw_calls :: "(nat \<times> wake_request) list"
  hw_owed :: "string set"

definition initWakeState :: wake_state where
  "initWakeState = \<lparr>hw_enabled = True, hw_handler = None, hw_handlerGeneration = 0, hw_pendingWakes = [],
     hw_scheduled = False, hw_running = False, hw_timer = None, hw_batches = [], hw_nextBatch = 0,
     hw_calls = [], hw_owed = {}\<rparr>"

section \<open>Operations\<close>

fun busyReason :: "nat \<Rightarrow> string" where
  "busyReason n = (if n = 0 then ''requests-in-flight'' else if n = 1 then ''cron-in-progress'' else ''lanes-busy'')"

declare busyReason.simps [simp del]

definition isRetryableHeartbeatBusySkipReason :: "string \<Rightarrow> bool" where
  "isRetryableHeartbeatBusySkipReason reason \<longleftrightarrow> reason = busyReason 0 \<or> reason = busyReason 1 \<or> reason = busyReason 2"

definition DEFAULT_COALESCE_MS :: rat where "DEFAULT_COALESCE_MS = 250"
definition DEFAULT_RETRY_MS :: rat where "DEFAULT_RETRY_MS = 1000"

definition normalizeHeartbeatWakeReason :: "string option \<Rightarrow> string" where
  "normalizeHeartbeatWakeReason reason =
     (case normalizeOptionalString reason of None \<Rightarrow> ''requested'' | Some r \<Rightarrow> r)"

definition resolveWakePriority :: "wake_source \<Rightarrow> wake_intent \<Rightarrow> string \<Rightarrow> nat" where
  "resolveWakePriority source intent reason =
     (if intent = IntentManual \<or> intent = IntentImmediate then 3
      else if source = SrcRetry \<or> reason = ''retry'' then 0
      else if intent = IntentScheduled \<or> source = SrcInterval \<or> reason = ''interval'' then 1
      else 2)"

definition getWakeTargetKey :: "string option \<Rightarrow> string option \<Rightarrow> string" where
  "getWakeTargetKey agentId sessionKey =
     orEmpty (normalizeOptionalString agentId) @ ''::'' @ orEmpty (normalizeOptionalString sessionKey)"

definition pendingOf :: "wake_request \<Rightarrow> rat \<Rightarrow> pending_wake" where
  "pendingOf r requestedAt =
     (let reason = normalizeHeartbeatWakeReason (wr_reason r)
      in \<lparr>pw_source = wr_source r, pw_intent = wr_intent r, pw_reason = reason,
          pw_priority = resolveWakePriority (wr_source r) (wr_intent r) reason, pw_requestedAt = requestedAt,
          pw_agentId = normalizeOptionalString (wr_agentId r),
          pw_sessionKey = normalizeOptionalString (wr_sessionKey r), pw_heartbeat = wr_heartbeat r\<rparr>)"

definition pendingKey :: "pending_wake \<Rightarrow> string" where
  "pendingKey p = getWakeTargetKey (pw_agentId p) (pw_sessionKey p)"

definition mergeHeartbeat :: "pending_wake \<Rightarrow> pending_wake \<Rightarrow> pending_wake" where
  "mergeHeartbeat p previous =
     (if pw_heartbeat p = None then p\<lparr>pw_heartbeat := pw_heartbeat previous\<rparr> else p)"

definition queuePendingWakeReason :: "wake_request \<Rightarrow> rat \<Rightarrow> wake_state \<Rightarrow> wake_state" where
  "queuePendingWakeReason r now S =
     (let p = pendingOf r now; key = pendingKey p; S = S\<lparr>hw_owed := insert key (hw_owed S)\<rparr>
      in case jm_get (hw_pendingWakes S) key of
           None \<Rightarrow> S\<lparr>hw_pendingWakes := jm_set key p (hw_pendingWakes S)\<rparr>
         | Some previous \<Rightarrow>
             if pw_priority p > pw_priority previous \<or>
                pw_priority p = pw_priority previous \<and> pw_requestedAt p \<ge> pw_requestedAt previous
             then S\<lparr>hw_pendingWakes := jm_set key (mergeHeartbeat p previous) (hw_pendingWakes S)\<rparr>
             else S)"

definition scheduleWake :: "jsnum \<Rightarrow> timer_kind \<Rightarrow> rat \<Rightarrow> wake_state \<Rightarrow> wake_state" where
  "scheduleWake coalesceMs kind now S =
     (let delay = (case coalesceMs of Fin r \<Rightarrow> max 0 r | _ \<Rightarrow> DEFAULT_COALESCE_MS);
          dueAt = now + delay;
          armed = S\<lparr>hw_timer := Some \<lparr>ti_dueAt = dueAt, ti_kind = kind, ti_delay = delay\<rparr>\<rparr>
      in case hw_timer S of
           None \<Rightarrow> armed
         | Some t \<Rightarrow>
             if ti_kind t = RetryTimer then S
             else if ti_dueAt t \<le> dueAt then S
             else armed)"

text \<open>The request a batch makes of a pending wake; empty texts are left out.\<close>

definition nonEmpty :: "string option \<Rightarrow> string option" where
  "nonEmpty v = (if v = Some [] then None else v)"

definition wakeRequest :: "pending_wake \<Rightarrow> wake_request" where
  "wakeRequest p = \<lparr>wr_source = pw_source p, wr_intent = pw_intent p, wr_reason = Some (pw_reason p),
     wr_agentId = nonEmpty (pw_agentId p), wr_sessionKey = nonEmpty (pw_sessionKey p),
     wr_heartbeat = pw_heartbeat p\<rparr>"

text \<open>The \<open>finally\<close> block of batch \<open>b\<close>.\<close>

definition finishBatch :: "nat \<Rightarrow> rat \<Rightarrow> rat \<Rightarrow> wake_state \<Rightarrow> wake_state" where
  "finishBatch b delay now S =
     (let S = S\<lparr>hw_running := False, hw_batches := jm_delete b (hw_batches S)\<rparr>
      in if hw_pendingWakes S \<noteq> [] \<or> hw_scheduled S then scheduleWake (Fin delay) NormalTimer now S else S)"

text \<open>The loop over a batch, up to the next await or the end.\<close>

definition continueBatch ::
  "nat \<Rightarrow> nat \<Rightarrow> pending_wake list \<Rightarrow> pending_wake list \<Rightarrow> rat \<Rightarrow> rat \<Rightarrow> wake_state \<Rightarrow> wake_state" where
  "continueBatch b active batch wakes delay now S =
     (case wakes of
        [] \<Rightarrow> finishBatch b delay now S
      | p # rest \<Rightarrow>
          S\<lparr>hw_batches := jm_set b \<lparr>wb_all = batch, wb_current = p, wb_rest = rest, wb_delay = delay,
                                    wb_handler = active\<rparr> (hw_batches S),
            hw_calls := hw_calls S @ [(active, wakeRequest p)],
            hw_owed := (if jm_get (hw_pendingWakes S) (pendingKey p) = None then hw_owed S - {pendingKey p}
                        else hw_owed S)\<rparr>)"

text \<open>The timer fires, not before it is due.\<close>

definition wakeTimerFires :: "rat \<Rightarrow> wake_state \<Rightarrow> wake_state" where
  "wakeTimerFires now S =
     (case hw_timer S of
        None \<Rightarrow> S
      | Some t \<Rightarrow>
          if now < ti_dueAt t then S
          else
            (let S = S\<lparr>hw_timer := None, hw_scheduled := False\<rparr>
             in case hw_handler S of
                  None \<Rightarrow> S
                | Some active \<Rightarrow>
                    if hw_running S
                    then scheduleWake (Fin (ti_delay t)) (ti_kind t) now (S\<lparr>hw_scheduled := True\<rparr>)
                    else
                      (let batch = map snd (hw_pendingWakes S); b = hw_nextBatch S
                       in continueBatch b active batch batch (ti_delay t) now
                            (S\<lparr>hw_pendingWakes := [], hw_running := True, hw_nextBatch := Suc b\<rparr>))))"

definition retryRequest :: "pending_wake \<Rightarrow> wake_request" where
  "retryRequest p = \<lparr>wr_source = pw_source p, wr_intent = pw_intent p, wr_reason = Some (pw_reason p),
     wr_agentId = pw_agentId p, wr_sessionKey = pw_sessionKey p, wr_heartbeat = pw_heartbeat p\<rparr>"

text \<open>The handler answers (\<open>None\<close>: it throws).\<close>

definition wakeSettles :: "nat \<Rightarrow> heartbeat_result option \<Rightarrow> rat \<Rightarrow> wake_state \<Rightarrow> wake_state" where
  "wakeSettles b outcome now S =
     (case jm_get (hw_batches S) b of
        None \<Rightarrow> S
      | Some w \<Rightarrow>
          (case outcome of
             None \<Rightarrow>
               finishBatch b (wb_delay w) now
                 (scheduleWake (Fin DEFAULT_RETRY_MS) RetryTimer now
                   (foldl (\<lambda>S p. queuePendingWakeReason (retryRequest p) now S) S (wb_all w)))
           | Some res \<Rightarrow>
               (let S = (case res of
                           HbSkipped reason \<Rightarrow>
                             if isRetryableHeartbeatBusySkipReason reason
                             then scheduleWake (Fin DEFAULT_RETRY_MS) RetryTimer now
                                    (queuePendingWakeReason (retryRequest (wb_current w)) now S)
                             else S
                         | _ \<Rightarrow> S)
                in continueBatch b (wb_handler w) (wb_all w) (wb_rest w) (wb_delay w) now S)))"

text \<open>The generation and the handler are what the returned disposer closes over.\<close>

definition setHeartbeatWakeHandler :: "nat option \<Rightarrow> rat \<Rightarrow> wake_state \<Rightarrow> (nat \<times> nat option) \<times> wake_state" where
  "setHeartbeatWakeHandler handler now S =
     (let generation = Suc (hw_handlerGeneration S);
          S = S\<lparr>hw_handlerGeneration := generation, hw_handler := handler\<rparr>;
          S = (if handler = None then S
               else S\<lparr>hw_timer := None, hw_running := False, hw_scheduled := False\<rparr>);
          S = (if handler \<noteq> None \<and> hw_pendingWakes S \<noteq> []
               then scheduleWake (Fin DEFAULT_COALESCE_MS) NormalTimer now S else S)
      in ((generation, handler), S))"

definition disposeWakeHandler :: "nat \<times> nat option \<Rightarrow> wake_state \<Rightarrow> wake_state" where
  "disposeWakeHandler disposer S =
     (if hw_handlerGeneration S \<noteq> fst disposer then S
      else if hw_handler S \<noteq> snd disposer then S
      else S\<lparr>hw_handlerGeneration := Suc (hw_handlerGeneration S), hw_handler := None\<rparr>)"

definition requestHeartbeat :: "wake_request \<Rightarrow> jsnum option \<Rightarrow> rat \<Rightarrow> wake_state \<Rightarrow> wake_state" where
  "requestHeartbeat r coalesceMs now S =
     scheduleWake (orDefault coalesceMs (Fin DEFAULT_COALESCE_MS)) NormalTimer now (queuePendingWakeReason r now S)"

definition setHeartbeatsEnabled :: "bool \<Rightarrow> wake_state \<Rightarrow> wake_state" where
  "setHeartbeatsEnabled enabled S = S\<lparr>hw_enabled := enabled\<rparr>"

definition areHeartbeatsEnabled :: "wake_state \<Rightarrow> bool" where
  "areHeartbeatsEnabled S = hw_enabled S"

definition hasHeartbeatWakeHandler :: "wake_state \<Rightarrow> bool" where
  "hasHeartbeatWakeHandler S \<longleftrightarrow> hw_handler S \<noteq> None"

definition hasPendingHeartbeatWake :: "wake_state \<Rightarrow> bool" where
  "hasPendingHeartbeatWake S \<longleftrightarrow> hw_pendingWakes S \<noteq> [] \<or> hw_timer S \<noteq> None \<or> hw_scheduled S"

text \<open>Batches in flight go on; what was requested is forgotten.\<close>

definition resetHeartbeatWakeStateForTests :: "wake_state \<Rightarrow> wake_state" where
  "resetHeartbeatWakeStateForTests S =
     S\<lparr>hw_timer := None, hw_pendingWakes := [], hw_scheduled := False, hw_running := False,
       hw_handlerGeneration := Suc (hw_handlerGeneration S), hw_handler := None, hw_owed := {}\<rparr>"

datatype wake_event =
  WakeRequested wake_request "jsnum option" rat
| WakeTimer rat
| WakeAnswered nat "heartbeat_result option" rat
| WakeHandlerSet "nat option" rat
| WakeHandlerDisposed "nat \<times> nat option"
| WakesEnabled bool

fun wakeStep :: "wake_state \<Rightarrow> wake_event \<Rightarrow> wake_state" where
  "wakeStep S (WakeRequested r coalesceMs now) = requestHeartbeat r coalesceMs now S"
| "wakeStep S (WakeTimer now) = wakeTimerFires now S"
| "wakeStep S (WakeAnswered b outcome now) = wakeSettles b outcome now S"
| "wakeStep S (WakeHandlerSet handler now) = snd (setHeartbeatWakeHandler handler now S)"
| "wakeStep S (WakeHandlerDisposed disposer) = disposeWakeHandler disposer S"
| "wakeStep S (WakesEnabled enabled) = setHeartbeatsEnabled enabled S"

section \<open>No wake is lost\<close>

definition restKeys :: "wake_state \<Rightarrow> string set" where
  "restKeys S = {pendingKey p |p b w. jm_get (hw_batches S) b = Some w \<and> p \<in> set (wb_rest w)}"

definition batches_ok :: "wake_state \<Rightarrow> bool" where
  "batches_ok S \<longleftrightarrow> (\<forall>b w. jm_get (hw_batches S) b = Some w \<longrightarrow>
     b < hw_nextBatch S \<and> set (wb_current w # wb_rest w) \<subseteq> set (wb_all w))"

definition pending_ok :: "wake_state \<Rightarrow> bool" where
  "pending_ok S \<longleftrightarrow> jm_wf (hw_pendingWakes S) \<and>
     (\<forall>k p. jm_get (hw_pendingWakes S) k = Some p \<longrightarrow> pendingKey p = k)"

definition owed_ok :: "wake_state \<Rightarrow> bool" where
  "owed_ok S \<longleftrightarrow> hw_owed S \<subseteq> dom (jm_get (hw_pendingWakes S)) \<union> restKeys S"

definition armed_ok :: "wake_state \<Rightarrow> bool" where
  "armed_ok S \<longleftrightarrow> (hw_running S \<longrightarrow> hw_batches S \<noteq> []) \<and>
     (hw_handler S \<noteq> None \<and> hw_pendingWakes S \<noteq> [] \<longrightarrow> hw_timer S \<noteq> None \<or> hw_running S)"

definition wakeInv :: "wake_state \<Rightarrow> bool" where
  "wakeInv S \<longleftrightarrow> batches_ok S \<and> pending_ok S \<and> owed_ok S \<and> armed_ok S"

lemma scheduleWake_view [simp]:
  "hw_pendingWakes (scheduleWake c k now S) = hw_pendingWakes S" "hw_batches (scheduleWake c k now S) = hw_batches S"
  "hw_running (scheduleWake c k now S) = hw_running S" "hw_handler (scheduleWake c k now S) = hw_handler S"
  "hw_owed (scheduleWake c k now S) = hw_owed S" "hw_nextBatch (scheduleWake c k now S) = hw_nextBatch S"
  "hw_calls (scheduleWake c k now S) = hw_calls S" "hw_scheduled (scheduleWake c k now S) = hw_scheduled S"
  "\<exists>t. hw_timer (scheduleWake c k now S) = Some t" "restKeys (scheduleWake c k now S) = restKeys S"
  by (auto simp: scheduleWake_def restKeys_def Let_def split: option.split)

lemma queue_view [simp]:
  "hw_batches (queuePendingWakeReason r now S) = hw_batches S" "hw_running (queuePendingWakeReason r now S) = hw_running S"
  "hw_handler (queuePendingWakeReason r now S) = hw_handler S" "hw_nextBatch (queuePendingWakeReason r now S) = hw_nextBatch S"
  "hw_timer (queuePendingWakeReason r now S) = hw_timer S" "hw_scheduled (queuePendingWakeReason r now S) = hw_scheduled S"
  "restKeys (queuePendingWakeReason r now S) = restKeys S"
  by (auto simp: queuePendingWakeReason_def restKeys_def Let_def split: option.split)

definition requestKey :: "wake_request \<Rightarrow> string" where
  "requestKey r = getWakeTargetKey (wr_agentId r) (wr_sessionKey r)"

lemma pendingKey_of [simp]: "pendingKey (pendingOf r now) = requestKey r"
  by (simp add: pendingKey_def pendingOf_def requestKey_def getWakeTargetKey_def Let_def)

lemma pendingKey_merge [simp]: "pendingKey (mergeHeartbeat p q) = pendingKey p"
  by (simp add: mergeHeartbeat_def pendingKey_def)

lemma requestKey_retry [simp]: "requestKey (retryRequest p) = pendingKey p"
  by (simp add: requestKey_def retryRequest_def pendingKey_def)

lemma queue_owed [simp]: "hw_owed (queuePendingWakeReason r now S) = insert (requestKey r) (hw_owed S)"
  by (simp add: queuePendingWakeReason_def Let_def split: option.split)

lemma queue_dom [simp]:
  "dom (jm_get (hw_pendingWakes (queuePendingWakeReason r now S))) =
   insert (requestKey r) (dom (jm_get (hw_pendingWakes S)))"
  by (auto simp: queuePendingWakeReason_def Let_def jm_get_set dom_def split: option.split if_splits)

lemma queue_pending_ok: "pending_ok S \<Longrightarrow> pending_ok (queuePendingWakeReason r now S)"
  by (auto simp: queuePendingWakeReason_def pending_ok_def Let_def jm_get_set simp del: map_of_eq_Some_iff
      split: option.split if_splits)

lemma restKeys_cong: "hw_batches S = hw_batches T \<Longrightarrow> restKeys S = restKeys T"
  by (simp add: restKeys_def)

lemma restKeys_set:
  assumes "hw_batches T = jm_set b w (hw_batches S)"
  shows "restKeys S - (case jm_get (hw_batches S) b of None \<Rightarrow> {} | Some v \<Rightarrow> pendingKey ` set (wb_rest v))
      \<union> pendingKey ` set (wb_rest w) \<subseteq> restKeys T"
proof
  fix k
  assume k: "k \<in> restKeys S - (case jm_get (hw_batches S) b of None \<Rightarrow> {} | Some v \<Rightarrow> pendingKey ` set (wb_rest v))
      \<union> pendingKey ` set (wb_rest w)"
  have get: "jm_get (hw_batches T) b' = (if b' = b then Some w else jm_get (hw_batches S) b')" for b'
    by (simp add: assms jm_get_set)
  from k consider "k \<in> pendingKey ` set (wb_rest w)"
    | b' v p where "jm_get (hw_batches S) b' = Some v" "p \<in> set (wb_rest v)" "k = pendingKey p"
        "k \<notin> (case jm_get (hw_batches S) b of None \<Rightarrow> {} | Some v \<Rightarrow> pendingKey ` set (wb_rest v))"
    unfolding restKeys_def by blast
  then show "k \<in> restKeys T"
  proof cases
    case 1
    then obtain p where p: "p \<in> set (wb_rest w)" "k = pendingKey p" by auto
    have "jm_get (hw_batches T) b = Some w" by (simp only: get) simp
    with p show ?thesis unfolding restKeys_def by blast
  next
    case 2
    then have "b' \<noteq> b" by auto
    with 2(1) have "jm_get (hw_batches T) b' = Some v" by (simp only: get) simp
    with 2(2,3) show ?thesis unfolding restKeys_def by blast
  qed
qed

lemma restKeys_delete:
  assumes "hw_batches T = jm_delete b (hw_batches S)"
  shows "restKeys S - (case jm_get (hw_batches S) b of None \<Rightarrow> {} | Some v \<Rightarrow> pendingKey ` set (wb_rest v))
      \<subseteq> restKeys T"
proof
  fix k
  assume "k \<in> restKeys S - (case jm_get (hw_batches S) b of None \<Rightarrow> {} | Some v \<Rightarrow> pendingKey ` set (wb_rest v))"
  then obtain b' v p where v: "jm_get (hw_batches S) b' = Some v" "p \<in> set (wb_rest v)" "k = pendingKey p"
      "k \<notin> (case jm_get (hw_batches S) b of None \<Rightarrow> {} | Some v \<Rightarrow> pendingKey ` set (wb_rest v))"
    unfolding restKeys_def by blast
  then have "b' \<noteq> b" by auto
  with v(1) have "jm_get (hw_batches T) b' = Some v" by (simp only: assms jm_get_delete) simp
  with v(2,3) show "k \<in> restKeys T" unfolding restKeys_def by blast
qed

text \<open>The state of a batch between two awaits: its remaining wakes \<open>todo\<close> are the batch's own business.\<close>

definition betweenAwaits :: "nat \<Rightarrow> pending_wake list \<Rightarrow> pending_wake list \<Rightarrow> wake_state \<Rightarrow> bool" where
  "betweenAwaits b batch todo S \<longleftrightarrow> batches_ok S \<and> pending_ok S \<and> b < hw_nextBatch S \<and> set todo \<subseteq> set batch \<and>
     hw_owed S \<subseteq> dom (jm_get (hw_pendingWakes S)) \<union>
       (restKeys S - (case jm_get (hw_batches S) b of None \<Rightarrow> {} | Some v \<Rightarrow> pendingKey ` set (wb_rest v))) \<union>
       pendingKey ` set todo"

lemma finishBatch_inv:
  assumes "betweenAwaits b batch [] S"
  shows "wakeInv (finishBatch b delay now S)"
proof -
  let ?S = "S\<lparr>hw_running := False, hw_batches := jm_delete b (hw_batches S)\<rparr>"
  have "batches_ok ?S" "pending_ok ?S"
    using assms by (simp_all add: betweenAwaits_def batches_ok_def pending_ok_def jm_get_delete)
  moreover have "owed_ok ?S"
    using assms restKeys_delete [of ?S b S] by (auto simp: betweenAwaits_def owed_ok_def)
  ultimately show ?thesis
    using scheduleWake_view(9) [of "Fin delay" NormalTimer now ?S]
    by (auto simp: finishBatch_def Let_def wakeInv_def batches_ok_def pending_ok_def owed_ok_def armed_ok_def
        simp del: map_of_eq_Some_iff)
qed

lemma jm_set_nonempty [simp]: "jm_set k v m \<noteq> []"
  by (cases m) auto

lemma continueBatch_inv:
  assumes "betweenAwaits b batch todo S"
    and "hw_handler S \<noteq> None \<and> hw_pendingWakes S \<noteq> [] \<longrightarrow> hw_timer S \<noteq> None \<or> hw_running S"
  shows "wakeInv (continueBatch b active batch todo delay now S)"
proof (cases todo)
  case Nil
  then show ?thesis using finishBatch_inv [of b batch S] assms(1) by (simp add: continueBatch_def)
next
  case (Cons p rest)
  let ?w = "\<lparr>wb_all = batch, wb_current = p, wb_rest = rest, wb_delay = delay, wb_handler = active\<rparr>"
  let ?S = "continueBatch b active batch todo delay now S"
  have S: "hw_batches ?S = jm_set b ?w (hw_batches S)" "hw_pendingWakes ?S = hw_pendingWakes S"
    "hw_nextBatch ?S = hw_nextBatch S" "hw_handler ?S = hw_handler S" "hw_timer ?S = hw_timer S"
    "hw_running ?S = hw_running S" using Cons by (simp_all add: continueBatch_def)
  have "batches_ok ?S"
    using assms(1) Cons unfolding betweenAwaits_def batches_ok_def S by (auto simp: jm_get_set split: if_splits)
  moreover have "pending_ok ?S" using assms(1) unfolding betweenAwaits_def pending_ok_def S by blast
  moreover have "armed_ok ?S" using assms(2) unfolding armed_ok_def S by simp
  moreover have "owed_ok ?S"
  proof -
    have "hw_owed ?S \<subseteq> hw_owed S" using Cons by (auto simp: continueBatch_def)
    moreover have "pendingKey p \<in> dom (jm_get (hw_pendingWakes S)) \<or> hw_owed ?S \<subseteq> hw_owed S - {pendingKey p}"
      using Cons by (simp add: continueBatch_def dom_def)
    moreover have "hw_owed S \<subseteq> dom (jm_get (hw_pendingWakes S)) \<union>
       (restKeys S - (case jm_get (hw_batches S) b of None \<Rightarrow> {} | Some v \<Rightarrow> pendingKey ` set (wb_rest v))) \<union>
       insert (pendingKey p) (pendingKey ` set rest)" using assms(1) Cons by (simp add: betweenAwaits_def)
    moreover have "restKeys S - (case jm_get (hw_batches S) b of None \<Rightarrow> {} | Some v \<Rightarrow> pendingKey ` set (wb_rest v))
        \<union> pendingKey ` set rest \<subseteq> restKeys ?S" using restKeys_set [OF S(1)] by simp
    ultimately show ?thesis unfolding owed_ok_def S(2) by blast
  qed
  ultimately show ?thesis by (simp add: wakeInv_def)
qed

lemma wakeInv_same:
  assumes "wakeInv S" "hw_batches T = hw_batches S" "hw_pendingWakes T = hw_pendingWakes S" "hw_owed T = hw_owed S"
    "hw_nextBatch T = hw_nextBatch S" "hw_running T \<longrightarrow> hw_running S"
    "hw_handler T \<noteq> None \<and> hw_pendingWakes T \<noteq> [] \<longrightarrow> hw_timer T \<noteq> None \<or> hw_running T"
  shows "wakeInv T"
  using assms restKeys_cong [OF assms(2)]
  unfolding wakeInv_def batches_ok_def pending_ok_def owed_ok_def armed_ok_def by metis

lemma fires_inv:
  assumes "wakeInv S"
  shows "wakeInv (wakeTimerFires now S)"
proof (cases "hw_timer S")
  case None
  with assms show ?thesis by (simp add: wakeTimerFires_def)
next
  case (Some t)
  let ?S = "S\<lparr>hw_timer := None, hw_scheduled := False\<rparr>"
  show ?thesis
  proof (cases "now < ti_dueAt t \<or> hw_handler S = None")
    case True
    have "wakeInv ?S" if "hw_handler S = None" by (rule wakeInv_same [OF assms]) (simp_all add: that)
    with True Some assms show ?thesis by (auto simp: wakeTimerFires_def)
  next
    case False
    then obtain active where h: "hw_handler S = Some active" by auto
    show ?thesis
    proof (cases "hw_running S")
      case True
      let ?T = "scheduleWake (Fin (ti_delay t)) (ti_kind t) now (?S\<lparr>hw_scheduled := True\<rparr>)"
      have "wakeTimerFires now S = ?T" using Some False h True by (simp add: wakeTimerFires_def)
      moreover have "wakeInv ?T" by (rule wakeInv_same [OF assms]) simp_all
      ultimately show ?thesis by simp
    next
      case False2: False
      let ?batch = "map snd (hw_pendingWakes S)" and ?b = "hw_nextBatch S"
      let ?T = "?S\<lparr>hw_pendingWakes := [], hw_running := True, hw_nextBatch := Suc ?b\<rparr>"
      have eq: "wakeTimerFires now S = continueBatch ?b active ?batch ?batch (ti_delay t) now ?T"
        using Some False h False2 by (simp add: wakeTimerFires_def Let_def)
      have fresh: "jm_get (hw_batches S) ?b = None"
        using assms by (cases "jm_get (hw_batches S) ?b") (auto simp: wakeInv_def batches_ok_def simp del: map_of_eq_Some_iff)
      have rest: "restKeys ?T = restKeys S" by (rule restKeys_cong) simp
      have keys: "dom (jm_get (hw_pendingWakes S)) = pendingKey ` set ?batch"
      proof -
        have "pendingKey (snd e) = fst e" if "e \<in> set (hw_pendingWakes S)" for e
        proof -
          have "jm_get (hw_pendingWakes S) (fst e) = Some (snd e)"
            using that assms by (simp add: wakeInv_def pending_ok_def)
          then show ?thesis using assms by (simp add: wakeInv_def pending_ok_def del: map_of_eq_Some_iff)
        qed
        then have "(\<lambda>e. pendingKey (snd e)) ` set (hw_pendingWakes S) = fst ` set (hw_pendingWakes S)"
          by (intro image_cong) simp_all
        then show ?thesis by (simp add: dom_map_of_conv_image_fst image_image)
      qed
      have "betweenAwaits ?b ?batch ?batch ?T"
        using assms fresh rest keys
        by (auto simp: betweenAwaits_def wakeInv_def batches_ok_def pending_ok_def owed_ok_def less_Suc_eq
            simp del: map_of_eq_Some_iff)
      then show ?thesis unfolding eq by (rule continueBatch_inv) simp
    qed
  qed
qed

text \<open>Queueing in a batch: the request joins the pending ones, nothing leaves.\<close>

lemma queue_between:
  assumes "betweenAwaits b batch todo S"
  shows "betweenAwaits b batch todo (queuePendingWakeReason r now S)"
  using assms queue_pending_ok [of S r now] unfolding betweenAwaits_def batches_ok_def by auto

lemma schedule_between [simp]: "betweenAwaits b batch todo (scheduleWake c k now S) = betweenAwaits b batch todo S"
  by (simp add: betweenAwaits_def batches_ok_def pending_ok_def)

lemma requeue_between:
  "betweenAwaits b batch todo S \<Longrightarrow>
   betweenAwaits b batch todo (foldl (\<lambda>S p. queuePendingWakeReason (retryRequest p) now S) S ps)"
  by (induction ps arbitrary: S) (simp_all add: queue_between)

lemma requeue_view:
  "restKeys (foldl (\<lambda>S p. queuePendingWakeReason (retryRequest p) now S) S ps) = restKeys S"
  "hw_batches (foldl (\<lambda>S p. queuePendingWakeReason (retryRequest p) now S) S ps) = hw_batches S"
  "dom (jm_get (hw_pendingWakes (foldl (\<lambda>S p. queuePendingWakeReason (retryRequest p) now S) S ps))) =
   dom (jm_get (hw_pendingWakes S)) \<union> pendingKey ` set ps"
  by (induction ps arbitrary: S) auto

text \<open>A batch whose wakes are all pending again has nothing left to do.\<close>

lemma between_done:
  assumes "betweenAwaits b batch todo S" "pendingKey ` set batch \<subseteq> dom (jm_get (hw_pendingWakes S))"
  shows "betweenAwaits b batch [] S"
proof -
  have "pendingKey ` set todo \<subseteq> dom (jm_get (hw_pendingWakes S))"
    using assms unfolding betweenAwaits_def by blast
  with assms(1) show ?thesis unfolding betweenAwaits_def by simp blast
qed

lemma settles_inv:
  assumes "wakeInv S"
  shows "wakeInv (wakeSettles b outcome now S)"
proof (cases "jm_get (hw_batches S) b")
  case None
  with assms show ?thesis by (simp add: wakeSettles_def)
next
  case (Some w)
  have b: "betweenAwaits b (wb_all w) (wb_rest w) S"
    using assms Some unfolding betweenAwaits_def wakeInv_def batches_ok_def owed_ok_def by auto
  have armed: "hw_handler S \<noteq> None \<and> hw_pendingWakes S \<noteq> [] \<longrightarrow> hw_timer S \<noteq> None \<or> hw_running S"
    using assms by (simp add: wakeInv_def armed_ok_def)
  show ?thesis
  proof (cases outcome)
    case None
    let ?T = "foldl (\<lambda>S p. queuePendingWakeReason (retryRequest p) now S) S (wb_all w)"
    have "betweenAwaits b (wb_all w) [] ?T"
      by (rule between_done [OF requeue_between [OF b]]) (simp add: requeue_view)
    then have "betweenAwaits b (wb_all w) [] (scheduleWake (Fin DEFAULT_RETRY_MS) RetryTimer now ?T)" by simp
    from finishBatch_inv [OF this] show ?thesis using Some None by (simp add: wakeSettles_def)
  next
    case res: (Some res)
    let ?T = "scheduleWake (Fin DEFAULT_RETRY_MS) RetryTimer now
                (queuePendingWakeReason (retryRequest (wb_current w)) now S)"
    have "betweenAwaits b (wb_all w) (wb_rest w) ?T" using queue_between [OF b] by simp
    then have "wakeInv (continueBatch b (wb_handler w) (wb_all w) (wb_rest w) (wb_delay w) now ?T)"
      by (rule continueBatch_inv) (use scheduleWake_view(9) in simp)
    moreover have "wakeInv (continueBatch b (wb_handler w) (wb_all w) (wb_rest w) (wb_delay w) now S)"
      by (rule continueBatch_inv [OF b armed])
    ultimately show ?thesis using Some res
      by (simp add: wakeSettles_def Let_def split: heartbeat_result.split)
  qed
qed

lemma request_inv: "wakeInv S \<Longrightarrow> wakeInv (requestHeartbeat r c now S)"
proof -
  assume S: "wakeInv S"
  let ?T = "queuePendingWakeReason r now S"
  have "batches_ok ?T \<and> pending_ok ?T \<and> owed_ok ?T \<and> (hw_running ?T \<longrightarrow> hw_batches ?T \<noteq> [])"
    using S queue_pending_ok [of S r now]
    unfolding wakeInv_def batches_ok_def owed_ok_def armed_ok_def by auto
  then show ?thesis
    using scheduleWake_view(9) [of "orDefault c (Fin DEFAULT_COALESCE_MS)" NormalTimer now ?T]
    unfolding requestHeartbeat_def wakeInv_def batches_ok_def pending_ok_def owed_ok_def armed_ok_def by auto
qed

lemma handler_inv: "wakeInv S \<Longrightarrow> wakeInv (snd (setHeartbeatWakeHandler h now S))"
proof -
  assume S: "wakeInv S"
  let ?U = "S\<lparr>hw_handlerGeneration := Suc (hw_handlerGeneration S), hw_handler := h, hw_timer := None,
      hw_running := False, hw_scheduled := False\<rparr>"
  let ?T = "scheduleWake (Fin DEFAULT_COALESCE_MS) NormalTimer now ?U"
  have "wakeInv (S\<lparr>hw_handlerGeneration := Suc (hw_handlerGeneration S), hw_handler := None\<rparr>)"
    by (rule wakeInv_same [OF S]) simp_all
  moreover have "wakeInv ?T"
    by (rule wakeInv_same [OF S]) simp_all
  moreover have "wakeInv ?U" if "hw_pendingWakes S = []"
    by (rule wakeInv_same [OF S]) (simp_all add: that)
  ultimately show ?thesis by (simp add: setHeartbeatWakeHandler_def Let_def)
qed

lemma dispose_inv: "wakeInv S \<Longrightarrow> wakeInv (disposeWakeHandler d S)"
  by (auto simp: disposeWakeHandler_def intro: wakeInv_same)

lemma wakeStep_inv: "wakeInv S \<Longrightarrow> wakeInv (wakeStep S ev)"
proof (cases ev)
  case (WakesEnabled e)
  assume "wakeInv S"
  then have "wakeInv (setHeartbeatsEnabled e S)"
    by (rule wakeInv_same) (use \<open>wakeInv S\<close> in \<open>auto simp: setHeartbeatsEnabled_def wakeInv_def armed_ok_def\<close>)
  with WakesEnabled show ?thesis by simp
qed (simp_all add: request_inv fires_inv settles_inv handler_inv dispose_inv)

interpretation wakes: invariant_system wakeStep wakeInv
  by unfold_locales (rule wakeStep_inv)

lemma reset_wakeInv: "wakeInv S \<Longrightarrow> wakeInv (resetHeartbeatWakeStateForTests S)"
  by (simp add: wakeInv_def batches_ok_def pending_ok_def owed_ok_def armed_ok_def resetHeartbeatWakeStateForTests_def)

lemma init_wakeInv: "wakeInv initWakeState"
  by (simp add: wakeInv_def batches_ok_def pending_ok_def owed_ok_def armed_ok_def initWakeState_def)

text \<open>
  What the module owes is read off the events and the calls of handlers alone: a target is owed a call when
  it is requested, and again when the call for it is answered with one of the busy reasons or throws; a call
  for the target pays.
\<close>

fun requestedTargets :: "wake_event \<Rightarrow> string set" where
  "requestedTargets (WakeRequested r coalesceMs now) = {requestKey r}"
| "requestedTargets _ = {}"

definition retriedTargets :: "wake_state \<Rightarrow> wake_event \<Rightarrow> string set" where
  "retriedTargets S ev =
     (case ev of
        WakeAnswered b outcome now \<Rightarrow>
          (case jm_get (hw_batches S) b of
             None \<Rightarrow> {}
           | Some w \<Rightarrow>
               (case outcome of
                  None \<Rightarrow> {requestKey (wakeRequest (wb_current w))}
                | Some (HbSkipped reason) \<Rightarrow>
                    if reason \<in> {''requests-in-flight'', ''cron-in-progress'', ''lanes-busy''}
                    then {requestKey (wakeRequest (wb_current w))} else {}
                | Some _ \<Rightarrow> {}))
      | _ \<Rightarrow> {})"

definition calledTargets :: "wake_state \<Rightarrow> wake_state \<Rightarrow> string set" where
  "calledTargets S S' = (\<lambda>(h, r). requestKey r) ` set (drop (length (hw_calls S)) (hw_calls S'))"

definition owedStep :: "wake_state \<times> string set \<Rightarrow> wake_event \<Rightarrow> wake_state \<times> string set" where
  "owedStep Q ev =
     (let S' = wakeStep (fst Q) ev
      in (S', (snd Q \<union> requestedTargets ev \<union> retriedTargets (fst Q) ev) - calledTargets (fst Q) S'))"

lemma requestKey_wakeRequest [simp]: "requestKey (wakeRequest p) = pendingKey p"
  by (simp add: requestKey_def wakeRequest_def pendingKey_def getWakeTargetKey_def nonEmpty_def
      normalizeOptionalString_def normalizeNullableString_def orEmpty_def Let_def)

lemma queue_calls [simp]: "hw_calls (queuePendingWakeReason r now S) = hw_calls S"
  by (auto simp: queuePendingWakeReason_def Let_def split: option.split)

lemma requeue_owed:
  "hw_calls (foldl (\<lambda>S p. queuePendingWakeReason (retryRequest p) now S) S ps) = hw_calls S"
  "hw_owed (foldl (\<lambda>S p. queuePendingWakeReason (retryRequest p) now S) S ps) = hw_owed S \<union> pendingKey ` set ps"
  by (induction ps arbitrary: S) auto

lemma finish_owed [simp]:
  "hw_owed (finishBatch b delay now S) = hw_owed S" "hw_calls (finishBatch b delay now S) = hw_calls S"
  by (simp_all add: finishBatch_def Let_def)

text \<open>A step from \<open>S\<close> to \<open>S'\<close> that drops no target it does not call.\<close>

definition keepsOwed :: "wake_state \<Rightarrow> string set \<Rightarrow> wake_state \<Rightarrow> bool" where
  "keepsOwed S new S' \<longleftrightarrow> (hw_owed S \<union> new) - calledTargets S S' \<subseteq> hw_owed S'"

lemma keepsOwed_same: "new \<subseteq> hw_owed S' \<Longrightarrow> hw_owed S \<subseteq> hw_owed S' \<Longrightarrow> keepsOwed S new S'"
  by (auto simp: keepsOwed_def)

lemma keepsOwed_continue:
  assumes "hw_calls T = hw_calls S" "hw_owed S \<union> new \<subseteq> hw_owed T"
  shows "keepsOwed S new (continueBatch b active batch todo delay now T)"
proof (cases todo)
  case Nil
  with assms show ?thesis by (simp add: continueBatch_def keepsOwed_def) blast
next
  case (Cons p rest)
  with assms have "calledTargets S (continueBatch b active batch todo delay now T) = {pendingKey p}"
    by (simp add: continueBatch_def calledTargets_def)
  moreover have "hw_owed T - {pendingKey p} \<subseteq> hw_owed (continueBatch b active batch todo delay now T)"
    using Cons by (auto simp: continueBatch_def)
  ultimately show ?thesis using assms(2) unfolding keepsOwed_def by blast
qed

lemma retryable_iff:
  "isRetryableHeartbeatBusySkipReason r \<longleftrightarrow> r \<in> {''requests-in-flight'', ''cron-in-progress'', ''lanes-busy''}"
  by (auto simp: isRetryableHeartbeatBusySkipReason_def busyReason.simps)

lemma settles_owed:
  assumes "batches_ok S"
  shows "keepsOwed S (retriedTargets S (WakeAnswered b outcome now)) (wakeSettles b outcome now S)"
proof (cases "jm_get (hw_batches S) b")
  case None
  then show ?thesis by (auto simp: wakeSettles_def retriedTargets_def intro: keepsOwed_same)
next
  case (Some w)
  show ?thesis
  proof (cases outcome)
    case None
    have "wb_current w \<in> set (wb_all w)" using assms Some by (simp add: batches_ok_def)
    with None Some show ?thesis
      by (intro keepsOwed_same) (auto simp: wakeSettles_def retriedTargets_def requeue_owed)
  next
    case res: (Some res)
    show ?thesis
    proof (cases "\<exists>r. res = HbSkipped r \<and> isRetryableHeartbeatBusySkipReason r")
      case True
      with Some res show ?thesis
        by (auto simp: wakeSettles_def retriedTargets_def Let_def retryable_iff intro!: keepsOwed_continue)
    next
      case False
      with Some res show ?thesis
        by (cases res) (auto simp: wakeSettles_def retriedTargets_def Let_def retryable_iff intro!: keepsOwed_continue)
    qed
  qed
qed

lemma step_owed:
  assumes "batches_ok S"
  shows "keepsOwed S (requestedTargets ev \<union> retriedTargets S ev) (wakeStep S ev)"
proof (cases ev)
  case (WakeRequested r c now)
  then show ?thesis by (auto simp: retriedTargets_def requestHeartbeat_def intro: keepsOwed_same)
next
  case (WakeTimer now)
  then show ?thesis
    by (auto simp: retriedTargets_def wakeTimerFires_def Let_def split: option.split
        intro: keepsOwed_same intro!: keepsOwed_continue)
next
  case (WakeAnswered b outcome now)
  with settles_owed [OF assms] show ?thesis by simp
next
  case (WakeHandlerSet h now)
  then show ?thesis
    by (auto simp: retriedTargets_def setHeartbeatWakeHandler_def Let_def intro: keepsOwed_same)
qed (auto simp: retriedTargets_def disposeWakeHandler_def setHeartbeatsEnabled_def intro: keepsOwed_same)

lemma owedStep_fst: "fst (owedStep Q ev) = wakeStep (fst Q) ev"
  by (simp add: owedStep_def Let_def)

lemma owed_run:
  "wakeInv (fst (foldl owedStep (initWakeState, {}) evs)) \<and>
   snd (foldl owedStep (initWakeState, {}) evs) \<subseteq> hw_owed (fst (foldl owedStep (initWakeState, {}) evs))"
proof (induction evs rule: rev_induct)
  case Nil
  then show ?case by (simp add: init_wakeInv)
next
  case (snoc ev evs)
  let ?Q = "foldl owedStep (initWakeState, {}) evs"
  have "keepsOwed (fst ?Q) (requestedTargets ev \<union> retriedTargets (fst ?Q) ev) (wakeStep (fst ?Q) ev)"
    using snoc by (intro step_owed) (simp add: wakeInv_def)
  with snoc have "snd (owedStep ?Q ev) \<subseteq> hw_owed (wakeStep (fst ?Q) ev)"
    unfolding owedStep_def keepsOwed_def Let_def by auto
  with snoc wakeStep_inv show ?case by (simp add: owedStep_fst)
qed

text \<open>C9. No wake is lost: at any time a target that is owed a call is pending or ahead in a batch that is being
  worked on.  Owed is what the events and the calls say, not what the module remembers: a target that was
  requested and for which no handler was called since, and a target whose call was answered as busy or
  threw and which was not called again since.  And while a handler is registered, pending wakes have a
  timer, or a batch in flight, whose end arms one.  Targets are told apart by their key.\<close>

theorem heartbeat_wake_not_lost:
  assumes "(S, owed) = foldl owedStep (initWakeState, {}) evs"
  shows "(\<forall>k \<in> owed. jm_get (hw_pendingWakes S) k \<noteq> None \<or>
      (\<exists>b w. jm_get (hw_batches S) b = Some w \<and> k \<in> pendingKey ` set (wb_rest w))) \<and>
    (hw_handler S \<noteq> None \<and> hw_pendingWakes S \<noteq> [] \<longrightarrow>
      hw_timer S \<noteq> None \<or> hw_running S \<and> hw_batches S \<noteq> [])"
proof -
  have "wakeInv S" and sub: "owed \<subseteq> hw_owed S"
    using owed_run [of evs] by (simp_all add: assms [symmetric])
  then have o: "owed_ok S" and a: "armed_ok S" by (simp_all add: wakeInv_def)
  show ?thesis
  proof (intro conjI ballI)
    fix k assume "k \<in> owed"
    with o sub have "k \<in> dom (jm_get (hw_pendingWakes S)) \<union> restKeys S" unfolding owed_ok_def by blast
    then show "jm_get (hw_pendingWakes S) k \<noteq> None \<or>
        (\<exists>b w. jm_get (hw_batches S) b = Some w \<and> k \<in> pendingKey ` set (wb_rest w))"
      unfolding restKeys_def by blast
  qed (use a in \<open>auto simp: armed_ok_def\<close>)
qed

definition sampleWake :: "string \<Rightarrow> wake_request" where
  "sampleWake agent = \<lparr>wr_source = SrcHook, wr_intent = IntentEvent, wr_reason = None, wr_agentId = Some agent,
     wr_sessionKey = None, wr_heartbeat = None\<rparr>"

text \<open>Two targets are requested and the first one is busy.\<close>

definition sampleWakes :: "wake_event list" where
  "sampleWakes = [WakeHandlerSet (Some 1) 0, WakeRequested (sampleWake ''a'') None 0, WakeRequested (sampleWake ''b'') None 0,
     WakeTimer 250, WakeAnswered 0 (Some (HbSkipped (busyReason 0))) 300]"

lemmas wake_eval = initWakeState_def sampleWake_def requestHeartbeat_def queuePendingWakeReason_def pendingOf_def
  pendingKey_def getWakeTargetKey_def scheduleWake_def wakeTimerFires_def continueBatch_def wakeSettles_def
  setHeartbeatWakeHandler_def finishBatch_def retryRequest_def wakeRequest_def mergeHeartbeat_def
  isRetryableHeartbeatBusySkipReason_def busyReason.simps DEFAULT_COALESCE_MS_def DEFAULT_RETRY_MS_def orDefault_def
  normalizeOptionalString_def normalizeNullableString_def resolveWakePriority_def
  normalizeHeartbeatWakeReason_def orEmpty_def js_trim_def js_trim_end_def js_trim_start_def js_ws_def Let_def

theorem heartbeat_wake_not_lost_witness:
  "\<exists>S owed. (S, owed) = foldl owedStep (initWakeState, {}) sampleWakes \<and> ''a::'' \<in> owed \<and>
     (jm_get (hw_pendingWakes S) ''a::'' \<noteq> None \<or>
      (\<exists>b w. jm_get (hw_batches S) b = Some w \<and> ''a::'' \<in> pendingKey ` set (wb_rest w)))"
proof -
  obtain S owed where Q: "(S, owed) = foldl owedStep (initWakeState, {}) sampleWakes"
    by (metis surj_pair)
  have "''a::'' \<in> snd (foldl owedStep (initWakeState, {}) sampleWakes)"
    by code_simp
  then have "''a::'' \<in> owed" by (simp add: Q [symmetric])
  with heartbeat_wake_not_lost [OF Q] Q show ?thesis by blast
qed

section \<open>The retry cooldown\<close>

fun eventTime :: "wake_event \<Rightarrow> rat option" where
  "eventTime (WakeRequested r c now) = Some now"
| "eventTime (WakeTimer now) = Some now"
| "eventTime (WakeAnswered b outcome now) = Some now"
| "eventTime (WakeHandlerSet h now) = Some now"
| "eventTime _ = None"

fun newHandler :: "wake_event \<Rightarrow> bool" where
  "newHandler (WakeHandlerSet (Some h) now) = True"
| "newHandler _ = False"

definition coolingDown :: "wake_timer \<Rightarrow> wake_state \<Rightarrow> bool" where
  "coolingDown t S \<longleftrightarrow> hw_timer S = Some t \<and> ti_kind t = RetryTimer"

lemma cooling_schedule [simp]: "coolingDown t S \<Longrightarrow> scheduleWake c k now S = S"
  by (simp add: coolingDown_def scheduleWake_def Let_def)

lemma cooling_queue [simp]: "coolingDown t (queuePendingWakeReason r now S) = coolingDown t S"
  by (simp add: coolingDown_def)

lemma cooling_requeue [simp]:
  "coolingDown t (foldl (\<lambda>S p. queuePendingWakeReason (retryRequest p) now S) S ps) = coolingDown t S \<and>
   hw_nextBatch (foldl (\<lambda>S p. queuePendingWakeReason (retryRequest p) now S) S ps) = hw_nextBatch S"
  by (induction ps arbitrary: S) simp_all

lemma cooling_finish:
  assumes "coolingDown t S"
  shows "coolingDown t (finishBatch b delay now S)" "hw_nextBatch (finishBatch b delay now S) = hw_nextBatch S"
proof -
  have "coolingDown t (S\<lparr>hw_running := False, hw_batches := jm_delete b (hw_batches S)\<rparr>)"
    using assms by (simp add: coolingDown_def)
  then show "coolingDown t (finishBatch b delay now S)" "hw_nextBatch (finishBatch b delay now S) = hw_nextBatch S"
    by (simp_all add: finishBatch_def Let_def)
qed

lemma cooling_continue:
  assumes "coolingDown t S"
  shows "coolingDown t (continueBatch b active batch todo delay now S)"
    "hw_nextBatch (continueBatch b active batch todo delay now S) = hw_nextBatch S"
  using assms cooling_finish [OF assms]
  by (auto simp: continueBatch_def coolingDown_def split: list.split)

lemma cooling_settles:
  assumes "coolingDown t S"
  shows "coolingDown t (wakeSettles b outcome now S) \<and> hw_nextBatch (wakeSettles b outcome now S) = hw_nextBatch S"
proof (cases "jm_get (hw_batches S) b")
  case None
  with assms show ?thesis by (simp add: wakeSettles_def)
next
  case (Some w)
  let ?R = "foldl (\<lambda>S p. queuePendingWakeReason (retryRequest p) now S) S (wb_all w)"
  let ?Q = "queuePendingWakeReason (retryRequest (wb_current w)) now S"
  have R: "coolingDown t ?R" and Q: "coolingDown t ?Q" using assms by simp_all
  show ?thesis
    using Some assms cooling_finish [OF R] cooling_continue [OF Q] cooling_continue [OF assms]
      cooling_schedule [OF R] cooling_schedule [OF Q]
    by (simp add: wakeSettles_def Let_def split: option.split heartbeat_result.split)
qed

lemma cooling_step:
  assumes "coolingDown t S" "\<not> newHandler ev" "\<And>now. eventTime ev = Some now \<Longrightarrow> now < ti_dueAt t"
  shows "coolingDown t (wakeStep S ev) \<and> hw_nextBatch (wakeStep S ev) = hw_nextBatch S"
proof (cases ev)
  case (WakeRequested r c now)
  then show ?thesis using assms(1) cooling_schedule [of t "queuePendingWakeReason r now S"]
    by (simp add: requestHeartbeat_def)
next
  case (WakeTimer now)
  then show ?thesis using assms(1,3) by (simp add: wakeTimerFires_def coolingDown_def)
next
  case (WakeAnswered b outcome now)
  then show ?thesis using cooling_settles [OF assms(1)] by simp
next
  case (WakeHandlerSet h now)
  then have "h = None" using assms(2) by (cases h) simp_all
  with WakeHandlerSet show ?thesis using assms(1) by (simp add: setHeartbeatWakeHandler_def coolingDown_def Let_def)
qed (use assms(1) in \<open>auto simp: disposeWakeHandler_def setHeartbeatsEnabled_def coolingDown_def\<close>)

text \<open>A retry timer is a hard minimum delay: while it is armed, no event before its due time (requests with any
  coalescing delay, answers of handlers, throws, a handler being cleared or disposed) replaces it or lets
  a new batch start; only the registration of a new handler does.\<close>

theorem heartbeat_retry_cooldown:
  assumes "hw_timer S = Some t" "ti_kind t = RetryTimer"
    and "\<forall>ev \<in> set evs. \<not> newHandler ev \<and> (\<forall>now. eventTime ev = Some now \<longrightarrow> now < ti_dueAt t)"
  shows "hw_timer (foldl wakeStep S evs) = Some t \<and>
    hw_nextBatch (foldl wakeStep S evs) = hw_nextBatch S"
proof -
  have "coolingDown t (foldl wakeStep S evs) \<and> hw_nextBatch (foldl wakeStep S evs) = hw_nextBatch S"
    if "coolingDown t S" using that assms(3)
  proof (induction evs arbitrary: S)
    case (Cons ev evs)
    have "coolingDown t (wakeStep S ev) \<and> hw_nextBatch (wakeStep S ev) = hw_nextBatch S"
      using Cons.prems by (intro cooling_step) auto
    with Cons.IH [of "wakeStep S ev"] Cons.prems(2) show ?case by simp
  qed simp
  then show ?thesis using assms(1,2) by (simp add: coolingDown_def)
qed

theorem heartbeat_retry_cooldown_witness:
  "hw_nextBatch (foldl wakeStep (foldl wakeStep initWakeState sampleWakes)
     [WakeRequested (sampleWake ''c'') (Some (Fin 0)) 900, WakeTimer 1000, WakeAnswered 0 (Some (HbRan 5)) 1100]) = 1"
proof -
  let ?S = "foldl wakeStep initWakeState sampleWakes"
  have S: "hw_timer ?S = Some \<lparr>ti_dueAt = 1300, ti_kind = RetryTimer, ti_delay = 1000\<rparr>" "hw_nextBatch ?S = 1"
    by (simp_all add: sampleWakes_def wake_eval)
  from heartbeat_retry_cooldown [OF S(1), of "[WakeRequested (sampleWake ''c'') (Some (Fin 0)) 900, WakeTimer 1000,
      WakeAnswered 0 (Some (HbRan 5)) 1100]"] S(2)
  show ?thesis by simp
qed

section \<open>Where the guarantees end\<close>

text \<open>A normal timer that is already armed and due earlier is kept when the handler is busy, so the retry comes
  before the cooldown has passed.\<close>

lemma retry_cooldown_collapsed:
  "\<exists>t. hw_timer (foldl wakeStep initWakeState
      [WakeHandlerSet (Some 1) 0, WakeRequested (sampleWake ''a'') None 0, WakeTimer 250,
       WakeRequested (sampleWake ''b'') (Some (Fin 10)) 300, WakeAnswered 0 (Some (HbSkipped (busyReason 0))) 305])
    = Some t \<and> ti_kind t = NormalTimer \<and> ti_dueAt t = 310"
  by (simp add: wake_eval)

text \<open>When the handler throws, the whole batch is pending again, wakes it had completed before included.\<close>

lemma throw_repeats_completed:
  "map fst (hw_pendingWakes (foldl wakeStep initWakeState
      [WakeHandlerSet (Some 1) 0, WakeRequested (sampleWake ''a'') None 0, WakeRequested (sampleWake ''b'') None 0,
       WakeTimer 250, WakeAnswered 0 (Some (HbRan 5)) 300, WakeAnswered 0 None 400])) = [''a::'', ''b::'']"
  by (simp add: wake_eval)

text \<open>A batch of the old lifecycle clears \<open>running\<close> while a batch of the new one is in flight, and the next timer
  starts a second one beside it.\<close>

lemma lifecycles_overlap:
  "map (\<lambda>(b, w). wb_handler w) (hw_batches (foldl wakeStep initWakeState
      [WakeHandlerSet (Some 1) 0, WakeRequested (sampleWake ''a'') None 0, WakeTimer 250, WakeHandlerSet (Some 2) 300,
       WakeRequested (sampleWake ''b'') None 310, WakeTimer 560, WakeAnswered 0 (Some (HbRan 5)) 600,
       WakeRequested (sampleWake ''c'') None 610, WakeTimer 860])) = [2, 2]"
  by (simp add: wake_eval)

end
