(* ===== verification/SessionKey.thy ===== *)
theory SessionKey
  imports ChannelRoute
begin

text \<open>
  Session keys, \<open>src/routing/session-key.ts\<close> and \<open>src/sessions/session-key-utils.ts\<close>: the texts
  \<open>agent:<agent>:<rest>\<close> under which conversations are stored, how they are built from an agent, a channel
  and a peer, and how they are taken apart again.

  \<open>normalizeAccountId\<close> is used without its cache, which never shows (\<open>account_id_normalisation\<close> in
  \<open>ChannelRoute\<close>).  Identity links are a list of entries in the order of \<open>Object.entries\<close>; a value that is no
  array is \<open>None\<close>.
\<close>

section \<open>Parsing\<close>

record parsed_session_key =
  psk_agentId :: string
  psk_rest :: string

definition colons :: "string list \<Rightarrow> string" where
  "colons = js_join '':''"

definition colonParts :: "string \<Rightarrow> string list" where
  "colonParts s = filter (\<lambda>p. p \<noteq> []) (splitOn (CHR '':'') s)"

definition parseAgentSessionKey :: "string option \<Rightarrow> parsed_session_key option" where
  "parseAgentSessionKey sessionKey =
     (case normalizeOptionalLowercaseString sessionKey of
        None \<Rightarrow> None
      | Some raw \<Rightarrow>
          (let parts = colonParts raw
           in if length parts < 3 \<or> parts ! 0 \<noteq> ''agent'' then None
              else
                (let rest = colons (drop 2 parts)
                 in case normalizeOptionalString (Some (parts ! 1)) of
                      None \<Rightarrow> None
                    | Some agentId \<Rightarrow>
                        if rest = [] then None else Some \<lparr>psk_agentId = agentId, psk_rest = rest\<rparr>)))"

text \<open>\<open>/^cron:[^:]+:run:[^:]+(?::|$)/\<close>\<close>

definition cronRunRest :: "string \<Rightarrow> bool" where
  "cronRunRest rest = (case splitOn (CHR '':'') rest of
     c # job # r # run # _ \<Rightarrow> c = ''cron'' \<and> job \<noteq> [] \<and> r = ''run'' \<and> run \<noteq> [] | _ \<Rightarrow> False)"

definition isCronRunSessionKey :: "string option \<Rightarrow> bool" where
  "isCronRunSessionKey k =
     (case parseAgentSessionKey k of None \<Rightarrow> False | Some p \<Rightarrow> cronRunRest (psk_rest p))"

definition restStartsWith :: "string option \<Rightarrow> string \<Rightarrow> bool" where
  "restStartsWith k p = (case parseAgentSessionKey k of
     None \<Rightarrow> False
   | Some parsed \<Rightarrow> (case normalizeOptionalLowercaseString (Some (psk_rest parsed)) of
                    None \<Rightarrow> False | Some r \<Rightarrow> js_startsWith r p))"

definition isCronSessionKey :: "string option \<Rightarrow> bool" where
  "isCronSessionKey k = restStartsWith k ''cron:''"

definition isSubagentSessionKey :: "string option \<Rightarrow> bool" where
  "isSubagentSessionKey k =
     (case normalizeOptionalString k of
        None \<Rightarrow> False
      | Some raw \<Rightarrow>
          (case normalizeOptionalLowercaseString (Some raw) of
             None \<Rightarrow> False | Some r \<Rightarrow> js_startsWith r ''subagent:'') \<or> restStartsWith (Some raw) ''subagent:'')"

definition isAcpSessionKey :: "string option \<Rightarrow> bool" where
  "isAcpSessionKey k =
     (case normalizeOptionalString k of
        None \<Rightarrow> False
      | Some raw \<Rightarrow> js_startsWith (normalizeLowercaseStringOrEmpty (Some raw)) ''acp:'' \<or>
                   restStartsWith (Some raw) ''acp:'')"

text \<open>\<open>s.split(p).length - 1\<close>\<close>

function countOccurrences :: "string \<Rightarrow> string \<Rightarrow> nat" where
  "countOccurrences p [] = 0"
| "countOccurrences p (c # s) =
     (if p \<noteq> [] \<and> js_startsWith (c # s) p then Suc (countOccurrences p (drop (length p - 1) s))
      else countOccurrences p s)"
  by pat_completeness auto
termination
  by (relation "measure (length \<circ> snd)") auto

definition getSubagentDepth :: "string option \<Rightarrow> nat" where
  "getSubagentDepth k = (case normalizeOptionalLowercaseString k of
     None \<Rightarrow> 0 | Some raw \<Rightarrow> countOccurrences '':subagent:'' raw)"

fun lastIndexOf :: "string \<Rightarrow> string \<Rightarrow> nat option" where
  "lastIndexOf [] p = None"
| "lastIndexOf (c # s) p =
     (case lastIndexOf s p of
        Some i \<Rightarrow> Some (Suc i)
      | None \<Rightarrow> if js_startsWith (c # s) p then Some 0 else None)"

definition THREAD_MARKER :: string where
  "THREAD_MARKER = '':thread:''"

definition parseThreadSessionSuffix :: "string option \<Rightarrow> string option \<times> string option" where
  "parseThreadSessionSuffix sessionKey =
     (case normalizeOptionalString sessionKey of
        None \<Rightarrow> (None, None)
      | Some raw \<Rightarrow>
          (case lastIndexOf (normalizeLowercaseStringOrEmpty (Some raw)) THREAD_MARKER of
             None \<Rightarrow> (Some raw, None)
           | Some i \<Rightarrow> (Some (take i raw), normalizeOptionalString (Some (drop (i + length THREAD_MARKER) raw)))))"

definition resolveThreadParentSessionKey :: "string option \<Rightarrow> string option" where
  "resolveThreadParentSessionKey sessionKey =
     (let (base, threadId) = parseThreadSessionSuffix sessionKey
      in if orEmpty threadId = [] then None else normalizeOptionalString base)"

record conversation_ref =
  cvr_channel :: string
  cvr_kind :: string
  cvr_rawId :: string
  cvr_prefix :: string

definition parseRawSessionConversationRef :: "string option \<Rightarrow> conversation_ref option" where
  "parseRawSessionConversationRef sessionKey =
     (case normalizeOptionalString sessionKey of
        None \<Rightarrow> None
      | Some raw \<Rightarrow>
          (let rawParts = colonParts raw;
               bodyStart = (if length rawParts \<ge> 3 \<and> normalizeOptionalLowercaseString (Some (rawParts ! 0)) = Some ''agent''
                            then 2 else 0);
               parts = drop bodyStart rawParts
           in if length parts < 3 then None
              else
                (let channel = normalizeOptionalLowercaseString (Some (parts ! 0));
                     kind = normalizeOptionalLowercaseString (Some (parts ! 1));
                     rawId = normalizeOptionalString (Some (colons (drop 2 parts)));
                     pre = normalizeOptionalString (Some (colons (take (bodyStart + 2) rawParts)))
                 in case (channel, kind, rawId, pre) of
                      (Some c, Some k, Some i, Some p) \<Rightarrow>
                        if k = ''group'' \<or> k = ''channel''
                        then Some \<lparr>cvr_channel = c, cvr_kind = k, cvr_rawId = i, cvr_prefix = p\<rparr> else None
                    | _ \<Rightarrow> None)))"

section \<open>Building\<close>

definition DEFAULT_AGENT_ID :: string where "DEFAULT_AGENT_ID = ''main''"
definition DEFAULT_MAIN_KEY :: string where "DEFAULT_MAIN_KEY = ''main''"

text \<open>\<open>s || d\<close>\<close>

definition orElse :: "string \<Rightarrow> string \<Rightarrow> string" where
  "orElse s d = (if s = [] then d else s)"

definition normalizeAgentId :: "string option \<Rightarrow> string" where
  "normalizeAgentId value =
     (let trimmed = js_trim (orEmpty value)
      in if trimmed = [] then DEFAULT_AGENT_ID
         else
           (let normalized = normalizeLowercaseStringOrEmpty (Some trimmed)
            in if validId trimmed then normalized
               else orElse (take 64 (stripDashes (collapseInvalid normalized))) DEFAULT_AGENT_ID))"

definition isValidAgentId :: "string option \<Rightarrow> bool" where
  "isValidAgentId value \<longleftrightarrow> js_trim (orEmpty value) \<noteq> [] \<and> validId (js_trim (orEmpty value))"

definition normalizeMainKey :: "string option \<Rightarrow> string" where
  "normalizeMainKey value = orElse (normalizeLowercaseStringOrEmpty value) DEFAULT_MAIN_KEY"

definition buildAgentMainSessionKey :: "string option \<Rightarrow> string option \<Rightarrow> string" where
  "buildAgentMainSessionKey agentId mainKey = ''agent:'' @ normalizeAgentId agentId @ '':'' @ normalizeMainKey mainKey"

definition toAgentRequestSessionKey :: "string option \<Rightarrow> string option" where
  "toAgentRequestSessionKey storeKey =
     (let raw = js_trim (orEmpty storeKey)
      in if raw = [] then None
         else Some (case parseAgentSessionKey (Some raw) of None \<Rightarrow> raw | Some p \<Rightarrow> psk_rest p))"

definition toAgentStoreSessionKey :: "string option \<Rightarrow> string option \<Rightarrow> string option \<Rightarrow> string" where
  "toAgentStoreSessionKey agentId requestKey mainKey =
     (let raw = js_trim (orEmpty requestKey); lowered = normalizeLowercaseStringOrEmpty (Some raw)
      in if raw = [] \<or> lowered = DEFAULT_MAIN_KEY then buildAgentMainSessionKey agentId mainKey
         else (case parseAgentSessionKey (Some raw) of
                 Some p \<Rightarrow> ''agent:'' @ psk_agentId p @ '':'' @ psk_rest p
               | None \<Rightarrow>
                   if js_startsWith lowered ''agent:'' then lowered
                   else ''agent:'' @ normalizeAgentId agentId @ '':'' @ lowered))"

definition resolveAgentIdFromSessionKey :: "string option \<Rightarrow> string" where
  "resolveAgentIdFromSessionKey sessionKey =
     normalizeAgentId (Some (case parseAgentSessionKey sessionKey of
       None \<Rightarrow> DEFAULT_AGENT_ID | Some p \<Rightarrow> psk_agentId p))"

datatype session_key_shape = ShapeMissing | ShapeAgent | ShapeLegacyOrAlias | ShapeMalformedAgent

definition classifySessionKeyShape :: "string option \<Rightarrow> session_key_shape" where
  "classifySessionKeyShape sessionKey =
     (let raw = js_trim (orEmpty sessionKey)
      in if raw = [] then ShapeMissing
         else if parseAgentSessionKey (Some raw) \<noteq> None then ShapeAgent
         else if js_startsWith (normalizeLowercaseStringOrEmpty (Some raw)) ''agent:'' then ShapeMalformedAgent
         else ShapeLegacyOrAlias)"

datatype session_scope = ScopePerSender | ScopeGlobal

definition resolveEventSessionKey :: "string \<Rightarrow> string option \<Rightarrow> session_scope option \<Rightarrow> string" where
  "resolveEventSessionKey sessionKey mainKey scope =
     (case parseAgentSessionKey (Some sessionKey) of
        None \<Rightarrow> sessionKey
      | Some p \<Rightarrow>
          if \<not> isCronRunSessionKey (Some sessionKey) then sessionKey
          else if scope = Some ScopeGlobal then ''global''
          else buildAgentMainSessionKey (Some (psk_agentId p)) mainKey)"

text \<open>What \<open>scopedHeartbeatWakeOptions\<close> adds to the options.\<close>

datatype wake_scope = WakeUnscoped | WakeSession string | WakeAgent string

definition scopedHeartbeatWakeOptions :: "string \<Rightarrow> string option \<Rightarrow> session_scope option \<Rightarrow> wake_scope" where
  "scopedHeartbeatWakeOptions sessionKey mainKey scope =
     (case parseAgentSessionKey (Some sessionKey) of
        None \<Rightarrow> WakeUnscoped
      | Some p \<Rightarrow>
          if isCronRunSessionKey (Some sessionKey) then
            (if scope = Some ScopeGlobal then WakeAgent (psk_agentId p)
             else WakeSession (buildAgentMainSessionKey (Some (psk_agentId p)) mainKey))
          else WakeSession sessionKey)"

definition resolveLinkedPeerId ::
  "(string \<times> string list option) list option \<Rightarrow> string \<Rightarrow> string \<Rightarrow> string option" where
  "resolveLinkedPeerId identityLinks channel peerId =
     (case identityLinks of
        None \<Rightarrow> None
      | Some links \<Rightarrow>
          (let peerId = js_trim peerId
           in if peerId = [] then None
              else
                (let rawCandidate = normalizeLowercaseStringOrEmpty (Some peerId);
                     channel = normalizeLowercaseStringOrEmpty (Some channel);
                     scopedCandidate = (if channel = [] then []
                                        else normalizeLowercaseStringOrEmpty (Some (channel @ '':'' @ peerId)));
                     candidates = filter (\<lambda>c. c \<noteq> []) [rawCandidate, scopedCandidate];
                     linked = (\<lambda>(canonical, ids). js_trim canonical \<noteq> [] \<and>
                       (case ids of
                          None \<Rightarrow> False
                        | Some ids \<Rightarrow> list_ex (\<lambda>i. normalizeLowercaseStringOrEmpty (Some i) \<in> set candidates) ids))
                 in map_option (\<lambda>(canonical, ids). js_trim canonical) (find linked links))))"

datatype dm_scope = DmMain | DmPerPeer | DmPerChannelPeer | DmPerAccountChannelPeer

record peer_params =
  pp_agentId :: "string option"
  pp_mainKey :: "string option"
  pp_channel :: string
  pp_accountId :: "string option"
  pp_peerKind :: "chat_type option"
  pp_peerId :: "string option"
  pp_identityLinks :: "(string \<times> string list option) list option"
  pp_dmScope :: "dm_scope option"

definition chatTypeText :: "chat_type \<Rightarrow> string" where
  "chatTypeText k = (case k of ChatDirect \<Rightarrow> ''direct'' | ChatGroup \<Rightarrow> ''group'' | ChatChannel \<Rightarrow> ''channel'')"

definition channelOrUnknown :: "string \<Rightarrow> string" where
  "channelOrUnknown channel = orElse (normalizeLowercaseStringOrEmpty (Some channel)) ''unknown''"

definition accountOf :: "string option \<Rightarrow> string" where
  "accountOf v = (case accountId v of None \<Rightarrow> DEFAULT_ACCOUNT_ID | Some a \<Rightarrow> a)"

text \<open>The peer of a direct chat, after linking.\<close>

definition directPeer :: "peer_params \<Rightarrow> string" where
  "directPeer p =
     (let dmScope = (case pp_dmScope p of None \<Rightarrow> DmMain | Some s \<Rightarrow> s);
          peerId = js_trim (orEmpty (pp_peerId p));
          linked = (if dmScope = DmMain then None
                    else resolveLinkedPeerId (pp_identityLinks p) (pp_channel p) peerId)
      in normalizeLowercaseStringOrEmpty (Some (case linked of None \<Rightarrow> peerId | Some l \<Rightarrow> if l = [] then peerId else l)))"

definition buildAgentPeerSessionKey :: "peer_params \<Rightarrow> string" where
  "buildAgentPeerSessionKey p =
     (let peerKind = (case pp_peerKind p of None \<Rightarrow> ChatDirect | Some k \<Rightarrow> k);
          dmScope = (case pp_dmScope p of None \<Rightarrow> DmMain | Some s \<Rightarrow> s);
          agent = ''agent:'' @ normalizeAgentId (pp_agentId p) @ '':''
      in if peerKind = ChatDirect then
           (let peerId = directPeer p
            in if dmScope = DmPerAccountChannelPeer \<and> peerId \<noteq> []
               then agent @ channelOrUnknown (pp_channel p) @ '':'' @ accountOf (pp_accountId p) @ '':direct:'' @ peerId
               else if dmScope = DmPerChannelPeer \<and> peerId \<noteq> []
               then agent @ channelOrUnknown (pp_channel p) @ '':direct:'' @ peerId
               else if dmScope = DmPerPeer \<and> peerId \<noteq> [] then agent @ ''direct:'' @ peerId
               else buildAgentMainSessionKey (pp_agentId p) (pp_mainKey p))
         else
           (let peerId = orElse (normalizeLowercaseStringOrEmpty (pp_peerId p)) ''unknown''
            in agent @ channelOrUnknown (pp_channel p) @ '':'' @ chatTypeText peerKind @ '':'' @ peerId))"

definition buildGroupHistoryKey :: "string \<Rightarrow> string option \<Rightarrow> chat_type \<Rightarrow> string \<Rightarrow> string" where
  "buildGroupHistoryKey channel account peerKind peerId =
     channelOrUnknown channel @ '':'' @ accountOf account @ '':'' @ chatTypeText peerKind @ '':'' @
     orElse (normalizeLowercaseStringOrEmpty (Some peerId)) ''unknown''"

definition resolveThreadSessionKeys ::
  "string \<Rightarrow> string option \<Rightarrow> string option \<Rightarrow> bool option \<Rightarrow> (string \<Rightarrow> string) option \<Rightarrow> string \<times> string option" where
  "resolveThreadSessionKeys baseSessionKey threadId parentSessionKey useSuffix normalizeThreadId =
     (let threadId = js_trim (orEmpty threadId)
      in if threadId = [] then (baseSessionKey, None)
         else
           (let normalizedThread = (case normalizeThreadId of
                  Some f \<Rightarrow> f threadId | None \<Rightarrow> normalizeLowercaseStringOrEmpty (Some threadId))
            in (if (case useSuffix of None \<Rightarrow> True | Some b \<Rightarrow> b)
                then baseSessionKey @ THREAD_MARKER @ normalizedThread else baseSessionKey,
                parentSessionKey)))"

section \<open>Texts in normal form\<close>

text \<open>Lower case, no white space at either end.\<close>

definition normalForm :: "string \<Rightarrow> bool" where
  "normalForm s \<longleftrightarrow> (s = [] \<or> \<not> js_ws (hd s) \<and> \<not> js_ws (last s)) \<and> map js_lower_char s = s"

lemma js_trim_fixed: "s \<noteq> [] \<Longrightarrow> \<not> js_ws (hd s) \<Longrightarrow> \<not> js_ws (last s) \<Longrightarrow> js_trim s = s"
  by (simp add: js_trim_def js_trim_start_def js_trim_end_def dropWhile_idem_hd hd_rev)

lemma js_trim_ends:
  assumes "js_trim s \<noteq> []"
  shows "\<not> js_ws (hd (js_trim s))" "\<not> js_ws (last (js_trim s))"
proof -
  have "js_trim_start s \<noteq> []" using assms by (auto simp: js_trim_def)
  then have "\<not> js_ws (hd (js_trim_start s))" unfolding js_trim_start_def using hd_dropWhile by blast
  with assms show "\<not> js_ws (hd (js_trim s))" by (simp add: js_trim_def hd_js_trim_end)
  have "\<not> js_ws (hd (dropWhile js_ws (rev (js_trim_start s))))"
    using assms unfolding js_trim_def js_trim_end_def by (intro hd_dropWhile) auto
  with assms show "\<not> js_ws (last (js_trim s))" by (simp add: js_trim_def js_trim_end_def last_rev)
qed

lemma js_lower_cases:
  obtains "js_lower_char c = c"
  | "(of_char (js_lower_char c) :: nat) = of_char c + 32" "(of_char c :: nat) \<in> {65..90} \<union> {192..222} - {215}"
  by (cases "(of_char c :: nat) \<in> {65..90} \<union> {192..222} - {215}") (auto simp: js_lower_char_def Let_def)

lemma js_ws_lower [simp]: "js_ws (js_lower_char c) = js_ws c"
proof (cases c rule: js_lower_cases)
  case 2
  then show ?thesis by (auto simp: js_ws_def)
qed simp

lemma js_lower_idem [simp]: "js_lower_char (js_lower_char c) = js_lower_char c"
proof (cases c rule: js_lower_cases)
  case 2
  then show ?thesis by (subst js_lower_char_def) (auto simp: Let_def)
qed simp

lemma lower_eq: "normalizeLowercaseStringOrEmpty (Some s) = map js_lower_char (js_trim s)"
  by (simp add: normalizeLowercaseStringOrEmpty_def normalizeOptionalLowercaseString_def js_lower_def
      normalizeOptionalString_def normalizeNullableString_def Let_def)

lemma lower_None [simp]: "normalizeLowercaseStringOrEmpty None = []"
  by (simp add: normalizeLowercaseStringOrEmpty_def normalizeOptionalLowercaseString_def)

lemma lower_normalForm [simp]: "normalForm (normalizeLowercaseStringOrEmpty v)"
proof (cases v)
  case None
  then show ?thesis by (simp add: normalForm_def)
next
  case (Some s)
  show ?thesis
  proof (cases "js_trim s = []")
    case False
    with js_trim_ends [OF False] Some show ?thesis
      by (simp add: normalForm_def lower_eq hd_map last_map comp_def)
  qed (simp add: Some normalForm_def lower_eq)
qed

lemma normalForm_trim: "normalForm s \<Longrightarrow> js_trim s = s"
  by (cases "s = []") (simp_all add: normalForm_def js_trim_fixed)

lemma normalForm_lower: "normalForm s \<Longrightarrow> normalizeLowercaseStringOrEmpty (Some s) = s"
  by (simp add: lower_eq normalForm_trim) (simp add: normalForm_def)

lemma normalForm_optional:
  "normalForm s \<Longrightarrow> normalizeOptionalLowercaseString (Some s) = (if s = [] then None else Some s)"
  using normalForm_lower [of s] normalForm_trim [of s]
  by (simp add: normalizeOptionalLowercaseString_def normalizeOptionalString_def normalizeNullableString_def
      js_lower_def lower_eq Let_def)

lemma normalForm_append:
  "normalForm (x @ y)" if "x \<noteq> []" "y \<noteq> []" "\<not> js_ws (hd x)" "\<not> js_ws (last y)"
    "map js_lower_char x = x" "map js_lower_char y = y"
  using that by (simp add: normalForm_def)

lemma idChars_normalForm: "\<forall>c \<in> set s. idChar c \<Longrightarrow> normalForm s"
  using idChar_not_ws idChar_lower by (auto simp: normalForm_def intro!: map_idI)

lemma agentId_chars: "c \<in> set (normalizeAgentId v) \<Longrightarrow> idChar c"
proof -
  assume c: "c \<in> set (normalizeAgentId v)"
  let ?t = "js_trim (orEmpty v)"
  let ?cut = "take 64 (stripDashes (collapseInvalid (normalizeLowercaseStringOrEmpty (Some ?t))))"
  have cut: "set ?cut \<subseteq> set (collapseInvalid (normalizeLowercaseStringOrEmpty (Some ?t)))"
    using set_take_subset stripDashes_subset by (rule subset_trans)
  have "normalizeAgentId v = ''main'' \<or> validId ?t \<and> normalizeAgentId v = normalizeLowercaseStringOrEmpty (Some ?t) \<or>
      normalizeAgentId v = ?cut"
    by (simp add: normalizeAgentId_def Let_def orElse_def DEFAULT_AGENT_ID_def)
  then consider "normalizeAgentId v = ''main''"
    | "validId ?t" "normalizeAgentId v = normalizeLowercaseStringOrEmpty (Some ?t)"
    | "normalizeAgentId v = ?cut" by blast
  then show ?thesis
  proof cases
    case 1
    with c show ?thesis by (auto simp: idChar_def idAlnum_def)
  next
    case 2
    with c have "c \<in> set (normalizeLowercaseStringOrEmpty (Some ?t))" by simp
    with 2(1) show ?thesis using normalizeLower_set validId_chars lower_idChar by blast
  next
    case 3
    with c cut have "c \<in> set (collapseInvalid (normalizeLowercaseStringOrEmpty (Some ?t)))" by (simp only: subsetD)
    then show ?thesis by (rule collapseInvalid_chars)
  qed
qed

lemma agentId_nonempty [simp]: "normalizeAgentId v \<noteq> []"
proof -
  have "normalizeLowercaseStringOrEmpty (Some (js_trim s)) \<noteq> []" if "js_trim s \<noteq> []" for s
    using that by (simp add: lower_eq)
  then show ?thesis by (auto simp: normalizeAgentId_def Let_def orElse_def DEFAULT_AGENT_ID_def)
qed

lemma idChar_colon: "idChar c \<Longrightarrow> c \<noteq> CHR '':''"
  by (auto simp: idChar_def idAlnum_def)

lemma agentId_no_colon [simp]: "CHR '':'' \<notin> set (normalizeAgentId v)"
  using agentId_chars idChar_colon by blast

lemma mainKey_nonempty [simp]: "normalizeMainKey v \<noteq> []"
  by (simp add: normalizeMainKey_def orElse_def DEFAULT_MAIN_KEY_def)

lemma mainKey_normalForm [simp]: "normalForm (normalizeMainKey v)"
proof -
  have "normalForm ''main''" by (rule idChars_normalForm) (auto simp: idChar_def idAlnum_def)
  then show ?thesis by (simp add: normalizeMainKey_def orElse_def DEFAULT_MAIN_KEY_def)
qed

section \<open>Splitting at colons\<close>

lemma splitOn_nonempty [simp]: "splitOn c s \<noteq> []"
  by (induction s) (auto split: list.split)

lemma splitOn_none: "c \<notin> set s \<Longrightarrow> splitOn c s = [s]"
  by (induction s) auto

lemma splitOn_append: "c \<notin> set x \<Longrightarrow> splitOn c (x @ c # y) = x # splitOn c y"
  by (induction x) auto

lemma join_Cons: "ys \<noteq> [] \<Longrightarrow> js_join sep (x # ys) = x @ sep @ js_join sep ys"
  by (cases ys) auto

lemma join_splitOn: "js_join [c] (splitOn c s) = s"
proof (induction s)
  case (Cons x s)
  obtain y ys where ys: "splitOn c s = y # ys" using splitOn_nonempty [of c s] by (cases "splitOn c s") auto
  show ?case
  proof (cases "x = c")
    case True
    then show ?thesis using Cons ys by simp
  next
    case False
    have "js_join [c] ((x # y) # ys) = x # js_join [c] (y # ys)" by (cases ys) simp_all
    with False Cons ys show ?thesis by simp
  qed
qed simp

lemma key_parts:
  assumes "[] \<notin> set (splitOn (CHR '':'') rest)" "CHR '':'' \<notin> set a" "a \<noteq> []"
  shows "colonParts (''agent:'' @ a @ '':'' @ rest) = ''agent'' # a # splitOn (CHR '':'') rest"
proof -
  have "splitOn (CHR '':'') (''agent'' @ CHR '':'' # (a @ CHR '':'' # rest)) = ''agent'' # a # splitOn (CHR '':'') rest"
    using assms(2) by (subst splitOn_append) (simp_all add: splitOn_append)
  then show ?thesis using assms(1,3) by (simp add: colonParts_def filter_id_conv) metis
qed

lemma parse_key:
  assumes "normalForm a" "a \<noteq> []" "CHR '':'' \<notin> set a" "normalForm rest" "rest \<noteq> []"
    "[] \<notin> set (splitOn (CHR '':'') rest)"
  shows "parseAgentSessionKey (Some (''agent:'' @ a @ '':'' @ rest)) = Some \<lparr>psk_agentId = a, psk_rest = rest\<rparr>"
proof -
  let ?key = "''agent:'' @ a @ '':'' @ rest"
  have low: "map js_lower_char ''agent:'' = ''agent:''" "map js_lower_char '':'' = '':''"
    by (simp_all add: js_lower_char_def)
  have "normalForm ?key"
    using assms low by (auto simp: normalForm_def js_ws_def)
  then have raw: "normalizeOptionalLowercaseString (Some ?key) = Some ?key"
    using normalForm_optional [of ?key] by simp
  have parts: "colonParts ?key = ''agent'' # a # splitOn (CHR '':'') rest"
    by (rule key_parts [OF assms(6,3,2)])
  have rest: "colons (splitOn (CHR '':'') rest) = rest" by (simp add: colons_def join_splitOn)
  have "normalizeOptionalString (Some a) = Some a"
    using normalForm_trim [OF assms(1)] assms(2)
    by (simp add: normalizeOptionalString_def normalizeNullableString_def Let_def)
  with raw parts rest assms(5) show ?thesis
    by (cases "splitOn (CHR '':'') rest") (simp_all add: parseAgentSessionKey_def Let_def)
qed

section \<open>Round trips\<close>

lemma agentId_normalForm [simp]: "normalForm (normalizeAgentId v)"
  by (rule idChars_normalForm) (blast intro: agentId_chars)

lemma parse_main_key:
  assumes "[] \<notin> set (splitOn (CHR '':'') (normalizeMainKey mainKey))"
  shows "parseAgentSessionKey (Some (buildAgentMainSessionKey agent mainKey)) =
     Some \<lparr>psk_agentId = normalizeAgentId agent, psk_rest = normalizeMainKey mainKey\<rparr>"
  unfolding buildAgentMainSessionKey_def
  by (rule parse_key) (simp_all add: assms)

lemma mainKey_trimmed: "js_trim (buildAgentMainSessionKey agent mainKey) = buildAgentMainSessionKey agent mainKey"
proof -
  have "\<not> js_ws (last (normalizeMainKey mainKey))"
    using mainKey_normalForm [of mainKey] by (simp add: normalForm_def)
  then show ?thesis
    by (intro js_trim_fixed) (simp_all add: buildAgentMainSessionKey_def js_ws_def)
qed

lemma parse_request_key:
  assumes "normalForm s" "[] \<notin> set (splitOn (CHR '':'') s)" "\<not> js_startsWith s ''agent:''"
  shows "parseAgentSessionKey (Some s) = None"
proof (cases "splitOn (CHR '':'') s")
  case (Cons x ys)
  have parts: "colonParts s = splitOn (CHR '':'') s"
    using assms(2) by (simp add: colonParts_def filter_id_conv) metis
  have "x \<noteq> ''agent''" if "ys \<noteq> []"
  proof
    assume "x = ''agent''"
    with that Cons join_splitOn [of "CHR '':''" s] have "s = ''agent'' @ '':'' @ js_join '':'' ys"
      by (simp add: join_Cons)
    then have "s = ''agent:'' @ js_join '':'' ys" by simp
    with assms(3) show False by (simp add: js_startsWith_def)
  qed
  then show ?thesis
    using Cons parts normalForm_optional [OF assms(1)]
    by (cases ys) (auto simp: parseAgentSessionKey_def Let_def)
qed simp

lemma store_request_key:
  assumes "rest = normalizeMainKey mainKey" "[] \<notin> set (splitOn (CHR '':'') rest)" "\<not> js_startsWith rest ''agent:''"
  shows "toAgentStoreSessionKey agent (Some rest) mainKey = buildAgentMainSessionKey agent mainKey"
proof -
  have n: "normalForm rest" by (simp add: assms(1))
  show ?thesis
    using parse_request_key [OF n assms(2,3)] normalForm_trim [OF n] normalForm_lower [OF n] assms(1,3)
    by (simp add: toAgentStoreSessionKey_def buildAgentMainSessionKey_def orEmpty_def Let_def)
qed

text \<open>The last marker is the one that was appended, unless the thread id completes another one.\<close>

lemma lastIndexOf_append:
  assumes "p \<noteq> []" "lastIndexOf (tl p @ t) p = None"
  shows "lastIndexOf (b @ p @ t) p = Some (length b)"
proof (induction b)
  case Nil
  obtain c q where "p = c # q" using assms(1) by (cases p) auto
  with assms(2) show ?case by (simp add: js_startsWith_def)
qed simp

lemma lower_marker [simp]: "map js_lower_char '':thread:'' = '':thread:''"
  by code_simp

lemma thread_suffix_parsed:
  assumes "b \<noteq> []" "\<not> js_ws (hd b)" "js_trim t \<noteq> []" "lt = normalizeLowercaseStringOrEmpty (Some t)"
    and "lastIndexOf (''thread:'' @ lt) '':thread:'' = None"
  shows "fst (resolveThreadSessionKeys b (Some t) parent None None) = b @ '':thread:'' @ lt"
    "parseThreadSessionSuffix (Some (b @ '':thread:'' @ lt)) = (Some b, Some lt)"
proof -
  let ?key = "b @ '':thread:'' @ lt"
  have n: "normalForm lt" by (simp add: assms(4))
  have ne: "lt \<noteq> []" using assms(3,4) by (simp add: lower_eq)
  have t: "js_trim (js_trim t) = js_trim t" using js_trim_fixed [OF assms(3) js_trim_ends [OF assms(3)]] .
  show "fst (resolveThreadSessionKeys b (Some t) parent None None) = ?key"
    using assms(3,4) t by (simp add: resolveThreadSessionKeys_def orEmpty_def THREAD_MARKER_def lower_eq)
  have trim: "js_trim ?key = ?key"
    using assms(1,2) ne n by (intro js_trim_fixed) (simp_all add: normalForm_def)
  have "map js_lower_char lt = lt" using n by (simp add: normalForm_def)
  with lower_marker have lower: "map js_lower_char ?key = map js_lower_char b @ '':thread:'' @ lt"
    by (simp only: map_append)
  have "lastIndexOf (map js_lower_char b @ '':thread:'' @ lt) '':thread:'' = Some (length (map js_lower_char b))"
    by (rule lastIndexOf_append) (use assms(5) in simp_all)
  with trim lower have "lastIndexOf (normalizeLowercaseStringOrEmpty (Some ?key)) THREAD_MARKER = Some (length b)"
    by (simp only: lower_eq THREAD_MARKER_def length_map)
  then show "parseThreadSessionSuffix (Some ?key) = (Some b, Some lt)"
    using trim normalForm_trim [OF n] ne
    by (simp add: parseThreadSessionSuffix_def normalizeOptionalString_def normalizeNullableString_def
        THREAD_MARKER_def Let_def)
qed



section \<open>Isolation\<close>

text \<open>What a peer key stands for.\<close>

datatype peer_slot =
  SlotMain string
| SlotPeer string
| SlotChannelPeer string string
| SlotAccountPeer string string string
| SlotGroup string chat_type string

definition peerSlot :: "peer_params \<Rightarrow> peer_slot" where
  "peerSlot p =
     (let kind = (case pp_peerKind p of None \<Rightarrow> ChatDirect | Some k \<Rightarrow> k);
          scope = (case pp_dmScope p of None \<Rightarrow> DmMain | Some s \<Rightarrow> s);
          channel = channelOrUnknown (pp_channel p)
      in if kind \<noteq> ChatDirect then SlotGroup channel kind (orElse (normalizeLowercaseStringOrEmpty (pp_peerId p)) ''unknown'')
         else if directPeer p = [] \<or> scope = DmMain then SlotMain (normalizeMainKey (pp_mainKey p))
         else if scope = DmPerPeer then SlotPeer (directPeer p)
         else if scope = DmPerChannelPeer then SlotChannelPeer channel (directPeer p)
         else SlotAccountPeer channel (accountOf (pp_accountId p)) (directPeer p))"

fun slotText :: "peer_slot \<Rightarrow> string" where
  "slotText (SlotMain m) = m"
| "slotText (SlotPeer p) = ''direct:'' @ p"
| "slotText (SlotChannelPeer c p) = c @ '':direct:'' @ p"
| "slotText (SlotAccountPeer c a p) = c @ '':'' @ a @ '':direct:'' @ p"
| "slotText (SlotGroup c k p) = c @ '':'' @ chatTypeText k @ '':'' @ p"

fun slotOk :: "peer_slot \<Rightarrow> bool" where
  "slotOk (SlotMain m) = (CHR '':'' \<notin> set m)"
| "slotOk (SlotPeer p) = True"
| "slotOk (SlotChannelPeer c p) = (CHR '':'' \<notin> set c \<and> c \<noteq> ''direct'')"
| "slotOk (SlotAccountPeer c a p) = (CHR '':'' \<notin> set c \<and> c \<noteq> ''direct'' \<and> CHR '':'' \<notin> set a \<and>
     a \<notin> {''direct'', ''group'', ''channel''})"
| "slotOk (SlotGroup c k p) = (CHR '':'' \<notin> set c \<and> c \<noteq> ''direct'' \<and> k \<noteq> ChatDirect)"

lemma peerKey_slot: "buildAgentPeerSessionKey p = ''agent:'' @ normalizeAgentId (pp_agentId p) @ '':'' @ slotText (peerSlot p)"
  by (cases "case pp_dmScope p of None \<Rightarrow> DmMain | Some s \<Rightarrow> s")
    (auto simp: buildAgentPeerSessionKey_def peerSlot_def buildAgentMainSessionKey_def Let_def)

text \<open>The segments of a slot, the last of which may hold colons.\<close>

fun slotSegments :: "peer_slot \<Rightarrow> string list \<times> string" where
  "slotSegments (SlotMain m) = ([], m)"
| "slotSegments (SlotPeer p) = ([''direct''], p)"
| "slotSegments (SlotChannelPeer c p) = ([c, ''direct''], p)"
| "slotSegments (SlotAccountPeer c a p) = ([c, a, ''direct''], p)"
| "slotSegments (SlotGroup c k p) = ([c, chatTypeText k], p)"

lemma chatText_no_colon [simp]: "CHR '':'' \<notin> set (chatTypeText k)"
  by (cases k) (simp_all add: chatTypeText_def)

lemma chatText_inj [simp]: "chatTypeText k = chatTypeText k' \<longleftrightarrow> k = k'"
  by (cases k; cases k') (simp_all add: chatTypeText_def)

lemma chatText_direct [simp]: "chatTypeText k = ''direct'' \<longleftrightarrow> k = ChatDirect" "''direct'' = chatTypeText k \<longleftrightarrow> k = ChatDirect"
  by (cases k; simp add: chatTypeText_def)+

lemma chatText_range: "k \<noteq> ChatDirect \<Longrightarrow> chatTypeText k \<in> {''group'', ''channel''}"
  by (cases k) (simp_all add: chatTypeText_def)

definition segText :: "string list \<times> string \<Rightarrow> string" where
  "segText s = concat (map (\<lambda>x. x @ '':'') (fst s)) @ snd s"

lemma slotText_segments: "slotText s = segText (slotSegments s)"
  by (cases s) (simp_all add: segText_def)

lemma segText_Cons:
  "CHR '':'' \<notin> set x \<Longrightarrow> CHR '':'' \<notin> set y \<Longrightarrow>
     segText (x # xs, m) = segText (y # ys, n) \<longleftrightarrow> x = y \<and> segText (xs, m) = segText (ys, n)"
  using split_at_sep [of "CHR '':''" x y "segText (xs, m)" "segText (ys, n)"] by (auto simp: segText_def)

lemma segText_Nil [simp]: "segText ([], m) = m"
  by (simp add: segText_def)

lemma segText_colon: "CHR '':'' \<notin> set m \<Longrightarrow> m \<noteq> segText (x # xs, n)"
  by (auto simp: segText_def)

lemma slotText_inj:
  assumes "slotOk s" "slotOk t" "slotText s = slotText t"
  shows "s = t"
  using assms segText_colon [symmetric] chatText_range unfolding slotText_segments
  by (cases s; cases t) (auto simp: segText_Cons segText_colon segText_colon [symmetric])

lemma account_no_colon: "CHR '':'' \<notin> set (accountOf v)"
proof (cases "accountId v")
  case (Some a)
  from accountId_Some [OF Some] idChar_colon show ?thesis
    by (auto simp: accountOf_def Some list_all_iff)
qed (simp add: accountOf_def DEFAULT_ACCOUNT_ID_def)

text \<open>C32. Peer keys isolate conversations, for channels without a colon that are not named \<open>direct\<close>, main
  keys without a colon and accounts not named \<open>direct\<close>, \<open>group\<close> or \<open>channel\<close>: two such peers have the same
  session key exactly when their agents have the same normal form and they stand for the same
  conversation: the main one, a linked peer, a peer of a channel, a peer of an account of a channel, or a
  group, as the scope says.  Outside these names keys can collide (\<open>account_named_group_collides\<close>).\<close>

theorem session_keys_isolate:
  assumes "\<forall>r \<in> {p, q}. CHR '':'' \<notin> set (channelOrUnknown (pp_channel r)) \<and>
      channelOrUnknown (pp_channel r) \<noteq> ''direct'' \<and> CHR '':'' \<notin> set (normalizeMainKey (pp_mainKey r)) \<and>
      accountOf (pp_accountId r) \<notin> {''direct'', ''group'', ''channel''}"
  shows "buildAgentPeerSessionKey p = buildAgentPeerSessionKey q \<longleftrightarrow>
    normalizeAgentId (pp_agentId p) = normalizeAgentId (pp_agentId q) \<and> peerSlot p = peerSlot q"
proof
  have ok: "slotOk (peerSlot r)" if "r \<in> {p, q}" for r
    using assms that account_no_colon by (auto simp: peerSlot_def Let_def)
  assume "buildAgentPeerSessionKey p = buildAgentPeerSessionKey q"
  then have "normalizeAgentId (pp_agentId p) @ CHR '':'' # slotText (peerSlot p) =
      normalizeAgentId (pp_agentId q) @ CHR '':'' # slotText (peerSlot q)"
    by (simp add: peerKey_slot)
  then have "normalizeAgentId (pp_agentId p) = normalizeAgentId (pp_agentId q) \<and>
      slotText (peerSlot p) = slotText (peerSlot q)"
    by (intro split_at_sep [where c = "CHR '':''"]) simp_all
  with slotText_inj ok show "normalizeAgentId (pp_agentId p) = normalizeAgentId (pp_agentId q) \<and> peerSlot p = peerSlot q"
    by blast
qed (simp add: peerKey_slot)

definition samplePeer :: "dm_scope \<Rightarrow> string \<Rightarrow> chat_type \<Rightarrow> string \<Rightarrow> peer_params" where
  "samplePeer scope account kind peer = \<lparr>pp_agentId = Some ''main'', pp_mainKey = None, pp_channel = ''slack'',
     pp_accountId = Some account, pp_peerKind = Some kind, pp_peerId = Some peer, pp_identityLinks = None,
     pp_dmScope = Some scope\<rparr>"

theorem session_keys_isolate_witness:
  "buildAgentPeerSessionKey (samplePeer DmPerChannelPeer ''work'' ChatDirect ''u1'') \<noteq>
   buildAgentPeerSessionKey (samplePeer DmPerChannelPeer ''work'' ChatDirect ''u2'')"
proof -
  let ?p = "\<lambda>u. samplePeer DmPerChannelPeer ''work'' ChatDirect u"
  have h: "\<forall>r \<in> {?p ''u1'', ?p ''u2''}. CHR '':'' \<notin> set (channelOrUnknown (pp_channel r)) \<and>
      channelOrUnknown (pp_channel r) \<noteq> ''direct'' \<and> CHR '':'' \<notin> set (normalizeMainKey (pp_mainKey r)) \<and>
      accountOf (pp_accountId r) \<notin> {''direct'', ''group'', ''channel''}"
    by code_simp
  have "peerSlot (?p ''u1'') \<noteq> peerSlot (?p ''u2'')" by code_simp
  with session_keys_isolate [OF h] show ?thesis by blast
qed

text \<open>An account named \<open>group\<close> makes a direct chat share the session of a group.\<close>

lemma account_named_group_collides:
  "buildAgentPeerSessionKey (samplePeer DmPerAccountChannelPeer ''group'' ChatDirect ''u1'') =
   buildAgentPeerSessionKey (samplePeer DmPerAccountChannelPeer ''work'' ChatGroup ''direct:u1'')"
  by code_simp

end
