(* ===== verification/RouteBindings.thy ===== *)
theory RouteBindings
  imports SessionKey JsValue
begin

text \<open>
  Route bindings: \<open>src/config/bindings.ts\<close>, \<open>src/routing/bindings.ts\<close>, \<open>src/routing/binding-scope.ts\<close>,
  \<open>src/routing/peer-kind-match.ts\<close>, \<open>src/routing/account-lookup.ts\<close>,
  \<open>src/routing/bound-account-read.ts\<close> and \<open>src/channels/chat-type.ts\<close>, with the agent list of
  \<open>src/agents/agent-scope-config.ts\<close> and the channel names of \<open>src/channels/ids.ts\<close>.

  A configuration is a record of the fields these files read.  Agents and bindings are objects (a \<open>null\<close> in one of
  the lists makes the code throw before it gets here).  Ids of peers, guilds and teams are untyped values, as
  \<open>normalizeRouteBindingId\<close> takes them.  The catalogue of bundled channels and the locale's order of
  texts are arguments.
\<close>

section \<open>Kinds of chats\<close>

definition normalizeChatType :: "string option \<Rightarrow> chat_type option" where
  "normalizeChatType raw =
     (case normalizeOptionalLowercaseString raw of
        None \<Rightarrow> None
      | Some v \<Rightarrow>
          if v = ''direct'' \<or> v = ''dm'' then Some ChatDirect
          else if v = ''group'' then Some ChatGroup
          else if v = ''channel'' then Some ChatChannel
          else None)"

definition peerKindMatches :: "chat_type \<Rightarrow> chat_type \<Rightarrow> bool" where
  "peerKindMatches bindingKind scopeKind \<longleftrightarrow>
     bindingKind = scopeKind \<or>
     (bindingKind = ChatGroup \<and> scopeKind = ChatChannel \<or> bindingKind = ChatChannel \<and> scopeKind = ChatGroup)"

section \<open>Configuration\<close>

record peer_match =
  pm_kind :: "string option"
  pm_id :: jsval

record binding_match =
  bm_channel :: "string option"
  bm_accountId :: "string option"
  bm_peer :: "peer_match option"
  bm_guildId :: jsval
  bm_teamId :: jsval
  bm_roles :: "string list option"

record agent_binding =
  ab_type :: "string option"
  ab_agentId :: "string option"
  ab_match :: "binding_match option"
  ab_dmScope :: "dm_scope option"

record agent_entry =
  ae_id :: "string option"
  ae_default :: bool

text \<open>The references of the three parts of the configuration are compared by the caches.\<close>

record route_config =
  cf_id :: nat
  cf_bindingsRef :: nat
  cf_bindings :: "agent_binding list option"
  cf_agentsRef :: nat
  cf_agents :: "agent_entry list option"
  cf_sessionRef :: nat
  cf_dmScope :: "dm_scope option"
  cf_identityLinks :: "(string \<times> string list option) list option"

definition orNil :: "'a list option \<Rightarrow> 'a list" where
  "orNil v = (case v of None \<Rightarrow> [] | Some xs \<Rightarrow> xs)"

definition isRouteBinding :: "agent_binding \<Rightarrow> bool" where
  "isRouteBinding b \<longleftrightarrow> ab_type b \<noteq> Some ''acp''"

definition listRouteBindings :: "route_config \<Rightarrow> agent_binding list" where
  "listRouteBindings cfg = filter isRouteBinding (orNil (cf_bindings cfg))"

definition listAcpBindings :: "route_config \<Rightarrow> agent_binding list" where
  "listAcpBindings cfg = filter (\<lambda>b. \<not> isRouteBinding b) (orNil (cf_bindings cfg))"

definition listAgentEntries :: "route_config \<Rightarrow> agent_entry list" where
  "listAgentEntries cfg = orNil (cf_agents cfg)"

definition listAgentIds :: "route_config \<Rightarrow> string list" where
  "listAgentIds cfg =
     (let ids = foldl (\<lambda>ids e. let i = normalizeAgentId (ae_id e) in if i \<in> set ids then ids else ids @ [i]) []
                  (listAgentEntries cfg)
      in if listAgentEntries cfg = [] \<or> ids = [] then [DEFAULT_AGENT_ID] else ids)"

definition resolveDefaultAgentId :: "route_config \<Rightarrow> string" where
  "resolveDefaultAgentId cfg =
     (case listAgentEntries cfg of
        [] \<Rightarrow> DEFAULT_AGENT_ID
      | first # _ \<Rightarrow>
          (let chosen = (case filter ae_default (listAgentEntries cfg) of [] \<Rightarrow> first | d # _ \<Rightarrow> d)
           in normalizeAgentId (Some (orElse (js_trim (orEmpty (ae_id chosen))) DEFAULT_AGENT_ID))))"

section \<open>Binding scopes\<close>

definition normalizeRouteBindingId :: "jsval \<Rightarrow> string" where
  "normalizeRouteBindingId v =
     (case v of
        JStr s \<Rightarrow> js_trim s
      | JInt i \<Rightarrow> js_trim (js_show_int i)
      | JBig i \<Rightarrow> js_trim (js_show_int i)
      | JNonFinite s \<Rightarrow> js_trim s
      | _ \<Rightarrow> [])"

definition normalizeRouteBindingRoles :: "string list option \<Rightarrow> string list option" where
  "normalizeRouteBindingRoles v = (case v of Some (r # rs) \<Rightarrow> Some (r # rs) | _ \<Rightarrow> None)"

record channel_entry =
  ce_id :: string
  ce_aliases :: "string list"

definition chatChannelAliases :: "channel_entry list \<Rightarrow> (string, string) jsmap" where
  "chatChannelAliases entries =
     foldl (\<lambda>m (alias, i). jm_set alias i m) [] (concat (map (\<lambda>e. map (\<lambda>a. (a, ce_id e)) (ce_aliases e)) entries))"

definition normalizeChatChannelId :: "channel_entry list \<Rightarrow> string option \<Rightarrow> string option" where
  "normalizeChatChannelId entries raw =
     (case normalizeOptionalLowercaseString raw of
        None \<Rightarrow> None
      | Some normalized \<Rightarrow>
          (let resolved = (case jm_get (chatChannelAliases entries) normalized of None \<Rightarrow> normalized | Some i \<Rightarrow> i)
           in if resolved \<in> ce_id ` set entries then Some resolved else None))"

definition normalizeRouteBindingChannelId :: "channel_entry list \<Rightarrow> string option \<Rightarrow> string option" where
  "normalizeRouteBindingChannelId entries raw =
     (case normalizeChatChannelId entries raw of
        Some (c # cs) \<Rightarrow> Some (c # cs)
      | _ \<Rightarrow> (let fallback = normalizeLowercaseStringOrEmpty raw in if fallback = [] then None else Some fallback))"

record bound_match =
  bd_agentId :: string
  bd_accountId :: string
  bd_channelId :: string

definition resolveNormalizedRouteBindingMatch :: "channel_entry list \<Rightarrow> agent_binding \<Rightarrow> bound_match option" where
  "resolveNormalizedRouteBindingMatch entries binding =
     (case ab_match binding of
        None \<Rightarrow> None
      | Some m \<Rightarrow>
          (case normalizeRouteBindingChannelId entries (bm_channel m) of
             None \<Rightarrow> None
           | Some channelId \<Rightarrow>
               (let account = js_trim (orEmpty (bm_accountId m))
                in if account = [] \<or> account = ''*'' then None
                   else Some \<lparr>bd_agentId = normalizeAgentId (ab_agentId binding),
                              bd_accountId = accountOf (Some account), bd_channelId = channelId\<rparr>)))"

definition scopeIdMatches :: "string option \<Rightarrow> string \<Rightarrow> string \<Rightarrow> bool" where
  "scopeIdMatches constraint exact groupSpace \<longleftrightarrow>
     orEmpty constraint = [] \<or> constraint = Some exact \<or> constraint = Some groupSpace"

definition hasAnyRouteBindingRole :: "string list \<Rightarrow> string list option \<Rightarrow> bool" where
  "hasAnyRouteBindingRole roles memberRoleIds =
     (case memberRoleIds of None \<Rightarrow> False | Some ids \<Rightarrow> list_ex (\<lambda>role. role \<in> set ids) roles)"

record route_constraint =
  rct_guildId :: "string option"
  rct_teamId :: "string option"
  rct_roles :: "string list option"

record route_scope =
  rsc_guildId :: jsval
  rsc_teamId :: jsval
  rsc_groupSpace :: jsval
  rsc_memberRoleIds :: "string list option"

definition routeBindingScopeMatches :: "route_constraint \<Rightarrow> route_scope \<Rightarrow> bool" where
  "routeBindingScopeMatches c scope =
     (let guildId = normalizeRouteBindingId (rsc_guildId scope);
          teamId = normalizeRouteBindingId (rsc_teamId scope);
          groupSpace = normalizeRouteBindingId (rsc_groupSpace scope)
      in if \<not> scopeIdMatches (rct_guildId c) guildId groupSpace then False
         else if \<not> scopeIdMatches (rct_teamId c) teamId groupSpace then False
         else (case normalizeRouteBindingRoles (rct_roles c) of
                 None \<Rightarrow> True
               | Some roles \<Rightarrow> hasAnyRouteBindingRole roles (rsc_memberRoleIds scope)))"

section \<open>Accounts bound to agents\<close>

definition listBoundAccountIds ::
  "channel_entry list \<Rightarrow> (string \<Rightarrow> string \<Rightarrow> int) \<Rightarrow> route_config \<Rightarrow> string \<Rightarrow> string list" where
  "listBoundAccountIds entries localeCompare cfg channelId =
     (case normalizeRouteBindingChannelId entries (Some channelId) of
        None \<Rightarrow> []
      | Some channel \<Rightarrow>
          js_toSorted localeCompare
            (foldl (\<lambda>ids b.
               case resolveNormalizedRouteBindingMatch entries b of
                 None \<Rightarrow> ids
               | Some r \<Rightarrow> if bd_channelId r \<noteq> channel \<or> bd_accountId r \<in> set ids then ids
                           else ids @ [bd_accountId r])
             [] (listRouteBindings cfg)))"

definition resolveDefaultAgentBoundAccountId :: "channel_entry list \<Rightarrow> route_config \<Rightarrow> string \<Rightarrow> string option" where
  "resolveDefaultAgentBoundAccountId entries cfg channelId =
     (case normalizeRouteBindingChannelId entries (Some channelId) of
        None \<Rightarrow> None
      | Some channel \<Rightarrow>
          map_option bd_accountId
            (find (\<lambda>r. bd_channelId r = channel \<and> bd_agentId r = normalizeAgentId (Some (resolveDefaultAgentId cfg)))
              (List.map_filter (resolveNormalizedRouteBindingMatch entries) (listRouteBindings cfg))))"

definition addChannelAccount ::
  "channel_entry list \<Rightarrow> (string, (string, string list) jsmap) jsmap \<Rightarrow> agent_binding \<Rightarrow>
   (string, (string, string list) jsmap) jsmap" where
  "addChannelAccount entries m binding =
     (case resolveNormalizedRouteBindingMatch entries binding of
        None \<Rightarrow> m
      | Some r \<Rightarrow>
          (let byAgent = orNil (jm_get m (bd_channelId r));
               list = orNil (jm_get byAgent (bd_agentId r));
               list = (if bd_accountId r \<in> set list then list else list @ [bd_accountId r])
           in jm_set (bd_channelId r) (jm_set (bd_agentId r) list byAgent) m))"

definition buildChannelAccountBindings ::
  "channel_entry list \<Rightarrow> route_config \<Rightarrow> (string, (string, string list) jsmap) jsmap" where
  "buildChannelAccountBindings entries cfg = foldl (addChannelAccount entries) [] (listRouteBindings cfg)"

definition resolvePreferredAccountId :: "string list \<Rightarrow> string \<Rightarrow> string" where
  "resolvePreferredAccountId boundAccounts defaultAccountId =
     (case boundAccounts of [] \<Rightarrow> defaultAccountId | a # _ \<Rightarrow> a)"

definition resolveNormalizedAccountEntry ::
  "(string, 'a) jsmap option \<Rightarrow> string \<Rightarrow> (string \<Rightarrow> string) \<Rightarrow> 'a option" where
  "resolveNormalizedAccountEntry accounts account normalizeKey =
     (case accounts of
        None \<Rightarrow> None
      | Some m \<Rightarrow>
          (case jm_get m account of
             Some v \<Rightarrow> Some v
           | None \<Rightarrow>
               (case find (\<lambda>key. normalizeKey key = normalizeKey account) (map fst m) of
                  None \<Rightarrow> None
                | Some key \<Rightarrow> if key = [] then None else jm_get m key)))"

definition resolveAccountEntry :: "(string, 'a) jsmap option \<Rightarrow> string \<Rightarrow> 'a option" where
  "resolveAccountEntry accounts account =
     resolveNormalizedAccountEntry accounts account (\<lambda>s. normalizeLowercaseStringOrEmpty (Some s))"

section \<open>The account bound to an agent and a peer\<close>

record bound_account =
  bc_base :: bound_match
  bc_peerId :: "string option"
  bc_peerKind :: "chat_type option"
  bc_constraint :: route_constraint

text \<open>\<open>s || null\<close>\<close>

definition textOrNull :: "string \<Rightarrow> string option" where
  "textOrNull s = (if s = [] then None else Some s)"

definition resolveNormalizedBoundAccountMatch :: "channel_entry list \<Rightarrow> agent_binding \<Rightarrow> bound_account option" where
  "resolveNormalizedBoundAccountMatch entries binding =
     (case (resolveNormalizedRouteBindingMatch entries binding, ab_match binding) of
        (Some base, Some m) \<Rightarrow>
          Some \<lparr>bc_base = base,
                bc_peerId = (case bm_peer m of
                    None \<Rightarrow> None
                  | Some p \<Rightarrow> (case pm_id p of JStr s \<Rightarrow> textOrNull (js_trim s) | _ \<Rightarrow> None)),
                bc_peerKind = (case bm_peer m of None \<Rightarrow> None | Some p \<Rightarrow> normalizeChatType (pm_kind p)),
                bc_constraint = \<lparr>rct_guildId = textOrNull (normalizeRouteBindingId (bm_guildId m)),
                                 rct_teamId = textOrNull (normalizeRouteBindingId (bm_teamId m)),
                                 rct_roles = normalizeRouteBindingRoles (bm_roles m)\<rparr>\<rparr>
      | _ \<Rightarrow> None)"

definition buildExactPeerIdSet :: "string option \<Rightarrow> string list option \<Rightarrow> string list" where
  "buildExactPeerIdSet peerId aliases =
     filter (\<lambda>s. s \<noteq> []) (map js_trim (case peerId of None \<Rightarrow> orNil aliases | Some p \<Rightarrow> p # orNil aliases))"

record bound_query =
  bq_channelId :: string
  bq_agentId :: string
  bq_peerId :: "string option"
  bq_aliases :: "string list option"
  bq_peerKind :: "string option"
  bq_groupSpace :: jsval
  bq_memberRoleIds :: "string list option"

text \<open>The loop, with the wildcard match and the fallback found so far; \<open>Inl\<close> is an early return.\<close>

definition boundStep ::
  "string list \<Rightarrow> chat_type option \<Rightarrow> bound_query \<Rightarrow> string option \<times> string option \<Rightarrow> bound_account \<Rightarrow>
   string + string option \<times> string option" where
  "boundStep exact kind query found r =
     (let account = bd_accountId (bc_base r); (wildcard, fallback) = found
      in if \<not> routeBindingScopeMatches (bc_constraint r)
              \<lparr>rsc_guildId = JUndef, rsc_teamId = JUndef, rsc_groupSpace = bq_groupSpace query,
               rsc_memberRoleIds = bq_memberRoleIds query\<rparr>
         then Inr found
         else if exact = [] then Inl account
         else
           (case bc_peerId r of
              Some p \<Rightarrow>
                if p = ''*'' then
                  (case (bc_peerKind r, kind) of
                     (Some b, Some k) \<Rightarrow>
                       if peerKindMatches b k
                       then Inr (case wildcard of None \<Rightarrow> Some account | Some w \<Rightarrow> Some w, fallback) else Inr found
                   | _ \<Rightarrow> Inr found)
                else if (case (bc_peerKind r, kind) of (Some b, Some k) \<Rightarrow> \<not> peerKindMatches b k | _ \<Rightarrow> False)
                then Inr found
                else if p \<in> set exact then Inl account
                else Inr found
            | None \<Rightarrow> Inr (wildcard, case fallback of None \<Rightarrow> Some account | Some f \<Rightarrow> Some f)))"

fun boundLoop ::
  "channel_entry list \<Rightarrow> string \<Rightarrow> string \<Rightarrow> string list \<Rightarrow> chat_type option \<Rightarrow> bound_query \<Rightarrow>
   agent_binding list \<Rightarrow> string option \<times> string option \<Rightarrow> string option" where
  "boundLoop entries channel agent exact kind query [] found =
     (case fst found of None \<Rightarrow> snd found | Some w \<Rightarrow> Some w)"
| "boundLoop entries channel agent exact kind query (b # bs) found =
     (case resolveNormalizedBoundAccountMatch entries b of
        None \<Rightarrow> boundLoop entries channel agent exact kind query bs found
      | Some r \<Rightarrow>
          if bd_channelId (bc_base r) \<noteq> channel \<or> bd_agentId (bc_base r) \<noteq> agent
          then boundLoop entries channel agent exact kind query bs found
          else
            (case boundStep exact kind query found r of
               Inl account \<Rightarrow> Some account
             | Inr found \<Rightarrow> boundLoop entries channel agent exact kind query bs found))"

definition resolveFirstBoundAccountId ::
  "channel_entry list \<Rightarrow> route_config \<Rightarrow> bound_query \<Rightarrow> string option" where
  "resolveFirstBoundAccountId entries cfg query =
     (case normalizeRouteBindingChannelId entries (Some (bq_channelId query)) of
        None \<Rightarrow> None
      | Some channel \<Rightarrow>
          boundLoop entries channel (normalizeAgentId (Some (bq_agentId query)))
            (buildExactPeerIdSet (bq_peerId query) (bq_aliases query)) (normalizeChatType (bq_peerKind query)) query
            (listRouteBindings cfg) (None, None))"

section \<open>Precedence\<close>

text \<open>The bindings of an agent on a channel whose scope accepts the query, in the order of the configuration.\<close>

definition boundCandidates ::
  "channel_entry list \<Rightarrow> string \<Rightarrow> bound_query \<Rightarrow> agent_binding list \<Rightarrow> bound_account list" where
  "boundCandidates entries channel query bs =
     filter (\<lambda>r. bd_channelId (bc_base r) = channel \<and> bd_agentId (bc_base r) = normalizeAgentId (Some (bq_agentId query)) \<and>
         routeBindingScopeMatches (bc_constraint r)
           \<lparr>rsc_guildId = JUndef, rsc_teamId = JUndef, rsc_groupSpace = bq_groupSpace query,
            rsc_memberRoleIds = bq_memberRoleIds query\<rparr>)
       (List.map_filter (resolveNormalizedBoundAccountMatch entries) bs)"

definition kindsAgree :: "bound_account \<Rightarrow> chat_type option \<Rightarrow> bool" where
  "kindsAgree r kind = (case (bc_peerKind r, kind) of (Some b, Some k) \<Rightarrow> peerKindMatches b k | _ \<Rightarrow> True)"

definition namesExactly :: "string list \<Rightarrow> chat_type option \<Rightarrow> bound_account \<Rightarrow> bool" where
  "namesExactly exact kind r \<longleftrightarrow>
     (case bc_peerId r of None \<Rightarrow> False | Some p \<Rightarrow> p \<noteq> ''*'' \<and> p \<in> set exact \<and> kindsAgree r kind)"

definition namesAny :: "chat_type option \<Rightarrow> bound_account \<Rightarrow> bool" where
  "namesAny kind r \<longleftrightarrow> bc_peerId r = Some ''*'' \<and> bc_peerKind r \<noteq> None \<and> kind \<noteq> None \<and> kindsAgree r kind"

abbreviation accountFound :: "bound_account option \<Rightarrow> string option" where
  "accountFound r \<equiv> map_option (\<lambda>r. bd_accountId (bc_base r)) r"

definition firstOf :: "'a option \<Rightarrow> 'a option \<Rightarrow> 'a option" where
  "firstOf a b = (case a of None \<Rightarrow> b | Some x \<Rightarrow> Some x)"

lemma firstOf_simps [simp]: "firstOf None b = b" "firstOf (Some x) b = Some x" "firstOf a None = a"
  by (simp_all add: firstOf_def split: option.split)

lemma boundStep_exact:
  assumes "exact \<noteq> []"
    and "routeBindingScopeMatches (bc_constraint r) \<lparr>rsc_guildId = JUndef, rsc_teamId = JUndef,
      rsc_groupSpace = bq_groupSpace query, rsc_memberRoleIds = bq_memberRoleIds query\<rparr>"
  shows "boundStep exact kind query (w, f) r =
    (let account = bd_accountId (bc_base r)
     in if namesExactly exact kind r then Inl account
        else Inr (firstOf w (if namesAny kind r then Some account else None),
                  firstOf f (if bc_peerId r = None then Some account else None)))"
  using assms
  by (cases "bc_peerId r"; cases "bc_peerKind r"; cases kind)
    (auto simp: boundStep_def namesExactly_def namesAny_def kindsAgree_def firstOf_def Let_def split: option.splits)

lemma boundLoop_exact:
  assumes "exact \<noteq> []"
  shows "boundLoop entries channel (normalizeAgentId (Some (bq_agentId query))) exact kind query bs (w, f) =
    (let cs = boundCandidates entries channel query bs
     in firstOf (accountFound (find (namesExactly exact kind) cs))
          (firstOf (firstOf w (accountFound (find (namesAny kind) cs)))
             (firstOf f (accountFound (find (\<lambda>r. bc_peerId r = None) cs)))))"
proof (induction bs arbitrary: w f)
  case Nil
  then show ?case by (cases w) (simp_all add: boundCandidates_def Let_def)
next
  case (Cons b bs)
  show ?case
  proof (cases "resolveNormalizedBoundAccountMatch entries b")
    case None
    with Cons show ?thesis by (simp add: boundCandidates_def Let_def)
  next
    case (Some r)
    let ?scope = "routeBindingScopeMatches (bc_constraint r) \<lparr>rsc_guildId = JUndef, rsc_teamId = JUndef,
      rsc_groupSpace = bq_groupSpace query, rsc_memberRoleIds = bq_memberRoleIds query\<rparr>"
    let ?mine = "bd_channelId (bc_base r) = channel \<and> bd_agentId (bc_base r) = normalizeAgentId (Some (bq_agentId query))"
    have cands: "boundCandidates entries channel query (b # bs) =
        (if ?mine \<and> ?scope then [r] else []) @ boundCandidates entries channel query bs"
      using Some by (simp add: boundCandidates_def)
    show ?thesis
    proof (cases "?mine \<and> ?scope")
      case True
      then have step: "boundStep exact kind query (w, f) r =
        (let account = bd_accountId (bc_base r)
         in if namesExactly exact kind r then Inl account
            else Inr (firstOf w (if namesAny kind r then Some account else None),
                  firstOf f (if bc_peerId r = None then Some account else None)))"
        using boundStep_exact [OF assms] by blast
      have assoc: "firstOf (firstOf x y) z = firstOf x (firstOf y z)" for x y z :: "string option"
        by (cases x) simp_all
      from True Some step Cons.IH show ?thesis
        by (cases "namesExactly exact kind r"; cases "namesAny kind r"; cases "bc_peerId r")
          (simp_all add: cands assoc Let_def)
    next
      case False
      have "boundStep exact kind query (w, f) r = Inr (w, f)" if "\<not> ?scope"
        using that by (simp add: boundStep_def Let_def)
      with False Some Cons.IH show ?thesis by (auto simp: cands Let_def)
    qed
  qed
qed

lemma boundLoop_peerless:
  "boundLoop entries channel (normalizeAgentId (Some (bq_agentId query))) [] kind query bs (None, None) =
     (case boundCandidates entries channel query bs of [] \<Rightarrow> None | r # _ \<Rightarrow> Some (bd_accountId (bc_base r)))"
proof (induction bs)
  case Nil
  then show ?case by (simp add: boundCandidates_def)
next
  case (Cons b bs)
  then show ?case
    by (cases "resolveNormalizedBoundAccountMatch entries b")
      (simp_all add: boundCandidates_def boundStep_def Let_def)
qed

text \<open>The account bound to an agent: without a peer the first binding of the agent on the channel whose guild,
  team and roles accept the query decides; with a peer, the first such binding that names one of the peer's
  ids (and no other kind), else the first wildcard binding of the peer's kind, else the first one without a
  peer; in each case in the order of the configuration, whatever comes in between.\<close>

theorem bound_account_precedence:
  "resolveFirstBoundAccountId entries cfg query =
     (case normalizeRouteBindingChannelId entries (Some (bq_channelId query)) of
        None \<Rightarrow> None
      | Some channel \<Rightarrow>
          (let cs = boundCandidates entries channel query (listRouteBindings cfg);
               exact = buildExactPeerIdSet (bq_peerId query) (bq_aliases query);
               kind = normalizeChatType (bq_peerKind query)
           in if exact = [] then accountFound (find (\<lambda>r. True) cs)
              else firstOf (accountFound (find (namesExactly exact kind) cs))
                     (firstOf (accountFound (find (namesAny kind) cs))
                        (accountFound (find (\<lambda>r. bc_peerId r = None) cs)))))"
proof (cases "normalizeRouteBindingChannelId entries (Some (bq_channelId query))")
  case (Some channel)
  let ?exact = "buildExactPeerIdSet (bq_peerId query) (bq_aliases query)"
  have first: "accountFound (find (\<lambda>r. True) cs) = (case cs of [] \<Rightarrow> None | r # _ \<Rightarrow> Some (bd_accountId (bc_base r)))"
    for cs by (cases cs) simp_all
  show ?thesis
  proof (cases "?exact = []")
    case True
    with Some boundLoop_peerless show ?thesis by (simp add: resolveFirstBoundAccountId_def first Let_def)
  next
    case False
    with Some boundLoop_exact [OF False, where w = None and f = None] show ?thesis
      by (simp add: resolveFirstBoundAccountId_def Let_def)
  qed
qed (simp add: resolveFirstBoundAccountId_def)

end
