(* ===== verification/AgentRoute.thy ===== *)
theory AgentRoute
  imports RouteBindings
begin

text \<open>
  Agent routing, \<open>src/routing/resolve-route.ts\<close>: which agent answers a message, and under which session key.

  The bindings of a configuration are sorted once into buckets per channel and account and indexed per tier; the
  result of a lookup is cached as well.  The three weak maps keyed by the configuration object are maps keyed by
  its identity, and the references a cache entry was built for are compared as the code compares them.
  Evaluated bindings of one configuration differ in their order number, so comparing them by value is
  comparing them by identity.  Verbose logging is a flag: it switches the route cache off.
\<close>

section \<open>Types\<close>

record route_peer =
  rp_kind :: chat_type
  rp_id :: string

datatype peer_constraint =
  PeerNone
| PeerInvalid
| PeerWildcard chat_type
| PeerValid chat_type string

record normalized_match =
  nm_accountPattern :: string
  nm_peer :: peer_constraint
  nm_guildId :: "string option"
  nm_teamId :: "string option"
  nm_roles :: "string list option"

record evaluated_binding =
  eb_binding :: agent_binding
  eb_match :: normalized_match
  eb_order :: nat

record channel_bucket =
  cb_byAccount :: "(string, evaluated_binding list) jsmap"
  cb_byAnyAccount :: "evaluated_binding list"

record bindings_index =
  bi_byPeer :: "(string, evaluated_binding list) jsmap"
  bi_byPeerWildcard :: "evaluated_binding list"
  bi_byGuildWithRoles :: "(string, evaluated_binding list) jsmap"
  bi_byGuild :: "(string, evaluated_binding list) jsmap"
  bi_byTeam :: "(string, evaluated_binding list) jsmap"
  bi_byAccount :: "evaluated_binding list"
  bi_byChannel :: "evaluated_binding list"

record evaluated_cache =
  ec_bindingsRef :: nat
  ec_byChannel :: "(string, channel_bucket) jsmap"
  ec_byChannelAccount :: "(string, evaluated_binding list) jsmap"
  ec_byChannelAccountIndex :: "(string, bindings_index) jsmap"

record agent_lookup =
  al_agentsRef :: nat
  al_byNormalizedId :: "(string, string) jsmap"
  al_fallbackDefaultAgentId :: string

datatype matched_by = ByPeer | ByPeerParent | ByPeerWildcard | ByGuildRoles | ByGuild | ByTeam | ByAccount | ByChannel
  | ByDefault

datatype last_route_policy = LastMain | LastSession

record resolved_route =
  rr_agentId :: string
  rr_channel :: string
  rr_accountId :: string
  rr_sessionKey :: string
  rr_mainSessionKey :: string
  rr_lastRoutePolicy :: last_route_policy
  rr_matchedBy :: matched_by

record route_cache =
  rch_bindingsRef :: nat
  rch_agentsRef :: nat
  rch_sessionRef :: nat
  rch_byKey :: "(string, resolved_route) jsmap"

record route_caches =
  rcs_agents :: "(nat, agent_lookup) jsmap"
  rcs_bindings :: "(nat, evaluated_cache) jsmap"
  rcs_routes :: "(nat, route_cache) jsmap"

definition noRouteCaches :: route_caches where
  "noRouteCaches = \<lparr>rcs_agents = [], rcs_bindings = [], rcs_routes = []\<rparr>"

record route_query =
  rq_channel :: string
  rq_accountId :: "string option"
  rq_peer :: "(chat_type \<times> jsval) option"
  rq_parentPeer :: "(chat_type \<times> jsval) option"
  rq_guildId :: jsval
  rq_teamId :: jsval
  rq_memberRoleIds :: "string list option"

section \<open>Session keys of a route\<close>

definition deriveLastRoutePolicy :: "string \<Rightarrow> string \<Rightarrow> last_route_policy" where
  "deriveLastRoutePolicy sessionKey mainSessionKey = (if sessionKey = mainSessionKey then LastMain else LastSession)"

definition resolveInboundLastRouteSessionKey :: "last_route_policy \<Rightarrow> string \<Rightarrow> string \<Rightarrow> string" where
  "resolveInboundLastRouteSessionKey policy mainSessionKey sessionKey =
     (if policy = LastMain then mainSessionKey else sessionKey)"

definition buildAgentSessionKey ::
  "string \<Rightarrow> string \<Rightarrow> string option \<Rightarrow> route_peer option \<Rightarrow> dm_scope option \<Rightarrow>
   (string \<times> string list option) list option \<Rightarrow> string" where
  "buildAgentSessionKey agentId channel account peer dmScope identityLinks =
     buildAgentPeerSessionKey
       \<lparr>pp_agentId = Some agentId, pp_mainKey = Some DEFAULT_MAIN_KEY, pp_channel = channelOrUnknown channel,
        pp_accountId = account, pp_peerKind = Some (case peer of None \<Rightarrow> ChatDirect | Some p \<Rightarrow> rp_kind p),
        pp_peerId = map_option (\<lambda>p. orElse (normalizeRouteBindingId (JStr (rp_id p))) ''unknown'') peer,
        pp_identityLinks = identityLinks, pp_dmScope = dmScope\<rparr>"

section \<open>Agents\<close>

definition buildAgentLookup :: "route_config \<Rightarrow> agent_lookup" where
  "buildAgentLookup cfg =
     \<lparr>al_agentsRef = cf_agentsRef cfg,
      al_byNormalizedId = foldl (\<lambda>m e.
        let rawId = js_trim (orEmpty (ae_id e))
        in if rawId = [] then m else jm_set (normalizeAgentId (Some rawId)) (normalizeAgentId (Some rawId)) m)
        [] (orNil (cf_agents cfg)),
      al_fallbackDefaultAgentId = normalizeAgentId (Some (resolveDefaultAgentId cfg))\<rparr>"

definition resolveAgentLookupCache :: "route_config \<Rightarrow> route_caches \<Rightarrow> agent_lookup \<times> route_caches" where
  "resolveAgentLookupCache cfg S =
     (let fresh = (let l = buildAgentLookup cfg in (l, S\<lparr>rcs_agents := jm_set (cf_id cfg) l (rcs_agents S)\<rparr>))
      in case jm_get (rcs_agents S) (cf_id cfg) of
           Some existing \<Rightarrow> if al_agentsRef existing = cf_agentsRef cfg then (existing, S) else fresh
         | None \<Rightarrow> fresh)"

definition pickFirstExistingAgentId :: "route_config \<Rightarrow> string option \<Rightarrow> route_caches \<Rightarrow> string \<times> route_caches" where
  "pickFirstExistingAgentId cfg agentId S =
     (let (lookup, S) = resolveAgentLookupCache cfg S;
          trimmed = js_trim (orEmpty agentId)
      in if trimmed = [] then (al_fallbackDefaultAgentId lookup, S)
         else if al_byNormalizedId lookup = [] then (normalizeAgentId (Some trimmed), S)
         else (case jm_get (al_byNormalizedId lookup) (normalizeAgentId (Some trimmed)) of
                 Some (c # cs) \<Rightarrow> (c # cs, S)
               | _ \<Rightarrow> (al_fallbackDefaultAgentId lookup, S)))"

section \<open>Bindings per channel and account\<close>

definition normalizePeerConstraint :: "peer_match option \<Rightarrow> peer_constraint" where
  "normalizePeerConstraint peer =
     (case peer of
        None \<Rightarrow> PeerNone
      | Some p \<Rightarrow>
          (let i = normalizeRouteBindingId (pm_id p)
           in case normalizeChatType (pm_kind p) of
                None \<Rightarrow> PeerInvalid
              | Some kind \<Rightarrow> if i = [] then PeerInvalid else if i = ''*'' then PeerWildcard kind else PeerValid kind i))"

definition normalizeBindingMatch :: "binding_match option \<Rightarrow> normalized_match" where
  "normalizeBindingMatch match =
     \<lparr>nm_accountPattern = js_trim (orEmpty (case match of None \<Rightarrow> None | Some m \<Rightarrow> bm_accountId m)),
      nm_peer = normalizePeerConstraint (case match of None \<Rightarrow> None | Some m \<Rightarrow> bm_peer m),
      nm_guildId = textOrNull (normalizeRouteBindingId (case match of None \<Rightarrow> JUndef | Some m \<Rightarrow> bm_guildId m)),
      nm_teamId = textOrNull (normalizeRouteBindingId (case match of None \<Rightarrow> JUndef | Some m \<Rightarrow> bm_teamId m)),
      nm_roles = normalizeRouteBindingRoles (case match of None \<Rightarrow> None | Some m \<Rightarrow> bm_roles m)\<rparr>"

definition resolveAccountPatternKey :: "string \<Rightarrow> string" where
  "resolveAccountPatternKey pattern = (if js_trim pattern = [] then DEFAULT_ACCOUNT_ID else accountOf (Some pattern))"

definition bindingChannel :: "agent_binding \<Rightarrow> string" where
  "bindingChannel b = normalizeLowercaseStringOrEmpty (case ab_match b of None \<Rightarrow> None | Some m \<Rightarrow> bm_channel m)"

definition addToBucket :: "evaluated_binding \<Rightarrow> channel_bucket \<Rightarrow> channel_bucket" where
  "addToBucket e bucket =
     (if nm_accountPattern (eb_match e) = ''*'' then bucket\<lparr>cb_byAnyAccount := cb_byAnyAccount bucket @ [e]\<rparr>
      else
        (let key = resolveAccountPatternKey (nm_accountPattern (eb_match e))
         in bucket\<lparr>cb_byAccount := jm_set key (orNil (jm_get (cb_byAccount bucket) key) @ [e]) (cb_byAccount bucket)\<rparr>))"

definition bucketStep ::
  "(string, channel_bucket) jsmap \<times> nat \<Rightarrow> agent_binding \<Rightarrow> (string, channel_bucket) jsmap \<times> nat" where
  "bucketStep acc b =
     (let (byChannel, order) = acc; channel = bindingChannel b
      in if channel = [] then acc
         else
           (let bucket = (case jm_get byChannel channel of
                  None \<Rightarrow> \<lparr>cb_byAccount = [], cb_byAnyAccount = []\<rparr> | Some x \<Rightarrow> x);
                e = \<lparr>eb_binding = b, eb_match = normalizeBindingMatch (ab_match b), eb_order = order\<rparr>
            in (jm_set channel (addToBucket e bucket) byChannel, Suc order)))"

definition buildEvaluatedBindingsByChannel :: "route_config \<Rightarrow> (string, channel_bucket) jsmap" where
  "buildEvaluatedBindingsByChannel cfg = fst (foldl bucketStep ([], 0) (listRouteBindings cfg))"

fun mergeEvaluatedBindingsInSourceOrder ::
  "evaluated_binding list \<Rightarrow> evaluated_binding list \<Rightarrow> evaluated_binding list" where
  "mergeEvaluatedBindingsInSourceOrder [] ys = ys"
| "mergeEvaluatedBindingsInSourceOrder xs [] = xs"
| "mergeEvaluatedBindingsInSourceOrder (x # xs) (y # ys) =
     (if eb_order x \<le> eb_order y then x # mergeEvaluatedBindingsInSourceOrder xs (y # ys)
      else y # mergeEvaluatedBindingsInSourceOrder (x # xs) ys)"

section \<open>The index\<close>

definition pushToIndexMap ::
  "string option \<Rightarrow> evaluated_binding \<Rightarrow> (string, evaluated_binding list) jsmap \<Rightarrow> (string, evaluated_binding list) jsmap" where
  "pushToIndexMap key e m =
     (case key of
        Some (c # cs) \<Rightarrow> jm_set (c # cs) (orNil (jm_get m (c # cs)) @ [e]) m
      | _ \<Rightarrow> m)"

definition peerLookupKeys :: "chat_type \<Rightarrow> string \<Rightarrow> string list" where
  "peerLookupKeys kind i =
     (case kind of
        ChatGroup \<Rightarrow> [''group:'' @ i, ''channel:'' @ i]
      | ChatChannel \<Rightarrow> [''channel:'' @ i, ''group:'' @ i]
      | ChatDirect \<Rightarrow> [''direct:'' @ i])"

definition collectPeerIndexedBindings :: "bindings_index \<Rightarrow> route_peer option \<Rightarrow> evaluated_binding list" where
  "collectPeerIndexedBindings idx peer =
     (case peer of
        None \<Rightarrow> []
      | Some p \<Rightarrow>
          foldl (\<lambda>out e. if e \<in> set out then out else out @ [e]) []
            (concat (map (\<lambda>key. orNil (jm_get (bi_byPeer idx) key)) (peerLookupKeys (rp_kind p) (rp_id p)))))"

definition emptyIndex :: bindings_index where
  "emptyIndex = \<lparr>bi_byPeer = [], bi_byPeerWildcard = [], bi_byGuildWithRoles = [], bi_byGuild = [], bi_byTeam = [],
     bi_byAccount = [], bi_byChannel = []\<rparr>"

definition indexStep :: "bindings_index \<Rightarrow> evaluated_binding \<Rightarrow> bindings_index" where
  "indexStep idx e =
     (let m = eb_match e
      in case nm_peer m of
           PeerValid kind i \<Rightarrow>
             idx\<lparr>bi_byPeer := foldl (\<lambda>byPeer key. pushToIndexMap (Some key) e byPeer) (bi_byPeer idx) (peerLookupKeys kind i)\<rparr>
         | PeerWildcard _ \<Rightarrow> idx\<lparr>bi_byPeerWildcard := bi_byPeerWildcard idx @ [e]\<rparr>
         | _ \<Rightarrow>
             if orEmpty (nm_guildId m) \<noteq> [] \<and> nm_roles m \<noteq> None
             then idx\<lparr>bi_byGuildWithRoles := pushToIndexMap (nm_guildId m) e (bi_byGuildWithRoles idx)\<rparr>
             else if orEmpty (nm_guildId m) \<noteq> [] \<and> nm_roles m = None
             then idx\<lparr>bi_byGuild := pushToIndexMap (nm_guildId m) e (bi_byGuild idx)\<rparr>
             else if orEmpty (nm_teamId m) \<noteq> [] then idx\<lparr>bi_byTeam := pushToIndexMap (nm_teamId m) e (bi_byTeam idx)\<rparr>
             else if nm_accountPattern m \<noteq> ''*'' then idx\<lparr>bi_byAccount := bi_byAccount idx @ [e]\<rparr>
             else idx\<lparr>bi_byChannel := bi_byChannel idx @ [e]\<rparr>)"

definition buildEvaluatedBindingsIndex :: "evaluated_binding list \<Rightarrow> bindings_index" where
  "buildEvaluatedBindingsIndex bindings = foldl indexStep emptyIndex bindings"

section \<open>Cached bindings\<close>

definition MAX_EVALUATED_BINDINGS_CACHE_KEYS :: nat where "MAX_EVALUATED_BINDINGS_CACHE_KEYS = 2000"

definition tab :: string where "tab = [CHR 0x09]"

definition mergedBindings :: "(string, channel_bucket) jsmap \<Rightarrow> string \<Rightarrow> string \<Rightarrow> evaluated_binding list" where
  "mergedBindings byChannel channel account =
     (case jm_get byChannel channel of
        None \<Rightarrow> mergeEvaluatedBindingsInSourceOrder [] []
      | Some bucket \<Rightarrow>
          mergeEvaluatedBindingsInSourceOrder (orNil (jm_get (cb_byAccount bucket) account)) (cb_byAnyAccount bucket))"

definition putBindingsCache :: "route_config \<Rightarrow> evaluated_cache \<Rightarrow> route_caches \<Rightarrow> route_caches" where
  "putBindingsCache cfg cache S = S\<lparr>rcs_bindings := jm_set (cf_id cfg) cache (rcs_bindings S)\<rparr>"

text \<open>The entry of the configuration, or a new one when its bindings were replaced.\<close>

definition currentBindingsCache :: "route_config \<Rightarrow> route_caches \<Rightarrow> evaluated_cache" where
  "currentBindingsCache cfg S =
     (let fresh = \<lparr>ec_bindingsRef = cf_bindingsRef cfg, ec_byChannel = buildEvaluatedBindingsByChannel cfg,
                   ec_byChannelAccount = [], ec_byChannelAccountIndex = []\<rparr>
      in case jm_get (rcs_bindings S) (cf_id cfg) of
           Some existing \<Rightarrow> if ec_bindingsRef existing = cf_bindingsRef cfg then existing else fresh
         | None \<Rightarrow> fresh)"

definition rememberBindings :: "string \<Rightarrow> evaluated_binding list \<Rightarrow> evaluated_cache \<Rightarrow> evaluated_cache" where
  "rememberBindings cacheKey evaluated cache =
     (let byKey = jm_set cacheKey evaluated (ec_byChannelAccount cache);
          index = jm_set cacheKey (buildEvaluatedBindingsIndex evaluated) (ec_byChannelAccountIndex cache)
      in if length byKey > MAX_EVALUATED_BINDINGS_CACHE_KEYS
         then cache\<lparr>ec_byChannelAccount := [(cacheKey, evaluated)],
                    ec_byChannelAccountIndex := [(cacheKey, buildEvaluatedBindingsIndex evaluated)]\<rparr>
         else cache\<lparr>ec_byChannelAccount := byKey, ec_byChannelAccountIndex := index\<rparr>)"

definition getEvaluatedBindingsForChannelAccount ::
  "route_config \<Rightarrow> string \<Rightarrow> string \<Rightarrow> route_caches \<Rightarrow> evaluated_binding list \<times> route_caches" where
  "getEvaluatedBindingsForChannelAccount cfg channel account S =
     (let cache = currentBindingsCache cfg S;
          S = putBindingsCache cfg cache S;
          cacheKey = channel @ tab @ account
      in case jm_get (ec_byChannelAccount cache) cacheKey of
           Some hit \<Rightarrow> (hit, S)
         | None \<Rightarrow>
             (let evaluated = mergedBindings (ec_byChannel cache) channel account
              in (evaluated, putBindingsCache cfg (rememberBindings cacheKey evaluated cache) S)))"

definition getEvaluatedBindingIndexForChannelAccount ::
  "route_config \<Rightarrow> string \<Rightarrow> string \<Rightarrow> route_caches \<Rightarrow> bindings_index \<times> route_caches" where
  "getEvaluatedBindingIndexForChannelAccount cfg channel account S =
     (let (bindings, S) = getEvaluatedBindingsForChannelAccount cfg channel account S;
          cacheKey = channel @ tab @ account
      in case jm_get (rcs_bindings S) (cf_id cfg) of
           None \<Rightarrow> (buildEvaluatedBindingsIndex bindings, S)
         | Some existing \<Rightarrow>
             (case jm_get (ec_byChannelAccountIndex existing) cacheKey of
                Some indexed \<Rightarrow> (indexed, S)
              | None \<Rightarrow>
                  (let built = buildEvaluatedBindingsIndex bindings
                   in (built, putBindingsCache cfg
                         (existing\<lparr>ec_byChannelAccountIndex := jm_set cacheKey built (ec_byChannelAccountIndex existing)\<rparr>) S))))"

section \<open>Cached routes\<close>

definition MAX_RESOLVED_ROUTE_CACHE_KEYS :: nat where "MAX_RESOLVED_ROUTE_CACHE_KEYS = 4000"

definition resolveRouteCacheForConfig ::
  "route_config \<Rightarrow> route_caches \<Rightarrow> (string, resolved_route) jsmap \<times> route_caches" where
  "resolveRouteCacheForConfig cfg S =
     (let fresh = ([], S\<lparr>rcs_routes := jm_set (cf_id cfg)
            \<lparr>rch_bindingsRef = cf_bindingsRef cfg, rch_agentsRef = cf_agentsRef cfg,
             rch_sessionRef = cf_sessionRef cfg, rch_byKey = []\<rparr> (rcs_routes S)\<rparr>)
      in case jm_get (rcs_routes S) (cf_id cfg) of
           Some e \<Rightarrow> if rch_bindingsRef e = cf_bindingsRef cfg \<and> rch_agentsRef e = cf_agentsRef cfg \<and>
                        rch_sessionRef e = cf_sessionRef cfg then (rch_byKey e, S) else fresh
         | None \<Rightarrow> fresh)"

definition formatRouteCachePeer :: "route_peer option \<Rightarrow> string" where
  "formatRouteCachePeer peer =
     (case peer of
        None \<Rightarrow> ''-''
      | Some p \<Rightarrow> if rp_id p = [] then ''-'' else chatTypeText (rp_kind p) @ '':'' @ rp_id p)"

definition formatRoleIdsCacheKey :: "string list \<Rightarrow> string" where
  "formatRoleIdsCacheKey roleIds =
     (case roleIds of
        [] \<Rightarrow> ''-''
      | [r] \<Rightarrow> r
      | [first, second] \<Rightarrow> if cu_compare first second \<le> 0 then first @ '','' @ second else second @ '','' @ first
      | _ \<Rightarrow> js_join '','' (js_toSorted cu_compare roleIds))"

definition dmScopeText :: "dm_scope \<Rightarrow> string" where
  "dmScopeText s = (case s of DmMain \<Rightarrow> ''main'' | DmPerPeer \<Rightarrow> ''per-peer'' | DmPerChannelPeer \<Rightarrow> ''per-channel-peer''
     | DmPerAccountChannelPeer \<Rightarrow> ''per-account-channel-peer'')"

text \<open>The normalised query.\<close>

record route_scope_input =
  rsi_channel :: string
  rsi_accountId :: string
  rsi_peer :: "route_peer option"
  rsi_parentPeer :: "route_peer option"
  rsi_guildId :: string
  rsi_teamId :: string
  rsi_memberRoleIds :: "string list"

definition buildResolvedRouteCacheKey :: "route_scope_input \<Rightarrow> dm_scope \<Rightarrow> string" where
  "buildResolvedRouteCacheKey i dmScope =
     js_join tab [rsi_channel i, rsi_accountId i, formatRouteCachePeer (rsi_peer i), formatRouteCachePeer (rsi_parentPeer i),
       orElse (rsi_guildId i) ''-'', orElse (rsi_teamId i) ''-'', formatRoleIdsCacheKey (rsi_memberRoleIds i),
       dmScopeText dmScope]"

definition storeRoute :: "route_config \<Rightarrow> string \<Rightarrow> resolved_route \<Rightarrow> route_caches \<Rightarrow> route_caches" where
  "storeRoute cfg key route S =
     (case jm_get (rcs_routes S) (cf_id cfg) of
        None \<Rightarrow> S
      | Some e \<Rightarrow>
          (let byKey = jm_set key route (rch_byKey e);
               byKey = (if length byKey > MAX_RESOLVED_ROUTE_CACHE_KEYS then [(key, route)] else byKey)
           in S\<lparr>rcs_routes := jm_set (cf_id cfg) (e\<lparr>rch_byKey := byKey\<rparr>) (rcs_routes S)\<rparr>))"

section \<open>Tiers\<close>

definition matchesBindingScope :: "route_scope_input \<Rightarrow> route_peer option \<Rightarrow> normalized_match \<Rightarrow> bool" where
  "matchesBindingScope i peer m =
     (if (case nm_peer m of
            PeerInvalid \<Rightarrow> False
          | PeerValid kind pid \<Rightarrow>
              (case peer of None \<Rightarrow> False | Some p \<Rightarrow> peerKindMatches kind (rp_kind p) \<and> rp_id p = pid)
          | PeerWildcard kind \<Rightarrow> (case peer of None \<Rightarrow> False | Some p \<Rightarrow> peerKindMatches kind (rp_kind p))
          | PeerNone \<Rightarrow> True)
      then routeBindingScopeMatches
             \<lparr>rct_guildId = nm_guildId m, rct_teamId = nm_teamId m, rct_roles = nm_roles m\<rparr>
             \<lparr>rsc_guildId = JStr (rsi_guildId i), rsc_teamId = JStr (rsi_teamId i), rsc_groupSpace = JUndef,
              rsc_memberRoleIds = Some (rsi_memberRoleIds i)\<rparr>
      else False)"

record route_tier =
  rt_matchedBy :: matched_by
  rt_enabled :: bool
  rt_scopePeer :: "route_peer option"
  rt_candidates :: "evaluated_binding list"
  rt_predicate :: "normalized_match \<Rightarrow> bool"

definition hasGuildConstraint :: "normalized_match \<Rightarrow> bool" where
  "hasGuildConstraint m \<longleftrightarrow> orEmpty (nm_guildId m) \<noteq> []"

definition hasTeamConstraint :: "normalized_match \<Rightarrow> bool" where
  "hasTeamConstraint m \<longleftrightarrow> orEmpty (nm_teamId m) \<noteq> []"

definition hasRolesConstraint :: "normalized_match \<Rightarrow> bool" where
  "hasRolesConstraint m \<longleftrightarrow> nm_roles m \<noteq> None"

definition isValidPeer :: "normalized_match \<Rightarrow> bool" where
  "isValidPeer m = (case nm_peer m of PeerValid _ _ \<Rightarrow> True | _ \<Rightarrow> False)"

definition isWildcardPeer :: "normalized_match \<Rightarrow> bool" where
  "isWildcardPeer m = (case nm_peer m of PeerWildcard _ \<Rightarrow> True | _ \<Rightarrow> False)"

definition routeTiers :: "route_scope_input \<Rightarrow> bindings_index \<Rightarrow> route_tier list" where
  "routeTiers i idx =
     (let peer = rsi_peer i; guildId = rsi_guildId i; teamId = rsi_teamId i;
          parent = (case rsi_parentPeer i of None \<Rightarrow> None | Some p \<Rightarrow> if rp_id p = [] then None else Some p)
      in [\<lparr>rt_matchedBy = ByPeer, rt_enabled = (peer \<noteq> None), rt_scopePeer = peer,
           rt_candidates = collectPeerIndexedBindings idx peer, rt_predicate = isValidPeer\<rparr>,
          \<lparr>rt_matchedBy = ByPeerParent, rt_enabled = (parent \<noteq> None), rt_scopePeer = parent,
           rt_candidates = collectPeerIndexedBindings idx (rsi_parentPeer i), rt_predicate = isValidPeer\<rparr>,
          \<lparr>rt_matchedBy = ByPeerWildcard, rt_enabled = (peer \<noteq> None), rt_scopePeer = peer,
           rt_candidates = bi_byPeerWildcard idx, rt_predicate = isWildcardPeer\<rparr>,
          \<lparr>rt_matchedBy = ByGuildRoles, rt_enabled = (guildId \<noteq> [] \<and> rsi_memberRoleIds i \<noteq> []), rt_scopePeer = peer,
           rt_candidates = (if guildId = [] then [] else orNil (jm_get (bi_byGuildWithRoles idx) guildId)),
           rt_predicate = (\<lambda>m. hasGuildConstraint m \<and> hasRolesConstraint m)\<rparr>,
          \<lparr>rt_matchedBy = ByGuild, rt_enabled = (guildId \<noteq> []), rt_scopePeer = peer,
           rt_candidates = (if guildId = [] then [] else orNil (jm_get (bi_byGuild idx) guildId)),
           rt_predicate = (\<lambda>m. hasGuildConstraint m \<and> \<not> hasRolesConstraint m)\<rparr>,
          \<lparr>rt_matchedBy = ByTeam, rt_enabled = (teamId \<noteq> []), rt_scopePeer = peer,
           rt_candidates = (if teamId = [] then [] else orNil (jm_get (bi_byTeam idx) teamId)),
           rt_predicate = hasTeamConstraint\<rparr>,
          \<lparr>rt_matchedBy = ByAccount, rt_enabled = True, rt_scopePeer = peer,
           rt_candidates = bi_byAccount idx, rt_predicate = (\<lambda>m. nm_accountPattern m \<noteq> ''*'')\<rparr>,
          \<lparr>rt_matchedBy = ByChannel, rt_enabled = True, rt_scopePeer = peer,
           rt_candidates = bi_byChannel idx, rt_predicate = (\<lambda>m. nm_accountPattern m = ''*'')\<rparr>])"

fun firstMatch :: "route_scope_input \<Rightarrow> route_tier list \<Rightarrow> (agent_binding \<times> matched_by) option" where
  "firstMatch i [] = None"
| "firstMatch i (t # ts) =
     (if \<not> rt_enabled t then firstMatch i ts
      else (case find (\<lambda>e. rt_predicate t (eb_match e) \<and> matchesBindingScope i (rt_scopePeer t) (eb_match e))
                   (rt_candidates t) of
              Some e \<Rightarrow> Some (eb_binding e, rt_matchedBy t)
            | None \<Rightarrow> firstMatch i ts))"

section \<open>Resolving a route\<close>

definition normalizeRoutePeer :: "(chat_type \<times> jsval) option \<Rightarrow> route_peer option" where
  "normalizeRoutePeer peer =
     map_option (\<lambda>(kind, i). \<lparr>rp_kind = (case normalizeChatType (Some (chatTypeText kind)) of None \<Rightarrow> kind | Some k \<Rightarrow> k),
                             rp_id = normalizeRouteBindingId i\<rparr>) peer"

definition normalizeRouteQuery :: "route_query \<Rightarrow> route_scope_input" where
  "normalizeRouteQuery q =
     \<lparr>rsi_channel = normalizeLowercaseStringOrEmpty (Some (rq_channel q)), rsi_accountId = accountOf (rq_accountId q),
      rsi_peer = normalizeRoutePeer (rq_peer q), rsi_parentPeer = normalizeRoutePeer (rq_parentPeer q),
      rsi_guildId = normalizeRouteBindingId (rq_guildId q), rsi_teamId = normalizeRouteBindingId (rq_teamId q),
      rsi_memberRoleIds = orNil (rq_memberRoleIds q)\<rparr>"

definition configDmScope :: "route_config \<Rightarrow> dm_scope" where
  "configDmScope cfg = (case cf_dmScope cfg of None \<Rightarrow> DmMain | Some s \<Rightarrow> s)"

text \<open>What \<open>choose\<close> builds once the agent is known.\<close>

definition routeFor :: "route_config \<Rightarrow> route_scope_input \<Rightarrow> string \<Rightarrow> matched_by \<Rightarrow> dm_scope option \<Rightarrow> resolved_route" where
  "routeFor cfg i agentId matchedBy sessionDmScope =
     (let scope = (case sessionDmScope of None \<Rightarrow> configDmScope cfg | Some s \<Rightarrow> s);
          sessionKey = normalizeLowercaseStringOrEmpty (Some (buildAgentSessionKey agentId (rsi_channel i)
            (Some (rsi_accountId i)) (rsi_peer i) (Some scope) (cf_identityLinks cfg)));
          mainSessionKey = normalizeLowercaseStringOrEmpty
            (Some (buildAgentMainSessionKey (Some agentId) (Some DEFAULT_MAIN_KEY)))
      in \<lparr>rr_agentId = agentId, rr_channel = rsi_channel i, rr_accountId = rsi_accountId i, rr_sessionKey = sessionKey,
          rr_mainSessionKey = mainSessionKey, rr_lastRoutePolicy = deriveLastRoutePolicy sessionKey mainSessionKey,
          rr_matchedBy = matchedBy\<rparr>)"

text \<open>Resolution after a miss: bindings, index, tiers, agent.\<close>

definition computeRoute :: "route_config \<Rightarrow> route_scope_input \<Rightarrow> route_caches \<Rightarrow> resolved_route \<times> route_caches" where
  "computeRoute cfg i S =
     (let (bindings, S) = getEvaluatedBindingsForChannelAccount cfg (rsi_channel i) (rsi_accountId i) S;
          (idx, S) = getEvaluatedBindingIndexForChannelAccount cfg (rsi_channel i) (rsi_accountId i) S;
          (agentId, matchedBy, session) =
            (case firstMatch i (routeTiers i idx) of
               Some (b, by) \<Rightarrow> (ab_agentId b, by, ab_dmScope b)
             | None \<Rightarrow> (Some (resolveDefaultAgentId cfg), ByDefault, None));
          (agent, S) = pickFirstExistingAgentId cfg agentId S
      in (routeFor cfg i agent matchedBy session, S))"

definition resolveAgentRoute ::
  "bool \<Rightarrow> route_config \<Rightarrow> route_query \<Rightarrow> route_caches \<Rightarrow> resolved_route \<times> route_caches" where
  "resolveAgentRoute verbose cfg q S =
     (let i = normalizeRouteQuery q;
          cached = (\<not> verbose \<and> cf_identityLinks cfg = None);
          (byKey, S) = (if cached then resolveRouteCacheForConfig cfg S else ([], S));
          key = buildResolvedRouteCacheKey i (configDmScope cfg)
      in case jm_get byKey key of
           Some route \<Rightarrow> (route, S)
         | None \<Rightarrow>
             (let (route, S) = computeRoute cfg i S
              in (route, if cached then storeRoute cfg key route S else S)))"

end
