(* ===== verification/AgentRouteSpec.thy ===== *)
theory AgentRouteSpec
  imports AgentRoute
begin

text \<open>
  What \<open>resolveAgentRoute\<close> (\<open>AgentRoute\<close>) promises: a reference that searches the bindings of the configuration
  in their order, tier by tier, without buckets, index or caches; that the code agrees with it; and under which
  conditions its caches never show.
\<close>

section \<open>Bindings in source order\<close>

fun evaluateAll :: "agent_binding list \<Rightarrow> nat \<Rightarrow> evaluated_binding list" where
  "evaluateAll [] n = []"
| "evaluateAll (b # bs) n =
     (if bindingChannel b = [] then evaluateAll bs n
      else \<lparr>eb_binding = b, eb_match = normalizeBindingMatch (ab_match b), eb_order = n\<rparr> # evaluateAll bs (Suc n))"

abbreviation channelOf :: "evaluated_binding \<Rightarrow> string" where
  "channelOf e \<equiv> bindingChannel (eb_binding e)"

definition anyAccount :: "evaluated_binding \<Rightarrow> bool" where
  "anyAccount e \<longleftrightarrow> nm_accountPattern (eb_match e) = ''*''"

definition accountKey :: "evaluated_binding \<Rightarrow> string" where
  "accountKey e = resolveAccountPatternKey (nm_accountPattern (eb_match e))"

text \<open>The bindings of a channel that apply to an account.\<close>

definition eligible :: "route_config \<Rightarrow> string \<Rightarrow> string \<Rightarrow> evaluated_binding list" where
  "eligible cfg channel account =
     filter (\<lambda>e. channelOf e = channel \<and> (anyAccount e \<or> accountKey e = account)) (evaluateAll (listRouteBindings cfg) 0)"

definition bucketOf :: "(string, channel_bucket) jsmap \<Rightarrow> string \<Rightarrow> channel_bucket" where
  "bucketOf m c = (case jm_get m c of None \<Rightarrow> \<lparr>cb_byAccount = [], cb_byAnyAccount = []\<rparr> | Some b \<Rightarrow> b)"

lemma orNil_simps [simp]: "orNil None = []" "orNil (Some xs) = xs"
  by (simp_all add: orNil_def)

lemma addToBucket_any: "cb_byAnyAccount (addToBucket e b) = cb_byAnyAccount b @ (if anyAccount e then [e] else [])"
  by (simp add: addToBucket_def anyAccount_def Let_def)

lemma addToBucket_account:
  "orNil (jm_get (cb_byAccount (addToBucket e b)) a) =
     orNil (jm_get (cb_byAccount b) a) @ (if \<not> anyAccount e \<and> accountKey e = a then [e] else [])"
  by (simp add: addToBucket_def anyAccount_def accountKey_def jm_get_set Let_def)

lemma bucketStep_some:
  assumes "bindingChannel b \<noteq> []" "e = \<lparr>eb_binding = b, eb_match = normalizeBindingMatch (ab_match b), eb_order = n\<rparr>"
  shows "snd (bucketStep (m, n) b) = Suc n"
    "bucketOf (fst (bucketStep (m, n) b)) c = (if bindingChannel b = c then addToBucket e (bucketOf m c) else bucketOf m c)"
  using assms by (auto simp: bucketStep_def bucketOf_def jm_get_set Let_def)

lemma bucket_fold:
  "cb_byAnyAccount (bucketOf (fst (foldl bucketStep (m, n) bs)) c) =
     cb_byAnyAccount (bucketOf m c) @ filter (\<lambda>e. channelOf e = c \<and> anyAccount e) (evaluateAll bs n) \<and>
   orNil (jm_get (cb_byAccount (bucketOf (fst (foldl bucketStep (m, n) bs)) c)) a) =
     orNil (jm_get (cb_byAccount (bucketOf m c)) a) @
     filter (\<lambda>e. channelOf e = c \<and> \<not> anyAccount e \<and> accountKey e = a) (evaluateAll bs n)"
proof (induction bs arbitrary: m n)
  case (Cons b bs)
  show ?case
  proof (cases "bindingChannel b = []")
    case True
    then have "bucketStep (m, n) b = (m, n)" by (simp add: bucketStep_def)
    with Cons.IH [of m n] True show ?thesis by simp
  next
    case False
    define e where e: "e = \<lparr>eb_binding = b, eb_match = normalizeBindingMatch (ab_match b), eb_order = n\<rparr>"
    obtain m' where step: "bucketStep (m, n) b = (m', Suc n)"
      and m': "bucketOf m' c = (if bindingChannel b = c then addToBucket e (bucketOf m c) else bucketOf m c)"
      using bucketStep_some [OF False e] by (metis fst_conv prod.collapse)
    have "evaluateAll (b # bs) n = e # evaluateAll bs (Suc n)" "channelOf e = bindingChannel b"
      using False by (simp_all add: e)
    with Cons.IH [of m' "Suc n"] step m' show ?thesis
      by (simp add: addToBucket_any addToBucket_account)
  qed
qed simp

lemma evaluateAll_order: "e \<in> set (evaluateAll bs n) \<Longrightarrow> n \<le> eb_order e"
  by (induction bs arbitrary: n) (auto split: if_splits dest: Suc_leD)

lemma evaluateAll_sorted: "sorted_wrt (\<lambda>x y. eb_order x < eb_order y) (evaluateAll bs n)"
  by (induction bs arbitrary: n) (auto simp: Suc_le_eq dest: evaluateAll_order)

lemma merge_filters:
  assumes "sorted_wrt (\<lambda>x y. eb_order x < eb_order y) es" "\<And>e. \<not> (P e \<and> Q e)"
  shows "mergeEvaluatedBindingsInSourceOrder (filter P es) (filter Q es) = filter (\<lambda>e. Q e \<or> P e) es"
  using assms(1)
proof (induction es)
  case (Cons e es)
  then have IH: "mergeEvaluatedBindingsInSourceOrder (filter P es) (filter Q es) = filter (\<lambda>e. Q e \<or> P e) es"
    and less: "\<And>x. x \<in> set es \<Longrightarrow> eb_order e < eb_order x" by auto
  have head: "x \<in> set es" if "filter R es = x # xs" for R x xs
    using that by (metis filter_is_subset list.set_intros(1) subsetD)
  consider "P e" "\<not> Q e" | "Q e" "\<not> P e" | "\<not> P e" "\<not> Q e" using assms(2) by blast
  then show ?case
  proof cases
    case 1
    show ?thesis
    proof (cases "filter Q es")
      case Nil
      then have "filter P es = filter (\<lambda>e. Q e \<or> P e) es" using IH by (cases "filter P es") auto
      with 1 Nil show ?thesis by simp
    next
      case (Cons y ys)
      with less [OF head [OF Cons]] IH 1 show ?thesis by simp
    qed
  next
    case 2
    show ?thesis
    proof (cases "filter P es")
      case Nil
      then show ?thesis using IH 2 by simp
    next
      case (Cons x xs)
      with less [OF head [OF Cons]] IH 2 show ?thesis by simp
    qed
  next
    case 3
    with IH show ?thesis by simp
  qed
qed simp

lemma merged_eligible: "mergedBindings (buildEvaluatedBindingsByChannel cfg) channel account = eligible cfg channel account"
proof -
  let ?m = "buildEvaluatedBindingsByChannel cfg" and ?es = "evaluateAll (listRouteBindings cfg) 0"
  have "mergedBindings ?m channel account =
      mergeEvaluatedBindingsInSourceOrder (orNil (jm_get (cb_byAccount (bucketOf ?m channel)) account))
        (cb_byAnyAccount (bucketOf ?m channel))"
    by (simp add: mergedBindings_def bucketOf_def split: option.split)
  also have "\<dots> = mergeEvaluatedBindingsInSourceOrder
      (filter (\<lambda>e. channelOf e = channel \<and> \<not> anyAccount e \<and> accountKey e = account) ?es)
      (filter (\<lambda>e. channelOf e = channel \<and> anyAccount e) ?es)"
    using bucket_fold [of "[]" 0 "listRouteBindings cfg" channel account]
    by (simp add: buildEvaluatedBindingsByChannel_def bucketOf_def)
  also have "\<dots> = eligible cfg channel account"
    unfolding eligible_def by (subst merge_filters) (auto intro: evaluateAll_sorted filter_cong)
  finally show ?thesis .
qed

section \<open>The index\<close>

text \<open>The part of the index a binding goes to.\<close>

definition tierClass :: "normalized_match \<Rightarrow> matched_by" where
  "tierClass m =
     (if isValidPeer m then ByPeer
      else if isWildcardPeer m then ByPeerWildcard
      else if hasGuildConstraint m then (if hasRolesConstraint m then ByGuildRoles else ByGuild)
      else if hasTeamConstraint m then ByTeam
      else if nm_accountPattern m \<noteq> ''*'' then ByAccount else ByChannel)"

definition peerKeys :: "normalized_match \<Rightarrow> string list" where
  "peerKeys m = (case nm_peer m of PeerValid kind i \<Rightarrow> peerLookupKeys kind i | _ \<Rightarrow> [])"

lemma push_get:
  "orNil (jm_get (pushToIndexMap key e m) k) = orNil (jm_get m k) @ (if key = Some k \<and> k \<noteq> [] then [e] else [])"
  by (auto simp: pushToIndexMap_def jm_get_set split: option.split list.split)

lemma peerLookupKeys_simps [simp]: "distinct (peerLookupKeys kind i)" "[] \<notin> set (peerLookupKeys kind i)"
  by (cases kind; simp add: peerLookupKeys_def)+

lemma push_all_get:
  "distinct keys \<Longrightarrow> [] \<notin> set keys \<Longrightarrow>
   orNil (jm_get (foldl (\<lambda>m key. pushToIndexMap (Some key) e m) m keys) k) =
     orNil (jm_get m k) @ (if k \<in> set keys then [e] else [])"
  by (induction keys arbitrary: m) (auto simp: push_get)

lemma indexStep_views:
  "orNil (jm_get (bi_byPeer (indexStep idx e)) k) =
     orNil (jm_get (bi_byPeer idx) k) @ (if k \<in> set (peerKeys (eb_match e)) then [e] else [])"
  "bi_byPeerWildcard (indexStep idx e) = bi_byPeerWildcard idx @ (if tierClass (eb_match e) = ByPeerWildcard then [e] else [])"
  "k \<noteq> [] \<Longrightarrow> orNil (jm_get (bi_byGuildWithRoles (indexStep idx e)) k) =
     orNil (jm_get (bi_byGuildWithRoles idx) k) @
     (if tierClass (eb_match e) = ByGuildRoles \<and> nm_guildId (eb_match e) = Some k then [e] else [])"
  "k \<noteq> [] \<Longrightarrow> orNil (jm_get (bi_byGuild (indexStep idx e)) k) =
     orNil (jm_get (bi_byGuild idx) k) @
     (if tierClass (eb_match e) = ByGuild \<and> nm_guildId (eb_match e) = Some k then [e] else [])"
  "k \<noteq> [] \<Longrightarrow> orNil (jm_get (bi_byTeam (indexStep idx e)) k) =
     orNil (jm_get (bi_byTeam idx) k) @
     (if tierClass (eb_match e) = ByTeam \<and> nm_teamId (eb_match e) = Some k then [e] else [])"
  "bi_byAccount (indexStep idx e) = bi_byAccount idx @ (if tierClass (eb_match e) = ByAccount then [e] else [])"
  "bi_byChannel (indexStep idx e) = bi_byChannel idx @ (if tierClass (eb_match e) = ByChannel then [e] else [])"
  by (cases "nm_peer (eb_match e)"; auto simp: indexStep_def tierClass_def peerKeys_def isValidPeer_def isWildcardPeer_def
      hasGuildConstraint_def hasTeamConstraint_def hasRolesConstraint_def push_get push_all_get Let_def)+

lemma index_fold:
  "orNil (jm_get (bi_byPeer (foldl indexStep idx es)) k) =
     orNil (jm_get (bi_byPeer idx) k) @ filter (\<lambda>e. k \<in> set (peerKeys (eb_match e))) es"
  "bi_byPeerWildcard (foldl indexStep idx es) =
     bi_byPeerWildcard idx @ filter (\<lambda>e. tierClass (eb_match e) = ByPeerWildcard) es"
  "k \<noteq> [] \<Longrightarrow> orNil (jm_get (bi_byGuildWithRoles (foldl indexStep idx es)) k) =
     orNil (jm_get (bi_byGuildWithRoles idx) k) @
     filter (\<lambda>e. tierClass (eb_match e) = ByGuildRoles \<and> nm_guildId (eb_match e) = Some k) es"
  "k \<noteq> [] \<Longrightarrow> orNil (jm_get (bi_byGuild (foldl indexStep idx es)) k) =
     orNil (jm_get (bi_byGuild idx) k) @
     filter (\<lambda>e. tierClass (eb_match e) = ByGuild \<and> nm_guildId (eb_match e) = Some k) es"
  "k \<noteq> [] \<Longrightarrow> orNil (jm_get (bi_byTeam (foldl indexStep idx es)) k) =
     orNil (jm_get (bi_byTeam idx) k) @
     filter (\<lambda>e. tierClass (eb_match e) = ByTeam \<and> nm_teamId (eb_match e) = Some k) es"
  "bi_byAccount (foldl indexStep idx es) = bi_byAccount idx @ filter (\<lambda>e. tierClass (eb_match e) = ByAccount) es"
  "bi_byChannel (foldl indexStep idx es) = bi_byChannel idx @ filter (\<lambda>e. tierClass (eb_match e) = ByChannel) es"
  by (induction es arbitrary: idx) (simp_all add: indexStep_views)

lemma index_views:
  "orNil (jm_get (bi_byPeer (buildEvaluatedBindingsIndex es)) k) = filter (\<lambda>e. k \<in> set (peerKeys (eb_match e))) es"
  "bi_byPeerWildcard (buildEvaluatedBindingsIndex es) = filter (\<lambda>e. tierClass (eb_match e) = ByPeerWildcard) es"
  "k \<noteq> [] \<Longrightarrow> orNil (jm_get (bi_byGuildWithRoles (buildEvaluatedBindingsIndex es)) k) =
     filter (\<lambda>e. tierClass (eb_match e) = ByGuildRoles \<and> nm_guildId (eb_match e) = Some k) es"
  "k \<noteq> [] \<Longrightarrow> orNil (jm_get (bi_byGuild (buildEvaluatedBindingsIndex es)) k) =
     filter (\<lambda>e. tierClass (eb_match e) = ByGuild \<and> nm_guildId (eb_match e) = Some k) es"
  "k \<noteq> [] \<Longrightarrow> orNil (jm_get (bi_byTeam (buildEvaluatedBindingsIndex es)) k) =
     filter (\<lambda>e. tierClass (eb_match e) = ByTeam \<and> nm_teamId (eb_match e) = Some k) es"
  "bi_byAccount (buildEvaluatedBindingsIndex es) = filter (\<lambda>e. tierClass (eb_match e) = ByAccount) es"
  "bi_byChannel (buildEvaluatedBindingsIndex es) = filter (\<lambda>e. tierClass (eb_match e) = ByChannel) es"
  by (simp_all add: buildEvaluatedBindingsIndex_def index_fold emptyIndex_def)

text \<open>The lookup of a peer under its two keys finds each of its bindings once, in source order.\<close>

lemma dedupe_distinct: "distinct (out @ xs) \<Longrightarrow> foldl (\<lambda>out e. if e \<in> set out then out else out @ [e]) out xs = out @ xs"
  by (induction xs arbitrary: out) auto

lemma dedupe_known: "set xs \<subseteq> set out \<Longrightarrow> foldl (\<lambda>out e. if e \<in> set out then out else out @ [e]) out xs = out"
  by (induction xs) auto

lemma dedupe_twice:
  "distinct xs \<Longrightarrow> set ys \<subseteq> set xs \<Longrightarrow> foldl (\<lambda>out e. if e \<in> set out then out else out @ [e]) [] (xs @ ys) = xs"
  using dedupe_distinct [of "[]" xs] dedupe_known [of ys xs] by simp

lemma peerKeys_iff:
  "k \<in> set (peerLookupKeys kind i) \<Longrightarrow>
     k \<in> set (peerKeys m) \<longleftrightarrow> (\<exists>kind'. nm_peer m = PeerValid kind' i \<and> peerKindMatches kind' kind)"
  by (cases kind; cases "nm_peer m")
    (auto simp: peerKeys_def peerLookupKeys_def peerKindMatches_def split: chat_type.splits)

lemma collect_view:
  assumes "distinct es"
  shows "collectPeerIndexedBindings (buildEvaluatedBindingsIndex es) (Some p) =
     filter (\<lambda>e. \<exists>kind. nm_peer (eb_match e) = PeerValid kind (rp_id p) \<and> peerKindMatches kind (rp_kind p)) es"
    (is "_ = filter ?P es")
proof -
  let ?keys = "peerLookupKeys (rp_kind p) (rp_id p)"
  have "orNil (jm_get (bi_byPeer (buildEvaluatedBindingsIndex es)) k) = filter ?P es" if "k \<in> set ?keys" for k
    using that by (simp add: index_views peerKeys_iff)
  then have lists: "map (\<lambda>k. orNil (jm_get (bi_byPeer (buildEvaluatedBindingsIndex es)) k)) ?keys = map (\<lambda>k. filter ?P es) ?keys"
    by (simp cong: map_cong)
  show ?thesis
    using dedupe_twice [of "filter ?P es" "filter ?P es"] dedupe_distinct [of "[]" "filter ?P es"] assms lists
    by (cases "rp_kind p") (simp_all add: collectPeerIndexedBindings_def peerLookupKeys_def)
qed

section \<open>The reference\<close>

definition scopeAccepts :: "route_scope_input \<Rightarrow> normalized_match \<Rightarrow> bool" where
  "scopeAccepts i m \<longleftrightarrow>
     (nm_guildId m = None \<or> nm_guildId m = Some (rsi_guildId i)) \<and>
     (nm_teamId m = None \<or> nm_teamId m = Some (rsi_teamId i)) \<and>
     (case nm_roles m of None \<Rightarrow> True | Some roles \<Rightarrow> list_ex (\<lambda>r. r \<in> set (rsi_memberRoleIds i)) roles)"

definition namesPeer :: "normalized_match \<Rightarrow> route_peer option \<Rightarrow> bool" where
  "namesPeer m peer =
     (case (nm_peer m, peer) of
        (PeerValid kind i, Some p) \<Rightarrow> i = rp_id p \<and> peerKindMatches kind (rp_kind p) | _ \<Rightarrow> False)"

definition namesKind :: "normalized_match \<Rightarrow> route_peer option \<Rightarrow> bool" where
  "namesKind m peer =
     (case (nm_peer m, peer) of (PeerWildcard kind, Some p) \<Rightarrow> peerKindMatches kind (rp_kind p) | _ \<Rightarrow> False)"

definition tierAccepts :: "route_scope_input \<Rightarrow> matched_by \<Rightarrow> normalized_match \<Rightarrow> bool" where
  "tierAccepts i tier m \<longleftrightarrow>
     scopeAccepts i m \<and>
     (case tier of
        ByPeer \<Rightarrow> namesPeer m (rsi_peer i)
      | ByPeerParent \<Rightarrow> namesPeer m (rsi_parentPeer i)
      | ByPeerWildcard \<Rightarrow> namesKind m (rsi_peer i)
      | ByGuildRoles \<Rightarrow> nm_peer m = PeerNone \<and> nm_guildId m \<noteq> None \<and> nm_roles m \<noteq> None
      | ByGuild \<Rightarrow> nm_peer m = PeerNone \<and> nm_guildId m \<noteq> None \<and> nm_roles m = None
      | ByTeam \<Rightarrow> nm_peer m = PeerNone \<and> nm_guildId m = None \<and> nm_teamId m \<noteq> None
      | ByAccount \<Rightarrow> nm_peer m = PeerNone \<and> nm_guildId m = None \<and> nm_teamId m = None \<and> nm_accountPattern m \<noteq> ''*''
      | ByChannel \<Rightarrow> nm_peer m = PeerNone \<and> nm_guildId m = None \<and> nm_teamId m = None \<and> nm_accountPattern m = ''*''
      | ByDefault \<Rightarrow> False)"

definition tierOrder :: "matched_by list" where
  "tierOrder = [ByPeer, ByPeerParent, ByPeerWildcard, ByGuildRoles, ByGuild, ByTeam, ByAccount, ByChannel]"

fun referenceMatch ::
  "route_scope_input \<Rightarrow> evaluated_binding list \<Rightarrow> matched_by list \<Rightarrow> (agent_binding \<times> matched_by) option" where
  "referenceMatch i es [] = None"
| "referenceMatch i es (t # ts) =
     (case find (\<lambda>e. tierAccepts i t (eb_match e)) es of
        Some e \<Rightarrow> Some (eb_binding e, t) | None \<Rightarrow> referenceMatch i es ts)"

definition configuredAgents :: "route_config \<Rightarrow> string list" where
  "configuredAgents cfg =
     map (\<lambda>e. normalizeAgentId (ae_id e)) (filter (\<lambda>e. js_trim (orEmpty (ae_id e)) \<noteq> []) (orNil (cf_agents cfg)))"

definition referenceAgent :: "route_config \<Rightarrow> string option \<Rightarrow> string" where
  "referenceAgent cfg agentId =
     (let fallback = normalizeAgentId (Some (resolveDefaultAgentId cfg))
      in if js_trim (orEmpty agentId) = [] then fallback
         else if configuredAgents cfg = [] \<or> normalizeAgentId agentId \<in> set (configuredAgents cfg)
         then normalizeAgentId agentId else fallback)"

definition referenceRoute :: "route_config \<Rightarrow> route_scope_input \<Rightarrow> resolved_route" where
  "referenceRoute cfg i =
     (let (agentId, matchedBy, session) =
        (case referenceMatch i (eligible cfg (rsi_channel i) (rsi_accountId i)) tierOrder of
           Some (b, by) \<Rightarrow> (ab_agentId b, by, ab_dmScope b)
         | None \<Rightarrow> (Some (resolveDefaultAgentId cfg), ByDefault, None))
      in routeFor cfg i (referenceAgent cfg agentId) matchedBy session)"

section \<open>The tiers agree\<close>

text \<open>What normalisation guarantees.\<close>

definition match_ok :: "normalized_match \<Rightarrow> bool" where
  "match_ok m \<longleftrightarrow> nm_guildId m \<noteq> Some [] \<and> nm_teamId m \<noteq> Some [] \<and> nm_roles m \<noteq> Some [] \<and>
     (\<forall>kind i. nm_peer m = PeerValid kind i \<longrightarrow> i \<noteq> [])"

definition input_ok :: "route_scope_input \<Rightarrow> bool" where
  "input_ok i \<longleftrightarrow> js_trim (rsi_guildId i) = rsi_guildId i \<and> js_trim (rsi_teamId i) = rsi_teamId i"

lemma match_ok_normalized: "match_ok (normalizeBindingMatch m)"
  by (auto simp: match_ok_def normalizeBindingMatch_def textOrNull_def normalizeRouteBindingRoles_def
      normalizePeerConstraint_def Let_def split: option.splits list.splits if_splits)

lemma evaluateAll_ok: "e \<in> set (evaluateAll bs n) \<Longrightarrow> match_ok (eb_match e)"
  by (induction bs arbitrary: n) (auto simp: match_ok_normalized split: if_splits)

lemma routeId_trimmed [simp]: "js_trim (normalizeRouteBindingId v) = normalizeRouteBindingId v"
  by (cases v) (simp_all add: normalizeRouteBindingId_def)

lemma input_ok_normalized: "input_ok (normalizeRouteQuery q)"
  by (simp add: input_ok_def normalizeRouteQuery_def)

lemma roles_normalized: "nm_roles m \<noteq> Some [] \<Longrightarrow> normalizeRouteBindingRoles (nm_roles m) = nm_roles m"
  by (cases "nm_roles m") (auto simp: normalizeRouteBindingRoles_def split: list.split)

lemma matchesBindingScope_iff:
  assumes "match_ok m" "input_ok i"
  shows "matchesBindingScope i peer m \<longleftrightarrow>
     (case nm_peer m of PeerNone \<Rightarrow> True | PeerInvalid \<Rightarrow> False
      | PeerWildcard _ \<Rightarrow> namesKind m peer | PeerValid _ _ \<Rightarrow> namesPeer m peer) \<and> scopeAccepts i m"
proof -
  have "scopeIdMatches c x [] \<longleftrightarrow> c = None \<or> c = Some x" if "c \<noteq> Some []" for c x
    using that by (cases c) (auto simp: scopeIdMatches_def orEmpty_def)
  then have "routeBindingScopeMatches
      \<lparr>rct_guildId = nm_guildId m, rct_teamId = nm_teamId m, rct_roles = nm_roles m\<rparr>
      \<lparr>rsc_guildId = JStr (rsi_guildId i), rsc_teamId = JStr (rsi_teamId i), rsc_groupSpace = JUndef,
       rsc_memberRoleIds = Some (rsi_memberRoleIds i)\<rparr> \<longleftrightarrow> scopeAccepts i m"
    using assms roles_normalized [of m]
    by (auto simp: routeBindingScopeMatches_def scopeAccepts_def match_ok_def input_ok_def normalizeRouteBindingId_def
        hasAnyRouteBindingRole_def split: option.splits)
  then show ?thesis
    by (auto simp: matchesBindingScope_def namesKind_def namesPeer_def split: peer_constraint.splits option.splits)
qed

lemma find_filter: "find P (filter C xs) = find (\<lambda>x. C x \<and> P x) xs"
  by (induction xs) auto

definition tierFind :: "route_scope_input \<Rightarrow> route_tier \<Rightarrow> evaluated_binding option" where
  "tierFind i t = (if rt_enabled t
     then find (\<lambda>e. rt_predicate t (eb_match e) \<and> matchesBindingScope i (rt_scopePeer t) (eb_match e)) (rt_candidates t)
     else None)"

lemma firstMatch_Cons:
  "firstMatch i (t # ts) = (case tierFind i t of Some e \<Rightarrow> Some (eb_binding e, rt_matchedBy t) | None \<Rightarrow> firstMatch i ts)"
  by (simp add: tierFind_def)

lemma tierFind_filter:
  assumes "rt_enabled t \<Longrightarrow> rt_candidates t = filter C es"
    and "\<And>e. e \<in> set es \<Longrightarrow> rt_enabled t \<and> C e \<and> rt_predicate t (eb_match e) \<and>
      matchesBindingScope i (rt_scopePeer t) (eb_match e) \<longleftrightarrow> tierAccepts i by (eb_match e)"
  shows "tierFind i t = find (\<lambda>e. tierAccepts i by (eb_match e)) es"
proof (cases "rt_enabled t")
  case True
  with assms show ?thesis by (auto simp: tierFind_def find_filter intro: find_cong)
next
  case False
  with assms(2) have "find (\<lambda>e. tierAccepts i by (eb_match e)) es = None" unfolding find_None_iff by blast
  with False show ?thesis by (simp add: tierFind_def)
qed

lemmas tier_defs = tierAccepts_def tierClass_def isValidPeer_def isWildcardPeer_def hasGuildConstraint_def
  hasTeamConstraint_def hasRolesConstraint_def

lemma namesPeer_Some:
  "namesPeer m (Some p) \<longleftrightarrow> (\<exists>kind. nm_peer m = PeerValid kind (rp_id p) \<and> peerKindMatches kind (rp_kind p))"
  by (auto simp: namesPeer_def split: peer_constraint.split)

lemma peer_tier:
  assumes "\<And>e. e \<in> set es \<Longrightarrow> match_ok (eb_match e)" "distinct es" "input_ok i"
    and "tierAccepts i by = (\<lambda>m. scopeAccepts i m \<and> namesPeer m peer)" "scope = peer"
    and "cands = collectPeerIndexedBindings (buildEvaluatedBindingsIndex es) peer"
  shows "tierFind i \<lparr>rt_matchedBy = by, rt_enabled = (peer \<noteq> None), rt_scopePeer = scope, rt_candidates = cands,
      rt_predicate = isValidPeer\<rparr> = find (\<lambda>e. tierAccepts i by (eb_match e)) es"
proof (rule tierFind_filter [where C = "\<lambda>e. namesPeer (eb_match e) peer"], goal_cases)
  case 1
  then obtain p where p: "peer = Some p" by auto
  then show ?case using collect_view [OF assms(2), of p] assms(6) by (simp add: namesPeer_Some)
next
  case (2 e)
  with assms(1) [OF 2] assms(3,4,5) show ?case
    by (cases "nm_peer (eb_match e)"; cases peer)
      (auto simp: matchesBindingScope_iff isValidPeer_def namesPeer_def)
qed

lemma firstMatch_reference:
  assumes ok: "\<And>e. e \<in> set es \<Longrightarrow> match_ok (eb_match e)" and dist: "distinct es" and inp: "input_ok i"
  shows "firstMatch i (routeTiers i (buildEvaluatedBindingsIndex es)) = referenceMatch i es tierOrder"
proof -
  let ?idx = "buildEvaluatedBindingsIndex es" and ?peer = "rsi_peer i"
  let ?parent = "case rsi_parentPeer i of None \<Rightarrow> None | Some p \<Rightarrow> if rp_id p = [] then None else Some p"
  let ?guild = "rsi_guildId i" and ?team = "rsi_teamId i"
  have scope: "matchesBindingScope i peer (eb_match e) \<longleftrightarrow>
     (case nm_peer (eb_match e) of PeerNone \<Rightarrow> True | PeerInvalid \<Rightarrow> False
      | PeerWildcard _ \<Rightarrow> namesKind (eb_match e) peer | PeerValid _ _ \<Rightarrow> namesPeer (eb_match e) peer) \<and>
     scopeAccepts i (eb_match e)" if "e \<in> set es" for e peer
    using matchesBindingScope_iff [OF ok [OF that] inp] .
  have noid: "nm_guildId (eb_match e) \<noteq> Some []" "nm_teamId (eb_match e) \<noteq> Some []" "nm_roles (eb_match e) \<noteq> Some []"
    if "e \<in> set es" for e using ok [OF that] by (simp_all add: match_ok_def)
  have 1: "tierFind i \<lparr>rt_matchedBy = ByPeer, rt_enabled = (?peer \<noteq> None), rt_scopePeer = ?peer,
      rt_candidates = collectPeerIndexedBindings ?idx ?peer, rt_predicate = isValidPeer\<rparr>
    = find (\<lambda>e. tierAccepts i ByPeer (eb_match e)) es"
    by (rule peer_tier [OF ok dist inp _ refl refl]) (simp_all add: tierAccepts_def fun_eq_iff)
  have 2: "tierFind i \<lparr>rt_matchedBy = ByPeerParent, rt_enabled = (?parent \<noteq> None), rt_scopePeer = ?parent,
      rt_candidates = collectPeerIndexedBindings ?idx (rsi_parentPeer i), rt_predicate = isValidPeer\<rparr>
    = find (\<lambda>e. tierAccepts i ByPeerParent (eb_match e)) es"
  proof (cases "?parent = rsi_parentPeer i")
    case True
    show ?thesis unfolding True
      by (rule peer_tier [OF ok dist inp _ refl refl]) (simp_all add: tierAccepts_def fun_eq_iff)
  next
    case False
    then obtain p where p: "rsi_parentPeer i = Some p" "rp_id p = []" by (auto split: option.splits if_splits)
    have "\<not> tierAccepts i ByPeerParent (eb_match e)" if "e \<in> set es" for e
      using ok [OF that] by (auto simp: tierAccepts_def p namesPeer_Some match_ok_def)
    then have "find (\<lambda>e. tierAccepts i ByPeerParent (eb_match e)) es = None" unfolding find_None_iff by blast
    with p show ?thesis by (simp add: tierFind_def)
  qed
  have 3: "tierFind i \<lparr>rt_matchedBy = ByPeerWildcard, rt_enabled = (?peer \<noteq> None), rt_scopePeer = ?peer,
      rt_candidates = bi_byPeerWildcard ?idx, rt_predicate = isWildcardPeer\<rparr>
    = find (\<lambda>e. tierAccepts i ByPeerWildcard (eb_match e)) es"
  proof (rule tierFind_filter [where C = "\<lambda>e. tierClass (eb_match e) = ByPeerWildcard"], goal_cases)
    case (2 e)
    with scope [OF 2] show ?case
      by (cases "nm_peer (eb_match e)") (auto simp: tier_defs namesKind_def split: option.splits)
  qed (simp add: index_views)
  have 4: "tierFind i \<lparr>rt_matchedBy = ByGuildRoles, rt_enabled = (?guild \<noteq> [] \<and> rsi_memberRoleIds i \<noteq> []),
      rt_scopePeer = ?peer, rt_candidates = (if ?guild = [] then [] else orNil (jm_get (bi_byGuildWithRoles ?idx) ?guild)),
      rt_predicate = (\<lambda>m. hasGuildConstraint m \<and> hasRolesConstraint m)\<rparr>
    = find (\<lambda>e. tierAccepts i ByGuildRoles (eb_match e)) es"
  proof (rule tierFind_filter [where C = "\<lambda>e. tierClass (eb_match e) = ByGuildRoles \<and> nm_guildId (eb_match e) = Some ?guild"],
      goal_cases)
    case (2 e)
    with scope [OF 2] noid [OF 2] show ?case
      by (cases "nm_peer (eb_match e)") (auto simp: tier_defs scopeAccepts_def orEmpty_def list_ex_iff)
  qed (simp add: index_views)
  have 5: "tierFind i \<lparr>rt_matchedBy = ByGuild, rt_enabled = (?guild \<noteq> []), rt_scopePeer = ?peer,
      rt_candidates = (if ?guild = [] then [] else orNil (jm_get (bi_byGuild ?idx) ?guild)),
      rt_predicate = (\<lambda>m. hasGuildConstraint m \<and> \<not> hasRolesConstraint m)\<rparr>
    = find (\<lambda>e. tierAccepts i ByGuild (eb_match e)) es"
  proof (rule tierFind_filter [where C = "\<lambda>e. tierClass (eb_match e) = ByGuild \<and> nm_guildId (eb_match e) = Some ?guild"],
      goal_cases)
    case (2 e)
    with scope [OF 2] noid [OF 2] show ?case
      by (cases "nm_peer (eb_match e)") (auto simp: tier_defs scopeAccepts_def orEmpty_def)
  qed (simp add: index_views)
  have 6: "tierFind i \<lparr>rt_matchedBy = ByTeam, rt_enabled = (?team \<noteq> []), rt_scopePeer = ?peer,
      rt_candidates = (if ?team = [] then [] else orNil (jm_get (bi_byTeam ?idx) ?team)),
      rt_predicate = hasTeamConstraint\<rparr>
    = find (\<lambda>e. tierAccepts i ByTeam (eb_match e)) es"
  proof (rule tierFind_filter [where C = "\<lambda>e. tierClass (eb_match e) = ByTeam \<and> nm_teamId (eb_match e) = Some ?team"],
      goal_cases)
    case (2 e)
    with scope [OF 2] noid [OF 2] show ?case
      by (cases "nm_peer (eb_match e)") (auto simp: tier_defs scopeAccepts_def orEmpty_def split: option.splits)
  qed (simp add: index_views)
  have 7: "tierFind i \<lparr>rt_matchedBy = ByAccount, rt_enabled = True, rt_scopePeer = ?peer,
      rt_candidates = bi_byAccount ?idx, rt_predicate = (\<lambda>m. nm_accountPattern m \<noteq> ''*'')\<rparr>
    = find (\<lambda>e. tierAccepts i ByAccount (eb_match e)) es"
  proof (rule tierFind_filter [where C = "\<lambda>e. tierClass (eb_match e) = ByAccount"], goal_cases)
    case (2 e)
    with scope [OF 2] noid [OF 2] show ?case
      by (cases "nm_peer (eb_match e)") (auto simp: tier_defs scopeAccepts_def orEmpty_def split: option.splits)
  qed (simp add: index_views)
  have 8: "tierFind i \<lparr>rt_matchedBy = ByChannel, rt_enabled = True, rt_scopePeer = ?peer,
      rt_candidates = bi_byChannel ?idx, rt_predicate = (\<lambda>m. nm_accountPattern m = ''*'')\<rparr>
    = find (\<lambda>e. tierAccepts i ByChannel (eb_match e)) es"
  proof (rule tierFind_filter [where C = "\<lambda>e. tierClass (eb_match e) = ByChannel"], goal_cases)
    case (2 e)
    with scope [OF 2] noid [OF 2] show ?case
      by (cases "nm_peer (eb_match e)") (auto simp: tier_defs scopeAccepts_def orEmpty_def split: option.splits)
  qed (simp add: index_views)
  show ?thesis
    unfolding routeTiers_def tierOrder_def Let_def firstMatch_Cons referenceMatch.simps 1 2 3 4 5 6 7 8
    by (simp split: option.split)
qed

lemma eligible_ok: "e \<in> set (eligible cfg channel account) \<Longrightarrow> match_ok (eb_match e)"
  by (auto simp: eligible_def dest: evaluateAll_ok)

lemma eligible_distinct: "distinct (eligible cfg channel account)"
proof -
  have "distinct (evaluateAll bs n)" for bs n
    using evaluateAll_sorted [of bs n] by (induction bs n rule: evaluateAll.induct) (auto split: if_splits)
  then show ?thesis by (simp add: eligible_def)
qed

lemma eligible_match:
  "input_ok i \<Longrightarrow> firstMatch i (routeTiers i (buildEvaluatedBindingsIndex (eligible cfg channel account))) =
     referenceMatch i (eligible cfg channel account) tierOrder"
  by (rule firstMatch_reference) (auto intro: eligible_ok eligible_distinct)

section \<open>Agents\<close>

lemma agentIds_fold:
  "jm_get (foldl (\<lambda>m e. let rawId = js_trim (orEmpty (ae_id e))
       in if rawId = [] then m else jm_set (normalizeAgentId (Some rawId)) (normalizeAgentId (Some rawId)) m) m es) k =
   (if k \<in> set (map (\<lambda>e. normalizeAgentId (ae_id e)) (filter (\<lambda>e. js_trim (orEmpty (ae_id e)) \<noteq> []) es))
    then Some k else jm_get m k)"
proof (induction es arbitrary: m)
  case (Cons e es)
  have "normalizeAgentId (Some (js_trim (orEmpty (ae_id e)))) = normalizeAgentId (ae_id e)"
    by (simp add: normalizeAgentId_def orEmpty_def Let_def)
  with Cons show ?case by (simp add: Let_def jm_get_set)
qed simp

lemma lookup_get:
  "jm_get (al_byNormalizedId (buildAgentLookup cfg)) k = (if k \<in> set (configuredAgents cfg) then Some k else None)"
  by (simp add: buildAgentLookup_def agentIds_fold configuredAgents_def)

lemma lookup_empty: "al_byNormalizedId (buildAgentLookup cfg) = [] \<longleftrightarrow> configuredAgents cfg = []"
proof -
  have "m = [] \<longleftrightarrow> (\<forall>k. jm_get m k = None)" for m :: "(string \<times> string) list"
    by (cases m) auto
  then have "al_byNormalizedId (buildAgentLookup cfg) = [] \<longleftrightarrow> set (configuredAgents cfg) = {}"
    by (auto simp: lookup_get)
  then show ?thesis by simp
qed

section \<open>Caches that do not show\<close>

text \<open>Configuration objects change only by replacing their parts: the same reference means the same part.\<close>

definition sameParts :: "route_config \<Rightarrow> route_config \<Rightarrow> bool" where
  "sameParts a b \<longleftrightarrow> cf_id a = cf_id b \<longrightarrow>
     (cf_bindingsRef a = cf_bindingsRef b \<longrightarrow> cf_bindings a = cf_bindings b) \<and>
     (cf_agentsRef a = cf_agentsRef b \<longrightarrow> cf_agents a = cf_agents b) \<and>
     (cf_sessionRef a = cf_sessionRef b \<longrightarrow> cf_dmScope a = cf_dmScope b \<and> cf_identityLinks a = cf_identityLinks b)"

definition consistentConfigs :: "route_config set \<Rightarrow> bool" where
  "consistentConfigs C \<longleftrightarrow> (\<forall>a \<in> C. \<forall>b \<in> C. sameParts a b)"

definition noTab :: "string \<Rightarrow> bool" where
  "noTab s \<longleftrightarrow> CHR 0x09 \<notin> set s"

lemma tab_key_inj:
  assumes "noTab a" "noTab a'" "c @ tab @ a = c' @ tab @ a'"
  shows "c = c' \<and> a = a'"
proof -
  have "rev a @ CHR 0x09 # rev c = rev a' @ CHR 0x09 # rev c'"
    using arg_cong [OF assms(3), of rev] by (simp add: tab_def)
  then have "rev a = rev a' \<and> rev c = rev c'"
    using assms(1,2) by (intro split_at_sep [where c = "CHR 0x09"]) (simp_all add: noTab_def)
  then show ?thesis by simp
qed

text \<open>A map from channel and account that remembers the values of a function.\<close>

definition memoOk :: "(string \<Rightarrow> string \<Rightarrow> 'v) \<Rightarrow> (string, 'v) jsmap \<Rightarrow> bool" where
  "memoOk f m \<longleftrightarrow> (\<forall>ch ac v. noTab ac \<longrightarrow> jm_get m (ch @ tab @ ac) = Some v \<longrightarrow> v = f ch ac)"

lemma memoOk_get: "memoOk f m \<Longrightarrow> noTab ac \<Longrightarrow> jm_get m (ch @ tab @ ac) = Some v \<Longrightarrow> v = f ch ac"
  by (simp add: memoOk_def)

lemma memoOk_set:
  assumes "memoOk f m" "noTab ac"
  shows "memoOk f (jm_set (ch @ tab @ ac) (f ch ac) m)"
  unfolding memoOk_def
proof (intro allI impI)
  fix ch' ac' v
  assume v: "noTab ac'" "jm_get (jm_set (ch @ tab @ ac) (f ch ac) m) (ch' @ tab @ ac') = Some v"
  show "v = f ch' ac'"
  proof (cases "ch' @ tab @ ac' = ch @ tab @ ac")
    case True
    with tab_key_inj [OF v(1) assms(2)] have "ch' = ch \<and> ac' = ac" by blast
    with v show ?thesis by (simp add: jm_get_set)
  next
    case False
    with v have "jm_get m (ch' @ tab @ ac') = Some v" by (simp only: jm_get_set if_False)
    with memoOk_get [OF assms(1) v(1)] show ?thesis .
  qed
qed

lemma memoOk_Nil [simp]: "memoOk f []"
  by (simp add: memoOk_def)

lemma memoOk_single: "noTab ac \<Longrightarrow> memoOk f [(ch @ tab @ ac, f ch ac)]"
  using memoOk_set [OF memoOk_Nil, of ac f ch] by simp

definition evalOk :: "route_config \<Rightarrow> evaluated_cache \<Rightarrow> bool" where
  "evalOk cfg e \<longleftrightarrow> ec_byChannel e = buildEvaluatedBindingsByChannel cfg \<and>
     memoOk (eligible cfg) (ec_byChannelAccount e) \<and>
     memoOk (\<lambda>ch ac. buildEvaluatedBindingsIndex (eligible cfg ch ac)) (ec_byChannelAccountIndex e)"

definition bindingsOk :: "route_config set \<Rightarrow> (nat, evaluated_cache) jsmap \<Rightarrow> bool" where
  "bindingsOk C m \<longleftrightarrow> (\<forall>k e. jm_get m k = Some e \<longrightarrow> length (ec_byChannelAccount e) \<le> MAX_EVALUATED_BINDINGS_CACHE_KEYS \<and>
     (\<forall>cfg \<in> C. cf_id cfg = k \<and> ec_bindingsRef e = cf_bindingsRef cfg \<longrightarrow> evalOk cfg e))"

definition agentsOk :: "route_config set \<Rightarrow> (nat, agent_lookup) jsmap \<Rightarrow> bool" where
  "agentsOk C m \<longleftrightarrow> (\<forall>cfg \<in> C. \<forall>l. jm_get m (cf_id cfg) = Some l \<and> al_agentsRef l = cf_agentsRef cfg \<longrightarrow>
     l = buildAgentLookup cfg)"

lemma evalOk_same:
  assumes "cf_bindings a = cf_bindings b"
  shows "evalOk a e \<longleftrightarrow> evalOk b e"
proof -
  have "listRouteBindings a = listRouteBindings b" using assms by (simp add: listRouteBindings_def)
  then have "eligible a = eligible b" "buildEvaluatedBindingsByChannel a = buildEvaluatedBindingsByChannel b"
    by (simp_all add: eligible_def fun_eq_iff buildEvaluatedBindingsByChannel_def)
  then show ?thesis by (simp add: evalOk_def)
qed

lemma default_same: "listAgentEntries a = listAgentEntries b \<Longrightarrow> resolveDefaultAgentId a = resolveDefaultAgentId b"
proof -
  assume e: "listAgentEntries a = listAgentEntries b"
  show ?thesis unfolding resolveDefaultAgentId_def e ..
qed

lemma lookup_same:
  assumes "cf_agents a = cf_agents b" "cf_agentsRef a = cf_agentsRef b"
  shows "buildAgentLookup a = buildAgentLookup b"
  using assms default_same [of a b] by (simp add: buildAgentLookup_def listAgentEntries_def)

lemma pick_ok:
  assumes "consistentConfigs C" "cfg \<in> C" "agentsOk C (rcs_agents S)"
  shows "fst (pickFirstExistingAgentId cfg agentId S) = referenceAgent cfg agentId"
    "agentsOk C (rcs_agents (snd (pickFirstExistingAgentId cfg agentId S)))"
    "rcs_bindings (snd (pickFirstExistingAgentId cfg agentId S)) = rcs_bindings S"
    "rcs_routes (snd (pickFirstExistingAgentId cfg agentId S)) = rcs_routes S"
proof -
  have fresh: "agentsOk C (jm_set (cf_id cfg) (buildAgentLookup cfg) (rcs_agents S))"
    unfolding agentsOk_def
  proof (intro ballI allI impI)
    fix a l
    assume a: "a \<in> C" "jm_get (jm_set (cf_id cfg) (buildAgentLookup cfg) (rcs_agents S)) (cf_id a) = Some l \<and>
      al_agentsRef l = cf_agentsRef a"
    show "l = buildAgentLookup a"
    proof (cases "cf_id a = cf_id cfg")
      case True
      with a have l: "l = buildAgentLookup cfg" "cf_agentsRef cfg = cf_agentsRef a"
        by (auto simp: jm_get_set buildAgentLookup_def)
      have "sameParts a cfg" using assms(1,2) a(1) by (auto simp: consistentConfigs_def)
      with True l show ?thesis using lookup_same [of a cfg] by (simp add: sameParts_def)
    next
      case False
      with a have "jm_get (rcs_agents S) (cf_id a) = Some l" "al_agentsRef l = cf_agentsRef a" by (simp_all add: jm_get_set)
      with assms(3) a(1) show ?thesis unfolding agentsOk_def by blast
    qed
  qed
  have look: "fst (resolveAgentLookupCache cfg S) = buildAgentLookup cfg \<and>
      agentsOk C (rcs_agents (snd (resolveAgentLookupCache cfg S))) \<and>
      rcs_bindings (snd (resolveAgentLookupCache cfg S)) = rcs_bindings S \<and>
      rcs_routes (snd (resolveAgentLookupCache cfg S)) = rcs_routes S"
  proof (cases "jm_get (rcs_agents S) (cf_id cfg)")
    case None
    with fresh show ?thesis by (simp add: resolveAgentLookupCache_def Let_def)
  next
    case (Some l)
    have "l = buildAgentLookup cfg" if "al_agentsRef l = cf_agentsRef cfg"
      using assms(2,3) Some that unfolding agentsOk_def by blast
    with Some fresh assms(3) show ?thesis by (simp add: resolveAgentLookupCache_def Let_def)
  qed
  then obtain S' where look: "resolveAgentLookupCache cfg S = (buildAgentLookup cfg, S')"
    and S': "agentsOk C (rcs_agents S')" "rcs_bindings S' = rcs_bindings S" "rcs_routes S' = rcs_routes S"
    by (cases "resolveAgentLookupCache cfg S") simp
  have norm: "normalizeAgentId (Some (js_trim (orEmpty agentId))) = normalizeAgentId agentId"
    by (simp add: normalizeAgentId_def orEmpty_def Let_def)
  obtain c cs where ne: "normalizeAgentId agentId = c # cs" by (meson agentId_nonempty neq_Nil_conv)
  have fallback: "al_fallbackDefaultAgentId (buildAgentLookup cfg) = normalizeAgentId (Some (resolveDefaultAgentId cfg))"
    by (simp add: buildAgentLookup_def)
  have "pickFirstExistingAgentId cfg agentId S = (referenceAgent cfg agentId, S')"
    using look norm ne fallback
    by (auto simp: pickFirstExistingAgentId_def referenceAgent_def lookup_empty lookup_get Let_def)
  with S' show "fst (pickFirstExistingAgentId cfg agentId S) = referenceAgent cfg agentId"
    "agentsOk C (rcs_agents (snd (pickFirstExistingAgentId cfg agentId S)))"
    "rcs_bindings (snd (pickFirstExistingAgentId cfg agentId S)) = rcs_bindings S"
    "rcs_routes (snd (pickFirstExistingAgentId cfg agentId S)) = rcs_routes S" by simp_all
qed

lemma evalOk_index:
  "evalOk cfg e \<Longrightarrow> noTab ac \<Longrightarrow> evalOk cfg (e\<lparr>ec_byChannelAccountIndex :=
      jm_set (ch @ tab @ ac) (buildEvaluatedBindingsIndex (eligible cfg ch ac)) (ec_byChannelAccountIndex e)\<rparr>)"
  using memoOk_set [where f = "\<lambda>ch ac. buildEvaluatedBindingsIndex (eligible cfg ch ac)"] by (simp add: evalOk_def)

lemma remember_ok:
  assumes "evalOk cfg e" "noTab ac"
  shows "evalOk cfg (rememberBindings (ch @ tab @ ac) (eligible cfg ch ac) e)"
    "ec_bindingsRef (rememberBindings (ch @ tab @ ac) (eligible cfg ch ac) e) = ec_bindingsRef e"
    "length (ec_byChannelAccount (rememberBindings (ch @ tab @ ac) (eligible cfg ch ac) e)) \<le>
       MAX_EVALUATED_BINDINGS_CACHE_KEYS"
proof -
  let ?f = "\<lambda>ch ac. buildEvaluatedBindingsIndex (eligible cfg ch ac)"
  note assms(1) [unfolded evalOk_def]
  then show "evalOk cfg (rememberBindings (ch @ tab @ ac) (eligible cfg ch ac) e)"
    using memoOk_set [where f = "eligible cfg", OF _ assms(2)] memoOk_set [where f = ?f, OF _ assms(2)]
      memoOk_single [where f = "eligible cfg", OF assms(2)] memoOk_single [where f = ?f, OF assms(2)]
    by (simp add: evalOk_def rememberBindings_def Let_def)
qed (simp_all add: rememberBindings_def MAX_EVALUATED_BINDINGS_CACHE_KEYS_def Let_def)

lemma putBindings_ok:
  assumes "consistentConfigs C" "cfg \<in> C" "bindingsOk C (rcs_bindings S)" "evalOk cfg e"
    and "ec_bindingsRef e = cf_bindingsRef cfg" "length (ec_byChannelAccount e) \<le> MAX_EVALUATED_BINDINGS_CACHE_KEYS"
  shows "bindingsOk C (rcs_bindings (putBindingsCache cfg e S))"
  unfolding bindingsOk_def
proof (intro allI impI conjI ballI)
  fix k x
  assume k: "jm_get (rcs_bindings (putBindingsCache cfg e S)) k = Some x"
  show "length (ec_byChannelAccount x) \<le> MAX_EVALUATED_BINDINGS_CACHE_KEYS"
    using k assms(3,6) unfolding bindingsOk_def by (auto simp: putBindingsCache_def jm_get_set split: if_splits)
  fix a
  assume a: "a \<in> C" "cf_id a = k \<and> ec_bindingsRef x = cf_bindingsRef a"
  show "evalOk a x"
  proof (cases "k = cf_id cfg")
    case True
    with k have "x = e" by (simp add: putBindingsCache_def jm_get_set)
    moreover have "sameParts a cfg" using assms(1,2) a(1) by (auto simp: consistentConfigs_def)
    ultimately show ?thesis using True a assms(4,5) evalOk_same [of a cfg e] by (simp add: sameParts_def)
  next
    case False
    with k have "jm_get (rcs_bindings S) k = Some x" by (simp add: putBindingsCache_def jm_get_set)
    with assms(3) a show ?thesis unfolding bindingsOk_def by blast
  qed
qed

lemma putBindings_view [simp]:
  "rcs_agents (putBindingsCache cfg e S) = rcs_agents S" "rcs_routes (putBindingsCache cfg e S) = rcs_routes S"
  "jm_get (rcs_bindings (putBindingsCache cfg e S)) (cf_id cfg) = Some e"
  by (simp_all add: putBindingsCache_def jm_get_set)

lemma currentCache_ok:
  assumes "cfg \<in> C" "bindingsOk C (rcs_bindings S)"
  shows "evalOk cfg (currentBindingsCache cfg S)" "ec_bindingsRef (currentBindingsCache cfg S) = cf_bindingsRef cfg"
    "length (ec_byChannelAccount (currentBindingsCache cfg S)) \<le> MAX_EVALUATED_BINDINGS_CACHE_KEYS"
proof -
  have entry: "evalOk cfg e \<and> length (ec_byChannelAccount e) \<le> MAX_EVALUATED_BINDINGS_CACHE_KEYS"
    if "jm_get (rcs_bindings S) (cf_id cfg) = Some e" "ec_bindingsRef e = cf_bindingsRef cfg" for e
    using assms that unfolding bindingsOk_def by blast
  then show "evalOk cfg (currentBindingsCache cfg S)" "ec_bindingsRef (currentBindingsCache cfg S) = cf_bindingsRef cfg"
    "length (ec_byChannelAccount (currentBindingsCache cfg S)) \<le> MAX_EVALUATED_BINDINGS_CACHE_KEYS"
    by (auto simp: currentBindingsCache_def evalOk_def Let_def split: option.split)
qed

definition entryOk :: "route_config \<Rightarrow> evaluated_cache \<Rightarrow> bool" where
  "entryOk cfg e \<longleftrightarrow> evalOk cfg e \<and> ec_bindingsRef e = cf_bindingsRef cfg \<and>
     length (ec_byChannelAccount e) \<le> MAX_EVALUATED_BINDINGS_CACHE_KEYS"

lemma getBindings_ok:
  assumes "consistentConfigs C" "cfg \<in> C" "bindingsOk C (rcs_bindings S)" "noTab account"
  obtains S' e where "getEvaluatedBindingsForChannelAccount cfg channel account S = (eligible cfg channel account, S')"
    "bindingsOk C (rcs_bindings S')" "rcs_agents S' = rcs_agents S" "rcs_routes S' = rcs_routes S"
    "jm_get (rcs_bindings S') (cf_id cfg) = Some e" "entryOk cfg e"
proof -
  let ?e = "currentBindingsCache cfg S" and ?key = "channel @ tab @ account" and ?l = "eligible cfg channel account"
  note live = currentCache_ok [OF assms(2,3)]
  have put: "bindingsOk C (rcs_bindings (putBindingsCache cfg ?e S))"
    by (rule putBindings_ok [OF assms(1-3) live])
  show thesis
  proof (cases "jm_get (ec_byChannelAccount ?e) ?key")
    case (Some hit)
    with live(1) assms(4) have "hit = ?l" unfolding evalOk_def by (blast intro: memoOk_get)
    with Some have "getEvaluatedBindingsForChannelAccount cfg channel account S = (?l, putBindingsCache cfg ?e S)"
      by (simp add: getEvaluatedBindingsForChannelAccount_def Let_def)
    then show thesis by (rule that) (use put live in \<open>simp_all add: entryOk_def\<close>)
  next
    case None
    let ?e' = "rememberBindings ?key ?l ?e"
    note rem = remember_ok [OF live(1) assms(4), of channel]
    have "mergedBindings (ec_byChannel ?e) channel account = ?l"
      using live(1) by (simp add: evalOk_def merged_eligible)
    with None have "getEvaluatedBindingsForChannelAccount cfg channel account S =
        (?l, putBindingsCache cfg ?e' (putBindingsCache cfg ?e S))"
      by (simp add: getEvaluatedBindingsForChannelAccount_def Let_def)
    moreover have "bindingsOk C (rcs_bindings (putBindingsCache cfg ?e' (putBindingsCache cfg ?e S)))"
      by (rule putBindings_ok [OF assms(1,2) put rem(1) _ rem(3)]) (simp add: rem(2) live(2))
    ultimately show thesis by (rule that) (use rem live(2) in \<open>simp_all add: entryOk_def\<close>)
  qed
qed

lemma getIndex_ok:
  assumes "consistentConfigs C" "cfg \<in> C" "bindingsOk C (rcs_bindings S)" "noTab account"
  obtains S' where "getEvaluatedBindingIndexForChannelAccount cfg channel account S =
      (buildEvaluatedBindingsIndex (eligible cfg channel account), S')"
    "bindingsOk C (rcs_bindings S')" "rcs_agents S' = rcs_agents S" "rcs_routes S' = rcs_routes S"
proof -
  let ?key = "channel @ tab @ account" and ?x = "buildEvaluatedBindingsIndex (eligible cfg channel account)"
  from getBindings_ok [OF assms] obtain T e where
    T: "getEvaluatedBindingsForChannelAccount cfg channel account S = (eligible cfg channel account, T)"
      "bindingsOk C (rcs_bindings T)" "rcs_agents T = rcs_agents S" "rcs_routes T = rcs_routes S"
      "jm_get (rcs_bindings T) (cf_id cfg) = Some e" "entryOk cfg e" by metis
  show thesis
  proof (cases "jm_get (ec_byChannelAccountIndex e) ?key")
    case (Some x)
    with T(6) assms(4) have "x = ?x" unfolding entryOk_def evalOk_def by (metis memoOk_get)
    with Some T show thesis
      by (intro that [of T]) (simp_all add: getEvaluatedBindingIndexForChannelAccount_def Let_def)
  next
    case None
    let ?e = "e\<lparr>ec_byChannelAccountIndex := jm_set ?key ?x (ec_byChannelAccountIndex e)\<rparr>"
    have "bindingsOk C (rcs_bindings (putBindingsCache cfg ?e T))"
      using T(6) evalOk_index assms(4) by (intro putBindings_ok [OF assms(1,2) T(2)]) (auto simp: entryOk_def)
    with None T show thesis
      by (intro that [of "putBindingsCache cfg ?e T"]) (simp_all add: getEvaluatedBindingIndexForChannelAccount_def Let_def)
  qed
qed

lemma account_noTab [simp]: "noTab (accountOf v)"
proof (cases "accountId v")
  case None
  then show ?thesis by (simp add: accountOf_def noTab_def DEFAULT_ACCOUNT_ID_def)
next
  case (Some a)
  have "\<not> idChar (CHR 0x09)" by (simp add: idChar_def idAlnum_def)
  with accountId_Some [OF Some] show ?thesis
    by (auto simp: accountOf_def Some list_all_iff noTab_def)
qed

lemma compute_ok:
  assumes "consistentConfigs C" "cfg \<in> C" "bindingsOk C (rcs_bindings S)" "agentsOk C (rcs_agents S)"
    and "noTab (rsi_accountId i)" "input_ok i"
  obtains S' where "computeRoute cfg i S = (referenceRoute cfg i, S')"
    "bindingsOk C (rcs_bindings S')" "agentsOk C (rcs_agents S')" "rcs_routes S' = rcs_routes S"
proof -
  let ?es = "eligible cfg (rsi_channel i) (rsi_accountId i)"
  from getBindings_ok [OF assms(1-3,5)] obtain T where
    T: "getEvaluatedBindingsForChannelAccount cfg (rsi_channel i) (rsi_accountId i) S = (?es, T)"
      "bindingsOk C (rcs_bindings T)" "rcs_agents T = rcs_agents S" "rcs_routes T = rcs_routes S" by metis
  from getIndex_ok [OF assms(1,2) T(2) assms(5)] obtain U where
    U: "getEvaluatedBindingIndexForChannelAccount cfg (rsi_channel i) (rsi_accountId i) T = (buildEvaluatedBindingsIndex ?es, U)"
      "bindingsOk C (rcs_bindings U)" "rcs_agents U = rcs_agents T" "rcs_routes U = rcs_routes T" by metis
  have agents: "agentsOk C (rcs_agents U)" using assms(4) T(3) U(3) by simp
  obtain aid mb ses where found: "(case referenceMatch i ?es tierOrder of
         Some (b, by) \<Rightarrow> (ab_agentId b, by, ab_dmScope b)
       | None \<Rightarrow> (Some (resolveDefaultAgentId cfg), ByDefault, None)) = (aid, mb, ses)"
    by (rule prod_cases3)
  note pick = pick_ok [OF assms(1,2) agents, of aid]
  let ?V = "snd (pickFirstExistingAgentId cfg aid U)"
  have "computeRoute cfg i S = (referenceRoute cfg i, ?V)"
    unfolding computeRoute_def referenceRoute_def T(1) U(1) Let_def prod.case eligible_match [OF assms(6)] found
    by (simp add: pick(1) case_prod_unfold)
  then show thesis by (rule that) (use pick U T in simp_all)
qed

lemma fresh_route:
  "fst (resolveAgentRoute verbose cfg q noRouteCaches) = referenceRoute cfg (normalizeRouteQuery q)"
proof -
  let ?i = "normalizeRouteQuery q"
  have C: "consistentConfigs {cfg}" "cfg \<in> {cfg}" by (simp_all add: consistentConfigs_def sameParts_def)
  have acc: "noTab (rsi_accountId ?i)" by (simp add: normalizeRouteQuery_def)
  have "fst (computeRoute cfg ?i S) = referenceRoute cfg ?i" if "rcs_bindings S = []" "rcs_agents S = []" for S
  proof -
    have "bindingsOk {cfg} (rcs_bindings S)" "agentsOk {cfg} (rcs_agents S)"
      by (simp_all add: that bindingsOk_def agentsOk_def)
    from compute_ok [OF C this acc input_ok_normalized] show ?thesis by (metis fst_conv)
  qed
  then show ?thesis
    by (simp add: resolveAgentRoute_def resolveRouteCacheForConfig_def noRouteCaches_def case_prod_unfold Let_def)
qed

text \<open>C2. Routing is a search by tiers: whatever the configuration and the query, with empty caches the code finds what
  the reference finds, the first binding in configuration order that the most specific tier accepts (peer, parent
  peer, kind of peer, guild with roles, guild, team, account, channel), or else the default agent; the
  buckets per channel and account, the merge of the two account lists and the index change nothing.\<close>

theorem route_matches_reference:
  "fst (resolveAgentRoute verbose cfg q noRouteCaches) = referenceRoute cfg (normalizeRouteQuery q)"
  by (rule fresh_route)

section \<open>The cache key\<close>

definition parentView :: "route_peer option \<Rightarrow> route_peer option" where
  "parentView p = (case p of None \<Rightarrow> None | Some x \<Rightarrow> if rp_id x = [] then None else Some x)"

text \<open>Queries whose parts the key tells apart.\<close>

definition goodInput :: "route_scope_input \<Rightarrow> bool" where
  "goodInput i \<longleftrightarrow> input_ok i \<and> noTab (rsi_channel i) \<and> noTab (rsi_accountId i) \<and>
     (case rsi_peer i of None \<Rightarrow> True | Some p \<Rightarrow> rp_id p \<noteq> [] \<and> noTab (rp_id p)) \<and>
     (case rsi_parentPeer i of None \<Rightarrow> True | Some p \<Rightarrow> noTab (rp_id p)) \<and>
     noTab (rsi_guildId i) \<and> rsi_guildId i \<noteq> ''-'' \<and> noTab (rsi_teamId i) \<and> rsi_teamId i \<noteq> ''-'' \<and>
     list_all (\<lambda>r. noTab r \<and> CHR '','' \<notin> set r \<and> r \<noteq> ''-'') (rsi_memberRoleIds i)"

lemma splitOn_join: "xs \<noteq> [] \<Longrightarrow> \<forall>x \<in> set xs. c \<notin> set x \<Longrightarrow> splitOn c (js_join [c] xs) = xs"
proof (induction xs)
  case (Cons x xs)
  then show ?case
    by (cases "xs = []") (simp_all add: splitOn_none join_Cons splitOn_append)
qed simp

lemma set_join: "set (js_join sep xs) \<subseteq> set sep \<union> \<Union> (set ` set xs)"
proof (induction xs)
  case (Cons x xs)
  then show ?case by (cases xs) auto
qed simp

lemma formatRoles_join:
  assumes "xs \<noteq> []"
  shows "\<exists>zs. mset zs = mset xs \<and> formatRoleIdsCacheKey xs = js_join '','' zs"
proof -
  consider r where "xs = [r]" | a b where "xs = [a, b]" | a b c ys where "xs = a # b # c # ys"
    using assms by (metis list.exhaust)
  then show ?thesis
  proof cases
    case (1 r)
    then show ?thesis by (intro exI [of _ "[r]"]) (simp add: formatRoleIdsCacheKey_def)
  next
    case (2 a b)
    then show ?thesis
      by (cases "cu_compare a b \<le> 0")
        (auto intro: exI [of _ "[a, b]"] exI [of _ "[b, a]"] simp: formatRoleIdsCacheKey_def)
  next
    case (3 a b c ys)
    then show ?thesis
      by (intro exI [of _ "js_toSorted cu_compare xs"]) (simp add: formatRoleIdsCacheKey_def)
  qed
qed

definition rolesOk :: "string list \<Rightarrow> bool" where
  "rolesOk xs \<longleftrightarrow> (\<forall>r \<in> set xs. noTab r \<and> CHR '','' \<notin> set r \<and> r \<noteq> ''-'')"

lemma roles_split:
  assumes "rolesOk xs" "xs \<noteq> []"
  shows "mset (splitOn (CHR '','') (formatRoleIdsCacheKey xs)) = mset xs"
proof -
  obtain zs where zs: "mset zs = mset xs" "formatRoleIdsCacheKey xs = js_join '','' zs"
    using formatRoles_join [OF assms(2)] by blast
  then have "set zs = set xs" "zs \<noteq> []" using assms(2) by (auto dest: mset_eq_setD)
  with zs assms(1) show ?thesis by (simp add: splitOn_join rolesOk_def)
qed

lemma roles_key:
  assumes "rolesOk xs" "rolesOk ys" "formatRoleIdsCacheKey xs = formatRoleIdsCacheKey ys"
  shows "set xs = set ys"
proof -
  have dash: "zs = []" if "rolesOk zs" "formatRoleIdsCacheKey zs = ''-''" for zs
  proof (rule ccontr)
    assume "zs \<noteq> []"
    with roles_split [OF that(1)] that(2) have "mset zs = {#''-''#}" by simp
    then have "zs = [''-'']" by simp
    with that(1) show False by (simp add: rolesOk_def)
  qed
  show ?thesis
  proof (cases "xs = [] \<or> ys = []")
    case True
    then have "xs = [] \<and> ys = []"
      using dash assms by (auto simp: formatRoleIdsCacheKey_def)
    then show ?thesis by simp
  next
    case False
    with roles_split [OF assms(1)] roles_split [OF assms(2)] assms(3) have "mset xs = mset ys" by simp
    then show ?thesis by (rule mset_eq_setD)
  qed
qed

lemma roles_noTab: "rolesOk xs \<Longrightarrow> noTab (formatRoleIdsCacheKey xs)"
proof (cases "xs = []")
  case False
  assume ok: "rolesOk xs"
  obtain zs where zs: "mset zs = mset xs" "formatRoleIdsCacheKey xs = js_join '','' zs"
    using formatRoles_join [OF False] by blast
  from mset_eq_setD [OF zs(1)] ok set_join [of "'',''" zs] show ?thesis
    by (auto simp: zs(2) noTab_def rolesOk_def)
qed (simp add: noTab_def formatRoleIdsCacheKey_def)

lemma peer_key:
  assumes "formatRouteCachePeer a = formatRouteCachePeer b"
  shows "parentView a = parentView b"
proof -
  have dashless: "chatTypeText k @ CHR '':'' # x \<noteq> ''-''" "''-'' \<noteq> chatTypeText k @ CHR '':'' # x" for k x
    by (cases k; simp add: chatTypeText_def)+
  have inj: "k = k' \<and> x = x'" if "chatTypeText k @ '':'' @ x = chatTypeText k' @ '':'' @ x'" for k k' x x'
    using split_at_sep [of "CHR '':''" "chatTypeText k" "chatTypeText k'" x x'] that by simp
  have format: "formatRouteCachePeer p = (case parentView p of None \<Rightarrow> ''-''
      | Some x \<Rightarrow> chatTypeText (rp_kind x) @ '':'' @ rp_id x)" for p
    by (simp add: formatRouteCachePeer_def parentView_def split: option.split)
  show ?thesis
  proof (cases "parentView a")
    case None
    then show ?thesis using assms [unfolded format] dashless by (cases "parentView b") simp_all
  next
    case (Some x)
    then obtain y where y: "parentView b = Some y"
      using assms [unfolded format] dashless by (cases "parentView b") simp_all
    with Some assms [unfolded format] inj [of "rp_kind x" "rp_id x" "rp_kind y" "rp_id y"]
    have "rp_kind x = rp_kind y" "rp_id x = rp_id y" by simp_all
    with Some y show ?thesis by (cases x; cases y) simp
  qed
qed

lemma peer_noTab: "(case p of None \<Rightarrow> True | Some x \<Rightarrow> noTab (rp_id x)) \<Longrightarrow> noTab (formatRouteCachePeer p)"
proof -
  have "noTab (chatTypeText k)" for k by (cases k) (simp_all add: noTab_def chatTypeText_def)
  then show "(case p of None \<Rightarrow> True | Some x \<Rightarrow> noTab (rp_id x)) \<Longrightarrow> noTab (formatRouteCachePeer p)"
    by (auto simp: formatRouteCachePeer_def noTab_def split: option.splits)
qed

text \<open>What a route depends on.\<close>

definition sameScope :: "route_scope_input \<Rightarrow> route_scope_input \<Rightarrow> bool" where
  "sameScope i j \<longleftrightarrow> rsi_channel i = rsi_channel j \<and> rsi_accountId i = rsi_accountId j \<and> rsi_peer i = rsi_peer j \<and>
     parentView (rsi_parentPeer i) = parentView (rsi_parentPeer j) \<and> rsi_guildId i = rsi_guildId j \<and>
     rsi_teamId i = rsi_teamId j \<and> set (rsi_memberRoleIds i) = set (rsi_memberRoleIds j)"

lemma key_scope:
  assumes "goodInput i" "goodInput j" "buildResolvedRouteCacheKey i d = buildResolvedRouteCacheKey j d"
  shows "sameScope i j"
proof -
  let ?parts = "\<lambda>i. [rsi_channel i, rsi_accountId i, formatRouteCachePeer (rsi_peer i), formatRouteCachePeer (rsi_parentPeer i),
       orElse (rsi_guildId i) ''-'', orElse (rsi_teamId i) ''-'', formatRoleIdsCacheKey (rsi_memberRoleIds i), dmScopeText d]"
  have scope: "noTab (dmScopeText d)" by (cases d) (simp_all add: dmScopeText_def noTab_def)
  have roles: "rolesOk (rsi_memberRoleIds k)" if "goodInput k" for k
    using that by (simp add: goodInput_def rolesOk_def list_all_iff)
  have "\<forall>x \<in> set (?parts k). CHR 0x09 \<notin> set x" if "goodInput k" for k
    using that scope peer_noTab [of "rsi_peer k"] peer_noTab [of "rsi_parentPeer k"] roles_noTab [OF roles [OF that]]
    by (auto simp: goodInput_def noTab_def orElse_def split: option.splits)
  with assms join_sep_inj [of "?parts i" "?parts j" "CHR 0x09"] have parts: "?parts i = ?parts j"
    by (simp add: buildResolvedRouteCacheKey_def tab_def)
  have peer: "parentView (rsi_peer k) = rsi_peer k" if "goodInput k" for k
    using that by (auto simp: goodInput_def parentView_def split: option.splits)
  have "rsi_peer i = rsi_peer j" using peer_key [of "rsi_peer i" "rsi_peer j"] parts peer assms(1,2) by simp
  moreover have "rsi_guildId i = rsi_guildId j" "rsi_teamId i = rsi_teamId j"
    using parts assms(1,2) by (auto simp: orElse_def goodInput_def split: if_splits)
  ultimately show ?thesis
    using parts peer_key [of "rsi_parentPeer i" "rsi_parentPeer j"] roles_key [OF roles [OF assms(1)] roles [OF assms(2)]]
    by (simp add: sameScope_def)
qed

lemma tierAccepts_scope:
  assumes "sameScope i j" "match_ok m"
  shows "tierAccepts i t m = tierAccepts j t m"
proof -
  have scope: "scopeAccepts i m = scopeAccepts j m"
    using assms(1) by (cases "nm_roles m") (simp_all add: scopeAccepts_def sameScope_def)
  have view: "namesPeer m p = namesPeer m (parentView p)" for p
    using assms(2) by (cases "nm_peer m"; cases p) (auto simp: parentView_def namesPeer_def match_ok_def)
  have parent: "namesPeer m (rsi_parentPeer i) = namesPeer m (rsi_parentPeer j)"
    using assms(1) view [of "rsi_parentPeer i"] view [of "rsi_parentPeer j"] by (simp add: sameScope_def)
  from assms(1) have "rsi_peer i = rsi_peer j" by (simp add: sameScope_def)
  with scope parent show ?thesis unfolding tierAccepts_def by (cases t) simp_all
qed

lemma referenceMatch_scope:
  assumes "sameScope i j" "\<And>e. e \<in> set es \<Longrightarrow> match_ok (eb_match e)"
  shows "referenceMatch i es ts = referenceMatch j es ts"
proof (induction ts)
  case (Cons t ts)
  have "find (\<lambda>e. tierAccepts i t (eb_match e)) es = find (\<lambda>e. tierAccepts j t (eb_match e)) es"
    by (rule find_cong [OF refl]) (rule tierAccepts_scope [OF assms(1) assms(2)])
  with Cons show ?case by (simp split: option.split)
qed simp

lemma reference_scope:
  assumes "sameScope i j"
  shows "referenceRoute cfg i = referenceRoute cfg j"
proof -
  have f: "rsi_channel i = rsi_channel j" "rsi_accountId i = rsi_accountId j" "rsi_peer i = rsi_peer j"
    using assms by (simp_all add: sameScope_def)
  have "referenceMatch i (eligible cfg c a) tierOrder = referenceMatch j (eligible cfg c a) tierOrder" for c a
    by (rule referenceMatch_scope [OF assms eligible_ok])
  moreover have "routeFor cfg i = routeFor cfg j" by (simp add: fun_eq_iff routeFor_def f Let_def)
  ultimately show ?thesis by (simp add: referenceRoute_def f)
qed

lemma reference_config:
  assumes "cf_bindings a = cf_bindings b" "cf_agents a = cf_agents b" "cf_dmScope a = cf_dmScope b"
    "cf_identityLinks a = cf_identityLinks b"
  shows "referenceRoute a = referenceRoute b"
proof -
  have "listRouteBindings a = listRouteBindings b" using assms(1) by (simp add: listRouteBindings_def)
  then have e: "eligible a = eligible b" by (simp add: eligible_def fun_eq_iff)
  have d: "resolveDefaultAgentId a = resolveDefaultAgentId b"
    by (rule default_same) (simp add: listAgentEntries_def assms(2))
  have "configuredAgents a = configuredAgents b" using assms(2) by (simp add: configuredAgents_def)
  then have g: "referenceAgent a = referenceAgent b" by (simp add: fun_eq_iff referenceAgent_def d Let_def)
  have c: "configDmScope a = configDmScope b" using assms(3) by (simp add: configDmScope_def)
  have r: "routeFor a = routeFor b" by (intro ext) (unfold routeFor_def c assms(4), rule refl)
  show ?thesis by (intro ext) (unfold referenceRoute_def e d g r, rule refl)
qed

section \<open>Histories of queries\<close>

definition refsOf :: "route_cache \<Rightarrow> route_config \<Rightarrow> bool" where
  "refsOf e cfg \<longleftrightarrow> rch_bindingsRef e = cf_bindingsRef cfg \<and> rch_agentsRef e = cf_agentsRef cfg \<and>
     rch_sessionRef e = cf_sessionRef cfg"

definition answersOk :: "route_config \<Rightarrow> (string, resolved_route) jsmap \<Rightarrow> bool" where
  "answersOk cfg m \<longleftrightarrow> (\<forall>i r. goodInput i \<longrightarrow>
     jm_get m (buildResolvedRouteCacheKey i (configDmScope cfg)) = Some r \<longrightarrow> r = referenceRoute cfg i)"

definition routesOk :: "route_config set \<Rightarrow> (nat, route_cache) jsmap \<Rightarrow> bool" where
  "routesOk C m \<longleftrightarrow> (\<forall>k e. jm_get m k = Some e \<longrightarrow> length (rch_byKey e) \<le> MAX_RESOLVED_ROUTE_CACHE_KEYS \<and>
     (\<forall>cfg \<in> C. cf_id cfg = k \<and> refsOf e cfg \<longrightarrow> answersOk cfg (rch_byKey e)))"

definition cachesInv :: "route_config set \<Rightarrow> route_caches \<Rightarrow> bool" where
  "cachesInv C S \<longleftrightarrow> bindingsOk C (rcs_bindings S) \<and> agentsOk C (rcs_agents S) \<and> routesOk C (rcs_routes S)"

lemma answersOk_set:
  assumes "answersOk cfg m" "goodInput i" "d = configDmScope cfg"
  shows "answersOk cfg (jm_set (buildResolvedRouteCacheKey i d) (referenceRoute cfg i) m)"
  unfolding answersOk_def
proof (intro allI impI)
  fix j r
  assume j: "goodInput j" "jm_get (jm_set (buildResolvedRouteCacheKey i d) (referenceRoute cfg i) m)
     (buildResolvedRouteCacheKey j (configDmScope cfg)) = Some r"
  show "r = referenceRoute cfg j"
  proof (cases "buildResolvedRouteCacheKey j d = buildResolvedRouteCacheKey i d")
    case True
    with j assms(3) have "r = referenceRoute cfg i" by (simp add: jm_get_set)
    with reference_scope [OF key_scope [OF j(1) assms(2) True]] show ?thesis by simp
  next
    case False
    with j(2) assms(3) have "jm_get m (buildResolvedRouteCacheKey j (configDmScope cfg)) = Some r"
      by (simp add: jm_get_set)
    with assms(1) j(1) show ?thesis unfolding answersOk_def by blast
  qed
qed

lemma answersOk_Nil [simp]: "answersOk cfg []"
  by (simp add: answersOk_def)

lemma refs_answers:
  assumes "consistentConfigs C" "a \<in> C" "cfg \<in> C" "cf_id a = cf_id cfg" "refsOf e a" "refsOf e cfg"
  shows "answersOk a m = answersOk cfg m"
proof -
  have p: "sameParts a cfg" using assms(1-3) unfolding consistentConfigs_def by blast
  with assms(4-6) have "cf_bindings a = cf_bindings cfg" "cf_agents a = cf_agents cfg" "cf_dmScope a = cf_dmScope cfg"
    "cf_identityLinks a = cf_identityLinks cfg"
    by (auto simp: sameParts_def refsOf_def)
  with reference_config [of a cfg] show ?thesis by (simp add: answersOk_def configDmScope_def)
qed

lemma putRoutes_ok:
  assumes "consistentConfigs C" "cfg \<in> C" "routesOk C m" "refsOf e cfg" "answersOk cfg (rch_byKey e)"
    and "length (rch_byKey e) \<le> MAX_RESOLVED_ROUTE_CACHE_KEYS"
  shows "routesOk C (jm_set (cf_id cfg) e m)"
  unfolding routesOk_def
proof (intro allI impI conjI ballI)
  fix k x
  assume k: "jm_get (jm_set (cf_id cfg) e m) k = Some x"
  show "length (rch_byKey x) \<le> MAX_RESOLVED_ROUTE_CACHE_KEYS"
    using k assms(3,6) unfolding routesOk_def by (auto simp: jm_get_set split: if_splits)
  fix a
  assume a: "a \<in> C" "cf_id a = k \<and> refsOf x a"
  show "answersOk a (rch_byKey x)"
  proof (cases "k = cf_id cfg")
    case True
    with k have "x = e" by (simp add: jm_get_set)
    moreover have "answersOk a (rch_byKey e) = answersOk cfg (rch_byKey e)"
      by (rule refs_answers [OF assms(1) a(1) assms(2)]) (use a True assms(4) \<open>x = e\<close> in auto)
    ultimately show ?thesis using assms(5) by simp
  next
    case False
    with k have "jm_get m k = Some x" by (simp add: jm_get_set)
    with assms(3) a show ?thesis unfolding routesOk_def by blast
  qed
qed

lemma routeCache_ok:
  assumes "consistentConfigs C" "cfg \<in> C" "routesOk C (rcs_routes S)"
  obtains byKey S' e where "resolveRouteCacheForConfig cfg S = (byKey, S')" "answersOk cfg byKey"
    "routesOk C (rcs_routes S')" "rcs_bindings S' = rcs_bindings S" "rcs_agents S' = rcs_agents S"
    "jm_get (rcs_routes S') (cf_id cfg) = Some e" "refsOf e cfg" "rch_byKey e = byKey"
proof -
  let ?fresh = "\<lparr>rch_bindingsRef = cf_bindingsRef cfg, rch_agentsRef = cf_agentsRef cfg,
             rch_sessionRef = cf_sessionRef cfg, rch_byKey = []\<rparr>"
  have fresh: "routesOk C (jm_set (cf_id cfg) ?fresh (rcs_routes S))"
    by (rule putRoutes_ok [OF assms]) (simp_all add: refsOf_def)
  show thesis
  proof (cases "\<exists>e. jm_get (rcs_routes S) (cf_id cfg) = Some e \<and> refsOf e cfg")
    case True
    then obtain e where e: "jm_get (rcs_routes S) (cf_id cfg) = Some e" "refsOf e cfg" by blast
    with assms(2,3) have "answersOk cfg (rch_byKey e)" unfolding routesOk_def by blast
    with e assms(3) show thesis
      by (intro that [of "rch_byKey e" S e]) (simp_all add: resolveRouteCacheForConfig_def refsOf_def)
  next
    case False
    then have "resolveRouteCacheForConfig cfg S = ([], S\<lparr>rcs_routes := jm_set (cf_id cfg) ?fresh (rcs_routes S)\<rparr>)"
      by (auto simp: resolveRouteCacheForConfig_def refsOf_def Let_def split: option.split)
    with fresh show thesis
      by (intro that [of "[]" "S\<lparr>rcs_routes := jm_set (cf_id cfg) ?fresh (rcs_routes S)\<rparr>" ?fresh])
        (simp_all add: jm_get_set refsOf_def)
  qed
qed

lemma storeRoute_ok:
  assumes "consistentConfigs C" "cfg \<in> C" "routesOk C (rcs_routes S)" "goodInput i"
    and "jm_get (rcs_routes S) (cf_id cfg) = Some e" "refsOf e cfg"
  shows "routesOk C (rcs_routes (storeRoute cfg (buildResolvedRouteCacheKey i (configDmScope cfg)) (referenceRoute cfg i) S))"
    "rcs_bindings (storeRoute cfg k r S) = rcs_bindings S" "rcs_agents (storeRoute cfg k r S) = rcs_agents S"
proof -
  let ?key = "buildResolvedRouteCacheKey i (configDmScope cfg)" and ?r = "referenceRoute cfg i"
  have old: "answersOk cfg (rch_byKey e)" using assms(2,3,5,6) unfolding routesOk_def by blast
  let ?byKey = "if length (jm_set ?key ?r (rch_byKey e)) > MAX_RESOLVED_ROUTE_CACHE_KEYS then [(?key, ?r)]
    else jm_set ?key ?r (rch_byKey e)"
  have "answersOk cfg ?byKey"
    using answersOk_set [OF old assms(4) refl] answersOk_set [OF answersOk_Nil assms(4) refl] by simp
  then have "routesOk C (jm_set (cf_id cfg) (e\<lparr>rch_byKey := ?byKey\<rparr>) (rcs_routes S))"
    using assms(6) by (intro putRoutes_ok [OF assms(1-3)])
      (simp_all add: refsOf_def MAX_RESOLVED_ROUTE_CACHE_KEYS_def)
  with assms(5) show "routesOk C (rcs_routes (storeRoute cfg ?key ?r S))" by (simp add: storeRoute_def Let_def)
qed (simp_all add: storeRoute_def Let_def split: option.split)

lemma resolve_ok:
  assumes "consistentConfigs C" "cfg \<in> C" "cachesInv C S" "goodInput (normalizeRouteQuery q)"
  shows "fst (resolveAgentRoute verbose cfg q S) = referenceRoute cfg (normalizeRouteQuery q)"
    "cachesInv C (snd (resolveAgentRoute verbose cfg q S))"
proof -
  let ?i = "normalizeRouteQuery q" and ?key = "buildResolvedRouteCacheKey (normalizeRouteQuery q) (configDmScope cfg)"
  have inp: "noTab (rsi_accountId ?i)" "input_ok ?i" using assms(4) by (simp_all add: goodInput_def)
  have inv: "bindingsOk C (rcs_bindings S)" "agentsOk C (rcs_agents S)" "routesOk C (rcs_routes S)"
    using assms(3) by (simp_all add: cachesInv_def)
  have "fst (resolveAgentRoute verbose cfg q S) = referenceRoute cfg ?i \<and>
    cachesInv C (snd (resolveAgentRoute verbose cfg q S))"
  proof (cases "\<not> verbose \<and> cf_identityLinks cfg = None")
    case False
    from compute_ok [OF assms(1,2) inv(1,2) inp] obtain T where
      T: "computeRoute cfg ?i S = (referenceRoute cfg ?i, T)" "bindingsOk C (rcs_bindings T)"
        "agentsOk C (rcs_agents T)" "rcs_routes T = rcs_routes S" by metis
    have "resolveAgentRoute verbose cfg q S = (referenceRoute cfg ?i, T)"
      unfolding resolveAgentRoute_def Let_def using False T(1) by auto
    with T inv(3) show ?thesis by (simp add: cachesInv_def)
  next
    case True
    from routeCache_ok [OF assms(1,2) inv(3)] obtain byKey R e where
      R: "resolveRouteCacheForConfig cfg S = (byKey, R)" "answersOk cfg byKey" "routesOk C (rcs_routes R)"
        "rcs_bindings R = rcs_bindings S" "rcs_agents R = rcs_agents S"
        "jm_get (rcs_routes R) (cf_id cfg) = Some e" "refsOf e cfg" by metis
    show ?thesis
    proof (cases "jm_get byKey ?key")
      case (Some r)
      with R(2) assms(4) have r: "r = referenceRoute cfg ?i" unfolding answersOk_def by blast
      have "resolveAgentRoute verbose cfg q S = (r, R)"
        unfolding resolveAgentRoute_def Let_def using True R(1) Some by auto
      with r R inv show ?thesis by (simp add: cachesInv_def)
    next
      case None
      have "bindingsOk C (rcs_bindings R)" "agentsOk C (rcs_agents R)" using R inv by simp_all
      from compute_ok [OF assms(1,2) this inp] obtain T where
        T: "computeRoute cfg ?i R = (referenceRoute cfg ?i, T)" "bindingsOk C (rcs_bindings T)"
          "agentsOk C (rcs_agents T)" "rcs_routes T = rcs_routes R" by metis
      have "resolveAgentRoute verbose cfg q S = (referenceRoute cfg ?i, storeRoute cfg ?key (referenceRoute cfg ?i) T)"
        unfolding resolveAgentRoute_def Let_def using True R(1) None T(1) by auto
      moreover have "routesOk C (rcs_routes (storeRoute cfg ?key (referenceRoute cfg ?i) T))"
        using storeRoute_ok(1) [OF assms(1,2) _ assms(4), of T e] R T by simp
      ultimately show ?thesis using T storeRoute_ok(2,3) [OF assms(1,2) _ assms(4), of T e] R
        by (simp add: cachesInv_def)
    qed
  qed
  then show "fst (resolveAgentRoute verbose cfg q S) = referenceRoute cfg ?i"
    "cachesInv C (snd (resolveAgentRoute verbose cfg q S))" by simp_all
qed

lemma noCaches_inv: "cachesInv C noRouteCaches"
  by (simp add: cachesInv_def noRouteCaches_def bindingsOk_def agentsOk_def routesOk_def)

text \<open>C8. The caches do not show, for configurations whose parts are replaced rather than changed in place
  (\<open>consistentConfigs\<close>) and for queries the cache key tells apart (\<open>goodInput\<close>: no tab in any part, no comma
  in a role, no part that is a lone dash, no peer with a blank id): after any sequence of such queries the
  answer to another one is the reference's, with or without verbose logging, and no cache outgrows its
  limit.  Without the second restriction the statement is false (\<open>blank_peer_shares_key\<close>).\<close>

theorem route_caches_transparent:
  assumes "consistentConfigs (insert cfg ((\<lambda>(v, c, q). c) ` set history))"
    and "\<forall>(v, c, q) \<in> insert (verbose, cfg, query) (set history). goodInput (normalizeRouteQuery q)"
    and "S = foldl (\<lambda>S (v, c, q). snd (resolveAgentRoute v c q S)) noRouteCaches history"
  shows "fst (resolveAgentRoute verbose cfg query S) = referenceRoute cfg (normalizeRouteQuery query) \<and>
    (\<forall>k e. jm_get (rcs_routes S) k = Some e \<longrightarrow> length (rch_byKey e) \<le> 4000) \<and>
    (\<forall>k e. jm_get (rcs_bindings S) k = Some e \<longrightarrow> length (ec_byChannelAccount e) \<le> 2000)"
proof -
  let ?C = "insert cfg ((\<lambda>(v, c, q). c) ` set history)"
  have "cachesInv ?C (foldl (\<lambda>S (v, c, q). snd (resolveAgentRoute v c q S)) T history')"
    if "cachesInv ?C T" "set history' \<subseteq> set history" for T history'
    using that
  proof (induction history' arbitrary: T)
    case (Cons x xs)
    obtain v c q where x: "x = (v, c, q)" by (cases x)
    with Cons.prems(2) have "(v, c, q) \<in> set history" by simp
    then have "c \<in> ?C" "goodInput (normalizeRouteQuery q)" using assms(2) by force+
    from resolve_ok(2) [OF assms(1) this(1) Cons.prems(1) this(2)] Cons x show ?case by simp
  qed simp
  from this [OF noCaches_inv subset_refl] have inv: "cachesInv ?C S" by (simp add: assms(3))
  have "goodInput (normalizeRouteQuery query)" using assms(2) by simp
  from resolve_ok(1) [OF assms(1) insertI1 inv this] inv show ?thesis
    by (auto simp: cachesInv_def routesOk_def bindingsOk_def MAX_RESOLVED_ROUTE_CACHE_KEYS_def
        MAX_EVALUATED_BINDINGS_CACHE_KEYS_def)
qed

definition sampleBinding ::
  "string option \<Rightarrow> peer_match option \<Rightarrow> jsval \<Rightarrow> string list option \<Rightarrow> string \<Rightarrow> agent_binding" where
  "sampleBinding account peer guild roles agent =
     \<lparr>ab_type = None, ab_agentId = Some agent,
      ab_match = Some \<lparr>bm_channel = Some ''Discord'', bm_accountId = account, bm_peer = peer, bm_guildId = guild,
                       bm_teamId = JUndef, bm_roles = roles\<rparr>,
      ab_dmScope = None\<rparr>"

definition sampleConfig :: route_config where
  "sampleConfig =
     \<lparr>cf_id = 0, cf_bindingsRef = 0,
      cf_bindings = Some [sampleBinding (Some ''*'') None JUndef None ''anyone'',
        sampleBinding (Some ''work'') None (JStr ''g1'') (Some [''mod'']) ''moderator'',
        sampleBinding (Some ''*'') (Some \<lparr>pm_kind = Some ''group'', pm_id = JStr ''c7''\<rparr>) JUndef None ''ops''],
      cf_agentsRef = 0,
      cf_agents = Some (map (\<lambda>i. \<lparr>ae_id = Some i, ae_default = False\<rparr>) [''Main'', ''ops'', ''moderator'']),
      cf_sessionRef = 0, cf_dmScope = None, cf_identityLinks = None\<rparr>"

definition sampleQuery :: "(chat_type \<times> jsval) option \<Rightarrow> string list option \<Rightarrow> route_query" where
  "sampleQuery peer roles = \<lparr>rq_channel = ''discord'', rq_accountId = Some ''Work'', rq_peer = peer, rq_parentPeer = None,
     rq_guildId = JStr ''g1'', rq_teamId = JNull, rq_memberRoleIds = roles\<rparr>"

theorem route_caches_transparent_witness:
  "rr_agentId (fst (resolveAgentRoute False sampleConfig (sampleQuery (Some (ChatChannel, JStr ''c8'')) (Some [''mod'']))
     (foldl (\<lambda>S (v, c, q). snd (resolveAgentRoute v c q S)) noRouteCaches
       [(False, sampleConfig, sampleQuery (Some (ChatChannel, JStr ''c7'')) None)]))) = ''moderator''"
proof -
  let ?q = "sampleQuery (Some (ChatChannel, JStr ''c8'')) (Some [''mod''])"
  let ?h = "[(False, sampleConfig, sampleQuery (Some (ChatChannel, JStr ''c7'')) None)]"
  have 1: "consistentConfigs (insert sampleConfig ((\<lambda>(v, c, q). c) ` set ?h))"
    by (simp add: consistentConfigs_def sameParts_def)
  have 2: "\<forall>(v, c, q) \<in> insert (False, sampleConfig, ?q) (set ?h). goodInput (normalizeRouteQuery q)"
    by code_simp
  have "rr_agentId (referenceRoute sampleConfig (normalizeRouteQuery ?q)) = ''moderator''" by code_simp
  with route_caches_transparent [OF 1 2 refl] show ?thesis by simp
qed

text \<open>A peer with a blank id has the key of no peer: the session of a group the transport could not name
  answers for a query without a peer.\<close>

lemma blank_peer_shares_key:
  "rr_sessionKey (fst (resolveAgentRoute False sampleConfig (sampleQuery None None)
     (snd (resolveAgentRoute False sampleConfig (sampleQuery (Some (ChatGroup, JStr '' '')) None) noRouteCaches)))) =
     ''agent:main:discord:group:unknown''"
  "rr_sessionKey (fst (resolveAgentRoute False sampleConfig (sampleQuery None None) noRouteCaches)) = ''agent:main:main''"
  by code_simp+

section \<open>The session belongs to the agent\<close>

lemma agentId_canonical:
  "normalizeAgentId v =
     (let t = js_trim (orEmpty v) in if t = [] then DEFAULT_AGENT_ID else orElse (canonicalizeAccountId t) DEFAULT_AGENT_ID)"
  by (simp add: normalizeAgentId_def canonicalizeAccountId_def orElse_def lower_eq Let_def)

lemma agentId_fixed:
  assumes "idAlnum (hd (normalizeAgentId v))"
  shows "normalizeAgentId (Some (normalizeAgentId v)) = normalizeAgentId v"
proof -
  let ?a = "normalizeAgentId v"
  have "length ?a \<le> 64"
    using canonical_length by (simp add: agentId_canonical orElse_def DEFAULT_AGENT_ID_def Let_def)
  then have "canonicalizeAccountId ?a = ?a"
    using agentId_chars assms by (intro canonical_fixed) auto
  moreover have "js_trim ?a = ?a" by (rule normalForm_trim) simp
  ultimately show ?thesis by (simp add: agentId_canonical [of "Some ?a"] orEmpty_def orElse_def)
qed

lemma map_lower_idChars: "\<forall>c \<in> set s. idChar c \<Longrightarrow> map js_lower_char s = s"
  by (intro map_idI idChar_lower) blast

lemma account_chars: "c \<in> set (accountOf v) \<Longrightarrow> idChar c"
proof (cases "accountId v")
  case (Some a)
  assume "c \<in> set (accountOf v)"
  with Some accountId_Some [OF Some] show ?thesis by (simp add: accountOf_def)
qed (auto simp: accountOf_def DEFAULT_ACCOUNT_ID_def idChar_def idAlnum_def)

text \<open>Peer keys are in normal form.\<close>

lemma normalForm_simps [simp]:
  "normalForm x \<Longrightarrow> map js_lower_char x = x" "normalForm x \<Longrightarrow> x \<noteq> [] \<Longrightarrow> \<not> js_ws (last x)"
  by (simp_all add: normalForm_def)

lemma unknown_normalForm [simp]: "normalForm x \<Longrightarrow> normalForm (orElse x ''unknown'')" "orElse x ''unknown'' \<noteq> []"
proof -
  have "normalForm ''unknown''" by code_simp
  then show "normalForm x \<Longrightarrow> normalForm (orElse x ''unknown'')" by (simp add: orElse_def)
qed (simp add: orElse_def)

lemma letters_lower [simp]:
  "js_lower_char (CHR ''d'') = CHR ''d''" "js_lower_char (CHR ''i'') = CHR ''i''" "js_lower_char (CHR ''r'') = CHR ''r''"
  "js_lower_char (CHR ''e'') = CHR ''e''" "js_lower_char (CHR ''c'') = CHR ''c''" "js_lower_char (CHR ''t'') = CHR ''t''"
  "js_lower_char (CHR ''a'') = CHR ''a''" "js_lower_char (CHR ''g'') = CHR ''g''" "js_lower_char (CHR ''n'') = CHR ''n''"
  "js_lower_char (CHR '':'') = CHR '':''"
  by code_simp+

lemma literals_lower [simp]:
  "map js_lower_char '':'' = '':''" "map js_lower_char ''direct:'' = ''direct:''"
  "map js_lower_char '':direct:'' = '':direct:''" "map js_lower_char (chatTypeText k) = chatTypeText k"
  by (code_simp, code_simp, code_simp, cases k, simp_all add: chatTypeText_def js_lower_char_def)

lemma slot_normal:
  "map js_lower_char (slotText (peerSlot p)) = slotText (peerSlot p)"
  "slotText (peerSlot p) \<noteq> []" "\<not> js_ws (last (slotText (peerSlot p)))"
proof -
  let ?ok = "\<lambda>t. map js_lower_char t = t \<and> t \<noteq> [] \<and> \<not> js_ws (last t)"
  have channel: "map js_lower_char (channelOrUnknown c) = channelOrUnknown c" for c
    by (simp add: channelOrUnknown_def)
  have account: "map js_lower_char (accountOf v) = accountOf v" for v
    by (intro map_lower_idChars) (blast intro: account_chars)
  have peer: "normalForm (directPeer p)" by (simp add: directPeer_def Let_def)
  have ok: "?ok (x @ y)" if "map js_lower_char x = x" "normalForm y" "y \<noteq> []" for x y
    using that by simp
  have "?ok (slotText (peerSlot p))"
  proof (cases "peerSlot p")
    case (SlotMain m)
    then have "m = normalizeMainKey (pp_mainKey p)" by (auto simp: peerSlot_def Let_def split: if_splits)
    with SlotMain show ?thesis by simp
  next
    case (SlotPeer x)
    then have "x = directPeer p" "x \<noteq> []" by (auto simp: peerSlot_def Let_def split: if_splits)
    with SlotPeer peer ok [of "''direct:''" x] show ?thesis by simp
  next
    case (SlotChannelPeer c x)
    then have "c = channelOrUnknown (pp_channel p)" "x = directPeer p" "x \<noteq> []"
      by (auto simp: peerSlot_def Let_def split: if_splits)
    with SlotChannelPeer peer channel ok [of "c @ '':direct:''" x] show ?thesis by simp
  next
    case (SlotAccountPeer c a x)
    then have "c = channelOrUnknown (pp_channel p)" "a = accountOf (pp_accountId p)" "x = directPeer p" "x \<noteq> []"
      by (auto simp: peerSlot_def Let_def split: if_splits)
    with SlotAccountPeer peer channel account ok [of "c @ '':'' @ a @ '':direct:''" x] show ?thesis by simp
  next
    case (SlotGroup c k x)
    then have "c = channelOrUnknown (pp_channel p)" "x = orElse (normalizeLowercaseStringOrEmpty (pp_peerId p)) ''unknown''"
      by (auto simp: peerSlot_def Let_def split: if_splits)
    with SlotGroup channel ok [of "c @ '':'' @ chatTypeText k @ '':''" x] show ?thesis by simp
  qed
  then show "map js_lower_char (slotText (peerSlot p)) = slotText (peerSlot p)"
    "slotText (peerSlot p) \<noteq> []" "\<not> js_ws (last (slotText (peerSlot p)))" by simp_all
qed

lemma key_normalForm:
  assumes "map js_lower_char rest = rest" "rest \<noteq> []" "\<not> js_ws (last rest)"
  shows "normalForm (''agent:'' @ normalizeAgentId v @ '':'' @ rest)"
proof -
  have "map js_lower_char (normalizeAgentId v) = normalizeAgentId v" by simp
  then show ?thesis using assms by (simp add: normalForm_def js_ws_def)
qed

lemma parse_agent:
  assumes "normalForm (''agent:'' @ normalizeAgentId v @ '':'' @ rest)" "\<exists>c \<in> set rest. c \<noteq> CHR '':''"
  shows "\<exists>r. parseAgentSessionKey (Some (''agent:'' @ normalizeAgentId v @ '':'' @ rest)) =
     Some \<lparr>psk_agentId = normalizeAgentId v, psk_rest = r\<rparr>"
proof -
  let ?a = "normalizeAgentId v" and ?segs = "filter (\<lambda>p. p \<noteq> []) (splitOn (CHR '':'') rest)"
  let ?key = "''agent:'' @ ?a @ '':'' @ rest"
  have "?segs \<noteq> []"
  proof
    assume "?segs = []"
    then have "\<Union> (set ` set (splitOn (CHR '':'') rest)) = {}" by (auto simp: filter_empty_conv)
    with set_join [of "'':''" "splitOn (CHR '':'') rest"] have "set rest \<subseteq> {CHR '':''}" by (simp add: join_splitOn)
    with assms(2) show False by blast
  qed
  then obtain x xs where segs: "?segs = x # xs" by (cases ?segs) auto
  then have "x \<in> set ?segs" by simp
  then have "x \<noteq> []" by simp
  then have join: "colons (x # xs) \<noteq> []" by (cases xs) (simp_all add: colons_def)
  have "splitOn (CHR '':'') (''agent'' @ CHR '':'' # (?a @ CHR '':'' # rest)) = ''agent'' # ?a # splitOn (CHR '':'') rest"
    by (subst splitOn_append) (simp_all add: splitOn_append)
  then have parts: "colonParts ?key = ''agent'' # ?a # x # xs"
    using segs by (simp add: colonParts_def)
  have raw: "normalizeOptionalLowercaseString (Some ?key) = Some ?key"
    using normalForm_optional [OF assms(1)] by simp
  have a: "normalizeOptionalString (Some ?a) = Some ?a"
    using normalForm_trim [OF agentId_normalForm]
    by (simp add: normalizeOptionalString_def normalizeNullableString_def Let_def)
  have "parseAgentSessionKey (Some ?key) = Some \<lparr>psk_agentId = ?a, psk_rest = colons (x # xs)\<rparr>"
    unfolding parseAgentSessionKey_def raw using parts a join by (simp add: Let_def)
  then show ?thesis by blast
qed

lemma slot_letter:
  assumes "\<And>m. s = SlotMain m \<Longrightarrow> m = ''main''"
  shows "\<exists>c \<in> set (slotText s). c \<noteq> CHR '':''"
proof (cases s)
  case (SlotGroup c k x)
  then show ?thesis by (cases k) (auto simp: chatTypeText_def)
qed (use assms in auto)

lemma session_parsed:
  "\<exists>r. parseAgentSessionKey (Some (normalizeLowercaseStringOrEmpty
       (Some (buildAgentSessionKey agent channel account peer scope links)))) =
     Some \<lparr>psk_agentId = normalizeAgentId (Some agent), psk_rest = r\<rparr>"
proof -
  obtain p where p: "buildAgentSessionKey agent channel account peer scope links = buildAgentPeerSessionKey p"
    "pp_agentId p = Some agent" "pp_mainKey p = Some DEFAULT_MAIN_KEY"
    by (simp add: buildAgentSessionKey_def)
  let ?key = "''agent:'' @ normalizeAgentId (Some agent) @ '':'' @ slotText (peerSlot p)"
  have key: "buildAgentSessionKey agent channel account peer scope links = ?key" using p by (simp add: peerKey_slot)
  have nf: "normalForm ?key" by (intro key_normalForm slot_normal)
  have "normalizeMainKey (Some ''main'') = ''main''" by code_simp
  then have "\<exists>c \<in> set (slotText (peerSlot p)). c \<noteq> CHR '':''"
    using p(3) by (intro slot_letter) (auto simp: peerSlot_def DEFAULT_MAIN_KEY_def Let_def split: if_splits)
  from parse_agent [OF nf this] show ?thesis unfolding key normalForm_lower [OF nf] .
qed



end
