(* ===== verification/MentionGate.thy ===== *)
theory MentionGate
  imports Prelude
begin

text \<open>
  The small gates the ingress kernel calls: \<open>src/channels/mention-gating.ts\<close>,
  \<open>src/channels/command-gating.ts\<close>, \<open>src/channels/allow-from.ts\<close> and \<open>normalizeStringEntries\<close> of
  \<open>src/shared/string-normalization.ts\<close>.  Optional fields are options, and an optional flag that the
  code only tests for truth keeps its three values.  Allowlist entries are texts or integers, whose
  \<open>String\<close> is the decimal numeral.
\<close>

section \<open>Entries of allowlists\<close>

datatype allow_entry = EntText string | EntNumber int

definition entryText :: "allow_entry \<Rightarrow> string" where
  "entryText e = (case e of EntText s \<Rightarrow> s | EntNumber i \<Rightarrow> js_show_int i)"

definition normalizeStringEntries :: "allow_entry list \<Rightarrow> string list" where
  "normalizeStringEntries xs =
     filter (\<lambda>s. s \<noteq> []) (map (\<lambda>e. orEmpty (normalizeOptionalString (Some (entryText e)))) xs)"

definition orNoEntries :: "'a list option \<Rightarrow> 'a list" where
  "orNoEntries v = (case v of None \<Rightarrow> [] | Some xs \<Rightarrow> xs)"

definition ACCESS_GROUP_ALLOW_FROM_PREFIX :: string where
  "ACCESS_GROUP_ALLOW_FROM_PREFIX = ''accessGroup:''"

definition parseAccessGroupAllowFromEntry :: "string \<Rightarrow> string option" where
  "parseAccessGroupAllowFromEntry entry =
     (let trimmed = js_trim entry
      in if \<not> js_startsWith trimmed ACCESS_GROUP_ALLOW_FROM_PREFIX then None
         else let name = js_trim (drop (length ACCESS_GROUP_ALLOW_FROM_PREFIX) trimmed)
              in if name \<noteq> [] then Some name else None)"

definition mergeDmAllowFromSources ::
  "allow_entry list option \<Rightarrow> allow_entry list option \<Rightarrow> string option \<Rightarrow> string list" where
  "mergeDmAllowFromSources allowFrom storeAllowFrom dmPolicy =
     (let storeEntries = (if dmPolicy = Some ''allowlist'' \<or> dmPolicy = Some ''open'' then []
                          else orNoEntries storeAllowFrom)
      in normalizeStringEntries (orNoEntries allowFrom @ storeEntries))"

definition resolveGroupAllowFromSources ::
  "allow_entry list option \<Rightarrow> allow_entry list option \<Rightarrow> bool option \<Rightarrow> string list" where
  "resolveGroupAllowFromSources allowFrom groupAllowFrom fallbackToAllowFrom =
     (let explicitGroupAllowFrom =
            (case groupAllowFrom of Some xs \<Rightarrow> if xs \<noteq> [] then Some xs else None | None \<Rightarrow> None);
          scoped = (case explicitGroupAllowFrom of
                      Some xs \<Rightarrow> xs
                    | None \<Rightarrow> if fallbackToAllowFrom = Some False then [] else orNoEntries allowFrom)
      in normalizeStringEntries scoped)"

fun firstDefined :: "'a option list \<Rightarrow> 'a option" where
  "firstDefined [] = None"
| "firstDefined (v # vs) = (case v of Some x \<Rightarrow> Some x | None \<Rightarrow> firstDefined vs)"

record sender_allow =
  sa_entries :: "string list"
  sa_hasWildcard :: bool
  sa_hasEntries :: bool

definition isSenderIdAllowed :: "sender_allow \<Rightarrow> string option \<Rightarrow> bool \<Rightarrow> bool" where
  "isSenderIdAllowed allow senderId allowWhenEmpty =
     (if \<not> sa_hasEntries allow then allowWhenEmpty
      else if sa_hasWildcard allow then True
      else case senderId of
             None \<Rightarrow> False
           | Some s \<Rightarrow> if s = [] then False else s \<in> set (sa_entries allow))"

section \<open>Commands\<close>

record command_authorizer =
  ca_configured :: bool
  ca_allowed :: bool

datatype groups_off_mode = OffAllow | OffDeny | OffConfigured

definition resolveCommandAuthorizedFromAuthorizers ::
  "bool \<Rightarrow> command_authorizer list \<Rightarrow> groups_off_mode option \<Rightarrow> bool" where
  "resolveCommandAuthorizedFromAuthorizers useAccessGroups authorizers modeWhenAccessGroupsOff =
     (let mode = (case modeWhenAccessGroupsOff of None \<Rightarrow> OffAllow | Some m \<Rightarrow> m)
      in if \<not> useAccessGroups then
           if mode = OffAllow then True
           else if mode = OffDeny then False
           else let anyConfigured = list_ex ca_configured authorizers
                in if \<not> anyConfigured then True
                   else list_ex (\<lambda>e. ca_configured e \<and> ca_allowed e) authorizers
         else list_ex (\<lambda>e. ca_configured e \<and> ca_allowed e) authorizers)"

record command_gate_result =
  cg_commandAuthorized :: bool
  cg_shouldBlock :: bool

definition resolveControlCommandGate ::
  "bool \<Rightarrow> command_authorizer list \<Rightarrow> bool \<Rightarrow> bool \<Rightarrow> groups_off_mode option \<Rightarrow> command_gate_result" where
  "resolveControlCommandGate useAccessGroups authorizers allowTextCommands hasControlCommand mode =
     (let commandAuthorized = resolveCommandAuthorizedFromAuthorizers useAccessGroups authorizers mode
      in \<lparr>cg_commandAuthorized = commandAuthorized,
          cg_shouldBlock = (allowTextCommands \<and> hasControlCommand \<and> \<not> commandAuthorized)\<rparr>)"

definition resolveDualTextControlCommandGate ::
  "bool \<Rightarrow> bool \<Rightarrow> bool \<Rightarrow> bool \<Rightarrow> bool \<Rightarrow> bool \<Rightarrow> groups_off_mode option \<Rightarrow> command_gate_result" where
  "resolveDualTextControlCommandGate useAccessGroups primaryConfigured primaryAllowed
     secondaryConfigured secondaryAllowed hasControlCommand mode =
     resolveControlCommandGate useAccessGroups
       [\<lparr>ca_configured = primaryConfigured, ca_allowed = primaryAllowed\<rparr>,
        \<lparr>ca_configured = secondaryConfigured, ca_allowed = secondaryAllowed\<rparr>]
       True hasControlCommand mode"

section \<open>Mentions\<close>

datatype implicit_mention_kind = ReplyToBot | QuotedBot | BotThreadParticipant | NativeMention

record mention_facts =
  mf_canDetectMention :: bool
  mf_wasMentioned :: bool
  mf_hasAnyMention :: "bool option"
  mf_implicitMentionKinds :: "implicit_mention_kind list option"

record mention_policy =
  mp_isGroup :: bool
  mp_requireMention :: bool
  mp_allowedImplicitMentionKinds :: "implicit_mention_kind list option"
  mp_allowTextCommands :: bool
  mp_hasControlCommand :: bool
  mp_commandAuthorized :: bool

text \<open>The flat form has the fields of both records side by side; the nested one has the two records.\<close>

record mention_flat = mention_facts +
  fl_isGroup :: bool
  fl_requireMention :: bool
  fl_allowedImplicitMentionKinds :: "implicit_mention_kind list option"
  fl_allowTextCommands :: bool
  fl_hasControlCommand :: bool
  fl_commandAuthorized :: bool

datatype mention_params = FlatMention mention_flat | NestedMention mention_facts mention_policy

record mention_decision =
  md_implicitMention :: bool
  md_matchedImplicitMentionKinds :: "implicit_mention_kind list"
  md_effectiveWasMentioned :: bool
  md_shouldBypassMention :: bool
  md_shouldSkip :: bool

definition implicitMentionKindWhen :: "implicit_mention_kind \<Rightarrow> bool \<Rightarrow> implicit_mention_kind list" where
  "implicitMentionKindWhen kind enabled = (if enabled then [kind] else [])"

fun matchKinds ::
  "implicit_mention_kind list option \<Rightarrow> implicit_mention_kind list \<Rightarrow> implicit_mention_kind list \<Rightarrow>
   implicit_mention_kind list" where
  "matchKinds allowedKinds [] matched = matched"
| "matchKinds allowedKinds (kind # kinds) matched =
     (if (case allowedKinds of None \<Rightarrow> False | Some ks \<Rightarrow> kind \<notin> set ks)
      then matchKinds allowedKinds kinds matched
      else if kind \<notin> set matched then matchKinds allowedKinds kinds (matched @ [kind])
      else matchKinds allowedKinds kinds matched)"

definition resolveMatchedImplicitMentionKinds ::
  "implicit_mention_kind list option \<Rightarrow> implicit_mention_kind list option \<Rightarrow> implicit_mention_kind list" where
  "resolveMatchedImplicitMentionKinds implicitMentionKinds allowedImplicitMentionKinds =
     (let inputKinds = orNoEntries implicitMentionKinds
      in if inputKinds = [] then [] else matchKinds allowedImplicitMentionKinds inputKinds [])"

definition resolveMentionDecisionCore ::
  "bool \<Rightarrow> bool \<Rightarrow> bool \<Rightarrow> implicit_mention_kind list option \<Rightarrow> implicit_mention_kind list option \<Rightarrow> bool \<Rightarrow>
   mention_decision" where
  "resolveMentionDecisionCore requireMention canDetectMention wasMentioned implicitMentionKinds
     allowedImplicitMentionKinds shouldBypassMention =
     (let matchedImplicitMentionKinds =
            resolveMatchedImplicitMentionKinds implicitMentionKinds allowedImplicitMentionKinds;
          implicitMention = (matchedImplicitMentionKinds \<noteq> []);
          effectiveWasMentioned = (wasMentioned \<or> implicitMention \<or> shouldBypassMention);
          shouldSkip = (requireMention \<and> canDetectMention \<and> \<not> effectiveWasMentioned)
      in \<lparr>md_implicitMention = implicitMention,
          md_matchedImplicitMentionKinds = matchedImplicitMentionKinds,
          md_effectiveWasMentioned = effectiveWasMentioned,
          md_shouldBypassMention = shouldBypassMention,
          md_shouldSkip = shouldSkip\<rparr>)"

definition normalizeMentionDecisionParams :: "mention_params \<Rightarrow> mention_facts \<times> mention_policy" where
  "normalizeMentionDecisionParams params =
     (case params of
        NestedMention facts policy \<Rightarrow> (facts, policy)
      | FlatMention p \<Rightarrow>
          (\<lparr>mf_canDetectMention = mf_canDetectMention p, mf_wasMentioned = mf_wasMentioned p,
            mf_hasAnyMention = mf_hasAnyMention p, mf_implicitMentionKinds = mf_implicitMentionKinds p\<rparr>,
           \<lparr>mp_isGroup = fl_isGroup p, mp_requireMention = fl_requireMention p,
            mp_allowedImplicitMentionKinds = fl_allowedImplicitMentionKinds p,
            mp_allowTextCommands = fl_allowTextCommands p,
            mp_hasControlCommand = fl_hasControlCommand p,
            mp_commandAuthorized = fl_commandAuthorized p\<rparr>))"

definition resolveInboundMentionDecision :: "mention_params \<Rightarrow> mention_decision" where
  "resolveInboundMentionDecision params =
     (let (facts, policy) = normalizeMentionDecisionParams params;
          shouldBypassMention =
            (mp_isGroup policy \<and> mp_requireMention policy \<and> \<not> mf_wasMentioned facts \<and>
             mf_hasAnyMention facts \<noteq> Some True \<and>
             mp_allowTextCommands policy \<and> mp_commandAuthorized policy \<and> mp_hasControlCommand policy)
      in resolveMentionDecisionCore (mp_requireMention policy) (mf_canDetectMention facts)
           (mf_wasMentioned facts) (mf_implicitMentionKinds facts)
           (mp_allowedImplicitMentionKinds policy) shouldBypassMention)"

definition resolveMentionGating ::
  "bool \<Rightarrow> bool \<Rightarrow> bool \<Rightarrow> bool option \<Rightarrow> bool option \<Rightarrow> bool \<times> bool" where
  "resolveMentionGating requireMention canDetectMention wasMentioned implicitMention shouldBypassMention =
     (let result = resolveMentionDecisionCore requireMention canDetectMention wasMentioned
                     (Some (implicitMentionKindWhen NativeMention (implicitMention = Some True)))
                     None (shouldBypassMention = Some True)
      in (md_effectiveWasMentioned result, md_shouldSkip result))"

definition resolveMentionGatingWithBypass ::
  "bool \<Rightarrow> bool \<Rightarrow> bool \<Rightarrow> bool \<Rightarrow> bool option \<Rightarrow> bool option \<Rightarrow> bool \<Rightarrow> bool \<Rightarrow> bool \<Rightarrow> bool \<times> bool \<times> bool" where
  "resolveMentionGatingWithBypass isGroup requireMention canDetectMention wasMentioned implicitMention
     hasAnyMention allowTextCommands hasControlCommand commandAuthorized =
     (let result = resolveInboundMentionDecision
            (NestedMention
              \<lparr>mf_canDetectMention = canDetectMention, mf_wasMentioned = wasMentioned,
               mf_hasAnyMention = hasAnyMention,
               mf_implicitMentionKinds = Some (implicitMentionKindWhen NativeMention (implicitMention = Some True))\<rparr>
              \<lparr>mp_isGroup = isGroup, mp_requireMention = requireMention,
               mp_allowedImplicitMentionKinds = None, mp_allowTextCommands = allowTextCommands,
               mp_hasControlCommand = hasControlCommand, mp_commandAuthorized = commandAuthorized\<rparr>)
      in (md_effectiveWasMentioned result, md_shouldSkip result, md_shouldBypassMention result))"

section \<open>Facts\<close>

lemma normalizeStringEntries_Nil [simp]: "normalizeStringEntries [] = []"
  by (simp add: normalizeStringEntries_def)

lemma orNoEntries_simps [simp]: "orNoEntries None = []" "orNoEntries (Some xs) = xs"
  by (simp_all add: orNoEntries_def)

lemma normalized_entry:
  "s \<in> set (normalizeStringEntries xs) \<Longrightarrow> s \<noteq> [] \<and> js_trim s = s"
  by (auto simp: normalizeStringEntries_def orEmpty_def normalizeOptionalString_Some_iff
      split: option.splits)

lemma normalize_entries_trimmed:
  "\<forall>s \<in> set xs. s \<noteq> [] \<and> js_trim s = s \<Longrightarrow> normalizeStringEntries (map EntText xs) = xs"
proof (induction xs)
  case Nil
  then show ?case by simp
next
  case (Cons s xs)
  then have "normalizeOptionalString (Some s) = Some s"
    by (simp add: normalizeOptionalString_Some_iff)
  with Cons show ?case
    by (simp add: normalizeStringEntries_def entryText_def orEmpty_def)
qed

text \<open>Normalising is idempotent, so lists that pass through several layers are stable.\<close>

lemma normalize_entries_idem [simp]:
  "normalizeStringEntries (map EntText (normalizeStringEntries xs)) = normalizeStringEntries xs"
  by (rule normalize_entries_trimmed) (use normalized_entry in blast)

lemma matchKinds_eq:
  "set (matchKinds allowed kinds acc) =
     set acc \<union> {k \<in> set kinds. case allowed of None \<Rightarrow> True | Some ks \<Rightarrow> k \<in> set ks}"
  by (induction allowed kinds acc rule: matchKinds.induct) (auto split: option.splits)

lemma matchKinds_distinct: "distinct acc \<Longrightarrow> distinct (matchKinds allowed kinds acc)"
  by (induction allowed kinds acc rule: matchKinds.induct) auto

text \<open>
  A message is skipped exactly when a mention is required and can be seen, there is none, no kind of
  implicit mention that the policy admits is present, and the text is not an authorised control
  command of a group.
\<close>

lemma mention_skip_iff:
  "md_shouldSkip (resolveInboundMentionDecision (NestedMention f p)) \<longleftrightarrow>
     mp_requireMention p \<and> mf_canDetectMention f \<and> \<not> mf_wasMentioned f \<and>
     (\<forall>k \<in> set (orNoEntries (mf_implicitMentionKinds f)).
        case mp_allowedImplicitMentionKinds p of None \<Rightarrow> False | Some ks \<Rightarrow> k \<notin> set ks) \<and>
     \<not> (mp_isGroup p \<and> mf_hasAnyMention f \<noteq> Some True \<and> mp_allowTextCommands p \<and>
        mp_commandAuthorized p \<and> mp_hasControlCommand p)"
proof -
  have "resolveMatchedImplicitMentionKinds ks allowed = [] \<longleftrightarrow>
      (\<forall>k \<in> set (orNoEntries ks). case allowed of None \<Rightarrow> False | Some as \<Rightarrow> k \<notin> set as)" for ks allowed
  proof -
    have "set (resolveMatchedImplicitMentionKinds ks allowed) =
        {k \<in> set (orNoEntries ks). case allowed of None \<Rightarrow> True | Some as \<Rightarrow> k \<in> set as}"
      by (simp add: resolveMatchedImplicitMentionKinds_def Let_def matchKinds_eq)
    then show ?thesis by (auto simp flip: set_empty split: option.splits)
  qed
  then show ?thesis
    by (auto simp: resolveInboundMentionDecision_def normalizeMentionDecisionParams_def
        resolveMentionDecisionCore_def Let_def)
qed

text \<open>The flat form and the two deprecated functions decide as the current one does.\<close>

lemma mention_flat_nested:
  "resolveInboundMentionDecision (FlatMention p) =
   resolveInboundMentionDecision (NestedMention (fst (normalizeMentionDecisionParams (FlatMention p)))
     (snd (normalizeMentionDecisionParams (FlatMention p))))"
  by (simp add: resolveInboundMentionDecision_def normalizeMentionDecisionParams_def)

lemma mention_bypass_authorised:
  "md_shouldBypassMention (resolveInboundMentionDecision (NestedMention f p)) \<Longrightarrow>
     mp_commandAuthorized p \<and> mp_hasControlCommand p \<and> mp_isGroup p"
  by (auto simp: resolveInboundMentionDecision_def normalizeMentionDecisionParams_def
      resolveMentionDecisionCore_def Let_def)

text \<open>
  An implicit mention is never reported as a bypass, even when it is what lets the message through.
\<close>

lemma implicit_mention_not_bypass:
  "md_shouldBypassMention (resolveInboundMentionDecision (NestedMention
      \<lparr>mf_canDetectMention = True, mf_wasMentioned = False, mf_hasAnyMention = None,
       mf_implicitMentionKinds = Some [BotThreadParticipant]\<rparr>
      \<lparr>mp_isGroup = True, mp_requireMention = True,
       mp_allowedImplicitMentionKinds = Some [BotThreadParticipant], mp_allowTextCommands = False,
       mp_hasControlCommand = False, mp_commandAuthorized = True\<rparr>)) = False \<and>
   md_effectiveWasMentioned (resolveInboundMentionDecision (NestedMention
      \<lparr>mf_canDetectMention = True, mf_wasMentioned = False, mf_hasAnyMention = None,
       mf_implicitMentionKinds = Some [BotThreadParticipant]\<rparr>
      \<lparr>mp_isGroup = True, mp_requireMention = True,
       mp_allowedImplicitMentionKinds = Some [BotThreadParticipant], mp_allowTextCommands = False,
       mp_hasControlCommand = False, mp_commandAuthorized = True\<rparr>)) = True"
  by code_simp

lemma command_authorized_iff:
  "resolveCommandAuthorizedFromAuthorizers useGroups as mode \<longleftrightarrow>
     (if \<not> useGroups \<and> mode \<in> {None, Some OffAllow} then True
      else if \<not> useGroups \<and> mode = Some OffDeny then False
      else (\<not> useGroups \<and> (\<forall>a \<in> set as. \<not> ca_configured a)) \<or>
           (\<exists>a \<in> set as. ca_configured a \<and> ca_allowed a))"
  by (cases mode; cases useGroups)
     (auto simp: resolveCommandAuthorizedFromAuthorizers_def list_ex_iff split: groups_off_mode.splits)

end
