(* ===== verification/IngressState.thy ===== *)
theory IngressState
  imports MentionGate SessionKey
begin

text \<open>
  The state of the ingress kernel: \<open>types.ts\<close>, \<open>allowlist.ts\<close> and \<open>state.ts\<close> of
  \<open>src/channels/message-access/\<close>, with the access groups of \<open>src/config/types.access-groups.ts\<close>.

  The adapter of a channel is an argument (two total functions; a promise is its value).  The order of
  route ids (\<open>localeCompare\<close>) is an argument too.  Precedences are integers.  Configured access groups
  are the entries of a JavaScript object, whose lookup also finds the names every object inherits.
\<close>

section \<open>Data\<close>

datatype ident_kind = StableId | Username | Email | Phone | Role | PluginKind string

datatype sensitivity = NormalSensitivity | Pii

datatype ingress_context = CtxDm | CtxGroup | CtxRoute | CtxCommand

datatype reason_code =
    Allowed | RouteBlocked | RouteSenderEmpty
  | DmPolicyDisabled | DmPolicyOpen | DmPolicyAllowlisted | DmPolicyPairingRequired
  | DmPolicyNotAllowlisted
  | GroupPolicyDisabled | GroupPolicyOpen | GroupPolicyAllowed | GroupPolicyEmptyAllowlist
  | GroupPolicyNotAllowlisted
  | CommandAuthorized | ControlCommandUnauthorized
  | EventAuthorized | EventUnauthorized | EventPairingNotAllowed
  | SenderNotRequired | OriginSubjectMissing | OriginSubjectNotMatched
  | ActivationAllowed | ActivationSkipped
  | AccessGroupMissing | AccessGroupUnsupported | AccessGroupFailed
  | MutableIdentifierDisabled | NoPolicyMatch

record ident_material =
  im_opaqueId :: string
  im_kind :: ident_kind
  im_dangerous :: "bool option"
  im_sensitivity :: "sensitivity option"
  im_value :: string

record ingress_subject =
  su_identifiers :: "ident_material list"

record red_entry =
  ne_opaqueEntryId :: string
  ne_kind :: ident_kind
  ne_dangerous :: "bool option"
  ne_sensitivity :: "sensitivity option"

record norm_entry = red_entry +
  ne_value :: string

record entry_diag =
  dg_opaqueEntryId :: "string option"
  dg_reasonCode :: reason_code

record ingress_match =
  mt_matched :: bool
  mt_ids :: "string list"

record normalize_result =
  nr_matchable :: "norm_entry list"
  nr_invalid :: "entry_diag list"
  nr_disabled :: "entry_diag list"

record ingress_adapter =
  ad_normalizeEntries :: "string list \<Rightarrow> ingress_context \<Rightarrow> string \<Rightarrow> normalize_result"
  ad_matchSubject :: "ingress_subject \<Rightarrow> norm_entry list \<Rightarrow> ingress_context \<Rightarrow> ingress_match"

datatype fact_source = StaticFact | DynamicFact

datatype fact_problem = ProblemMissing | ProblemUnsupported | ProblemFailed

datatype membership_fact =
    FactMatched (fact_group: string) fact_source "string list"
  | FactNotMatched (fact_group: string) fact_source
  | FactProblem fact_problem (fact_group: string) fact_source reason_code "string option"

datatype group_config =
    MessageSenders "(string, string list) jsmap"
  | OtherGroup string

record access_groups =
  ag_referenced :: "string list"
  ag_matched :: "string list"
  ag_missing :: "string list"
  ag_unsupported :: "string list"
  ag_failed :: "string list"

record resolved_allowlist =
  al_rawEntryCount :: nat
  al_normalizedEntries :: "red_entry list"
  al_invalidEntries :: "entry_diag list"
  al_disabledEntries :: "entry_diag list"
  al_matchedEntryIds :: "string list"
  al_hasConfiguredEntries :: bool
  al_hasMatchableEntries :: bool
  al_hasWildcard :: bool
  al_accessGroups :: access_groups
  al_match :: ingress_match

record allowlist_facts =
  af_configured :: bool
  af_matched :: bool
  af_reasonCode :: reason_code
  af_matchedEntryIds :: "string list"
  af_invalidEntryCount :: nat
  af_disabledEntryCount :: nat
  af_accessGroups :: access_groups

datatype route_gate_state = RouteNotConfigured | RouteMatched | RouteNotMatched | RouteDisabled | RouteLookupFailed

datatype route_sender_policy = Inherit | Replace | DenyWhenEmpty

datatype sender_source = EffectiveDm | EffectiveGroup

datatype gate_phase = PhaseRoute | PhaseSender | PhaseCommand | PhaseEvent | PhaseActivation

datatype gate_kind =
    KindRoute | KindRouteSender | KindDmSender | KindGroupSender | KindMembership
  | KindOwnerAllowlist | KindNestedAllowlist | KindCommand | KindEvent | KindMention

datatype gate_effect = EffAllow | EffBlockDispatch | EffBlockCommand | EffSkip | EffObserve | EffIgnore

text \<open>The kinds and effects of routes are some of those of gates.\<close>

datatype route_kind = RkRoute | RkRouteSender | RkMembership | RkOwnerAllowlist | RkNestedAllowlist

datatype route_effect = RouteAllow | RouteBlock | RouteIgnore

definition gateKindOf :: "route_kind \<Rightarrow> gate_kind" where
  "gateKindOf k =
     (case k of RkRoute \<Rightarrow> KindRoute | RkRouteSender \<Rightarrow> KindRouteSender | RkMembership \<Rightarrow> KindMembership
      | RkOwnerAllowlist \<Rightarrow> KindOwnerAllowlist | RkNestedAllowlist \<Rightarrow> KindNestedAllowlist)"

definition gateEffectOf :: "route_effect \<Rightarrow> gate_effect" where
  "gateEffectOf e =
     (case e of RouteAllow \<Rightarrow> EffAllow | RouteBlock \<Rightarrow> EffBlockDispatch | RouteIgnore \<Rightarrow> EffIgnore)"

record route_facts_base =
  rf_id :: string
  rf_kind :: route_kind
  rf_gate :: route_gate_state
  rf_effect :: route_effect
  rf_precedence :: int
  rf_senderPolicy :: route_sender_policy
  rf_match :: "ingress_match option"

record route_facts = route_facts_base +
  rf_senderAllowFrom :: "allow_entry list option"
  rf_senderAllowFromSource :: "sender_source option"

record resolved_route = route_facts_base +
  rf_senderAllowlist :: "resolved_allowlist option"

datatype event_kind =
    EvMessage | EvReaction | EvButton | EvPostback | EvNativeCommand | EvSlashCommand | EvSystem

datatype auth_mode = AuthInbound | AuthCommand | AuthOriginSubject | AuthRouteOnly | AuthNone

record event_base =
  ev_kind :: event_kind
  ev_authMode :: auth_mode
  ev_mayPair :: bool

record event_input = event_base +
  ev_originSubject :: "ingress_subject option"

record red_event = event_base +
  ev_hasOriginSubject :: bool
  ev_originSubjectMatched :: bool

record conversation =
  cv_kind :: chat_type
  cv_id :: string
  cv_parentId :: "string option"
  cv_threadId :: "string option"
  cv_title :: "string option"

record raw_allowlists =
  ra_dm :: "allow_entry list option"
  ra_group :: "allow_entry list option"
  ra_commandOwner :: "allow_entry list option"
  ra_commandGroup :: "allow_entry list option"
  ra_pairingStore :: "allow_entry list option"

record state_input =
  in_channelId :: string
  in_accountId :: string
  in_subject :: ingress_subject
  in_conversation :: conversation
  in_adapter :: ingress_adapter
  in_accessGroups :: "(string, group_config) jsmap option"
  in_accessGroupMembership :: "membership_fact list option"
  in_routeFacts :: "route_facts list option"
  in_mentionFacts :: "mention_facts option"
  in_event :: event_input
  in_allowlists :: raw_allowlists

record resolved_allowlists =
  sl_dm :: resolved_allowlist
  sl_pairingStore :: resolved_allowlist
  sl_group :: resolved_allowlist
  sl_commandOwner :: resolved_allowlist
  sl_commandGroup :: resolved_allowlist

record ingress_state =
  st_channelId :: string
  st_accountId :: string
  st_conversationKind :: chat_type
  st_event :: red_event
  st_mentionFacts :: "mention_facts option"
  st_routeFacts :: "resolved_route list"
  st_allowlists :: resolved_allowlists

datatype dm_policy = DmPairing | DmAllowlist | DmOpen | DmDisabled

datatype group_policy = GroupAllowlist | GroupOpen | GroupDisabled

datatype mutable_matching = MutableDisabled | MutableEnabled

datatype activation_order = BeforeSender | AfterCommand

record activation_policy =
  ap_requireMention :: bool
  ap_allowTextCommands :: bool
  ap_allowedImplicitMentionKinds :: "implicit_mention_kind list option"
  ap_order :: "activation_order option"

record command_policy =
  cp_useAccessGroups :: "bool option"
  cp_allowTextCommands :: bool
  cp_hasControlCommand :: bool
  cp_modeWhenAccessGroupsOff :: "groups_off_mode option"

record ingress_policy =
  po_dmPolicy :: dm_policy
  po_groupPolicy :: group_policy
  po_groupAllowFromFallbackToAllowFrom :: "bool option"
  po_mutableIdentifierMatching :: "mutable_matching option"
  po_activation :: "activation_policy option"
  po_command :: "command_policy option"

section \<open>Sets and objects of JavaScript\<close>

text \<open>\<open>Array.from(new Set(xs))\<close> keeps the first occurrence of each element.\<close>

definition uniqueStrings :: "string list \<Rightarrow> string list" where
  "uniqueStrings xs = rev (remdups (rev xs))"

lemma set_uniqueStrings [simp]: "set (uniqueStrings xs) = set xs"
  by (simp add: uniqueStrings_def)

lemma distinct_uniqueStrings [simp]: "distinct (uniqueStrings xs)"
  by (simp add: uniqueStrings_def)

lemma uniqueStrings_Nil [simp]: "uniqueStrings [] = []"
  by (simp add: uniqueStrings_def)

lemma uniqueStrings_eq_Nil [simp]: "uniqueStrings xs = [] \<longleftrightarrow> xs = []"
  by (simp add: uniqueStrings_def)

text \<open>
  The names a plain object inherits; what is found under them has no \<open>type\<close>, so it is no group of
  message senders.
\<close>

definition inheritedNames :: "string list" where
  "inheritedNames =
     [''constructor'', ''__defineGetter__'', ''__defineSetter__'', ''hasOwnProperty'',
      ''__lookupGetter__'', ''__lookupSetter__'', ''isPrototypeOf'', ''propertyIsEnumerable'',
      ''toString'', ''valueOf'', ''__proto__'', ''toLocaleString'']"

definition accessGroupNamed :: "(string, group_config) jsmap option \<Rightarrow> string \<Rightarrow> group_config option" where
  "accessGroupNamed groups name =
     (case groups of
        None \<Rightarrow> None
      | Some m \<Rightarrow>
          (case jm_get m name of
             Some g \<Rightarrow> Some g
           | None \<Rightarrow> if name \<in> set inheritedNames then Some (OtherGroup []) else None))"

section \<open>Allowlists: \<open>allowlist.ts\<close>\<close>

definition allowlistFailureReason :: "resolved_allowlist \<Rightarrow> reason_code option" where
  "allowlistFailureReason allowlist =
     (if ag_failed (al_accessGroups allowlist) \<noteq> [] then Some AccessGroupFailed
      else if ag_unsupported (al_accessGroups allowlist) \<noteq> [] then Some AccessGroupUnsupported
      else if ag_missing (al_accessGroups allowlist) \<noteq> [] then Some AccessGroupMissing
      else None)"

definition redactedAllowlistDiagnostics :: "resolved_allowlist \<Rightarrow> reason_code \<Rightarrow> allowlist_facts" where
  "redactedAllowlistDiagnostics allowlist reasonCode =
     \<lparr>af_configured = al_hasConfiguredEntries allowlist,
      af_matched = mt_matched (al_match allowlist),
      af_reasonCode = reasonCode,
      af_matchedEntryIds = al_matchedEntryIds allowlist,
      af_invalidEntryCount = length (al_invalidEntries allowlist),
      af_disabledEntryCount = length (al_disabledEntries allowlist),
      af_accessGroups = al_accessGroups allowlist\<rparr>"

definition flatMap :: "('a \<Rightarrow> 'b list) \<Rightarrow> 'a list \<Rightarrow> 'b list" where
  "flatMap f xs = concat (map f xs)"

lemma set_flatMap [simp]: "set (flatMap f xs) = (\<Union>x \<in> set xs. set (f x))"
  by (simp add: flatMap_def)

lemma flatMap_simps [simp]: "flatMap f [] = []" "flatMap f (x # xs) = f x @ flatMap f xs"
  by (simp_all add: flatMap_def)

definition mergeResolvedAllowlists :: "resolved_allowlist list \<Rightarrow> resolved_allowlist" where
  "mergeResolvedAllowlists allowlists =
     (let matches = map al_match allowlists;
          matchedEntryIds = uniqueStrings (flatMap al_matchedEntryIds allowlists)
      in \<lparr>al_rawEntryCount = sum_list (map al_rawEntryCount allowlists),
          al_normalizedEntries = flatMap al_normalizedEntries allowlists,
          al_invalidEntries = flatMap al_invalidEntries allowlists,
          al_disabledEntries = flatMap al_disabledEntries allowlists,
          al_matchedEntryIds = matchedEntryIds,
          al_hasConfiguredEntries = list_ex al_hasConfiguredEntries allowlists,
          al_hasMatchableEntries = list_ex al_hasMatchableEntries allowlists,
          al_hasWildcard = list_ex al_hasWildcard allowlists,
          al_accessGroups =
            \<lparr>ag_referenced = uniqueStrings (flatMap (\<lambda>a. ag_referenced (al_accessGroups a)) allowlists),
             ag_matched = uniqueStrings (flatMap (\<lambda>a. ag_matched (al_accessGroups a)) allowlists),
             ag_missing = uniqueStrings (flatMap (\<lambda>a. ag_missing (al_accessGroups a)) allowlists),
             ag_unsupported = uniqueStrings (flatMap (\<lambda>a. ag_unsupported (al_accessGroups a)) allowlists),
             ag_failed = uniqueStrings (flatMap (\<lambda>a. ag_failed (al_accessGroups a)) allowlists)\<rparr>,
          al_match =
            \<lparr>mt_matched = (list_ex mt_matched matches \<or> matchedEntryIds \<noteq> []),
             mt_ids = matchedEntryIds\<rparr>\<rparr>)"

definition isDangerous :: "'a red_entry_scheme \<Rightarrow> bool" where
  "isDangerous e \<longleftrightarrow> ne_dangerous e = Some True"

definition applyMutableIdentifierPolicy :: "resolved_allowlist \<Rightarrow> ingress_policy \<Rightarrow> resolved_allowlist" where
  "applyMutableIdentifierPolicy allowlist policy =
     (if po_mutableIdentifierMatching policy = Some MutableEnabled then allowlist
      else let dangerousEntryIds = map ne_opaqueEntryId (filter isDangerous (al_normalizedEntries allowlist))
      in if dangerousEntryIds = [] then allowlist
         else let matchedEntryIds = filter (\<lambda>id. id \<notin> set dangerousEntryIds) (al_matchedEntryIds allowlist);
                  disabledEntries = al_disabledEntries allowlist @
                    map (\<lambda>e. \<lparr>dg_opaqueEntryId = Some (ne_opaqueEntryId e),
                              dg_reasonCode = MutableIdentifierDisabled\<rparr>)
                      (filter isDangerous (al_normalizedEntries allowlist))
              in allowlist\<lparr>al_disabledEntries := disabledEntries,
                           al_matchedEntryIds := matchedEntryIds,
                           al_hasMatchableEntries := list_ex (\<lambda>e. \<not> isDangerous e) (al_normalizedEntries allowlist),
                           al_match := \<lparr>mt_matched = (matchedEntryIds \<noteq> []), mt_ids = matchedEntryIds\<rparr>\<rparr>)"

fun routeSenderLists :: "resolved_allowlist \<Rightarrow> resolved_route list \<Rightarrow> resolved_allowlist" where
  "routeSenderLists effective [] = effective"
| "routeSenderLists effective (route # routes) =
     (case rf_senderAllowlist route of
        None \<Rightarrow> routeSenderLists effective routes
      | Some senders \<Rightarrow>
          if rf_gate route \<noteq> RouteMatched then routeSenderLists effective routes
          else if rf_senderPolicy route = Inherit
          then routeSenderLists (mergeResolvedAllowlists [effective, senders]) routes
          else routeSenderLists senders routes)"

definition effectiveGroupSenderAllowlist :: "ingress_state \<Rightarrow> ingress_policy \<Rightarrow> resolved_allowlist" where
  "effectiveGroupSenderAllowlist state policy =
     (let effective =
            (if po_groupAllowFromFallbackToAllowFrom policy = Some True \<and>
                \<not> al_hasConfiguredEntries (sl_group (st_allowlists state))
             then sl_dm (st_allowlists state) else sl_group (st_allowlists state))
      in applyMutableIdentifierPolicy (routeSenderLists effective (st_routeFacts state)) policy)"

section \<open>Resolution: \<open>state.ts\<close>\<close>

definition redactedEntries :: "norm_entry list \<Rightarrow> red_entry list" where
  "redactedEntries entries = map red_entry.truncate entries"

definition emptyMatch :: ingress_match where
  "emptyMatch = \<lparr>mt_matched = False, mt_ids = []\<rparr>"

definition mergeMatches :: "ingress_match list \<Rightarrow> ingress_match" where
  "mergeMatches matches =
     (let matchedEntryIds = uniqueStrings (flatMap mt_ids matches)
      in \<lparr>mt_matched = (list_ex mt_matched matches \<or> matchedEntryIds \<noteq> []), mt_ids = matchedEntryIds\<rparr>)"

definition accessGroupFactByName :: "membership_fact list option \<Rightarrow> (string, membership_fact) jsmap" where
  "accessGroupFactByName facts = foldl (\<lambda>m f. jm_set (fact_group f) f m) [] (orNoEntries facts)"

record match_outcome =
  mo_normalizedEntries :: "red_entry list"
  mo_invalidEntries :: "entry_diag list"
  mo_disabledEntries :: "entry_diag list"
  mo_match :: ingress_match

definition normalizeAndMatch ::
  "ingress_adapter \<Rightarrow> ingress_subject \<Rightarrow> string \<Rightarrow> string list \<Rightarrow> ingress_context \<Rightarrow> match_outcome" where
  "normalizeAndMatch adapter subject account entries context =
     (if entries = [] then
        \<lparr>mo_normalizedEntries = [], mo_invalidEntries = [], mo_disabledEntries = [], mo_match = emptyMatch\<rparr>
      else let normalized = ad_normalizeEntries adapter entries context account;
               match = (if nr_matchable normalized \<noteq> []
                        then ad_matchSubject adapter subject (nr_matchable normalized) context
                        else emptyMatch)
      in \<lparr>mo_normalizedEntries = redactedEntries (nr_matchable normalized),
          mo_invalidEntries = nr_invalid normalized,
          mo_disabledEntries = nr_disabled normalized,
          mo_match = match\<rparr>)"

definition referencedAccessGroups :: "string list \<Rightarrow> string list" where
  "referencedAccessGroups entries = uniqueStrings (List.map_filter parseAccessGroupAllowFromEntry entries)"

definition directAllowlistEntries :: "string list \<Rightarrow> string list" where
  "directAllowlistEntries entries = filter (\<lambda>e. parseAccessGroupAllowFromEntry e = None) entries"

definition groupSenderEntries :: "string \<Rightarrow> state_input \<Rightarrow> string list" where
  "groupSenderEntries groupName input =
     (case accessGroupNamed (in_accessGroups input) groupName of
        Some (MessageSenders members) \<Rightarrow>
          normalizeStringEntries (map EntText
            (orNoEntries (jm_get members ''*'') @ orNoEntries (jm_get members (in_channelId input))))
      | _ \<Rightarrow> [])"

definition eventSubjectMatchContext :: "state_input \<Rightarrow> ingress_context" where
  "eventSubjectMatchContext input =
     (if cv_kind (in_conversation input) = ChatDirect then CtxDm else CtxGroup)"

definition subjectEntriesOf ::
  "state_input \<Rightarrow> ingress_context \<Rightarrow> string \<Rightarrow> nat \<times> ident_material \<Rightarrow> norm_entry list" where
  "subjectEntriesOf input context opaquePrefix p =
     (case p of (identifierIndex, identifier) \<Rightarrow>
        map (\<lambda>(entryIndex, entry).
            \<lparr>ne_opaqueEntryId = opaquePrefix @ ''-'' @ js_show_nat (identifierIndex + 1) @ '':'' @
               js_show_nat (entryIndex + 1),
             ne_kind = ne_kind entry, ne_dangerous = ne_dangerous entry,
             ne_sensitivity = ne_sensitivity entry, ne_value = ne_value entry\<rparr>)
          (List.enumerate 0
            (filter (\<lambda>entry. ne_kind entry = im_kind identifier \<and> ne_value entry \<noteq> ''*'')
              (nr_matchable (ad_normalizeEntries (in_adapter input) [im_value identifier] context
                 (in_accountId input))))))"

definition normalizeSubjectIdentifiersForMatch ::
  "state_input \<Rightarrow> ingress_subject \<Rightarrow> ingress_context \<Rightarrow> string \<Rightarrow> norm_entry list" where
  "normalizeSubjectIdentifiersForMatch input subject context opaquePrefix =
     flatMap (subjectEntriesOf input context opaquePrefix) (List.enumerate 0 (su_identifiers subject))"

definition originSubjectMatched :: "state_input \<Rightarrow> bool" where
  "originSubjectMatched input =
     (case ev_originSubject (in_event input) of
        None \<Rightarrow> False
      | Some origin \<Rightarrow>
          if list_ex (\<lambda>identifier. list_ex (\<lambda>current.
                im_kind current = im_kind identifier \<and> im_value current = im_value identifier)
                (su_identifiers (in_subject input))) (su_identifiers origin)
          then True
          else let context = eventSubjectMatchContext input;
                   originEntries = normalizeSubjectIdentifiersForMatch input origin context ''origin''
          in if originEntries \<noteq> [] \<and>
                mt_matched (ad_matchSubject (in_adapter input) (in_subject input) originEntries context)
             then True
             else let currentEntries = normalizeSubjectIdentifiersForMatch input (in_subject input) context ''current''
             in if currentEntries = [] then False
                else mt_matched (ad_matchSubject (in_adapter input) origin currentEntries context))"

record group_outcome =
  go_normalizedEntries :: "red_entry list"
  go_invalidEntries :: "entry_diag list"
  go_disabledEntries :: "entry_diag list"
  go_matches :: "ingress_match list"
  go_accessGroups :: access_groups

definition groupStep ::
  "state_input \<Rightarrow> ingress_context \<Rightarrow> (string, membership_fact) jsmap \<Rightarrow> group_outcome \<Rightarrow> string \<Rightarrow>
   group_outcome" where
  "groupStep input context factByName out groupName =
     (let groups = go_accessGroups out;
          missing = out\<lparr>go_accessGroups := groups\<lparr>ag_missing := ag_missing groups @ [groupName]\<rparr>\<rparr>;
          unsupported = out\<lparr>go_accessGroups := groups\<lparr>ag_unsupported := ag_unsupported groups @ [groupName]\<rparr>\<rparr>;
          failed = out\<lparr>go_accessGroups := groups\<lparr>ag_failed := ag_failed groups @ [groupName]\<rparr>\<rparr>;
          matched = groups\<lparr>ag_matched := ag_matched groups @ [groupName]\<rparr>
      in case jm_get factByName groupName of
           Some (FactMatched _ _ ids) \<Rightarrow>
             out\<lparr>go_accessGroups := matched,
                 go_matches := go_matches out @ [\<lparr>mt_matched = True, mt_ids = ids\<rparr>]\<rparr>
         | Some (FactProblem ProblemMissing _ _ _ _) \<Rightarrow> missing
         | Some (FactProblem ProblemUnsupported _ _ _ _) \<Rightarrow> unsupported
         | Some (FactProblem ProblemFailed _ _ _ _) \<Rightarrow> failed
         | Some (FactNotMatched _ _) \<Rightarrow> out
         | None \<Rightarrow>
             (case accessGroupNamed (in_accessGroups input) groupName of
                None \<Rightarrow> missing
              | Some (OtherGroup _) \<Rightarrow> unsupported
              | Some (MessageSenders _) \<Rightarrow>
                  (let resolved = normalizeAndMatch (in_adapter input) (in_subject input) (in_accountId input)
                                    (groupSenderEntries groupName input) context;
                       out' = out\<lparr>
                         go_normalizedEntries := go_normalizedEntries out @ mo_normalizedEntries resolved,
                         go_invalidEntries := go_invalidEntries out @ mo_invalidEntries resolved,
                         go_disabledEntries := go_disabledEntries out @ mo_disabledEntries resolved\<rparr>
                   in if mt_matched (mo_match resolved)
                      then out'\<lparr>go_accessGroups := matched,
                                go_matches := go_matches out' @ [mo_match resolved]\<rparr>
                      else out')))"

definition noGroupOutcome :: "string list \<Rightarrow> group_outcome" where
  "noGroupOutcome referenced =
     \<lparr>go_normalizedEntries = [], go_invalidEntries = [], go_disabledEntries = [], go_matches = [],
      go_accessGroups = \<lparr>ag_referenced = referenced, ag_matched = [], ag_missing = [],
        ag_unsupported = [], ag_failed = []\<rparr>\<rparr>"

definition resolveAccessGroupEntries ::
  "state_input \<Rightarrow> ingress_context \<Rightarrow> string list \<Rightarrow> group_outcome" where
  "resolveAccessGroupEntries input context referenced =
     foldl (groupStep input context (accessGroupFactByName (in_accessGroupMembership input)))
       (noGroupOutcome referenced) referenced"

definition resolveIngressAllowlist ::
  "state_input \<Rightarrow> allow_entry list option \<Rightarrow> ingress_context \<Rightarrow> resolved_allowlist" where
  "resolveIngressAllowlist input rawEntries context =
     (let entries = normalizeStringEntries (orNoEntries rawEntries);
          referenced = referencedAccessGroups entries;
          directEntries = directAllowlistEntries entries;
          direct = normalizeAndMatch (in_adapter input) (in_subject input) (in_accountId input)
                     directEntries context;
          groups = resolveAccessGroupEntries input context referenced;
          match = mergeMatches (mo_match direct # go_matches groups)
      in \<lparr>al_rawEntryCount = length entries,
          al_normalizedEntries = mo_normalizedEntries direct @ go_normalizedEntries groups,
          al_invalidEntries = mo_invalidEntries direct @ go_invalidEntries groups,
          al_disabledEntries = mo_disabledEntries direct @ go_disabledEntries groups,
          al_matchedEntryIds = mt_ids match,
          al_hasConfiguredEntries = (entries \<noteq> []),
          al_hasMatchableEntries = (mo_normalizedEntries direct \<noteq> [] \<or> go_normalizedEntries groups \<noteq> []),
          al_hasWildcard = (''*'' \<in> set directEntries),
          al_accessGroups = go_accessGroups groups,
          al_match = match\<rparr>)"

definition routeOrder ::
  "(string \<Rightarrow> string \<Rightarrow> int) \<Rightarrow> route_facts \<Rightarrow> route_facts \<Rightarrow> int" where
  "routeOrder localeCompare left right =
     (let d = rf_precedence left - rf_precedence right
      in if d \<noteq> 0 then d else localeCompare (rf_id left) (rf_id right))"

definition routeSenderEntries :: "state_input \<Rightarrow> route_facts \<Rightarrow> allow_entry list option" where
  "routeSenderEntries input route =
     (case rf_senderAllowFrom route of
        Some xs \<Rightarrow> Some xs
      | None \<Rightarrow>
          (case rf_senderAllowFromSource route of
             Some EffectiveDm \<Rightarrow> ra_dm (in_allowlists input)
           | Some EffectiveGroup \<Rightarrow> ra_group (in_allowlists input)
           | None \<Rightarrow> None))"

definition resolveRoute :: "state_input \<Rightarrow> route_facts \<Rightarrow> resolved_route" where
  "resolveRoute input route =
     \<lparr>rf_id = rf_id route, rf_kind = rf_kind route, rf_gate = rf_gate route,
      rf_effect = rf_effect route, rf_precedence = rf_precedence route,
      rf_senderPolicy = rf_senderPolicy route, rf_match = rf_match route,
      rf_senderAllowlist =
        map_option (\<lambda>xs. resolveIngressAllowlist input (Some xs) CtxRoute) (routeSenderEntries input route)\<rparr>"

definition resolveRouteFacts ::
  "(string \<Rightarrow> string \<Rightarrow> int) \<Rightarrow> state_input \<Rightarrow> resolved_route list" where
  "resolveRouteFacts localeCompare input =
     map (resolveRoute input) (js_toSorted (routeOrder localeCompare) (orNoEntries (in_routeFacts input)))"

definition resolveChannelIngressState ::
  "(string \<Rightarrow> string \<Rightarrow> int) \<Rightarrow> state_input \<Rightarrow> ingress_state" where
  "resolveChannelIngressState localeCompare input =
     (let raw = in_allowlists input
      in \<lparr>st_channelId = in_channelId input,
          st_accountId = in_accountId input,
          st_conversationKind = cv_kind (in_conversation input),
          st_event =
            \<lparr>ev_kind = ev_kind (in_event input), ev_authMode = ev_authMode (in_event input),
             ev_mayPair = ev_mayPair (in_event input),
             ev_hasOriginSubject = (ev_originSubject (in_event input) \<noteq> None),
             ev_originSubjectMatched = originSubjectMatched input\<rparr>,
          st_mentionFacts = in_mentionFacts input,
          st_routeFacts = resolveRouteFacts localeCompare input,
          st_allowlists =
            \<lparr>sl_dm = resolveIngressAllowlist input (ra_dm raw) CtxDm,
             sl_pairingStore = resolveIngressAllowlist input (ra_pairingStore raw) CtxDm,
             sl_group = resolveIngressAllowlist input (ra_group raw) CtxGroup,
             sl_commandOwner = resolveIngressAllowlist input (ra_commandOwner raw) CtxCommand,
             sl_commandGroup = resolveIngressAllowlist input (ra_commandGroup raw) CtxCommand\<rparr>\<rparr>)"

end
