(* ===== verification/IngressDecision.thy ===== *)
theory IngressDecision
  imports IngressState
begin

text \<open>
  The decision of the ingress kernel: \<open>sender-gates.ts\<close> and \<open>decision.ts\<close> of
  \<open>src/channels/message-access/\<close>.  A decision is the list of the gates that were evaluated, in order,
  with the one that settled it.
\<close>

section \<open>Gates\<close>

datatype sender_policy = DmSenderPolicy dm_policy | GroupSenderPolicy group_policy

record gate_command =
  gc_useAccessGroups :: bool
  gc_allowTextCommands :: bool
  gc_modeWhenAccessGroupsOff :: "groups_off_mode option"
  gc_shouldBlockControlCommand :: bool

record gate_activation =
  ga_hasMentionFacts :: bool
  ga_requireMention :: bool
  ga_allowTextCommands :: bool
  ga_allowedImplicitMentionKinds :: "implicit_mention_kind list option"
  ga_order :: "activation_order option"
  ga_shouldSkip :: bool
  ga_canDetectMention :: "bool option"
  ga_wasMentioned :: "bool option"
  ga_hasAnyMention :: "bool option"
  ga_implicitMentionKinds :: "implicit_mention_kind list option"
  ga_effectiveWasMentioned :: "bool option"
  ga_shouldBypassMention :: "bool option"

record access_gate =
  g_id :: string
  g_phase :: gate_phase
  g_kind :: gate_kind
  g_effect :: gate_effect
  g_allowed :: bool
  g_reasonCode :: reason_code
  g_match :: "ingress_match option"
  g_allowlist :: "allowlist_facts option"
  g_sender :: "sender_policy option"
  g_command :: "gate_command option"
  g_event :: "red_event option"
  g_activation :: "gate_activation option"

datatype admission = Dispatch | Observe | Skip | Drop | PairingRequired

datatype access_verdict = VerdictAllow | VerdictBlock | VerdictPairing

record ingress_decision =
  de_admission :: admission
  de_decision :: access_verdict
  de_decisiveGateId :: string
  de_reasonCode :: reason_code
  de_gates :: "access_gate list"

text \<open>A gate with the fields every gate has; the optional ones are set where the code sets them.\<close>

definition plainGate ::
  "string \<Rightarrow> gate_phase \<Rightarrow> gate_kind \<Rightarrow> gate_effect \<Rightarrow> bool \<Rightarrow> reason_code \<Rightarrow> access_gate" where
  "plainGate i phase kind effect ok reasonCode =
     \<lparr>g_id = i, g_phase = phase, g_kind = kind, g_effect = effect, g_allowed = ok,
      g_reasonCode = reasonCode, g_match = None, g_allowlist = None, g_sender = None,
      g_command = None, g_event = None, g_activation = None\<rparr>"

lemma plainGate_simps [simp]:
  "g_id (plainGate i p k e ok r) = i" "g_phase (plainGate i p k e ok r) = p"
  "g_kind (plainGate i p k e ok r) = k" "g_effect (plainGate i p k e ok r) = e"
  "g_allowed (plainGate i p k e ok r) = ok" "g_reasonCode (plainGate i p k e ok r) = r"
  by (simp_all add: plainGate_def)

section \<open>Senders: \<open>sender-gates.ts\<close>\<close>

definition senderGate ::
  "string \<Rightarrow> gate_kind \<Rightarrow> gate_effect \<Rightarrow> bool \<Rightarrow> reason_code \<Rightarrow> ingress_match \<Rightarrow> sender_policy \<Rightarrow>
   resolved_allowlist \<Rightarrow> access_gate" where
  "senderGate i kind effect ok reasonCode match policy allowlistSource =
     (plainGate i PhaseSender kind effect ok reasonCode)
       \<lparr>g_match := Some match, g_sender := Some policy,
        g_allowlist := Some (redactedAllowlistDiagnostics allowlistSource reasonCode)\<rparr>"

definition senderGateForDirect :: "ingress_state \<Rightarrow> ingress_policy \<Rightarrow> access_gate" where
  "senderGateForDirect state policy =
     (let dm = applyMutableIdentifierPolicy (sl_dm (st_allowlists state)) policy;
          pairingStore = applyMutableIdentifierPolicy (sl_pairingStore (st_allowlists state)) policy;
          allow = (\<lambda>reasonCode. senderGate ''sender:dm'' KindDmSender EffAllow True reasonCode
                     (al_match dm) (DmSenderPolicy (po_dmPolicy policy)) dm);
          block = (\<lambda>reasonCode. senderGate ''sender:dm'' KindDmSender EffBlockDispatch False reasonCode
                     (al_match dm) (DmSenderPolicy (po_dmPolicy policy)) dm)
      in if po_dmPolicy policy = DmDisabled then block DmPolicyDisabled
         else if po_dmPolicy policy = DmOpen then
           if al_hasWildcard dm then allow DmPolicyOpen
           else if mt_matched (al_match dm) then allow DmPolicyAllowlisted
           else block DmPolicyNotAllowlisted
         else if mt_matched (al_match dm) then allow DmPolicyAllowlisted
         else if po_dmPolicy policy = DmPairing \<and> mt_matched (al_match pairingStore) then
           senderGate ''sender:dm'' KindDmSender EffAllow True DmPolicyAllowlisted
             (al_match pairingStore) (DmSenderPolicy (po_dmPolicy policy)) pairingStore
         else if po_dmPolicy policy = DmPairing \<and> ev_mayPair (st_event state) then
           block DmPolicyPairingRequired
         else block (if po_dmPolicy policy = DmPairing then EventPairingNotAllowed
                     else case allowlistFailureReason dm of
                            Some r \<Rightarrow> r | None \<Rightarrow> DmPolicyNotAllowlisted))"

definition senderGateForGroup :: "ingress_state \<Rightarrow> ingress_policy \<Rightarrow> access_gate" where
  "senderGateForGroup state policy =
     (let group = effectiveGroupSenderAllowlist state policy;
          allow = (\<lambda>reasonCode. senderGate ''sender:group'' KindGroupSender EffAllow True reasonCode
                     (al_match group) (GroupSenderPolicy (po_groupPolicy policy)) group);
          block = (\<lambda>reasonCode. senderGate ''sender:group'' KindGroupSender EffBlockDispatch False reasonCode
                     (al_match group) (GroupSenderPolicy (po_groupPolicy policy)) group)
      in if po_groupPolicy policy = GroupDisabled then block GroupPolicyDisabled
         else if po_groupPolicy policy = GroupOpen then allow GroupPolicyOpen
         else if \<not> al_hasConfiguredEntries group then block GroupPolicyEmptyAllowlist
         else if mt_matched (al_match group) then allow GroupPolicyAllowed
         else block (case allowlistFailureReason group of
                       Some r \<Rightarrow> r | None \<Rightarrow> GroupPolicyNotAllowlisted))"

definition applyEventAuthModeToSenderGate :: "ingress_state \<Rightarrow> access_gate \<Rightarrow> access_gate" where
  "applyEventAuthModeToSenderGate state gate =
     (if ev_authMode (st_event state) = AuthInbound \<or> g_allowed gate then gate
      else gate\<lparr>g_effect := EffIgnore, g_allowed := True, g_reasonCode := SenderNotRequired,
                g_allowlist := map_option (af_reasonCode_update (\<lambda>_. SenderNotRequired)) (g_allowlist gate)\<rparr>)"

section \<open>The decision: \<open>decision.ts\<close>\<close>

definition decisiveDecision ::
  "admission \<Rightarrow> access_verdict \<Rightarrow> access_gate \<Rightarrow> access_gate list \<Rightarrow> ingress_decision" where
  "decisiveDecision a v gate gates =
     \<lparr>de_admission = a, de_decision = v, de_decisiveGateId = g_id gate,
      de_reasonCode = g_reasonCode gate, de_gates = gates\<rparr>"

definition routeGate :: "resolved_route \<Rightarrow> access_gate" where
  "routeGate route =
     (plainGate (rf_id route) PhaseRoute (gateKindOf (rf_kind route)) (gateEffectOf (rf_effect route))
        (rf_effect route \<noteq> RouteBlock)
        (if rf_effect route = RouteBlock then RouteBlocked else Allowed))
       \<lparr>g_match := rf_match route\<rparr>"

definition routeGates :: "ingress_state \<Rightarrow> access_gate list" where
  "routeGates state = map routeGate (st_routeFacts state)"

definition emptySenderRoute :: "resolved_route \<Rightarrow> bool" where
  "emptySenderRoute route \<longleftrightarrow>
     rf_senderPolicy route = DenyWhenEmpty \<and> rf_gate route = RouteMatched \<and>
     (case rf_senderAllowlist route of None \<Rightarrow> True | Some a \<Rightarrow> \<not> al_hasConfiguredEntries a)"

definition routeSenderEmptyGate :: "ingress_state \<Rightarrow> access_gate option" where
  "routeSenderEmptyGate state =
     map_option (\<lambda>route.
       (plainGate (rf_id route @ '':sender'') PhaseRoute KindRouteSender EffBlockDispatch False RouteSenderEmpty)
         \<lparr>g_match := rf_match route,
          g_allowlist := map_option (\<lambda>a. redactedAllowlistDiagnostics a RouteSenderEmpty)
                           (rf_senderAllowlist route)\<rparr>)
       (find emptySenderRoute (st_routeFacts state))"

definition mergeCommandMatch :: "ingress_match \<Rightarrow> ingress_match \<Rightarrow> ingress_match" where
  "mergeCommandMatch ownerMatch groupMatch =
     (let matchedEntryIds = uniqueStrings (mt_ids ownerMatch @ mt_ids groupMatch)
      in \<lparr>mt_matched = (mt_matched ownerMatch \<or> mt_matched groupMatch \<or> matchedEntryIds \<noteq> []),
          mt_ids = matchedEntryIds\<rparr>)"

definition commandGate :: "ingress_state \<Rightarrow> ingress_policy \<Rightarrow> access_gate" where
  "commandGate state policy =
     (case po_command policy of
        None \<Rightarrow> plainGate ''command'' PhaseCommand KindCommand EffAllow True CommandAuthorized
      | Some command \<Rightarrow>
          let useAccessGroups = (case cp_useAccessGroups command of None \<Rightarrow> True | Some b \<Rightarrow> b);
              owner = applyMutableIdentifierPolicy (sl_commandOwner (st_allowlists state)) policy;
              group = applyMutableIdentifierPolicy (sl_commandGroup (st_allowlists state)) policy;
              authorized = resolveCommandAuthorizedFromAuthorizers useAccessGroups
                [\<lparr>ca_configured = al_hasConfiguredEntries owner, ca_allowed = mt_matched (al_match owner)\<rparr>,
                 \<lparr>ca_configured = al_hasConfiguredEntries group, ca_allowed = mt_matched (al_match group)\<rparr>]
                (cp_modeWhenAccessGroupsOff command);
              shouldBlock = (cp_allowTextCommands command \<and> cp_hasControlCommand command \<and> \<not> authorized)
          in (plainGate ''command'' PhaseCommand KindCommand
                (if shouldBlock then EffBlockCommand else EffAllow) authorized
                (if shouldBlock then ControlCommandUnauthorized else CommandAuthorized))
               \<lparr>g_match := Some (mergeCommandMatch (al_match owner) (al_match group)),
                g_command := Some
                  \<lparr>gc_useAccessGroups = useAccessGroups,
                   gc_allowTextCommands = cp_allowTextCommands command,
                   gc_modeWhenAccessGroupsOff = cp_modeWhenAccessGroupsOff command,
                   gc_shouldBlockControlCommand = shouldBlock\<rparr>\<rparr>)"

definition eventResult :: "ingress_state \<Rightarrow> bool \<Rightarrow> reason_code \<Rightarrow> access_gate" where
  "eventResult state ok reasonCode =
     (plainGate ''event'' PhaseEvent KindEvent (if ok then EffAllow else EffBlockDispatch) ok reasonCode)
       \<lparr>g_event := Some (st_event state)\<rparr>"

definition eventGate :: "ingress_state \<Rightarrow> access_gate \<Rightarrow> access_gate \<Rightarrow> access_gate" where
  "eventGate state sender command =
     (let event = st_event state; authMode = ev_authMode event
      in if authMode = AuthNone \<or> authMode = AuthRouteOnly then eventResult state True EventAuthorized
         else if authMode = AuthCommand then
           eventResult state (g_allowed command)
             (if g_allowed command then EventAuthorized else EventUnauthorized)
         else if authMode = AuthOriginSubject then
           if \<not> ev_hasOriginSubject event then eventResult state False OriginSubjectMissing
           else eventResult state (ev_originSubjectMatched event)
                  (if ev_originSubjectMatched event then EventAuthorized else OriginSubjectNotMatched)
         else eventResult state (g_allowed sender)
                (if g_allowed sender then EventAuthorized else EventUnauthorized))"

definition activationMetadata ::
  "activation_policy option \<Rightarrow> mention_facts option \<Rightarrow> bool \<Rightarrow> bool option \<Rightarrow> bool option \<Rightarrow> gate_activation" where
  "activationMetadata activation mentionFacts shouldSkip effectiveWasMentioned shouldBypassMention =
     \<lparr>ga_hasMentionFacts = (mentionFacts \<noteq> None),
      ga_requireMention = (case activation of None \<Rightarrow> False | Some a \<Rightarrow> ap_requireMention a),
      ga_allowTextCommands = (case activation of None \<Rightarrow> False | Some a \<Rightarrow> ap_allowTextCommands a),
      ga_allowedImplicitMentionKinds = Option.bind activation ap_allowedImplicitMentionKinds,
      ga_order = Option.bind activation ap_order,
      ga_shouldSkip = shouldSkip,
      ga_canDetectMention = map_option mf_canDetectMention mentionFacts,
      ga_wasMentioned = map_option mf_wasMentioned mentionFacts,
      ga_hasAnyMention = Option.bind mentionFacts mf_hasAnyMention,
      ga_implicitMentionKinds = Option.bind mentionFacts mf_implicitMentionKinds,
      ga_effectiveWasMentioned = effectiveWasMentioned,
      ga_shouldBypassMention = shouldBypassMention\<rparr>"

definition activationResult ::
  "activation_policy option \<Rightarrow> mention_facts option \<Rightarrow> bool \<Rightarrow> bool option \<Rightarrow> bool option \<Rightarrow> access_gate" where
  "activationResult activation mentionFacts shouldSkip effectiveWasMentioned shouldBypassMention =
     (plainGate ''activation'' PhaseActivation KindMention (if shouldSkip then EffSkip else EffAllow)
        (\<not> shouldSkip) (if shouldSkip then ActivationSkipped else ActivationAllowed))
       \<lparr>g_activation := Some (activationMetadata activation mentionFacts shouldSkip
                                effectiveWasMentioned shouldBypassMention)\<rparr>"

definition activationGate :: "ingress_state \<Rightarrow> ingress_policy \<Rightarrow> access_gate \<Rightarrow> access_gate" where
  "activationGate state policy command =
     (case (po_activation policy, st_mentionFacts state) of
        (Some activation, Some mentionFacts) \<Rightarrow>
          (let result = resolveInboundMentionDecision (NestedMention mentionFacts
                 \<lparr>mp_isGroup = (st_conversationKind state \<noteq> ChatDirect),
                  mp_requireMention = ap_requireMention activation,
                  mp_allowedImplicitMentionKinds = ap_allowedImplicitMentionKinds activation,
                  mp_allowTextCommands = ap_allowTextCommands activation,
                  mp_hasControlCommand =
                    (case po_command policy of None \<Rightarrow> False | Some c \<Rightarrow> cp_hasControlCommand c),
                  mp_commandAuthorized = g_allowed command\<rparr>)
           in activationResult (po_activation policy) (st_mentionFacts state) (md_shouldSkip result)
                (Some (md_effectiveWasMentioned result)) (Some (md_shouldBypassMention result)))
      | (activation, mentionFacts) \<Rightarrow>
          activationResult activation mentionFacts False
            (map_option (\<lambda>f. mf_wasMentioned f \<or> orNoEntries (mf_implicitMentionKinds f) \<noteq> []) mentionFacts)
            None)"

definition activationBeforeSender :: "ingress_state \<Rightarrow> ingress_policy \<Rightarrow> access_gate option" where
  "activationBeforeSender state policy =
     (case po_activation policy of
        None \<Rightarrow> None
      | Some a \<Rightarrow>
          if ap_order a = Some BeforeSender \<and> \<not> ap_allowTextCommands a
          then Some (activationGate state policy (commandGate state (policy\<lparr>po_command := None\<rparr>)))
          else None)"

definition eventModeSender :: "ingress_state \<Rightarrow> ingress_policy \<Rightarrow> access_gate" where
  "eventModeSender state policy =
     applyEventAuthModeToSenderGate state
       (if st_conversationKind state = ChatDirect then senderGateForDirect state policy
        else senderGateForGroup state policy)"

definition decideChannelIngress :: "ingress_state \<Rightarrow> ingress_policy \<Rightarrow> ingress_decision" where
  "decideChannelIngress state policy =
     (let gates = routeGates state @
            (case routeSenderEmptyGate state of None \<Rightarrow> [] | Some g \<Rightarrow> [g])
      in case find (\<lambda>g. g_effect g = EffBlockDispatch) gates of
           Some routeBlock \<Rightarrow> decisiveDecision Drop VerdictBlock routeBlock gates
         | None \<Rightarrow>
     (let before = activationBeforeSender state policy;
          gates = gates @ (case before of None \<Rightarrow> [] | Some g \<Rightarrow> [g])
      in if (case before of None \<Rightarrow> False | Some g \<Rightarrow> g_effect g = EffSkip)
         then decisiveDecision Skip VerdictAllow (the before) gates
         else
      let sender = eventModeSender state policy;
          gates = gates @ [sender]
      in if \<not> g_allowed sender
         then decisiveDecision
                (if g_reasonCode sender = DmPolicyPairingRequired then PairingRequired else Drop)
                (if g_reasonCode sender = DmPolicyPairingRequired then VerdictPairing else VerdictBlock)
                sender gates
         else
      let command = commandGate state policy;
          gates = gates @ [command]
      in if g_effect command = EffBlockCommand
         then decisiveDecision Drop VerdictBlock command gates
         else
      let event = eventGate state sender command;
          gates = gates @ [event]
      in if \<not> g_allowed event
         then decisiveDecision Drop VerdictBlock event gates
         else
      let activation = (case before of Some g \<Rightarrow> g | None \<Rightarrow> activationGate state policy command);
          gates = gates @ (case before of Some _ \<Rightarrow> [] | None \<Rightarrow> [activation])
      in if g_effect activation = EffSkip
         then decisiveDecision Skip VerdictAllow activation gates
         else if g_effect activation = EffObserve
         then decisiveDecision Observe VerdictAllow activation gates
         else decisiveDecision Dispatch VerdictAllow activation gates))"

end
