(* ===== verification/IngressRuntime.thy ===== *)
theory IngressRuntime
  imports IngressDecision
begin

text \<open>
  The resolver that channels call: \<open>runtime-identity.ts\<close>, \<open>runtime-access-groups.ts\<close>, \<open>runtime.ts\<close>
  and \<open>dm-allow-state.ts\<close> of \<open>src/channels/message-access/\<close>.

  The functions of a channel (normalisers, the match hook, the membership lookup, the store reader)
  are arguments.  A lookup or a reader that fails answers \<open>None\<close>; the other functions return.  The
  pairing store on disk is an argument as well.  Of the objects the code spreads, a field with the
  value \<open>undefined\<close> is taken as absent, and a subject's aliases are looked up under the keys the
  channel declares.
\<close>

section \<open>Identities: \<open>runtime-identity.ts\<close>\<close>

datatype danger = DangerFlag bool | DangerTest "string \<Rightarrow> bool option"

record field_base =
  fb_normalize :: "(string \<Rightarrow> string option) option"
  fb_normalizeEntry :: "(string \<Rightarrow> string option) option"
  fb_normalizeSubject :: "(string \<Rightarrow> string option) option"
  fb_dangerous :: "danger option"
  fb_sensitivity :: "sensitivity option"

record identity_field = field_base +
  fi_key :: "string option"
  fi_kind :: "ident_kind option"

record identity_alias = field_base +
  fa_key :: string
  fa_kind :: "ident_kind option"

record resolved_field = field_base +
  fr_key :: string
  fr_kind :: ident_kind

type_synonym entry_id_fun = "string \<Rightarrow> nat \<Rightarrow> string \<Rightarrow> nat \<Rightarrow> string"

record identity_descriptor =
  id_primary :: identity_field
  id_aliases :: "identity_alias list option"
  id_isWildcardEntry :: "(string \<Rightarrow> bool) option"
  id_matchEntry :: "(ingress_subject \<Rightarrow> norm_entry \<Rightarrow> ingress_context \<Rightarrow> bool option) option"
  id_resolveEntryId :: "entry_id_fun option"

record stable_identity = identity_field +
  si_aliases :: "identity_alias list option"
  si_isWildcardEntry :: "(string \<Rightarrow> bool) option"
  si_matchEntry :: "(ingress_subject \<Rightarrow> norm_entry \<Rightarrow> ingress_context \<Rightarrow> bool option) option"
  si_entryIdPrefix :: "string option"
  si_resolveEntryId :: "entry_id_fun option"

record subject_input =
  sj_stableId :: "allow_entry option"
  sj_aliases :: "(string, allow_entry option) jsmap option"

definition prefixedEntryId :: "string \<Rightarrow> entry_id_fun" where
  "prefixedEntryId prefix = (\<lambda>entry entryIndex fieldKey fieldIndex. prefix @ ''-'' @ js_show_nat (entryIndex + 1))"

definition defineStableChannelIngressIdentity :: "stable_identity \<Rightarrow> identity_descriptor" where
  "defineStableChannelIngressIdentity params =
     \<lparr>id_primary = identity_field.truncate params,
      id_aliases = si_aliases params,
      id_isWildcardEntry = si_isWildcardEntry params,
      id_matchEntry = si_matchEntry params,
      id_resolveEntryId =
        (case si_resolveEntryId params of
           Some f \<Rightarrow> Some f
         | None \<Rightarrow>
             (case si_entryIdPrefix params of
                Some prefix \<Rightarrow> if prefix \<noteq> [] then Some (prefixedEntryId prefix) else None
              | None \<Rightarrow> None))\<rparr>"

datatype normalize_mode = ModeEntry | ModeSubject

definition defaultNormalize :: "string \<Rightarrow> string option" where
  "defaultNormalize v = Some v"

definition normalizerOf :: "resolved_field \<Rightarrow> normalize_mode \<Rightarrow> string \<Rightarrow> string option" where
  "normalizerOf field mode =
     (case (if mode = ModeEntry then fb_normalizeEntry field else fb_normalizeSubject field) of
        Some f \<Rightarrow> f
      | None \<Rightarrow> (case fb_normalize field of Some f \<Rightarrow> f | None \<Rightarrow> defaultNormalize))"

definition normalizeFieldValue :: "resolved_field \<Rightarrow> string \<Rightarrow> normalize_mode \<Rightarrow> string option" where
  "normalizeFieldValue field v mode =
     (case normalizerOf field mode v of
        None \<Rightarrow> None
      | Some n \<Rightarrow> if js_trim n \<noteq> [] then Some (js_trim n) else None)"

definition fieldDangerous :: "resolved_field \<Rightarrow> string \<Rightarrow> bool option" where
  "fieldDangerous field v =
     (case fb_dangerous field of
        None \<Rightarrow> None | Some (DangerFlag b) \<Rightarrow> Some b | Some (DangerTest f) \<Rightarrow> f v)"

definition resolvedField :: "'a field_base_scheme \<Rightarrow> string \<Rightarrow> ident_kind \<Rightarrow> resolved_field" where
  "resolvedField f key kind =
     \<lparr>fb_normalize = fb_normalize f, fb_normalizeEntry = fb_normalizeEntry f,
      fb_normalizeSubject = fb_normalizeSubject f, fb_dangerous = fb_dangerous f,
      fb_sensitivity = fb_sensitivity f, fr_key = key, fr_kind = kind\<rparr>"

definition primaryField :: "identity_descriptor \<Rightarrow> resolved_field" where
  "primaryField identity =
     resolvedField (id_primary identity)
       (case fi_key (id_primary identity) of Some k \<Rightarrow> k | None \<Rightarrow> ''stableId'')
       (case fi_kind (id_primary identity) of Some k \<Rightarrow> k | None \<Rightarrow> StableId)"

definition aliasField :: "identity_alias \<Rightarrow> resolved_field" where
  "aliasField a =
     resolvedField a (fa_key a) (case fa_kind a of Some k \<Rightarrow> k | None \<Rightarrow> PluginKind (fa_key a))"

definition identityFields :: "identity_descriptor \<Rightarrow> resolved_field list" where
  "identityFields identity = primaryField identity # map aliasField (orNoEntries (id_aliases identity))"

definition identKindText :: "ident_kind \<Rightarrow> string" where
  "identKindText k =
     (case k of StableId \<Rightarrow> ''stable-id'' | Username \<Rightarrow> ''username'' | Email \<Rightarrow> ''email''
      | Phone \<Rightarrow> ''phone'' | Role \<Rightarrow> ''role'' | PluginKind s \<Rightarrow> ''plugin:'' @ s)"

definition identityMatchKey :: "ident_kind \<Rightarrow> string \<Rightarrow> string" where
  "identityMatchKey kind v = identKindText kind @ '':'' @ v"

definition adapterEntry ::
  "identity_descriptor \<Rightarrow> resolved_field \<Rightarrow> nat \<Rightarrow> string \<Rightarrow> nat \<Rightarrow> string \<Rightarrow> string option \<Rightarrow> norm_entry" where
  "adapterEntry identity field fieldIndex entry entryIndex v fallbackSuffix =
     \<lparr>ne_opaqueEntryId =
        (case id_resolveEntryId identity of
           Some f \<Rightarrow> f entry entryIndex (fr_key field) fieldIndex
         | None \<Rightarrow> ''entry-'' @ js_show_nat (entryIndex + 1) @ '':'' @
             (case fallbackSuffix of Some s \<Rightarrow> s | None \<Rightarrow> fr_key field)),
      ne_kind = fr_kind field,
      ne_dangerous = fieldDangerous field entry,
      ne_sensitivity = fb_sensitivity field,
      ne_value = v\<rparr>"

definition isWildcard :: "identity_descriptor \<Rightarrow> string \<Rightarrow> bool" where
  "isWildcard identity entry =
     (case id_isWildcardEntry identity of Some f \<Rightarrow> f entry | None \<Rightarrow> entry = ''*'')"

definition identityEntries :: "identity_descriptor \<Rightarrow> nat \<times> string \<Rightarrow> norm_entry list" where
  "identityEntries identity p =
     (case p of (entryIndex, entry) \<Rightarrow>
        if isWildcard identity entry
        then [adapterEntry identity (hd (identityFields identity)) 0 entry entryIndex ''*'' (Some ''wildcard'')]
        else flatMap (\<lambda>(fieldIndex, field).
               case normalizeFieldValue field entry ModeEntry of
                 None \<Rightarrow> []
               | Some v \<Rightarrow> [adapterEntry identity field fieldIndex entry entryIndex v None])
             (List.enumerate 0 (identityFields identity)))"

definition identityNormalizeEntries ::
  "identity_descriptor \<Rightarrow> string list \<Rightarrow> ingress_context \<Rightarrow> string \<Rightarrow> normalize_result" where
  "identityNormalizeEntries identity entries context account =
     \<lparr>nr_matchable = flatMap (identityEntries identity) (List.enumerate 0 entries),
      nr_invalid = [], nr_disabled = []\<rparr>"

definition subjectKeys :: "identity_descriptor \<Rightarrow> ingress_subject \<Rightarrow> string list" where
  "subjectKeys identity subject =
     flatMap (\<lambda>identifier.
         case find (\<lambda>f. fr_kind f = im_kind identifier) (identityFields identity) of
           None \<Rightarrow> []
         | Some field \<Rightarrow>
             (case normalizeFieldValue field (im_value identifier) ModeSubject of
                None \<Rightarrow> [] | Some v \<Rightarrow> [identityMatchKey (im_kind identifier) v]))
       (su_identifiers subject)"

definition entryMatches ::
  "identity_descriptor \<Rightarrow> ingress_subject \<Rightarrow> norm_entry \<Rightarrow> ingress_context \<Rightarrow> bool" where
  "entryMatches identity subject entry context =
     (let fallback = (ne_value entry = ''*'' \<or>
            identityMatchKey (ne_kind entry) (ne_value entry) \<in> set (subjectKeys identity subject))
      in case id_matchEntry identity of
           None \<Rightarrow> fallback
         | Some f \<Rightarrow> (case f subject entry context of Some b \<Rightarrow> b | None \<Rightarrow> fallback))"

definition identityMatchSubject ::
  "identity_descriptor \<Rightarrow> ingress_subject \<Rightarrow> norm_entry list \<Rightarrow> ingress_context \<Rightarrow> ingress_match" where
  "identityMatchSubject identity subject entries context =
     (let matchedEntryIds =
            map ne_opaqueEntryId (filter (\<lambda>e. entryMatches identity subject e context) entries)
      in \<lparr>mt_matched = (matchedEntryIds \<noteq> []), mt_ids = matchedEntryIds\<rparr>)"

definition createIdentityAdapter :: "identity_descriptor \<Rightarrow> ingress_adapter" where
  "createIdentityAdapter identity =
     \<lparr>ad_normalizeEntries = identityNormalizeEntries identity,
      ad_matchSubject = identityMatchSubject identity\<rparr>"

definition identityRawValue :: "subject_input \<Rightarrow> nat \<Rightarrow> resolved_field \<Rightarrow> allow_entry option" where
  "identityRawValue input i field =
     (if i = 0 then sj_stableId input
      else case sj_aliases input of
             None \<Rightarrow> None
           | Some m \<Rightarrow> Option.bind (jm_get m (fr_key field)) id)"

definition createIdentitySubject :: "identity_descriptor \<Rightarrow> subject_input \<Rightarrow> ingress_subject" where
  "createIdentitySubject identity input =
     \<lparr>su_identifiers = flatMap (\<lambda>(i, field).
         case identityRawValue input i field of
           None \<Rightarrow> []
         | Some raw \<Rightarrow>
             [\<lparr>im_opaqueId = fr_key field, im_kind = fr_kind field,
               im_dangerous = fieldDangerous field (entryText raw),
               im_sensitivity = fb_sensitivity field, im_value = entryText raw\<rparr>])
       (List.enumerate 0 (identityFields identity))\<rparr>"

section \<open>Input and output: \<open>runtime-types.ts\<close>\<close>

record route_descriptor =
  rd_id :: string
  rd_kind :: "route_kind option"
  rd_configured :: "bool option"
  rd_matched :: "bool option"
  rd_allowed :: "bool option"
  rd_enabled :: "bool option"
  rd_precedence :: "int option"
  rd_senderPolicy :: "route_sender_policy option"
  rd_senderAllowFrom :: "allow_entry list option"
  rd_senderAllowFromSource :: "sender_source option"
  rd_matchId :: "string option"
  rd_blockReason :: "string option"

datatype route_arg = OneRoute route_descriptor | ManyRoutes "route_descriptor list"

datatype group_owner = OwnerConfigured | OwnerNone

datatype direct_group = DirectEffective | DirectNone

record command_input = command_policy +
  ci_commandOwnerAllowFrom :: "allow_entry list option"
  ci_groupOwnerAllowFrom :: "group_owner option"
  ci_directGroupAllowFrom :: "direct_group option"
  ci_commandGroupAllowFromFallbackToAllowFrom :: "bool option"

text \<open>\<open>None\<close> for a lookup that throws, or a reader that rejects.\<close>

type_synonym membership_lookup =
  "string \<Rightarrow> group_config \<Rightarrow> string \<Rightarrow> string \<Rightarrow> subject_input \<Rightarrow> bool option"

type_synonym store_reader = "string \<Rightarrow> string \<Rightarrow> dm_policy \<Rightarrow> allow_entry list option option"

type_synonym default_store = "string \<Rightarrow> string \<Rightarrow> string list option"

record ingress_params =
  ip_channelId :: string
  ip_accountId :: string
  ip_identity :: identity_descriptor
  ip_subject :: subject_input
  ip_conversation :: conversation
  ip_event :: event_input
  ip_policy :: ingress_policy
  ip_allowFrom :: "allow_entry list option"
  ip_groupAllowFrom :: "allow_entry list option"
  ip_route :: "route_arg option"
  ip_routeFacts :: "route_facts list option"
  ip_accessGroups :: "(string, group_config) jsmap option"
  ip_accessGroupMembership :: "membership_fact list option"
  ip_resolveAccessGroupMembership :: "membership_lookup option"
  ip_accessGroupMatchedAllowFromEntry :: "allow_entry option"
  ip_providerMissingFallbackApplied :: "bool option"
  ip_mentionFacts :: "mention_facts option"
  ip_readStoreAllowFrom :: "store_reader option"
  ip_useDefaultPairingStore :: "bool option"
  ip_command :: "command_input option"

record sender_access =
  sx_allowed :: bool
  sx_decision :: access_verdict
  sx_reasonCode :: reason_code
  sx_gate :: "access_gate option"
  sx_effectiveAllowFrom :: "string list"
  sx_effectiveGroupAllowFrom :: "string list"
  sx_providerMissingFallbackApplied :: bool

record command_access =
  cx_requested :: bool
  cx_authorized :: bool
  cx_shouldBlockControlCommand :: bool
  cx_reasonCode :: reason_code
  cx_gate :: "access_gate option"

record route_access =
  rx_allowed :: bool
  rx_reasonCode :: "reason_code option"
  rx_reason :: "string option"
  rx_gate :: "access_gate option"

record activation_access =
  ax_ran :: bool
  ax_allowed :: bool
  ax_shouldSkip :: bool
  ax_reasonCode :: reason_code
  ax_effectiveWasMentioned :: "bool option"
  ax_shouldBypassMention :: "bool option"
  ax_gate :: "access_gate option"

record resolved_ingress =
  ri_state :: ingress_state
  ri_ingress :: ingress_decision
  ri_senderAccess :: sender_access
  ri_routeAccess :: route_access
  ri_commandAccess :: command_access
  ri_activationAccess :: activation_access

section \<open>Access groups: \<open>runtime-access-groups.ts\<close>\<close>

definition accessGroupNames :: "allow_entry list \<Rightarrow> string list" where
  "accessGroupNames entries =
     uniqueStrings (List.map_filter (\<lambda>e. parseAccessGroupAllowFromEntry (entryText e)) entries)"

definition allReferencedAccessGroupNames :: "allow_entry list list \<Rightarrow> string list" where
  "allReferencedAccessGroupNames entries = uniqueStrings (flatMap accessGroupNames entries)"

definition normalizeEffectiveEntries ::
  "ingress_adapter \<Rightarrow> string \<Rightarrow> allow_entry list \<Rightarrow> ingress_context \<Rightarrow> string list" where
  "normalizeEffectiveEntries adapter account entries context =
     (let rawEntries = normalizeStringEntries entries;
          accessGroupEntries = filter (\<lambda>e. parseAccessGroupAllowFromEntry e \<noteq> None) rawEntries;
          directEntries = filter (\<lambda>e. parseAccessGroupAllowFromEntry e = None) rawEntries
      in if directEntries = [] then accessGroupEntries
         else uniqueStrings (accessGroupEntries @
                map ne_value (nr_matchable (ad_normalizeEntries adapter directEntries context account))))"

definition membershipFact ::
  "ingress_params \<Rightarrow> membership_lookup \<Rightarrow> string \<Rightarrow> string \<Rightarrow> membership_fact list" where
  "membershipFact params lookup channelId name =
     (case accessGroupNamed (ip_accessGroups params) name of
        None \<Rightarrow> []
      | Some (MessageSenders _) \<Rightarrow> []
      | Some g \<Rightarrow>
          (case lookup name g channelId (ip_accountId params) (ip_subject params) of
             Some True \<Rightarrow> [FactMatched name DynamicFact [''access-group:'' @ name]]
           | Some False \<Rightarrow> [FactNotMatched name DynamicFact]
           | None \<Rightarrow> [FactProblem ProblemFailed name DynamicFact AccessGroupFailed
                       (Some (''access-group:'' @ name))]))"

definition resolveRuntimeAccessGroupMembershipFacts ::
  "ingress_params \<Rightarrow> string \<Rightarrow> string list \<Rightarrow> membership_fact list" where
  "resolveRuntimeAccessGroupMembershipFacts params channelId names =
     (case ip_resolveAccessGroupMembership params of
        None \<Rightarrow> []
      | Some lookup \<Rightarrow> flatMap (membershipFact params lookup channelId) names)"

section \<open>Allowlists and the store\<close>

definition dmPolicyText :: "dm_policy \<Rightarrow> string" where
  "dmPolicyText p =
     (case p of DmPairing \<Rightarrow> ''pairing'' | DmAllowlist \<Rightarrow> ''allowlist'' | DmOpen \<Rightarrow> ''open''
      | DmDisabled \<Rightarrow> ''disabled'')"

definition shouldReadStore :: "chat_type \<Rightarrow> dm_policy \<Rightarrow> bool" where
  "shouldReadStore conversationKind dmPolicy \<longleftrightarrow>
     conversationKind = ChatDirect \<and> dmPolicy \<noteq> DmAllowlist \<and> dmPolicy \<noteq> DmOpen"

definition resolveChannelIngressEffectiveAllowFromLists ::
  "allow_entry list option \<Rightarrow> allow_entry list option \<Rightarrow> allow_entry list option \<Rightarrow> string option \<Rightarrow>
   bool option \<Rightarrow> string list \<times> string list" where
  "resolveChannelIngressEffectiveAllowFromLists allowFrom groupAllowFrom storeAllowFrom dmPolicy fallback =
     (normalizeStringEntries (map EntText (mergeDmAllowFromSources allowFrom storeAllowFrom dmPolicy)),
      normalizeStringEntries (map EntText (resolveGroupAllowFromSources allowFrom groupAllowFrom fallback)))"

definition readChannelIngressStoreAllowFromForDmPolicy ::
  "default_store \<Rightarrow> string \<Rightarrow> string \<Rightarrow> string option \<Rightarrow> bool option \<Rightarrow> default_store option \<Rightarrow> string list" where
  "readChannelIngressStoreAllowFromForDmPolicy pairingStore provider account dmPolicy shouldRead readStore =
     (if shouldRead = Some False \<or> dmPolicy = Some ''allowlist'' \<or> dmPolicy = Some ''open'' then []
      else orNoEntries ((case readStore of Some f \<Rightarrow> f | None \<Rightarrow> pairingStore) provider account))"

definition readStoreAllowFrom :: "default_store \<Rightarrow> ingress_params \<Rightarrow> string \<Rightarrow> allow_entry list" where
  "readStoreAllowFrom pairingStore params channelId =
     (if \<not> shouldReadStore (cv_kind (ip_conversation params)) (po_dmPolicy (ip_policy params)) then []
      else case ip_readStoreAllowFrom params of
             Some f \<Rightarrow>
               (case f channelId (ip_accountId params) (po_dmPolicy (ip_policy params)) of
                  None \<Rightarrow> [] | Some entries \<Rightarrow> orNoEntries entries)
           | None \<Rightarrow>
               if ip_useDefaultPairingStore params = Some True
               then map EntText (readChannelIngressStoreAllowFromForDmPolicy pairingStore channelId
                      (ip_accountId params) (Some (dmPolicyText (po_dmPolicy (ip_policy params)))) None None)
               else [])"

section \<open>Routes\<close>

definition routeDescriptors :: "route_arg option \<Rightarrow> route_descriptor list" where
  "routeDescriptors route =
     (case route of None \<Rightarrow> [] | Some (ManyRoutes rs) \<Rightarrow> rs | Some (OneRoute r) \<Rightarrow> [r])"

text \<open>\<open>None\<close> for the absent, false and null arguments of the call.\<close>

definition channelIngressRoutes :: "route_descriptor option list \<Rightarrow> route_descriptor list" where
  "channelIngressRoutes routes = List.map_filter id routes"

definition orElse :: "'a option \<Rightarrow> 'a \<Rightarrow> 'a" where
  "orElse v d = (case v of Some x \<Rightarrow> x | None \<Rightarrow> d)"

lemma orElse_simps [simp]: "orElse None d = d" "orElse (Some x) d = x"
  by (simp_all add: orElse_def)

definition routeDescriptorMatch :: "route_descriptor \<Rightarrow> ingress_match" where
  "routeDescriptorMatch descriptor =
     (let matched = orElse (rd_matched descriptor)
            (orElse (rd_allowed descriptor) (rd_enabled descriptor \<noteq> Some False))
      in \<lparr>mt_matched = matched,
          mt_ids = (case rd_matchId descriptor of
                      Some i \<Rightarrow> if matched \<and> i \<noteq> [] then [i] else []
                    | None \<Rightarrow> [])\<rparr>)"

definition routeFact ::
  "route_descriptor \<Rightarrow> route_kind \<Rightarrow> route_gate_state \<Rightarrow> route_effect \<Rightarrow> route_sender_policy \<Rightarrow> route_facts" where
  "routeFact descriptor kind gate effect senderPolicy =
     \<lparr>rf_id = rd_id descriptor, rf_kind = kind, rf_gate = gate, rf_effect = effect,
      rf_precedence = orElse (rd_precedence descriptor) 0,
      rf_senderPolicy = senderPolicy,
      rf_match = Some (routeDescriptorMatch descriptor),
      rf_senderAllowFrom = rd_senderAllowFrom descriptor,
      rf_senderAllowFromSource = rd_senderAllowFromSource descriptor\<rparr>"

definition descriptorFacts :: "route_descriptor \<Rightarrow> route_facts list" where
  "descriptorFacts descriptor =
     (let kind = orElse (rd_kind descriptor) RkRoute;
          senderPolicy = orElse (rd_senderPolicy descriptor) Inherit
      in if rd_configured descriptor = Some False then []
         else if rd_enabled descriptor = Some False then
           [routeFact descriptor kind RouteDisabled RouteBlock senderPolicy]
         else case rd_allowed descriptor of
             Some ok \<Rightarrow>
               [routeFact descriptor kind (if ok then RouteMatched else RouteNotMatched)
                  (if ok then RouteAllow else RouteBlock) senderPolicy]
           | None \<Rightarrow>
               if rd_senderPolicy descriptor \<noteq> Some DenyWhenEmpty \<and>
                  rd_senderAllowFrom descriptor = None \<and> rd_senderAllowFromSource descriptor = None
               then []
               else [routeFact descriptor
                       (if rd_senderPolicy descriptor = Some DenyWhenEmpty then kind else RkRouteSender)
                       RouteMatched RouteAllow
                       (if rd_senderPolicy descriptor = Some DenyWhenEmpty then DenyWhenEmpty else senderPolicy)])"

definition routeFactsFromDescriptors :: "route_arg option \<Rightarrow> route_facts list" where
  "routeFactsFromDescriptors route = flatMap descriptorFacts (routeDescriptors route)"

section \<open>Projections\<close>

definition findIngressGate :: "ingress_decision \<Rightarrow> gate_phase \<Rightarrow> gate_kind \<Rightarrow> access_gate option" where
  "findIngressGate ingress phase kind = find (\<lambda>g. g_phase g = phase \<and> g_kind g = kind) (de_gates ingress)"

definition findSenderGate :: "ingress_decision \<Rightarrow> bool \<Rightarrow> access_gate option" where
  "findSenderGate ingress isGroup =
     findIngressGate ingress PhaseSender (if isGroup then KindGroupSender else KindDmSender)"

definition senderSuffix :: string where
  "senderSuffix = '':sender''"

definition routeDescriptorForGate :: "route_descriptor list \<Rightarrow> access_gate \<Rightarrow> route_descriptor option" where
  "routeDescriptorForGate descriptors gate =
     (let n = length (g_id gate) - length senderSuffix;
          baseGateId = (if length senderSuffix \<le> length (g_id gate) \<and> drop n (g_id gate) = senderSuffix
                        then take n (g_id gate) else g_id gate)
      in find (\<lambda>d. rd_id d = g_id gate \<or> rd_id d = baseGateId) descriptors)"

definition truthyText :: "string option \<Rightarrow> string option" where
  "truthyText v = (case v of Some s \<Rightarrow> if s \<noteq> [] then Some s else None | None \<Rightarrow> None)"

definition projectRouteAccess :: "ingress_decision \<Rightarrow> route_arg option \<Rightarrow> route_access" where
  "projectRouteAccess ingress route =
     (let descriptors = routeDescriptors route
      in case find (\<lambda>g. g_phase g = PhaseRoute \<and> g_effect g = EffBlockDispatch) (de_gates ingress) of
           Some routeBlock \<Rightarrow>
             \<lparr>rx_allowed = g_allowed routeBlock, rx_reasonCode = Some (g_reasonCode routeBlock),
              rx_reason = Option.bind (routeDescriptorForGate descriptors routeBlock)
                            (\<lambda>d. truthyText (rd_blockReason d)),
              rx_gate = Some routeBlock\<rparr>
         | None \<Rightarrow>
             (case (find (\<lambda>d. rd_senderPolicy d = Some Replace \<and> truthyText (rd_blockReason d) \<noteq> None) descriptors,
                    find (\<lambda>g. g_phase g = PhaseSender \<and> g_effect g = EffBlockDispatch) (de_gates ingress)) of
                (Some replacement, Some senderBlock) \<Rightarrow>
                  \<lparr>rx_allowed = False, rx_reasonCode = Some (g_reasonCode senderBlock),
                   rx_reason = rd_blockReason replacement, rx_gate = Some senderBlock\<rparr>
              | _ \<Rightarrow>
                  (case find (\<lambda>g. g_phase g = PhaseRoute) (de_gates ingress) of
                     Some gate \<Rightarrow>
                       \<lparr>rx_allowed = g_allowed gate, rx_reasonCode = Some (g_reasonCode gate),
                        rx_reason = None, rx_gate = Some gate\<rparr>
                   | None \<Rightarrow>
                       \<lparr>rx_allowed = True, rx_reasonCode = None, rx_reason = None, rx_gate = None\<rparr>)))"

definition projectSenderAccess ::
  "ingress_decision \<Rightarrow> bool \<Rightarrow> string list \<Rightarrow> string list \<Rightarrow> bool option \<Rightarrow> sender_access" where
  "projectSenderAccess ingress isGroup effectiveAllowFrom effectiveGroupAllowFrom fallbackApplied =
     (let gate = findSenderGate ingress isGroup;
          reasonCode =
            (if gate = None \<and> isGroup \<and> de_reasonCode ingress = RouteSenderEmpty \<and>
                effectiveGroupAllowFrom = []
             then GroupPolicyEmptyAllowlist
             else case gate of Some g \<Rightarrow> g_reasonCode g | None \<Rightarrow> de_reasonCode ingress);
          decision =
            (if reasonCode = DmPolicyPairingRequired then VerdictPairing
             else if (case gate of Some g \<Rightarrow> g_allowed g | None \<Rightarrow> False) then VerdictAllow
             else VerdictBlock)
      in \<lparr>sx_allowed = (decision = VerdictAllow), sx_decision = decision, sx_reasonCode = reasonCode,
          sx_gate = gate, sx_effectiveAllowFrom = effectiveAllowFrom,
          sx_effectiveGroupAllowFrom = effectiveGroupAllowFrom,
          sx_providerMissingFallbackApplied = orElse fallbackApplied False\<rparr>)"

definition commandRequested :: "ingress_policy \<Rightarrow> bool" where
  "commandRequested policy \<longleftrightarrow> po_command policy \<noteq> None"

definition projectCommandAccess :: "ingress_decision \<Rightarrow> ingress_policy \<Rightarrow> command_access" where
  "projectCommandAccess ingress policy =
     (let gate = findIngressGate ingress PhaseCommand KindCommand
      in \<lparr>cx_requested = commandRequested policy,
          cx_authorized = (commandRequested policy \<and> (case gate of Some g \<Rightarrow> g_allowed g | None \<Rightarrow> False)),
          cx_shouldBlockControlCommand =
            (case Option.bind gate g_command of
               Some c \<Rightarrow> gc_shouldBlockControlCommand c | None \<Rightarrow> False),
          cx_reasonCode = (case gate of Some g \<Rightarrow> g_reasonCode g | None \<Rightarrow> de_reasonCode ingress),
          cx_gate = gate\<rparr>)"

definition projectActivationAccess :: "ingress_decision \<Rightarrow> activation_access" where
  "projectActivationAccess ingress =
     (let gate = findIngressGate ingress PhaseActivation KindMention;
          meta = Option.bind gate g_activation
      in \<lparr>ax_ran = (gate \<noteq> None),
          ax_allowed = (case gate of Some g \<Rightarrow> g_allowed g | None \<Rightarrow> False),
          ax_shouldSkip = (case meta of Some a \<Rightarrow> ga_shouldSkip a | None \<Rightarrow> False),
          ax_reasonCode = (case gate of Some g \<Rightarrow> g_reasonCode g | None \<Rightarrow> de_reasonCode ingress),
          ax_effectiveWasMentioned = Option.bind meta ga_effectiveWasMentioned,
          ax_shouldBypassMention = Option.bind meta ga_shouldBypassMention,
          ax_gate = gate\<rparr>)"

definition commandOwnerAllowFrom ::
  "command_input option \<Rightarrow> bool \<Rightarrow> allow_entry list \<Rightarrow> string list \<Rightarrow> allow_entry list" where
  "commandOwnerAllowFrom command isGroup configuredAllowFrom effectiveAllowFrom =
     (case Option.bind command ci_commandOwnerAllowFrom of
        Some xs \<Rightarrow> xs
      | None \<Rightarrow>
          if \<not> isGroup then map EntText effectiveAllowFrom
          else if Option.bind command ci_groupOwnerAllowFrom = Some OwnerNone then []
          else configuredAllowFrom)"

definition commandGroupAllowFrom ::
  "command_input option \<Rightarrow> bool \<Rightarrow> string list \<Rightarrow> allow_entry list" where
  "commandGroupAllowFrom command isGroup effectiveCommandGroupAllowFrom =
     (if isGroup then map EntText effectiveCommandGroupAllowFrom
      else if Option.bind command ci_directGroupAllowFrom = Some DirectEffective
      then map EntText effectiveCommandGroupAllowFrom else [])"

definition accessGroupMatchedEntry :: "ingress_params \<Rightarrow> string option" where
  "accessGroupMatchedEntry params =
     map_option entryText
       (case ip_accessGroupMatchedAllowFromEntry params of
          Some e \<Rightarrow> Some e | None \<Rightarrow> sj_stableId (ip_subject params))"

definition appendAccessGroupMatchedEntry ::
  "string list \<Rightarrow> resolved_allowlist \<Rightarrow> string option \<Rightarrow> string list" where
  "appendAccessGroupMatchedEntry entries allowlist matchedEntry =
     (case truthyText matchedEntry of
        Some e \<Rightarrow> if ag_matched (al_accessGroups allowlist) \<noteq> [] then uniqueStrings (entries @ [e]) else entries
      | None \<Rightarrow> entries)"

section \<open>The resolver: \<open>runtime.ts\<close>\<close>

datatype ingress_error = EmptyChannelId

definition normalizeChannelId :: "string \<Rightarrow> ingress_error + string" where
  "normalizeChannelId i = (let trimmed = js_trim i in if trimmed = [] then Inl EmptyChannelId else Inr trimmed)"

text \<open>The policy with the command of the call, which replaces one the policy already holds.\<close>

definition policyOf :: "ingress_params \<Rightarrow> ingress_policy" where
  "policyOf params =
     (case ip_command params of
        None \<Rightarrow> ip_policy params
      | Some c \<Rightarrow> (ip_policy params)\<lparr>po_command := Some (command_policy.truncate c)\<rparr>)"

text \<open>What the resolver hands to the kernel.\<close>

definition kernelInput :: "default_store \<Rightarrow> ingress_params \<Rightarrow> string \<Rightarrow> state_input" where
  "kernelInput pairingStore params channelId =
     (let routeFacts = routeFactsFromDescriptors (ip_route params) @ orNoEntries (ip_routeFacts params);
          rawAllowFrom = map EntText (normalizeStringEntries (orNoEntries (ip_allowFrom params)));
          rawStoreAllowFrom = map EntText (normalizeStringEntries (readStoreAllowFrom pairingStore params channelId));
          rawGroupAllowFrom = map EntText (normalizeStringEntries (orNoEntries (ip_groupAllowFrom params)));
          names = allReferencedAccessGroupNames
            ([rawAllowFrom, rawGroupAllowFrom, rawStoreAllowFrom,
              orNoEntries (Option.bind (ip_command params) ci_commandOwnerAllowFrom)] @
             map (\<lambda>r. orNoEntries (rf_senderAllowFrom r)) routeFacts);
          dmPolicy = Some (dmPolicyText (po_dmPolicy (ip_policy params)));
          fallback = po_groupAllowFromFallbackToAllowFrom (ip_policy params);
          rawEffective = resolveChannelIngressEffectiveAllowFromLists (Some rawAllowFrom)
            (Some rawGroupAllowFrom) (Some rawStoreAllowFrom) dmPolicy fallback;
          rawCommandGroup = resolveChannelIngressEffectiveAllowFromLists (Some rawAllowFrom)
            (Some rawGroupAllowFrom) None dmPolicy
            (case Option.bind (ip_command params) ci_commandGroupAllowFromFallbackToAllowFrom of
               Some b \<Rightarrow> Some b | None \<Rightarrow> fallback);
          isGroup = (cv_kind (ip_conversation params) \<noteq> ChatDirect)
      in \<lparr>in_channelId = channelId,
          in_accountId = ip_accountId params,
          in_subject = createIdentitySubject (ip_identity params) (ip_subject params),
          in_conversation = ip_conversation params,
          in_adapter = createIdentityAdapter (ip_identity params),
          in_accessGroups = ip_accessGroups params,
          in_accessGroupMembership =
            Some (resolveRuntimeAccessGroupMembershipFacts params channelId names @
                  orNoEntries (ip_accessGroupMembership params)),
          in_routeFacts = Some routeFacts,
          in_mentionFacts = ip_mentionFacts params,
          in_event = ip_event params,
          in_allowlists =
            \<lparr>ra_dm = Some rawAllowFrom,
             ra_group = Some (map EntText (snd rawEffective)),
             ra_commandOwner = Some (commandOwnerAllowFrom (ip_command params) isGroup rawAllowFrom (fst rawEffective)),
             ra_commandGroup = Some (commandGroupAllowFrom (ip_command params) isGroup (snd rawCommandGroup)),
             ra_pairingStore = Some rawStoreAllowFrom\<rparr>\<rparr>)"

text \<open>The lists the projection of the sender reports.\<close>

definition effectiveLists ::
  "default_store \<Rightarrow> ingress_params \<Rightarrow> string \<Rightarrow> string list \<times> string list" where
  "effectiveLists pairingStore params channelId =
     (let adapter = createIdentityAdapter (ip_identity params);
          raw = (\<lambda>xs. map EntText (normalizeStringEntries xs));
          effective = (\<lambda>xs context. Some (map EntText
            (normalizeEffectiveEntries adapter (ip_accountId params) (raw xs) context)))
      in resolveChannelIngressEffectiveAllowFromLists
           (effective (orNoEntries (ip_allowFrom params)) CtxDm)
           (effective (orNoEntries (ip_groupAllowFrom params)) CtxGroup)
           (effective (readStoreAllowFrom pairingStore params channelId) CtxDm)
           (Some (dmPolicyText (po_dmPolicy (ip_policy params))))
           (po_groupAllowFromFallbackToAllowFrom (ip_policy params)))"

definition resolvedIngress ::
  "(string \<Rightarrow> string \<Rightarrow> int) \<Rightarrow> default_store \<Rightarrow> ingress_params \<Rightarrow> string \<Rightarrow> resolved_ingress" where
  "resolvedIngress localeCompare pairingStore params channelId =
     (let isGroup = (cv_kind (ip_conversation params) \<noteq> ChatDirect);
          policy = policyOf params;
          state = resolveChannelIngressState localeCompare (kernelInput pairingStore params channelId);
          ingress = decideChannelIngress state policy;
          base = effectiveLists pairingStore params channelId;
          matchedEntry = accessGroupMatchedEntry params
      in \<lparr>ri_state = state, ri_ingress = ingress,
          ri_senderAccess = projectSenderAccess ingress isGroup
            (appendAccessGroupMatchedEntry (fst base) (sl_dm (st_allowlists state)) matchedEntry)
            (appendAccessGroupMatchedEntry (snd base) (sl_group (st_allowlists state)) matchedEntry)
            (ip_providerMissingFallbackApplied params),
          ri_routeAccess = projectRouteAccess ingress (ip_route params),
          ri_commandAccess = projectCommandAccess ingress policy,
          ri_activationAccess = projectActivationAccess ingress\<rparr>)"

definition resolveChannelMessageIngress ::
  "(string \<Rightarrow> string \<Rightarrow> int) \<Rightarrow> default_store \<Rightarrow> ingress_params \<Rightarrow> ingress_error + resolved_ingress" where
  "resolveChannelMessageIngress localeCompare pairingStore params =
     (case normalizeChannelId (ip_channelId params) of
        Inl e \<Rightarrow> Inl e
      | Inr channelId \<Rightarrow> Inr (resolvedIngress localeCompare pairingStore params channelId))"

section \<open>Resolvers of an account\<close>

record ingress_cfg =
  cf_accessGroups :: "(string, group_config) jsmap option"
  cf_useAccessGroups :: "bool option"

record command_preset =
  cq_requested :: "bool option"
  cq_useAccessGroups :: "bool option"
  cq_cfg :: "ingress_cfg option"
  cq_allowTextCommands :: "bool option"
  cq_hasControlCommand :: "bool option"
  cq_modeWhenAccessGroupsOff :: "groups_off_mode option"
  cq_commandOwnerAllowFrom :: "allow_entry list option"
  cq_groupOwnerAllowFrom :: "group_owner option"
  cq_directGroupAllowFrom :: "direct_group option"
  cq_commandGroupAllowFromFallbackToAllowFrom :: "bool option"

record event_preset =
  eq_kind :: "event_kind option"
  eq_authMode :: "auth_mode option"
  eq_mayPair :: "bool option"
  eq_originSubject :: "ingress_subject option"
  eq_isGroup :: "bool option"

record resolver_base =
  rb_channelId :: string
  rb_accountId :: string
  rb_identity :: identity_descriptor
  rb_accessGroups :: "(string, group_config) jsmap option"
  rb_accessGroupMembership :: "membership_fact list option"
  rb_resolveAccessGroupMembership :: "membership_lookup option"
  rb_accessGroupMatchedAllowFromEntry :: "allow_entry option"
  rb_readStoreAllowFrom :: "store_reader option"
  rb_useDefaultPairingStore :: "bool option"
  rb_cfg :: "ingress_cfg option"
  rb_useAccessGroups :: "bool option"
  rb_defaultDmPolicy :: "dm_policy option"
  rb_defaultGroupPolicy :: "group_policy option"
  rb_groupAllowFromFallbackToAllowFrom :: "bool option"
  rb_mutableIdentifierMatching :: "mutable_matching option"

record message_params =
  mq_subject :: subject_input
  mq_conversation :: conversation
  mq_event :: "event_preset option"
  mq_dmPolicy :: "dm_policy option"
  mq_groupPolicy :: "group_policy option"
  mq_groupAllowFromFallbackToAllowFrom :: "bool option"
  mq_mutableIdentifierMatching :: "mutable_matching option"
  mq_activation :: "activation_policy option"
  mq_allowFrom :: "allow_entry list option"
  mq_groupAllowFrom :: "allow_entry list option"
  mq_route :: "route_arg option"
  mq_routeFacts :: "route_facts list option"
  mq_accessGroupMembership :: "membership_fact list option"
  mq_providerMissingFallbackApplied :: "bool option"
  mq_mentionFacts :: "mention_facts option"
  mq_command :: "command_preset option"

definition useAccessGroupsFromConfig :: "bool option \<Rightarrow> ingress_cfg option \<Rightarrow> bool" where
  "useAccessGroupsFromConfig useAccessGroups cfg =
     orElse useAccessGroups (Option.bind cfg cf_useAccessGroups \<noteq> Some False)"

definition channelIngressCommand :: "command_preset \<Rightarrow> command_input option" where
  "channelIngressCommand params =
     (if cq_requested params = Some False then None
      else Some
        \<lparr>cp_useAccessGroups = Some (useAccessGroupsFromConfig (cq_useAccessGroups params) (cq_cfg params)),
         cp_allowTextCommands = orElse (cq_allowTextCommands params) False,
         cp_hasControlCommand = orElse (cq_hasControlCommand params) True,
         cp_modeWhenAccessGroupsOff = cq_modeWhenAccessGroupsOff params,
         ci_commandOwnerAllowFrom = cq_commandOwnerAllowFrom params,
         ci_groupOwnerAllowFrom = cq_groupOwnerAllowFrom params,
         ci_directGroupAllowFrom = cq_directGroupAllowFrom params,
         ci_commandGroupAllowFromFallbackToAllowFrom = cq_commandGroupAllowFromFallbackToAllowFrom params\<rparr>)"

definition channelIngressEvent :: "event_preset \<Rightarrow> event_input" where
  "channelIngressEvent params =
     (let isGroup = orElse (eq_isGroup params) False
      in \<lparr>ev_kind = orElse (eq_kind params) EvMessage,
          ev_authMode = orElse (eq_authMode params) AuthInbound,
          ev_mayPair = orElse (eq_mayPair params) (\<not> isGroup),
          ev_originSubject = eq_originSubject params\<rparr>)"

definition resolveCommandInput :: "command_preset option \<Rightarrow> bool \<Rightarrow> command_input option" where
  "resolveCommandInput command useAccessGroups =
     (case command of
        None \<Rightarrow> None
      | Some c \<Rightarrow>
          channelIngressCommand (c\<lparr>cq_useAccessGroups := Some (orElse (cq_useAccessGroups c) useAccessGroups)\<rparr>))"

definition resolveResolverPolicy :: "resolver_base \<Rightarrow> message_params \<Rightarrow> ingress_policy" where
  "resolveResolverPolicy base input =
     \<lparr>po_dmPolicy = orElse (mq_dmPolicy input) (orElse (rb_defaultDmPolicy base) DmPairing),
      po_groupPolicy = orElse (mq_groupPolicy input) (orElse (rb_defaultGroupPolicy base) GroupDisabled),
      po_groupAllowFromFallbackToAllowFrom =
        firstDefined [mq_groupAllowFromFallbackToAllowFrom input, rb_groupAllowFromFallbackToAllowFrom base],
      po_mutableIdentifierMatching =
        firstDefined [mq_mutableIdentifierMatching input, rb_mutableIdentifierMatching base],
      po_activation = mq_activation input,
      po_command = None\<rparr>"

text \<open>A later object of the spread wins, field by field.\<close>

definition spreadEvents :: "event_preset \<Rightarrow> event_preset \<Rightarrow> event_preset" where
  "spreadEvents a b =
     \<lparr>eq_kind = firstDefined [eq_kind b, eq_kind a],
      eq_authMode = firstDefined [eq_authMode b, eq_authMode a],
      eq_mayPair = firstDefined [eq_mayPair b, eq_mayPair a],
      eq_originSubject = firstDefined [eq_originSubject b, eq_originSubject a],
      eq_isGroup = firstDefined [eq_isGroup b, eq_isGroup a]\<rparr>"

definition noEventPreset :: event_preset where
  "noEventPreset = \<lparr>eq_kind = None, eq_authMode = None, eq_mayPair = None, eq_originSubject = None,
     eq_isGroup = None\<rparr>"

definition resolverParams :: "resolver_base \<Rightarrow> message_params \<Rightarrow> event_preset \<Rightarrow> ingress_params" where
  "resolverParams base input eventDefaults =
     (let isGroup = (cv_kind (mq_conversation input) \<noteq> ChatDirect);
          useAccessGroups = useAccessGroupsFromConfig (rb_useAccessGroups base) (rb_cfg base)
      in \<lparr>ip_channelId = rb_channelId base,
          ip_accountId = rb_accountId base,
          ip_identity = rb_identity base,
          ip_subject = mq_subject input,
          ip_conversation = mq_conversation input,
          ip_event = channelIngressEvent
            (spreadEvents (spreadEvents (noEventPreset\<lparr>eq_isGroup := Some isGroup\<rparr>) eventDefaults)
               (orElse (mq_event input) noEventPreset)),
          ip_policy = resolveResolverPolicy base input,
          ip_allowFrom = mq_allowFrom input,
          ip_groupAllowFrom = mq_groupAllowFrom input,
          ip_route = mq_route input,
          ip_routeFacts = mq_routeFacts input,
          ip_accessGroups = firstDefined [rb_accessGroups base, Option.bind (rb_cfg base) cf_accessGroups],
          ip_accessGroupMembership =
            Some (orNoEntries (rb_accessGroupMembership base) @ orNoEntries (mq_accessGroupMembership input)),
          ip_resolveAccessGroupMembership = rb_resolveAccessGroupMembership base,
          ip_accessGroupMatchedAllowFromEntry = rb_accessGroupMatchedAllowFromEntry base,
          ip_providerMissingFallbackApplied = mq_providerMissingFallbackApplied input,
          ip_mentionFacts = mq_mentionFacts input,
          ip_readStoreAllowFrom = rb_readStoreAllowFrom base,
          ip_useDefaultPairingStore = rb_useDefaultPairingStore base,
          ip_command = resolveCommandInput (mq_command input) useAccessGroups\<rparr>)"

datatype resolver_call = CallMessage | CallCommand | CallEvent

text \<open>The three functions of the object that \<open>createChannelIngressResolver\<close> returns.\<close>

definition callDefaults :: "resolver_call \<Rightarrow> event_preset" where
  "callDefaults call =
     (case call of
        CallMessage \<Rightarrow> noEventPreset
      | CallCommand \<Rightarrow> noEventPreset\<lparr>eq_authMode := Some AuthCommand, eq_mayPair := Some False\<rparr>
      | CallEvent \<Rightarrow> noEventPreset\<lparr>eq_mayPair := Some False\<rparr>)"

definition createChannelIngressResolver ::
  "(string \<Rightarrow> string \<Rightarrow> int) \<Rightarrow> default_store \<Rightarrow> resolver_base \<Rightarrow> resolver_call \<Rightarrow> message_params \<Rightarrow>
   ingress_error + resolved_ingress" where
  "createChannelIngressResolver localeCompare pairingStore base call input =
     resolveChannelMessageIngress localeCompare pairingStore (resolverParams base input (callDefaults call))"

text \<open>The one argument of the one-shot helper serves as defaults and as message.\<close>

definition resolveStableChannelMessageIngress ::
  "(string \<Rightarrow> string \<Rightarrow> int) \<Rightarrow> default_store \<Rightarrow> resolver_base \<Rightarrow> stable_identity \<Rightarrow> message_params \<Rightarrow>
   ingress_error + resolved_ingress" where
  "resolveStableChannelMessageIngress localeCompare pairingStore base identity input =
     createChannelIngressResolver localeCompare pairingStore
       (base\<lparr>rb_identity := defineStableChannelIngressIdentity identity,
             rb_accessGroupMembership := mq_accessGroupMembership input\<rparr>)
       CallMessage input"

section \<open>Audit of direct-message lists: \<open>dm-allow-state.ts\<close>\<close>

record dm_audit =
  da_configAllowFrom :: "string list"
  da_hasWildcard :: bool
  da_allowCount :: nat
  da_isMultiUserDm :: bool

definition trimmedEntries :: "(string \<Rightarrow> string) \<Rightarrow> string list \<Rightarrow> string list" where
  "trimmedEntries normalizeEntry xs = filter (\<lambda>v. v \<noteq> []) (map (\<lambda>v. js_trim (normalizeEntry v)) xs)"

definition resolveDmAllowAuditState ::
  "default_store \<Rightarrow> string \<Rightarrow> string \<Rightarrow> allow_entry list option \<Rightarrow> string option \<Rightarrow>
   (string \<Rightarrow> string) option \<Rightarrow> default_store option \<Rightarrow> dm_audit" where
  "resolveDmAllowAuditState pairingStore provider account allowFrom dmPolicy normalizeEntry readStore =
     (let configAllowFrom = normalizeStringEntries (orNoEntries allowFrom);
          hasWildcard = (''*'' \<in> set configAllowFrom);
          storeAllowFrom =
            readChannelIngressStoreAllowFromForDmPolicy pairingStore provider account dmPolicy None readStore;
          norm = orElse normalizeEntry (\<lambda>v. v);
          normalizedCfg = trimmedEntries norm (filter (\<lambda>v. v \<noteq> ''*'') configAllowFrom);
          normalizedStore = trimmedEntries norm storeAllowFrom;
          allowCount = length (uniqueStrings (normalizedCfg @ normalizedStore))
      in \<lparr>da_configAllowFrom = configAllowFrom, da_hasWildcard = hasWildcard, da_allowCount = allowCount,
          da_isMultiUserDm = (hasWildcard \<or> allowCount > 1)\<rparr>)"

end
