(* ===== verification/IngressSpec.thy ===== *)
theory IngressSpec
  imports IngressRuntime
begin

text \<open>
  What the ingress kernel promises.  An abstract reading of allowlists says who is granted access by
  the entries and access groups of a list; a locale states what the kernel needs of a channel's
  adapter for its matching to implement that reading; the adapters of \<open>runtime-identity.ts\<close> are an
  interpretation.  The decision is characterised by one condition per gate, and both are composed
  into the guarantee of the resolver.
\<close>

section \<open>Who a list grants access to\<close>

type_synonym grant_relation = "ingress_subject \<Rightarrow> norm_entry \<Rightarrow> ingress_context \<Rightarrow> bool"

definition entriesGrant ::
  "grant_relation \<Rightarrow> (norm_entry \<Rightarrow> bool) \<Rightarrow> state_input \<Rightarrow> ingress_context \<Rightarrow> string list \<Rightarrow> bool" where
  "entriesGrant grants usable input context entries \<longleftrightarrow>
     entries \<noteq> [] \<and>
     (\<exists>e \<in> set (nr_matchable (ad_normalizeEntries (in_adapter input) entries context (in_accountId input))).
        usable e \<and> grants (in_subject input) e context)"

definition groupGrants ::
  "grant_relation \<Rightarrow> (norm_entry \<Rightarrow> bool) \<Rightarrow> state_input \<Rightarrow> ingress_context \<Rightarrow> string \<Rightarrow> bool" where
  "groupGrants grants usable input context name \<longleftrightarrow>
     (case jm_get (accessGroupFactByName (in_accessGroupMembership input)) name of
        Some (FactMatched _ _ _) \<Rightarrow> True
      | Some _ \<Rightarrow> False
      | None \<Rightarrow> entriesGrant grants usable input context (groupSenderEntries name input))"

definition listGrants ::
  "grant_relation \<Rightarrow> (norm_entry \<Rightarrow> bool) \<Rightarrow> state_input \<Rightarrow> ingress_context \<Rightarrow> allow_entry list option \<Rightarrow> bool" where
  "listGrants grants usable input context raw \<longleftrightarrow>
     (let entries = normalizeStringEntries (orNoEntries raw)
      in entriesGrant grants usable input context (directAllowlistEntries entries) \<or>
         (\<exists>g \<in> set (referencedAccessGroups entries). groupGrants grants usable input context g))"

text \<open>With mutable identifiers switched off, entries marked dangerous grant nothing.\<close>

definition usableEntry :: "ingress_policy \<Rightarrow> norm_entry \<Rightarrow> bool" where
  "usableEntry policy e \<longleftrightarrow> po_mutableIdentifierMatching policy = Some MutableEnabled \<or> \<not> isDangerous e"

section \<open>Matching implements granting\<close>

text \<open>The part of a group's outcome that its name contributes.\<close>

definition groupResolved :: "state_input \<Rightarrow> ingress_context \<Rightarrow> string \<Rightarrow> match_outcome" where
  "groupResolved input context name =
     normalizeAndMatch (in_adapter input) (in_subject input) (in_accountId input)
       (groupSenderEntries name input) context"

definition groupNormalized :: "state_input \<Rightarrow> ingress_context \<Rightarrow> string \<Rightarrow> red_entry list" where
  "groupNormalized input context name =
     (case jm_get (accessGroupFactByName (in_accessGroupMembership input)) name of
        Some _ \<Rightarrow> [] | None \<Rightarrow> mo_normalizedEntries (groupResolved input context name))"

definition groupMatches :: "state_input \<Rightarrow> ingress_context \<Rightarrow> string \<Rightarrow> ingress_match list" where
  "groupMatches input context name =
     (case jm_get (accessGroupFactByName (in_accessGroupMembership input)) name of
        Some (FactMatched _ _ ids) \<Rightarrow> [\<lparr>mt_matched = True, mt_ids = ids\<rparr>]
      | Some _ \<Rightarrow> []
      | None \<Rightarrow>
          (if mt_matched (mo_match (groupResolved input context name))
           then [mo_match (groupResolved input context name)] else []))"

lemma normalizeAndMatch_Nil [simp]:
  "normalizeAndMatch a s acc [] c =
     \<lparr>mo_normalizedEntries = [], mo_invalidEntries = [], mo_disabledEntries = [], mo_match = emptyMatch\<rparr>"
  by (simp add: normalizeAndMatch_def)

lemma emptyMatch_simps [simp]: "mt_matched emptyMatch = False" "mt_ids emptyMatch = []"
  by (simp_all add: emptyMatch_def)

lemma groupSenderEntries_other:
  "accessGroupNamed (in_accessGroups input) g = None \<Longrightarrow> groupSenderEntries g input = []"
  "accessGroupNamed (in_accessGroups input) g = Some (OtherGroup t) \<Longrightarrow> groupSenderEntries g input = []"
  by (simp_all add: groupSenderEntries_def)

lemma groupStep_fields:
  fixes input c
  defines "step \<equiv> groupStep input c (accessGroupFactByName (in_accessGroupMembership input))"
  shows "go_matches (step out g) = go_matches out @ groupMatches input c g"
    and "go_normalizedEntries (step out g) = go_normalizedEntries out @ groupNormalized input c g"
  unfolding step_def
  by (auto simp: groupStep_def Let_def groupMatches_def groupNormalized_def groupResolved_def
      groupSenderEntries_other split: option.splits membership_fact.splits fact_problem.splits group_config.splits)

lemma groupFold_fields:
  fixes input c
  defines "step \<equiv> groupStep input c (accessGroupFactByName (in_accessGroupMembership input))"
  shows "go_matches (foldl step out gs) = go_matches out @ flatMap (groupMatches input c) gs"
    and "go_normalizedEntries (foldl step out gs) =
         go_normalizedEntries out @ flatMap (groupNormalized input c) gs"
  unfolding step_def by (induction gs arbitrary: out) (simp_all add: groupStep_fields)

lemma resolveAccessGroupEntries_fields:
  "go_matches (resolveAccessGroupEntries input context gs) = flatMap (groupMatches input context) gs"
  "go_normalizedEntries (resolveAccessGroupEntries input context gs) = flatMap (groupNormalized input context) gs"
  by (simp_all add: resolveAccessGroupEntries_def groupFold_fields noGroupOutcome_def)

text \<open>What the kernel needs of an adapter: a match is reported exactly for the entries that grant.\<close>

lemma ex_member: "(\<exists>x. x \<in> set xs) \<longleftrightarrow> xs \<noteq> []"
  by (cases xs) auto

locale ingress_matching =
  fixes adapter :: ingress_adapter
    and grants :: grant_relation
  assumes matched_iff: "mt_matched (ad_matchSubject adapter s es c) \<longleftrightarrow> (\<exists>e \<in> set es. grants s e c)"
    and match_ids: "set (mt_ids (ad_matchSubject adapter s es c)) = ne_opaqueEntryId ` {e \<in> set es. grants s e c}"
begin

lemma normalized_matched_iff:
  fixes input :: state_input
  assumes "in_adapter input = adapter"
  shows "mt_matched (mo_match (normalizeAndMatch (in_adapter input) (in_subject input) (in_accountId input) es c)) \<longleftrightarrow>
     entriesGrant grants (\<lambda>_. True) input c es"
  using assms by (auto simp: normalizeAndMatch_def entriesGrant_def matched_iff Let_def)

lemma normalized_ids:
  fixes input :: state_input
  assumes "in_adapter input = adapter"
  shows "i \<in> set (mt_ids (mo_match (normalizeAndMatch (in_adapter input) (in_subject input) (in_accountId input) es c))) \<Longrightarrow>
     es \<noteq> [] \<and> (\<exists>e \<in> set (nr_matchable (ad_normalizeEntries adapter es c (in_accountId input))).
       ne_opaqueEntryId e = i \<and> grants (in_subject input) e c)"
  using assms by (auto simp: normalizeAndMatch_def match_ids Let_def split: if_splits)

lemma ids_matched:
  fixes input :: state_input
  assumes "in_adapter input = adapter"
  shows "mt_ids (mo_match (normalizeAndMatch (in_adapter input) (in_subject input) (in_accountId input) es c)) \<noteq> [] \<Longrightarrow>
     mt_matched (mo_match (normalizeAndMatch (in_adapter input) (in_subject input) (in_accountId input) es c))"
  using normalized_ids [OF assms] normalized_matched_iff [OF assms] assms
  unfolding entriesGrant_def by (metis list.set_intros(1) neq_Nil_conv)

lemma groupMatches_iff:
  fixes input :: state_input
  assumes "in_adapter input = adapter"
  shows "groupMatches input c g \<noteq> [] \<longleftrightarrow> groupGrants grants (\<lambda>_. True) input c g"
    and "m \<in> set (groupMatches input c g) \<Longrightarrow> mt_matched m"
  using normalized_matched_iff [OF assms]
  by (auto simp: groupMatches_def groupGrants_def groupResolved_def
      split: option.splits membership_fact.splits if_splits)

text \<open>A list matches exactly when it grants.\<close>

lemma resolve_matched_iff:
  fixes input :: state_input
  assumes "in_adapter input = adapter"
  shows "mt_matched (al_match (resolveIngressAllowlist input raw c)) \<longleftrightarrow>
     listGrants grants (\<lambda>_. True) input c raw"
proof -
  let ?es = "normalizeStringEntries (orNoEntries raw)"
  let ?d = "mo_match (normalizeAndMatch (in_adapter input) (in_subject input) (in_accountId input)
              (directAllowlistEntries ?es) c)"
  let ?ms = "flatMap (groupMatches input c) (referencedAccessGroups ?es)"
  have "mt_matched (al_match (resolveIngressAllowlist input raw c)) \<longleftrightarrow>
      (\<exists>m \<in> set (?d # ?ms). mt_matched m \<or> mt_ids m \<noteq> [])"
    by (auto simp: resolveIngressAllowlist_def Let_def mergeMatches_def resolveAccessGroupEntries_fields
        list_ex_iff flatMap_def)
  also have "\<dots> \<longleftrightarrow> (\<exists>m \<in> set (?d # ?ms). mt_matched m)"
    using ids_matched [OF assms, of "directAllowlistEntries ?es" c] groupMatches_iff(2) [OF assms] by auto
  also have "\<dots> \<longleftrightarrow> entriesGrant grants (\<lambda>_. True) input c (directAllowlistEntries ?es) \<or>
      (\<exists>g \<in> set (referencedAccessGroups ?es). groupMatches input c g \<noteq> [])"
    using normalized_matched_iff [OF assms, of "directAllowlistEntries ?es" c] groupMatches_iff(2) [OF assms]
    by (simp add: ex_member)
  also have "\<dots> \<longleftrightarrow> listGrants grants (\<lambda>_. True) input c raw"
    by (simp add: listGrants_def Let_def groupMatches_iff(1) [OF assms])
  finally show ?thesis .
qed

end

text \<open>The entries a list reaches, its own and those of its static groups, and the grants by facts.\<close>

definition reachedEntries :: "state_input \<Rightarrow> ingress_context \<Rightarrow> string list \<Rightarrow> norm_entry set" where
  "reachedEntries input c es =
     (if es = [] then {} else set (nr_matchable (ad_normalizeEntries (in_adapter input) es c (in_accountId input))))"

definition factGranted :: "state_input \<Rightarrow> string \<Rightarrow> bool" where
  "factGranted input g \<longleftrightarrow>
     (case jm_get (accessGroupFactByName (in_accessGroupMembership input)) g of
        Some (FactMatched _ _ _) \<Rightarrow> True | _ \<Rightarrow> False)"

definition listEntries :: "state_input \<Rightarrow> ingress_context \<Rightarrow> allow_entry list option \<Rightarrow> norm_entry set" where
  "listEntries input c raw =
     (let es = normalizeStringEntries (orNoEntries raw)
      in reachedEntries input c (directAllowlistEntries es) \<union>
         (\<Union>g \<in> {g \<in> set (referencedAccessGroups es).
                 jm_get (accessGroupFactByName (in_accessGroupMembership input)) g = None}.
            reachedEntries input c (groupSenderEntries g input)))"

definition grantsId ::
  "grant_relation \<Rightarrow> state_input \<Rightarrow> ingress_context \<Rightarrow> allow_entry list option \<Rightarrow> string \<Rightarrow> bool" where
  "grantsId grants input c raw i \<longleftrightarrow>
     (\<exists>e \<in> listEntries input c raw. ne_opaqueEntryId e = i \<and> grants (in_subject input) e c) \<or>
     (\<exists>g \<in> set (referencedAccessGroups (normalizeStringEntries (orNoEntries raw))). factGranted input g)"

text \<open>The lists whose entries count for a group, route by route.\<close>

fun senderSources ::
  "state_input \<Rightarrow> (ingress_context \<times> allow_entry list option) set \<Rightarrow> route_facts list \<Rightarrow>
   (ingress_context \<times> allow_entry list option) set" where
  "senderSources input L [] = L"
| "senderSources input L (r # routes) =
     (case routeSenderEntries input r of
        None \<Rightarrow> senderSources input L routes
      | Some xs \<Rightarrow>
          if rf_gate r \<noteq> RouteMatched then senderSources input L routes
          else if rf_senderPolicy r = Inherit then senderSources input (L \<union> {(CtxRoute, Some xs)}) routes
          else senderSources input {(CtxRoute, Some xs)} routes)"

lemma entriesGrant_reached:
  "entriesGrant grants usable input c es \<longleftrightarrow>
     (\<exists>e \<in> reachedEntries input c es. usable e \<and> grants (in_subject input) e c)"
  by (simp add: entriesGrant_def reachedEntries_def)

lemma groupGrants_reached:
  "groupGrants grants usable input c g \<longleftrightarrow>
     factGranted input g \<or>
     jm_get (accessGroupFactByName (in_accessGroupMembership input)) g = None \<and>
     (\<exists>e \<in> reachedEntries input c (groupSenderEntries g input). usable e \<and> grants (in_subject input) e c)"
  by (auto simp: groupGrants_def factGranted_def entriesGrant_reached
      split: option.splits membership_fact.splits)

lemma listGrants_reached:
  "listGrants grants usable input c raw \<longleftrightarrow>
     (\<exists>e \<in> listEntries input c raw. usable e \<and> grants (in_subject input) e c) \<or>
     (\<exists>g \<in> set (referencedAccessGroups (normalizeStringEntries (orNoEntries raw))). factGranted input g)"
  by (auto simp: listGrants_def listEntries_def Let_def entriesGrant_reached groupGrants_reached)

lemma grantsId_listGrants: "grantsId grants input c raw i \<Longrightarrow> listGrants grants (\<lambda>_. True) input c raw"
  by (auto simp: grantsId_def listGrants_reached)

lemma normalized_reached:
  "set (mo_normalizedEntries (normalizeAndMatch (in_adapter input) (in_subject input) (in_accountId input) es c)) =
     red_entry.truncate ` reachedEntries input c es"
  by (simp add: normalizeAndMatch_def reachedEntries_def redactedEntries_def Let_def)

lemma groupNormalized_reached:
  "set (groupNormalized input c g) =
     (if jm_get (accessGroupFactByName (in_accessGroupMembership input)) g = None
      then red_entry.truncate ` reachedEntries input c (groupSenderEntries g input) else {})"
  by (auto simp: groupNormalized_def groupResolved_def normalized_reached split: option.splits)

lemma resolved_entries:
  "set (al_normalizedEntries (resolveIngressAllowlist input raw c)) =
     red_entry.truncate ` listEntries input c raw"
  by (auto simp: resolveIngressAllowlist_def Let_def resolveAccessGroupEntries_fields normalized_reached
      groupNormalized_reached listEntries_def split: if_splits)

lemma isDangerous_truncate [simp]: "isDangerous (red_entry.truncate e) = isDangerous e"
  by (simp add: isDangerous_def red_entry.truncate_def)

lemma id_truncate [simp]: "ne_opaqueEntryId (red_entry.truncate e) = ne_opaqueEntryId e"
  by (simp add: red_entry.truncate_def)

lemma mutable_unchanged:
  "po_mutableIdentifierMatching policy = Some MutableEnabled \<or> filter isDangerous (al_normalizedEntries a) = [] \<Longrightarrow>
     applyMutableIdentifierPolicy a policy = a"
  by (simp add: applyMutableIdentifierPolicy_def) (auto simp: Let_def)

lemma mutable_changed:
  "\<not> (po_mutableIdentifierMatching policy = Some MutableEnabled \<or> filter isDangerous (al_normalizedEntries a) = []) \<Longrightarrow>
     mt_matched (al_match (applyMutableIdentifierPolicy a policy)) \<longleftrightarrow>
     (\<exists>i \<in> set (al_matchedEntryIds a). i \<notin> ne_opaqueEntryId ` {e \<in> set (al_normalizedEntries a). isDangerous e})"
  by (auto simp: applyMutableIdentifierPolicy_def Let_def filter_empty_conv)

context ingress_matching
begin

text \<open>Every matched id is that of an entry that grants, or comes with a fact that grants.\<close>

lemma resolved_ids:
  fixes input :: state_input
  assumes "in_adapter input = adapter" and i: "i \<in> set (al_matchedEntryIds (resolveIngressAllowlist input raw c))"
  shows "(\<exists>e \<in> listEntries input c raw. ne_opaqueEntryId e = i \<and> grants (in_subject input) e c) \<or>
     (\<exists>g \<in> set (referencedAccessGroups (normalizeStringEntries (orNoEntries raw))). factGranted input g)"
proof -
  let ?es = "normalizeStringEntries (orNoEntries raw)"
  note ids = normalized_ids [OF assms(1)]
  from i consider
    (direct) "i \<in> set (mt_ids (mo_match (normalizeAndMatch (in_adapter input) (in_subject input)
        (in_accountId input) (directAllowlistEntries ?es) c)))"
  | (via_group) g m where "g \<in> set (referencedAccessGroups ?es)" "m \<in> set (groupMatches input c g)" "i \<in> set (mt_ids m)"
    by (auto simp: resolveIngressAllowlist_def Let_def mergeMatches_def resolveAccessGroupEntries_fields)
  then show ?thesis
  proof cases
    case direct
    from ids [OF this] assms(1) show ?thesis
      by (auto simp: listEntries_def reachedEntries_def Let_def)
  next
    case via_group
    show ?thesis
    proof (cases "factGranted input g")
      case True
      with via_group(1) show ?thesis by blast
    next
      case False
      with via_group(2) have no_fact: "jm_get (accessGroupFactByName (in_accessGroupMembership input)) g = None"
        and "m = mo_match (groupResolved input c g)"
        by (auto simp: groupMatches_def factGranted_def split: option.splits membership_fact.splits if_splits)
      with via_group(3) ids [of i "groupSenderEntries g input" c] assms(1) via_group(1) show ?thesis
        by (auto simp: groupResolved_def listEntries_def reachedEntries_def Let_def)
    qed
  qed
qed

text \<open>
  An allowlist is backed by lists when its entries cover those the lists reach, and its matches come
  from what the lists grant.  Merging keeps this, and under the policy on mutable identifiers what is
  left of a match is a grant by usable entries.
\<close>

definition backed :: "state_input \<Rightarrow> resolved_allowlist \<Rightarrow> (ingress_context \<times> allow_entry list option) set \<Rightarrow> bool" where
  "backed input a L \<longleftrightarrow>
     (\<forall>(c, raw) \<in> L. red_entry.truncate ` listEntries input c raw \<subseteq> set (al_normalizedEntries a)) \<and>
     (\<forall>i \<in> set (al_matchedEntryIds a). \<exists>(c, raw) \<in> L. grantsId grants input c raw i) \<and>
     (mt_matched (al_match a) \<longrightarrow> (\<exists>(c, raw) \<in> L. listGrants grants (\<lambda>_. True) input c raw))"

lemma backed_resolve:
  assumes "in_adapter input = adapter"
  shows "backed input (resolveIngressAllowlist input raw c) {(c, raw)}"
  using resolved_ids [OF assms] resolve_matched_iff [OF assms]
  by (simp add: backed_def resolved_entries grantsId_def)

lemma backedI:
  assumes "\<And>c raw e. (c, raw) \<in> L \<Longrightarrow> e \<in> listEntries input c raw \<Longrightarrow>
      red_entry.truncate e \<in> set (al_normalizedEntries a)"
    and "\<And>i. i \<in> set (al_matchedEntryIds a) \<Longrightarrow> \<exists>c raw. (c, raw) \<in> L \<and> grantsId grants input c raw i"
    and "mt_matched (al_match a) \<Longrightarrow> \<exists>c raw. (c, raw) \<in> L \<and> listGrants grants (\<lambda>_. True) input c raw"
  shows "backed input a L"
  using assms unfolding backed_def by blast

lemma backedD:
  assumes "backed input a L"
  shows "(c, raw) \<in> L \<Longrightarrow> e \<in> listEntries input c raw \<Longrightarrow>
      red_entry.truncate e \<in> set (al_normalizedEntries a)"
    and "i \<in> set (al_matchedEntryIds a) \<Longrightarrow> \<exists>c raw. (c, raw) \<in> L \<and> grantsId grants input c raw i"
    and "mt_matched (al_match a) \<Longrightarrow> \<exists>c raw. (c, raw) \<in> L \<and> listGrants grants (\<lambda>_. True) input c raw"
  using assms unfolding backed_def by blast+

lemma backed_merge:
  assumes a: "backed input a L" and b: "backed input b M"
  shows "backed input (mergeResolvedAllowlists [a, b]) (L \<union> M)"
proof (rule backedI)
  fix c raw e
  assume "(c, raw) \<in> L \<union> M" "e \<in> listEntries input c raw"
  then show "red_entry.truncate e \<in> set (al_normalizedEntries (mergeResolvedAllowlists [a, b]))"
    using backedD(1) [OF a] backedD(1) [OF b] by (auto simp: mergeResolvedAllowlists_def Let_def)
next
  fix i
  assume "i \<in> set (al_matchedEntryIds (mergeResolvedAllowlists [a, b]))"
  then have "i \<in> set (al_matchedEntryIds a) \<or> i \<in> set (al_matchedEntryIds b)"
    by (auto simp: mergeResolvedAllowlists_def Let_def)
  then show "\<exists>c raw. (c, raw) \<in> L \<union> M \<and> grantsId grants input c raw i"
    using backedD(2) [OF a] backedD(2) [OF b] by blast
next
  assume "mt_matched (al_match (mergeResolvedAllowlists [a, b]))"
  then have "mt_matched (al_match a) \<or> mt_matched (al_match b) \<or>
      al_matchedEntryIds a \<noteq> [] \<or> al_matchedEntryIds b \<noteq> []"
    by (auto simp: mergeResolvedAllowlists_def Let_def)
  then show "\<exists>c raw. (c, raw) \<in> L \<union> M \<and> listGrants grants (\<lambda>_. True) input c raw"
    unfolding ex_member [symmetric]
    using backedD(2,3) [OF a] backedD(2,3) [OF b] grantsId_listGrants by blast
qed

lemma backed_sound:
  assumes "backed input a L" and m: "mt_matched (al_match (applyMutableIdentifierPolicy a policy))"
  shows "\<exists>(c, raw) \<in> L. listGrants grants (usableEntry policy) input c raw"
proof (cases "po_mutableIdentifierMatching policy = Some MutableEnabled \<or> filter isDangerous (al_normalizedEntries a) = []")
  case True
  with m assms(1) obtain c raw where L: "(c, raw) \<in> L" "listGrants grants (\<lambda>_. True) input c raw"
    using backedD(3) [OF assms(1)] by (auto simp: mutable_unchanged)
  have "usableEntry policy e" if "e \<in> listEntries input c raw" for e
  proof -
    have "red_entry.truncate e \<in> set (al_normalizedEntries a)"
      by (rule backedD(1) [OF assms(1) L(1) that])
    with True have "po_mutableIdentifierMatching policy = Some MutableEnabled \<or> \<not> isDangerous (red_entry.truncate e)"
      unfolding filter_empty_conv by blast
    then show ?thesis by (simp add: usableEntry_def)
  qed
  with L have "listGrants grants (usableEntry policy) input c raw" by (auto simp: listGrants_reached)
  with L(1) show ?thesis by blast
next
  case False
  with m obtain i where i: "i \<in> set (al_matchedEntryIds a)"
    and safe: "i \<notin> ne_opaqueEntryId ` {e \<in> set (al_normalizedEntries a). isDangerous e}"
    by (auto simp: mutable_changed [OF False])
  from assms(1) i obtain c raw where L: "(c, raw) \<in> L" "grantsId grants input c raw i"
    using backedD(2) [OF assms(1)] by blast
  have "\<not> isDangerous e" if "e \<in> listEntries input c raw" "ne_opaqueEntryId e = i" for e
  proof -
    have "red_entry.truncate e \<in> set (al_normalizedEntries a)"
      by (rule backedD(1) [OF assms(1) L(1) that(1)])
    with safe that(2) have "\<not> isDangerous (red_entry.truncate e)"
      by (metis (mono_tags, lifting) id_truncate image_eqI mem_Collect_eq)
    then show ?thesis by simp
  qed
  with L(2) have "listGrants grants (usableEntry policy) input c raw"
    by (auto simp: grantsId_def listGrants_reached usableEntry_def)
  with L(1) show ?thesis by blast
qed

text \<open>The routes that apply replace the sources of senders or add to them.\<close>

lemma backed_routes:
  assumes "in_adapter input = adapter"
  shows "backed input a L \<Longrightarrow>
    backed input (routeSenderLists a (map (resolveRoute input) routes)) (senderSources input L routes)"
proof (induction routes arbitrary: a L)
  case Nil
  then show ?case by simp
next
  case (Cons r routes)
  show ?case
  proof (cases "routeSenderEntries input r")
    case None
    with Cons show ?thesis by (simp add: resolveRoute_def)
  next
    case (Some xs)
    note new = backed_resolve [OF assms, of "Some xs" CtxRoute]
    from Some show ?thesis
      using Cons.IH [OF Cons.prems] Cons.IH [OF new] Cons.IH [OF backed_merge [OF Cons.prems new]]
      by (simp add: resolveRoute_def)
  qed
qed

end

section \<open>The adapters of channels\<close>

definition identityGrants :: "identity_descriptor \<Rightarrow> grant_relation" where
  "identityGrants identity s e c = entryMatches identity s e c"

interpretation identity: ingress_matching "createIdentityAdapter identity" "identityGrants identity" for identity
  by unfold_locales
     (auto simp: createIdentityAdapter_def identityMatchSubject_def identityGrants_def Let_def filter_empty_conv)

end
