(* ===== verification/IngressOutcome.thy ===== *)
theory IngressOutcome
  imports IngressSpec
begin

text \<open>
  The decision of the ingress kernel against a reference: a list of conditions in order of priority,
  each with the outcome it has when it fails.  From it follow the conditions under which an event is
  dispatched, the invariant of the graph of gates, and the guarantee of the resolver.
\<close>

section \<open>Reference\<close>

definition senderAdmitted :: "ingress_state \<Rightarrow> ingress_policy \<Rightarrow> bool" where
  "senderAdmitted state policy \<longleftrightarrow>
     (let matched = (\<lambda>a. mt_matched (al_match (applyMutableIdentifierPolicy a policy)));
          lists = st_allowlists state
      in if st_conversationKind state = ChatDirect then
           (case po_dmPolicy policy of
              DmDisabled \<Rightarrow> False
            | DmOpen \<Rightarrow> al_hasWildcard (sl_dm lists) \<or> matched (sl_dm lists)
            | DmAllowlist \<Rightarrow> matched (sl_dm lists)
            | DmPairing \<Rightarrow> matched (sl_dm lists) \<or> matched (sl_pairingStore lists))
         else
           (case po_groupPolicy policy of
              GroupDisabled \<Rightarrow> False
            | GroupOpen \<Rightarrow> True
            | GroupAllowlist \<Rightarrow>
                al_hasConfiguredEntries (effectiveGroupSenderAllowlist state policy) \<and>
                mt_matched (al_match (effectiveGroupSenderAllowlist state policy))))"

definition offersPairing :: "ingress_state \<Rightarrow> ingress_policy \<Rightarrow> bool" where
  "offersPairing state policy \<longleftrightarrow>
     st_conversationKind state = ChatDirect \<and> po_dmPolicy policy = DmPairing \<and> ev_mayPair (st_event state)"

definition senderRefusal :: "ingress_state \<Rightarrow> ingress_policy \<Rightarrow> reason_code" where
  "senderRefusal state policy =
     (let because = (\<lambda>a default. case allowlistFailureReason a of Some r \<Rightarrow> r | None \<Rightarrow> default)
      in if st_conversationKind state = ChatDirect then
           (case po_dmPolicy policy of
              DmDisabled \<Rightarrow> DmPolicyDisabled
            | DmOpen \<Rightarrow> DmPolicyNotAllowlisted
            | DmPairing \<Rightarrow> if ev_mayPair (st_event state) then DmPolicyPairingRequired else EventPairingNotAllowed
            | DmAllowlist \<Rightarrow> because (sl_dm (st_allowlists state)) DmPolicyNotAllowlisted)
         else if po_groupPolicy policy = GroupDisabled then GroupPolicyDisabled
         else if \<not> al_hasConfiguredEntries (effectiveGroupSenderAllowlist state policy)
         then GroupPolicyEmptyAllowlist
         else because (effectiveGroupSenderAllowlist state policy) GroupPolicyNotAllowlisted)"

definition commandAuthorised :: "ingress_state \<Rightarrow> ingress_policy \<Rightarrow> bool" where
  "commandAuthorised state policy \<longleftrightarrow>
     (case po_command policy of
        None \<Rightarrow> True
      | Some c \<Rightarrow>
          (let owner = applyMutableIdentifierPolicy (sl_commandOwner (st_allowlists state)) policy;
               others = applyMutableIdentifierPolicy (sl_commandGroup (st_allowlists state)) policy;
               listed = (\<lambda>a. al_hasConfiguredEntries a \<and> mt_matched (al_match a));
               off = (cp_useAccessGroups c = Some False)
           in if off \<and> cp_modeWhenAccessGroupsOff c \<in> {None, Some OffAllow} then True
              else if off \<and> cp_modeWhenAccessGroupsOff c = Some OffDeny then False
              else off \<and> \<not> al_hasConfiguredEntries owner \<and> \<not> al_hasConfiguredEntries others \<or>
                   listed owner \<or> listed others))"

definition controlCommandBlocked :: "ingress_state \<Rightarrow> ingress_policy \<Rightarrow> bool" where
  "controlCommandBlocked state policy \<longleftrightarrow>
     (case po_command policy of
        None \<Rightarrow> False
      | Some c \<Rightarrow> cp_allowTextCommands c \<and> cp_hasControlCommand c \<and> \<not> commandAuthorised state policy)"

definition mentionMissed :: "ingress_state \<Rightarrow> ingress_policy \<Rightarrow> bool" where
  "mentionMissed state policy \<longleftrightarrow>
     (case (po_activation policy, st_mentionFacts state) of
        (Some a, Some f) \<Rightarrow>
          ap_requireMention a \<and> mf_canDetectMention f \<and> \<not> mf_wasMentioned f \<and>
          (\<forall>k \<in> set (orNoEntries (mf_implicitMentionKinds f)).
             case ap_allowedImplicitMentionKinds a of None \<Rightarrow> False | Some ks \<Rightarrow> k \<notin> set ks) \<and>
          \<not> (st_conversationKind state \<noteq> ChatDirect \<and> mf_hasAnyMention f \<noteq> Some True \<and>
             ap_allowTextCommands a \<and> commandAuthorised state policy \<and>
             (case po_command policy of None \<Rightarrow> False | Some c \<Rightarrow> cp_hasControlCommand c))
      | _ \<Rightarrow> False)"

definition quietsBeforeSender :: "ingress_policy \<Rightarrow> bool" where
  "quietsBeforeSender policy \<longleftrightarrow>
     (case po_activation policy of
        None \<Rightarrow> False | Some a \<Rightarrow> ap_order a = Some BeforeSender \<and> \<not> ap_allowTextCommands a)"

text \<open>The conditions, with the outcome and the reason each has when it fails.\<close>

definition ingressChecks :: "ingress_state \<Rightarrow> ingress_policy \<Rightarrow> (bool \<times> admission \<times> reason_code) list" where
  "ingressChecks state policy =
     (let event = st_event state; mode = ev_authMode event
      in [(\<forall>r \<in> set (st_routeFacts state). rf_effect r \<noteq> RouteBlock, Drop, RouteBlocked),
          (\<forall>r \<in> set (st_routeFacts state). \<not> emptySenderRoute r, Drop, RouteSenderEmpty),
          (\<not> (quietsBeforeSender policy \<and> mentionMissed state policy), Skip, ActivationSkipped),
          (mode = AuthInbound \<longrightarrow> senderAdmitted state policy,
             if offersPairing state policy then PairingRequired else Drop, senderRefusal state policy),
          (\<not> controlCommandBlocked state policy, Drop, ControlCommandUnauthorized),
          (mode = AuthCommand \<longrightarrow> commandAuthorised state policy, Drop, EventUnauthorized),
          (mode = AuthOriginSubject \<longrightarrow> ev_hasOriginSubject event, Drop, OriginSubjectMissing),
          (mode = AuthOriginSubject \<longrightarrow> ev_originSubjectMatched event, Drop, OriginSubjectNotMatched),
          (\<not> mentionMissed state policy, Skip, ActivationSkipped)])"

definition referenceOutcome :: "ingress_state \<Rightarrow> ingress_policy \<Rightarrow> admission \<times> reason_code" where
  "referenceOutcome state policy =
     (case find (\<lambda>(ok, _). \<not> ok) (ingressChecks state policy) of
        None \<Rightarrow> (Dispatch, ActivationAllowed)
      | Some (_, outcome) \<Rightarrow> outcome)"

section \<open>The gates against their conditions\<close>

lemma mutable_kept [simp]:
  "al_hasWildcard (applyMutableIdentifierPolicy a policy) = al_hasWildcard a"
  "al_hasConfiguredEntries (applyMutableIdentifierPolicy a policy) = al_hasConfiguredEntries a"
  "al_accessGroups (applyMutableIdentifierPolicy a policy) = al_accessGroups a"
  by (simp_all add: applyMutableIdentifierPolicy_def Let_def)

lemma failureReason_mutable [simp]:
  "allowlistFailureReason (applyMutableIdentifierPolicy a policy) = allowlistFailureReason a"
  by (simp add: allowlistFailureReason_def)

lemma senderGate_simps [simp]:
  "g_id (senderGate i k e ok r m p a) = i" "g_phase (senderGate i k e ok r m p a) = PhaseSender"
  "g_kind (senderGate i k e ok r m p a) = k" "g_effect (senderGate i k e ok r m p a) = e"
  "g_allowed (senderGate i k e ok r m p a) = ok" "g_reasonCode (senderGate i k e ok r m p a) = r"
  by (simp_all add: senderGate_def)

definition rawSenderGate :: "ingress_state \<Rightarrow> ingress_policy \<Rightarrow> access_gate" where
  "rawSenderGate state policy =
     (if st_conversationKind state = ChatDirect then senderGateForDirect state policy
      else senderGateForGroup state policy)"

lemma rawSenderGate_spec:
  "g_allowed (rawSenderGate state policy) = senderAdmitted state policy"
  "g_effect (rawSenderGate state policy) = (if senderAdmitted state policy then EffAllow else EffBlockDispatch)"
  "\<not> senderAdmitted state policy \<Longrightarrow> g_reasonCode (rawSenderGate state policy) = senderRefusal state policy"
  "g_phase (rawSenderGate state policy) = PhaseSender"
  by (cases "st_conversationKind state = ChatDirect"; cases "po_dmPolicy policy"; cases "po_groupPolicy policy";
      simp add: rawSenderGate_def senderGateForDirect_def senderGateForGroup_def senderAdmitted_def
        senderRefusal_def Let_def)+

lemma eventModeSender_spec:
  defines "inbound \<equiv> \<lambda>state. ev_authMode (st_event state) = AuthInbound"
  shows "g_allowed (eventModeSender state policy) \<longleftrightarrow> (inbound state \<longrightarrow> senderAdmitted state policy)"
    and "g_effect (eventModeSender state policy) =
      (if senderAdmitted state policy then EffAllow else if inbound state then EffBlockDispatch else EffIgnore)"
    and "inbound state \<Longrightarrow> \<not> senderAdmitted state policy \<Longrightarrow>
      g_reasonCode (eventModeSender state policy) = senderRefusal state policy"
    and "g_phase (eventModeSender state policy) = PhaseSender"
  using rawSenderGate_spec [of state policy]
  by (auto simp: eventModeSender_def applyEventAuthModeToSenderGate_def inbound_def rawSenderGate_def [symmetric])

lemma failureReason_not_pairing: "allowlistFailureReason a \<noteq> Some DmPolicyPairingRequired"
  by (simp add: allowlistFailureReason_def)

lemma senderRefusal_pairing:
  "senderRefusal state policy = DmPolicyPairingRequired \<longleftrightarrow> offersPairing state policy"
  by (auto simp: senderRefusal_def offersPairing_def Let_def failureReason_not_pairing
      split: dm_policy.splits option.splits)

lemma commandGate_spec:
  "g_allowed (commandGate state policy) = commandAuthorised state policy"
  "g_effect (commandGate state policy) =
     (if controlCommandBlocked state policy then EffBlockCommand else EffAllow)"
  "controlCommandBlocked state policy \<Longrightarrow> g_reasonCode (commandGate state policy) = ControlCommandUnauthorized"
  "g_phase (commandGate state policy) = PhaseCommand"
  by (auto simp: commandGate_def commandAuthorised_def controlCommandBlocked_def Let_def
      command_authorized_iff split: option.splits bool.splits)


lemma eventResult_simps [simp]:
  "g_allowed (eventResult state ok r) = ok" "g_reasonCode (eventResult state ok r) = r"
  "g_phase (eventResult state ok r) = PhaseEvent"
  "g_effect (eventResult state ok r) = (if ok then EffAllow else EffBlockDispatch)"
  by (simp_all add: eventResult_def)

lemma eventGate_allowed:
  "g_allowed (eventGate state s c) \<longleftrightarrow>
     (case ev_authMode (st_event state) of
        AuthInbound \<Rightarrow> g_allowed s
      | AuthCommand \<Rightarrow> g_allowed c
      | AuthOriginSubject \<Rightarrow> ev_hasOriginSubject (st_event state) \<and> ev_originSubjectMatched (st_event state)
      | _ \<Rightarrow> True)"
  by (auto simp: eventGate_def Let_def split: auth_mode.split)

lemma eventGate_spec:
  "g_effect (eventGate state s c) = (if g_allowed (eventGate state s c) then EffAllow else EffBlockDispatch)"
  "\<not> g_allowed (eventGate state s c) \<Longrightarrow> g_reasonCode (eventGate state s c) =
     (if ev_authMode (st_event state) = AuthOriginSubject
      then if \<not> ev_hasOriginSubject (st_event state) then OriginSubjectMissing else OriginSubjectNotMatched
      else EventUnauthorized)"
  "g_phase (eventGate state s c) = PhaseEvent"
  by (cases "ev_authMode (st_event state)"; simp add: eventGate_def Let_def split: if_splits)+

lemma activationResult_spec:
  "g_effect (activationResult a f skip e b) = (if skip then EffSkip else EffAllow)"
  "g_reasonCode (activationResult a f skip e b) = (if skip then ActivationSkipped else ActivationAllowed)"
  "g_phase (activationResult a f skip e b) = PhaseActivation"
  by (simp_all add: activationResult_def)

lemma activationGate_skips:
  assumes "g_allowed cmd = commandAuthorised state policy \<or> quietsBeforeSender policy"
  shows "\<exists>e b. activationGate state policy cmd =
    activationResult (po_activation policy) (st_mentionFacts state) (mentionMissed state policy) e b"
proof (cases "po_activation policy")
  case None
  then show ?thesis by (auto simp: activationGate_def mentionMissed_def)
next
  case (Some a)
  show ?thesis
  proof (cases "st_mentionFacts state")
    case None
    with Some show ?thesis by (auto simp: activationGate_def mentionMissed_def)
  next
    case facts: (Some f)
    let ?d = "resolveInboundMentionDecision (NestedMention f
      \<lparr>mp_isGroup = (st_conversationKind state \<noteq> ChatDirect), mp_requireMention = ap_requireMention a,
       mp_allowedImplicitMentionKinds = ap_allowedImplicitMentionKinds a,
       mp_allowTextCommands = ap_allowTextCommands a,
       mp_hasControlCommand = (case po_command policy of None \<Rightarrow> False | Some c \<Rightarrow> cp_hasControlCommand c),
       mp_commandAuthorized = g_allowed cmd\<rparr>)"
    from assms Some facts have "md_shouldSkip ?d = mentionMissed state policy"
      unfolding mention_skip_iff by (auto simp: mentionMissed_def quietsBeforeSender_def)
    moreover have "activationGate state policy cmd =
        activationResult (po_activation policy) (st_mentionFacts state) (md_shouldSkip ?d)
          (Some (md_effectiveWasMentioned ?d)) (Some (md_shouldBypassMention ?d))"
      by (simp add: activationGate_def Some facts Let_def)
    ultimately have "activationGate state policy cmd =
        activationResult (po_activation policy) (st_mentionFacts state) (mentionMissed state policy)
          (Some (md_effectiveWasMentioned ?d)) (Some (md_shouldBypassMention ?d))"
      by (simp only:)
    then show ?thesis by (intro exI)
  qed
qed

lemma activationGate_spec:
  assumes "g_allowed cmd = commandAuthorised state policy \<or> quietsBeforeSender policy"
  shows "g_effect (activationGate state policy cmd) =
      (if mentionMissed state policy then EffSkip else EffAllow)"
    and "g_reasonCode (activationGate state policy cmd) =
      (if mentionMissed state policy then ActivationSkipped else ActivationAllowed)"
    and "g_phase (activationGate state policy cmd) = PhaseActivation"
  using activationGate_skips [OF assms] by (auto simp: activationResult_spec)

lemma activationBeforeSender_eq:
  "activationBeforeSender state policy =
     (if quietsBeforeSender policy
      then Some (activationGate state policy (commandGate state (policy\<lparr>po_command := None\<rparr>))) else None)"
  by (simp add: activationBeforeSender_def quietsBeforeSender_def split: option.splits)

lemma find_None_all: "find P xs = None \<longleftrightarrow> (\<forall>x \<in> set xs. \<not> P x)"
  by (auto simp: find_None_iff)

lemma routeGate_simps [simp]:
  "g_effect (routeGate r) = gateEffectOf (rf_effect r)"
  "g_phase (routeGate r) = PhaseRoute"
  "g_reasonCode (routeGate r) = (if rf_effect r = RouteBlock then RouteBlocked else Allowed)"
  by (simp_all add: routeGate_def)

lemma gateEffectOf_simps [simp]:
  "gateEffectOf e = EffBlockDispatch \<longleftrightarrow> e = RouteBlock"
  "gateEffectOf e \<noteq> EffSkip" "gateEffectOf e \<noteq> EffBlockCommand" "gateEffectOf e \<noteq> EffObserve"
  by (cases e; simp add: gateEffectOf_def)+

definition openingGates :: "ingress_state \<Rightarrow> access_gate list" where
  "openingGates state =
     routeGates state @ (case routeSenderEmptyGate state of None \<Rightarrow> [] | Some g \<Rightarrow> [g])"

definition isBlock :: "access_gate \<Rightarrow> bool" where
  "isBlock g \<longleftrightarrow> g_effect g = EffBlockDispatch"

lemma routeSenderEmptyGate_spec:
  "routeSenderEmptyGate state = None \<longleftrightarrow> (\<forall>r \<in> set (st_routeFacts state). \<not> emptySenderRoute r)"
  "routeSenderEmptyGate state = Some g \<Longrightarrow>
     isBlock g \<and> g_reasonCode g = RouteSenderEmpty \<and> g_phase g = PhaseRoute"
  by (auto simp: routeSenderEmptyGate_def find_None_all isBlock_def)

lemma opening_block:
  "find isBlock (openingGates state) = None \<longleftrightarrow>
     (\<forall>r \<in> set (st_routeFacts state). rf_effect r \<noteq> RouteBlock) \<and>
     (\<forall>r \<in> set (st_routeFacts state). \<not> emptySenderRoute r)"
proof -
  have "(\<forall>g \<in> set (openingGates state). \<not> isBlock g) \<longleftrightarrow>
      (\<forall>r \<in> set (st_routeFacts state). rf_effect r \<noteq> RouteBlock) \<and> routeSenderEmptyGate state = None"
    using routeSenderEmptyGate_spec(2) [of state]
    by (cases "routeSenderEmptyGate state") (auto simp: openingGates_def routeGates_def isBlock_def)
  then show ?thesis by (simp add: find_None_all routeSenderEmptyGate_spec(1))
qed

lemma find_append: "find P (xs @ ys) = (case find P xs of None \<Rightarrow> find P ys | Some x \<Rightarrow> Some x)"
  by (induction xs) auto

lemma opening_block_reason:
  assumes "find isBlock (openingGates state) = Some g"
  shows "g_reasonCode g =
      (if \<exists>r \<in> set (st_routeFacts state). rf_effect r = RouteBlock then RouteBlocked else RouteSenderEmpty)"
proof (cases "find isBlock (routeGates state)")
  case None
  then have "\<not> (\<exists>r \<in> set (st_routeFacts state). rf_effect r = RouteBlock)"
    by (auto simp: find_None_all routeGates_def isBlock_def)
  moreover from assms None obtain h where "routeSenderEmptyGate state = Some h" "g = h"
    by (auto simp: openingGates_def find_append split: option.splits if_splits)
  ultimately show ?thesis using routeSenderEmptyGate_spec(2) [of state] by auto
next
  case (Some h)
  with assms have "g = h" by (simp add: openingGates_def find_append)
  from Some have "h \<in> set (routeGates state)" "isBlock h"
    by (auto simp: find_Some_iff)
  then show ?thesis by (auto simp: \<open>g = h\<close> routeGates_def isBlock_def)
qed

lemma isBlock_eq: "(\<lambda>g. g_effect g = EffBlockDispatch) = isBlock"
  by (simp add: fun_eq_iff isBlock_def)

text \<open>The decision, stage by stage.\<close>

definition lastGate :: "ingress_state \<Rightarrow> ingress_policy \<Rightarrow> access_gate" where
  "lastGate state policy =
     (case activationBeforeSender state policy of
        Some g \<Rightarrow> g | None \<Rightarrow> activationGate state policy (commandGate state policy))"

definition earlyGates :: "ingress_state \<Rightarrow> ingress_policy \<Rightarrow> access_gate list" where
  "earlyGates state policy =
     openingGates state @ (if quietsBeforeSender policy then [lastGate state policy] else [])"

definition eventStage :: "ingress_state \<Rightarrow> ingress_policy \<Rightarrow> access_gate" where
  "eventStage state policy = eventGate state (eventModeSender state policy) (commandGate state policy)"

lemma lastGate_spec:
  "g_effect (lastGate state policy) = (if mentionMissed state policy then EffSkip else EffAllow)"
  "g_reasonCode (lastGate state policy) =
     (if mentionMissed state policy then ActivationSkipped else ActivationAllowed)"
  "g_phase (lastGate state policy) = PhaseActivation"
  by (simp_all add: lastGate_def activationBeforeSender_eq activationGate_spec commandGate_spec)

lemma decision_stages:
  "decideChannelIngress state policy =
     (case find isBlock (openingGates state) of
        Some g \<Rightarrow> decisiveDecision Drop VerdictBlock g (openingGates state)
      | None \<Rightarrow>
     (let S = eventModeSender state policy; C = commandGate state policy; E = eventStage state policy;
          A = lastGate state policy; G = earlyGates state policy
      in if quietsBeforeSender policy \<and> mentionMissed state policy then decisiveDecision Skip VerdictAllow A G
         else if \<not> g_allowed S then
           decisiveDecision (if offersPairing state policy then PairingRequired else Drop)
             (if offersPairing state policy then VerdictPairing else VerdictBlock) S (G @ [S])
         else if controlCommandBlocked state policy then decisiveDecision Drop VerdictBlock C (G @ [S, C])
         else if \<not> g_allowed E then decisiveDecision Drop VerdictBlock E (G @ [S, C, E])
         else decisiveDecision (if mentionMissed state policy then Skip else Dispatch) VerdictAllow A
                (G @ [S, C, E] @ (if quietsBeforeSender policy then [] else [A]))))"
proof (cases "find isBlock (openingGates state)")
  case (Some g)
  then show ?thesis
    by (simp add: decideChannelIngress_def openingGates_def [symmetric] isBlock_eq)
next
  case None
  have refused: "g_reasonCode (eventModeSender state policy) = DmPolicyPairingRequired \<longleftrightarrow> offersPairing state policy"
    if "\<not> g_allowed (eventModeSender state policy)"
    using that eventModeSender_spec(3) [of state policy] by (auto simp: eventModeSender_spec(1) senderRefusal_pairing)
  from None show ?thesis
    by (cases "quietsBeforeSender policy"; cases "mentionMissed state policy")
       (simp_all add: decideChannelIngress_def openingGates_def [symmetric] isBlock_eq Let_def
          activationBeforeSender_eq lastGate_def earlyGates_def eventStage_def refused activationGate_spec
          commandGate_spec)
qed

lemma decisiveDecision_simps [simp]:
  "de_admission (decisiveDecision a v g gs) = a" "de_decision (decisiveDecision a v g gs) = v"
  "de_decisiveGateId (decisiveDecision a v g gs) = g_id g"
  "de_reasonCode (decisiveDecision a v g gs) = g_reasonCode g"
  "de_gates (decisiveDecision a v g gs) = gs"
  by (simp_all add: decisiveDecision_def)

lemma eventStage_allowed:
  "g_allowed (eventModeSender state policy) \<Longrightarrow> g_allowed (eventStage state policy) \<longleftrightarrow>
     (ev_authMode (st_event state) = AuthCommand \<longrightarrow> commandAuthorised state policy) \<and>
     (ev_authMode (st_event state) = AuthOriginSubject \<longrightarrow>
        ev_hasOriginSubject (st_event state) \<and> ev_originSubjectMatched (st_event state))"
  by (auto simp: eventStage_def eventGate_allowed commandGate_spec split: auth_mode.split)

lemma eventStage_reason:
  "\<not> g_allowed (eventStage state policy) \<Longrightarrow> g_reasonCode (eventStage state policy) =
     (if ev_authMode (st_event state) = AuthOriginSubject
      then if \<not> ev_hasOriginSubject (st_event state) then OriginSubjectMissing else OriginSubjectNotMatched
      else EventUnauthorized)"
  unfolding eventStage_def by (rule eventGate_spec)

section \<open>What is decided\<close>

lemma outcome_reference:
  "(de_admission (decideChannelIngress state policy), de_reasonCode (decideChannelIngress state policy)) =
     referenceOutcome state policy"
proof (cases "find isBlock (openingGates state)")
  case (Some g)
  then have "\<not> ((\<forall>r \<in> set (st_routeFacts state). rf_effect r \<noteq> RouteBlock) \<and>
      (\<forall>r \<in> set (st_routeFacts state). \<not> emptySenderRoute r))"
    using opening_block [of state] by simp
  with Some opening_block_reason [OF Some] show ?thesis
    by (auto simp: decision_stages referenceOutcome_def ingressChecks_def Let_def)
next
  case None
  then have routes: "\<forall>r \<in> set (st_routeFacts state). rf_effect r \<noteq> RouteBlock"
      "\<forall>r \<in> set (st_routeFacts state). \<not> emptySenderRoute r"
    using opening_block [of state] by simp_all
  have refusal: "g_reasonCode (eventModeSender state policy) = senderRefusal state policy"
    if "\<not> g_allowed (eventModeSender state policy)"
    using that eventModeSender_spec(3) [of state policy] by (simp add: eventModeSender_spec(1))
  show ?thesis
  proof (cases "g_allowed (eventModeSender state policy)")
    case False
    then show ?thesis
      by (auto simp: decision_stages None routes referenceOutcome_def ingressChecks_def Let_def refusal
          lastGate_spec eventModeSender_spec(1))
  next
    case True
    have "ev_authMode (st_event state) = AuthInbound \<longrightarrow> senderAdmitted state policy"
      using True by (simp add: eventModeSender_spec(1))
    with True show ?thesis
      by (auto simp: decision_stages None routes referenceOutcome_def ingressChecks_def Let_def
          lastGate_spec eventStage_allowed commandGate_spec eventGate_spec eventStage_def [symmetric]
          eventStage_reason)
  qed
qed

definition verdictOf :: "admission \<Rightarrow> access_verdict" where
  "verdictOf a =
     (case a of Dispatch \<Rightarrow> VerdictAllow | Observe \<Rightarrow> VerdictAllow | Skip \<Rightarrow> VerdictAllow
      | Drop \<Rightarrow> VerdictBlock | PairingRequired \<Rightarrow> VerdictPairing)"

lemma outcome_verdict:
  "de_decision (decideChannelIngress state policy) = verdictOf (de_admission (decideChannelIngress state policy))"
  by (auto simp: decision_stages verdictOf_def Let_def split: option.splits)

text \<open>C7. The kernel decides by the first condition that fails, in the order: route blocks, routes that
  deny without senders, a missed mention when the policy quiets before the sender gate, the sender, the
  control command, the event's own authorisation, a missed mention.  The admission, the reason code
  and the verdict are those of that condition, and an event is dispatched when none fails.
\<close>

theorem ingress_first_failing_check:
  "(de_admission (decideChannelIngress state policy), de_reasonCode (decideChannelIngress state policy)) =
     referenceOutcome state policy \<and>
   de_decision (decideChannelIngress state policy) = verdictOf (fst (referenceOutcome state policy))"
  using outcome_reference [of state policy] outcome_verdict [of state policy] by (metis fst_conv)

lemma dispatch_iff:
  "de_admission (decideChannelIngress state policy) = Dispatch \<longleftrightarrow>
     (\<forall>(ok, _) \<in> set (ingressChecks state policy). ok)"
proof -
  have no_dispatch: "(False, Dispatch, r) \<notin> set (ingressChecks state policy)" for r
    by (auto simp: ingressChecks_def Let_def)
  have "de_admission (decideChannelIngress state policy) = fst (referenceOutcome state policy)"
    using outcome_reference [of state policy] by (metis fst_conv)
  also have "\<dots> = Dispatch \<longleftrightarrow> find (\<lambda>(ok, _). \<not> ok) (ingressChecks state policy) = None"
    using no_dispatch by (fastforce simp: referenceOutcome_def find_Some_iff split: option.splits dest: nth_mem)
  also have "\<dots> \<longleftrightarrow> (\<forall>(ok, _) \<in> set (ingressChecks state policy). ok)"
    by (auto simp: find_None_all)
  finally show ?thesis .
qed

lemma dispatch_conditions:
  assumes "de_admission (decideChannelIngress state policy) = Dispatch"
  shows "ev_authMode (st_event state) = AuthInbound \<Longrightarrow> senderAdmitted state policy"
    and "\<forall>r \<in> set (st_routeFacts state). rf_effect r \<noteq> RouteBlock \<and> \<not> emptySenderRoute r"
    and "\<not> controlCommandBlocked state policy"
  using assms unfolding dispatch_iff by (auto simp: ingressChecks_def Let_def)

definition stops :: "access_gate \<Rightarrow> bool" where
  "stops g \<longleftrightarrow> g_effect g = EffBlockDispatch \<or> g_effect g = EffBlockCommand \<or> g_effect g = EffSkip"

lemma openingGates_phase: "g \<in> set (openingGates state) \<Longrightarrow> g_phase g = PhaseRoute"
  using routeSenderEmptyGate_spec(2) [of state]
  by (auto simp: openingGates_def routeGates_def split: option.splits)

lemma openingGates_stop:
  "find isBlock (openingGates state) = None \<Longrightarrow> g \<in> set (openingGates state) \<Longrightarrow> \<not> stops g"
  using routeSenderEmptyGate_spec(2) [of state]
  by (cases "routeSenderEmptyGate state")
     (auto simp: find_None_all isBlock_def stops_def openingGates_def routeGates_def)

lemma gates_stop:
  "stops (eventModeSender state policy) \<longleftrightarrow> \<not> g_allowed (eventModeSender state policy)"
  "stops (commandGate state policy) \<longleftrightarrow> controlCommandBlocked state policy"
  "stops (eventStage state policy) \<longleftrightarrow> \<not> g_allowed (eventStage state policy)"
  "stops (lastGate state policy) \<longleftrightarrow> mentionMissed state policy"
  by (simp_all add: stops_def eventModeSender_spec commandGate_spec eventStage_def eventGate_spec lastGate_spec)

lemma gates_phase:
  "g_phase (eventModeSender state policy) = PhaseSender" "g_phase (commandGate state policy) = PhaseCommand"
  "g_phase (eventStage state policy) = PhaseEvent" "g_phase (lastGate state policy) = PhaseActivation"
  by (simp_all add: eventModeSender_spec commandGate_spec eventStage_def eventGate_spec lastGate_spec)

text \<open>C34. The graph of a decision explains it: the decisive gate is in it with the reason that is
  reported, an event is dispatched exactly when no evaluated gate stops it, nothing is evaluated after
  a gate that stops (route gates, which are evaluated together, apart), and when a route stops the
  event no later phase is entered.
\<close>

theorem ingress_graph_explains:
  "let d = decideChannelIngress state policy; gs = de_gates d in
     (\<exists>g \<in> set gs. g_id g = de_decisiveGateId d \<and> g_reasonCode g = de_reasonCode d \<and>
        (de_admission d \<noteq> Dispatch \<longrightarrow> stops g)) \<and>
     (de_admission d = Dispatch \<longleftrightarrow> (\<forall>g \<in> set gs. \<not> stops g)) \<and>
     (\<forall>g \<in> set (butlast gs). stops g \<longrightarrow> g_phase g = PhaseRoute) \<and>
     ((\<exists>g \<in> set gs. g_phase g = PhaseRoute \<and> stops g) \<longrightarrow> (\<forall>g \<in> set gs. g_phase g = PhaseRoute))"
proof (cases "find isBlock (openingGates state)")
  case (Some g)
  then have "g \<in> set (openingGates state)" "stops g"
    by (auto simp: find_Some_iff isBlock_def stops_def)
  with Some show ?thesis
    by (auto simp: decision_stages Let_def openingGates_phase dest: in_set_butlastD)
next
  case None
  note open_stop = openingGates_stop [OF None]
  show ?thesis
    unfolding decision_stages None Let_def option.case
    using open_stop
    by (auto simp: earlyGates_def gates_stop gates_phase butlast_append openingGates_phase
        dest: in_set_butlastD split: if_splits)
qed

section \<open>From the configuration to the decision\<close>

text \<open>The lists a group's senders are looked up in, before the routes: its own, or that of the account.\<close>

definition groupSources :: "state_input \<Rightarrow> ingress_policy \<Rightarrow> (ingress_context \<times> allow_entry list option) set" where
  "groupSources input policy =
     (if po_groupAllowFromFallbackToAllowFrom policy = Some True \<and>
         normalizeStringEntries (orNoEntries (ra_group (in_allowlists input))) = []
      then {(CtxDm, ra_dm (in_allowlists input))} else {(CtxGroup, ra_group (in_allowlists input))})"

definition sortedRoutes :: "(string \<Rightarrow> string \<Rightarrow> int) \<Rightarrow> state_input \<Rightarrow> route_facts list" where
  "sortedRoutes localeCompare input =
     js_toSorted (routeOrder localeCompare) (orNoEntries (in_routeFacts input))"

definition senderGranted ::
  "grant_relation \<Rightarrow> (string \<Rightarrow> string \<Rightarrow> int) \<Rightarrow> state_input \<Rightarrow> ingress_policy \<Rightarrow> bool" where
  "senderGranted grants localeCompare input policy \<longleftrightarrow>
     (let lists = in_allowlists input; granted = listGrants grants (usableEntry policy) input
      in if cv_kind (in_conversation input) = ChatDirect then
           (case po_dmPolicy policy of
              DmDisabled \<Rightarrow> False
            | DmOpen \<Rightarrow> ''*'' \<in> set (normalizeStringEntries (orNoEntries (ra_dm lists))) \<or> granted CtxDm (ra_dm lists)
            | DmAllowlist \<Rightarrow> granted CtxDm (ra_dm lists)
            | DmPairing \<Rightarrow> granted CtxDm (ra_dm lists) \<or> granted CtxDm (ra_pairingStore lists))
         else
           (case po_groupPolicy policy of
              GroupDisabled \<Rightarrow> False
            | GroupOpen \<Rightarrow> True
            | GroupAllowlist \<Rightarrow>
                \<exists>(c, raw) \<in> senderSources input (groupSources input policy) (sortedRoutes localeCompare input).
                  granted c raw))"

lemma wildcard_listed:
  "al_hasWildcard (resolveIngressAllowlist input raw c) \<Longrightarrow> ''*'' \<in> set (normalizeStringEntries (orNoEntries raw))"
  by (simp add: resolveIngressAllowlist_def Let_def directAllowlistEntries_def)

lemma configured_iff:
  "al_hasConfiguredEntries (resolveIngressAllowlist input raw c) \<longleftrightarrow> normalizeStringEntries (orNoEntries raw) \<noteq> []"
  by (simp add: resolveIngressAllowlist_def Let_def)

lemma resolved_state_simps:
  "st_conversationKind (resolveChannelIngressState loc input) = cv_kind (in_conversation input)"
  "ev_authMode (st_event (resolveChannelIngressState loc input)) = ev_authMode (in_event input)"
  "st_routeFacts (resolveChannelIngressState loc input) = map (resolveRoute input) (sortedRoutes loc input)"
  "sl_dm (st_allowlists (resolveChannelIngressState loc input)) =
     resolveIngressAllowlist input (ra_dm (in_allowlists input)) CtxDm"
  "sl_pairingStore (st_allowlists (resolveChannelIngressState loc input)) =
     resolveIngressAllowlist input (ra_pairingStore (in_allowlists input)) CtxDm"
  "sl_group (st_allowlists (resolveChannelIngressState loc input)) =
     resolveIngressAllowlist input (ra_group (in_allowlists input)) CtxGroup"
  by (simp_all add: resolveChannelIngressState_def Let_def resolveRouteFacts_def sortedRoutes_def)

context ingress_matching
begin

lemma backed_group:
  assumes "in_adapter input = adapter"
  shows "backed input (if po_groupAllowFromFallbackToAllowFrom policy = Some True \<and>
        \<not> al_hasConfiguredEntries (resolveIngressAllowlist input (ra_group (in_allowlists input)) CtxGroup)
      then resolveIngressAllowlist input (ra_dm (in_allowlists input)) CtxDm
      else resolveIngressAllowlist input (ra_group (in_allowlists input)) CtxGroup) (groupSources input policy)"
  using backed_resolve [OF assms] by (simp add: groupSources_def configured_iff)

lemma admitted_granted:
  assumes ad: "in_adapter input = adapter"
    and "senderAdmitted (resolveChannelIngressState loc input) policy"
  shows "senderGranted grants loc input policy"
proof -
  note sound = backed_sound [OF backed_resolve [OF ad]]
  have "\<exists>(c, raw) \<in> senderSources input (groupSources input policy) (sortedRoutes loc input).
      listGrants grants (usableEntry policy) input c raw"
    if "mt_matched (al_match (effectiveGroupSenderAllowlist (resolveChannelIngressState loc input) policy))"
    using backed_sound [OF backed_routes [OF ad backed_group [OF ad]]]
      that [unfolded effectiveGroupSenderAllowlist_def Let_def resolved_state_simps]
    by blast
  with assms(2) show ?thesis
    by (auto simp: senderAdmitted_def senderGranted_def resolved_state_simps Let_def
        split: if_splits dm_policy.splits group_policy.splits dest: sound wildcard_listed)
qed

end

lemma kernelInput_simps:
  "in_adapter (kernelInput store params i) = createIdentityAdapter (ip_identity params)"
  "in_event (kernelInput store params i) = ip_event params"
  "in_routeFacts (kernelInput store params i) =
     Some (routeFactsFromDescriptors (ip_route params) @ orNoEntries (ip_routeFacts params))"
  by (simp_all add: kernelInput_def Let_def)

lemma resolvedIngress_simps:
  "ri_state (resolvedIngress loc store params i) = resolveChannelIngressState loc (kernelInput store params i)"
  "ri_ingress (resolvedIngress loc store params i) =
     decideChannelIngress (resolveChannelIngressState loc (kernelInput store params i)) (policyOf params)"
  by (simp_all add: resolvedIngress_def Let_def)

lemma resolve_Inr:
  assumes "resolveChannelMessageIngress loc store params = Inr r"
  shows "r = resolvedIngress loc store params (js_trim (ip_channelId params))"
  using assms by (cases "js_trim (ip_channelId params) = []")
    (simp_all add: resolveChannelMessageIngress_def normalizeChannelId_def Let_def)

lemma routeFact_effect: "rf_effect (routeFact d kind gate effect policy) = effect"
  by (simp add: routeFact_def)

lemma descriptor_blocks:
  "rd_configured d \<noteq> Some False \<Longrightarrow> rd_enabled d = Some False \<or> rd_allowed d = Some False \<Longrightarrow>
     \<exists>f \<in> set (descriptorFacts d). rf_effect f = RouteBlock"
  by (cases "rd_enabled d = Some False")
     (simp_all add: descriptorFacts_def routeFact_effect Let_def)

section \<open>A concrete channel\<close>

definition plainField :: identity_field where
  "plainField = \<lparr>fb_normalize = None, fb_normalizeEntry = None, fb_normalizeSubject = None,
     fb_dangerous = None, fb_sensitivity = None, fi_key = None, fi_kind = None\<rparr>"

definition nameAlias :: identity_alias where
  "nameAlias = \<lparr>fb_normalize = None, fb_normalizeEntry = None, fb_normalizeSubject = None,
     fb_dangerous = Some (DangerFlag True), fb_sensitivity = None, fa_key = ''name'', fa_kind = Some Username\<rparr>"

definition sampleIdentity :: identity_descriptor where
  "sampleIdentity = \<lparr>id_primary = plainField, id_aliases = Some [nameAlias], id_isWildcardEntry = None,
     id_matchEntry = None, id_resolveEntryId = None\<rparr>"

definition samplePolicy :: ingress_policy where
  "samplePolicy = \<lparr>po_dmPolicy = DmAllowlist, po_groupPolicy = GroupAllowlist,
     po_groupAllowFromFallbackToAllowFrom = None, po_mutableIdentifierMatching = None,
     po_activation = None, po_command = None\<rparr>"

definition sampleParams :: "chat_type \<Rightarrow> string \<Rightarrow> ingress_params" where
  "sampleParams kind listed =
     \<lparr>ip_channelId = ''chat'', ip_accountId = ''default'', ip_identity = sampleIdentity,
      ip_subject = \<lparr>sj_stableId = Some (EntText ''u1''), sj_aliases = Some [(''name'', Some (EntText ''ann''))]\<rparr>,
      ip_conversation = \<lparr>cv_kind = kind, cv_id = ''c'', cv_parentId = None, cv_threadId = None, cv_title = None\<rparr>,
      ip_event = \<lparr>ev_kind = EvMessage, ev_authMode = AuthInbound, ev_mayPair = True, ev_originSubject = None\<rparr>,
      ip_policy = samplePolicy, ip_allowFrom = Some [EntText listed], ip_groupAllowFrom = None,
      ip_route = None, ip_routeFacts = None, ip_accessGroups = None, ip_accessGroupMembership = None,
      ip_resolveAccessGroupMembership = None, ip_accessGroupMatchedAllowFromEntry = None,
      ip_providerMissingFallbackApplied = None, ip_mentionFacts = None, ip_readStoreAllowFrom = None,
      ip_useDefaultPairingStore = None, ip_command = None\<rparr>"

definition sampleOutcome :: "ingress_params \<Rightarrow> (admission \<times> reason_code) option" where
  "sampleOutcome params =
     (case resolveChannelMessageIngress cu_compare (\<lambda>_ _. None) params of
        Inl _ \<Rightarrow> None
      | Inr r \<Rightarrow> Some (de_admission (ri_ingress r), de_reasonCode (ri_ingress r)))"

text \<open>The stable id of the sender is accepted, its name is not: names are marked dangerous.\<close>

lemma sample_direct:
  "sampleOutcome (sampleParams ChatDirect '' u1 '') = Some (Dispatch, ActivationAllowed)"
  "sampleOutcome (sampleParams ChatDirect ''ann'') = Some (Drop, DmPolicyNotAllowlisted)"
  by code_simp+

text \<open>
  With the fallback of groups left unset the resolver admits to groups whoever the account's list
  names, although the kernel alone, given an empty group list and no fallback, refuses.
\<close>

lemma unset_fallback_admits_direct_senders:
  "sampleOutcome (sampleParams ChatGroup ''u1'') = Some (Dispatch, ActivationAllowed) \<and>
   sampleOutcome ((sampleParams ChatGroup ''u1'')
     \<lparr>ip_policy := samplePolicy\<lparr>po_groupAllowFromFallbackToAllowFrom := Some False\<rparr>\<rparr>) =
     Some (Drop, GroupPolicyEmptyAllowlist)"
  by code_simp

definition refusedDecision :: ingress_decision where
  "refusedDecision =
     decideChannelIngress
       (resolveChannelIngressState cu_compare (kernelInput (\<lambda>_ _. None) (sampleParams ChatDirect ''ann'') ''chat''))
       (policyOf (sampleParams ChatDirect ''ann''))"

theorem ingress_graph_explains_witness:
  "\<exists>g \<in> set (de_gates refusedDecision). g_reasonCode g = DmPolicyNotAllowlisted \<and> stops g"
proof -
  have d: "de_admission refusedDecision \<noteq> Dispatch" by code_simp
  have r: "de_reasonCode refusedDecision = DmPolicyNotAllowlisted" by code_simp
  have "\<exists>g \<in> set (de_gates refusedDecision). g_id g = de_decisiveGateId refusedDecision \<and>
      g_reasonCode g = de_reasonCode refusedDecision \<and> (de_admission refusedDecision \<noteq> Dispatch \<longrightarrow> stops g)"
    unfolding refusedDecision_def by (rule ingress_graph_explains [unfolded Let_def, THEN conjunct1])
  with d show ?thesis unfolding r by blast
qed

text \<open>C35. A list of the configuration matches a sender, as the kernel resolves it with a channel's
  adapter, exactly when the list grants the sender access: one of its own entries or of the static
  groups it names matches, or it names a group whose membership was established.
\<close>

theorem allowlist_match_refines_grants:
  "mt_matched (al_match (resolveIngressAllowlist (kernelInput pairingStore params channelId) raw c)) \<longleftrightarrow>
     listGrants (identityGrants (ip_identity params)) (\<lambda>_. True)
       (kernelInput pairingStore params channelId) c raw"
  by (rule identity.resolve_matched_iff) (simp add: kernelInput_simps)

lemma pairing_outcome:
  assumes "de_admission (decideChannelIngress state policy) = PairingRequired"
  shows "ev_authMode (st_event state) = AuthInbound \<and> \<not> senderAdmitted state policy \<and> offersPairing state policy"
proof -
  from assms have "fst (referenceOutcome state policy) = PairingRequired"
    using outcome_reference [of state policy] by (metis fst_conv)
  then show ?thesis
    by (auto simp: referenceOutcome_def ingressChecks_def Let_def split: if_splits)
qed

lemma resolved_event:
  "ev_mayPair (st_event (resolveChannelIngressState loc input)) = ev_mayPair (in_event input)"
  by (simp add: resolveChannelIngressState_def Let_def)

lemma kernelInput_conversation:
  "in_conversation (kernelInput store params i) = ip_conversation params"
  by (simp add: kernelInput_def Let_def)

lemma policyOf_dm [simp]: "po_dmPolicy (policyOf params) = po_dmPolicy (ip_policy params)"
  by (simp add: policyOf_def split: option.splits)

lemma resolverParams_simps:
  "ip_conversation (resolverParams base input defaults) = mq_conversation input"
  "ip_policy (resolverParams base input defaults) = resolveResolverPolicy base input"
  "ev_mayPair (ip_event (resolverParams base input defaults)) =
     orElse (firstDefined [Option.bind (mq_event input) eq_mayPair, eq_mayPair defaults])
       (\<not> orElse (firstDefined [Option.bind (mq_event input) eq_isGroup, eq_isGroup defaults])
            (cv_kind (mq_conversation input) \<noteq> ChatDirect))"
  by (simp_all add: resolverParams_def Let_def channelIngressEvent_def spreadEvents_def noEventPreset_def
      orElse_def split: option.splits)

text \<open>C36. A resolver asks for pairing only in a direct conversation under the pairing policy, of a sender
  it does not admit, and, of a call for a command or an event, only when the caller said that the event
  may pair.
\<close>

theorem resolver_pairing_scope:
  assumes "createChannelIngressResolver localeCompare pairingStore base call input = Inr r"
    and "de_admission (ri_ingress r) = PairingRequired"
  shows "cv_kind (mq_conversation input) = ChatDirect \<and>
    orElse (mq_dmPolicy input) (orElse (rb_defaultDmPolicy base) DmPairing) = DmPairing \<and>
    \<not> senderAdmitted (ri_state r) (policyOf (resolverParams base input (callDefaults call))) \<and>
    (call = CallMessage \<or> Option.bind (mq_event input) eq_mayPair = Some True)"
proof -
  let ?params = "resolverParams base input (callDefaults call)"
  let ?k = "kernelInput pairingStore ?params (js_trim (ip_channelId ?params))"
  have r: "r = resolvedIngress localeCompare pairingStore ?params (js_trim (ip_channelId ?params))"
    using assms(1) unfolding createChannelIngressResolver_def by (rule resolve_Inr)
  from assms(2) have "ev_authMode (st_event (ri_state r)) = AuthInbound \<and>
      \<not> senderAdmitted (ri_state r) (policyOf ?params) \<and> offersPairing (ri_state r) (policyOf ?params)"
    unfolding r resolvedIngress_simps by (rule pairing_outcome)
  moreover from this have "cv_kind (mq_conversation input) = ChatDirect"
      "po_dmPolicy (resolveResolverPolicy base input) = DmPairing" "ev_mayPair (ip_event ?params)"
    by (simp_all add: offersPairing_def r resolvedIngress_simps resolved_state_simps resolved_event
        kernelInput_simps kernelInput_conversation resolverParams_simps(1,2))
  moreover have "call = CallMessage \<or> Option.bind (mq_event input) eq_mayPair = Some True"
    using calculation(4) unfolding resolverParams_simps(3)
    by (cases call; cases "Option.bind (mq_event input) eq_mayPair")
       (simp_all add: callDefaults_def noEventPreset_def)
  ultimately show ?thesis by (simp add: resolveResolverPolicy_def)
qed

definition sampleBase :: resolver_base where
  "sampleBase = \<lparr>rb_channelId = ''chat'', rb_accountId = ''default'', rb_identity = sampleIdentity,
     rb_accessGroups = None, rb_accessGroupMembership = None, rb_resolveAccessGroupMembership = None,
     rb_accessGroupMatchedAllowFromEntry = None, rb_readStoreAllowFrom = None,
     rb_useDefaultPairingStore = None, rb_cfg = None, rb_useAccessGroups = None, rb_defaultDmPolicy = None,
     rb_defaultGroupPolicy = None, rb_groupAllowFromFallbackToAllowFrom = None,
     rb_mutableIdentifierMatching = None\<rparr>"

definition sampleMessage :: message_params where
  "sampleMessage =
     \<lparr>mq_subject = \<lparr>sj_stableId = Some (EntText ''u1''), sj_aliases = None\<rparr>,
      mq_conversation = \<lparr>cv_kind = ChatDirect, cv_id = ''c'', cv_parentId = None, cv_threadId = None, cv_title = None\<rparr>,
      mq_event = None, mq_dmPolicy = None, mq_groupPolicy = None, mq_groupAllowFromFallbackToAllowFrom = None,
      mq_mutableIdentifierMatching = None, mq_activation = None, mq_allowFrom = None, mq_groupAllowFrom = None,
      mq_route = None, mq_routeFacts = None, mq_accessGroupMembership = None,
      mq_providerMissingFallbackApplied = None, mq_mentionFacts = None, mq_command = None\<rparr>"

theorem resolver_pairing_scope_witness:
  "\<not> senderAdmitted
     (ri_state (resolvedIngress cu_compare (\<lambda>_ _. None)
        (resolverParams sampleBase sampleMessage (callDefaults CallMessage)) ''chat''))
     (policyOf (resolverParams sampleBase sampleMessage (callDefaults CallMessage)))"
proof -
  let ?p = "resolverParams sampleBase sampleMessage (callDefaults CallMessage)"
  have chan: "js_trim (ip_channelId ?p) = ''chat''" by code_simp
  then have "createChannelIngressResolver cu_compare (\<lambda>_ _. None) sampleBase CallMessage sampleMessage =
      Inr (resolvedIngress cu_compare (\<lambda>_ _. None) ?p ''chat'')"
    by (simp add: createChannelIngressResolver_def resolveChannelMessageIngress_def normalizeChannelId_def)
  moreover have "de_admission (ri_ingress (resolvedIngress cu_compare (\<lambda>_ _. None)
      (resolverParams sampleBase sampleMessage (callDefaults CallMessage)) ''chat'')) = PairingRequired"
    by code_simp
  ultimately show ?thesis using resolver_pairing_scope by blast
qed

section \<open>Corners\<close>

text \<open>A disabled route is in the graph, where it blocks; it is not left out of it.\<close>

lemma disabled_route_blocks:
  "rd_configured d \<noteq> Some False \<Longrightarrow> rd_enabled d = Some False \<Longrightarrow>
     \<exists>f. descriptorFacts d = [f] \<and> rf_effect f = RouteBlock \<and> rf_gate f = RouteDisabled"
  by (simp add: descriptorFacts_def routeFact_def Let_def)

text \<open>
  The projection of the sender speaks of the sender's gate only: it allows although the event is
  blocked by the command gate.
\<close>

definition sampleCommand :: command_input where
  "sampleCommand = \<lparr>cp_useAccessGroups = Some True, cp_allowTextCommands = True, cp_hasControlCommand = True,
     cp_modeWhenAccessGroupsOff = None, ci_commandOwnerAllowFrom = Some [], ci_groupOwnerAllowFrom = None,
     ci_directGroupAllowFrom = None, ci_commandGroupAllowFromFallbackToAllowFrom = None\<rparr>"

lemma sender_projection_ignores_command:
  "(let r = resolvedIngress cu_compare (\<lambda>_ _. None)
              ((sampleParams ChatDirect ''u1'')\<lparr>ip_command := Some sampleCommand\<rparr>) ''chat''
    in (sx_decision (ri_senderAccess r), de_decision (ri_ingress r), de_reasonCode (ri_ingress r))) =
   (VerdictAllow, VerdictBlock, ControlCommandUnauthorized)"
  by code_simp

text \<open>
  With an id prefix all fields of an entry share one id, so the dangerous name that the same text could
  be takes the match by the stable id with it.
\<close>

lemma shared_entry_id_denies_stable_match:
  "sampleOutcome ((sampleParams ChatDirect ''u1'')
     \<lparr>ip_identity := sampleIdentity\<lparr>id_resolveEntryId := Some (prefixedEntryId ''entry'')\<rparr>\<rparr>) =
     Some (Drop, DmPolicyNotAllowlisted)"
  by code_simp

text \<open>A group that is not configured is reported missing, unless objects inherit its name.\<close>

lemma inherited_group_name_unsupported:
  "sampleOutcome ((sampleParams ChatDirect ''accessGroup:ops'')\<lparr>ip_accessGroups := Some []\<rparr>) =
     Some (Drop, AccessGroupMissing)"
  "sampleOutcome ((sampleParams ChatDirect ''accessGroup:constructor'')\<lparr>ip_accessGroups := Some []\<rparr>) =
     Some (Drop, AccessGroupUnsupported)"
  by code_simp+

text \<open>
  Match keys separate identifiers when no declared kind has a colon in its name: equal keys have equal
  kinds and values.
\<close>

definition plainKind :: "ident_kind \<Rightarrow> bool" where
  "plainKind k = (case k of PluginKind s \<Rightarrow> CHR '':'' \<notin> set s | _ \<Rightarrow> True)"

lemma append_sep_inject:
  "c \<notin> set a \<Longrightarrow> c \<notin> set b \<Longrightarrow> a @ c # x = b @ c # y \<longleftrightarrow> a = b \<and> x = y"
proof (induction a arbitrary: b)
  case Nil
  then show ?case by (cases b) auto
next
  case (Cons d a)
  then show ?case by (cases b) auto
qed

lemma identityMatchKey_inject:
  "plainKind k \<Longrightarrow> plainKind k' \<Longrightarrow> identityMatchKey k v = identityMatchKey k' v' \<longleftrightarrow> k = k' \<and> v = v'"
  by (cases k; cases k')
     (auto simp: identityMatchKey_def identKindText_def plainKind_def append_sep_inject)

lemma match_keys_collide_with_colons:
  "identityMatchKey (PluginKind ''a'') ''b:c'' = identityMatchKey (PluginKind ''a:b'') ''c''"
  by code_simp

end
