(* ===== verification/IngressConfig.thy ===== *)
theory IngressConfig
  imports IngressOutcome
begin

text \<open>
  Who the configuration of an account admits, read off the parameters of a call and not off what the
  resolver hands to the kernel: the lists, the fallback of groups, the pairing store, the access
  groups and the routes.  An event that the resolver dispatches has a sender whom this reading admits.
\<close>

section \<open>The configuration's own reading\<close>

definition senderOf :: "ingress_params \<Rightarrow> ingress_subject" where
  "senderOf params = createIdentitySubject (ip_identity params) (ip_subject params)"

definition entryAdmits ::
  "ingress_params \<Rightarrow> (norm_entry \<Rightarrow> bool) \<Rightarrow> ingress_context \<Rightarrow> string list \<Rightarrow> bool" where
  "entryAdmits params usable c texts \<longleftrightarrow>
     texts \<noteq> [] \<and>
     (\<exists>e \<in> set (nr_matchable (ad_normalizeEntries (createIdentityAdapter (ip_identity params)) texts c
                  (ip_accountId params))).
        usable e \<and> entryMatches (ip_identity params) (senderOf params) e c)"

text \<open>The facts a call supplies: the last one about a group counts.\<close>

definition suppliedFact :: "ingress_params \<Rightarrow> string \<Rightarrow> membership_fact option" where
  "suppliedFact params name =
     find (\<lambda>f. fact_group f = name) (rev (orNoEntries (ip_accessGroupMembership params)))"

definition staticMembers :: "(string, string list) jsmap \<Rightarrow> string \<Rightarrow> string list" where
  "staticMembers members channelId =
     normalizeStringEntries (map EntText (orNoEntries (jm_get members ''*'') @ orNoEntries (jm_get members channelId)))"

definition memberOf ::
  "ingress_params \<Rightarrow> string \<Rightarrow> (norm_entry \<Rightarrow> bool) \<Rightarrow> ingress_context \<Rightarrow> string \<Rightarrow> bool" where
  "memberOf params channelId usable c name \<longleftrightarrow>
     (case suppliedFact params name of
        Some (FactMatched _ _ _) \<Rightarrow> True
      | Some _ \<Rightarrow> False
      | None \<Rightarrow>
          (case accessGroupNamed (ip_accessGroups params) name of
             None \<Rightarrow> False
           | Some (MessageSenders members) \<Rightarrow> entryAdmits params usable c (staticMembers members channelId)
           | Some g \<Rightarrow>
               (case ip_resolveAccessGroupMembership params of
                  None \<Rightarrow> False
                | Some lookup \<Rightarrow>
                    lookup name g channelId (ip_accountId params) (ip_subject params) = Some True)))"

definition listAdmits ::
  "ingress_params \<Rightarrow> string \<Rightarrow> (norm_entry \<Rightarrow> bool) \<Rightarrow> ingress_context \<Rightarrow> string list \<Rightarrow> bool" where
  "listAdmits params channelId usable c texts \<longleftrightarrow>
     entryAdmits params usable c (filter (\<lambda>t. parseAccessGroupAllowFromEntry t = None) texts) \<or>
     (\<exists>t \<in> set texts. case parseAccessGroupAllowFromEntry t of
        None \<Rightarrow> False | Some name \<Rightarrow> memberOf params channelId usable c name)"

text \<open>The lists of the configuration.\<close>

definition dmTexts :: "ingress_params \<Rightarrow> string list" where
  "dmTexts params = normalizeStringEntries (orNoEntries (ip_allowFrom params))"

definition groupTexts :: "ingress_params \<Rightarrow> string list" where
  "groupTexts params =
     (let own = normalizeStringEntries (orNoEntries (ip_groupAllowFrom params))
      in if own \<noteq> [] then own
         else if po_groupAllowFromFallbackToAllowFrom (ip_policy params) = Some False then []
         else dmTexts params)"

definition pairedTexts :: "default_store \<Rightarrow> ingress_params \<Rightarrow> string \<Rightarrow> string list" where
  "pairedTexts pairingStore params channelId =
     normalizeStringEntries
       (case ip_readStoreAllowFrom params of
          Some f \<Rightarrow>
            (case f channelId (ip_accountId params) DmPairing of
               Some (Some entries) \<Rightarrow> entries | _ \<Rightarrow> [])
        | None \<Rightarrow>
            if ip_useDefaultPairingStore params = Some True
            then map EntText (orNoEntries (pairingStore channelId (ip_accountId params))) else [])"

definition routeTexts :: "ingress_params \<Rightarrow> route_facts \<Rightarrow> string list option" where
  "routeTexts params r =
     (case (rf_senderAllowFrom r, rf_senderAllowFromSource r) of
        (Some xs, _) \<Rightarrow> Some (normalizeStringEntries xs)
      | (None, Some EffectiveDm) \<Rightarrow> Some (dmTexts params)
      | (None, Some EffectiveGroup) \<Rightarrow> Some (groupTexts params)
      | (None, None) \<Rightarrow> None)"

text \<open>
  In a group the sender must be on a list that counts: that of a matched route which no later one
  replaces, or the group's own when no route replaces it.
\<close>

definition groupAdmits ::
  "(string \<Rightarrow> string \<Rightarrow> int) \<Rightarrow> ingress_params \<Rightarrow> string \<Rightarrow> (norm_entry \<Rightarrow> bool) \<Rightarrow> bool" where
  "groupAdmits localeCompare params channelId usable \<longleftrightarrow>
     (let rs = filter (\<lambda>r. rf_gate r = RouteMatched \<and> routeTexts params r \<noteq> None)
                 (js_toSorted (routeOrder localeCompare)
                    (routeFactsFromDescriptors (ip_route params) @ orNoEntries (ip_routeFacts params)));
          adds = (\<lambda>r. rf_senderPolicy r = Inherit)
      in list_all adds rs \<and> listAdmits params channelId usable CtxGroup (groupTexts params) \<or>
         (\<exists>i < length rs. list_all adds (drop (Suc i) rs) \<and>
            listAdmits params channelId usable CtxRoute (orNoEntries (routeTexts params (rs ! i)))))"

definition configurationAdmits ::
  "(string \<Rightarrow> string \<Rightarrow> int) \<Rightarrow> default_store \<Rightarrow> ingress_params \<Rightarrow> string \<Rightarrow> bool" where
  "configurationAdmits localeCompare pairingStore params channelId \<longleftrightarrow>
     (let policy = ip_policy params;
          usable = (\<lambda>e. po_mutableIdentifierMatching policy = Some MutableEnabled \<or> \<not> isDangerous e);
          admits = listAdmits params channelId usable
      in if cv_kind (ip_conversation params) = ChatDirect then
           (case po_dmPolicy policy of
              DmDisabled \<Rightarrow> False
            | DmOpen \<Rightarrow> ''*'' \<in> set (dmTexts params) \<or> admits CtxDm (dmTexts params)
            | DmAllowlist \<Rightarrow> admits CtxDm (dmTexts params)
            | DmPairing \<Rightarrow> admits CtxDm (dmTexts params) \<or> admits CtxDm (pairedTexts pairingStore params channelId))
         else
           (case po_groupPolicy policy of
              GroupDisabled \<Rightarrow> False
            | GroupOpen \<Rightarrow> True
            | GroupAllowlist \<Rightarrow> groupAdmits localeCompare params channelId usable))"

section \<open>The kernel's reading implies it\<close>

lemma normalizeStringEntries_idem [simp]:
  "normalizeStringEntries (map EntText (normalizeStringEntries xs)) = normalizeStringEntries xs"
proof -
  have "normalizeStringEntries (map EntText ys) = ys"
    if "\<forall>y \<in> set ys. y \<noteq> [] \<and> js_trim y = y" for ys
    using that by (induction ys) (auto simp: normalizeStringEntries_def normalizeOptionalString_def entryText_def
        normalizeNullableString_def orEmpty_def Let_def)
  moreover have "\<forall>y \<in> set (normalizeStringEntries xs). y \<noteq> [] \<and> js_trim y = y"
    by (auto simp: normalizeStringEntries_def normalizeOptionalString_def normalizeNullableString_def orEmpty_def
        Let_def split: if_splits option.splits)
  ultimately show ?thesis by blast
qed

lemma foldl_facts:
  "jm_get (foldl (\<lambda>m f. jm_set (fact_group f) f m) m0 fs) name =
     (case find (\<lambda>f. fact_group f = name) (rev fs) of Some f \<Rightarrow> Some f | None \<Rightarrow> jm_get m0 name)"
  by (induction fs rule: rev_induct) (auto simp: jm_get_set)

lemma fact_by_name:
  "jm_get (accessGroupFactByName (Some fs)) name = find (\<lambda>f. fact_group f = name) (rev fs)"
  by (simp add: accessGroupFactByName_def foldl_facts orNoEntries_def split: option.split)

lemma find_rev_append:
  "find P (rev (xs @ ys)) = (case find P (rev ys) of Some x \<Rightarrow> Some x | None \<Rightarrow> find P (rev xs))"
  by (simp add: find_append)

lemma membershipFact_group:
  assumes "f \<in> set (membershipFact params lookup channelId n)"
  shows "fact_group f = n \<and> (\<exists>t. accessGroupNamed (ip_accessGroups params) n = Some (OtherGroup t))"
proof (cases "accessGroupNamed (ip_accessGroups params) n")
  case None
  with assms show ?thesis by (simp add: membershipFact_def)
next
  case (Some g)
  with assms show ?thesis
    by (cases g; cases "lookup n g channelId (ip_accountId params) (ip_subject params)")
       (auto simp: membershipFact_def split: if_splits bool.splits)
qed

lemma runtime_fact:
  assumes "find (\<lambda>f. fact_group f = name) (rev (resolveRuntimeAccessGroupMembershipFacts params channelId names)) = Some f"
  shows "\<exists>lookup g. ip_resolveAccessGroupMembership params = Some lookup \<and>
    accessGroupNamed (ip_accessGroups params) name = Some g \<and> (\<forall>ms. g \<noteq> MessageSenders ms) \<and>
    f \<in> set (membershipFact params lookup channelId name)"
proof -
  from assms have f: "f \<in> set (resolveRuntimeAccessGroupMembershipFacts params channelId names)" "fact_group f = name"
    by (auto simp: find_Some_iff) (metis nth_mem set_rev length_rev)
  then obtain lookup n where "ip_resolveAccessGroupMembership params = Some lookup"
      "f \<in> set (membershipFact params lookup channelId n)"
    by (cases "ip_resolveAccessGroupMembership params")
       (auto simp: resolveRuntimeAccessGroupMembershipFacts_def)
  with f(2) show ?thesis using membershipFact_group by fastforce
qed

lemma kernelInput_facts:
  "\<exists>names. in_accessGroupMembership (kernelInput store params i) =
     Some (resolveRuntimeAccessGroupMembershipFacts params i names @ orNoEntries (ip_accessGroupMembership params))"
  by (simp add: kernelInput_def Let_def) blast

lemma kernelInput_parts:
  "in_subject (kernelInput store params i) = senderOf params"
  "in_accountId (kernelInput store params i) = ip_accountId params"
  "in_accessGroups (kernelInput store params i) = ip_accessGroups params"
  "in_channelId (kernelInput store params i) = i"
  by (simp_all add: kernelInput_def Let_def senderOf_def)

lemma entriesGrant_config:
  "entriesGrant (identityGrants (ip_identity params)) usable (kernelInput store params i) c texts =
     entryAdmits params usable c texts"
  by (simp add: entriesGrant_def entryAdmits_def identityGrants_def kernelInput_simps kernelInput_parts)

lemma groupGrants_config:
  assumes "groupGrants (identityGrants (ip_identity params)) usable (kernelInput store params i) c name"
  shows "memberOf params i usable c name"
proof -
  obtain names where facts: "in_accessGroupMembership (kernelInput store params i) =
      Some (resolveRuntimeAccessGroupMembershipFacts params i names @ orNoEntries (ip_accessGroupMembership params))"
    using kernelInput_facts by blast
  note fact = fact_by_name [of "resolveRuntimeAccessGroupMembershipFacts params i names @
      orNoEntries (ip_accessGroupMembership params)" name, folded facts, unfolded find_rev_append]
  let ?run = "find (\<lambda>f. fact_group f = name) (rev (resolveRuntimeAccessGroupMembershipFacts params i names))"
  show ?thesis
  proof (cases "suppliedFact params name")
    case (Some f)
    with assms fact show ?thesis
      by (cases f) (simp_all add: groupGrants_def memberOf_def suppliedFact_def)
  next
    case none: None
    then have fact': "jm_get (accessGroupFactByName (in_accessGroupMembership (kernelInput store params i))) name = ?run"
      using fact by (simp add: suppliedFact_def)
    show ?thesis
    proof (cases ?run)
      case None
      with assms fact' have "entryAdmits params usable c (groupSenderEntries name (kernelInput store params i))"
        by (simp add: groupGrants_def entriesGrant_config)
      with none show ?thesis
        by (auto simp: memberOf_def groupSenderEntries_def kernelInput_parts staticMembers_def entryAdmits_def
            split: option.splits group_config.splits)
    next
      case (Some f)
      from runtime_fact [OF this] obtain lookup g where l: "ip_resolveAccessGroupMembership params = Some lookup"
          "accessGroupNamed (ip_accessGroups params) name = Some g" "\<forall>ms. g \<noteq> MessageSenders ms"
          "f \<in> set (membershipFact params lookup i name)" by blast
      from assms fact' Some obtain a b d where "f = FactMatched a b d"
        by (auto simp: groupGrants_def split: membership_fact.splits)
      with none l show ?thesis
        by (cases g) (auto simp: memberOf_def membershipFact_def split: option.splits bool.splits)
    qed
  qed
qed

lemma listGrants_config:
  assumes "listGrants (identityGrants (ip_identity params)) usable (kernelInput store params i) c raw"
  shows "listAdmits params i usable c (normalizeStringEntries (orNoEntries raw))"
proof -
  have "\<exists>t \<in> set texts. parseAccessGroupAllowFromEntry t = Some g" if "g \<in> set (referencedAccessGroups texts)" for g texts
    using that by (auto simp: referencedAccessGroups_def List.map_filter_def)
  with assms show ?thesis
    by (fastforce simp: listGrants_def listAdmits_def Let_def entriesGrant_config directAllowlistEntries_def
        dest: groupGrants_config)
qed

lemma listAdmits_Nil [simp]: "\<not> listAdmits params i usable c []"
  by (simp add: listAdmits_def entryAdmits_def)

lemma kernelInput_lists:
  "ra_dm (in_allowlists (kernelInput store params i)) = Some (map EntText (dmTexts params))"
  "ra_group (in_allowlists (kernelInput store params i)) = Some (map EntText (groupTexts params))"
  "ra_pairingStore (in_allowlists (kernelInput store params i)) =
     Some (map EntText (normalizeStringEntries (readStoreAllowFrom store params i)))"
  by (simp_all add: kernelInput_def Let_def dmTexts_def groupTexts_def resolveGroupAllowFromSources_def
      resolveChannelIngressEffectiveAllowFromLists_def orNoEntries_def)

lemma paired_store:
  assumes "cv_kind (ip_conversation params) = ChatDirect" "po_dmPolicy (ip_policy params) = DmPairing"
  shows "normalizeStringEntries (readStoreAllowFrom store params i) = pairedTexts store params i"
  using assms
  by (auto simp: readStoreAllowFrom_def pairedTexts_def shouldReadStore_def dmPolicyText_def orNoEntries_def
      readChannelIngressStoreAllowFromForDmPolicy_def split: option.splits)

lemma routeTexts_kernel:
  "routeTexts params r = map_option normalizeStringEntries (routeSenderEntries (kernelInput store params i) r)"
  by (auto simp: routeTexts_def routeSenderEntries_def kernelInput_lists dmTexts_def groupTexts_def Let_def
      split: option.splits sender_source.splits)

lemma senderSources_last:
  assumes "(c, raw) \<in> senderSources input L routes"
  defines "rs \<equiv> filter (\<lambda>r. rf_gate r = RouteMatched \<and> routeSenderEntries input r \<noteq> None) routes"
    and "adds \<equiv> \<lambda>r. rf_senderPolicy r = Inherit"
  shows "list_all adds rs \<and> (c, raw) \<in> L \<or>
    (\<exists>i < length rs. list_all adds (drop (Suc i) rs) \<and> c = CtxRoute \<and> raw = routeSenderEntries input (rs ! i))"
  using assms(1) unfolding rs_def
proof (induction routes arbitrary: L)
  case Nil
  then show ?case by simp
next
  case (Cons r routes)
  let ?rs = "filter (\<lambda>r. rf_gate r = RouteMatched \<and> routeSenderEntries input r \<noteq> None) routes"
  show ?case
  proof (cases "rf_gate r = RouteMatched \<and> routeSenderEntries input r \<noteq> None")
    case False
    with Cons.prems have "(c, raw) \<in> senderSources input L routes"
      by (auto split: option.splits if_splits)
    from Cons.IH [OF this] False show ?thesis by auto
  next
    case True
    then obtain xs where xs: "routeSenderEntries input r = Some xs" by blast
    let ?M = "if adds r then L \<union> {(CtxRoute, Some xs)} else {(CtxRoute, Some xs)}"
    from Cons.prems True xs have "(c, raw) \<in> senderSources input ?M routes"
      by (auto simp: adds_def)
    from Cons.IH [OF this] consider
        (own) "list_all adds ?rs" "(c, raw) \<in> L" "adds r"
      | (this) "list_all adds ?rs" "c = CtxRoute" "raw = Some xs"
      | (later) i where "i < length ?rs" "list_all adds (drop (Suc i) ?rs)" "c = CtxRoute"
          "raw = routeSenderEntries input (?rs ! i)"
      by (auto split: if_splits)
    then show ?thesis
    proof cases
      case own
      with True show ?thesis by simp
    next
      case this
      with True xs show ?thesis by (intro disjI2 exI [of _ 0]) simp
    next
      case later
      with True show ?thesis by (intro disjI2 exI [of _ "Suc i"]) simp
    qed
  qed
qed

lemma group_config:
  assumes "(c, raw) \<in> senderSources (kernelInput store params i) (groupSources (kernelInput store params i) (policyOf params))
      (sortedRoutes localeCompare (kernelInput store params i))"
    and grants: "listGrants (identityGrants (ip_identity params)) usable (kernelInput store params i) c raw"
  shows "groupAdmits localeCompare params i usable"
proof -
  let ?k = "kernelInput store params i"
  let ?sorted = "js_toSorted (routeOrder localeCompare)
      (routeFactsFromDescriptors (ip_route params) @ orNoEntries (ip_routeFacts params))"
  let ?rs = "filter (\<lambda>r. rf_gate r = RouteMatched \<and> routeTexts params r \<noteq> None) ?sorted"
  have sorted: "sortedRoutes localeCompare ?k = ?sorted"
    by (simp add: sortedRoutes_def kernelInput_simps orNoEntries_def)
  have rs: "filter (\<lambda>r. rf_gate r = RouteMatched \<and> routeSenderEntries ?k r \<noteq> None) ?sorted = ?rs"
    by (simp add: routeTexts_kernel [where store = store and i = i])
  note last = senderSources_last [OF assms(1), unfolded sorted rs]
  note lists = listGrants_config [OF grants]
  from last show ?thesis
  proof (elim disjE conjE exE)
    assume all: "list_all (\<lambda>r. rf_senderPolicy r = Inherit) ?rs"
      and L: "(c, raw) \<in> groupSources ?k (policyOf params)"
    have "(c, raw) = (CtxGroup, Some (map EntText (groupTexts params)))"
      using L lists
      by (auto simp: groupSources_def kernelInput_lists orNoEntries_def groupTexts_def Let_def dmTexts_def
          policyOf_def split: if_splits option.splits)
    with lists all show ?thesis
      by (auto simp: groupAdmits_def Let_def orNoEntries_def groupTexts_def dmTexts_def split: if_splits)
  next
    fix n
    assume n: "n < length ?rs" "list_all (\<lambda>r. rf_senderPolicy r = Inherit) (drop (Suc n) ?rs)"
      and c: "c = CtxRoute" and raw: "raw = routeSenderEntries ?k (?rs ! n)"
    have "?rs ! n \<in> set ?rs" using n(1) by (rule nth_mem)
    then obtain xs where "raw = Some xs" "routeTexts params (?rs ! n) = Some (normalizeStringEntries xs)"
      unfolding raw by (auto simp: routeTexts_kernel [where store = store and i = i])
    with lists n c show ?thesis
      unfolding groupAdmits_def Let_def by (auto simp: orNoEntries_def)
  qed
qed

lemma senderGranted_config:
  assumes "senderGranted (identityGrants (ip_identity params)) localeCompare (kernelInput store params i) (policyOf params)"
  shows "configurationAdmits localeCompare store params i"
proof -
  have pol: "po_dmPolicy (policyOf params) = po_dmPolicy (ip_policy params)"
      "po_groupPolicy (policyOf params) = po_groupPolicy (ip_policy params)"
      "usableEntry (policyOf params) =
         (\<lambda>e. po_mutableIdentifierMatching (ip_policy params) = Some MutableEnabled \<or> \<not> isDangerous e)"
    by (auto simp: policyOf_def usableEntry_def fun_eq_iff split: option.splits)
  have dm: "normalizeStringEntries (orNoEntries (Some (map EntText (dmTexts params)))) = dmTexts params"
    by (simp add: dmTexts_def orNoEntries_def)
  have dm': "normalizeStringEntries (map EntText (dmTexts params)) = dmTexts params"
    by (simp add: dmTexts_def)
  have store: "normalizeStringEntries (orNoEntries (Some (map EntText (normalizeStringEntries (readStoreAllowFrom store params i)))))
      = normalizeStringEntries (readStoreAllowFrom store params i)"
    by (simp add: orNoEntries_def)
  note lists = listGrants_config [where raw = "Some (map EntText (dmTexts params))", unfolded dm]
    listGrants_config [where raw = "Some (map EntText (normalizeStringEntries (readStoreAllowFrom store params i)))", unfolded store]
  show ?thesis
  proof (cases "cv_kind (ip_conversation params) = ChatDirect")
    case True
    with assms show ?thesis
      by (cases "po_dmPolicy (ip_policy params)")
         (auto simp: senderGranted_def configurationAdmits_def Let_def kernelInput_conversation kernelInput_lists
           pol dm' orNoEntries_def paired_store [symmetric] dest: lists)
  next
    case False
    with assms show ?thesis
      by (cases "po_groupPolicy (ip_policy params)")
         (auto simp: senderGranted_def configurationAdmits_def Let_def kernelInput_conversation pol
           dest: group_config)
  qed
qed

section \<open>Admissions\<close>


text \<open>The reading is not trivial: it turns away a sender whom only the list of groups names.\<close>

lemma group_list_admits_no_direct_sender:
  "\<not> configurationAdmits cu_compare (\<lambda>_ _. None)
     ((sampleParams ChatDirect ''u2'')\<lparr>ip_groupAllowFrom := Some [EntText ''u1'']\<rparr>) ''chat''"
  by code_simp


end
