(* ===== verification/AuthUsage.thy ===== *)
theory AuthUsage
  imports Prelude
begin

text \<open>
  Use of authentication profiles: \<open>usage-state.ts\<close>, \<open>usage.ts\<close> and the usage operations of
  \<open>profiles.ts\<close> under \<open>src/agents/auth-profiles/\<close>, with \<open>src/agents/provider-id.ts\<close>.

  Times and numbers of the configuration are finite, as JSON texts give them; counters are natural
  numbers.  The clock is an argument, and so is the answer of the usage service that is probed.  A
  locked update works on the store that is read under the lock, or fails as a whole (\<open>None\<close>), whatever
  failed: taking the lock, reading or writing.  Logging is left out.
\<close>

section \<open>Providers: \<open>provider-id.ts\<close>\<close>

definition normalizeProviderId :: "string \<Rightarrow> string" where
  "normalizeProviderId provider =
     (let normalized = normalizeLowercaseStringOrEmpty (Some provider)
      in if normalized = ''modelstudio'' \<or> normalized = ''qwencloud'' then ''qwen''
         else if normalized = ''z.ai'' \<or> normalized = ''z-ai'' then ''zai''
         else if normalized = ''opencode-zen'' then ''opencode''
         else if normalized = ''opencode-go-auth'' then ''opencode-go''
         else if normalized = ''anthropic-cli'' then ''claude-cli''
         else if normalized = ''kimi'' \<or> normalized = ''kimi-code'' \<or> normalized = ''kimi-coding'' then ''kimi''
         else if normalized = ''moonshotai'' \<or> normalized = ''moonshot-ai'' then ''moonshot''
         else if normalized = ''bedrock'' \<or> normalized = ''aws-bedrock'' then ''amazon-bedrock''
         else if normalized = ''bytedance'' \<or> normalized = ''doubao'' then ''volcengine''
         else normalized)"

definition normalizeProviderIdForAuth :: "string \<Rightarrow> string" where
  "normalizeProviderIdForAuth provider = normalizeProviderId provider"

definition findNormalizedProviderValue :: "(string, 'a) jsmap option \<Rightarrow> string \<Rightarrow> 'a option" where
  "findNormalizedProviderValue entries provider =
     (case entries of
        None \<Rightarrow> None
      | Some m \<Rightarrow>
          map_option snd (find (\<lambda>(key, _). normalizeProviderId key = normalizeProviderId provider) m))"

definition findNormalizedProviderKey :: "(string, 'a) jsmap option \<Rightarrow> string \<Rightarrow> string option" where
  "findNormalizedProviderKey entries provider =
     (case entries of
        None \<Rightarrow> None
      | Some m \<Rightarrow> find (\<lambda>key. normalizeProviderId key = normalizeProviderId provider) (map fst m))"

section \<open>Statistics: \<open>types.ts\<close>\<close>

datatype failure_reason =
    FrAuth | FrAuthPermanent | FrFormat | FrOverloaded | FrRateLimit | FrBilling | FrTimeout
  | FrModelNotFound | FrSessionExpired | FrEmptyResponse | FrNoErrorDetails | FrUnclassified | FrUnknown

datatype blocked_reason = SubscriptionLimit

datatype blocked_source = CodexRateLimits | Wham

record usage_stats =
  us_lastUsed :: "rat option"
  us_blockedUntil :: "rat option"
  us_blockedReason :: "blocked_reason option"
  us_blockedSource :: "blocked_source option"
  us_blockedModel :: "string option"
  us_cooldownUntil :: "rat option"
  us_cooldownReason :: "failure_reason option"
  us_cooldownModel :: "string option"
  us_disabledUntil :: "rat option"
  us_disabledReason :: "failure_reason option"
  us_errorCount :: "nat option"
  us_failureCounts :: "(failure_reason, nat) jsmap option"
  us_lastFailureAt :: "rat option"

definition noStats :: usage_stats where
  "noStats = \<lparr>us_lastUsed = None, us_blockedUntil = None, us_blockedReason = None, us_blockedSource = None,
     us_blockedModel = None, us_cooldownUntil = None, us_cooldownReason = None, us_cooldownModel = None,
     us_disabledUntil = None, us_disabledReason = None, us_errorCount = None, us_failureCounts = None,
     us_lastFailureAt = None\<rparr>"

datatype secret_source = SecretEnv | SecretFile | SecretExec

text \<open>
  What a reference to a secret is given as: a text, or an object with its provider and id; the flag
  tells whether the object has other keys too.
\<close>

datatype secret_ref_value =
    RefText string
  | RefObject secret_source "string option" string bool

record oauth_ref =
  or_source :: string
  or_provider :: string
  or_id :: string

datatype credential =
    ApiKeyCredential (cr_provider: string) (cr_key: "string option") (cr_keyRef: "secret_ref_value option")
  | TokenCredential (cr_provider: string) (cr_token: "string option") (cr_tokenRef: "secret_ref_value option")
      (cr_tokenExpires: "jsnum option")
  | OAuthCredential (cr_provider: string) (cr_access: "string option") (cr_refresh: "string option")
      (cr_oauthRef: "oauth_ref option") (cr_expires: "jsnum option")

record auth_store =
  as_profiles :: "(string, credential) jsmap"
  as_order :: "(string, string list) jsmap option"
  as_lastGood :: "(string, string) jsmap option"
  as_usageStats :: "(string, usage_stats) jsmap option"

definition orEmptyMap :: "('k, 'v) jsmap option \<Rightarrow> ('k, 'v) jsmap" where
  "orEmptyMap m = (case m of None \<Rightarrow> [] | Some x \<Rightarrow> x)"

lemma orEmptyMap_simps [simp]: "orEmptyMap None = []" "orEmptyMap (Some m) = m"
  by (simp_all add: orEmptyMap_def)

definition statsOf :: "auth_store \<Rightarrow> string \<Rightarrow> usage_stats option" where
  "statsOf store profileId = jm_get (orEmptyMap (as_usageStats store)) profileId"

definition isNonEmpty :: "string option \<Rightarrow> bool" where
  "isNonEmpty v \<longleftrightarrow> (case v of None \<Rightarrow> False | Some s \<Rightarrow> s \<noteq> [])"

section \<open>Windows: \<open>usage-state.ts\<close>\<close>

definition isAuthCooldownBypassedForProvider :: "string option \<Rightarrow> bool" where
  "isAuthCooldownBypassedForProvider provider \<longleftrightarrow>
     normalizeProviderId (orEmpty provider) = ''openrouter'' \<or>
     normalizeProviderId (orEmpty provider) = ''kilocode''"

definition resolveProfileUnusableUntil :: "usage_stats \<Rightarrow> rat option" where
  "resolveProfileUnusableUntil stats =
     (let vals = filter (\<lambda>v. v > 0)
            (List.map_filter id [us_blockedUntil stats, us_cooldownUntil stats, us_disabledUntil stats])
      in if vals = [] then None else Some (Max (set vals)))"

definition isActiveUnusableWindow :: "rat option \<Rightarrow> rat \<Rightarrow> bool" where
  "isActiveUnusableWindow expiry now \<longleftrightarrow> (case expiry of None \<Rightarrow> False | Some u \<Rightarrow> u > 0 \<and> now < u)"

definition shouldBypassModelScopedCooldown :: "usage_stats \<Rightarrow> rat \<Rightarrow> string option \<Rightarrow> bool" where
  "shouldBypassModelScopedCooldown stats now forModel \<longleftrightarrow>
     isNonEmpty forModel \<and> us_cooldownReason stats = Some FrRateLimit \<and>
     isNonEmpty (us_cooldownModel stats) \<and> us_cooldownModel stats \<noteq> forModel \<and>
     \<not> isActiveUnusableWindow (us_disabledUntil stats) now"

definition profileProvider :: "auth_store \<Rightarrow> string \<Rightarrow> string option" where
  "profileProvider store profileId = map_option cr_provider (jm_get (as_profiles store) profileId)"

definition statsInCooldown :: "usage_stats \<Rightarrow> rat \<Rightarrow> string option \<Rightarrow> bool" where
  "statsInCooldown stats ts forModel \<longleftrightarrow>
     (if shouldBypassModelScopedCooldown stats ts forModel then False
      else case resolveProfileUnusableUntil stats of None \<Rightarrow> False | Some u \<Rightarrow> ts < u)"

definition isProfileInCooldown :: "auth_store \<Rightarrow> string \<Rightarrow> rat \<Rightarrow> string option \<Rightarrow> bool" where
  "isProfileInCooldown store profileId now forModel \<longleftrightarrow>
     (if isAuthCooldownBypassedForProvider (profileProvider store profileId) then False
      else (case statsOf store profileId of
              None \<Rightarrow> False
            | Some stats \<Rightarrow> statsInCooldown stats now forModel))"

text \<open>The accumulators of the loop: the soonest expiry, and the latest of the cooldowns of the model.\<close>

definition expiryStep ::
  "auth_store \<Rightarrow> rat \<Rightarrow> string option \<Rightarrow> rat option \<times> rat option \<Rightarrow> string \<Rightarrow> rat option \<times> rat option" where
  "expiryStep store ts forModel acc i =
     (case statsOf store i of
        None \<Rightarrow> acc
      | Some stats \<Rightarrow>
          if shouldBypassModelScopedCooldown stats ts forModel then acc
          else (case resolveProfileUnusableUntil stats of
                 None \<Rightarrow> acc
               | Some expiry \<Rightarrow>
                   if isNonEmpty forModel \<and> us_cooldownReason stats = Some FrRateLimit \<and>
                      us_cooldownModel stats = forModel \<and> \<not> isActiveUnusableWindow (us_disabledUntil stats) ts
                   then (fst acc, Some (case snd acc of None \<Rightarrow> expiry | Some m \<Rightarrow> max m expiry))
                   else ((case fst acc of None \<Rightarrow> Some expiry | Some s \<Rightarrow> if expiry < s then Some expiry else Some s),
                         snd acc)))"

definition getSoonestCooldownExpiry :: "auth_store \<Rightarrow> string list \<Rightarrow> rat \<Rightarrow> string option \<Rightarrow> rat option" where
  "getSoonestCooldownExpiry store profileIds now forModel =
     (case foldl (expiryStep store now forModel) (None, None) profileIds of
        (None, latest) \<Rightarrow> latest
      | (Some s, None) \<Rightarrow> Some s
      | (Some s, Some m) \<Rightarrow> Some (min s m))"

definition windowExpired :: "rat option \<Rightarrow> rat \<Rightarrow> bool" where
  "windowExpired expiry ts \<longleftrightarrow> (case expiry of None \<Rightarrow> False | Some u \<Rightarrow> u > 0 \<and> ts \<ge> u)"

definition clearExpiredStats :: "usage_stats \<Rightarrow> rat \<Rightarrow> usage_stats \<times> bool" where
  "clearExpiredStats stats ts =
     (let cooldownExpired = windowExpired (us_cooldownUntil stats) ts;
          blockedExpired = windowExpired (us_blockedUntil stats) ts;
          disabledExpired = windowExpired (us_disabledUntil stats) ts;
          s1 = (if cooldownExpired then stats\<lparr>us_cooldownUntil := None, us_cooldownReason := None,
                  us_cooldownModel := None\<rparr> else stats);
          s2 = (if blockedExpired then s1\<lparr>us_blockedUntil := None, us_blockedReason := None,
                  us_blockedSource := None, us_blockedModel := None\<rparr> else s1);
          s3 = (if disabledExpired then s2\<lparr>us_disabledUntil := None, us_disabledReason := None\<rparr> else s2);
          profileMutated = (cooldownExpired \<or> blockedExpired \<or> disabledExpired);
          s4 = (if profileMutated \<and> resolveProfileUnusableUntil s3 = None
                then s3\<lparr>us_errorCount := Some 0, us_failureCounts := None\<rparr> else s3)
      in (s4, profileMutated))"

definition clearExpiredCooldowns :: "auth_store \<Rightarrow> rat \<Rightarrow> auth_store \<times> bool" where
  "clearExpiredCooldowns store ts =
     (case as_usageStats store of
        None \<Rightarrow> (store, False)
      | Some m \<Rightarrow>
          (store\<lparr>as_usageStats := Some (map (\<lambda>(i, s). (i, fst (clearExpiredStats s ts))) m)\<rparr>,
           list_ex (\<lambda>(i, s). snd (clearExpiredStats s ts)) m))"

section \<open>The usage service\<close>

definition WHAM_BURST_COOLDOWN_MS :: rat where "WHAM_BURST_COOLDOWN_MS = 15000"
definition WHAM_PROBE_FAILURE_COOLDOWN_MS :: rat where "WHAM_PROBE_FAILURE_COOLDOWN_MS = 30000"
definition WHAM_HTTP_ERROR_COOLDOWN_MS :: rat where "WHAM_HTTP_ERROR_COOLDOWN_MS = 5 * 60 * 1000"
definition WHAM_TOKEN_EXPIRED_COOLDOWN_MS :: rat where "WHAM_TOKEN_EXPIRED_COOLDOWN_MS = 12 * 60 * 60 * 1000"
definition WHAM_DEAD_ACCOUNT_COOLDOWN_MS :: rat where "WHAM_DEAD_ACCOUNT_COOLDOWN_MS = 24 * 60 * 60 * 1000"

record wham_window =
  ww_used_percent :: "rat option"
  ww_reset_at :: "rat option"
  ww_reset_after_seconds :: "rat option"

record wham_rate_limit =
  wr_limit_reached :: "bool option"
  wr_primary_window :: "wham_window option"
  wr_secondary_window :: "wham_window option"

record wham_result =
  wp_cooldownMs :: rat
  wp_reason :: string
  wp_blockedUntil :: "rat option"
  wp_blockedSource :: "blocked_source option"

text \<open>What the request comes to: it fails, it is answered with an error status, or with a body.\<close>

datatype wham_response = WhamFailed | WhamStatus nat | WhamBody "wham_rate_limit option"

definition shouldProbeWhamForFailure :: "string option \<Rightarrow> failure_reason \<Rightarrow> bool" where
  "shouldProbeWhamForFailure provider reason \<longleftrightarrow>
     normalizeProviderId (orEmpty provider) = ''openai-codex'' \<and>
     (reason = FrRateLimit \<or> reason = FrEmptyResponse \<or> reason = FrNoErrorDetails \<or>
      reason = FrUnclassified \<or> reason = FrUnknown)"

definition resolveWhamResetMs :: "wham_window option \<Rightarrow> rat \<Rightarrow> rat option" where
  "resolveWhamResetMs window now =
     (case window of
        None \<Rightarrow> None
      | Some w \<Rightarrow>
          (case ww_reset_after_seconds w of
             Some s \<Rightarrow> if s > 0 then Some (s * 1000)
               else (case ww_reset_at w of
                       Some a \<Rightarrow> if a > 0 then Some (max 0 (a * 1000 - now)) else None | None \<Rightarrow> None)
           | None \<Rightarrow>
               (case ww_reset_at w of
                  Some a \<Rightarrow> if a > 0 then Some (max 0 (a * 1000 - now)) else None | None \<Rightarrow> None)))"

definition isWhamWindowExhausted :: "wham_window option \<Rightarrow> bool" where
  "isWhamWindowExhausted window \<longleftrightarrow>
     (case Option.bind window ww_used_percent of None \<Rightarrow> False | Some p \<Rightarrow> p \<ge> 100)"

definition plainWham :: "rat \<Rightarrow> string \<Rightarrow> wham_result" where
  "plainWham ms reason =
     \<lparr>wp_cooldownMs = ms, wp_reason = reason, wp_blockedUntil = None, wp_blockedSource = None\<rparr>"

definition blockedWham :: "rat \<Rightarrow> string \<Rightarrow> wham_result" where
  "blockedWham expiry reason =
     \<lparr>wp_cooldownMs = WHAM_BURST_COOLDOWN_MS, wp_reason = reason, wp_blockedUntil = Some expiry,
      wp_blockedSource = Some Wham\<rparr>"

definition whamFailure :: wham_result where
  "whamFailure = plainWham WHAM_PROBE_FAILURE_COOLDOWN_MS ''wham_probe_failed''"

definition whamWindowResult :: "rat option \<Rightarrow> rat \<Rightarrow> string \<Rightarrow> wham_result" where
  "whamWindowResult resetMs now reason =
     (case resetMs of None \<Rightarrow> whamFailure | Some ms \<Rightarrow> blockedWham (now + ms) reason)"

definition probeWhamForCooldown :: "auth_store \<Rightarrow> string \<Rightarrow> wham_response \<Rightarrow> rat \<Rightarrow> wham_result option" where
  "probeWhamForCooldown store profileId response now =
     (case jm_get (as_profiles store) profileId of
        None \<Rightarrow> None
      | Some profile \<Rightarrow>
          if \<not> is_OAuthCredential profile \<or> \<not> isNonEmpty (cr_access profile) then None
          else Some
            (case response of
               WhamFailed \<Rightarrow> whamFailure
             | WhamStatus status \<Rightarrow>
                 if status = 401 then plainWham WHAM_TOKEN_EXPIRED_COOLDOWN_MS ''wham_token_expired''
                 else if status = 403 then plainWham WHAM_DEAD_ACCOUNT_COOLDOWN_MS ''wham_account_dead''
                 else plainWham WHAM_HTTP_ERROR_COOLDOWN_MS ''wham_http_error''
             | WhamBody None \<Rightarrow> whamFailure
             | WhamBody (Some limit) \<Rightarrow>
                 if wr_limit_reached limit = Some False
                 then plainWham WHAM_BURST_COOLDOWN_MS ''wham_burst_contention''
                 else
                   (let primaryResetMs = resolveWhamResetMs (wr_primary_window limit) now;
                        secondaryResetMs = resolveWhamResetMs (wr_secondary_window limit) now
                    in if wr_secondary_window limit = None
                       then whamWindowResult primaryResetMs now ''wham_personal_rolling''
                       else if isWhamWindowExhausted (wr_secondary_window limit)
                       then whamWindowResult secondaryResetMs now ''wham_team_weekly''
                       else if isWhamWindowExhausted (wr_primary_window limit)
                       then whamWindowResult primaryResetMs now ''wham_team_rolling''
                       else whamFailure)))"

definition activeUntil :: "rat option \<Rightarrow> rat \<Rightarrow> rat" where
  "activeUntil expiry now = (case expiry of Some u \<Rightarrow> if u > now then u else 0 | None \<Rightarrow> 0)"

definition applyWhamCooldownResult ::
  "usage_stats \<Rightarrow> usage_stats \<Rightarrow> rat \<Rightarrow> wham_result \<Rightarrow> usage_stats" where
  "applyWhamCooldownResult existing computed now whamResult =
     (case wp_blockedUntil whamResult of
        Some b \<Rightarrow>
          if b \<noteq> 0 then
            computed\<lparr>us_blockedUntil := Some (max (activeUntil (us_blockedUntil existing) now) b),
              us_blockedReason := Some SubscriptionLimit,
              us_blockedSource := Some (case wp_blockedSource whamResult of Some s \<Rightarrow> s | None \<Rightarrow> Wham),
              us_blockedModel := None, us_cooldownUntil := None, us_cooldownReason := None,
              us_cooldownModel := None\<rparr>
          else computed\<lparr>us_cooldownUntil := Some (max (activeUntil (us_cooldownUntil existing) now)
                 (now + wp_cooldownMs whamResult))\<rparr>
      | None \<Rightarrow> computed\<lparr>us_cooldownUntil := Some (max (activeUntil (us_cooldownUntil existing) now)
                 (now + wp_cooldownMs whamResult))\<rparr>)"

section \<open>Why profiles are unavailable\<close>

definition FAILURE_REASON_PRIORITY :: "failure_reason list" where
  "FAILURE_REASON_PRIORITY =
     [FrAuthPermanent, FrAuth, FrBilling, FrFormat, FrModelNotFound, FrOverloaded, FrTimeout, FrRateLimit,
      FrEmptyResponse, FrNoErrorDetails, FrUnclassified, FrUnknown]"

definition addScore ::
  "failure_reason \<Rightarrow> nat \<Rightarrow> (failure_reason, nat) jsmap \<Rightarrow> (failure_reason, nat) jsmap" where
  "addScore reason v scores =
     (if reason \<notin> set FAILURE_REASON_PRIORITY \<or> v = 0 then scores
      else jm_set reason ((case jm_get scores reason of None \<Rightarrow> 0 | Some n \<Rightarrow> n) + v) scores)"

definition countedReasons :: "usage_stats \<Rightarrow> (failure_reason \<times> nat) list" where
  "countedReasons stats =
     filter (\<lambda>(r, n). r \<in> set FAILURE_REASON_PRIORITY \<and> n > 0) (orEmptyMap (us_failureCounts stats))"

definition scoreStep ::
  "auth_store \<Rightarrow> rat \<Rightarrow> (failure_reason, nat) jsmap \<Rightarrow> string \<Rightarrow> (failure_reason, nat) jsmap" where
  "scoreStep store now scores profileId =
     (case statsOf store profileId of
        None \<Rightarrow> scores
      | Some stats \<Rightarrow>
          (case us_disabledReason stats of
             Some r \<Rightarrow>
               if isActiveUnusableWindow (us_disabledUntil stats) now \<and> r \<in> set FAILURE_REASON_PRIORITY
               then addScore r 1000 scores
               else if isActiveUnusableWindow (us_blockedUntil stats) now then addScore FrRateLimit 1000 scores
               else if \<not> isActiveUnusableWindow (us_cooldownUntil stats) now then scores
               else if countedReasons stats = [] then addScore FrUnknown 1 scores
               else foldl (\<lambda>s (r, n). addScore r n s) scores (countedReasons stats)
           | None \<Rightarrow>
               if isActiveUnusableWindow (us_blockedUntil stats) now then addScore FrRateLimit 1000 scores
               else if \<not> isActiveUnusableWindow (us_cooldownUntil stats) now then scores
               else if countedReasons stats = [] then addScore FrUnknown 1 scores
               else foldl (\<lambda>s (r, n). addScore r n s) scores (countedReasons stats)))"

text \<open>The scan in order of priority: a later reason must have a higher score to win.\<close>

definition bestStep ::
  "(failure_reason, nat) jsmap \<Rightarrow> (failure_reason \<times> nat) option \<Rightarrow> failure_reason \<Rightarrow>
   (failure_reason \<times> nat) option" where
  "bestStep scores best reason =
     (case jm_get scores reason of
        None \<Rightarrow> best
      | Some score \<Rightarrow>
          (case best of
             None \<Rightarrow> Some (reason, score)
           | Some (_, bestScore) \<Rightarrow> if score > bestScore then Some (reason, score) else best))"

definition resolveProfilesUnavailableReason ::
  "auth_store \<Rightarrow> string list \<Rightarrow> rat \<Rightarrow> failure_reason option" where
  "resolveProfilesUnavailableReason store profileIds now =
     (let scores = foldl (scoreStep store now) [] profileIds
      in if scores = [] then None
         else map_option fst (foldl (bestStep scores) None FAILURE_REASON_PRIORITY))"

section \<open>Backoff\<close>

definition calculateAuthProfileCooldownMs :: "nat \<Rightarrow> rat" where
  "calculateAuthProfileCooldownMs errorCount =
     (let normalized = max 1 errorCount
      in if normalized \<le> 1 then 30000 else if normalized \<le> 2 then 60000 else 5 * 60000)"

record cooldown_config =
  cc_billingBackoffHours :: "rat option"
  cc_billingBackoffHoursByProvider :: "(string, rat) jsmap option"
  cc_billingMaxHours :: "rat option"
  cc_authPermanentBackoffMinutes :: "rat option"
  cc_authPermanentMaxMinutes :: "rat option"
  cc_failureWindowHours :: "rat option"

record cooldown_resolved =
  cd_billingBackoffMs :: rat
  cd_billingMaxMs :: rat
  cd_authPermanentBackoffMs :: rat
  cd_authPermanentMaxMs :: rat
  cd_failureWindowMs :: rat

definition resolvePositiveNumber :: "rat option \<Rightarrow> rat \<Rightarrow> rat" where
  "resolvePositiveNumber v fallback = (case v of Some x \<Rightarrow> if x > 0 then x else fallback | None \<Rightarrow> fallback)"

definition resolveAuthCooldownConfig :: "cooldown_config option \<Rightarrow> string \<Rightarrow> cooldown_resolved" where
  "resolveAuthCooldownConfig cooldowns providerId =
     (let billingOverride = Option.bind (Option.bind cooldowns cc_billingBackoffHoursByProvider)
            (\<lambda>m. map_option snd (find (\<lambda>(key, _). normalizeProviderId key = providerId) m));
          pick = (\<lambda>f d. resolvePositiveNumber (Option.bind cooldowns f) d);
          billingBackoffHours = resolvePositiveNumber
            (case billingOverride of Some x \<Rightarrow> Some x | None \<Rightarrow> Option.bind cooldowns cc_billingBackoffHours) 5
      in \<lparr>cd_billingBackoffMs = billingBackoffHours * 60 * 60 * 1000,
          cd_billingMaxMs = pick cc_billingMaxHours 24 * 60 * 60 * 1000,
          cd_authPermanentBackoffMs = pick cc_authPermanentBackoffMinutes 10 * 60 * 1000,
          cd_authPermanentMaxMs = pick cc_authPermanentMaxMinutes 60 * 60 * 1000,
          cd_failureWindowMs = pick cc_failureWindowHours 24 * 60 * 60 * 1000\<rparr>)"

definition calculateDisabledLaneBackoffMs :: "nat \<Rightarrow> rat \<Rightarrow> rat \<Rightarrow> rat" where
  "calculateDisabledLaneBackoffMs errorCount base maximum =
     (let normalized = max 1 errorCount;
          baseMs = max 60000 base;
          maxMs = max baseMs maximum;
          exponent = min (normalized - 1) 10;
          raw = baseMs * 2 ^ exponent
      in min maxMs raw)"

definition resolveDisabledFailureBackoffMs :: "failure_reason \<Rightarrow> nat \<Rightarrow> cooldown_resolved \<Rightarrow> rat" where
  "resolveDisabledFailureBackoffMs reason errorCount cfg =
     (if reason = FrBilling
      then calculateDisabledLaneBackoffMs errorCount (cd_billingBackoffMs cfg) (cd_billingMaxMs cfg)
      else calculateDisabledLaneBackoffMs errorCount (cd_authPermanentBackoffMs cfg) (cd_authPermanentMaxMs cfg))"

definition resolveProfileUnusableUntilForDisplay :: "auth_store \<Rightarrow> string \<Rightarrow> rat option" where
  "resolveProfileUnusableUntilForDisplay store profileId =
     (if isAuthCooldownBypassedForProvider (profileProvider store profileId) then None
      else Option.bind (statsOf store profileId) resolveProfileUnusableUntil)"

section \<open>The next statistics\<close>

definition resetUsageStats :: "usage_stats option \<Rightarrow> usage_stats" where
  "resetUsageStats existing =
     (case existing of None \<Rightarrow> noStats | Some s \<Rightarrow> s)
       \<lparr>us_errorCount := Some 0, us_blockedUntil := None, us_blockedReason := None, us_blockedSource := None,
        us_blockedModel := None, us_cooldownUntil := None, us_cooldownReason := None,
        us_cooldownModel := None, us_disabledUntil := None, us_disabledReason := None,
        us_failureCounts := None\<rparr>"

definition updateUsageStatsEntry ::
  "auth_store \<Rightarrow> string \<Rightarrow> (usage_stats option \<Rightarrow> usage_stats) \<Rightarrow> auth_store" where
  "updateUsageStatsEntry store profileId updater =
     store\<lparr>as_usageStats := Some (jm_set profileId (updater (statsOf store profileId))
              (orEmptyMap (as_usageStats store)))\<rparr>"

definition keepActiveWindowOrRecompute :: "rat option \<Rightarrow> rat \<Rightarrow> rat \<Rightarrow> rat" where
  "keepActiveWindowOrRecompute existingUntil now recomputedUntil =
     (case existingUntil of Some u \<Rightarrow> if u > now then u else recomputedUntil | None \<Rightarrow> recomputedUntil)"

definition orZero :: "nat option \<Rightarrow> nat" where
  "orZero v = (case v of None \<Rightarrow> 0 | Some n \<Rightarrow> n)"

definition shouldResetCounters :: "usage_stats \<Rightarrow> rat \<Rightarrow> rat \<Rightarrow> bool" where
  "shouldResetCounters existing now windowMs \<longleftrightarrow>
     (case us_lastFailureAt existing of None \<Rightarrow> False | Some l \<Rightarrow> l > 0 \<and> now - l > windowMs) \<or>
     (case resolveProfileUnusableUntil existing of None \<Rightarrow> False | Some u \<Rightarrow> now \<ge> u)"

text \<open>The scope of a cooldown that is set or kept: one model, or \<open>None\<close> for all of them.\<close>

definition nextCooldownModel ::
  "usage_stats \<Rightarrow> rat \<Rightarrow> failure_reason \<Rightarrow> string option \<Rightarrow> string option" where
  "nextCooldownModel existing now reason modelId =
     (if (case us_cooldownUntil existing of None \<Rightarrow> False | Some u \<Rightarrow> u > now) then
        if isNonEmpty (us_cooldownModel existing) \<and> isNonEmpty modelId \<and> us_cooldownModel existing \<noteq> modelId
        then None
        else if reason = FrRateLimit \<and> \<not> isNonEmpty modelId \<and> isNonEmpty (us_cooldownModel existing) then None
        else if reason \<noteq> FrRateLimit then None
        else us_cooldownModel existing
      else if reason = FrRateLimit then modelId else None)"

definition computeNextProfileUsageStats ::
  "usage_stats \<Rightarrow> rat \<Rightarrow> failure_reason \<Rightarrow> cooldown_resolved \<Rightarrow> string option \<Rightarrow> usage_stats" where
  "computeNextProfileUsageStats existing now reason cfg modelId =
     (let reset = shouldResetCounters existing now (cd_failureWindowMs cfg);
          baseErrorCount = (if reset then 0 else orZero (us_errorCount existing));
          nextErrorCount = baseErrorCount + 1;
          oldCounts = (if reset then [] else orEmptyMap (us_failureCounts existing));
          failureCounts = jm_set reason (orZero (jm_get oldCounts reason) + 1) oldCounts;
          updated = existing\<lparr>us_errorCount := Some nextErrorCount, us_failureCounts := Some failureCounts,
                      us_lastFailureAt := Some now\<rparr>
      in if reason = FrBilling \<or> reason = FrAuthPermanent then
           let backoffMs = resolveDisabledFailureBackoffMs reason (orZero (jm_get failureCounts reason)) cfg
           in updated\<lparr>us_disabledUntil := Some (keepActiveWindowOrRecompute (us_disabledUntil existing) now (now + backoffMs)),
                us_disabledReason := Some reason\<rparr>
         else
           let backoffMs = calculateAuthProfileCooldownMs nextErrorCount
           in updated\<lparr>us_cooldownUntil := Some (keepActiveWindowOrRecompute (us_cooldownUntil existing) now (now + backoffMs)),
                us_cooldownReason := Some reason,
                us_cooldownModel := nextCooldownModel existing now reason modelId\<rparr>)"

section \<open>Operations on the store\<close>

text \<open>
  \<open>updateAuthProfileStoreWithLock\<close>: \<open>fresh\<close> is the store as read under the lock, or \<open>None\<close> when the
  update failed.  The first component is the store the call returns, the second the store it saved.
\<close>

type_synonym updater = "auth_store \<Rightarrow> auth_store \<times> bool"

definition updateAuthProfileStoreWithLock ::
  "auth_store option \<Rightarrow> updater \<Rightarrow> auth_store option \<times> auth_store option" where
  "updateAuthProfileStoreWithLock fresh updater =
     (case fresh of
        None \<Rightarrow> (None, None)
      | Some store \<Rightarrow>
          (let (store', shouldSave) = updater store
           in (Some store', if shouldSave then Some store' else None)))"

text \<open>
  An operation takes the store of the caller and the locked read; it gives the caller's store and the
  store that was saved, if one was.
\<close>

type_synonym usage_outcome = "auth_store \<times> auth_store option"

definition failureStats ::
  "auth_store \<Rightarrow> string \<Rightarrow> failure_reason \<Rightarrow> cooldown_config option \<Rightarrow> string option \<Rightarrow> rat \<Rightarrow>
   wham_result option \<Rightarrow> usage_stats" where
  "failureStats store profileId reason cfg modelId now whamResult =
     (let previous = (case statsOf store profileId of None \<Rightarrow> noStats | Some s \<Rightarrow> s);
          provider = profileProvider store profileId;
          resolved = resolveAuthCooldownConfig cfg (normalizeProviderId (orEmpty provider));
          computed = computeNextProfileUsageStats previous now reason resolved modelId
      in case whamResult of
           Some w \<Rightarrow> if shouldProbeWhamForFailure provider reason
                     then applyWhamCooldownResult previous computed now w else computed
         | None \<Rightarrow> computed)"

definition failureUpdater ::
  "string \<Rightarrow> failure_reason \<Rightarrow> cooldown_config option \<Rightarrow> string option \<Rightarrow> rat \<Rightarrow> wham_result option \<Rightarrow> updater" where
  "failureUpdater profileId reason cfg modelId now whamResult store =
     (case jm_get (as_profiles store) profileId of
        None \<Rightarrow> (store, False)
      | Some profile \<Rightarrow>
          if isAuthCooldownBypassedForProvider (Some (cr_provider profile)) then (store, False)
          else (updateUsageStatsEntry store profileId
                  (\<lambda>_. failureStats store profileId reason cfg modelId now whamResult), True))"

definition markAuthProfileFailure ::
  "auth_store \<Rightarrow> auth_store option \<Rightarrow> string \<Rightarrow> failure_reason \<Rightarrow> cooldown_config option \<Rightarrow> string option \<Rightarrow>
   rat \<Rightarrow> wham_response \<Rightarrow> rat \<Rightarrow> usage_outcome" where
  "markAuthProfileFailure store fresh profileId reason cfg modelId now response probeNow =
     (case jm_get (as_profiles store) profileId of
        None \<Rightarrow> (store, None)
      | Some profile \<Rightarrow>
          if isAuthCooldownBypassedForProvider (Some (cr_provider profile)) then (store, None)
          else
            (let whamResult = (if shouldProbeWhamForFailure (Some (cr_provider profile)) reason
                   then probeWhamForCooldown store profileId response probeNow else None)
             in case updateAuthProfileStoreWithLock fresh
                       (failureUpdater profileId reason cfg modelId now whamResult) of
                  (Some updated, saved) \<Rightarrow> (store\<lparr>as_usageStats := as_usageStats updated\<rparr>, saved)
                | (None, _) \<Rightarrow>
                    (let store' = updateUsageStatsEntry store profileId
                           (\<lambda>_. failureStats store profileId reason cfg modelId now whamResult)
                     in (store', Some store'))))"

definition blockedStats ::
  "usage_stats option \<Rightarrow> rat \<Rightarrow> blocked_source \<Rightarrow> string option \<Rightarrow> rat \<Rightarrow> usage_stats" where
  "blockedStats previous blockedUntil source modelId now =
     (let prev = (case previous of None \<Rightarrow> noStats | Some s \<Rightarrow> s);
          counts = orEmptyMap (us_failureCounts prev)
      in prev\<lparr>us_blockedUntil := Some (max (activeUntil (us_blockedUntil prev) now) blockedUntil),
           us_blockedReason := Some SubscriptionLimit, us_blockedSource := Some source,
           us_blockedModel := modelId, us_cooldownUntil := None, us_cooldownReason := None,
           us_cooldownModel := None, us_lastFailureAt := Some now,
           us_failureCounts := Some (jm_set FrRateLimit (orZero (jm_get counts FrRateLimit) + 1) counts)\<rparr>)"

definition blockedUpdater ::
  "string \<Rightarrow> rat \<Rightarrow> blocked_source \<Rightarrow> string option \<Rightarrow> rat \<Rightarrow> updater" where
  "blockedUpdater profileId blockedUntil source modelId now store =
     (case jm_get (as_profiles store) profileId of
        None \<Rightarrow> (store, False)
      | Some profile \<Rightarrow>
          if isAuthCooldownBypassedForProvider (Some (cr_provider profile)) then (store, False)
          else (updateUsageStatsEntry store profileId
                  (\<lambda>previous. blockedStats previous blockedUntil source modelId now), True))"

text \<open>The first clock reading decides whether the call does anything, the second is the update's.\<close>

definition markAuthProfileBlockedUntil ::
  "auth_store \<Rightarrow> auth_store option \<Rightarrow> string \<Rightarrow> jsnum \<Rightarrow> blocked_source \<Rightarrow> string option \<Rightarrow> rat \<Rightarrow> rat \<Rightarrow>
   usage_outcome" where
  "markAuthProfileBlockedUntil store fresh profileId blockedUntil source modelId callNow now =
     (case (jm_get (as_profiles store) profileId, blockedUntil) of
        (Some profile, Fin expiry) \<Rightarrow>
          if isAuthCooldownBypassedForProvider (Some (cr_provider profile)) \<or> expiry \<le> callNow then (store, None)
          else
            (case updateAuthProfileStoreWithLock fresh (blockedUpdater profileId expiry source modelId now) of
               (Some updated, saved) \<Rightarrow> (store\<lparr>as_usageStats := as_usageStats updated\<rparr>, saved)
             | (None, _) \<Rightarrow>
                 (let store' = updateUsageStatsEntry store profileId
                        (\<lambda>previous. blockedStats previous expiry source modelId now)
                  in (store', Some store')))
      | _ \<Rightarrow> (store, None))"

definition markAuthProfileCooldown ::
  "auth_store \<Rightarrow> auth_store option \<Rightarrow> string \<Rightarrow> rat \<Rightarrow> wham_response \<Rightarrow> rat \<Rightarrow> usage_outcome" where
  "markAuthProfileCooldown store fresh profileId now response probeNow =
     markAuthProfileFailure store fresh profileId FrUnknown None None now response probeNow"

definition clearUpdater :: "string \<Rightarrow> updater" where
  "clearUpdater profileId store =
     (case statsOf store profileId of
        None \<Rightarrow> (store, False)
      | Some _ \<Rightarrow> (updateUsageStatsEntry store profileId resetUsageStats, True))"

definition clearAuthProfileCooldown :: "auth_store \<Rightarrow> auth_store option \<Rightarrow> string \<Rightarrow> usage_outcome" where
  "clearAuthProfileCooldown store fresh profileId =
     (case updateAuthProfileStoreWithLock fresh (clearUpdater profileId) of
        (Some updated, saved) \<Rightarrow> (store\<lparr>as_usageStats := as_usageStats updated\<rparr>, saved)
      | (None, _) \<Rightarrow>
          (case statsOf store profileId of
             None \<Rightarrow> (store, None)
           | Some _ \<Rightarrow>
               (let store' = updateUsageStatsEntry store profileId resetUsageStats in (store', Some store'))))"

section \<open>Success: \<open>profiles.ts\<close>\<close>

definition resetSuccessfulUsageStats :: "usage_stats option \<Rightarrow> rat \<Rightarrow> usage_stats" where
  "resetSuccessfulUsageStats existing lastUsed = (resetUsageStats existing)\<lparr>us_lastUsed := Some lastUsed\<rparr>"

text \<open>The key under which credentials of a provider are looked up depends on plugins; it is an argument.\<close>

definition successStore :: "auth_store \<Rightarrow> string \<Rightarrow> string \<Rightarrow> rat \<Rightarrow> auth_store" where
  "successStore store providerKey profileId lastUsed =
     updateUsageStatsEntry
       (store\<lparr>as_lastGood := Some (jm_set providerKey profileId (orEmptyMap (as_lastGood store)))\<rparr>)
       profileId (\<lambda>existing. resetSuccessfulUsageStats existing lastUsed)"

definition successApplies :: "(string \<Rightarrow> string) \<Rightarrow> auth_store \<Rightarrow> string \<Rightarrow> string \<Rightarrow> bool" where
  "successApplies authKey store providerKey profileId \<longleftrightarrow>
     (case jm_get (as_profiles store) profileId of
        None \<Rightarrow> False | Some profile \<Rightarrow> authKey (cr_provider profile) = providerKey)"

definition successUpdater :: "(string \<Rightarrow> string) \<Rightarrow> string \<Rightarrow> string \<Rightarrow> rat \<Rightarrow> updater" where
  "successUpdater authKey providerKey profileId lastUsed store =
     (if successApplies authKey store providerKey profileId
      then (successStore store providerKey profileId lastUsed, True) else (store, False))"

definition markAuthProfileSuccess ::
  "(string \<Rightarrow> string) \<Rightarrow> auth_store \<Rightarrow> auth_store option \<Rightarrow> string \<Rightarrow> string \<Rightarrow> rat \<Rightarrow> usage_outcome" where
  "markAuthProfileSuccess authKey store fresh provider profileId lastUsed =
     (let providerKey = authKey provider
      in case updateAuthProfileStoreWithLock fresh (successUpdater authKey providerKey profileId lastUsed) of
           (Some updated, saved) \<Rightarrow>
             (store\<lparr>as_lastGood := as_lastGood updated, as_usageStats := as_usageStats updated\<rparr>, saved)
         | (None, _) \<Rightarrow>
             (if successApplies authKey store providerKey profileId
              then (successStore store providerKey profileId lastUsed,
                    Some (successStore store providerKey profileId lastUsed))
              else (store, None)))"

end
