(* ===== verification/AuthOrder.thy ===== *)
theory AuthOrder
  imports AuthUsage IngressState
begin

text \<open>
  Choice and order of authentication profiles: \<open>order.ts\<close>, \<open>credential-state.ts\<close>, \<open>profile-list.ts\<close>
  and the other operations of \<open>profiles.ts\<close> under \<open>src/agents/auth-profiles/\<close>, with the references to
  secrets of \<open>src/config/types.secrets.ts\<close> they rest on.

  The provider under which credentials are kept depends on the installed plugins, and on the
  configuration where the code passes it: two functions are arguments, \<open>authKey\<close> for
  \<open>resolveProviderIdForAuth(p)\<close> and \<open>cfgKey\<close> for \<open>resolveProviderIdForAuth(p, {config})\<close>.  Objects are
  walked in insertion order.  The clock is read once per check of a profile; these readings are the
  argument \<open>checkAt\<close>.
\<close>

section \<open>References to secrets: \<open>types.secrets.ts\<close>\<close>

definition isUpperAZ :: "char \<Rightarrow> bool" where
  "isUpperAZ c \<longleftrightarrow> 65 \<le> (of_char c :: nat) \<and> (of_char c :: nat) \<le> 90"

definition isEnvIdChar :: "char \<Rightarrow> bool" where
  "isEnvIdChar c \<longleftrightarrow> isUpperAZ c \<or> (48 \<le> (of_char c :: nat) \<and> (of_char c :: nat) \<le> 57) \<or> c = CHR ''_''"

definition isValidEnvSecretRefId :: "string \<Rightarrow> bool" where
  "isValidEnvSecretRefId v \<longleftrightarrow>
     (case v of [] \<Rightarrow> False | c # cs \<Rightarrow> isUpperAZ c \<and> length cs \<le> 127 \<and> list_all isEnvIdChar cs)"

definition LEGACY_SECRETREF_ENV_MARKER_PREFIX :: string where
  "LEGACY_SECRETREF_ENV_MARKER_PREFIX = ''secretref-env:''"

definition LEGACY_DOUBLE_UNDERSCORE_ENV_MARKER_PREFIX :: string where
  "LEGACY_DOUBLE_UNDERSCORE_ENV_MARKER_PREFIX = ''__env__:''"

definition DEFAULT_SECRET_PROVIDER_ALIAS :: string where
  "DEFAULT_SECRET_PROVIDER_ALIAS = ''default''"

record secret_ref =
  sr_source :: secret_source
  sr_provider :: string
  sr_id :: string

definition isSecretRef :: "secret_ref_value \<Rightarrow> bool" where
  "isSecretRef v \<longleftrightarrow>
     (case v of
        RefObject _ (Some provider) i extra \<Rightarrow> \<not> extra \<and> js_trim provider \<noteq> [] \<and> js_trim i \<noteq> []
      | _ \<Rightarrow> False)"

definition isLegacySecretRefWithoutProvider :: "secret_ref_value \<Rightarrow> bool" where
  "isLegacySecretRefWithoutProvider v \<longleftrightarrow>
     (case v of RefObject _ None i _ \<Rightarrow> js_trim i \<noteq> [] | _ \<Rightarrow> False)"

definition parseEnvTemplateSecretRef :: "secret_ref_value \<Rightarrow> secret_ref option" where
  "parseEnvTemplateSecretRef v =
     (case v of
        RefText s \<Rightarrow>
          (let t = js_trim s; inner = take (length t - 3) (drop 2 t)
           in if t = ''${'' @ inner @ ''}'' \<and> isValidEnvSecretRefId inner
              then Some \<lparr>sr_source = SecretEnv, sr_provider = DEFAULT_SECRET_PROVIDER_ALIAS, sr_id = inner\<rparr>
              else None)
      | _ \<Rightarrow> None)"

definition parseLegacySecretRefEnvMarker :: "secret_ref_value \<Rightarrow> secret_ref option" where
  "parseLegacySecretRefEnvMarker v =
     (case v of
        RefText s \<Rightarrow>
          (let t = js_trim s;
               marker = (if js_startsWith t LEGACY_SECRETREF_ENV_MARKER_PREFIX then Some LEGACY_SECRETREF_ENV_MARKER_PREFIX
                  else if js_startsWith t LEGACY_DOUBLE_UNDERSCORE_ENV_MARKER_PREFIX
                  then Some LEGACY_DOUBLE_UNDERSCORE_ENV_MARKER_PREFIX else None)
           in (case marker of
                 None \<Rightarrow> None
               | Some p \<Rightarrow>
                   (let i = drop (length p) t
                    in if isValidEnvSecretRefId i
                       then Some \<lparr>sr_source = SecretEnv, sr_provider = DEFAULT_SECRET_PROVIDER_ALIAS, sr_id = i\<rparr>
                       else None)))
      | _ \<Rightarrow> None)"

text \<open>Without defaults for the providers, as the eligibility check calls it.\<close>

definition coerceSecretRef :: "secret_ref_value \<Rightarrow> secret_ref option" where
  "coerceSecretRef v =
     (case v of
        RefObject source provider i _ \<Rightarrow>
          if isSecretRef v
          then Some \<lparr>sr_source = source, sr_provider = orEmpty provider, sr_id = i\<rparr>
          else if isLegacySecretRefWithoutProvider v
          then Some \<lparr>sr_source = source, sr_provider = DEFAULT_SECRET_PROVIDER_ALIAS, sr_id = i\<rparr>
          else None
      | RefText _ \<Rightarrow>
          (case parseLegacySecretRefEnvMarker v of
             Some r \<Rightarrow> Some r
           | None \<Rightarrow> parseEnvTemplateSecretRef v))"

definition normalizeSecretInputString :: "string option \<Rightarrow> string option" where
  "normalizeSecretInputString v =
     (case v of None \<Rightarrow> None | Some s \<Rightarrow> if length (js_trim s) > 0 then Some (js_trim s) else None)"

text \<open>Characters beyond Latin-1 are not in the model, so only line breaks are dropped.\<close>

definition normalizeSecretInput :: "string option \<Rightarrow> string" where
  "normalizeSecretInput v =
     (case v of None \<Rightarrow> [] | Some s \<Rightarrow> js_trim (filter (\<lambda>c. c \<noteq> CHR 0x0D \<and> c \<noteq> CHR 0x0A) s))"

section \<open>Stored credentials: \<open>credential-state.ts\<close>\<close>

datatype credential_reason = CrOk | CrMissingCredential | CrInvalidExpires | CrExpired | CrUnresolvedRef

datatype token_expiry_state = TeMissing | TeValid | TeExpiring | TeExpired | TeInvalidExpires

definition DEFAULT_OAUTH_REFRESH_MARGIN_MS :: rat where
  "DEFAULT_OAUTH_REFRESH_MARGIN_MS = 5 * 60 * 1000"

definition resolveTokenExpiryState :: "jsnum option \<Rightarrow> rat \<Rightarrow> rat option \<Rightarrow> token_expiry_state" where
  "resolveTokenExpiryState expires now expiringWithin =
     (case expires of
        None \<Rightarrow> TeMissing
      | Some (Fin e) \<Rightarrow>
          if e \<le> 0 then TeInvalidExpires
          else
            (let remainingMs = e - now;
                 expiringWithinMs = max 0 (case expiringWithin of None \<Rightarrow> 0 | Some w \<Rightarrow> w)
             in if remainingMs \<le> 0 then TeExpired
                else if expiringWithinMs > 0 \<and> remainingMs \<le> expiringWithinMs then TeExpiring
                else TeValid)
      | Some _ \<Rightarrow> TeInvalidExpires)"

definition hasUsableOAuthCredential :: "credential option \<Rightarrow> rat \<Rightarrow> rat option \<Rightarrow> bool" where
  "hasUsableOAuthCredential credential now refreshMargin \<longleftrightarrow>
     (case credential of
        Some (OAuthCredential _ (Some access) _ _ expires) \<Rightarrow>
          if js_trim access = [] then False
          else resolveTokenExpiryState expires now
                 (Some (max 0 (case refreshMargin of None \<Rightarrow> DEFAULT_OAUTH_REFRESH_MARGIN_MS | Some r \<Rightarrow> r)))
               = TeValid
      | _ \<Rightarrow> False)"

definition hasConfiguredSecretRef :: "secret_ref_value option \<Rightarrow> bool" where
  "hasConfiguredSecretRef v \<longleftrightarrow> Option.bind v coerceSecretRef \<noteq> None"

definition hasConfiguredSecretString :: "string option \<Rightarrow> bool" where
  "hasConfiguredSecretString v \<longleftrightarrow> normalizeSecretInputString v \<noteq> None"

definition isLowerHex :: "char \<Rightarrow> bool" where
  "isLowerHex c \<longleftrightarrow> (97 \<le> (of_char c :: nat) \<and> (of_char c :: nat) \<le> 102) \<or>
     (48 \<le> (of_char c :: nat) \<and> (of_char c :: nat) \<le> 57)"

definition hasConfiguredOAuthRef :: "oauth_ref option \<Rightarrow> bool" where
  "hasConfiguredOAuthRef v \<longleftrightarrow>
     (case v of
        None \<Rightarrow> False
      | Some r \<Rightarrow> or_source r = ''openclaw-credentials'' \<and> or_provider r = ''openai-codex'' \<and>
                 length (or_id r) = 32 \<and> list_all isLowerHex (or_id r))"

definition evaluateStoredCredentialEligibility :: "credential \<Rightarrow> rat \<Rightarrow> bool \<times> credential_reason" where
  "evaluateStoredCredentialEligibility credential now =
     (case credential of
        ApiKeyCredential _ key keyRef \<Rightarrow>
          if \<not> hasConfiguredSecretString key \<and> \<not> hasConfiguredSecretRef keyRef
          then (False, CrMissingCredential) else (True, CrOk)
      | TokenCredential _ token tokenRef expires \<Rightarrow>
          if \<not> hasConfiguredSecretString token \<and> \<not> hasConfiguredSecretRef tokenRef
          then (False, CrMissingCredential)
          else if resolveTokenExpiryState expires now None = TeInvalidExpires then (False, CrInvalidExpires)
          else if resolveTokenExpiryState expires now None = TeExpired then (False, CrExpired)
          else (True, CrOk)
      | OAuthCredential _ access refresh oauthRef _ \<Rightarrow>
          if normalizeSecretInputString access = None \<and> normalizeSecretInputString refresh = None \<and>
             \<not> hasConfiguredOAuthRef oauthRef
          then (False, CrMissingCredential) else (True, CrOk))"

section \<open>Eligibility: \<open>order.ts\<close>\<close>

datatype profile_mode = ModeApiKey | ModeAwsSdk | ModeOAuth | ModeToken

fun cr_type :: "credential \<Rightarrow> profile_mode" where
  "cr_type (ApiKeyCredential _ _ _) = ModeApiKey"
| "cr_type (TokenCredential _ _ _ _) = ModeToken"
| "cr_type (OAuthCredential _ _ _ _ _) = ModeOAuth"

record profile_config =
  pc_provider :: string
  pc_mode :: profile_mode

text \<open>Of the configuration: the profiles and orders of \<open>auth\<close>, and the \<open>auth\<close> of each model provider.\<close>

record auth_config =
  ac_profiles :: "(string, profile_config) jsmap option"
  ac_order :: "(string, string list) jsmap option"
  ac_providers :: "(string, string option) jsmap option"

datatype eligibility_reason = ErCredential credential_reason | ErProfileMissing | ErProviderMismatch | ErModeMismatch

record eligibility =
  el_eligible :: bool
  el_reasonCode :: eligibility_reason

definition OPENAI_PROVIDER_ID :: string where "OPENAI_PROVIDER_ID = ''openai''"
definition OPENAI_CODEX_PROVIDER_ID :: string where "OPENAI_CODEX_PROVIDER_ID = ''openai-codex''"

definition isOpenAIApiKeyCompatibleWithCodexAuth ::
  "(string \<Rightarrow> string) \<Rightarrow> string \<Rightarrow> credential option \<Rightarrow> string option \<Rightarrow> profile_mode option \<Rightarrow> bool" where
  "isOpenAIApiKeyCompatibleWithCodexAuth cfgKey providerAuthKey credential profProvider profMode \<longleftrightarrow>
     (if providerAuthKey \<noteq> OPENAI_CODEX_PROVIDER_ID then False
      else
        (let providerKey = cfgKey (orEmpty profProvider);
             mode = (case credential of Some c \<Rightarrow> Some (cr_type c) | None \<Rightarrow> profMode)
         in providerKey = OPENAI_PROVIDER_ID \<and> mode = Some ModeApiKey))"

definition isCredentialProviderCompatibleWithAuthProvider ::
  "(string \<Rightarrow> string) \<Rightarrow> string \<Rightarrow> credential \<Rightarrow> bool" where
  "isCredentialProviderCompatibleWithAuthProvider cfgKey providerAuthKey credential \<longleftrightarrow>
     cfgKey (cr_provider credential) = providerAuthKey \<or>
     isOpenAIApiKeyCompatibleWithCodexAuth cfgKey providerAuthKey (Some credential)
       (Some (cr_provider credential)) None"

definition isStoredCredentialCompatibleWithAuthProvider ::
  "(string \<Rightarrow> string) \<Rightarrow> string \<Rightarrow> credential \<Rightarrow> bool" where
  "isStoredCredentialCompatibleWithAuthProvider cfgKey provider credential \<longleftrightarrow>
     isCredentialProviderCompatibleWithAuthProvider cfgKey (cfgKey provider) credential"

definition isConfiguredProfileCompatibleWithAuthProvider ::
  "(string \<Rightarrow> string) \<Rightarrow> string \<Rightarrow> profile_config \<Rightarrow> credential option \<Rightarrow> bool" where
  "isConfiguredProfileCompatibleWithAuthProvider cfgKey providerAuthKey profile credential \<longleftrightarrow>
     cfgKey (pc_provider profile) = providerAuthKey \<or>
     isOpenAIApiKeyCompatibleWithCodexAuth cfgKey providerAuthKey credential
       (Some (pc_provider profile)) (Some (pc_mode profile))"

definition listProfilesForProvider :: "(string \<Rightarrow> string) \<Rightarrow> auth_store \<Rightarrow> string \<Rightarrow> string list" where
  "listProfilesForProvider authKey store provider =
     map fst (filter (\<lambda>(_, cred). authKey (cr_provider cred) = authKey provider) (as_profiles store))"

definition listProfilesCompatibleWithAuthProvider ::
  "(string \<Rightarrow> string) \<Rightarrow> (string \<Rightarrow> string) \<Rightarrow> auth_store \<Rightarrow> string \<Rightarrow> string \<Rightarrow> string list" where
  "listProfilesCompatibleWithAuthProvider authKey cfgKey store provider providerAuthKey =
     (if providerAuthKey \<noteq> OPENAI_CODEX_PROVIDER_ID then listProfilesForProvider authKey store provider
      else map fst (filter (\<lambda>(_, credential).
             isCredentialProviderCompatibleWithAuthProvider cfgKey providerAuthKey credential) (as_profiles store)))"

definition resolveProviderAuthMode :: "auth_config option \<Rightarrow> string \<Rightarrow> string option" where
  "resolveProviderAuthMode cfg provider =
     Option.bind (findNormalizedProviderValue (Option.bind cfg ac_providers) provider) id"

definition providerAllowsAwsSdkAuth :: "auth_config option \<Rightarrow> string \<Rightarrow> bool" where
  "providerAllowsAwsSdkAuth cfg provider \<longleftrightarrow>
     resolveProviderAuthMode cfg provider = Some ''aws-sdk'' \<or>
     (resolveProviderAuthMode cfg provider = None \<and> normalizeProviderId provider = ''amazon-bedrock'')"

definition configuredProfile :: "auth_config option \<Rightarrow> string \<Rightarrow> profile_config option" where
  "configuredProfile cfg profileId = jm_get (orEmptyMap (Option.bind cfg ac_profiles)) profileId"

definition isConfiguredAwsSdkAuthProfileForProvider ::
  "(string \<Rightarrow> string) \<Rightarrow> auth_config option \<Rightarrow> string \<Rightarrow> string \<Rightarrow> bool" where
  "isConfiguredAwsSdkAuthProfileForProvider cfgKey cfg provider profileId \<longleftrightarrow>
     (case configuredProfile cfg profileId of
        None \<Rightarrow> False
      | Some p \<Rightarrow>
          if pc_mode p \<noteq> ModeAwsSdk then False
          else if cfgKey (pc_provider p) \<noteq> cfgKey provider then False
          else providerAllowsAwsSdkAuth cfg provider)"

definition storedEligibility :: "credential \<Rightarrow> rat \<Rightarrow> eligibility" where
  "storedEligibility cred now =
     (case evaluateStoredCredentialEligibility cred now of
        (ok, reason) \<Rightarrow> \<lparr>el_eligible = ok, el_reasonCode = ErCredential reason\<rparr>)"

definition resolveAuthProfileEligibility ::
  "(string \<Rightarrow> string) \<Rightarrow> auth_config option \<Rightarrow> auth_store \<Rightarrow> string \<Rightarrow> string \<Rightarrow> rat \<Rightarrow> eligibility" where
  "resolveAuthProfileEligibility cfgKey cfg store provider profileId now =
     (let providerAuthKey = cfgKey provider
      in case jm_get (as_profiles store) profileId of
           None \<Rightarrow>
             if isConfiguredAwsSdkAuthProfileForProvider cfgKey cfg provider profileId
             then \<lparr>el_eligible = True, el_reasonCode = ErCredential CrOk\<rparr>
             else \<lparr>el_eligible = False, el_reasonCode = ErProfileMissing\<rparr>
         | Some cred \<Rightarrow>
             if \<not> isCredentialProviderCompatibleWithAuthProvider cfgKey providerAuthKey cred
             then \<lparr>el_eligible = False, el_reasonCode = ErProviderMismatch\<rparr>
             else
               (case configuredProfile cfg profileId of
                  None \<Rightarrow> storedEligibility cred now
                | Some p \<Rightarrow>
                    if \<not> isConfiguredProfileCompatibleWithAuthProvider cfgKey providerAuthKey p (Some cred)
                    then \<lparr>el_eligible = False, el_reasonCode = ErProviderMismatch\<rparr>
                    else if pc_mode p \<noteq> cr_type cred \<and> \<not> (pc_mode p = ModeOAuth \<and> cr_type cred = ModeToken)
                    then \<lparr>el_eligible = False, el_reasonCode = ErModeMismatch\<rparr>
                    else storedEligibility cred now))"

section \<open>Order\<close>

definition resolveAuthOrder :: "(string, string list) jsmap option \<Rightarrow> string \<Rightarrow> string list option" where
  "resolveAuthOrder order provider = findNormalizedProviderValue order provider"

definition dedupeProfileIds :: "string list \<Rightarrow> string list" where
  "dedupeProfileIds profileIds = rev (remdups (rev profileIds))"

definition isNativeCredentialProviderCompatibleWithAuthProvider ::
  "(string \<Rightarrow> string) \<Rightarrow> string \<Rightarrow> credential option \<Rightarrow> bool" where
  "isNativeCredentialProviderCompatibleWithAuthProvider cfgKey providerAuthKey credential \<longleftrightarrow>
     (case credential of None \<Rightarrow> False | Some c \<Rightarrow> cfgKey (cr_provider c) = providerAuthKey)"

definition mergeAliasOrderWithNativeProfiles :: "string list \<Rightarrow> string list \<Rightarrow> string list" where
  "mergeAliasOrderWithNativeProfiles aliasOrder nativeProfiles =
     (let aliasHasNativeProfile = list_ex (\<lambda>i. i \<in> set nativeProfiles) aliasOrder
      in dedupeProfileIds (if aliasHasNativeProfile then aliasOrder @ nativeProfiles
                           else nativeProfiles @ aliasOrder))"

definition rat_compare :: "rat \<Rightarrow> rat \<Rightarrow> int" where
  "rat_compare a b = (if a < b then -1 else if a = b then 0 else 1)"

definition unusableUntilOr :: "auth_store \<Rightarrow> rat \<Rightarrow> string \<Rightarrow> rat" where
  "unusableUntilOr store now profileId =
     (case resolveProfileUnusableUntil (case statsOf store profileId of None \<Rightarrow> noStats | Some s \<Rightarrow> s) of
        None \<Rightarrow> now | Some u \<Rightarrow> u)"

definition sortByExpiry :: "auth_store \<Rightarrow> rat \<Rightarrow> string list \<Rightarrow> string list" where
  "sortByExpiry store now profileIds =
     map fst (js_toSorted (\<lambda>a b. rat_compare (snd a) (snd b))
                (map (\<lambda>i. (i, unusableUntilOr store now i)) profileIds))"

definition typeScore :: "credential option \<Rightarrow> nat" where
  "typeScore credential =
     (case credential of
        Some (OAuthCredential _ _ _ _ _) \<Rightarrow> 0
      | Some (TokenCredential _ _ _ _) \<Rightarrow> 1
      | Some (ApiKeyCredential _ _ _) \<Rightarrow> 2
      | None \<Rightarrow> 3)"

definition lastUsedOf :: "auth_store \<Rightarrow> string \<Rightarrow> rat" where
  "lastUsedOf store profileId =
     (case Option.bind (statsOf store profileId) us_lastUsed of None \<Rightarrow> 0 | Some t \<Rightarrow> t)"

definition compareScored :: "(string \<times> nat \<times> rat) \<Rightarrow> (string \<times> nat \<times> rat) \<Rightarrow> int" where
  "compareScored a b =
     (case (a, b) of ((_, sa, la), (_, sb, lb)) \<Rightarrow>
        if sa \<noteq> sb then int sa - int sb else rat_compare la lb)"

definition orderProfilesByMode :: "string list \<Rightarrow> auth_store \<Rightarrow> (string \<Rightarrow> rat) \<Rightarrow> rat \<Rightarrow> string list" where
  "orderProfilesByMode order store checkAt now =
     (let inCooldown = filter (\<lambda>i. isProfileInCooldown store i (checkAt i) None) order;
          available = filter (\<lambda>i. \<not> isProfileInCooldown store i (checkAt i) None) order;
          scored = map (\<lambda>i. (i, typeScore (jm_get (as_profiles store) i), lastUsedOf store i)) available;
          sorted = map fst (js_toSorted compareScored scored)
      in sorted @ sortByExpiry store now inCooldown)"

definition orderExplicitly :: "string list \<Rightarrow> auth_store \<Rightarrow> (string \<Rightarrow> rat) \<Rightarrow> rat \<Rightarrow> string list" where
  "orderExplicitly order store checkAt now =
     filter (\<lambda>i. \<not> isProfileInCooldown store i (checkAt i) None) order @
     sortByExpiry store now (filter (\<lambda>i. isProfileInCooldown store i (checkAt i) None) order)"

definition preferProfile :: "string option \<Rightarrow> string list \<Rightarrow> string list" where
  "preferProfile preferredProfile ordered =
     (case preferredProfile of
        None \<Rightarrow> ordered
      | Some p \<Rightarrow> if p \<noteq> [] \<and> p \<in> set ordered then p # filter (\<lambda>e. e \<noteq> p) ordered else ordered)"

definition orElseOrder :: "'a option \<Rightarrow> 'a option \<Rightarrow> 'a option" where
  "orElseOrder a b = (case a of None \<Rightarrow> b | Some x \<Rightarrow> Some x)"

text \<open>The orders that apply: the one given for the provider, or for the provider it is an alias of.\<close>

definition explicitProfilesOf ::
  "(string \<Rightarrow> string) \<Rightarrow> auth_config option \<Rightarrow> auth_store \<Rightarrow> string \<Rightarrow> string list" where
  "explicitProfilesOf cfgKey cfg store providerAuthKey =
     map fst (filter (\<lambda>(i, p). isConfiguredProfileCompatibleWithAuthProvider cfgKey providerAuthKey p
                (jm_get (as_profiles store) i)) (orEmptyMap (Option.bind cfg ac_profiles)))"

definition nativeStoreProfilesOf ::
  "(string \<Rightarrow> string) \<Rightarrow> auth_store \<Rightarrow> string \<Rightarrow> string list \<Rightarrow> string list" where
  "nativeStoreProfilesOf cfgKey store providerAuthKey storeProfiles =
     (if providerAuthKey = OPENAI_CODEX_PROVIDER_ID
      then filter (\<lambda>i. isNativeCredentialProviderCompatibleWithAuthProvider cfgKey providerAuthKey
                     (jm_get (as_profiles store) i)) storeProfiles
      else [])"

definition explicitOrderOf ::
  "auth_config option \<Rightarrow> auth_store \<Rightarrow> string \<Rightarrow> string \<Rightarrow> string list \<Rightarrow> string list option" where
  "explicitOrderOf cfg store providerKey providerAuthKey nativeStoreProfiles =
     (let aliased = (providerAuthKey = OPENAI_CODEX_PROVIDER_ID \<or> providerKey = OPENAI_CODEX_PROVIDER_ID);
          cfgOrder = Option.bind cfg ac_order;
          directStoredOrder = orElseOrder (resolveAuthOrder (as_order store) providerAuthKey)
            (resolveAuthOrder (as_order store) providerKey);
          aliasStoredOrder = (if aliased then resolveAuthOrder (as_order store) OPENAI_PROVIDER_ID else None);
          directConfiguredOrder = orElseOrder (resolveAuthOrder cfgOrder providerAuthKey)
            (resolveAuthOrder cfgOrder providerKey);
          aliasConfiguredOrder = (if aliased then resolveAuthOrder cfgOrder OPENAI_PROVIDER_ID else None);
          directExplicitOrder = orElseOrder directStoredOrder directConfiguredOrder;
          aliasExplicitOrder = orElseOrder aliasStoredOrder aliasConfiguredOrder
      in orElseOrder directExplicitOrder
           (map_option (\<lambda>ids. mergeAliasOrderWithNativeProfiles ids nativeStoreProfiles) aliasExplicitOrder))"

definition profileCandidates ::
  "(string \<Rightarrow> string) \<Rightarrow> auth_config option \<Rightarrow> auth_store \<Rightarrow> string \<Rightarrow> rat \<Rightarrow>
   string list \<Rightarrow> string list \<Rightarrow> string list option \<Rightarrow> string list" where
  "profileCandidates cfgKey cfg store provider now explicitProfiles storeProfiles explicitOrder =
     (let baseOrder = (case explicitOrder of
            Some ids \<Rightarrow> ids
          | None \<Rightarrow> if length explicitProfiles > 0 then explicitProfiles else storeProfiles);
          isValidProfile = (\<lambda>i. el_eligible (resolveAuthProfileEligibility cfgKey cfg store provider i now));
          filtered = filter isValidProfile baseOrder;
          allBaseProfilesMissing = list_all (\<lambda>i. jm_get (as_profiles store) i = None) baseOrder
      in if baseOrder = [] then []
         else dedupeProfileIds
           (if filtered = [] \<and> explicitProfiles \<noteq> [] \<and> allBaseProfilesMissing
            then filter isValidProfile storeProfiles else filtered))"

definition resolveAuthProfileOrder ::
  "(string \<Rightarrow> string) \<Rightarrow> (string \<Rightarrow> string) \<Rightarrow> auth_config option \<Rightarrow> auth_store \<Rightarrow> string \<Rightarrow> string option \<Rightarrow>
   rat \<Rightarrow> (string \<Rightarrow> rat) \<Rightarrow> rat \<Rightarrow> auth_store \<times> string list" where
  "resolveAuthProfileOrder authKey cfgKey cfg store0 provider preferredProfile now checkAt modeNow =
     (let providerKey = normalizeProviderId provider;
          providerAuthKey = cfgKey provider;
          store = fst (clearExpiredCooldowns store0 now);
          explicitProfiles = explicitProfilesOf cfgKey cfg store providerAuthKey;
          storeProfiles = listProfilesCompatibleWithAuthProvider authKey cfgKey store provider providerAuthKey;
          explicitOrder = explicitOrderOf cfg store providerKey providerAuthKey
            (nativeStoreProfilesOf cfgKey store providerAuthKey storeProfiles);
          deduped = profileCandidates cfgKey cfg store provider now explicitProfiles storeProfiles explicitOrder
      in (store,
          if explicitOrder \<noteq> None \<and> explicitOrder \<noteq> Some []
          then preferProfile preferredProfile (orderExplicitly deduped store checkAt now)
          else preferProfile preferredProfile (orderProfilesByMode deduped store checkAt modeNow)))"

section \<open>Operations on profiles and orders: \<open>profiles.ts\<close>\<close>

definition setAuthProfileOrder ::
  "auth_store option \<Rightarrow> string \<Rightarrow> string list option \<Rightarrow> auth_store option \<times> auth_store option" where
  "setAuthProfileOrder fresh provider order =
     (let providerKey = normalizeProviderId provider;
          sanitized = (case order of None \<Rightarrow> [] | Some os \<Rightarrow> normalizeStringEntries (map EntText os));
          deduped = dedupeProfileIds sanitized
      in updateAuthProfileStoreWithLock fresh
           (\<lambda>store.
              (let old = orEmptyMap (as_order store)
               in if deduped = [] then
                    (if jm_get old providerKey = None then (store\<lparr>as_order := Some old\<rparr>, False)
                     else (let rest = jm_delete providerKey old
                           in (store\<lparr>as_order := (if rest = [] then None else Some rest)\<rparr>, True)))
                  else (store\<lparr>as_order := Some (jm_set providerKey deduped old)\<rparr>, True))))"

definition promoteAuthProfileInOrder ::
  "(string \<Rightarrow> string) \<Rightarrow> auth_store option \<Rightarrow> string \<Rightarrow> string \<Rightarrow> auth_store option \<times> auth_store option" where
  "promoteAuthProfileInOrder authKey fresh provider profileId =
     (let providerKey = authKey provider
      in updateAuthProfileStoreWithLock fresh
           (\<lambda>store.
              if \<not> successApplies authKey store providerKey profileId then (store, False)
              else
                (let orderKey = (case findNormalizedProviderKey (as_order store) providerKey of
                       Some k \<Rightarrow> k | None \<Rightarrow> normalizeProviderId providerKey)
                 in case jm_get (orEmptyMap (as_order store)) orderKey of
                      None \<Rightarrow> (store, False)
                    | Some existing \<Rightarrow>
                        (let promoted = dedupeProfileIds (profileId # filter (\<lambda>i. i \<noteq> profileId) existing)
                         in if existing = [] \<or> promoted = existing then (store, False)
                            else (store\<lparr>as_order := Some (jm_set orderKey promoted
                                    (orEmptyMap (as_order store)))\<rparr>, True)))))"

text \<open>\<open>ensured\<close> is the store as read for a local update; the result is the store that is saved.\<close>

definition upsertAuthProfile :: "auth_store \<Rightarrow> string \<Rightarrow> credential \<Rightarrow> auth_store" where
  "upsertAuthProfile ensured profileId credential =
     (let credential' = (case credential of
            ApiKeyCredential p (Some key) keyRef \<Rightarrow> ApiKeyCredential p (Some (normalizeSecretInput (Some key))) keyRef
          | ApiKeyCredential p None keyRef \<Rightarrow> ApiKeyCredential p None keyRef
          | TokenCredential p token tokenRef expires \<Rightarrow>
              TokenCredential p (Some (normalizeSecretInput token)) tokenRef expires
          | OAuthCredential p access refresh oauthRef expires \<Rightarrow> OAuthCredential p access refresh oauthRef expires)
      in ensured\<lparr>as_profiles := jm_set profileId credential' (as_profiles ensured)\<rparr>)"

definition upsertAuthProfileWithLock ::
  "auth_store option \<Rightarrow> string \<Rightarrow> credential \<Rightarrow> auth_store option \<times> auth_store option" where
  "upsertAuthProfileWithLock fresh profileId credential =
     updateAuthProfileStoreWithLock fresh
       (\<lambda>store. (store\<lparr>as_profiles := jm_set profileId credential (as_profiles store)\<rparr>, True))"

definition removeProfileStep :: "(auth_store \<times> bool) \<Rightarrow> string \<Rightarrow> auth_store \<times> bool" where
  "removeProfileStep acc profileId =
     (case acc of (store, changed) \<Rightarrow>
        (let hasProfile = (jm_get (as_profiles store) profileId \<noteq> None);
             hasUsage = (statsOf store profileId \<noteq> None);
             store1 = (if hasProfile then store\<lparr>as_profiles := jm_delete profileId (as_profiles store)\<rparr> else store);
             store2 = (if hasUsage then store1\<lparr>as_usageStats := map_option (jm_delete profileId) (as_usageStats store1)\<rparr>
                       else store1)
         in (store2, changed \<or> hasProfile \<or> hasUsage)))"

definition noneIfEmpty :: "('k, 'v) jsmap \<Rightarrow> ('k, 'v) jsmap option" where
  "noneIfEmpty m = (if m = [] then None else Some m)"

definition removeProviderAuthProfilesWithLock ::
  "(string \<Rightarrow> string) \<Rightarrow> auth_store option \<Rightarrow> string \<Rightarrow> auth_store option \<times> auth_store option" where
  "removeProviderAuthProfilesWithLock authKey fresh provider =
     updateAuthProfileStoreWithLock fresh
       (\<lambda>store.
          (let providerKey = authKey provider;
               storeOrderKey = normalizeProviderId provider;
               (s1, c1) = foldl removeProfileStep (store, False) (listProfilesForProvider authKey store provider);
               hasOrder = (jm_get (orEmptyMap (as_order s1)) storeOrderKey \<noteq> None);
               s2 = (if hasOrder then s1\<lparr>as_order := noneIfEmpty (jm_delete storeOrderKey (orEmptyMap (as_order s1)))\<rparr>
                     else s1);
               hasLastGood = isNonEmpty (jm_get (orEmptyMap (as_lastGood s2)) providerKey);
               s3 = (if hasLastGood
                     then s2\<lparr>as_lastGood := noneIfEmpty (jm_delete providerKey (orEmptyMap (as_lastGood s2)))\<rparr>
                     else s2);
               s4 = (if as_usageStats s3 = Some [] then s3\<lparr>as_usageStats := None\<rparr> else s3)
           in (s4, c1 \<or> hasOrder \<or> hasLastGood)))"

end
