(* ===== verification/AuthSpec.thy ===== *)
theory AuthSpec
  imports AuthOrder
begin

text \<open>
  What the use of authentication profiles promises: a failed profile is kept from use for the window its
  reason asks for, and clearing expired windows changes no answer for callers without a model and for
  profiles that are not blocked.
\<close>

section \<open>Windows\<close>

definition anyWindowActive :: "usage_stats \<Rightarrow> rat \<Rightarrow> bool" where
  "anyWindowActive s ts \<longleftrightarrow> isActiveUnusableWindow (us_blockedUntil s) ts \<or>
     isActiveUnusableWindow (us_cooldownUntil s) ts \<or> isActiveUnusableWindow (us_disabledUntil s) ts"

lemma active_simps [simp]:
  "\<not> isActiveUnusableWindow None ts"
  "isActiveUnusableWindow (Some u) ts \<longleftrightarrow> u > 0 \<and> ts < u"
  by (simp_all add: isActiveUnusableWindow_def)

lemma isNonEmpty_simps [simp]: "\<not> isNonEmpty None" "isNonEmpty (Some s) \<longleftrightarrow> s \<noteq> []"
  by (simp_all add: isNonEmpty_def)

lemma unusable_until_active:
  "(case resolveProfileUnusableUntil s of None \<Rightarrow> False | Some u \<Rightarrow> ts < u) \<longleftrightarrow> anyWindowActive s ts"
proof -
  let ?vals = "filter (\<lambda>v. v > 0)
     (List.map_filter id [us_blockedUntil s, us_cooldownUntil s, us_disabledUntil s])"
  have m: "(case if vs = [] then None else Some (Max (set vs)) of None \<Rightarrow> False | Some u \<Rightarrow> ts < u) \<longleftrightarrow>
     (\<exists>v \<in> set vs. ts < v)" for vs :: "rat list"
    by (cases "vs = []") (simp_all add: Max_gr_iff)
  have "(\<exists>v \<in> set ?vals. ts < v) \<longleftrightarrow> anyWindowActive s ts"
    by (cases "us_blockedUntil s"; cases "us_cooldownUntil s"; cases "us_disabledUntil s")
       (auto simp: anyWindowActive_def List.map_filter_simps)
  with m [of ?vals] show ?thesis
    unfolding resolveProfileUnusableUntil_def Let_def by (simp only:)
qed

lemma unusable_None_iff:
  "resolveProfileUnusableUntil s = None \<longleftrightarrow>
   (\<forall>u \<in> {us_blockedUntil s, us_cooldownUntil s, us_disabledUntil s}. \<forall>t. u = Some t \<longrightarrow> t \<le> 0)"
  by (cases "us_blockedUntil s"; cases "us_cooldownUntil s"; cases "us_disabledUntil s")
     (auto simp: resolveProfileUnusableUntil_def Let_def List.map_filter_simps not_less)

lemma statsInCooldown_iff:
  "statsInCooldown s ts forModel \<longleftrightarrow>
   \<not> shouldBypassModelScopedCooldown s ts forModel \<and> anyWindowActive s ts"
  using unusable_until_active [of ts s] by (simp add: statsInCooldown_def)

lemma bypass_None [simp]: "\<not> shouldBypassModelScopedCooldown s ts None"
  by (simp add: shouldBypassModelScopedCooldown_def)

definition usageTracked :: "auth_store \<Rightarrow> string \<Rightarrow> bool" where
  "usageTracked store profileId \<longleftrightarrow>
     (case jm_get (as_profiles store) profileId of
        None \<Rightarrow> False
      | Some p \<Rightarrow> \<not> isAuthCooldownBypassedForProvider (Some (cr_provider p)))"

lemma profileInCooldown_tracked:
  "usageTracked store i \<Longrightarrow>
   isProfileInCooldown store i ts forModel \<longleftrightarrow>
   (case statsOf store i of None \<Rightarrow> False | Some s \<Rightarrow> statsInCooldown s ts forModel)"
  by (auto simp: usageTracked_def isProfileInCooldown_def profileProvider_def split: option.splits)

lemma statsOf_update [simp]:
  "statsOf (updateUsageStatsEntry store i f) j = (if j = i then Some (f (statsOf store i)) else statsOf store j)"
  by (simp add: statsOf_def updateUsageStatsEntry_def jm_get_set)

lemma profiles_update [simp]: "as_profiles (updateUsageStatsEntry store i f) = as_profiles store"
  by (simp add: updateUsageStatsEntry_def)

lemma statsOf_usage [simp]: "statsOf (store\<lparr>as_usageStats := as_usageStats s\<rparr>) i = statsOf s i"
  by (simp add: statsOf_def)

section \<open>A failure keeps the profile from use\<close>

definition disabledLane :: "failure_reason \<Rightarrow> bool" where
  "disabledLane reason \<longleftrightarrow> reason = FrBilling \<or> reason = FrAuthPermanent"

definition laneUntil :: "failure_reason \<Rightarrow> usage_stats \<Rightarrow> rat option" where
  "laneUntil reason s = (if disabledLane reason then us_disabledUntil s else us_cooldownUntil s)"

text \<open>
  How long a failure keeps a profile from use, by its reason and the failures before it that still count.  Failures
  of the past do not count any more when the last one is older than the failure window, or when every window they
  had set has ended.  Settings that are not positive numbers give way to their defaults.
\<close>

definition settingOr :: "rat option \<Rightarrow> rat \<Rightarrow> rat" where
  "settingOr v d = (case v of Some x \<Rightarrow> if 0 < x then x else d | None \<Rightarrow> d)"

definition cooldownSetting :: "(cooldown_config \<Rightarrow> 'a option) \<Rightarrow> cooldown_config option \<Rightarrow> 'a option" where
  "cooldownSetting f cfg = (case cfg of None \<Rightarrow> None | Some c \<Rightarrow> f c)"

definition hours :: rat where "hours = 60 * 60 * 1000"
definition minutes :: rat where "minutes = 60 * 1000"

definition billingHours :: "cooldown_config option \<Rightarrow> string \<Rightarrow> rat" where
  "billingHours cfg provider =
     (let own = List.find (\<lambda>(key, h). normalizeProviderId key = normalizeProviderId provider)
            (case cfg of Some c \<Rightarrow> orEmptyMap (cc_billingBackoffHoursByProvider c) | None \<Rightarrow> [])
      in settingOr (case own of Some (key, h) \<Rightarrow> Some h | None \<Rightarrow> cooldownSetting cc_billingBackoffHours cfg) 5)"

text \<open>A window that doubles with every earlier failure, ten times at most, between a minute and its maximum.\<close>

definition doublingWindow :: "rat \<Rightarrow> rat \<Rightarrow> nat \<Rightarrow> rat" where
  "doublingWindow initial most earlier =
     (let start = max minutes initial in min (start * 2 ^ min earlier 10) (max start most))"

definition failureWindow :: "cooldown_config option \<Rightarrow> string \<Rightarrow> failure_reason \<Rightarrow> nat \<Rightarrow> rat" where
  "failureWindow cfg provider reason earlier =
     (if reason = FrBilling then
        doublingWindow (billingHours cfg provider * hours)
          (settingOr (cooldownSetting cc_billingMaxHours cfg) 24 * hours) earlier
      else if reason = FrAuthPermanent then
        doublingWindow (settingOr (cooldownSetting cc_authPermanentBackoffMinutes cfg) 10 * minutes)
          (settingOr (cooldownSetting cc_authPermanentMaxMinutes cfg) 60 * minutes) earlier
      else if earlier = 0 then 30 * 1000
      else if earlier = 1 then minutes
      else 5 * minutes)"

definition earlierFailures :: "usage_stats \<Rightarrow> rat \<Rightarrow> cooldown_config option \<Rightarrow> failure_reason \<Rightarrow> nat" where
  "earlierFailures s now cfg reason =
     (let old = (case us_lastFailureAt s of
              Some l \<Rightarrow> 0 < l \<and> settingOr (cooldownSetting cc_failureWindowHours cfg) 24 * hours < now - l
            | None \<Rightarrow> False);
          windowSet = (\<lambda>u. case u of Some t \<Rightarrow> 0 < t | None \<Rightarrow> False);
          over = ((windowSet (us_blockedUntil s) \<or> windowSet (us_cooldownUntil s) \<or> windowSet (us_disabledUntil s)) \<and>
                  \<not> anyWindowActive s now)
      in if old \<or> over then 0
         else if disabledLane reason then orZero (jm_get (orEmptyMap (us_failureCounts s)) reason)
         else orZero (us_errorCount s))"

definition promisedUntil ::
  "usage_stats \<Rightarrow> rat \<Rightarrow> cooldown_config option \<Rightarrow> string \<Rightarrow> failure_reason \<Rightarrow> rat" where
  "promisedUntil s now cfg provider reason =
     (let fresh = now + failureWindow cfg provider reason (earlierFailures s now cfg reason)
      in case laneUntil reason s of Some u \<Rightarrow> if now < u then u else fresh | None \<Rightarrow> fresh)"

lemma resolved_settings:
  fixes cfg provider
  defines "r \<equiv> resolveAuthCooldownConfig cfg (normalizeProviderId provider)"
  shows "cd_billingBackoffMs r = billingHours cfg provider * hours"
    and "cd_billingMaxMs r = settingOr (cooldownSetting cc_billingMaxHours cfg) 24 * hours"
    and "cd_authPermanentBackoffMs r = settingOr (cooldownSetting cc_authPermanentBackoffMinutes cfg) 10 * minutes"
    and "cd_authPermanentMaxMs r = settingOr (cooldownSetting cc_authPermanentMaxMinutes cfg) 60 * minutes"
    and "cd_failureWindowMs r = settingOr (cooldownSetting cc_failureWindowHours cfg) 24 * hours"
proof -
  have [simp]: "resolvePositiveNumber = settingOr"
    by (simp add: fun_eq_iff resolvePositiveNumber_def settingOr_def)
  have [simp]: "cooldownSetting f None = None" "cooldownSetting f (Some c) = f c" for f :: "cooldown_config \<Rightarrow> 'a option" and c
    by (simp_all add: cooldownSetting_def)
  note defs = r_def resolveAuthCooldownConfig_def billingHours_def hours_def minutes_def Let_def
  show "cd_billingMaxMs r = settingOr (cooldownSetting cc_billingMaxHours cfg) 24 * hours"
    and "cd_authPermanentBackoffMs r = settingOr (cooldownSetting cc_authPermanentBackoffMinutes cfg) 10 * minutes"
    and "cd_authPermanentMaxMs r = settingOr (cooldownSetting cc_authPermanentMaxMinutes cfg) 60 * minutes"
    and "cd_failureWindowMs r = settingOr (cooldownSetting cc_failureWindowHours cfg) 24 * hours"
    by (cases cfg; simp add: defs cooldownSetting_def)+
  show "cd_billingBackoffMs r = billingHours cfg provider * hours"
  proof (cases cfg)
    case None
    then show ?thesis by (simp add: defs cooldownSetting_def)
  next
    case (Some c)
    let ?own = "find (\<lambda>(key, _). normalizeProviderId key = normalizeProviderId provider)
      (orEmptyMap (cc_billingBackoffHoursByProvider c))"
    have "Option.bind (cc_billingBackoffHoursByProvider c) (\<lambda>m. map_option snd
        (find (\<lambda>(key, _). normalizeProviderId key = normalizeProviderId provider) m)) = map_option snd ?own"
      by (cases "cc_billingBackoffHoursByProvider c") simp_all
    then show ?thesis unfolding defs Some by (cases ?own) (auto simp: cooldownSetting_def)
  qed
qed

lemma doublingWindow_code: "calculateDisabledLaneBackoffMs (n + 1) base most = doublingWindow base most n"
  by (simp add: calculateDisabledLaneBackoffMs_def doublingWindow_def minutes_def Let_def min.commute)

lemma counters_over:
  "(case resolveProfileUnusableUntil s of None \<Rightarrow> False | Some u \<Rightarrow> now \<ge> u) \<longleftrightarrow>
   resolveProfileUnusableUntil s \<noteq> None \<and> \<not> anyWindowActive s now"
  using unusable_until_active [of now s] by (cases "resolveProfileUnusableUntil s") auto

lemma earlierFailures_code:
  fixes cfg provider
  defines "w \<equiv> cd_failureWindowMs (resolveAuthCooldownConfig cfg (normalizeProviderId provider))"
  shows "earlierFailures s now cfg reason =
    (if shouldResetCounters s now w then 0
     else if disabledLane reason then orZero (jm_get (orEmptyMap (us_failureCounts s)) reason)
     else orZero (us_errorCount s))"
proof -
  have "resolveProfileUnusableUntil s \<noteq> None \<longleftrightarrow>
      (case us_blockedUntil s of Some t \<Rightarrow> 0 < t | None \<Rightarrow> False) \<or>
      (case us_cooldownUntil s of Some t \<Rightarrow> 0 < t | None \<Rightarrow> False) \<or>
      (case us_disabledUntil s of Some t \<Rightarrow> 0 < t | None \<Rightarrow> False)"
    unfolding unusable_None_iff by (auto simp: not_le split: option.splits)
  then show ?thesis
    unfolding earlierFailures_def shouldResetCounters_def counters_over w_def resolved_settings(5) Let_def
    by (cases "us_lastFailureAt s") auto
qed

lemma laneUntil_next:
  "laneUntil reason (computeNextProfileUsageStats s now reason
      (resolveAuthCooldownConfig cfg (normalizeProviderId provider)) modelId) =
   Some (promisedUntil s now cfg provider reason)"
proof -
  let ?r = "resolveAuthCooldownConfig cfg (normalizeProviderId provider)"
  let ?reset = "shouldResetCounters s now (cd_failureWindowMs ?r)"
  note code = earlierFailures_code [of s now cfg reason provider]
  show ?thesis
  proof (cases "disabledLane reason")
    case True
    let ?old = "if ?reset then [] else orEmptyMap (us_failureCounts s)"
    have "orZero (jm_get ?old reason) = earlierFailures s now cfg reason"
      using True code by (simp add: orZero_def)
    then have "resolveDisabledFailureBackoffMs reason (orZero (jm_get
          (jm_set reason (orZero (jm_get ?old reason) + 1) ?old) reason)) ?r =
        failureWindow cfg provider reason (earlierFailures s now cfg reason)"
      using True
      by (auto simp: disabledLane_def resolveDisabledFailureBackoffMs_def failureWindow_def jm_get_set
          orZero_def [of "Some n" for n] resolved_settings doublingWindow_code [unfolded Suc_eq_plus1 [symmetric]])
    with True show ?thesis
      by (auto simp: disabledLane_def laneUntil_def computeNextProfileUsageStats_def promisedUntil_def Let_def
          keepActiveWindowOrRecompute_def split: option.splits)
  next
    case False
    have "(if ?reset then 0 else orZero (us_errorCount s)) = earlierFailures s now cfg reason"
      using False code by simp
    then have "calculateAuthProfileCooldownMs ((if ?reset then 0 else orZero (us_errorCount s)) + 1) =
        failureWindow cfg provider reason (earlierFailures s now cfg reason)"
      using False
      by (auto simp: disabledLane_def failureWindow_def calculateAuthProfileCooldownMs_def minutes_def Let_def)
    with False show ?thesis
      by (auto simp: disabledLane_def laneUntil_def computeNextProfileUsageStats_def promisedUntil_def Let_def
          keepActiveWindowOrRecompute_def split: option.splits)
  qed
qed

lemma promisedUntil_later: "now < promisedUntil s now cfg provider reason"
proof -
  have "0 < doublingWindow a b n" for a b n
    by (simp add: doublingWindow_def minutes_def Let_def less_max_iff_disj)
  then show ?thesis
    by (auto simp: promisedUntil_def failureWindow_def minutes_def Let_def split: option.splits)
qed

lemma cooldownScope_next:
  assumes "\<not> disabledLane reason"
  shows "us_cooldownReason (computeNextProfileUsageStats s now reason cfg modelId) = Some reason"
    and "us_cooldownModel (computeNextProfileUsageStats s now reason cfg modelId) =
         nextCooldownModel s now reason modelId"
  using assms by (simp_all add: computeNextProfileUsageStats_def Let_def disabledLane_def)

lemma nextCooldownModel_cases:
  "nextCooldownModel s now reason modelId = None \<or> \<not> isNonEmpty (nextCooldownModel s now reason modelId) \<or>
   (reason = FrRateLimit \<and> nextCooldownModel s now reason modelId = modelId)"
  by (auto simp: nextCooldownModel_def)

definition coversModel :: "failure_reason \<Rightarrow> string option \<Rightarrow> string option \<Rightarrow> bool" where
  "coversModel reason modelId forModel \<longleftrightarrow> reason = FrRateLimit \<longrightarrow> forModel = None \<or> forModel = modelId"

lemma failure_in_cooldown:
  assumes "0 \<le> now" "t < promisedUntil s now cfg provider reason" "coversModel reason modelId forModel"
  shows "statsInCooldown (computeNextProfileUsageStats s now reason
    (resolveAuthCooldownConfig cfg (normalizeProviderId provider)) modelId) t forModel"
proof -
  let ?n = "computeNextProfileUsageStats s now reason
    (resolveAuthCooldownConfig cfg (normalizeProviderId provider)) modelId"
  obtain u where u: "laneUntil reason ?n = Some u" "t < u" "0 < u"
    using laneUntil_next promisedUntil_later [of now s cfg provider reason] assms(1,2) by force
  show ?thesis
  proof (cases "disabledLane reason")
    case True
    with u show ?thesis
      by (simp add: statsInCooldown_iff anyWindowActive_def shouldBypassModelScopedCooldown_def laneUntil_def)
  next
    case False
    with u have "anyWindowActive ?n t" by (simp add: anyWindowActive_def laneUntil_def)
    moreover have "\<not> shouldBypassModelScopedCooldown ?n t forModel"
      using nextCooldownModel_cases [of s now reason modelId] assms(3) False
      by (auto simp: shouldBypassModelScopedCooldown_def cooldownScope_next coversModel_def)
    ultimately show ?thesis by (simp add: statsInCooldown_iff)
  qed
qed

section \<open>Updates of the store\<close>

lemma failureStats_plain:
  assumes "whamResult = None \<or> \<not> shouldProbeWhamForFailure (profileProvider store i) reason"
  shows "failureStats store i reason cfg modelId now whamResult =
    computeNextProfileUsageStats (case statsOf store i of None \<Rightarrow> noStats | Some s \<Rightarrow> s) now reason
      (resolveAuthCooldownConfig cfg (normalizeProviderId (orEmpty (profileProvider store i)))) modelId"
  using assms by (cases whamResult) (auto simp: failureStats_def Let_def)

lemma failureUpdater_tracked:
  "usageTracked s i \<Longrightarrow> failureUpdater i reason cfg modelId now w s =
   (updateUsageStatsEntry s i (\<lambda>_. failureStats s i reason cfg modelId now w), True)"
  by (auto simp: usageTracked_def failureUpdater_def split: option.splits)

definition updatedFrom :: "auth_store \<Rightarrow> auth_store option \<Rightarrow> auth_store" where
  "updatedFrom store fresh = (case fresh of None \<Rightarrow> store | Some s \<Rightarrow> s)"

lemma markFailure_stats:
  assumes "usageTracked store i" and "usageTracked (updatedFrom store fresh) i"
  shows "statsOf (fst (markAuthProfileFailure store fresh i reason cfg modelId now response probeNow)) i =
    Some (failureStats (updatedFrom store fresh) i reason cfg modelId now
      (if shouldProbeWhamForFailure (profileProvider store i) reason
       then probeWhamForCooldown store i response probeNow else None))"
    and "as_profiles (fst (markAuthProfileFailure store fresh i reason cfg modelId now response probeNow)) =
      as_profiles store"
proof -
  obtain p where p: "jm_get (as_profiles store) i = Some p"
    "\<not> isAuthCooldownBypassedForProvider (Some (cr_provider p))"
    using assms(1) by (auto simp: usageTracked_def split: option.splits)
  then have pr: "profileProvider store i = Some (cr_provider p)" by (simp add: profileProvider_def)
  show "statsOf (fst (markAuthProfileFailure store fresh i reason cfg modelId now response probeNow)) i =
    Some (failureStats (updatedFrom store fresh) i reason cfg modelId now
      (if shouldProbeWhamForFailure (profileProvider store i) reason
       then probeWhamForCooldown store i response probeNow else None))"
    using p assms(2) unfolding pr
    by (cases fresh) (simp_all add: markAuthProfileFailure_def Let_def updateAuthProfileStoreWithLock_def
        updatedFrom_def failureUpdater_tracked)
  show "as_profiles (fst (markAuthProfileFailure store fresh i reason cfg modelId now response probeNow)) =
      as_profiles store"
    using p assms(2)
    by (cases fresh) (simp_all add: markAuthProfileFailure_def Let_def updateAuthProfileStoreWithLock_def
        updatedFrom_def failureUpdater_tracked)
qed

lemma usageTracked_cong: "as_profiles s = as_profiles s' \<Longrightarrow> usageTracked s i = usageTracked s' i"
  by (simp add: usageTracked_def)

definition statsBefore :: "auth_store \<Rightarrow> string \<Rightarrow> usage_stats" where
  "statsBefore store i = (case statsOf store i of None \<Rightarrow> noStats | Some s \<Rightarrow> s)"

definition providerOf :: "auth_store \<Rightarrow> string \<Rightarrow> string" where
  "providerOf store i = (case jm_get (as_profiles store) i of None \<Rightarrow> [] | Some p \<Rightarrow> cr_provider p)"

lemma failureStats_promised:
  assumes "\<not> shouldProbeWhamForFailure (profileProvider store i) reason"
  shows "failureStats s i reason cfg modelId now
      (if shouldProbeWhamForFailure (profileProvider store i) reason then w else None) =
    computeNextProfileUsageStats (statsBefore s i) now reason
      (resolveAuthCooldownConfig cfg (normalizeProviderId (providerOf s i))) modelId"
  using assms by (auto simp: failureStats_plain statsBefore_def providerOf_def profileProvider_def orEmpty_def
      split: option.splits)


definition demoStore :: auth_store where
  "demoStore = \<lparr>as_profiles =
       [(''anthropic:a'', ApiKeyCredential ''anthropic'' (Some ''k1'') None),
        (''anthropic:b'', ApiKeyCredential ''anthropic'' (Some ''k2'') None)],
     as_order = None, as_lastGood = None, as_usageStats = None\<rparr>"


text \<open>A rate limit of one model during a block of the whole profile opens the profile to other models.\<close>

definition blockedThenLimited :: auth_store where
  "blockedThenLimited =
     (let store = fst (markAuthProfileBlockedUntil demoStore None ''anthropic:a'' (Fin 9000000) CodexRateLimits None
            1000 1000)
      in fst (markAuthProfileFailure store None ''anthropic:a'' FrRateLimit None (Some ''opus'') 2000 WhamFailed 0))"

lemma rate_limit_during_block_unlocks_models:
  "isProfileInCooldown blockedThenLimited ''anthropic:a'' 3000 None"
  "\<not> isProfileInCooldown blockedThenLimited ''anthropic:a'' 3000 (Some ''sonnet'')"
  by code_simp+

text \<open>A usage window whose reset time has passed blocks until then, and clears the cooldown.\<close>

definition codexStore :: auth_store where
  "codexStore = \<lparr>as_profiles =
       [(''codex:a'', OAuthCredential ''openai-codex'' (Some ''t'') None None None)],
     as_order = None, as_lastGood = None, as_usageStats = None\<rparr>"

lemma stale_usage_window_leaves_profile_usable:
  "\<not> isProfileInCooldown
       (fst (markAuthProfileFailure codexStore None ''codex:a'' FrRateLimit None None 100000
          (WhamBody (Some \<lparr>wr_limit_reached = Some True,
             wr_primary_window = Some \<lparr>ww_used_percent = Some 100, ww_reset_at = Some 90,
               ww_reset_after_seconds = None\<rparr>,
             wr_secondary_window = None\<rparr>)) 99999)) ''codex:a'' 100000 None"
  by code_simp

section \<open>Runs of updates\<close>

text \<open>The updates that run under the lock, and the clearing of expired windows.\<close>

datatype usage_event =
    UseFailure string failure_reason "cooldown_config option" "string option" rat "wham_result option"
  | UseBlocked string rat blocked_source "string option" rat
  | UseCleared string
  | UseSuccess string string rat

fun usageEventProfile :: "usage_event \<Rightarrow> string" where
  "usageEventProfile (UseFailure i _ _ _ _ _) = i"
| "usageEventProfile (UseBlocked i _ _ _ _) = i"
| "usageEventProfile (UseCleared i) = i"
| "usageEventProfile (UseSuccess i _ _) = i"

fun usageUpdate :: "(string \<Rightarrow> string) \<Rightarrow> auth_store \<Rightarrow> usage_event \<Rightarrow> auth_store" where
  "usageUpdate authKey s (UseFailure i reason cfg modelId now w) = fst (failureUpdater i reason cfg modelId now w s)"
| "usageUpdate authKey s (UseBlocked i u source modelId now) = fst (blockedUpdater i u source modelId now s)"
| "usageUpdate authKey s (UseCleared i) = fst (clearUpdater i s)"
| "usageUpdate authKey s (UseSuccess i providerKey now) = fst (successUpdater authKey providerKey i now s)"

lemma statsOf_success [simp]:
  "statsOf (successStore s k i now) j = (if j = i then Some (resetSuccessfulUsageStats (statsOf s i) now) else statsOf s j)"
  by (simp add: successStore_def) (simp add: statsOf_def)

interpretation usage: keyed_store statsOf "usageUpdate authKey" usageEventProfile for authKey
proof
  fix e i s
  assume "usageEventProfile e \<noteq> i"
  then show "statsOf (usageUpdate authKey s e) i = statsOf s i"
    by (cases e) (auto simp: failureUpdater_def blockedUpdater_def clearUpdater_def successUpdater_def
        split: option.splits)
qed

datatype use_step = Update usage_event | ClearExpired rat

fun useStep :: "(string \<Rightarrow> string) \<Rightarrow> auth_store \<Rightarrow> use_step \<Rightarrow> auth_store" where
  "useStep authKey s (Update e) = usageUpdate authKey s e"
| "useStep authKey s (ClearExpired ts) = fst (clearExpiredCooldowns s ts)"

lemma statsOf_clear [simp]:
  "statsOf (fst (clearExpiredCooldowns s ts)) i = map_option (\<lambda>x. fst (clearExpiredStats x ts)) (statsOf s i)"
  by (cases "as_usageStats s") (simp_all add: clearExpiredCooldowns_def statsOf_def map_of_map)

lemma profiles_clear [simp]: "as_profiles (fst (clearExpiredCooldowns s ts)) = as_profiles s"
  by (cases "as_usageStats s") (simp_all add: clearExpiredCooldowns_def)

text \<open>What happens to one profile: failures in the cooldown lane at the given times, success and resets.\<close>

fun transientFor :: "string \<Rightarrow> use_step \<Rightarrow> bool" where
  "transientFor i (ClearExpired ts) = True"
| "transientFor i (Update e) =
     (usageEventProfile e = i \<longrightarrow>
        (case e of UseFailure _ reason _ _ now w \<Rightarrow> \<not> disabledLane reason \<and> w = None \<and> 0 \<le> now
         | UseBlocked _ _ _ _ _ \<Rightarrow> False | _ \<Rightarrow> True))"

fun failureTimesOf :: "string \<Rightarrow> use_step \<Rightarrow> rat set" where
  "failureTimesOf i (Update (UseFailure j _ _ _ now _)) = (if j = i then {now} else {})"
| "failureTimesOf i _ = {}"

definition firstStepOnly :: "rat set \<Rightarrow> usage_stats \<Rightarrow> bool" where
  "firstStepOnly T s \<longleftrightarrow> us_blockedUntil s = None \<and> us_disabledUntil s = None \<and>
     (case us_cooldownUntil s of None \<Rightarrow> orZero (us_errorCount s) = 0
      | Some u \<Rightarrow> 0 < u \<and> (\<exists>t \<in> T. u = t + 30000))"

lemma firstStepOnly_mono: "firstStepOnly T s \<Longrightarrow> T \<subseteq> T' \<Longrightarrow> firstStepOnly T' s"
  by (auto simp: firstStepOnly_def split: option.splits)

lemma firstStepOnly_noStats: "firstStepOnly T noStats"
  by (simp add: firstStepOnly_def noStats_def orZero_def)

lemma firstStepOnly_failure:
  assumes "firstStepOnly T s" "\<not> disabledLane reason" "0 \<le> now"
  shows "firstStepOnly (insert now T) (computeNextProfileUsageStats s now reason cfg modelId)"
proof (cases "us_cooldownUntil s")
  case None
  with assms have "orZero (us_errorCount s) = 0" "us_blockedUntil s = None" "us_disabledUntil s = None"
    by (simp_all add: firstStepOnly_def)
  with None assms show ?thesis
    by (simp add: firstStepOnly_def computeNextProfileUsageStats_def Let_def disabledLane_def
        keepActiveWindowOrRecompute_def calculateAuthProfileCooldownMs_def)
next
  case (Some u)
  with assms have u: "0 < u" "\<exists>t \<in> T. u = t + 30000" "us_blockedUntil s = None" "us_disabledUntil s = None"
    by (simp_all add: firstStepOnly_def)
  then have "resolveProfileUnusableUntil s = Some u"
    using Some by (simp add: resolveProfileUnusableUntil_def Let_def List.map_filter_simps)
  then have "u \<le> now \<Longrightarrow> shouldResetCounters s now w" for w
    by (simp add: shouldResetCounters_def)
  with Some u assms show ?thesis
    by (cases "u > now")
       (auto simp: firstStepOnly_def computeNextProfileUsageStats_def Let_def disabledLane_def
        keepActiveWindowOrRecompute_def calculateAuthProfileCooldownMs_def)
qed

lemma firstStepOnly_reset: "firstStepOnly T (resetUsageStats s)"
  by (simp add: firstStepOnly_def resetUsageStats_def orZero_def split: option.splits)

lemma firstStepOnly_success: "firstStepOnly T (resetSuccessfulUsageStats s now)"
  by (simp add: firstStepOnly_def resetSuccessfulUsageStats_def resetUsageStats_def orZero_def split: option.splits)

lemma firstStepOnly_clear: "firstStepOnly T s \<Longrightarrow> firstStepOnly T (fst (clearExpiredStats s ts))"
  by (cases "us_cooldownUntil s")
     (auto simp: firstStepOnly_def clearExpiredStats_def Let_def windowExpired_def orZero_def
       resolveProfileUnusableUntil_def List.map_filter_simps)

lemma firstStepOnly_step:
  assumes "\<forall>s. statsOf store i = Some s \<longrightarrow> firstStepOnly T s" and "transientFor i e"
    and "statsOf (useStep authKey store e) i = Some s'"
  shows "firstStepOnly (T \<union> failureTimesOf i e) s'"
proof -
  have prev: "firstStepOnly T (case statsOf store i of None \<Rightarrow> noStats | Some s \<Rightarrow> s)"
    using assms(1) by (simp add: firstStepOnly_noStats split: option.splits)
  show ?thesis
  proof (cases e)
    case (ClearExpired ts)
    with assms show ?thesis by (auto intro!: firstStepOnly_clear)
  next
    case (Update f)
    show ?thesis
    proof (cases "usageEventProfile f = i")
      case False
      with Update assms show ?thesis
        using usage.op_other [of f i authKey store] by (auto intro: firstStepOnly_mono)
    next
      case True
      show ?thesis
      proof (cases f)
        case (UseFailure j reason cfg modelId now w)
        with Update True assms have h: "\<not> disabledLane reason" "w = None" "0 \<le> now" "j = i" by auto
        then show ?thesis
          using assms(1,3) Update UseFailure firstStepOnly_failure [OF prev h(1,3)]
          by (auto simp: failureUpdater_def failureStats_plain split: option.splits if_splits
              intro: firstStepOnly_mono)
      next
        case (UseSuccess j k now)
        then show ?thesis
          using assms(1,3) Update True
          by (auto simp: successUpdater_def intro: firstStepOnly_success split: if_splits)
      qed (use assms(1-3) Update True firstStepOnly_reset in
          \<open>auto simp: clearUpdater_def split: option.splits\<close>)
    qed
  qed
qed

lemma firstStepOnly_run:
  assumes "\<forall>s. statsOf store i = Some s \<longrightarrow> firstStepOnly T s" and "list_all (transientFor i) es"
    and "statsOf (foldl (useStep authKey) store es) i = Some s'"
  shows "firstStepOnly (T \<union> (\<Union>e \<in> set es. failureTimesOf i e)) s'"
  using assms
proof (induction es arbitrary: store T)
  case Nil
  then show ?case by simp
next
  case (Cons e es)
  have "firstStepOnly ((T \<union> failureTimesOf i e) \<union> (\<Union>e \<in> set es. failureTimesOf i e)) s'"
    by (rule Cons.IH [of "useStep authKey store e"])
       (use Cons.prems firstStepOnly_step in auto)
  then show ?case by (simp add: Un_assoc)
qed

text \<open>The longer steps of \<open>calculateAuthProfileCooldownMs\<close>, which its comment announces, are not reached by
transient failures: whatever happens to other profiles, and whatever the order of transient failures, successes,
resets and clearings of expired windows, the cooldown of a profile that starts without statistics always ends 30 s
after one of its own failures.  Failures during a window leave it alone, and a failure after it finds the counters
reset.\<close>

lemma auth_cooldown_never_escalates:
  assumes "statsOf store i = None" and "list_all (transientFor i) es"
    and "Option.bind (statsOf (foldl (useStep authKey) store es) i) us_cooldownUntil = Some u"
  shows "\<exists>e \<in> set es. \<exists>now \<in> failureTimesOf i e. u = now + 30000"
proof -
  obtain s' where s': "statsOf (foldl (useStep authKey) store es) i = Some s'" "us_cooldownUntil s' = Some u"
    using assms(3) by (auto simp: bind_eq_Some_conv)
  have "firstStepOnly ({} \<union> (\<Union>e \<in> set es. failureTimesOf i e)) s'"
    by (rule firstStepOnly_run [OF _ assms(2) s'(1)]) (simp add: assms(1))
  with s'(2) show ?thesis by (auto simp: firstStepOnly_def)
qed

definition demoFailures :: "use_step list" where
  "demoFailures =
     [Update (UseFailure ''anthropic:a'' FrOverloaded None None 1000 None),
      Update (UseFailure ''anthropic:a'' FrTimeout None None 2000 None),
      Update (UseFailure ''anthropic:b'' FrBilling None None 2500 None),
      Update (UseFailure ''anthropic:a'' FrTimeout None None 3000 None)]"

lemma auth_cooldown_never_escalates_witness:
  "Option.bind (statsOf (foldl (useStep id) demoStore demoFailures) ''anthropic:a'') us_errorCount = Some 3 \<and>
   (\<exists>e \<in> set demoFailures. \<exists>now \<in> failureTimesOf ''anthropic:a'' e. 31000 = now + 30000)"
proof
  show "Option.bind (statsOf (foldl (useStep id) demoStore demoFailures) ''anthropic:a'') us_errorCount = Some 3"
    by code_simp
  show "\<exists>e \<in> set demoFailures. \<exists>now \<in> failureTimesOf ''anthropic:a'' e. 31000 = now + 30000"
    by (rule auth_cooldown_never_escalates [where authKey = id and store = demoStore]) code_simp+
qed

section \<open>Clearing expired windows\<close>

lemma windowExpired_active:
  "windowExpired u ts \<Longrightarrow> ts \<le> ts' \<Longrightarrow> \<not> isActiveUnusableWindow u ts'"
  by (auto simp: windowExpired_def split: option.splits)

lemma clear_fields:
  "us_cooldownUntil (fst (clearExpiredStats s ts)) =
     (if windowExpired (us_cooldownUntil s) ts then None else us_cooldownUntil s)"
  "us_blockedUntil (fst (clearExpiredStats s ts)) =
     (if windowExpired (us_blockedUntil s) ts then None else us_blockedUntil s)"
  "us_disabledUntil (fst (clearExpiredStats s ts)) =
     (if windowExpired (us_disabledUntil s) ts then None else us_disabledUntil s)"
  "us_cooldownReason (fst (clearExpiredStats s ts)) =
     (if windowExpired (us_cooldownUntil s) ts then None else us_cooldownReason s)"
  "us_cooldownModel (fst (clearExpiredStats s ts)) =
     (if windowExpired (us_cooldownUntil s) ts then None else us_cooldownModel s)"
  by (simp_all add: clearExpiredStats_def Let_def)

lemma clear_active:
  assumes "ts \<le> ts'"
  shows "anyWindowActive (fst (clearExpiredStats s ts)) ts' = anyWindowActive s ts'"
  using assms by (auto simp: anyWindowActive_def clear_fields dest: windowExpired_active)

lemma clear_inCooldown:
  assumes "ts \<le> ts'" and "forModel = None \<or> \<not> isActiveUnusableWindow (us_blockedUntil s) ts'"
  shows "statsInCooldown (fst (clearExpiredStats s ts)) ts' forModel = statsInCooldown s ts' forModel"
proof (cases "forModel = None")
  case True
  with assms(1) show ?thesis by (simp add: statsInCooldown_iff clear_active)
next
  case False
  with assms(2) have b: "\<not> isActiveUnusableWindow (us_blockedUntil s) ts'" by simp
  show ?thesis
  proof (cases "windowExpired (us_cooldownUntil s) ts")
    case True
    with b assms(1) have "anyWindowActive s ts' = isActiveUnusableWindow (us_disabledUntil s) ts'"
      by (auto simp: anyWindowActive_def dest: windowExpired_active)
    with True assms(1) show ?thesis
      by (auto simp: statsInCooldown_iff clear_active shouldBypassModelScopedCooldown_def clear_fields)
  next
    case noexp: False
    have "isActiveUnusableWindow (us_disabledUntil (fst (clearExpiredStats s ts))) ts' =
          isActiveUnusableWindow (us_disabledUntil s) ts'"
      using assms(1) by (auto simp: clear_fields dest: windowExpired_active)
    with noexp assms(1) show ?thesis
      by (simp add: statsInCooldown_iff clear_active shouldBypassModelScopedCooldown_def clear_fields(4,5))
  qed
qed

lemma clear_left:
  "us_cooldownUntil (fst (clearExpiredStats s ts)) = Some u \<or> us_blockedUntil (fst (clearExpiredStats s ts)) = Some u \<or>
   us_disabledUntil (fst (clearExpiredStats s ts)) = Some u \<Longrightarrow> u \<le> 0 \<or> ts < u"
  by (auto simp: clear_fields windowExpired_def split: if_splits)

lemma resolve_counters [simp]:
  "resolveProfileUnusableUntil (s\<lparr>us_errorCount := a, us_failureCounts := b\<rparr>) = resolveProfileUnusableUntil s"
  by (simp add: resolveProfileUnusableUntil_def)

lemma clear_shape:
  "\<exists>s'. fst (clearExpiredStats s ts) =
     (if snd (clearExpiredStats s ts) \<and> resolveProfileUnusableUntil s' = None
      then s'\<lparr>us_errorCount := Some 0, us_failureCounts := None\<rparr> else s')"
  unfolding clearExpiredStats_def Let_def fst_conv snd_conv by (rule exI, rule refl)

lemma clear_counters:
  assumes "snd (clearExpiredStats s ts)" and "\<not> anyWindowActive s ts"
  shows "us_errorCount (fst (clearExpiredStats s ts)) = Some 0 \<and>
    us_failureCounts (fst (clearExpiredStats s ts)) = None"
proof -
  let ?c = "fst (clearExpiredStats s ts)"
  have "\<not> anyWindowActive ?c ts" using assms(2) by (simp add: clear_active)
  then have "t \<le> 0" if "us_cooldownUntil ?c = Some t \<or> us_blockedUntil ?c = Some t \<or> us_disabledUntil ?c = Some t" for t
    using clear_left [OF that] that by (auto simp: anyWindowActive_def)
  then have "resolveProfileUnusableUntil ?c = None" by (auto simp: unusable_None_iff)
  moreover obtain s' where "?c =
      (if snd (clearExpiredStats s ts) \<and> resolveProfileUnusableUntil s' = None
       then s'\<lparr>us_errorCount := Some 0, us_failureCounts := None\<rparr> else s')"
    using clear_shape by blast
  ultimately show ?thesis using assms(1) by (cases "resolveProfileUnusableUntil s' = None") simp_all
qed

text \<open>Clearing may end the lifting of a check, never start one.\<close>

lemma clear_stricter:
  assumes "ts \<le> ts'" and "statsInCooldown s ts' forModel"
  shows "statsInCooldown (fst (clearExpiredStats s ts)) ts' forModel"
proof -
  have "isActiveUnusableWindow (us_disabledUntil (fst (clearExpiredStats s ts))) ts' =
        isActiveUnusableWindow (us_disabledUntil s) ts'"
    using assms(1) by (auto simp: clear_fields dest: windowExpired_active)
  with assms show ?thesis
    by (auto simp: statsInCooldown_iff clear_active shouldBypassModelScopedCooldown_def clear_fields(4,5)
        split: if_splits)
qed


text \<open>The case that is left out: clearing the rate limit of one model restores the block for the others.\<close>

lemma clearing_restores_block:
  "\<not> isProfileInCooldown blockedThenLimited ''anthropic:a'' 40000 (Some ''sonnet'')"
  "isProfileInCooldown (fst (clearExpiredCooldowns blockedThenLimited 40000)) ''anthropic:a'' 40000 (Some ''sonnet'')"
  by code_simp+


end
