(* ===== verification/AuthOrderSpec.thy ===== *)
theory AuthOrderSpec
  imports AuthSpec
begin

text \<open>
  What the order of authentication profiles and the reported reason promise: profiles that can be used
  come before those that cannot, a failed profile is not tried before one that can be used, and the
  reason is the one with the highest score.
\<close>

section \<open>Order\<close>

lemma rat_compare_le [simp]: "rat_compare a b \<le> 0 \<longleftrightarrow> a \<le> b"
  by (auto simp: rat_compare_def)

interpretation expiry: comparator "\<lambda>a b. rat_compare (snd a) (snd b)"
  by unfold_locales auto

lemma compareScored_le:
  "compareScored (i, sa, la) (j, sb, lb) \<le> 0 \<longleftrightarrow> sa < sb \<or> (sa = sb \<and> la \<le> lb)"
  by (auto simp: compareScored_def)

interpretation scored: comparator compareScored
  by unfold_locales (auto simp: compareScored_le split_paired_all)

lemma sorted_by_key:
  assumes "comparator cmp"
  shows "sorted_wrt (\<lambda>a b. cmp a b \<le> 0) (js_toSorted cmp (map f xs))"
  using assms by (rule comparator.sorted_toSorted)

lemma map_fst_keyed:
  "set (js_toSorted cmp (map (\<lambda>i. (i, k i)) xs)) = (\<lambda>i. (i, k i)) ` set xs"
  by simp

lemma sorted_wrt_map_fst:
  assumes "sorted_wrt R ps" and "\<And>p. p \<in> set ps \<Longrightarrow> p = (fst p, k (fst p))"
  shows "sorted_wrt (\<lambda>i j. R (i, k i) (j, k j)) (map fst ps)"
proof -
  have "sorted_wrt (\<lambda>p q. R (fst p, k (fst p)) (fst q, k (fst q))) ps"
    by (rule sorted_wrt_mono_rel [OF _ assms(1)]) (metis assms(2))
  then show ?thesis by (simp add: sorted_wrt_map)
qed

lemma mset_filter_split: "mset (filter (\<lambda>i. \<not> P i) xs) + mset (filter P xs) = mset xs"
  by (induction xs) auto

lemma mset_map_fst_keyed: "mset (map fst (js_toSorted cmp (map (\<lambda>i. (i, k i)) xs))) = mset xs"
  by (simp add: image_mset.compositionality comp_def)

lemma sortByExpiry_spec:
  "mset (sortByExpiry store now xs) = mset xs"
  "sorted_wrt (\<lambda>i j. unusableUntilOr store now i \<le> unusableUntilOr store now j) (sortByExpiry store now xs)"
proof -
  show "mset (sortByExpiry store now xs) = mset xs"
    unfolding sortByExpiry_def by (rule mset_map_fst_keyed)
  let ?ps = "js_toSorted (\<lambda>a b. rat_compare (snd a) (snd b)) (map (\<lambda>i. (i, unusableUntilOr store now i)) xs)"
  have "sorted_wrt (\<lambda>a b. snd a \<le> snd b) ?ps" using expiry.sorted_toSorted by simp
  then have "sorted_wrt (\<lambda>i j. snd (i, unusableUntilOr store now i) \<le> snd (j, unusableUntilOr store now j)) (map fst ?ps)"
    by (rule sorted_wrt_map_fst) auto
  then show "sorted_wrt (\<lambda>i j. unusableUntilOr store now i \<le> unusableUntilOr store now j) (sortByExpiry store now xs)"
    by (simp add: sortByExpiry_def)
qed

lemma set_sortByExpiry [simp]: "set (sortByExpiry store now xs) = set xs"
  by (rule mset_eq_setD [OF sortByExpiry_spec(1)])

definition rotatesBefore :: "auth_store \<Rightarrow> string \<Rightarrow> string \<Rightarrow> bool" where
  "rotatesBefore store i j \<longleftrightarrow>
     typeScore (jm_get (as_profiles store) i) < typeScore (jm_get (as_profiles store) j) \<or>
     typeScore (jm_get (as_profiles store) i) = typeScore (jm_get (as_profiles store) j) \<and>
     lastUsedOf store i \<le> lastUsedOf store j"

definition orderedAs :: "auth_store \<Rightarrow> rat \<Rightarrow> (string \<Rightarrow> rat) \<Rightarrow> string list \<Rightarrow> string list \<Rightarrow> bool" where
  "orderedAs store now checkAt available cooling \<longleftrightarrow>
     (\<forall>i \<in> set available. \<not> isProfileInCooldown store i (checkAt i) None) \<and>
     (\<forall>i \<in> set cooling. isProfileInCooldown store i (checkAt i) None) \<and>
     sorted_wrt (\<lambda>i j. unusableUntilOr store now i \<le> unusableUntilOr store now j) cooling"

lemma orderByMode_spec:
  "\<exists>available cooling. orderProfilesByMode xs store checkAt now = available @ cooling \<and>
     mset (available @ cooling) = mset xs \<and> orderedAs store now checkAt available cooling \<and>
     sorted_wrt (rotatesBefore store) available"
proof -
  let ?in = "\<lambda>i. isProfileInCooldown store i (checkAt i) None"
  let ?k = "\<lambda>i. (typeScore (jm_get (as_profiles store) i), lastUsedOf store i)"
  let ?ps = "js_toSorted compareScored (map (\<lambda>i. (i, ?k i)) (filter (\<lambda>i. \<not> ?in i) xs))"
  have av: "mset (map fst ?ps) = mset (filter (\<lambda>i. \<not> ?in i) xs)" by (rule mset_map_fst_keyed)
  have co: "mset (sortByExpiry store now (filter ?in xs)) = mset (filter ?in xs)" by (rule sortByExpiry_spec)
  have "sorted_wrt (\<lambda>a b. compareScored a b \<le> 0) ?ps" by (rule scored.sorted_toSorted)
  then have "sorted_wrt (\<lambda>i j. compareScored (i, ?k i) (j, ?k j) \<le> 0) (map fst ?ps)"
    by (rule sorted_wrt_map_fst) auto
  then have s: "sorted_wrt (rotatesBefore store) (map fst ?ps)"
    by (rule sorted_wrt_mono_rel [rotated]) (simp add: compareScored_le rotatesBefore_def)
  have o: "orderedAs store now checkAt (map fst ?ps) (sortByExpiry store now (filter ?in xs))"
    using sortByExpiry_spec(2) [of store now "filter ?in xs"]
    unfolding orderedAs_def mset_eq_setD [OF av] by simp
  have "orderProfilesByMode xs store checkAt now = map fst ?ps @ sortByExpiry store now (filter ?in xs)"
    by (simp add: orderProfilesByMode_def Let_def)
  moreover have "mset (map fst ?ps @ sortByExpiry store now (filter ?in xs)) = mset xs"
    unfolding mset_append av co by (rule mset_filter_split)
  ultimately show ?thesis using o s by blast
qed

lemma orderExplicitly_spec:
  "\<exists>cooling. orderExplicitly xs store checkAt now =
       filter (\<lambda>i. \<not> isProfileInCooldown store i (checkAt i) None) xs @ cooling \<and>
     mset (orderExplicitly xs store checkAt now) = mset xs \<and>
     orderedAs store now checkAt (filter (\<lambda>i. \<not> isProfileInCooldown store i (checkAt i) None) xs) cooling"
proof -
  let ?in = "\<lambda>i. isProfileInCooldown store i (checkAt i) None"
  have co: "mset (sortByExpiry store now (filter ?in xs)) = mset (filter ?in xs)" by (rule sortByExpiry_spec)
  have "orderedAs store now checkAt (filter (\<lambda>i. \<not> ?in i) xs) (sortByExpiry store now (filter ?in xs))"
    using sortByExpiry_spec(2) [of store now "filter ?in xs"] by (simp add: orderedAs_def)
  moreover have "mset (orderExplicitly xs store checkAt now) = mset xs"
    unfolding orderExplicitly_def mset_append co by (rule mset_filter_split)
  ultimately show ?thesis by (auto simp: orderExplicitly_def)
qed

definition preferredFirst :: "string option \<Rightarrow> string list \<Rightarrow> string list \<Rightarrow> bool" where
  "preferredFirst preferred base ids \<longleftrightarrow>
     (case preferred of
        Some p \<Rightarrow> if p \<noteq> [] \<and> p \<in> set base then ids = p # removeAll p base else ids = base
      | None \<Rightarrow> ids = base)"

lemma preferProfile_first: "preferredFirst preferred base (preferProfile preferred base)"
  by (auto simp: preferredFirst_def preferProfile_def removeAll_filter_not_eq eq_commute split: option.splits)

lemma dedupeIds_distinct [simp]: "distinct (dedupeProfileIds xs)" "set (dedupeProfileIds xs) = set xs"
  by (simp_all add: dedupeProfileIds_def)

lemma candidates_spec:
  "distinct (profileCandidates cfgKey cfg store provider now explicit stored order)"
  "i \<in> set (profileCandidates cfgKey cfg store provider now explicit stored order) \<Longrightarrow>
   el_eligible (resolveAuthProfileEligibility cfgKey cfg store provider i now)"
  by (auto simp: profileCandidates_def Let_def split: if_splits)

lemma dedupe_filter: "dedupeProfileIds (filter P xs) = filter P (dedupeProfileIds xs)"
  by (simp add: dedupeProfileIds_def rev_filter remdups_filter)

lemma candidates_explicit:
  assumes "list_ex (\<lambda>i. el_eligible (resolveAuthProfileEligibility cfgKey cfg store provider i now)) ids"
  shows "profileCandidates cfgKey cfg store provider now explicit stored (Some ids) =
    filter (\<lambda>i. el_eligible (resolveAuthProfileEligibility cfgKey cfg store provider i now)) (dedupeProfileIds ids)"
proof -
  have "filter (\<lambda>i. el_eligible (resolveAuthProfileEligibility cfgKey cfg store provider i now)) ids \<noteq> []"
    using assms by (auto simp: list_ex_iff filter_empty_conv)
  moreover from this have "ids \<noteq> []" by auto
  ultimately show ?thesis by (simp add: profileCandidates_def Let_def dedupe_filter)
qed

definition explicitOrderFor ::
  "(string \<Rightarrow> string) \<Rightarrow> (string \<Rightarrow> string) \<Rightarrow> auth_config option \<Rightarrow> auth_store \<Rightarrow> string \<Rightarrow> string list" where
  "explicitOrderFor authKey cfgKey cfg store provider =
     (case explicitOrderOf cfg store (normalizeProviderId provider) (cfgKey provider)
             (nativeStoreProfilesOf cfgKey store (cfgKey provider)
               (listProfilesCompatibleWithAuthProvider authKey cfgKey store provider (cfgKey provider))) of
        None \<Rightarrow> [] | Some ids \<Rightarrow> ids)"

text \<open>
  The profiles an order has to offer: the eligible ones of the explicit order, or of the configured profiles for the
  provider, or of the stored ones; and when none of these is stored any more, the eligible stored ones.
\<close>

definition offeredProfiles ::
  "(string \<Rightarrow> string) \<Rightarrow> (string \<Rightarrow> string) \<Rightarrow> auth_config option \<Rightarrow> auth_store \<Rightarrow> string \<Rightarrow> rat \<Rightarrow> string set" where
  "offeredProfiles authKey cfgKey cfg store provider now =
     (let eligible = (\<lambda>i. el_eligible (resolveAuthProfileEligibility cfgKey cfg store provider i now));
          configured = set (explicitProfilesOf cfgKey cfg store (cfgKey provider));
          stored = set (listProfilesCompatibleWithAuthProvider authKey cfgKey store provider (cfgKey provider));
          source = (case explicitOrderOf cfg store (normalizeProviderId provider) (cfgKey provider)
                      (nativeStoreProfilesOf cfgKey store (cfgKey provider)
                        (listProfilesCompatibleWithAuthProvider authKey cfgKey store provider (cfgKey provider))) of
                      Some ids \<Rightarrow> set ids
                    | None \<Rightarrow> if configured \<noteq> {} then configured else stored);
          lost = (source \<noteq> {} \<and> configured \<noteq> {} \<and> (\<forall>i \<in> source. \<not> eligible i) \<and>
                  (\<forall>i \<in> source. jm_get (as_profiles store) i = None))
      in {i \<in> if lost then stored else source. eligible i})"

lemma candidates_offered:
  fixes authKey cfgKey cfg store provider now
  defines "stored \<equiv> listProfilesCompatibleWithAuthProvider authKey cfgKey store provider (cfgKey provider)"
  shows "set (profileCandidates cfgKey cfg store provider now (explicitProfilesOf cfgKey cfg store (cfgKey provider)) stored
      (explicitOrderOf cfg store (normalizeProviderId provider) (cfgKey provider)
        (nativeStoreProfilesOf cfgKey store (cfgKey provider) stored))) =
    offeredProfiles authKey cfgKey cfg store provider now"
proof -
  let ?e = "explicitProfilesOf cfgKey cfg store (cfgKey provider)"
  let ?o = "explicitOrderOf cfg store (normalizeProviderId provider) (cfgKey provider)
    (nativeStoreProfilesOf cfgKey store (cfgKey provider) stored)"
  let ?base = "case ?o of Some ids \<Rightarrow> ids | None \<Rightarrow> if length ?e > 0 then ?e else stored"
  let ?source = "case ?o of Some ids \<Rightarrow> set ids | None \<Rightarrow> if set ?e \<noteq> {} then set ?e else set stored"
  have s: "?source = set ?base" by (simp split: option.splits)
  show ?thesis
    unfolding offeredProfiles_def profileCandidates_def Let_def stored_def [symmetric] s
    by (cases "?base = []") (auto simp: filter_empty_conv list_all_iff)
qed

text \<open>The order itself: the offered profiles without repetition, those in cooldown last.\<close>

definition usableFirst ::
  "auth_store \<Rightarrow> (string \<Rightarrow> rat) \<Rightarrow> string set \<Rightarrow> (string \<Rightarrow> bool) \<Rightarrow> string list \<Rightarrow> string list \<Rightarrow> bool" where
  "usableFirst store checkAt offered eligible explicit base \<longleftrightarrow>
     distinct base \<and> set base = offered \<and> list_all eligible base \<and>
     (\<exists>available cooling t. base = available @ cooling \<and> orderedAs store t checkAt available cooling \<and>
        (explicit = [] \<longrightarrow> sorted_wrt (rotatesBefore store) available) \<and>
        (list_ex eligible explicit \<longrightarrow>
           available = filter (\<lambda>i. eligible i \<and> \<not> isProfileInCooldown store i (checkAt i) None)
             (dedupeProfileIds explicit)))"

lemma resolve_order_shape:
  "\<exists>base. preferredFirst preferred base
       (snd (resolveAuthProfileOrder authKey cfgKey cfg store0 provider preferred now checkAt modeNow)) \<and>
     usableFirst (fst (clearExpiredCooldowns store0 now)) checkAt
       (offeredProfiles authKey cfgKey cfg (fst (clearExpiredCooldowns store0 now)) provider now)
       (\<lambda>i. el_eligible (resolveAuthProfileEligibility cfgKey cfg (fst (clearExpiredCooldowns store0 now)) provider i now))
       (explicitOrderFor authKey cfgKey cfg (fst (clearExpiredCooldowns store0 now)) provider) base"
proof -
  let ?store = "fst (clearExpiredCooldowns store0 now)"
  let ?stored = "listProfilesCompatibleWithAuthProvider authKey cfgKey ?store provider (cfgKey provider)"
  let ?order = "explicitOrderOf cfg ?store (normalizeProviderId provider) (cfgKey provider)
     (nativeStoreProfilesOf cfgKey ?store (cfgKey provider) ?stored)"
  let ?c = "profileCandidates cfgKey cfg ?store provider now
     (explicitProfilesOf cfgKey cfg ?store (cfgKey provider)) ?stored ?order"
  let ?el = "\<lambda>i. el_eligible (resolveAuthProfileEligibility cfgKey cfg ?store provider i now)"
  have r: "snd (resolveAuthProfileOrder authKey cfgKey cfg store0 provider preferred now checkAt modeNow) =
     preferProfile preferred (if ?order \<noteq> None \<and> ?order \<noteq> Some []
       then orderExplicitly ?c ?store checkAt now else orderProfilesByMode ?c ?store checkAt modeNow)"
    by (simp add: resolveAuthProfileOrder_def Let_def)
  let ?off = "offeredProfiles authKey cfgKey cfg ?store provider now"
  have base: "distinct base \<and> set base = ?off \<and> list_all ?el base" if "mset base = mset ?c" for base
    using candidates_spec(1) candidates_spec(2) mset_eq_setD [OF that] mset_eq_imp_distinct_iff [OF that]
    unfolding list_all_iff candidates_offered [symmetric] by blast
  show ?thesis
  proof (cases "?order \<noteq> None \<and> ?order \<noteq> Some []")
    case True
    then obtain ids where ids: "?order = Some ids" "ids \<noteq> []"
      "explicitOrderFor authKey cfgKey cfg ?store provider = ids"
      by (auto simp: explicitOrderFor_def)
    have "filter (\<lambda>i. \<not> isProfileInCooldown ?store i (checkAt i) None) ?c =
        filter (\<lambda>i. ?el i \<and> \<not> isProfileInCooldown ?store i (checkAt i) None) (dedupeProfileIds ids)"
      if "list_ex ?el ids"
      unfolding ids(1) candidates_explicit [OF that] by (simp add: conj_commute)
    note kept = this
    obtain cooling where o: "orderExplicitly ?c ?store checkAt now =
        filter (\<lambda>i. \<not> isProfileInCooldown ?store i (checkAt i) None) ?c @ cooling"
      "mset (orderExplicitly ?c ?store checkAt now) = mset ?c"
      "orderedAs ?store now checkAt (filter (\<lambda>i. \<not> isProfileInCooldown ?store i (checkAt i) None) ?c) cooling"
      using orderExplicitly_spec by blast
    have "usableFirst ?store checkAt ?off ?el (explicitOrderFor authKey cfgKey cfg ?store provider)
        (orderExplicitly ?c ?store checkAt now)"
      unfolding usableFirst_def ids(3) using base [OF o(2)] o(1,3) ids(2) kept
      by (intro conjI exI [of _ "filter (\<lambda>i. \<not> isProfileInCooldown ?store i (checkAt i) None) ?c"]
          exI [of _ cooling] exI [of _ now]) simp_all
    with True show ?thesis unfolding r using preferProfile_first by auto
  next
    case False
    obtain available cooling where o: "orderProfilesByMode ?c ?store checkAt modeNow = available @ cooling"
      "mset (available @ cooling) = mset ?c" "orderedAs ?store modeNow checkAt available cooling"
      "sorted_wrt (rotatesBefore ?store) available"
      using orderByMode_spec by blast
    have e: "explicitOrderFor authKey cfgKey cfg ?store provider = []"
      using False by (auto simp: explicitOrderFor_def)
    have "usableFirst ?store checkAt ?off ?el (explicitOrderFor authKey cfgKey cfg ?store provider)
        (orderProfilesByMode ?c ?store checkAt modeNow)"
      unfolding usableFirst_def o(1) e using base [OF o(2)] o(3,4)
      by (intro conjI exI [of _ available] exI [of _ cooling] exI [of _ modeNow]) simp_all
    with False show ?thesis unfolding r using preferProfile_first by auto
  qed
qed

text \<open>C12. The order of profiles: \<open>resolveAuthProfileOrder\<close> gives the preferred profile, if it is one of them,
before the others, and the others in the order they have without a preference.  That order has every profile that is
offered, each once, and no other: the eligible ones of the explicit order, else of the configured profiles for the
provider, else of the stored ones (which also stand in when nothing of the former is stored any more).  Those in
cooldown come last, the soonest expiry first.  Of those that can be used, an explicit order with an eligible profile
is kept as it is; without an explicit order they rotate: OAuth before tokens before keys, and the least recently
used first within each.\<close>

theorem auth_order_usable_first:
  "\<exists>base. preferredFirst preferred base
       (snd (resolveAuthProfileOrder authKey cfgKey cfg store0 provider preferred now checkAt modeNow)) \<and>
     usableFirst (fst (clearExpiredCooldowns store0 now)) checkAt
       (offeredProfiles authKey cfgKey cfg (fst (clearExpiredCooldowns store0 now)) provider now)
       (\<lambda>i. el_eligible (resolveAuthProfileEligibility cfgKey cfg (fst (clearExpiredCooldowns store0 now)) provider i now))
       (explicitOrderFor authKey cfgKey cfg (fst (clearExpiredCooldowns store0 now)) provider) base"
  by (rule resolve_order_shape)

section \<open>Failover\<close>

lemma first_is_usable:
  assumes "q \<in> set (snd (resolveAuthProfileOrder authKey cfgKey cfg store0 provider preferred now checkAt modeNow))"
    and "\<not> isProfileInCooldown (fst (clearExpiredCooldowns store0 now)) q (checkAt q) None"
  shows "let first = hd (snd (resolveAuthProfileOrder authKey cfgKey cfg store0 provider preferred now checkAt modeNow))
    in preferred = Some first \<or> \<not> isProfileInCooldown (fst (clearExpiredCooldowns store0 now)) first (checkAt first) None"
proof -
  let ?ids = "snd (resolveAuthProfileOrder authKey cfgKey cfg store0 provider preferred now checkAt modeNow)"
  let ?store = "fst (clearExpiredCooldowns store0 now)"
  obtain base available cooling t where base: "base = available @ cooling" "orderedAs ?store t checkAt available cooling"
      and pref: "preferredFirst preferred base ?ids"
    using resolve_order_shape [of preferred authKey cfgKey cfg store0 provider now checkAt modeNow]
    unfolding usableFirst_def by blast
  show ?thesis
  proof (cases "?ids = base")
    case True
    with base assms show ?thesis by (cases available) (auto simp: orderedAs_def)
  next
    case False
    with pref show ?thesis by (auto simp: preferredFirst_def Let_def split: option.splits if_splits)
  qed
qed

text \<open>C11. Failover: after a failure of a profile was recorded, the next \<open>resolveAuthProfileOrder\<close> that is not asked
to prefer that very profile does not start with it until \<open>promisedUntil\<close>, the end of the window that the reason of
the failure asks for, as long as the order has a profile that is not in cooldown.  The failure is recorded by
\<open>markAuthProfileFailure\<close> on the store read under the lock or on the caller's, expired windows are cleared in between,
and any configured order is allowed.  The profile is one whose use is tracked, and the failure not one for which the
usage service sets the window (rate limits and unexplained failures of OpenAI Codex).\<close>

theorem auth_failover_avoids_failed:
  fixes store fresh i reason cdcfg modelId t response probeNow
  defines "before \<equiv> updatedFrom store fresh"
  defines "store' \<equiv> fst (markAuthProfileFailure store fresh i reason cdcfg modelId t response probeNow)"
  assumes "usageTracked store i" and "usageTracked before i"
    and "\<not> shouldProbeWhamForFailure (profileProvider store i) reason"
    and "0 \<le> t" and "t \<le> now" and "now \<le> checkAt i"
    and "checkAt i < promisedUntil (statsBefore before i) t cdcfg (providerOf before i) reason"
    and "preferred \<noteq> Some i"
    and "q \<in> set (snd (resolveAuthProfileOrder authKey cfgKey cfg store' provider preferred now checkAt modeNow))"
    and "\<not> isProfileInCooldown (fst (resolveAuthProfileOrder authKey cfgKey cfg store' provider preferred now checkAt modeNow))
           q (checkAt q) None"
  shows "hd (snd (resolveAuthProfileOrder authKey cfgKey cfg store' provider preferred now checkAt modeNow)) \<noteq> i"
proof -
  have s: "fst (resolveAuthProfileOrder authKey cfgKey cfg store' provider preferred now checkAt modeNow) =
      fst (clearExpiredCooldowns store' now)"
    by (simp add: resolveAuthProfileOrder_def Let_def)
  note st = markFailure_stats [OF assms(3) assms(4) [unfolded before_def],
      of reason cdcfg modelId t response probeNow, folded store'_def before_def]
  have tr: "usageTracked store' i" using assms(3) usageTracked_cong [OF st(2)] by blast
  have "isProfileInCooldown store' i (checkAt i) None"
    unfolding profileInCooldown_tracked [OF tr] st(1) failureStats_promised [OF assms(5)]
    using failure_in_cooldown [OF assms(6,9)] by (simp add: coversModel_def)
  then have "isProfileInCooldown (fst (clearExpiredCooldowns store' now)) i (checkAt i) None"
    using clear_inCooldown [OF assms(8)]
    by (auto simp: isProfileInCooldown_def profileProvider_def split: option.splits if_splits)
  then show ?thesis
    using first_is_usable [OF assms(11) assms(12) [unfolded s]] assms(10) by (auto simp: Let_def)
qed

theorem auth_failover_avoids_failed_witness:
  "hd (snd (resolveAuthProfileOrder id id None
     (fst (markAuthProfileFailure demoStore None ''anthropic:a'' FrBilling None None 1000 WhamFailed 0))
     ''anthropic'' None 18000000 (\<lambda>_. 18000000) 18000000)) \<noteq> ''anthropic:a''"
  by (rule auth_failover_avoids_failed [where q = "''anthropic:b''"]) code_simp+

end
