(* ===== verification/AuthReason.thy ===== *)
theory AuthReason
  imports AuthSpec
begin

text \<open>
  The reason that is reported when profiles are unavailable: the loop of
  \<open>resolveProfilesUnavailableReason\<close> and its scan in order of priority, against the sum of the scores of
  the profiles.
\<close>

section \<open>Scores\<close>

definition countOf :: "(failure_reason \<times> nat) list \<Rightarrow> failure_reason \<Rightarrow> nat" where
  "countOf counts r = sum_list (map snd (filter (\<lambda>(q, _). q = r) counts))"

definition disabledKnown :: "usage_stats \<Rightarrow> rat \<Rightarrow> bool" where
  "disabledKnown s now \<longleftrightarrow> isActiveUnusableWindow (us_disabledUntil s) now \<and>
     (\<exists>d \<in> set FAILURE_REASON_PRIORITY. us_disabledReason s = Some d)"

definition statsScore :: "usage_stats \<Rightarrow> rat \<Rightarrow> failure_reason \<Rightarrow> nat" where
  "statsScore s now r =
     (let single = (\<lambda>q n. if q = r then n else 0)
      in if disabledKnown s now then single (the (us_disabledReason s)) 1000
         else if isActiveUnusableWindow (us_blockedUntil s) now then single FrRateLimit 1000
         else if \<not> isActiveUnusableWindow (us_cooldownUntil s) now then 0
         else if countedReasons s = [] then single FrUnknown 1
         else countOf (countedReasons s) r)"

definition reasonScore :: "auth_store \<Rightarrow> rat \<Rightarrow> string list \<Rightarrow> failure_reason \<Rightarrow> nat" where
  "reasonScore store now ids r =
     sum_list (map (\<lambda>i. case statsOf store i of None \<Rightarrow> 0 | Some s \<Rightarrow> statsScore s now r) ids)"

text \<open>The map of scores holds the positive ones.\<close>

definition scoresAre :: "(failure_reason, nat) jsmap \<Rightarrow> (failure_reason \<Rightarrow> nat) \<Rightarrow> bool" where
  "scoresAre m f \<longleftrightarrow> (\<forall>r. jm_get m r = (if f r = 0 then None else Some (f r)))"

lemma priority_set: "set FAILURE_REASON_PRIORITY = - {FrSessionExpired}"
proof -
  have "r \<in> set FAILURE_REASON_PRIORITY \<longleftrightarrow> r \<noteq> FrSessionExpired" for r
    by (cases r) (simp_all add: FAILURE_REASON_PRIORITY_def)
  then show ?thesis by blast
qed

lemma addScore_are:
  "scoresAre m f \<Longrightarrow> q \<in> set FAILURE_REASON_PRIORITY \<Longrightarrow>
   scoresAre (addScore q v m) (\<lambda>r. f r + (if q = r then v else 0))"
  by (auto simp: scoresAre_def addScore_def jm_get_set)

lemma addScores_are:
  "scoresAre m f \<Longrightarrow> \<forall>(q, _) \<in> set counts. q \<in> set FAILURE_REASON_PRIORITY \<Longrightarrow>
   scoresAre (foldl (\<lambda>s (q, n). addScore q n s) m counts) (\<lambda>r. f r + countOf counts r)"
proof (induction counts arbitrary: m f)
  case Nil
  then show ?case by (simp add: countOf_def)
next
  case (Cons c counts)
  obtain q n where c: "c = (q, n)" by (cases c)
  have "scoresAre (addScore q n m) (\<lambda>r. f r + (if q = r then n else 0))"
    using Cons.prems c by (intro addScore_are) auto
  from Cons.IH [OF this] Cons.prems(2)
  have "scoresAre (foldl (\<lambda>s (q, n). addScore q n s) m (c # counts))
      (\<lambda>r. f r + (if q = r then n else 0) + countOf counts r)" by (simp add: c)
  moreover have "(\<lambda>r. f r + (if q = r then n else 0) + countOf counts r) = (\<lambda>r. f r + countOf (c # counts) r)"
    by (rule ext) (simp add: c countOf_def)
  ultimately show ?case by simp
qed

lemma scoreStep_are:
  assumes "scoresAre m f"
  shows "scoresAre (scoreStep store now m i)
    (\<lambda>r. f r + (case statsOf store i of None \<Rightarrow> 0 | Some s \<Rightarrow> statsScore s now r))"
proof (cases "statsOf store i")
  case None
  with assms show ?thesis by (simp add: scoreStep_def)
next
  case (Some s)
  have p: "FrRateLimit \<in> set FAILURE_REASON_PRIORITY" "FrUnknown \<in> set FAILURE_REASON_PRIORITY"
    by (simp_all add: priority_set)
  have c: "\<forall>(q, _) \<in> set (countedReasons s). q \<in> set FAILURE_REASON_PRIORITY"
    by (auto simp: countedReasons_def)
  note are = addScore_are [OF assms] addScores_are [OF assms c] assms
  show ?thesis
  proof (cases "disabledKnown s now")
    case True
    then obtain d where "us_disabledReason s = Some d" "d \<in> set FAILURE_REASON_PRIORITY"
      "isActiveUnusableWindow (us_disabledUntil s) now" by (auto simp: disabledKnown_def)
    with True are Some show ?thesis by (simp add: scoreStep_def statsScore_def Let_def)
  next
    case False
    then have "scoreStep store now m i =
        (if isActiveUnusableWindow (us_blockedUntil s) now then addScore FrRateLimit 1000 m
         else if \<not> isActiveUnusableWindow (us_cooldownUntil s) now then m
         else if countedReasons s = [] then addScore FrUnknown 1 m
         else foldl (\<lambda>s (r, n). addScore r n s) m (countedReasons s))"
      unfolding scoreStep_def Some by (cases "us_disabledReason s") (auto simp: disabledKnown_def)
    with False are p Some show ?thesis by (simp add: statsScore_def Let_def del: One_nat_def)
  qed
qed

lemma scores_are:
  "scoresAre m f \<Longrightarrow> scoresAre (foldl (scoreStep store now) m ids) (\<lambda>r. f r + reasonScore store now ids r)"
proof (induction ids arbitrary: m f)
  case Nil
  then show ?case by (simp add: reasonScore_def)
next
  case (Cons i ids)
  from Cons.IH [OF scoreStep_are [OF Cons.prems, of store now i]] show ?case
    by (simp add: reasonScore_def add.assoc)
qed

section \<open>The scan\<close>

definition firstMaximum :: "(failure_reason \<Rightarrow> nat) \<Rightarrow> failure_reason list \<Rightarrow> failure_reason \<Rightarrow> bool" where
  "firstMaximum f xs r \<longleftrightarrow>
     0 < f r \<and> (\<exists>ys zs. xs = ys @ r # zs \<and> list_all (\<lambda>q. f q < f r) ys \<and> list_all (\<lambda>q. f q \<le> f r) zs)"

lemma scan_spec:
  assumes "scoresAre m f"
  shows "case foldl (bestStep m) None xs of
      None \<Rightarrow> list_all (\<lambda>q. f q = 0) xs
    | Some (r, n) \<Rightarrow> n = f r \<and> firstMaximum f xs r"
proof (induction xs rule: rev_induct)
  case Nil
  then show ?case by simp
next
  case (snoc x xs)
  have g: "jm_get m x = (if f x = 0 then None else Some (f x))"
    using assms by (simp add: scoresAre_def)
  have step: "foldl (bestStep m) None (xs @ [x]) = bestStep m (foldl (bestStep m) None xs) x" by simp
  show ?case
  proof (cases "foldl (bestStep m) None xs")
    case None
    with snoc have z: "list_all (\<lambda>q. f q = 0) xs" by simp
    then have "0 < f x \<Longrightarrow> firstMaximum f (xs @ [x]) x"
      unfolding firstMaximum_def by (intro conjI exI [of _ xs] exI [of _ "[]"]) (auto simp: list_all_iff)
    with z g show ?thesis unfolding step None by (auto simp: bestStep_def)
  next
    case (Some b)
    obtain r n where b: "b = (r, n)" by (cases b)
    with Some snoc have r: "n = f r" "firstMaximum f xs r" by simp_all
    then obtain ys zs where yz: "xs = ys @ r # zs" "list_all (\<lambda>q. f q < f r) ys" "list_all (\<lambda>q. f q \<le> f r) zs"
      "0 < f r" by (auto simp: firstMaximum_def)
    show ?thesis
    proof (cases "f r < f x")
      case True
      with yz have "firstMaximum f (xs @ [x]) x"
        unfolding firstMaximum_def by (intro conjI exI [of _ xs] exI [of _ "[]"]) (auto simp: list_all_iff)
      with True g r show ?thesis unfolding step Some b by (simp add: bestStep_def)
    next
      case False
      with yz have "firstMaximum f (xs @ [x]) r"
        unfolding firstMaximum_def by (intro conjI exI [of _ ys] exI [of _ "zs @ [x]"]) auto
      with False g r show ?thesis unfolding step Some b by (simp add: bestStep_def)
    qed
  qed
qed

definition unavailableNow :: "usage_stats \<Rightarrow> rat \<Rightarrow> bool" where
  "unavailableNow s now \<longleftrightarrow>
     disabledKnown s now \<or> isActiveUnusableWindow (us_blockedUntil s) now \<or> isActiveUnusableWindow (us_cooldownUntil s) now"

lemma countOf_pos:
  assumes "countedReasons s \<noteq> []"
  shows "\<exists>r \<in> set FAILURE_REASON_PRIORITY. 0 < countOf (countedReasons s) r"
proof -
  obtain r n rest where c: "countedReasons s = (r, n) # rest" using assms by (cases "countedReasons s") auto
  then have "(r, n) \<in> set (countedReasons s)" by simp
  then have "r \<in> set FAILURE_REASON_PRIORITY" "0 < n" by (auto simp: countedReasons_def)
  then show ?thesis by (intro bexI [of _ r]) (simp_all add: c countOf_def)
qed

lemma statsScore_zero_iff:
  "(\<forall>r \<in> set FAILURE_REASON_PRIORITY. statsScore s now r = 0) \<longleftrightarrow> \<not> unavailableNow s now"
proof
  assume "\<not> unavailableNow s now"
  then show "\<forall>r \<in> set FAILURE_REASON_PRIORITY. statsScore s now r = 0"
    by (auto simp: unavailableNow_def statsScore_def)
next
  assume z: "\<forall>r \<in> set FAILURE_REASON_PRIORITY. statsScore s now r = 0"
  have p: "FrRateLimit \<in> set FAILURE_REASON_PRIORITY" "FrUnknown \<in> set FAILURE_REASON_PRIORITY"
    by (simp_all add: priority_set)
  show "\<not> unavailableNow s now"
  proof
    assume "unavailableNow s now"
    show False
    proof (cases "disabledKnown s now")
      case True
      then obtain d where "us_disabledReason s = Some d" "d \<in> set FAILURE_REASON_PRIORITY"
        by (auto simp: disabledKnown_def)
      with True z show False by (auto simp: statsScore_def)
    next
      case notDisabled: False
      show False
      proof (cases "isActiveUnusableWindow (us_blockedUntil s) now")
        case True
        with notDisabled z p(1) show False by (auto simp: statsScore_def)
      next
        case False
        with notDisabled \<open>unavailableNow s now\<close> have c: "isActiveUnusableWindow (us_cooldownUntil s) now"
          by (simp add: unavailableNow_def)
        show False
        proof (cases "countedReasons s = []")
          case True
          with notDisabled False c z p(2) show False by (auto simp: statsScore_def)
        next
          case some: False
          with notDisabled False c z countOf_pos [of s] show False by (auto simp: statsScore_def)
        qed
      qed
    qed
  qed
qed

lemma reasonScore_zero_iff:
  "reasonScore store now ids r = 0 \<longleftrightarrow>
   (\<forall>i \<in> set ids. \<forall>s. statsOf store i = Some s \<longrightarrow> statsScore s now r = 0)"
  by (auto simp: reasonScore_def split: option.splits)

text \<open>C39. The reason reported for unavailable profiles: \<open>resolveProfilesUnavailableReason\<close> gives the reason with
the highest total score over the profiles, the first in order of priority among equals, where a profile counts
1000 for the reason of an active disabled window, else 1000 for a rate limit when it is blocked, else its failure
counts (or 1 for unknown) when it is in cooldown.  It gives none exactly when no profile is unavailable.\<close>

theorem auth_unavailable_reason:
  "case resolveProfilesUnavailableReason store ids now of
     Some r \<Rightarrow> firstMaximum (reasonScore store now ids) FAILURE_REASON_PRIORITY r
   | None \<Rightarrow> list_all (\<lambda>i. case statsOf store i of None \<Rightarrow> True | Some s \<Rightarrow> \<not> unavailableNow s now) ids"
proof -
  let ?m = "foldl (scoreStep store now) [] ids" and ?f = "reasonScore store now ids"
  have m: "scoresAre ?m ?f"
    using scores_are [of "[]" "\<lambda>_. 0" store now ids] by (simp add: scoresAre_def)
  have none: "list_all (\<lambda>i. case statsOf store i of None \<Rightarrow> True | Some s \<Rightarrow> \<not> unavailableNow s now) ids"
    if "list_all (\<lambda>q. ?f q = 0) FAILURE_REASON_PRIORITY"
    using that unfolding list_all_iff reasonScore_zero_iff
    by (auto simp flip: statsScore_zero_iff split: option.splits)
  show ?thesis
  proof (cases "?m = []")
    case True
    with m have "list_all (\<lambda>q. ?f q = 0) FAILURE_REASON_PRIORITY"
      by (auto simp: scoresAre_def list_all_iff split: if_splits)
    with True none show ?thesis by (simp add: resolveProfilesUnavailableReason_def Let_def)
  next
    case False
    with scan_spec [OF m, of FAILURE_REASON_PRIORITY] none show ?thesis
      by (auto simp: resolveProfilesUnavailableReason_def Let_def split: option.splits)
  qed
qed

text \<open>An expired session is not among the reasons: a cooldown it caused is reported as unknown.\<close>

lemma session_expired_reported_unknown:
  "resolveProfilesUnavailableReason
     (fst (markAuthProfileFailure demoStore None ''anthropic:a'' FrSessionExpired None None 1000 WhamFailed 0))
     [''anthropic:a''] 2000 = Some FrUnknown"
  by code_simp

end
