(* ===== verification/Spec2Isabelle.thy ===== *)
theory Spec2Isabelle
  imports Prelude CommandQueue CommandWaiters RateLimit JsValue ToolLoop PipelineText Pipeline NodeWork ExecApproval
    TaskFlow TaskFlowStore TaskFlowMaintenance ChannelRoute DedupeCache FollowupQueue
    FollowupOrder HeartbeatPolicy HeartbeatWake SessionKey RouteBindings AgentRoute AgentRouteSpec
    MentionGate IngressState IngressDecision IngressRuntime IngressSpec IngressOutcome IngressConfig
    AuthUsage AuthOrder AuthSpec AuthOrderSpec AuthReason
begin

text \<open>
  A verification library for the TypeScript core of MH-OS (a fork of the OpenClaw gateway).

  \<^bold>\<open>The program.\<close>  A gateway process takes messages from chat channels, decides whether the sender may
  be served, routes the message to an agent and a session, runs the agent with the credentials of a model
  provider, and lets the agent call tools.  The development follows a message:

  \<^item> \<^bold>\<open>Admission.\<close>  \<open>src/channels/message-access/\<close> resolves who the sender is, which allowlists, access
    groups and routes apply, and evaluates the gates route, sender, command, event and activation in that
    order.  \<open>MentionGate\<close> holds \<open>mention-gating.ts\<close>, \<open>command-gating.ts\<close> and \<open>allow-from.ts\<close>;
    \<open>IngressState\<close> holds \<open>types.ts\<close>, \<open>allowlist.ts\<close> and \<open>state.ts\<close>; \<open>IngressDecision\<close> holds
    \<open>decision.ts\<close> and \<open>sender-gates.ts\<close>; \<open>IngressRuntime\<close> holds \<open>runtime.ts\<close> with its identities, access
    groups and pairing store.
  \<^item> \<^bold>\<open>Routing.\<close>  \<open>SessionKey\<close> (\<open>src/routing/session-key.ts\<close>, \<open>src/sessions/session-key-utils.ts\<close>),
    \<open>RouteBindings\<close> (bindings, scopes and accounts under \<open>src/routing/\<close> and \<open>src/config/bindings.ts\<close>),
    \<open>AgentRoute\<close> (\<open>src/routing/resolve-route.ts\<close> with its three caches), \<open>ChannelRoute\<close>
    (\<open>src/routing/account-id.ts\<close>, \<open>src/plugin-sdk/channel-route.ts\<close>) and \<open>DedupeCache\<close>
    (\<open>src/infra/dedupe.ts\<close>).
  \<^item> \<^bold>\<open>Queueing.\<close>  \<open>CommandQueue\<close> (\<open>src/process/command-queue.ts\<close>) runs the work of a session in lanes;
    \<open>FollowupQueue\<close> (\<open>src/auto-reply/reply/queue/\<close>, \<open>src/utils/queue-helpers.ts\<close>) keeps the messages
    that arrive while a session is busy; \<open>HeartbeatPolicy\<close> and \<open>HeartbeatWake\<close>
    (\<open>src/infra/heartbeat-*.ts\<close>) schedule and merge wakes without a message.
  \<^item> \<^bold>\<open>Running.\<close>  \<open>AuthUsage\<close> and \<open>AuthOrder\<close> (\<open>src/agents/auth-profiles/\<close>, \<open>src/agents/provider-id.ts\<close>)
    choose the credentials of a run, back off after failures and rotate; \<open>ToolLoop\<close>
    (\<open>src/agents/tool-loop-detection.ts\<close>) stops runs that repeat themselves; \<open>ExecApproval\<close>
    (\<open>src/gateway/exec-approval-manager.ts\<close>) asks an operator before a command runs; \<open>NodeWork\<close>
    (\<open>src/gateway/node-pending-work.ts\<close>) keeps work for remote nodes; \<open>RateLimit\<close>
    (\<open>src/gateway/auth-rate-limit.ts\<close>, \<open>src/infra/fixed-window-rate-limit.ts\<close>) guards the gateway's
    authentication.
  \<^item> \<^bold>\<open>Long work.\<close>  \<open>TaskFlow\<close>, \<open>TaskFlowStore\<close> and \<open>TaskFlowMaintenance\<close> (\<open>src/tasks/task-flow-*.ts\<close>)
    keep flows of tasks over restarts; \<open>PipelineText\<close> and \<open>Pipeline\<close> (\<open>src/pipeline-registry/\<close>) run the
    pipelines of MH-OS under its intent gate.

  \<open>Prelude\<close> has what all of them share (JavaScript strings, numbers, the insertion-ordered map, stable
  sorting) and \<open>JsValue\<close> the values and JSON texts that tools and pipelines inspect.

  \<^bold>\<open>How the code is modelled.\<close>  Objects are records and tagged unions datatypes with the source's fields
  and cases; a \<open>Map\<close> or plain object is an association list in insertion order; an optional field is an
  option.  Module state is a record that operations take and return.  What throws returns a sum type, with
  the error's text on the left.  What awaits is cut where it suspends: a drain or a batch is a coroutine in
  the state, and the events that resume it may come in any order with all others, so a theorem about runs
  holds for every interleaving.  Timers are entries with a due time and fire as events.  The clock, random
  identifiers, hashes, the order of \<open>localeCompare\<close>, databases, the network and the callbacks of channels
  and plugins are arguments.  Times are integers where the code reads \<open>Date.now()\<close> only and rationals where
  configuration scales them; a number from outside that may be infinite or NaN is a \<open>jsnum\<close>.  Strings have
  code units below 256.

  \<^bold>\<open>Interfaces.\<close>  \<open>invariant_system\<close> and \<open>monotone_system\<close> (an invariant, a clock) are interpreted for the
  command queue, the fixed-window limiter, node work, task flows, heartbeat wakes and the account caches;
  \<open>keyed_store\<close> (an operation on one key is invisible at the others) for the authentication limiter, node
  work and the usage of profiles; \<open>comparator\<close> (what \<open>toSorted\<close> needs for its result to be sorted) for
  work items, flows, findings, cooldowns and profiles; \<open>ingress_matching\<close> (what the kernel needs of the
  adapter of a channel) for the adapter the runtime builds.

  \<^bold>\<open>What the lemmas show.\<close>
  \<^item> Admission, in \<open>IngressSpec\<close>, \<open>IngressOutcome\<close> and \<open>IngressConfig\<close>: an allowlist matches exactly when its
    abstract reading grants the sender access; an event is dispatched only for a sender whom the parameters
    of the call admit, read without the input the resolver builds from them; the decision is that of the
    first failing check of a reference list; the recorded gates explain it; pairing is offered only to
    unknown direct senders.
  \<^item> Routing, in \<open>AgentRouteSpec\<close>, \<open>SessionKey\<close>, \<open>RouteBindings\<close>, \<open>ChannelRoute\<close>: the indexed lookup equals
    a tier-by-tier search in configuration order, caches are transparent for the queries their keys tell
    apart, a route's session belongs to its agent, session keys parse back and, for ordinary channel and
    account names, separate conversations.
  \<^item> Queueing, in \<open>CommandQueue\<close>, \<open>CommandWaiters\<close>, \<open>FollowupOrder\<close>, \<open>HeartbeatWake\<close>: every promise is settled
    exactly once, lanes are first-in first-out and waiters are resolved when their tasks are gone; under the
    refusing policy accepted messages are covered once and in order by drains that end; wakes that were
    requested, found a busy handler or made it throw are not lost.
  \<^item> Credentials, in \<open>AuthSpec\<close>, \<open>AuthOrderSpec\<close>, \<open>AuthReason\<close>: a failure keeps a profile from use for
    exactly the window its reason asks for, clearing expired windows never frees a profile, the order has
    every profile on offer with the usable ones first, a failed one is not tried before them, and the
    reported reason has the highest score.
  \<^item> Guards, in \<open>RateLimit\<close>, \<open>ToolLoop\<close>, \<open>ExecApproval\<close>, \<open>NodeWork\<close>, \<open>DedupeCache\<close>: lockouts hold and are
    justified, repeating runs are stopped and only those, an allow-once is consumed once, drains are ordered
    and bounded, duplicates are found within their window.
  \<^item> Long work, in \<open>TaskFlow\<close>, \<open>TaskFlowStore\<close>, \<open>TaskFlowMaintenance\<close>, \<open>Pipeline\<close>: registries stay well
    formed, at most one of several guarded updates wins, a restart restores what was stored, maintenance does
    what its preview says; steps wait for their dependencies, queries never dispatch, acyclic pipelines
    complete once their gate is open, and a failure that is not skipped stops the run.
  \<^item> Lemmas on concrete inputs show where the code and what it means to do part: for example
    \<open>rate_limit_during_block_unlocks_models\<close>, \<open>account_named_group_collides\<close>,
    \<open>unset_fallback_admits_direct_senders\<close>, \<open>step_inputs_miss_step_ids\<close>, \<open>send_step_always_fails\<close>,
    \<open>skip_continue_rejects\<close>, \<open>auth_cooldown_never_escalates\<close> (the comments and the documentation announce
    growing cooldowns).

  \<^bold>\<open>Loops and bounds.\<close>  No definition uses fuel.  The rounds of a pipeline end because each round completes
  a step or stops (measure: the steps still open); template expansion and condition parsing end because what
  is left gets shorter; the other loops of the code are folds over finite lists.  Drains and batches that
  suspend are step functions, and their end is a theorem (\<open>followup_drain_terminates\<close>: any number of events
  above twice the queued items plus one).  The numeric bounds are the source's: ten items per drain of node work, the
  sizes of caches, histories and identifiers, the steps of backoff.

  \<^bold>\<open>Small simplifications.\<close>  Step outputs, inputs and environments of a pipeline are read by own keys only,
  so a template or condition that names a property of \<open>Object.prototype\<close>, such as \<open>constructor\<close>, finds
  nothing here.  The origin of a task flow's requester is an opaque text, restored as it was stored; its
  JSON encoding is not modelled.  \<open>localeCompare\<close> is an argument in the ingress modules and the order of code
  units where work items are ordered.  The \<open>onWait\<close> callback of the command queue is an event in the
  log; a callback that calls back into the queue is not modelled.  A step of a pipeline that awaits nothing
  writes its log entry when it settles, and the schedule may let it settle later than the code could.

  \<^bold>\<open>Not modelled.\<close>  The agent runtime and its model calls, the server, channel transports, plugins and
  extensions, the command line, the configuration loader, and the user interfaces are input and output around
  external systems; what the modelled parts need of them is an argument.  Migrations of old database
  layouts, file permissions, logging and resets for tests are left out of the parts that are modelled.  The
  provider aliases for credentials come from plugin manifests and are arguments of \<open>AuthOrder\<close>.  The
  memory, media and voice services mostly wrap native libraries and remote interfaces.
\<close>

end
